(* ===== verification/Prelude.thy ===== *)
theory Prelude
  imports
    Main
    "HOL-Library.Word"
    "HOL-Library.List_Lexorder"
    "HOL-Library.Char_ord"
    "HOL-Library.Product_Lexorder"
begin

text \<open>
  Shared vocabulary of the development: machine types, the wrap-around successor of the u64
  counters, little-endian integers, the byte reader that \<open>Read::read_exact\<close> gives, and the
  generic lemmas on sorted lists that the components use. Rust strings are modelled as their
  bytes (\<open>string\<close>), so list order is Rust's byte-wise string order.
\<close>

unbundle bit_operations_syntax

type_synonym u8 = "8 word"
type_synonym u32 = "32 word"
type_synonym u64 = "64 word"
type_synonym bytes = "u8 list"

text \<open>Floats are kept as IEEE bit patterns; theory Ieee gives their arithmetic.\<close>

type_synonym f32 = "32 word"
type_synonym f64 = "64 word"

named_theorems codec_simps "round trips of the byte-level encoders"
named_theorems step_simps "equations of the step functions of the stateful components"

subsection \<open>Counters and floats\<close>

text \<open>\<open>x + 1\<close> on a u64 in a release build: it wraps at \<open>2 ^ 64\<close>.\<close>

definition u64_succ :: "nat \<Rightarrow> nat" where
  "u64_succ n = (n + 1) mod 2 ^ 64"

definition u64_max :: nat where
  "u64_max = 2 ^ 64 - 1"

lemma u64_succ_less: "n < u64_max \<Longrightarrow> u64_succ n = Suc n"
  by (simp add: u64_succ_def u64_max_def)

definition i64_max :: int where
  "i64_max = 2 ^ 63 - 1"

text \<open>\<open>x == 0.0\<close> on an f32: both signed zeros and nothing else (a NaN is not equal to 0).\<close>

definition f32_eq_zero :: "f32 \<Rightarrow> bool" where
  "f32_eq_zero x \<longleftrightarrow> x AND 0x7FFFFFFF = 0"

definition f32_zero :: f32 where
  "f32_zero = 0"

definition f32_one :: f32 where
  "f32_one = 0x3F800000"

lemma f32_eq_zero_zero [simp]: "f32_eq_zero f32_zero"
  by (simp add: f32_eq_zero_def f32_zero_def)

lemma f32_eq_zero_one [simp]: "\<not> f32_eq_zero f32_one"
  by (simp add: f32_eq_zero_def f32_one_def)

subsection \<open>Little-endian u32 and exact reads\<close>

definition u32_to_le :: "u32 \<Rightarrow> bytes" where
  "u32_to_le w = [ucast w, ucast (drop_bit 8 w), ucast (drop_bit 16 w), ucast (drop_bit 24 w)]"

fun u32_from_le :: "bytes \<Rightarrow> u32" where
  "u32_from_le [a, b, c, d] =
     ucast a OR push_bit 8 (ucast b) OR push_bit 16 (ucast c) OR push_bit 24 (ucast d)"
| "u32_from_le _ = 0"

lemma length_u32_to_le [simp]: "length (u32_to_le w) = 4"
  by (simp add: u32_to_le_def)

lemma u32_from_to_le [codec_simps, simp]: "u32_from_le (u32_to_le w) = w"
  unfolding u32_to_le_def u32_from_le.simps
proof (rule bit_word_eqI)
  fix n assume n: "n < LENGTH(32)"
  consider "n < 8" | "8 \<le> n \<and> n < 16" | "16 \<le> n \<and> n < 24" | "24 \<le> n" by linarith
  then show "bit ((ucast (ucast w :: u8) :: u32) OR push_bit 8 (ucast (ucast (drop_bit 8 w) :: u8)) OR
      push_bit 16 (ucast (ucast (drop_bit 16 w) :: u8)) OR
      push_bit 24 (ucast (ucast (drop_bit 24 w) :: u8))) n = bit w n"
    using n by cases (auto simp: bit_simps)
qed

text \<open>\<open>n as u32\<close> for a usize, and back.\<close>

definition as_u32 :: "nat \<Rightarrow> u32" where
  "as_u32 n = word_of_nat n"

lemma unat_as_u32 [codec_simps]: "n < 2 ^ 32 \<Longrightarrow> unat (as_u32 n) = n"
  by (simp add: as_u32_def unat_of_nat take_bit_eq_mod)

text \<open>
  A reader is the list of bytes still to be read. \<open>read_exact\<close> fills a buffer of \<open>n\<close> bytes or
  fails (\<open>None\<close>) when fewer are left.
\<close>

definition read_exact :: "nat \<Rightarrow> bytes \<Rightarrow> (bytes \<times> bytes) option" where
  "read_exact n bs = (if n \<le> length bs then Some (take n bs, drop n bs) else None)"

lemma read_exact_append [codec_simps]:
  "length xs = n \<Longrightarrow> read_exact n (xs @ ys) = Some (xs, ys)"
  by (auto simp: read_exact_def)

lemma read_exact_SomeD:
  "read_exact n bs = Some (xs, ys) \<Longrightarrow> bs = xs @ ys \<and> length xs = n"
  by (auto simp: read_exact_def split: if_splits)

lemma read_exact_extend:
  "read_exact n bs = Some (xs, ys) \<Longrightarrow> read_exact n (bs @ zs) = Some (xs, ys @ zs)"
  by (auto simp: read_exact_def split: if_splits)

lemma read_exact_short: "length bs < n \<Longrightarrow> read_exact n bs = None"
  by (simp add: read_exact_def)

subsection \<open>Option::or\<close>

fun or_else :: "'a option \<Rightarrow> 'a option \<Rightarrow> 'a option" where
  "or_else (Some x) _ = Some x"
| "or_else None b = b"

lemma or_else_case [simp]: "(case a of None \<Rightarrow> b | Some x \<Rightarrow> Some x) = or_else a b"
  by (cases a) auto

lemma or_else_None [simp]: "or_else a None = a"
  by (cases a) auto

lemma or_else_assoc [simp]: "or_else (or_else a b) c = or_else a (or_else b c)"
  by (cases a) auto

lemma map_add_or_else: "(m ++ n) k = or_else (n k) (m k)"
  by (simp add: map_add_def)

subsection \<open>Sorted association lists and stable sorting\<close>

lemma filter_eq_fst_sort_key:
  "filter (\<lambda>p. fst p = k) (sort_key fst xs) = filter (\<lambda>p. fst p = k) xs"
  by (simp add: sort_key_stable)

lemma map_of_filter_fst: "map_of (filter (\<lambda>p. fst p = k) xs) k = map_of xs k"
  by (induction xs) auto

lemma map_of_sort_key: "map_of (sort_key fst xs) = map_of xs"
proof
  fix k
  show "map_of (sort_key fst xs) k = map_of xs k"
    by (metis filter_eq_fst_sort_key map_of_filter_fst)
qed

lemma map_of_rev_sort_key: "map_of (rev (sort_key fst xs)) = map_of (rev xs)"
proof
  fix k
  show "map_of (rev (sort_key fst xs)) k = map_of (rev xs) k"
    by (metis filter_eq_fst_sort_key map_of_filter_fst rev_filter)
qed

lemma map_of_distinct_rev:
  "distinct (map fst xs) \<Longrightarrow> map_of (rev xs) = map_of xs"
  by (rule map_of_inject_set [THEN iffD2]) (auto simp: rev_map [symmetric])

lemma map_of_restrict_filter:
  "map_of (filter (\<lambda>p. P (fst p)) xs) k = (if P k then map_of xs k else None)"
  by (induction xs) auto

lemma map_of_filter_interval:
  "map_of (filter (\<lambda>p. lo \<le> fst p \<and> fst p \<le> hi) xs) k =
     (if lo \<le> k \<and> k \<le> hi then map_of xs k else None)"
  by (rule map_of_restrict_filter)

lemma sorted_dropWhile_filter:
  "sorted (map f xs) \<Longrightarrow> dropWhile (\<lambda>x. f x < a) xs = filter (\<lambda>x. a \<le> f x) xs"
proof (induction xs)
  case (Cons x xs)
  then show ?case
    by (cases "f x < a") (auto simp: not_le not_less intro!: filter_True [symmetric])
qed simp

lemma sorted_takeWhile_filter:
  "sorted (map f xs) \<Longrightarrow> takeWhile (\<lambda>x. f x \<le> b) xs = filter (\<lambda>x. f x \<le> b) xs"
proof (induction xs)
  case (Cons x xs)
  show ?case
  proof (cases "f x \<le> b")
    case True
    with Cons show ?thesis by simp
  next
    case False
    with Cons.prems have "\<forall>y\<in>set xs. \<not> f y \<le> b" by force
    with False show ?thesis by simp
  qed
qed simp

subsection \<open>Formatting and searching\<close>

text \<open>Decimal digits as \<open>{}\<close> prints them, bytes as \<open>{:02x}\<close> does.\<close>

definition digit_char :: "nat \<Rightarrow> char" where
  "digit_char d = char_of (48 + d)"

fun dec_digits :: "nat \<Rightarrow> string" where
  "dec_digits n = (if n < 10 then [digit_char n] else dec_digits (n div 10) @ [digit_char (n mod 10)])"

declare dec_digits.simps [simp del]

definition hex_digit :: "nat \<Rightarrow> char" where
  "hex_digit d = (if d < 10 then char_of (48 + d) else char_of (87 + d))"

definition hex_bytes :: "bytes \<Rightarrow> string" where
  "hex_bytes bs = concat (map (\<lambda>b. [hex_digit (unat b div 16), hex_digit (unat b mod 16)]) bs)"

text \<open>\<open>partition_point\<close>: the length of the prefix that satisfies the predicate.\<close>

definition partition_point :: "('a \<Rightarrow> bool) \<Rightarrow> 'a list \<Rightarrow> nat" where
  "partition_point P xs = length (takeWhile P xs)"

end
