(* ===== verification/Ordered_Map.thy ===== *)
theory Ordered_Map
  imports Prelude
begin

text \<open>
  The ordered maps of the code. \<open>std::collections::BTreeMap\<close> is modelled by its entries in key
  order: \<open>bt_insert\<close>, \<open>bt_get\<close>, \<open>bt_remove\<close> and the inclusive \<open>bt_range\<close> are the operations the
  sources call. The locale \<open>ordered_map\<close> is the contract a client relies on; it is interpreted
  here on the \<open>BTreeMap\<close> model and later on the memtable. The scalar index of
  \<open>crates/fundb-indexes/src/btree.rs\<close> is the thin wrapper at the end.
\<close>

subsection \<open>BTreeMap\<close>

type_synonym ('k, 'v) btree_map = "('k \<times> 'v) list"

fun bt_insert :: "'k::linorder \<Rightarrow> 'v \<Rightarrow> ('k, 'v) btree_map \<Rightarrow> ('k, 'v) btree_map" where
  "bt_insert k v [] = [(k, v)]"
| "bt_insert k v ((l, w) # m) =
     (if k < l then (k, v) # (l, w) # m
      else if k = l then (k, v) # m
      else (l, w) # bt_insert k v m)"

fun bt_remove :: "'k::linorder \<Rightarrow> ('k, 'v) btree_map \<Rightarrow> ('k, 'v) btree_map" where
  "bt_remove k [] = []"
| "bt_remove k ((l, w) # m) = (if k = l then m else (l, w) # bt_remove k m)"

definition bt_get :: "('k, 'v) btree_map \<Rightarrow> 'k \<Rightarrow> 'v option" where
  "bt_get m k = map_of m k"

text \<open>
  \<open>range((lo, hi))\<close> panics (\<open>None\<close>) when the start bound lies after the end bound, and when both
  bounds exclude the same key.
\<close>

datatype 'k bound = Included 'k | Excluded 'k | Unbounded

fun above :: "'k::linorder bound \<Rightarrow> 'k \<Rightarrow> bool" where
  "above (Included a) k = (a \<le> k)"
| "above (Excluded a) k = (a < k)"
| "above Unbounded k = True"

fun below :: "'k::linorder bound \<Rightarrow> 'k \<Rightarrow> bool" where
  "below (Included b) k = (k \<le> b)"
| "below (Excluded b) k = (k < b)"
| "below Unbounded k = True"

fun range_panics :: "'k::linorder bound \<Rightarrow> 'k bound \<Rightarrow> bool" where
  "range_panics (Excluded a) (Excluded b) = (b \<le> a)"
| "range_panics (Included a) (Included b) = (b < a)"
| "range_panics (Included a) (Excluded b) = (b < a)"
| "range_panics (Excluded a) (Included b) = (b < a)"
| "range_panics _ _ = False"

definition bt_range ::
  "('k::linorder, 'v) btree_map \<Rightarrow> 'k bound \<Rightarrow> 'k bound \<Rightarrow> ('k \<times> 'v) list option" where
  "bt_range m lo hi =
     (if range_panics lo hi then None else Some (filter (\<lambda>(k, _). above lo k \<and> below hi k) m))"

definition bt_inv :: "('k::linorder, 'v) btree_map \<Rightarrow> bool" where
  "bt_inv m \<longleftrightarrow> sorted (map fst m) \<and> distinct (map fst m)"

lemma bt_get_Nil [simp]: "bt_get [] k = None"
  by (simp add: bt_get_def)

lemma bt_inv_Nil [simp]: "bt_inv []"
  by (simp add: bt_inv_def)

lemma keys_bt_insert: "fst ` set (bt_insert k v m) = insert k (fst ` set m)"
  by (induction k v m rule: bt_insert.induct) auto

lemma keys_bt_remove:
  "distinct (map fst m) \<Longrightarrow> fst ` set (bt_remove k m) = fst ` set m - {k}"
  by (induction k m rule: bt_remove.induct) (auto simp: image_iff)

lemma bt_get_insert: "bt_get (bt_insert k v m) = (bt_get m)(k \<mapsto> v)"
  by (induction k v m rule: bt_insert.induct) (auto simp: bt_get_def fun_eq_iff)

lemma bt_inv_insert: "bt_inv m \<Longrightarrow> bt_inv (bt_insert k v m)"
proof (induction k v m rule: bt_insert.induct)
  case (2 k v l w m)
  then have IH: "l < k \<Longrightarrow> bt_inv (bt_insert k v m)"
    by (auto simp: bt_inv_def)
  show ?case
    using "2.prems" IH keys_bt_insert [of k v m] by (auto simp: bt_inv_def)
qed (simp add: bt_inv_def)

lemma bt_get_remove: "bt_inv m \<Longrightarrow> bt_get (bt_remove k m) = (bt_get m)(k := None)"
  by (induction k m rule: bt_remove.induct)
    (auto simp: bt_inv_def bt_get_def fun_eq_iff map_of_eq_None_iff)

lemma bt_inv_remove: "bt_inv m \<Longrightarrow> bt_inv (bt_remove k m)"
proof (induction k m rule: bt_remove.induct)
  case (2 k l w m)
  then show ?case
    using keys_bt_remove [of m k] by (auto simp: bt_inv_def)
qed (simp add: bt_inv_def)

lemma bt_range_Some:
  assumes "bt_range m lo hi = Some ps"
  shows "map_of ps k = (if above lo k \<and> below hi k then bt_get m k else None)"
    and "bt_inv m \<Longrightarrow> bt_inv ps"
proof -
  have ps: "ps = filter (\<lambda>(k, _). above lo k \<and> below hi k) m"
    using assms by (simp add: bt_range_def split: if_splits)
  show "map_of ps k = (if above lo k \<and> below hi k then bt_get m k else None)"
    unfolding ps by (induction m) (auto simp: bt_get_def)
  show "bt_inv m \<Longrightarrow> bt_inv ps"
    unfolding ps by (auto simp: bt_inv_def distinct_map_filter sorted_filter)
qed

lemma length_bt_insert:
  "bt_inv m \<Longrightarrow>
     length (bt_insert k v m) = length m + (if bt_get m k = None then 1 else 0)"
proof (induction k v m rule: bt_insert.induct)
  case (2 k v l w m)
  show ?case
  proof (cases "k < l")
    case True
    with "2.prems" have "map_of m k = None"
      by (force simp: bt_inv_def map_of_eq_None_iff)
    with True show ?thesis by (auto simp: bt_get_def)
  next
    case False
    with 2 show ?thesis by (auto simp: bt_inv_def bt_get_def)
  qed
qed (simp add: bt_get_def)

text \<open>Inserting all pairs of a list in order: later pairs overwrite earlier ones.\<close>

definition bt_insert_all :: "('k \<times> 'v) list \<Rightarrow> ('k::linorder, 'v) btree_map \<Rightarrow> ('k, 'v) btree_map"
  where "bt_insert_all ps m = fold (\<lambda>(k, v). bt_insert k v) ps m"

lemma bt_insert_all_Cons [simp]:
  "bt_insert_all ((k, v) # ps) m = bt_insert_all ps (bt_insert k v m)"
  by (simp add: bt_insert_all_def)

lemma bt_insert_all_Nil [simp]: "bt_insert_all [] m = m"
  by (simp add: bt_insert_all_def)

lemma bt_insert_all_append:
  "bt_insert_all (ps @ qs) m = bt_insert_all qs (bt_insert_all ps m)"
  by (simp add: bt_insert_all_def)

lemma bt_inv_insert_all: "bt_inv m \<Longrightarrow> bt_inv (bt_insert_all ps m)"
  by (induction ps arbitrary: m) (simp_all add: bt_inv_insert split_beta bt_insert_all_def)

lemma bt_get_insert_all: "bt_get (bt_insert_all ps m) = bt_get m ++ map_of (rev ps)"
proof (induction ps arbitrary: m)
  case (Cons p ps)
  then show ?case
    by (cases p) (simp add: bt_get_insert map_add_upd map_of_append fun_eq_iff map_add_def
        split: option.splits)
qed simp

subsection \<open>The contract of an ordered map\<close>

locale ordered_map =
  fixes empty :: "'m"
    and insert :: "'k::linorder \<Rightarrow> 'v \<Rightarrow> 'm \<Rightarrow> 'm"
    and lookup :: "'m \<Rightarrow> 'k \<Rightarrow> 'v option"
    and entries :: "'m \<Rightarrow> ('k \<times> 'v) list"
    and wf :: "'m \<Rightarrow> bool"
  assumes wf_empty: "wf empty"
    and wf_insert: "wf m \<Longrightarrow> wf (insert k v m)"
    and lookup_empty: "lookup empty = Map.empty"
    and lookup_insert: "wf m \<Longrightarrow> lookup (insert k v m) = (lookup m)(k \<mapsto> v)"
    and map_of_entries: "wf m \<Longrightarrow> map_of (entries m) = lookup m"
    and sorted_entries: "wf m \<Longrightarrow> bt_inv (entries m)"
begin

text \<open>Loading a list of pairs into an ordered map.\<close>

lemma wf_fold: "wf m \<Longrightarrow> wf (fold (\<lambda>(k, v). insert k v) ps m)"
  by (induction ps arbitrary: m) (simp_all add: wf_insert split_beta)

lemma lookup_fold:
  "wf m \<Longrightarrow> lookup (fold (\<lambda>(k, v). insert k v) ps m) = lookup m ++ map_of (rev ps)"
proof (induction ps arbitrary: m)
  case (Cons p ps)
  then show ?case
    by (cases p) (simp add: wf_insert lookup_insert map_add_def fun_eq_iff split: option.splits)
qed simp

text \<open>Last write wins: the value loaded for a key is the last one of the list.\<close>

lemma lookup_load: "lookup (fold (\<lambda>(k, v). insert k v) ps empty) k = map_of (rev ps) k"
  by (simp add: lookup_fold wf_empty lookup_empty)

text \<open>The entries of a loaded map are the map itself, in key order.\<close>

lemma map_of_entries_load:
  "map_of (entries (fold (\<lambda>(k, v). insert k v) ps empty)) = map_of (rev ps)"
  by (simp add: map_of_entries wf_fold wf_empty fun_eq_iff lookup_load)

end

interpretation bt: ordered_map "[]" bt_insert bt_get "\<lambda>m. m" bt_inv
  by unfold_locales (auto simp: bt_inv_insert bt_get_insert bt_get_def fun_eq_iff)

subsection \<open>The scalar index (btree.rs)\<close>

text \<open>
  \<open>BTree<K, V>\<close> delegates every operation; the \<open>Result\<close> its operations return is always \<open>Ok\<close>.
\<close>

record ('k, 'v) btree_index =
  ix_inner :: "('k, 'v) btree_map"

definition ix_new :: "('k, 'v) btree_index" where
  "ix_new = \<lparr>ix_inner = []\<rparr>"

definition ix_insert :: "'k::linorder \<Rightarrow> 'v \<Rightarrow> ('k, 'v) btree_index \<Rightarrow> ('k, 'v) btree_index" where
  "ix_insert k v t = t\<lparr>ix_inner := bt_insert k v (ix_inner t)\<rparr>"

definition ix_get :: "('k, 'v) btree_index \<Rightarrow> 'k \<Rightarrow> 'v option" where
  "ix_get t k = bt_get (ix_inner t) k"

definition ix_range ::
  "('k::linorder, 'v) btree_index \<Rightarrow> 'k bound \<Rightarrow> 'k bound \<Rightarrow> ('k \<times> 'v) list option" where
  "ix_range t lo hi = bt_range (ix_inner t) lo hi"

definition ix_delete :: "'k::linorder \<Rightarrow> ('k, 'v) btree_index \<Rightarrow> bool \<times> ('k, 'v) btree_index" where
  "ix_delete k t = (bt_get (ix_inner t) k \<noteq> None, t\<lparr>ix_inner := bt_remove k (ix_inner t)\<rparr>)"

definition ix_len :: "('k, 'v) btree_index \<Rightarrow> nat" where
  "ix_len t = length (ix_inner t)"

definition ix_is_empty :: "('k, 'v) btree_index \<Rightarrow> bool" where
  "ix_is_empty t \<longleftrightarrow> ix_inner t = []"

definition ix_wf :: "('k::linorder, 'v) btree_index \<Rightarrow> bool" where
  "ix_wf t \<longleftrightarrow> bt_inv (ix_inner t)"

interpretation ix: ordered_map ix_new ix_insert ix_get ix_inner ix_wf
  by unfold_locales
    (auto simp: ix_new_def ix_insert_def ix_get_def ix_wf_def bt_inv_insert bt_get_insert
      bt_get_def fun_eq_iff)

end
