(* ===== verification/Record_Types.thy ===== *)
theory Record_Types
  imports Ordered_Map
begin

text \<open>
  The data model of \<open>crates/fundb-core\<close>: \<open>types.rs\<close> (keys and the cognitive enums),
  \<open>record.rs\<close> (\<open>FunRecord\<close> and its parts), the builder of \<open>builder.rs\<close> and the token estimate of
  \<open>codec.rs\<close>. A float is its IEEE bit pattern, a UUID its 16 bytes, a \<open>BTreeMap\<close> field an
  association list. The UUID source and the clock of \<open>build\<close> are arguments. \<open>RecordKey\<close> is made a
  linear order by the derived lexicographic order of its two fields.
\<close>

type_synonym timestamp = int
type_synonym uuid = bytes

datatype record_key = RecordKey (key_collection: string) (key_id: bytes)

datatype causal_type = Caused | Influenced | Correlated | Preceded

datatype causal_origin =
    UserDeclared
  | Granger (p_value: f64) (granger_lag: u32)
  | TemporalPrecedence (correlation: f64)
  | LlmValidated (llm_model: string) (coherence_score: f32)

datatype stability_status = Stable | Unstable | Provisional | NotApplicable

datatype direction_status = Confirmed | DirectionUncertain

datatype memory_type = Episodic | Semantic | Procedural

datatype source_method = Inference | Observation | Aggregation | Import | ManualAnnotation

record edge =
  e_label :: string
  e_target :: uuid
  e_props :: bytes
  e_confidence :: f32

record sample =
  s_ts :: timestamp
  s_value :: f64

record source =
  src_origin :: string
  src_timestamp :: timestamp
  src_method :: source_method
  src_confidence :: f32

record rref =
  r_id :: uuid
  r_strength :: f32

record causal_edge =
  source_id :: uuid
  target_id :: uuid
  relation :: causal_type
  strength :: f32
  mechanism :: "string option"
  ce_origin :: causal_origin
  ce_confidence :: f32
  stability_score :: "f32 option"
  ce_stability_status :: stability_status
  ce_direction_status :: direction_status
  discovery_algo :: "string option"

record fun_record =
  rec_id :: uuid
  rec_collection :: string
  rec_tenant :: u32
  rec_sys_from :: timestamp
  rec_sys_to :: timestamp
  rec_valid_from :: timestamp
  rec_valid_to :: timestamp
  rec_data :: bytes
  rec_vectors :: "(string \<times> f32 list) list"
  rec_edges :: "edge list"
  rec_timeseries :: "sample list"
  rec_confidence :: f32
  rec_sources :: "source list"
  rec_supports :: "rref list"
  rec_contradicts :: "rref list"
  rec_caused_by :: "causal_edge list"
  rec_effects :: "causal_edge list"

subsection \<open>The order of record keys\<close>

definition key_pair :: "record_key \<Rightarrow> string \<times> bytes" where
  "key_pair k = (key_collection k, key_id k)"

lemma key_pair_inject [simp]: "key_pair k = key_pair l \<longleftrightarrow> k = l"
  by (cases k; cases l) (auto simp: key_pair_def)

instantiation record_key :: linorder
begin

definition less_eq_record_key :: "record_key \<Rightarrow> record_key \<Rightarrow> bool" where
  "k \<le> l \<longleftrightarrow> key_pair k \<le> key_pair l"

definition less_record_key :: "record_key \<Rightarrow> record_key \<Rightarrow> bool" where
  "k < l \<longleftrightarrow> key_pair k < key_pair l"

instance
  by standard (auto simp: less_eq_record_key_def less_record_key_def less_le)

end

lemma record_key_less [simp]:
  "RecordKey c i < RecordKey d j \<longleftrightarrow> c < d \<or> c = d \<and> i < j"
  by (auto simp: less_record_key_def key_pair_def less_prod_def less_eq_prod_def)

lemma record_key_le [simp]:
  "RecordKey c i \<le> RecordKey d j \<longleftrightarrow> c < d \<or> c = d \<and> i \<le> j"
  by (auto simp: less_eq_record_key_def key_pair_def less_eq_prod_def)

subsection \<open>The builder\<close>

record record_builder =
  b_collection :: string
  b_tenant :: u32
  b_data :: bytes
  b_vectors :: "(string \<times> f32 list) list"
  b_edges :: "edge list"
  b_timeseries :: "sample list"
  b_confidence :: f32
  b_sources :: "source list"
  b_supports :: "rref list"
  b_contradicts :: "rref list"
  b_caused_by :: "causal_edge list"
  b_effects :: "causal_edge list"
  b_valid_from :: timestamp
  b_valid_to :: timestamp

definition builder_new :: "string \<Rightarrow> record_builder" where
  "builder_new c = \<lparr>b_collection = c, b_tenant = 0, b_data = [], b_vectors = [], b_edges = [],
     b_timeseries = [], b_confidence = f32_one, b_sources = [], b_supports = [],
     b_contradicts = [], b_caused_by = [], b_effects = [], b_valid_from = 0,
     b_valid_to = i64_max\<rparr>"

definition builder_confidence :: "f32 \<Rightarrow> record_builder \<Rightarrow> record_builder" where
  "builder_confidence c b = b\<lparr>b_confidence := c\<rparr>"

definition builder_tenant :: "u32 \<Rightarrow> record_builder \<Rightarrow> record_builder" where
  "builder_tenant t b = b\<lparr>b_tenant := t\<rparr>"

definition builder_data :: "bytes \<Rightarrow> record_builder \<Rightarrow> record_builder" where
  "builder_data payload b = b\<lparr>b_data := payload\<rparr>"

definition builder_vector :: "string \<Rightarrow> f32 list \<Rightarrow> record_builder \<Rightarrow> record_builder" where
  "builder_vector name vec b = b\<lparr>b_vectors := bt_insert name vec (b_vectors b)\<rparr>"

definition builder_edge :: "edge \<Rightarrow> record_builder \<Rightarrow> record_builder" where
  "builder_edge e b = b\<lparr>b_edges := b_edges b @ [e]\<rparr>"

definition builder_sample :: "sample \<Rightarrow> record_builder \<Rightarrow> record_builder" where
  "builder_sample x b = b\<lparr>b_timeseries := b_timeseries b @ [x]\<rparr>"

definition builder_source :: "source \<Rightarrow> record_builder \<Rightarrow> record_builder" where
  "builder_source x b = b\<lparr>b_sources := b_sources b @ [x]\<rparr>"

definition builder_supports :: "rref \<Rightarrow> record_builder \<Rightarrow> record_builder" where
  "builder_supports x b = b\<lparr>b_supports := b_supports b @ [x]\<rparr>"

definition builder_contradicts :: "rref \<Rightarrow> record_builder \<Rightarrow> record_builder" where
  "builder_contradicts x b = b\<lparr>b_contradicts := b_contradicts b @ [x]\<rparr>"

definition builder_valid_time :: "timestamp \<Rightarrow> timestamp \<Rightarrow> record_builder \<Rightarrow> record_builder" where
  "builder_valid_time from to b = b\<lparr>b_valid_from := from, b_valid_to := to\<rparr>"

definition builder_caused_by :: "causal_edge \<Rightarrow> record_builder \<Rightarrow> record_builder" where
  "builder_caused_by x b = b\<lparr>b_caused_by := b_caused_by b @ [x]\<rparr>"

definition builder_effect :: "causal_edge \<Rightarrow> record_builder \<Rightarrow> record_builder" where
  "builder_effect x b = b\<lparr>b_effects := b_effects b @ [x]\<rparr>"

definition builder_build :: "uuid \<Rightarrow> timestamp \<Rightarrow> record_builder \<Rightarrow> fun_record" where
  "builder_build new_id now_ns b =
     \<lparr>rec_id = new_id, rec_collection = b_collection b, rec_tenant = b_tenant b,
      rec_sys_from = now_ns, rec_sys_to = i64_max, rec_valid_from = b_valid_from b,
      rec_valid_to = b_valid_to b, rec_data = b_data b, rec_vectors = b_vectors b,
      rec_edges = b_edges b, rec_timeseries = b_timeseries b, rec_confidence = b_confidence b,
      rec_sources = b_sources b, rec_supports = b_supports b, rec_contradicts = b_contradicts b,
      rec_caused_by = b_caused_by b, rec_effects = b_effects b\<rparr>"

lemma build_default_confidence [simp]:
  "rec_confidence (builder_build i t (builder_new c)) = f32_one"
  by (simp add: builder_build_def builder_new_def)

lemma build_confidence [simp]:
  "rec_confidence (builder_build i t (builder_confidence x b)) = x"
  by (simp add: builder_build_def builder_confidence_def)

subsection \<open>Token estimate (codec.rs)\<close>

definition estimate_tokens :: "fun_record \<Rightarrow> u32" where
  "estimate_tokens r =
     (let byte_length = length (rec_data r);
          vector_dims = sum_list (map (\<lambda>(_, v). length v) (rec_vectors r));
          scalar_fields = 10;
          a = byte_length div 4;
          b = vector_dims * 6 + scalar_fields * 3
      in as_u32 (max a b))"

end
