(* ===== verification/Record_Source.thy ===== *)
theory Record_Source
  imports Ordered_Map Record_Types
begin

text \<open>
  The contract the LSM tree relies on: a layer (memtable, frozen memtable, SSTable) answers a point
  lookup and an inclusive range scan, and the two agree. From it follows, once for all layers, what
  a scan that merges a list of layers oldest first holds for a key: the value of the newest layer
  that has one, which is what a lookup newest first finds.
\<close>

text \<open>The first layer that knows the key, layers given newest first.\<close>

fun first_hit :: "('s \<Rightarrow> 'k \<Rightarrow> 'v option) \<Rightarrow> 's list \<Rightarrow> 'k \<Rightarrow> 'v option" where
  "first_hit look [] k = None"
| "first_hit look (s # ss) k = or_else (look s k) (first_hit look ss k)"

lemma first_hit_append:
  "first_hit look (ss @ ts) k = or_else (first_hit look ss k) (first_hit look ts k)"
  by (induction ss) auto

lemma first_hit_cong:
  "(\<And>s. s \<in> set ss \<Longrightarrow> look s k = look' s k) \<Longrightarrow> first_hit look ss k = first_hit look' ss k"
  by (induction ss) auto

lemma first_hit_map: "first_hit look (map f ss) k = first_hit (\<lambda>s. look (f s)) ss k"
  by (induction ss) auto

lemma first_hit_None: "first_hit look ss k = None \<longleftrightarrow> (\<forall>s\<in>set ss. look s k = None)"
proof (induction ss)
  case (Cons s ss)
  then show ?case by (cases "look s k") auto
qed simp

locale record_source =
  fixes look :: "'s \<Rightarrow> record_key \<Rightarrow> fun_record option"
    and scan :: "'s \<Rightarrow> record_key \<Rightarrow> record_key \<Rightarrow> (record_key \<times> fun_record) list"
    and wf :: "'s \<Rightarrow> bool"
  assumes scan_look:
      "wf s \<Longrightarrow> lo \<le> hi \<Longrightarrow> map_of (scan s lo hi) k = (if lo \<le> k \<and> k \<le> hi then look s k else None)"
    and scan_sorted: "wf s \<Longrightarrow> lo \<le> hi \<Longrightarrow> bt_inv (scan s lo hi)"
begin

lemma map_of_rev_scan:
  "wf s \<Longrightarrow> lo \<le> hi \<Longrightarrow>
     map_of (rev (scan s lo hi)) k = (if lo \<le> k \<and> k \<le> hi then look s k else None)"
  by (metis bt_inv_def map_of_distinct_rev scan_look scan_sorted)

lemma merge_inv:
  "bt_inv m \<Longrightarrow> bt_inv (fold (\<lambda>s. bt_insert_all (scan s lo hi)) ss m)"
  by (induction ss arbitrary: m) (simp_all add: bt_inv_insert_all)

lemma merge_get:
  "\<forall>s\<in>set ss. wf s \<Longrightarrow> lo \<le> k \<Longrightarrow> k \<le> hi \<Longrightarrow>
     bt_get (fold (\<lambda>s. bt_insert_all (scan s lo hi)) ss m) k =
       or_else (first_hit look (rev ss) k) (bt_get m k)"
proof (induction ss arbitrary: m)
  case (Cons s ss)
  then have "lo \<le> hi" by (auto intro: order_trans)
  with Cons show ?case
    by (simp add: bt_get_insert_all map_of_rev_scan map_add_or_else first_hit_append)
qed simp

lemma merge_outside:
  "\<forall>s\<in>set ss. wf s \<Longrightarrow> lo \<le> hi \<Longrightarrow> \<not> (lo \<le> k \<and> k \<le> hi) \<Longrightarrow>
     bt_get (fold (\<lambda>s. bt_insert_all (scan s lo hi)) ss m) k = bt_get m k"
proof (induction ss arbitrary: m)
  case (Cons s ss)
  then show ?case
    by (simp add: bt_get_insert_all map_of_rev_scan map_add_or_else del: de_Morgan_conj)
qed simp

end

end
