(* ===== verification/Ieee.thy ===== *)
theory Ieee
  imports Prelude
begin

text \<open>
  The IEEE 754 arithmetic of Rust's f32 and f64. A float is its bit pattern; an operation decodes
  its arguments to a sign, an integer mantissa and an exponent, computes exactly over the integers
  and rounds the result to the nearest value, ties to even. Every result that is not a number is
  the same quiet NaN: the payload, which Rust leaves open, is not modelled. Comparisons read the
  magnitude of the bit pattern as a sign-magnitude integer.
\<close>

datatype fmt = Binary32 | Binary64

datatype ieee = FNan | FInf bool | FFin bool nat int

subsection \<open>Formats\<close>

fun prec :: "fmt \<Rightarrow> nat" where
  "prec Binary32 = 24"
| "prec Binary64 = 53"

text \<open>The exponents of the integer mantissa: smallest and largest.\<close>

fun emin :: "fmt \<Rightarrow> int" where
  "emin Binary32 = - 149"
| "emin Binary64 = - 1074"

fun emax :: "fmt \<Rightarrow> int" where
  "emax Binary32 = 104"
| "emax Binary64 = 971"

text \<open>The exponent field of infinities and NaNs, and the weight of the sign bit.\<close>

fun exp_ones :: "fmt \<Rightarrow> nat" where
  "exp_ones Binary32 = 255"
| "exp_ones Binary64 = 2047"

fun sign_weight :: "fmt \<Rightarrow> nat" where
  "sign_weight Binary32 = 2 ^ 31"
| "sign_weight Binary64 = 2 ^ 63"

definition decode :: "fmt \<Rightarrow> nat \<Rightarrow> ieee" where
  "decode F n =
     (let h = 2 ^ (prec F - 1); s = sign_weight F \<le> n; frac = n mod h;
          ex = n div h mod (exp_ones F + 1)
      in if ex = exp_ones F then (if frac = 0 then FInf s else FNan)
         else if ex = 0 then FFin s frac (emin F)
         else FFin s (frac + h) (emin F + int ex - 1))"

definition encode :: "fmt \<Rightarrow> ieee \<Rightarrow> nat" where
  "encode F v =
     (let h = 2 ^ (prec F - 1)
      in case v of
           FNan \<Rightarrow> exp_ones F * h + h div 2
         | FInf s \<Rightarrow> (if s then sign_weight F else 0) + exp_ones F * h
         | FFin s m e \<Rightarrow>
             (if s then sign_weight F else 0) +
             (if m < h then m else nat (e - emin F + 1) * h + (m - h)))"

subsection \<open>Rounding\<close>

fun bitlen :: "nat \<Rightarrow> nat" where
  "bitlen n = (if n = 0 then 0 else Suc (bitlen (n div 2)))"

declare bitlen.simps [simp del]

text \<open>The fraction \<open>(num / den) * 2 ^ d\<close> as a numerator and a denominator.\<close>

definition scale :: "nat \<Rightarrow> nat \<Rightarrow> int \<Rightarrow> nat \<times> nat" where
  "scale num den d = (if 0 \<le> d then (num * 2 ^ nat d, den) else (num, den * 2 ^ nat (- d)))"

definition nearest_even :: "nat \<times> nat \<Rightarrow> nat" where
  "nearest_even p =
     (let q = fst p div snd p; r = fst p mod snd p
      in if 2 * r > snd p \<or> 2 * r = snd p \<and> odd q then q + 1 else q)"

text \<open>The float nearest to \<open>(num / den) * 2 ^ x\<close>.\<close>

definition round_ratio :: "fmt \<Rightarrow> bool \<Rightarrow> nat \<Rightarrow> nat \<Rightarrow> int \<Rightarrow> ieee" where
  "round_ratio F s num den x =
     (if num = 0 then FFin s 0 (emin F)
      else
        let t = int (bitlen num) - int (bitlen den) + x - int (prec F);
            (n0, d0) = scale num den (x - t);
            e = max (emin F) (if 2 ^ prec F \<le> n0 div d0 then t + 1 else t);
            q = nearest_even (scale num den (x - e));
            (m, e') = (if q = 2 ^ prec F then (2 ^ (prec F - 1), e + 1) else (q, e))
        in if e' > emax F then FInf s else FFin s m e')"

definition round_int :: "fmt \<Rightarrow> bool \<Rightarrow> int \<Rightarrow> int \<Rightarrow> ieee" where
  "round_int F s i x = round_ratio F (if i = 0 then s else i < 0) (nat \<bar>i\<bar>) 1 x"

subsection \<open>Arithmetic\<close>

definition signed :: "bool \<Rightarrow> nat \<Rightarrow> int" where
  "signed s m = (if s then - int m else int m)"

fun ieee_add :: "fmt \<Rightarrow> ieee \<Rightarrow> ieee \<Rightarrow> ieee" where
  "ieee_add F (FFin s m e) (FFin s' m' e') =
     (let k = min e e'
      in round_int F (s \<and> s') (signed s (m * 2 ^ nat (e - k)) + signed s' (m' * 2 ^ nat (e' - k))) k)"
| "ieee_add F (FInf s) (FInf s') = (if s = s' then FInf s else FNan)"
| "ieee_add F (FInf s) (FFin _ _ _) = FInf s"
| "ieee_add F (FFin _ _ _) (FInf s) = FInf s"
| "ieee_add F _ _ = FNan"

fun ieee_neg :: "ieee \<Rightarrow> ieee" where
  "ieee_neg FNan = FNan"
| "ieee_neg (FInf s) = FInf (\<not> s)"
| "ieee_neg (FFin s m e) = FFin (\<not> s) m e"

fun ieee_abs :: "ieee \<Rightarrow> ieee" where
  "ieee_abs FNan = FNan"
| "ieee_abs (FInf _) = FInf False"
| "ieee_abs (FFin _ m e) = FFin False m e"

fun ieee_mul :: "fmt \<Rightarrow> ieee \<Rightarrow> ieee \<Rightarrow> ieee" where
  "ieee_mul F (FFin s m e) (FFin s' m' e') = round_ratio F (s \<noteq> s') (m * m') 1 (e + e')"
| "ieee_mul F (FInf s) (FInf s') = FInf (s \<noteq> s')"
| "ieee_mul F (FInf s) (FFin s' m _) = (if m = 0 then FNan else FInf (s \<noteq> s'))"
| "ieee_mul F (FFin s' m _) (FInf s) = (if m = 0 then FNan else FInf (s \<noteq> s'))"
| "ieee_mul F _ _ = FNan"

fun ieee_div :: "fmt \<Rightarrow> ieee \<Rightarrow> ieee \<Rightarrow> ieee" where
  "ieee_div F (FFin s m e) (FFin s' m' e') =
     (if m' = 0 then (if m = 0 then FNan else FInf (s \<noteq> s'))
      else round_ratio F (s \<noteq> s') m m' (e - e'))"
| "ieee_div F (FInf s) (FFin s' _ _) = FInf (s \<noteq> s')"
| "ieee_div F (FFin s _ _) (FInf s') = FFin (s \<noteq> s') 0 (emin F)"
| "ieee_div F _ _ = FNan"

fun isqrt :: "nat \<Rightarrow> nat" where
  "isqrt n = (if n = 0 then 0 else let r = 2 * isqrt (n div 4) in if (r + 1) * (r + 1) \<le> n then r + 1 else r)"

declare isqrt.simps [simp del]

text \<open>
  The root of \<open>m * 2 ^ e\<close> is taken of a multiple by an even power of two, so large that the integer
  root has more bits than the format; an inexact root is marked by a last bit of one.
\<close>

fun ieee_sqrt :: "fmt \<Rightarrow> ieee \<Rightarrow> ieee" where
  "ieee_sqrt F (FFin s m e) =
     (if m = 0 then FFin s 0 (emin F)
      else if s then FNan
      else
        let k = 2 * prec F + 4 + (if even e then 0 else 1);
            n = m * 2 ^ k; r = isqrt n
        in round_ratio F False (2 * r + (if r * r = n then 0 else 1)) 1 ((e - int k) div 2 - 1))"
| "ieee_sqrt F (FInf s) = (if s then FNan else FInf False)"
| "ieee_sqrt F FNan = FNan"

text \<open>The integer part of the value and the two neighbouring integers.\<close>

definition trunc_mag :: "nat \<Rightarrow> int \<Rightarrow> nat" where
  "trunc_mag m e = (if 0 \<le> e then m * 2 ^ nat e else m div 2 ^ nat (- e))"

definition is_integral :: "nat \<Rightarrow> int \<Rightarrow> bool" where
  "is_integral m e \<longleftrightarrow> 0 \<le> e \<or> m mod 2 ^ nat (- e) = 0"

fun ieee_ceil :: "fmt \<Rightarrow> ieee \<Rightarrow> ieee" where
  "ieee_ceil F (FFin s m e) =
     round_ratio F s (trunc_mag m e + (if s \<or> is_integral m e then 0 else 1)) 1 0"
| "ieee_ceil F v = v"

fun ieee_floor :: "fmt \<Rightarrow> ieee \<Rightarrow> ieee" where
  "ieee_floor F (FFin s m e) =
     round_ratio F s (trunc_mag m e + (if \<not> s \<or> is_integral m e then 0 else 1)) 1 0"
| "ieee_floor F v = v"

text \<open>\<open>round\<close>: to the nearest integer, half away from zero.\<close>

fun ieee_round :: "fmt \<Rightarrow> ieee \<Rightarrow> ieee" where
  "ieee_round F (FFin s m e) =
     round_ratio F s (if 0 \<le> e then trunc_mag m e else (2 * m + 2 ^ nat (- e)) div (2 * 2 ^ nat (- e))) 1 0"
| "ieee_round F v = v"

text \<open>\<open>v as\<close> an integer type with values from \<open>lo\<close> to \<open>hi\<close>: toward zero, saturating, NaN to 0.\<close>

fun ieee_as_int :: "int \<Rightarrow> int \<Rightarrow> ieee \<Rightarrow> int" where
  "ieee_as_int lo hi FNan = 0"
| "ieee_as_int lo hi (FInf s) = (if s then lo else hi)"
| "ieee_as_int lo hi (FFin s m e) = max lo (min hi (signed s (trunc_mag m e)))"

fun ieee_convert :: "fmt \<Rightarrow> ieee \<Rightarrow> ieee" where
  "ieee_convert F (FFin s m e) = round_ratio F s m 1 e"
| "ieee_convert F v = v"

subsection \<open>Bit patterns: order and the operations of f32 and f64\<close>

definition magnitude :: "fmt \<Rightarrow> nat \<Rightarrow> nat" where
  "magnitude F n = n mod sign_weight F"

definition is_nan :: "fmt \<Rightarrow> nat \<Rightarrow> bool" where
  "is_nan F n \<longleftrightarrow> exp_ones F * 2 ^ (prec F - 1) < magnitude F n"

definition order_key :: "fmt \<Rightarrow> nat \<Rightarrow> int" where
  "order_key F n = signed (sign_weight F \<le> n) (magnitude F n)"

definition fp_lt :: "fmt \<Rightarrow> nat \<Rightarrow> nat \<Rightarrow> bool" where
  "fp_lt F a b \<longleftrightarrow> \<not> is_nan F a \<and> \<not> is_nan F b \<and> order_key F a < order_key F b"

definition fp_le :: "fmt \<Rightarrow> nat \<Rightarrow> nat \<Rightarrow> bool" where
  "fp_le F a b \<longleftrightarrow> \<not> is_nan F a \<and> \<not> is_nan F b \<and> order_key F a \<le> order_key F b"

definition f64_val :: "f64 \<Rightarrow> ieee" where
  "f64_val w = decode Binary64 (unat w)"

definition f64_bits :: "ieee \<Rightarrow> f64" where
  "f64_bits v = word_of_nat (encode Binary64 v)"

definition f32_val :: "f32 \<Rightarrow> ieee" where
  "f32_val w = decode Binary32 (unat w)"

definition f32_bits :: "ieee \<Rightarrow> f32" where
  "f32_bits v = word_of_nat (encode Binary32 v)"

definition f64_is_nan :: "f64 \<Rightarrow> bool" where
  "f64_is_nan a = is_nan Binary64 (unat a)"

definition f64_lt :: "f64 \<Rightarrow> f64 \<Rightarrow> bool" where
  "f64_lt a b = fp_lt Binary64 (unat a) (unat b)"

definition f64_le :: "f64 \<Rightarrow> f64 \<Rightarrow> bool" where
  "f64_le a b = fp_le Binary64 (unat a) (unat b)"

definition f64_eq :: "f64 \<Rightarrow> f64 \<Rightarrow> bool" where
  "f64_eq a b \<longleftrightarrow> f64_le a b \<and> f64_le b a"

definition f32_lt :: "f32 \<Rightarrow> f32 \<Rightarrow> bool" where
  "f32_lt a b = fp_lt Binary32 (unat a) (unat b)"

definition f32_le :: "f32 \<Rightarrow> f32 \<Rightarrow> bool" where
  "f32_le a b = fp_le Binary32 (unat a) (unat b)"

definition f32_eq :: "f32 \<Rightarrow> f32 \<Rightarrow> bool" where
  "f32_eq a b \<longleftrightarrow> f32_le a b \<and> f32_le b a"

definition f64_add :: "f64 \<Rightarrow> f64 \<Rightarrow> f64" where
  "f64_add a b = f64_bits (ieee_add Binary64 (f64_val a) (f64_val b))"

definition f64_sub :: "f64 \<Rightarrow> f64 \<Rightarrow> f64" where
  "f64_sub a b = f64_bits (ieee_add Binary64 (f64_val a) (ieee_neg (f64_val b)))"

definition f64_mul :: "f64 \<Rightarrow> f64 \<Rightarrow> f64" where
  "f64_mul a b = f64_bits (ieee_mul Binary64 (f64_val a) (f64_val b))"

definition f64_div :: "f64 \<Rightarrow> f64 \<Rightarrow> f64" where
  "f64_div a b = f64_bits (ieee_div Binary64 (f64_val a) (f64_val b))"

definition f64_abs :: "f64 \<Rightarrow> f64" where
  "f64_abs a = f64_bits (ieee_abs (f64_val a))"

definition f64_ceil :: "f64 \<Rightarrow> f64" where
  "f64_ceil a = f64_bits (ieee_ceil Binary64 (f64_val a))"

definition f64_floor :: "f64 \<Rightarrow> f64" where
  "f64_floor a = f64_bits (ieee_floor Binary64 (f64_val a))"

definition f64_round :: "f64 \<Rightarrow> f64" where
  "f64_round a = f64_bits (ieee_round Binary64 (f64_val a))"

definition f64_neg :: "f64 \<Rightarrow> f64" where
  "f64_neg a = f64_bits (ieee_neg (f64_val a))"

definition f32_add :: "f32 \<Rightarrow> f32 \<Rightarrow> f32" where
  "f32_add a b = f32_bits (ieee_add Binary32 (f32_val a) (f32_val b))"

definition f32_sub :: "f32 \<Rightarrow> f32 \<Rightarrow> f32" where
  "f32_sub a b = f32_bits (ieee_add Binary32 (f32_val a) (ieee_neg (f32_val b)))"

definition f32_mul :: "f32 \<Rightarrow> f32 \<Rightarrow> f32" where
  "f32_mul a b = f32_bits (ieee_mul Binary32 (f32_val a) (f32_val b))"

definition f32_div :: "f32 \<Rightarrow> f32 \<Rightarrow> f32" where
  "f32_div a b = f32_bits (ieee_div Binary32 (f32_val a) (f32_val b))"

definition f32_abs :: "f32 \<Rightarrow> f32" where
  "f32_abs a = f32_bits (ieee_abs (f32_val a))"

definition f32_sqrt :: "f32 \<Rightarrow> f32" where
  "f32_sqrt a = f32_bits (ieee_sqrt Binary32 (f32_val a))"

text \<open>Rust's \<open>max\<close> and \<open>min\<close> ignore a NaN; \<open>clamp\<close> keeps it.\<close>

definition f64_max :: "f64 \<Rightarrow> f64 \<Rightarrow> f64" where
  "f64_max a b = (if f64_is_nan a \<or> f64_lt a b then b else a)"

definition f64_min :: "f64 \<Rightarrow> f64 \<Rightarrow> f64" where
  "f64_min a b = (if f64_is_nan a \<or> f64_lt b a then b else a)"

definition f64_clamp :: "f64 \<Rightarrow> f64 \<Rightarrow> f64 \<Rightarrow> f64" where
  "f64_clamp lo hi a = (if f64_lt a lo then lo else if f64_lt hi a then hi else a)"

definition f32_is_nan :: "f32 \<Rightarrow> bool" where
  "f32_is_nan a = is_nan Binary32 (unat a)"

definition f32_max :: "f32 \<Rightarrow> f32 \<Rightarrow> f32" where
  "f32_max a b = (if f32_is_nan a \<or> f32_lt a b then b else a)"

definition f32_min :: "f32 \<Rightarrow> f32 \<Rightarrow> f32" where
  "f32_min a b = (if f32_is_nan a \<or> f32_lt b a then b else a)"

definition f32_clamp :: "f32 \<Rightarrow> f32 \<Rightarrow> f32 \<Rightarrow> f32" where
  "f32_clamp lo hi a = (if f32_lt a lo then lo else if f32_lt hi a then hi else a)"

text \<open>\<open>Iterator::sum\<close>, from zero, and the infinities.\<close>

definition f64_sum :: "f64 list \<Rightarrow> f64" where
  "f64_sum xs = foldl f64_add 0 xs"

definition f32_sum :: "f32 list \<Rightarrow> f32" where
  "f32_sum xs = foldl f32_add f32_zero xs"

definition f64_infinity :: "bool \<Rightarrow> f64" where
  "f64_infinity neg = f64_bits (FInf neg)"

definition f64_is_infinite :: "f64 \<Rightarrow> bool" where
  "f64_is_infinite a \<longleftrightarrow> f64_abs a = f64_infinity False"

definition f64_one :: f64 where
  "f64_one = 0x3FF0000000000000"

text \<open>The \<open>as\<close> casts.\<close>

definition int_as_f64 :: "int \<Rightarrow> f64" where
  "int_as_f64 i = f64_bits (round_int Binary64 False i 0)"

definition int_as_f32 :: "int \<Rightarrow> f32" where
  "int_as_f32 i = f32_bits (round_int Binary32 False i 0)"

definition f64_as_f32 :: "f64 \<Rightarrow> f32" where
  "f64_as_f32 a = f32_bits (ieee_convert Binary32 (f64_val a))"

definition f32_as_f64 :: "f32 \<Rightarrow> f64" where
  "f32_as_f64 a = f64_bits (ieee_convert Binary64 (f32_val a))"

definition f64_as_nat :: "nat \<Rightarrow> f64 \<Rightarrow> nat" where
  "f64_as_nat hi a = nat (ieee_as_int 0 (int hi) (f64_val a))"

end
