(* ===== verification/Bloom.thy ===== *)
theory Bloom
  imports Ieee
begin

text \<open>
  The Bloom filter of \<open>crates/fundb-core/src/page.rs\<close>. The two xxh3 hash calls come from a crate
  and are arguments (\<open>h1\<close> for \<open>xxh3_64\<close>, \<open>h2\<close> for \<open>xxh3_64_with_seed\<close>), and so is the natural logarithm
  \<open>ln\<close> of f64 that the sizing of \<open>new\<close> takes. Sizes and bit positions are computed at 64 bits, with the
  wrap-around of a release build. Taking the position in an empty bit array is a remainder by zero, a
  panic: \<open>None\<close>.
\<close>

record hashes =
  h1 :: "bytes \<Rightarrow> u64"
  h2 :: "bytes \<Rightarrow> u64 \<Rightarrow> u64"

record bloom_filter =
  bits :: "u64 list"
  bloom_k :: u8

definition bloom_m :: "bloom_filter \<Rightarrow> nat" where
  "bloom_m f = length (bits f) * 64"

text \<open>
  \<open>new(capacity, fpr)\<close>: the number of bits is \<open>- n * ln fpr / (ln 2 * ln 2)\<close>, rounded up and cast to usize
  (which saturates), at least 64 and rounded up to whole words; the sum before that rounding wraps. The
  number of hashes is \<open>m / n * ln 2\<close>, rounded, at least one, cast to u8. The assertions fail for a zero
  capacity and for a rate outside \<open>[0, 1)\<close>, zero itself being let through.
\<close>

definition f64_two :: f64 where
  "f64_two = 0x4000000000000000"

definition raw_bits :: "(f64 \<Rightarrow> f64) \<Rightarrow> nat \<Rightarrow> f64 \<Rightarrow> nat" where
  "raw_bits ln capacity fpr =
     f64_as_nat u64_max (f64_ceil (f64_div (f64_neg (f64_mul (int_as_f64 (int capacity)) (ln fpr)))
       (f64_mul (ln f64_two) (ln f64_two))))"

definition hash_count :: "(f64 \<Rightarrow> f64) \<Rightarrow> nat \<Rightarrow> nat \<Rightarrow> nat" where
  "hash_count ln m_rounded capacity =
     f64_as_nat 255 (f64_max (f64_round (f64_mul
       (f64_div (int_as_f64 (int m_rounded)) (int_as_f64 (int capacity))) (ln f64_two))) f64_one)"

definition bloom_new :: "(f64 \<Rightarrow> f64) \<Rightarrow> nat \<Rightarrow> f64 \<Rightarrow> bloom_filter option" where
  "bloom_new ln capacity fpr =
     (if capacity = 0 \<or> \<not> (f64_le 0 fpr \<and> f64_lt fpr f64_one) then None
      else
        let m_base = max (raw_bits ln capacity fpr) 64;
            m_rounded = (m_base + 63) mod 2 ^ 64 div 64 * 64;
            words = m_rounded div 64;
            k = hash_count ln m_rounded capacity
        in Some \<lparr>bits = replicate words 0, bloom_k = word_of_nat k\<rparr>)"

text \<open>The sizes for which the rounding up to whole words does not wrap.\<close>

definition sizable :: "(f64 \<Rightarrow> f64) \<Rightarrow> nat \<Rightarrow> f64 \<Rightarrow> bool" where
  "sizable ln capacity fpr \<longleftrightarrow>
     0 < capacity \<and> f64_le 0 fpr \<and> f64_lt fpr f64_one \<and> raw_bits ln capacity fpr + 63 < 2 ^ 64"

definition bit_index :: "hashes \<Rightarrow> bloom_filter \<Rightarrow> bytes \<Rightarrow> nat \<Rightarrow> nat option" where
  "bit_index H f key i =
     (let x1 = h1 H key;
          x2 = h2 H key x1;
          combined = x1 + word_of_nat i * x2
      in if bloom_m f = 0 then None else Some (unat combined mod bloom_m f))"

definition set_bit_at :: "nat \<Rightarrow> u64 list \<Rightarrow> u64 list" where
  "set_bit_at b ws = ws[b div 64 := ws ! (b div 64) OR push_bit (b mod 64) 1]"

definition bit_at :: "nat \<Rightarrow> u64 list \<Rightarrow> bool" where
  "bit_at b ws \<longleftrightarrow> ws ! (b div 64) AND push_bit (b mod 64) 1 \<noteq> 0"

text \<open>The loop \<open>for i in 0..k\<close> of \<open>insert\<close>, over the list of the indices still to come.\<close>

fun bloom_insert_loop :: "hashes \<Rightarrow> bytes \<Rightarrow> nat list \<Rightarrow> bloom_filter \<Rightarrow> bloom_filter option" where
  "bloom_insert_loop H key [] f = Some f"
| "bloom_insert_loop H key (i # is) f =
     (case bit_index H f key i of
        None \<Rightarrow> None
      | Some b \<Rightarrow> bloom_insert_loop H key is (f\<lparr>bits := set_bit_at b (bits f)\<rparr>))"

definition bloom_insert :: "hashes \<Rightarrow> bytes \<Rightarrow> bloom_filter \<Rightarrow> bloom_filter option" where
  "bloom_insert H key f = bloom_insert_loop H key [0..<unat (bloom_k f)] f"

fun bloom_contains_loop :: "hashes \<Rightarrow> bytes \<Rightarrow> nat list \<Rightarrow> bloom_filter \<Rightarrow> bool option" where
  "bloom_contains_loop H key [] f = Some True"
| "bloom_contains_loop H key (i # is) f =
     (case bit_index H f key i of
        None \<Rightarrow> None
      | Some b \<Rightarrow> if bit_at b (bits f) then bloom_contains_loop H key is f else Some False)"

definition bloom_contains :: "hashes \<Rightarrow> bloom_filter \<Rightarrow> bytes \<Rightarrow> bool option" where
  "bloom_contains H f key = bloom_contains_loop H key [0..<unat (bloom_k f)] f"

fun bloom_insert_all :: "hashes \<Rightarrow> bytes list \<Rightarrow> bloom_filter \<Rightarrow> bloom_filter option" where
  "bloom_insert_all H [] f = Some f"
| "bloom_insert_all H (key # keys) f =
     (case bloom_insert H key f of None \<Rightarrow> None | Some g \<Rightarrow> bloom_insert_all H keys g)"

subsection \<open>Bits\<close>

definition bits_le :: "bloom_filter \<Rightarrow> bloom_filter \<Rightarrow> bool" where
  "bits_le f g \<longleftrightarrow> bloom_k g = bloom_k f \<and> length (bits g) = length (bits f) \<and>
     (\<forall>b < bloom_m f. bit_at b (bits f) \<longrightarrow> bit_at b (bits g))"

lemma bit_at_iff: "bit_at b ws \<longleftrightarrow> bit (ws ! (b div 64)) (b mod 64)"
  by (simp add: bit_at_def bit_iff_and_push_bit_not_eq_0)

lemma length_set_bit_at [simp]: "length (set_bit_at b ws) = length ws"
  by (simp add: set_bit_at_def)

lemma bit_at_set_bit_at:
  assumes "c < length ws * 64" and "b < length ws * 64"
  shows "bit_at c (set_bit_at b ws) \<longleftrightarrow> c = b \<or> bit_at c ws"
proof -
  have "c div 64 < length ws" and "b div 64 < length ws"
    using assms by (auto simp: less_mult_imp_div_less)
  moreover have "c = b \<longleftrightarrow> c div 64 = b div 64 \<and> c mod 64 = b mod 64"
    by (metis div_mult_mod_eq)
  ultimately show ?thesis
    by (cases "c div 64 = b div 64") (auto simp: bit_at_iff set_bit_at_def bit_simps)
qed

lemma bits_le_refl [simp]: "bits_le f f"
  by (simp add: bits_le_def)

lemma bits_le_trans: "bits_le f g \<Longrightarrow> bits_le g h \<Longrightarrow> bits_le f h"
  by (auto simp: bits_le_def bloom_m_def)

lemma bit_index_cong:
  "length (bits g) = length (bits f) \<Longrightarrow> bit_index H g key i = bit_index H f key i"
  by (simp add: bit_index_def bloom_m_def Let_def)

lemma bit_index_bound: "bit_index H f key i = Some b \<Longrightarrow> b < bloom_m f"
  by (auto simp: bit_index_def Let_def split: if_splits)

lemma bits_le_set_bit_at:
  "b < bloom_m f \<Longrightarrow> bits_le f (f\<lparr>bits := set_bit_at b (bits f)\<rparr>)"
  by (auto simp: bits_le_def bloom_m_def bit_at_set_bit_at)

subsection \<open>Inserting only sets bits, and sets those of its key\<close>

lemma bloom_insert_loop_le: "bloom_insert_loop H key is f = Some g \<Longrightarrow> bits_le f g"
proof (induction H key "is" f rule: bloom_insert_loop.induct)
  case (2 H key i "is" f)
  then show ?case
    by (auto split: option.splits intro: bits_le_trans bits_le_set_bit_at dest: bit_index_bound)
qed simp

lemma bloom_insert_loop_sets:
  "bloom_insert_loop H key is f = Some g \<Longrightarrow> i \<in> set is \<Longrightarrow>
     \<exists>b. bit_index H f key i = Some b \<and> bit_at b (bits g)"
proof (induction H key "is" f rule: bloom_insert_loop.induct)
  case (2 H key j "is" f)
  then obtain b where b: "bit_index H f key j = Some b"
    and g: "bloom_insert_loop H key is (f\<lparr>bits := set_bit_at b (bits f)\<rparr>) = Some g"
    by (auto split: option.splits)
  let ?f = "f\<lparr>bits := set_bit_at b (bits f)\<rparr>"
  have b_lt: "b < bloom_m f" using b by (rule bit_index_bound)
  have "bit_at b (bits ?f)" using b_lt by (simp add: bit_at_set_bit_at bloom_m_def)
  then have "bit_at b (bits g)"
    using bloom_insert_loop_le [OF g] b_lt by (auto simp: bits_le_def bloom_m_def)
  moreover have "bit_index H ?f key i = bit_index H f key i" by (rule bit_index_cong) simp
  ultimately show ?case using "2.IH" [OF b g] "2.prems"(2) b by auto
qed simp

lemma bloom_contains_loop_True:
  "(\<And>i. i \<in> set is \<Longrightarrow> \<exists>b. bit_index H f key i = Some b \<and> bit_at b (bits f)) \<Longrightarrow>
     bloom_contains_loop H key is f = Some True"
proof (induction "is")
  case (Cons i "is")
  then obtain b where "bit_index H f key i = Some b" "bit_at b (bits f)" by auto
  with Cons show ?case by simp
qed simp

lemma bloom_insert_contains:
  assumes ins: "bloom_insert H key f = Some g" and le: "bits_le g g'"
  shows "bloom_contains H g' key = Some True"
  unfolding bloom_contains_def
proof (rule bloom_contains_loop_True)
  fix i assume i: "i \<in> set [0..<unat (bloom_k g')]"
  have fg: "bits_le f g" using ins unfolding bloom_insert_def by (rule bloom_insert_loop_le)
  with le i have "i \<in> set [0..<unat (bloom_k f)]" by (simp add: bits_le_def)
  with ins obtain b where b: "bit_index H f key i = Some b" "bit_at b (bits g)"
    unfolding bloom_insert_def by (blast dest: bloom_insert_loop_sets)
  have "bit_index H g' key i = bit_index H f key i"
    using fg le by (intro bit_index_cong) (simp add: bits_le_def)
  moreover have "b < bloom_m f" using b(1) by (rule bit_index_bound)
  ultimately show "\<exists>b. bit_index H g' key i = Some b \<and> bit_at b (bits g')"
    using b fg le by (auto simp: bits_le_def bloom_m_def)
qed

lemma bloom_insert_le: "bloom_insert H key f = Some g \<Longrightarrow> bits_le f g"
  unfolding bloom_insert_def by (rule bloom_insert_loop_le)

lemma bloom_insert_all_le: "bloom_insert_all H keys f = Some g \<Longrightarrow> bits_le f g"
  by (induction H keys f rule: bloom_insert_all.induct)
    (auto split: option.splits intro: bits_le_trans dest: bloom_insert_le)

lemma bloom_insert_all_contains:
  "bloom_insert_all H keys f = Some g \<Longrightarrow> key \<in> set keys \<Longrightarrow> bloom_contains H g key = Some True"
  by (induction H keys f rule: bloom_insert_all.induct)
    (auto split: option.splits dest: bloom_insert_all_le intro: bloom_insert_contains)

subsection \<open>A filter made by \<open>new\<close> never panics\<close>

lemma bloom_insert_loop_total:
  "bits f \<noteq> [] \<Longrightarrow> \<exists>g. bloom_insert_loop H key is f = Some g"
proof (induction "is" arbitrary: f)
  case (Cons i "is")
  then obtain b where "bit_index H f key i = Some b" by (auto simp: bit_index_def bloom_m_def Let_def)
  moreover have "set_bit_at b (bits f) \<noteq> []"
    using Cons.prems by (metis length_0_conv length_set_bit_at)
  ultimately show ?case using Cons.IH by simp
qed simp

lemma bloom_insert_total: "bits f \<noteq> [] \<Longrightarrow> \<exists>g. bloom_insert H key f = Some g \<and> bits g \<noteq> []"
proof -
  assume f: "bits f \<noteq> []"
  then obtain g where g: "bloom_insert H key f = Some g"
    using bloom_insert_loop_total unfolding bloom_insert_def by blast
  then have "length (bits g) = length (bits f)" by (auto dest: bloom_insert_le simp: bits_le_def)
  with f have "bits g \<noteq> []" by auto
  with g show ?thesis by blast
qed

lemma bloom_insert_all_total: "bits f \<noteq> [] \<Longrightarrow> \<exists>g. bloom_insert_all H keys f = Some g"
proof (induction keys arbitrary: f)
  case (Cons key keys)
  then obtain g where "bloom_insert H key f = Some g" "bits g \<noteq> []"
    using bloom_insert_total by blast
  with Cons.IH show ?case by simp
qed simp

lemma bloom_new_sizable:
  assumes "sizable ln capacity fpr"
  obtains f where "bloom_new ln capacity fpr = Some f" and "bits f \<noteq> []"
proof -
  define w where "w = (max (raw_bits ln capacity fpr) 64 + 63) mod 2 ^ 64 div 64"
  define f where "f = \<lparr>bits = replicate w 0, bloom_k = word_of_nat (hash_count ln (w * 64) capacity)\<rparr>"
  have "max (raw_bits ln capacity fpr) 64 + 63 < 2 ^ 64" using assms by (simp add: sizable_def)
  then have "0 < w" by (simp add: w_def div_greater_zero_iff)
  then have "bits f \<noteq> []" unfolding f_def bloom_filter.simps by (simp add: replicate_empty)
  moreover have "bloom_new ln capacity fpr = Some f"
    using assms by (simp add: bloom_new_def sizable_def Let_def f_def w_def)
  ultimately show thesis by (intro that)
qed

lemma bloom_contains_loop_total:
  "bits f \<noteq> [] \<Longrightarrow> \<exists>r. bloom_contains_loop H key is f = Some r"
  by (induction "is") (auto simp: bit_index_def bloom_m_def Let_def)

end
