(* ===== verification/Codec.thy ===== *)
theory Codec
  imports Record_Types Bloom
begin

text \<open>
  What the storage engine takes from other crates, gathered in one record that the definitions
  receive as an argument: the xxh3 hashes and the MessagePack encoders of \<open>rmp_serde\<close> for the types
  that reach a file. \<open>ln64\<close> is the natural logarithm of f64, whose precision the standard library leaves
  open, and \<open>sizeof_fun_record\<close> is the compiler's \<open>size_of::<FunRecord>()\<close>. Nothing is assumed of them here; a theorem that needs the documented round trip
  of a value says so with \<open>roundtrips\<close>.
\<close>

datatype wal_entry =
    WalWrite (w_txn: nat) (w_key: record_key) (w_record: fun_record)
  | WalDelete (w_txn: nat) (w_key: record_key)
  | TxnCommit nat
  | TxnAbort nat
  | Checkpoint nat

record 'a codec =
  enc :: "'a \<Rightarrow> bytes option"
  dec :: "bytes \<Rightarrow> 'a option"

definition roundtrips :: "'a codec \<Rightarrow> 'a \<Rightarrow> bool" where
  "roundtrips c x \<longleftrightarrow>
     (case enc c x of None \<Rightarrow> False | Some b \<Rightarrow> length b < 2 ^ 32 \<and> dec c b = Some x)"

lemma roundtripsE:
  assumes "roundtrips c x"
  obtains b where "enc c x = Some b" and "length b < 2 ^ 32" and "dec c b = Some x"
  using assms by (auto simp: roundtrips_def split: option.splits)

record ext = hashes +
  entry_codec :: "wal_entry codec"
  key_codec :: "record_key codec"
  rec_codec :: "fun_record codec"
  bloom_codec :: "(u64 list \<times> u8) codec"
  ln64 :: "f64 \<Rightarrow> f64"
  sizeof_fun_record :: nat

text \<open>\<open>xxh3_64(body) as u32\<close>.\<close>

definition crc :: "ext \<Rightarrow> bytes \<Rightarrow> u32" where
  "crc X body = ucast (h1 X body)"

end
