(* ===== verification/MemTable.thy ===== *)
theory MemTable
  imports Record_Source Codec
begin

text \<open>
  The in-memory write buffer, \<open>crates/fundb-storage/src/memtable.rs\<close>: the mutable \<open>MemTable\<close> with
  its size counter and the read-only snapshot \<open>ImmutableMemTable\<close>. The locks are never poisoned (no
  operation panics while holding one), so \<open>insert\<close> always returns \<open>Ok\<close>; an operation is one atomic
  step. \<open>range\<close> panics (\<open>None\<close>) when its bounds are reversed, as \<open>BTreeMap::range\<close> does.
\<close>

record mem_table =
  mt_inner :: "(record_key, fun_record) btree_map"
  mt_size :: nat

definition mt_new :: mem_table where
  "mt_new = \<lparr>mt_inner = [], mt_size = 0\<rparr>"

definition mt_insert :: "ext \<Rightarrow> record_key \<Rightarrow> fun_record \<Rightarrow> mem_table \<Rightarrow> mem_table" where
  "mt_insert X k r t =
     (let size_delta = sizeof_fun_record X + length (key_collection k) + 16
      in \<lparr>mt_inner = bt_insert k r (mt_inner t),
          mt_size = (mt_size t + size_delta) mod 2 ^ 64\<rparr>)"

definition mt_get :: "mem_table \<Rightarrow> record_key \<Rightarrow> fun_record option" where
  "mt_get t k = bt_get (mt_inner t) k"

definition mt_range ::
  "mem_table \<Rightarrow> record_key \<Rightarrow> record_key \<Rightarrow> (record_key \<times> fun_record) list option" where
  "mt_range t lo hi = bt_range (mt_inner t) (Included lo) (Included hi)"

definition mt_size_bytes :: "mem_table \<Rightarrow> nat" where
  "mt_size_bytes t = mt_size t"

record imm_table =
  imm_entries :: "(record_key \<times> fun_record) list"

definition mt_freeze :: "mem_table \<Rightarrow> imm_table" where
  "mt_freeze t = \<lparr>imm_entries = mt_inner t\<rparr>"

definition imm_iter :: "imm_table \<Rightarrow> (record_key \<times> fun_record) list" where
  "imm_iter i = imm_entries i"

definition imm_len :: "imm_table \<Rightarrow> nat" where
  "imm_len i = length (imm_entries i)"

definition imm_is_empty :: "imm_table \<Rightarrow> bool" where
  "imm_is_empty i \<longleftrightarrow> imm_entries i = []"

text \<open>\<open>iter().find(|(k, _)| k == key)\<close>, as the LSM tree looks a key up in a snapshot.\<close>

definition imm_get :: "imm_table \<Rightarrow> record_key \<Rightarrow> fun_record option" where
  "imm_get i k = map_option snd (List.find (\<lambda>(l, _). l = k) (imm_iter i))"

text \<open>The filter the LSM scan applies to a snapshot.\<close>

definition imm_range :: "imm_table \<Rightarrow> record_key \<Rightarrow> record_key \<Rightarrow> (record_key \<times> fun_record) list"
  where "imm_range i lo hi = filter (\<lambda>(k, _). lo \<le> k \<and> k \<le> hi) (imm_iter i)"

definition mt_wf :: "mem_table \<Rightarrow> bool" where
  "mt_wf t \<longleftrightarrow> bt_inv (mt_inner t)"

definition imm_wf :: "imm_table \<Rightarrow> bool" where
  "imm_wf i \<longleftrightarrow> bt_inv (imm_entries i)"

lemma mt_wf_new [simp]: "mt_wf mt_new"
  by (simp add: mt_wf_def mt_new_def)

lemma mt_get_new [simp]: "mt_get mt_new k = None"
  by (simp add: mt_get_def mt_new_def)

interpretation mt: ordered_map mt_new "mt_insert X" mt_get mt_inner mt_wf
  by unfold_locales
    (auto simp: mt_new_def mt_insert_def mt_get_def mt_wf_def Let_def bt_inv_insert bt_get_insert
      bt_get_def fun_eq_iff)

lemma mt_get_insert [simp]:
  "mt_get (mt_insert X k r t) l = (if l = k then Some r else mt_get t l)"
  by (simp add: mt_insert_def mt_get_def Let_def bt_get_insert)

lemma mt_wf_insert [simp]: "mt_wf t \<Longrightarrow> mt_wf (mt_insert X k r t)"
  by (rule mt.wf_insert)

subsection \<open>Both tables are record sources\<close>

lemma find_map_of: "map_option snd (List.find (\<lambda>(l, _). l = k) ps) = map_of ps k"
  by (induction ps) auto

lemma imm_get_map_of: "imm_get i k = map_of (imm_entries i) k"
  by (simp add: imm_get_def imm_iter_def find_map_of)

lemma imm_get_freeze [simp]: "imm_get (mt_freeze t) k = mt_get t k"
  by (simp add: imm_get_map_of mt_freeze_def mt_get_def bt_get_def)

lemma imm_wf_freeze [simp]: "imm_wf (mt_freeze t) = mt_wf t"
  by (simp add: imm_wf_def mt_wf_def mt_freeze_def)

lemma mt_range_Some: "lo \<le> hi \<Longrightarrow> mt_range t lo hi = Some (the (mt_range t lo hi))"
  by (simp add: mt_range_def bt_range_def)

interpretation mt_src: record_source mt_get "\<lambda>t lo hi. the (mt_range t lo hi)" mt_wf
proof
  fix t :: mem_table and lo hi k :: record_key
  assume wf: "mt_wf t" and le: "lo \<le> hi"
  have some: "bt_range (mt_inner t) (Included lo) (Included hi) = Some (the (mt_range t lo hi))"
    using mt_range_Some [OF le] by (simp add: mt_range_def)
  show "map_of (the (mt_range t lo hi)) k = (if lo \<le> k \<and> k \<le> hi then mt_get t k else None)"
    using bt_range_Some(1) [OF some] by (simp add: mt_get_def)
  show "bt_inv (the (mt_range t lo hi))"
    using bt_range_Some(2) [OF some] wf by (simp add: mt_wf_def)
qed

interpretation imm_src: record_source imm_get imm_range imm_wf
proof
  fix i :: imm_table and lo hi k :: record_key
  show "map_of (imm_range i lo hi) k = (if lo \<le> k \<and> k \<le> hi then imm_get i k else None)"
    by (simp add: imm_range_def imm_iter_def imm_get_map_of case_prod_unfold map_of_filter_interval)
  assume "imm_wf i"
  then show "bt_inv (imm_range i lo hi)"
    by (auto simp: imm_wf_def bt_inv_def imm_range_def imm_iter_def distinct_map_filter
        sorted_filter)
qed

end
