(* ===== verification/Sstable.thy ===== *)
theory Sstable
  imports Record_Source Codec
begin

text \<open>
  The on-disk segments, \<open>crates/fundb-storage/src/sstable.rs\<close>: the file format, the writer, the
  reader with its Bloom filter and binary search, and the merge of compaction. A file is its bytes;
  reads and writes of the file itself succeed. \<open>Panic\<close> is the remainder by zero of a Bloom filter
  with no bits, which only a foreign file can hold.
\<close>

datatype sst_error = UnexpectedEof | BadMagic | MsgpackSerialise | MsgpackDeserialise | Panic

definition magic :: bytes where
  "magic = [0x46, 0x55, 0x4E, 0x44, 0x42, 0x53, 0x53, 0x54]"

lemma length_magic [simp]: "length magic = 8"
  by (simp add: magic_def)

subsection \<open>Length-prefixed values\<close>

definition write_framed :: "'a codec \<Rightarrow> 'a \<Rightarrow> sst_error + bytes" where
  "write_framed c x =
     (case enc c x of
        None \<Rightarrow> Inl MsgpackSerialise
      | Some b \<Rightarrow> Inr (u32_to_le (as_u32 (length b)) @ b))"

definition read_framed :: "'a codec \<Rightarrow> bytes \<Rightarrow> sst_error + 'a \<times> bytes" where
  "read_framed c reader =
     (case read_exact 4 reader of
        None \<Rightarrow> Inl UnexpectedEof
      | Some (len_buf, r1) \<Rightarrow>
          (case read_exact (unat (u32_from_le len_buf)) r1 of
             None \<Rightarrow> Inl UnexpectedEof
           | Some (buf, r2) \<Rightarrow>
               (case dec c buf of
                  None \<Rightarrow> Inl MsgpackDeserialise
                | Some x \<Rightarrow> Inr (x, r2))))"

subsection \<open>The reader\<close>

record sst_reader =
  sst_entries :: "(record_key \<times> fun_record) list"
  sst_bloom :: bloom_filter

fun read_entries ::
  "ext \<Rightarrow> nat \<Rightarrow> bytes \<Rightarrow> sst_error + (record_key \<times> fun_record) list \<times> bytes" where
  "read_entries X 0 bs = Inr ([], bs)"
| "read_entries X (Suc n) bs =
     (case read_framed (key_codec X) bs of
        Inl e \<Rightarrow> Inl e
      | Inr (key, bs1) \<Rightarrow>
          (case read_framed (rec_codec X) bs1 of
             Inl e \<Rightarrow> Inl e
           | Inr (rec, bs2) \<Rightarrow>
               (case read_entries X n bs2 of
                  Inl e \<Rightarrow> Inl e
                | Inr (es, bs3) \<Rightarrow> Inr ((key, rec) # es, bs3))))"

definition sst_open :: "ext \<Rightarrow> bytes \<Rightarrow> sst_error + sst_reader" where
  "sst_open X file =
     (case read_exact 8 file of
        None \<Rightarrow> Inl UnexpectedEof
      | Some (m, r1) \<Rightarrow>
          if m \<noteq> magic then Inl BadMagic
          else
            (case read_exact 4 r1 of
               None \<Rightarrow> Inl UnexpectedEof
             | Some (count_buf, r2) \<Rightarrow>
                 (case read_entries X (unat (u32_from_le count_buf)) r2 of
                    Inl e \<Rightarrow> Inl e
                  | Inr (es, r3) \<Rightarrow>
                      (case read_framed (bloom_codec X) r3 of
                         Inl e \<Rightarrow> Inl e
                       | Inr ((ws, k), _) \<Rightarrow>
                           Inr \<lparr>sst_entries = es,
                                sst_bloom = \<lparr>bits = ws, bloom_k = k\<rparr>\<rparr>))))"

definition key_bytes :: "ext \<Rightarrow> record_key \<Rightarrow> bytes" where
  "key_bytes X k = (case enc (key_codec X) k of None \<Rightarrow> [] | Some b \<Rightarrow> b)"

definition may_contain :: "ext \<Rightarrow> sst_reader \<Rightarrow> record_key \<Rightarrow> bool option" where
  "may_contain X r k = bloom_contains (hashes.truncate X) (sst_bloom r) (key_bytes X k)"

text \<open>
  \<open>binary_search_by(|(k, _)| k.cmp(key))\<close>: a matching index of a sorted slice. \<open>lo\<close> and \<open>hi\<close>
  delimit the part still searched.
\<close>

function bsearch :: "(record_key \<times> 'v) list \<Rightarrow> record_key \<Rightarrow> nat \<Rightarrow> nat \<Rightarrow> nat option" where
  "bsearch es key lo hi =
     (if lo < hi then
        let mid = lo + (hi - lo) div 2; k = fst (es ! mid)
        in if k = key then Some mid
           else if k < key then bsearch es key (mid + 1) hi
           else bsearch es key lo mid
      else None)"
  by pat_completeness auto
termination
  by (relation "measure (\<lambda>(_, _, lo, hi). hi - lo)") auto

declare bsearch.simps [simp del]

definition sst_get :: "ext \<Rightarrow> sst_reader \<Rightarrow> record_key \<Rightarrow> sst_error + fun_record option" where
  "sst_get X r key =
     (case may_contain X r key of
        None \<Rightarrow> Inl Panic
      | Some False \<Rightarrow> Inr None
      | Some True \<Rightarrow>
          (case bsearch (sst_entries r) key 0 (length (sst_entries r)) of
             Some idx \<Rightarrow> Inr (Some (snd (sst_entries r ! idx)))
           | None \<Rightarrow> Inr None))"

definition sst_range ::
  "sst_reader \<Rightarrow> record_key \<Rightarrow> record_key \<Rightarrow> (record_key \<times> fun_record) list" where
  "sst_range r lo hi =
     (let start = partition_point (\<lambda>(k, _). k < lo) (sst_entries r)
      in takeWhile (\<lambda>(k, _). k \<le> hi) (drop start (sst_entries r)))"

definition sst_len :: "sst_reader \<Rightarrow> nat" where
  "sst_len r = length (sst_entries r)"

subsection \<open>The writer\<close>

record sst_writer =
  sw_entries :: "(record_key \<times> fun_record) list"

definition sw_new :: sst_writer where
  "sw_new = \<lparr>sw_entries = []\<rparr>"

definition sw_add :: "record_key \<Rightarrow> fun_record \<Rightarrow> sst_writer \<Rightarrow> sst_writer" where
  "sw_add k r w = w\<lparr>sw_entries := sw_entries w @ [(k, r)]\<rparr>"

fun write_entries :: "ext \<Rightarrow> (record_key \<times> fun_record) list \<Rightarrow> sst_error + bytes" where
  "write_entries X [] = Inr []"
| "write_entries X ((k, r) # es) =
     (case write_framed (key_codec X) k of
        Inl e \<Rightarrow> Inl e
      | Inr kb \<Rightarrow>
          (case write_framed (rec_codec X) r of
             Inl e \<Rightarrow> Inl e
           | Inr rb \<Rightarrow>
               (case write_entries X es of
                  Inl e \<Rightarrow> Inl e
                | Inr bs \<Rightarrow> Inr (kb @ rb @ bs))))"

text \<open>The false-positive rate 0.001.\<close>

definition sst_fpr :: f64 where
  "sst_fpr = 0x3F50624DD2F1A9FC"

definition build_bloom :: "ext \<Rightarrow> record_key list \<Rightarrow> bloom_filter option" where
  "build_bloom X keys =
     (case bloom_new (ln64 X) (max (length keys) 1) sst_fpr of
        None \<Rightarrow> None
      | Some f \<Rightarrow> bloom_insert_all (hashes.truncate X) (map (key_bytes X) keys) f)"

text \<open>The content of the file that \<open>finish\<close> writes, and the reader it then opens.\<close>

definition sst_file_bytes ::
  "ext \<Rightarrow> (record_key \<times> fun_record) list \<Rightarrow> sst_error + bytes" where
  "sst_file_bytes X es =
     (case write_entries X es of
        Inl e \<Rightarrow> Inl e
      | Inr body \<Rightarrow>
          (case build_bloom X (map fst es) of
             None \<Rightarrow> Inl Panic
           | Some f \<Rightarrow>
               (case write_framed (bloom_codec X) (bits f, bloom_k f) of
                  Inl e \<Rightarrow> Inl e
                | Inr fb \<Rightarrow> Inr (magic @ u32_to_le (as_u32 (length es)) @ body @ fb))))"

definition sw_finish :: "ext \<Rightarrow> sst_writer \<Rightarrow> sst_error + bytes \<times> sst_reader" where
  "sw_finish X w =
     (let es = sort_key fst (sw_entries w)
      in case sst_file_bytes X es of
           Inl e \<Rightarrow> Inl e
         | Inr file \<Rightarrow>
             (case sst_open X file of
                Inl e \<Rightarrow> Inl e
              | Inr r \<Rightarrow> Inr (file, r)))"

subsection \<open>The merge of compaction\<close>

text \<open>The loop over the reversed list: an entry is kept when its key differs from the last kept.\<close>

fun dedup_rev ::
  "(record_key \<times> fun_record) list \<Rightarrow> record_key option \<Rightarrow> (record_key \<times> fun_record) list" where
  "dedup_rev [] prev = []"
| "dedup_rev ((k, r) # es) prev =
     (if prev = Some k then dedup_rev es prev else (k, r) # dedup_rev es (Some k))"

definition merge_entries :: "sst_reader list \<Rightarrow> (record_key \<times> fun_record) list" where
  "merge_entries inputs =
     (let all = sort_key fst (concat (map sst_entries inputs))
      in rev (dedup_rev (rev all) None))"

definition merge_sstables :: "ext \<Rightarrow> sst_reader list \<Rightarrow> sst_error + bytes \<times> sst_reader" where
  "merge_sstables X inputs =
     sw_finish X (fold (\<lambda>(k, r). sw_add k r) (merge_entries inputs) sw_new)"

subsection \<open>Files read back\<close>

lemma framed_roundtrip:
  assumes "roundtrips c x"
  obtains b where "write_framed c x = Inr b" and "\<And>rest. read_framed c (b @ rest) = Inr (x, rest)"
proof -
  obtain b where "enc c x = Some b" "length b < 2 ^ 32" "dec c b = Some x"
    using assms by (rule roundtripsE)
  then show thesis
    by (intro that [of "u32_to_le (as_u32 (length b)) @ b"])
      (simp_all add: write_framed_def read_framed_def codec_simps)
qed

definition entry_ok :: "ext \<Rightarrow> record_key \<times> fun_record \<Rightarrow> bool" where
  "entry_ok X p \<longleftrightarrow> roundtrips (key_codec X) (fst p) \<and> roundtrips (rec_codec X) (snd p)"

lemma entries_roundtrip:
  assumes "\<forall>p\<in>set es. entry_ok X p"
  obtains b where "write_entries X es = Inr b"
    and "\<And>rest. read_entries X (length es) (b @ rest) = Inr (es, rest)"
proof -
  from assms have "\<exists>b. write_entries X es = Inr b \<and>
      (\<forall>rest. read_entries X (length es) (b @ rest) = Inr (es, rest))"
  proof (induction es)
    case (Cons p es)
    obtain k r where p: "p = (k, r)" by (cases p)
    with Cons.prems have k: "roundtrips (key_codec X) k" and r: "roundtrips (rec_codec X) r"
      by (auto simp: entry_ok_def)
    from k obtain kb where kb: "write_framed (key_codec X) k = Inr kb"
      "\<And>rest. read_framed (key_codec X) (kb @ rest) = Inr (k, rest)"
      by (rule framed_roundtrip) blast
    from r obtain rb where rb: "write_framed (rec_codec X) r = Inr rb"
      "\<And>rest. read_framed (rec_codec X) (rb @ rest) = Inr (r, rest)"
      by (rule framed_roundtrip) blast
    from Cons obtain b where "write_entries X es = Inr b"
      "\<forall>rest. read_entries X (length es) (b @ rest) = Inr (es, rest)"
      by auto
    with p kb rb show ?case by simp
  qed simp
  with that show thesis by blast
qed

text \<open>A bloom payload is written for exactly this filter, so only its own round trip matters.\<close>

definition bloom_ok :: "ext \<Rightarrow> record_key list \<Rightarrow> bool" where
  "bloom_ok X keys \<longleftrightarrow>
     (case build_bloom X keys of
        None \<Rightarrow> False | Some f \<Rightarrow> bits f \<noteq> [] \<and> roundtrips (bloom_codec X) (bits f, bloom_k f))"

definition sst_writable :: "ext \<Rightarrow> (record_key \<times> fun_record) list \<Rightarrow> bool" where
  "sst_writable X es \<longleftrightarrow>
     length es < 2 ^ 32 \<and> (\<forall>p\<in>set es. entry_ok X p) \<and> bloom_ok X (map fst (sort_key fst es))"

definition reader_ok :: "ext \<Rightarrow> sst_reader \<Rightarrow> bool" where
  "reader_ok X r \<longleftrightarrow>
     bt_inv (sst_entries r) \<and> bits (sst_bloom r) \<noteq> [] \<and>
     (\<forall>k\<in>fst ` set (sst_entries r). may_contain X r k = Some True)"

lemma build_bloom_contains:
  assumes "build_bloom X keys = Some f" and "k \<in> set keys"
  shows "bloom_contains (hashes.truncate X) f (key_bytes X k) = Some True"
  using assms bloom_insert_all_contains [of "hashes.truncate X" "map (key_bytes X) keys" _ f "key_bytes X k"]
  by (auto simp: build_bloom_def split: option.splits)

lemma sst_open_file:
  assumes es: "\<forall>p\<in>set es. entry_ok X p" and len: "length es < 2 ^ 32"
    and bl: "bloom_ok X (map fst es)"
  obtains fl f where "sst_file_bytes X es = Inr fl"
    and "build_bloom X (map fst es) = Some f" and "bits f \<noteq> []"
    and "sst_open X fl = Inr \<lparr>sst_entries = es, sst_bloom = f\<rparr>"
proof -
  obtain body where body: "write_entries X es = Inr body"
    "\<And>rest. read_entries X (length es) (body @ rest) = Inr (es, rest)"
    using es by (rule entries_roundtrip) blast
  obtain f where f: "build_bloom X (map fst es) = Some f" "bits f \<noteq> []"
    and rt: "roundtrips (bloom_codec X) (bits f, bloom_k f)"
    using bl by (auto simp: bloom_ok_def split: option.splits)
  obtain fb where fb: "write_framed (bloom_codec X) (bits f, bloom_k f) = Inr fb"
    "\<And>rest. read_framed (bloom_codec X) (fb @ rest) = Inr ((bits f, bloom_k f), rest)"
    using rt by (rule framed_roundtrip) blast
  let ?fl = "magic @ u32_to_le (as_u32 (length es)) @ body @ fb"
  have "sst_open X ?fl = Inr \<lparr>sst_entries = es, sst_bloom = f\<rparr>"
    using fb(2) [of "[]"] len
    by (simp add: sst_open_def read_exact_append unat_as_u32 body(2))
  moreover have "sst_file_bytes X es = Inr ?fl"
    using body(1) f(1) fb(1) by (simp add: sst_file_bytes_def)
  ultimately show thesis using f that by blast
qed

lemma sw_finish_reader:
  assumes "sst_writable X (sw_entries w)" and "distinct (map fst (sw_entries w))"
  obtains fl r where "sw_finish X w = Inr (fl, r)" and "sst_open X fl = Inr r"
    and "sst_entries r = sort_key fst (sw_entries w)" and "reader_ok X r"
proof -
  let ?es = "sort_key fst (sw_entries w)"
  obtain fl f where ff: "sst_file_bytes X ?es = Inr fl"
    "build_bloom X (map fst ?es) = Some f" "bits f \<noteq> []"
    "sst_open X fl = Inr \<lparr>sst_entries = ?es, sst_bloom = f\<rparr>"
    using assms(1) by (auto simp: sst_writable_def intro: sst_open_file [of ?es X])
  have "distinct (map fst ?es)"
    using assms(2) by (simp add: distinct_map)
  then have "bt_inv ?es" by (simp add: bt_inv_def)
  then have "reader_ok X \<lparr>sst_entries = ?es, sst_bloom = f\<rparr>"
    using build_bloom_contains [OF ff(2)] ff(3) by (auto simp: reader_ok_def may_contain_def image_iff)
  with ff show thesis
    by (intro that [of fl "\<lparr>sst_entries = ?es, sst_bloom = f\<rparr>"]) (simp_all add: sw_finish_def)
qed

subsection \<open>Point lookup\<close>

lemma bsearch_unfold:
  assumes "lo < hi" and "mid = lo + (hi - lo) div 2"
  shows "bsearch es key lo hi =
      (if fst (es ! mid) = key then Some mid
       else if fst (es ! mid) < key then bsearch es key (mid + 1) hi else bsearch es key lo mid)"
  using assms by (subst bsearch.simps) (simp add: Let_def)

lemma bsearch_empty: "\<not> lo < hi \<Longrightarrow> bsearch es key lo hi = None"
  by (subst bsearch.simps) simp

lemma bsearch_Some:
  "bsearch es key lo hi = Some i \<Longrightarrow> lo \<le> i \<and> i < hi \<and> fst (es ! i) = key"
proof (induction es key lo hi rule: bsearch.induct)
  case (1 es key lo hi)
  define mid where "mid = lo + (hi - lo) div 2"
  have lt: "lo < hi" using "1.prems" bsearch_empty [of lo hi es key] by (cases "lo < hi") auto
  then have mid: "lo \<le> mid" "mid < hi" by (auto simp: mid_def)
  note unfold = bsearch_unfold [OF lt mid_def, of es key]
  consider "fst (es ! mid) = key" | "fst (es ! mid) < key" | "key < fst (es ! mid)"
    by (rule linorder_cases) blast+
  then show ?case
  proof cases
    case 1
    then show ?thesis using unfold "1.prems" mid by simp
  next
    case 2
    then have ne: "fst (es ! mid) \<noteq> key" by simp
    with 2 have "bsearch es key (mid + 1) hi = Some i" using unfold "1.prems" by simp
    with "1.IH"(1) [OF lt mid_def refl ne 2] mid show ?thesis by fastforce
  next
    case 3
    then have ne: "fst (es ! mid) \<noteq> key" "\<not> fst (es ! mid) < key" by auto
    then have "bsearch es key lo mid = Some i" using unfold "1.prems" by simp
    with "1.IH"(2) [OF lt mid_def refl ne] mid show ?thesis by fastforce
  qed
qed

lemma bsearch_None:
  "bsearch es key lo hi = None \<Longrightarrow> sorted (map fst es) \<Longrightarrow> hi \<le> length es \<Longrightarrow>
     lo \<le> i \<Longrightarrow> i < hi \<Longrightarrow> fst (es ! i) \<noteq> key"
proof (induction es key lo hi rule: bsearch.induct)
  case (1 es key lo hi)
  define mid where "mid = lo + (hi - lo) div 2"
  have lt: "lo < hi" using "1.prems"(4,5) by (rule le_less_trans)
  then have mid: "mid < hi" "mid < length es" using "1.prems"(3) by (auto simp: mid_def)
  have le: "fst (es ! j) \<le> fst (es ! l)" if "j \<le> l" "l < length es" for j l
    using sorted_nth_mono [OF "1.prems"(2), of j l] that by simp
  note unfold = bsearch_unfold [OF lt mid_def, of es key]
  then have ne: "fst (es ! mid) \<noteq> key" using "1.prems"(1) by auto
  show ?case
  proof (cases "fst (es ! mid) < key")
    case True
    show ?thesis
    proof (cases "i \<le> mid")
      case True
      then show ?thesis using le [OF True mid(2)] \<open>fst (es ! mid) < key\<close> by auto
    next
      case False
      then show ?thesis
        using "1.IH"(1) [OF lt mid_def refl ne True] unfold ne True "1.prems" by auto
    qed
  next
    case False
    show ?thesis
    proof (cases "mid \<le> i")
      case True
      then show ?thesis using le [OF True] "1.prems" ne False by force
    next
      case F: False
      then show ?thesis
        using "1.IH"(2) [OF lt mid_def refl ne False] unfold ne False "1.prems" mid by auto
    qed
  qed
qed

lemma sst_get_map_of:
  assumes "reader_ok X r"
  shows "sst_get X r k = Inr (map_of (sst_entries r) k)"
proof -
  have inv: "bt_inv (sst_entries r)" and "bits (sst_bloom r) \<noteq> []"
    using assms by (auto simp: reader_ok_def)
  then obtain b where b: "may_contain X r k = Some b"
    using bloom_contains_loop_total unfolding may_contain_def bloom_contains_def by blast
  show ?thesis
  proof (cases "map_of (sst_entries r) k")
    case None
    then have "k \<notin> fst ` set (sst_entries r)" by (simp add: map_of_eq_None_iff)
    then have "fst (sst_entries r ! i) \<noteq> k" if "i < length (sst_entries r)" for i
      using that by force
    then have "bsearch (sst_entries r) k 0 (length (sst_entries r)) = None"
      using bsearch_Some [of "sst_entries r" k 0 "length (sst_entries r)"]
      by (cases "bsearch (sst_entries r) k 0 (length (sst_entries r))") auto
    with b None show ?thesis by (cases b) (simp_all add: sst_get_def)
  next
    case (Some v)
    then have mem: "(k, v) \<in> set (sst_entries r)" by (rule map_of_SomeD)
    then have "may_contain X r k = Some True" using assms by (force simp: reader_ok_def)
    moreover obtain j where j: "j < length (sst_entries r)" "sst_entries r ! j = (k, v)"
      using mem by (auto simp: in_set_conv_nth)
    then obtain i where i: "bsearch (sst_entries r) k 0 (length (sst_entries r)) = Some i"
      using bsearch_None [of "sst_entries r" k 0 "length (sst_entries r)" j] inv
      by (auto simp: bt_inv_def)
    moreover have "snd (sst_entries r ! i) = v"
    proof -
      have "sst_entries r ! i \<in> set (sst_entries r)" and "fst (sst_entries r ! i) = k"
        using bsearch_Some [OF i] by auto
      then have "map_of (sst_entries r) k = Some (snd (sst_entries r ! i))"
        using inv by (auto simp: bt_inv_def)
      with Some show ?thesis by simp
    qed
    ultimately show ?thesis using Some by (simp add: sst_get_def)
  qed
qed

subsection \<open>Range scan\<close>

definition sst_map :: "sst_reader \<Rightarrow> record_key \<Rightarrow> fun_record option" where
  "sst_map r k = map_of (sst_entries r) k"

definition sst_wf :: "sst_reader \<Rightarrow> bool" where
  "sst_wf r \<longleftrightarrow> bt_inv (sst_entries r)"

lemma sst_range_filter:
  "sst_wf r \<Longrightarrow> sst_range r lo hi = filter (\<lambda>p. lo \<le> fst p \<and> fst p \<le> hi) (sst_entries r)"
proof -
  assume "sst_wf r"
  then have srt: "sorted (map fst (sst_entries r))" by (simp add: sst_wf_def bt_inv_def)
  have "sst_range r lo hi =
      takeWhile (\<lambda>p. fst p \<le> hi) (dropWhile (\<lambda>p. fst p < lo) (sst_entries r))"
    by (simp add: sst_range_def partition_point_def Let_def case_prod_unfold dropWhile_eq_drop)
  also have "\<dots> = takeWhile (\<lambda>p. fst p \<le> hi) (filter (\<lambda>p. lo \<le> fst p) (sst_entries r))"
    using srt by (simp add: sorted_dropWhile_filter)
  also have "\<dots> = filter (\<lambda>p. lo \<le> fst p \<and> fst p \<le> hi) (sst_entries r)"
    using srt by (subst sorted_takeWhile_filter) (auto simp: sorted_filter conj_commute)
  finally show ?thesis .
qed

interpretation sst_src: record_source sst_map sst_range sst_wf
  by unfold_locales
    (auto simp: sst_range_filter sst_map_def map_of_filter_interval sst_wf_def bt_inv_def
      distinct_map_filter sorted_filter)

subsection \<open>Merging\<close>

lemma dedup_rev_subset: "set (dedup_rev es p) \<subseteq> set es"
  by (induction es p rule: dedup_rev.induct) auto

lemma dedup_rev_descending:
  "sorted_wrt (\<ge>) (map fst es) \<Longrightarrow> (\<And>k. p = Some k \<Longrightarrow> \<forall>q\<in>set es. fst q \<le> k) \<Longrightarrow>
     sorted_wrt (>) (map fst (dedup_rev es p)) \<and>
     (\<forall>k. p = Some k \<longrightarrow> (\<forall>q\<in>set (dedup_rev es p). fst q < k))"
proof (induction es p rule: dedup_rev.induct)
  case (2 k r es p)
  have desc: "sorted_wrt (\<ge>) (map fst es)" and ub: "\<forall>q\<in>set es. fst q \<le> k"
    using "2.prems"(1) by auto
  show ?case
  proof (cases "p = Some k")
    case True
    with "2.IH"(1) [OF True desc] ub show ?thesis by auto
  next
    case False
    from "2.IH"(2) [OF False desc] ub
    have IH: "sorted_wrt (>) (map fst (dedup_rev es (Some k)))"
      "\<forall>q\<in>set (dedup_rev es (Some k)). fst q < k" by auto
    moreover have "k < l" if "p = Some l" for l
      using "2.prems"(2) [OF that] that False by auto
    ultimately show ?thesis using False by (auto intro: less_trans)
  qed
qed simp

lemma map_of_dedup_rev:
  "sorted_wrt (\<ge>) (map fst es) \<Longrightarrow>
     map_of (dedup_rev es p) k = (if p = Some k then map_of (dedup_rev es p) k else map_of es k)"
  by (induction es p rule: dedup_rev.induct) auto

lemma merge_entries_map:
  "map_of (merge_entries inputs) = map_of (rev (concat (map sst_entries inputs)))"
  and merge_entries_inv: "bt_inv (merge_entries inputs)"
proof -
  let ?all = "sort_key fst (concat (map sst_entries inputs))"
  have desc: "sorted_wrt (\<ge>) (map fst (rev ?all))"
    by (simp add: rev_map [symmetric] sorted_wrt_rev)
  then have d: "sorted_wrt (>) (map fst (dedup_rev (rev ?all) None))"
    by (rule dedup_rev_descending [THEN conjunct1]) simp
  then have lt: "sorted_wrt (<) (map fst (merge_entries inputs))"
    by (simp add: merge_entries_def Let_def rev_map [symmetric] sorted_wrt_rev)
  then show inv: "bt_inv (merge_entries inputs)"
    by (simp add: bt_inv_def strict_sorted_iff)
  then have "map_of (merge_entries inputs) = map_of (dedup_rev (rev ?all) None)"
    by (subst map_of_distinct_rev [symmetric]) (simp_all add: bt_inv_def merge_entries_def Let_def)
  also have "\<dots> = map_of (rev ?all)"
    using map_of_dedup_rev [OF desc, of None] by (simp add: fun_eq_iff)
  finally show "map_of (merge_entries inputs) = map_of (rev (concat (map sst_entries inputs)))"
    by (simp add: map_of_rev_sort_key)
qed

text \<open>In the merged segment a key has the value of the newest input that holds it.\<close>

lemma map_of_rev_concat:
  "\<forall>r\<in>set rs. sst_wf r \<Longrightarrow>
     map_of (rev (concat (map sst_entries rs))) k = first_hit sst_map (rev rs) k"
proof (induction rs)
  case (Cons r rs)
  then have "map_of (rev (sst_entries r)) = map_of (sst_entries r)"
    by (intro map_of_distinct_rev) (simp add: sst_wf_def bt_inv_def)
  with Cons show ?case
    by (simp add: map_add_or_else first_hit_append sst_map_def)
qed simp

lemma merge_newest_wins:
  "\<forall>r\<in>set rs. sst_wf r \<Longrightarrow> map_of (merge_entries rs) k = first_hit sst_map (rev rs) k"
  by (simp add: merge_entries_map map_of_rev_concat)

lemma sw_entries_fold:
  "sw_entries (fold (\<lambda>(k, r). sw_add k r) es w) = sw_entries w @ es"
  by (induction es arbitrary: w) (auto simp: sw_add_def)

lemma bt_inv_sort [simp]: "bt_inv es \<Longrightarrow> sort_key fst es = es"
  by (simp add: bt_inv_def sort_key_id_if_sorted)

lemma merge_sstables_reader:
  assumes "sst_writable X (merge_entries rs)"
  obtains fl r where "merge_sstables X rs = Inr (fl, r)" and "sst_open X fl = Inr r"
    and "sst_entries r = merge_entries rs" and "reader_ok X r"
proof -
  let ?w = "fold (\<lambda>(k, r). sw_add k r) (merge_entries rs) sw_new"
  have es: "sw_entries ?w = merge_entries rs" by (simp add: sw_entries_fold sw_new_def)
  have "distinct (map fst (merge_entries rs))" using merge_entries_inv by (simp add: bt_inv_def)
  with assms es show thesis
    using sw_finish_reader [of X ?w] that merge_entries_inv [of rs]
    by (metis bt_inv_sort merge_sstables_def)
qed

end
