(* ===== verification/Wal.thy ===== *)
theory Wal
  imports Codec
begin

text \<open>
  The write-ahead log, \<open>crates/fundb-storage/src/wal.rs\<close>. The log is the byte content of its file
  (\<open>None\<close> before the file exists) with the number of bytes that the last \<open>sync_data\<close> made durable
  and the LSN counter. Reads and writes of the file itself succeed in the model; every other error
  of the code is a value of \<open>wal_error\<close>.
\<close>

datatype wal_error =
  SerializeError | ShortBody | ShortCrc | CrcMismatch | DeserializeError

record wal =
  wal_file :: bytes
  wal_synced :: nat
  current_lsn :: nat

subsection \<open>Frames\<close>

definition frame :: "ext \<Rightarrow> bytes \<Rightarrow> bytes" where
  "frame X body = u32_to_le (as_u32 (length body)) @ body @ u32_to_le (crc X body)"

definition read_frame :: "ext \<Rightarrow> bytes \<Rightarrow> wal_error + (wal_entry \<times> bytes) option" where
  "read_frame X reader =
     (case read_exact 4 reader of
        None \<Rightarrow> Inr None
      | Some (len_buf, r1) \<Rightarrow>
          (case read_exact (unat (u32_from_le len_buf)) r1 of
             None \<Rightarrow> Inl ShortBody
           | Some (body, r2) \<Rightarrow>
               (case read_exact 4 r2 of
                  None \<Rightarrow> Inl ShortCrc
                | Some (crc_buf, r3) \<Rightarrow>
                    if crc X body \<noteq> u32_from_le crc_buf then Inl CrcMismatch
                    else (case dec (entry_codec X) body of
                            None \<Rightarrow> Inl DeserializeError
                          | Some e \<Rightarrow> Inr (Some (e, r3))))))"

lemma read_frame_shrinks:
  "read_frame X bs = Inr (Some (e, rest)) \<Longrightarrow> length rest < length bs"
  by (auto simp: read_frame_def split: option.splits prod.splits if_splits
      dest!: read_exact_SomeD)

text \<open>
  The recovery iterator: \<open>next\<close> is called until it returns \<open>None\<close>, which it does at a clean end of
  file and at the first bad frame.
\<close>

function recover :: "ext \<Rightarrow> bytes \<Rightarrow> wal_entry list" where
  "recover X bs =
     (case read_frame X bs of
        Inl _ \<Rightarrow> []
      | Inr None \<Rightarrow> []
      | Inr (Some (e, rest)) \<Rightarrow> e # recover X rest)"
  by pat_completeness auto
termination
  by (relation "measure (\<lambda>(X, bs). length bs)") (auto dest: read_frame_shrinks)

declare recover.simps [simp del]

text \<open>The loop of \<open>count_valid_entries\<close>, with its u64 counter.\<close>

function count_valid_entries :: "ext \<Rightarrow> bytes \<Rightarrow> nat \<Rightarrow> nat" where
  "count_valid_entries X bs count =
     (case read_frame X bs of
        Inr (Some (_, rest)) \<Rightarrow> count_valid_entries X rest (u64_succ count)
      | Inr None \<Rightarrow> count
      | Inl _ \<Rightarrow> count)"
  by pat_completeness auto
termination
  by (relation "measure (\<lambda>(X, bs, _). length bs)") (auto dest: read_frame_shrinks)

declare count_valid_entries.simps [simp del]

subsection \<open>The log handle\<close>

definition wal_open :: "ext \<Rightarrow> bytes option \<Rightarrow> wal" where
  "wal_open X disk =
     (case disk of
        None \<Rightarrow> \<lparr>wal_file = [], wal_synced = 0, current_lsn = 0\<rparr>
      | Some bs \<Rightarrow> \<lparr>wal_file = bs, wal_synced = length bs,
                    current_lsn = count_valid_entries X bs 0\<rparr>)"

fun is_commit :: "wal_entry \<Rightarrow> bool" where
  "is_commit (TxnCommit _) = True"
| "is_commit _ = False"

definition wal_append :: "ext \<Rightarrow> wal_entry \<Rightarrow> wal \<Rightarrow> wal_error + wal \<times> nat" where
  "wal_append X entry w =
     (case enc (entry_codec X) entry of
        None \<Rightarrow> Inl SerializeError
      | Some body \<Rightarrow>
          let f = wal_file w @ frame X body;
              s = (if is_commit entry then length f else wal_synced w);
              lsn = u64_succ (current_lsn w)
          in Inr (\<lparr>wal_file = f, wal_synced = s, current_lsn = lsn\<rparr>, lsn))"

definition wal_checkpoint :: "ext \<Rightarrow> nat \<Rightarrow> wal \<Rightarrow> wal_error + wal" where
  "wal_checkpoint X lsn w = map_sum id fst (wal_append X (Checkpoint lsn) w)"

fun wal_append_all :: "ext \<Rightarrow> wal_entry list \<Rightarrow> wal \<Rightarrow> wal_error + wal \<times> nat list" where
  "wal_append_all X [] w = Inr (w, [])"
| "wal_append_all X (e # es) w =
     (case wal_append X e w of
        Inl err \<Rightarrow> Inl err
      | Inr (w1, lsn) \<Rightarrow>
          (case wal_append_all X es w1 of
             Inl err \<Rightarrow> Inl err
           | Inr (w2, lsns) \<Rightarrow> Inr (w2, lsn # lsns)))"

subsection \<open>Reading back a frame\<close>

definition entry_bytes :: "ext \<Rightarrow> wal_entry \<Rightarrow> bytes" where
  "entry_bytes X e = (case enc (entry_codec X) e of None \<Rightarrow> [] | Some b \<Rightarrow> frame X b)"

definition log_bytes :: "ext \<Rightarrow> wal_entry list \<Rightarrow> bytes" where
  "log_bytes X es = concat (map (entry_bytes X) es)"

abbreviation writable :: "ext \<Rightarrow> wal_entry \<Rightarrow> bool" where
  "writable X e \<equiv> roundtrips (entry_codec X) e"

lemma log_bytes_simps [simp]:
  "log_bytes X [] = []" "log_bytes X (e # es) = entry_bytes X e @ log_bytes X es"
  "log_bytes X (es @ fs) = log_bytes X es @ log_bytes X fs"
  by (simp_all add: log_bytes_def)

lemma read_frame_entry [codec_simps]:
  assumes "writable X e"
  shows "read_frame X (entry_bytes X e @ rest) = Inr (Some (e, rest))"
proof -
  obtain b where "enc (entry_codec X) e = Some b" "length b < 2 ^ 32"
    "dec (entry_codec X) b = Some e"
    using assms by (rule roundtripsE)
  then show ?thesis
    by (simp add: entry_bytes_def frame_def read_frame_def codec_simps)
qed

lemma recover_log:
  "\<forall>e\<in>set es. writable X e \<Longrightarrow> recover X (log_bytes X es @ tail) = es @ recover X tail"
proof (induction es)
  case (Cons e es)
  then show ?case
    by (subst recover.simps) (simp add: codec_simps)
qed simp

lemma recover_Nil [simp]: "recover X [] = []"
  by (subst recover.simps) (simp add: read_frame_def read_exact_def)

text \<open>A crash in the middle of an append leaves a proper prefix of a frame behind.\<close>

lemma read_frame_torn:
  assumes e: "writable X e" and split: "entry_bytes X e = t @ u" and u: "u \<noteq> []"
  shows "read_frame X t = Inr None \<or> read_frame X t = Inl ShortBody \<or> read_frame X t = Inl ShortCrc"
proof -
  obtain b where b: "enc (entry_codec X) e = Some b" "length b < 2 ^ 32"
    using e by (rule roundtripsE)
  let ?l = "u32_to_le (as_u32 (length b))" and ?c = "u32_to_le (crc X b)"
  have whole: "?l @ b @ ?c = t @ u" using split b by (simp add: entry_bytes_def frame_def)
  then have len: "length t < 8 + length b"
    using u by (metis add.commute add.left_commute length_append length_greater_0_conv
        length_u32_to_le less_add_same_cancel1 numeral_Bit0)
  show ?thesis
  proof (cases "length t < 4")
    case True
    then show ?thesis by (simp add: read_frame_def read_exact_short)
  next
    case False
    then obtain t' where t: "t = ?l @ t'" and rest: "b @ ?c = t' @ u"
      using whole by (auto simp: append_eq_append_conv2) (metis length_append length_u32_to_le
          not_add_less1 append_Nil2 le_eq_less_or_eq linorder_not_less add_cancel_right_right
          length_0_conv)
    show ?thesis
    proof (cases "length t' < length b")
      case True
      then show ?thesis using t b by (simp add: read_frame_def codec_simps read_exact_short)
    next
      case False
      then obtain t'' where "t' = b @ t''"
        using rest by (metis append_eq_append_conv_if append_take_drop_id linorder_not_le)
      then show ?thesis
        using t b len by (simp add: read_frame_def codec_simps read_exact_short)
    qed
  qed
qed

lemma recover_torn:
  "writable X e \<Longrightarrow> entry_bytes X e = t @ u \<Longrightarrow> u \<noteq> [] \<Longrightarrow> recover X t = []"
  by (subst recover.simps) (auto dest: read_frame_torn)

text \<open>A frame with a wrong checksum is rejected whatever follows it.\<close>

lemma read_frame_mismatch_extend:
  "read_frame X bad = Inl CrcMismatch \<Longrightarrow> read_frame X (bad @ junk) = Inl CrcMismatch"
  by (auto simp: read_frame_def read_exact_extend split: option.splits prod.splits if_splits)

lemma recover_after_corruption:
  "\<forall>e\<in>set es. writable X e \<Longrightarrow> read_frame X bad = Inl CrcMismatch \<Longrightarrow>
     recover X (log_bytes X es @ bad @ junk) = es"
  by (simp add: recover_log) (subst recover.simps, simp add: read_frame_mismatch_extend)

subsection \<open>LSNs\<close>

lemma count_valid_entries_eq:
  "c < 2 ^ 64 \<Longrightarrow> count_valid_entries X bs c = (c + length (recover X bs)) mod 2 ^ 64"
proof (induction X bs c rule: count_valid_entries.induct)
  case (1 X bs c)
  have "u64_succ c < 2 ^ 64" by (simp add: u64_succ_def)
  moreover have "(u64_succ c + n) mod 2 ^ 64 = (c + Suc n) mod 2 ^ 64" for n
    by (simp add: u64_succ_def mod_add_left_eq)
  ultimately show ?case
    using 1 by (subst count_valid_entries.simps, subst recover.simps)
      (auto split: sum.splits option.splits)
qed

lemma wal_append_Inr:
  "writable X e \<Longrightarrow> wal_append X e w = Inr
     (\<lparr>wal_file = wal_file w @ entry_bytes X e,
       wal_synced = (if is_commit e then length (wal_file w) + length (entry_bytes X e)
                     else wal_synced w),
       current_lsn = u64_succ (current_lsn w)\<rparr>, u64_succ (current_lsn w))"
  by (auto simp: wal_append_def entry_bytes_def Let_def elim!: roundtripsE)

lemma wal_append_all_file:
  "\<forall>e\<in>set es. writable X e \<Longrightarrow> \<exists>w' lsns. wal_append_all X es w = Inr (w', lsns) \<and>
     wal_file w' = wal_file w @ log_bytes X es \<and> length lsns = length es"
proof (induction es arbitrary: w)
  case (Cons e es)
  then obtain w1 where w1: "wal_append X e w = Inr (w1, u64_succ (current_lsn w))"
    "wal_file w1 = wal_file w @ entry_bytes X e"
    by (simp add: wal_append_Inr)
  from Cons obtain w' lsns where "wal_append_all X es w1 = Inr (w', lsns)"
    "wal_file w' = wal_file w1 @ log_bytes X es" "length lsns = length es"
    by (metis list.set_intros(2))
  with w1 show ?case by simp
qed simp

lemma wal_append_all_lsns:
  "\<forall>e\<in>set es. writable X e \<Longrightarrow> current_lsn w + length es < 2 ^ 64 \<Longrightarrow>
     wal_append_all X es w = Inr (w', lsns) \<Longrightarrow>
     lsns = [Suc (current_lsn w)..<Suc (current_lsn w + length es)] \<and>
     current_lsn w' = current_lsn w + length es"
proof (induction es arbitrary: w w' lsns)
  case (Cons e es)
  have succ: "u64_succ (current_lsn w) = Suc (current_lsn w)"
    using Cons.prems(2) by (intro u64_succ_less) (simp add: u64_max_def)
  obtain w1 where w1: "wal_append X e w = Inr (w1, Suc (current_lsn w))"
    "current_lsn w1 = Suc (current_lsn w)"
    using Cons.prems(1) by (simp add: wal_append_Inr succ)
  with Cons.prems(3) obtain lsns' where
    rest: "wal_append_all X es w1 = Inr (w', lsns')" "lsns = Suc (current_lsn w) # lsns'"
    by (auto split: sum.splits)
  then show ?case
    using Cons.IH [of w1 w' lsns'] Cons.prems w1(2) by (simp add: upt_rec)
qed simp

end
