(* ===== verification/Block_Cache.thy ===== *)
theory Block_Cache
  imports Prelude
begin

text \<open>
  The LRU block cache, \<open>crates/fundb-storage/src/block_cache.rs\<close>. The \<open>HashMap\<close> is a map, the
  \<open>VecDeque\<close> a list (front first). \<open>bc_inv\<close> says the deque lists the cached keys without repetition
  and the byte counter is their total, at most the capacity; so no subtraction of the code underflows.
\<close>

datatype cache_key = CacheKey (file_id: string) (block_offset: nat)

record block_cache =
  capacity_bytes :: nat
  current_bytes :: nat
  cache_map :: "cache_key \<rightharpoonup> bytes"
  lru_order :: "cache_key list"

definition bc_new :: "nat \<Rightarrow> block_cache" where
  "bc_new cap = \<lparr>capacity_bytes = cap, current_bytes = 0, cache_map = Map.empty, lru_order = []\<rparr>"

definition bc_get :: "cache_key \<Rightarrow> block_cache \<Rightarrow> bytes option \<times> block_cache" where
  "bc_get key c =
     (case cache_map c key of
        None \<Rightarrow> (None, c)
      | Some d \<Rightarrow> (Some d, c\<lparr>lru_order := remove1 key (lru_order c) @ [key]\<rparr>))"

text \<open>The eviction loop: pop the oldest key until \<open>n\<close> more bytes fit or the deque is empty.\<close>

fun evict :: "nat \<Rightarrow> nat \<Rightarrow> nat \<Rightarrow> (cache_key \<rightharpoonup> bytes) \<Rightarrow> cache_key list \<Rightarrow>
    nat \<times> (cache_key \<rightharpoonup> bytes) \<times> cache_key list" where
  "evict cap n cur m [] = (cur, m, [])"
| "evict cap n cur m (k # ks) =
     (if cur + n > cap then
        (case m k of
           Some old \<Rightarrow> evict cap n (cur - length old) (m(k := None)) ks
         | None \<Rightarrow> evict cap n cur m ks)
      else (cur, m, k # ks))"

text \<open>Removing a key that is already cached.\<close>

definition bc_forget :: "cache_key \<Rightarrow> block_cache \<Rightarrow> block_cache" where
  "bc_forget key c =
     (case cache_map c key of
        None \<Rightarrow> c
      | Some old \<Rightarrow>
          c\<lparr>cache_map := (cache_map c)(key := None), current_bytes := current_bytes c - length old,
            lru_order := remove1 key (lru_order c)\<rparr>)"

definition bc_insert :: "cache_key \<Rightarrow> bytes \<Rightarrow> block_cache \<Rightarrow> block_cache" where
  "bc_insert key data c =
     (if length data > capacity_bytes c then c
      else
        let c1 = bc_forget key c;
            (cur, m, ks) = evict (capacity_bytes c1) (length data) (current_bytes c1)
                             (cache_map c1) (lru_order c1)
        in c1\<lparr>cache_map := m(key \<mapsto> data), current_bytes := cur + length data,
              lru_order := ks @ [key]\<rparr>)"

definition used_bytes :: "block_cache \<Rightarrow> nat" where
  "used_bytes c = current_bytes c"

subsection \<open>The invariant\<close>

definition total :: "(cache_key \<rightharpoonup> bytes) \<Rightarrow> cache_key list \<Rightarrow> nat" where
  "total m ks = sum_list (map (\<lambda>k. length (the (m k))) ks)"

definition accounted :: "nat \<Rightarrow> (cache_key \<rightharpoonup> bytes) \<Rightarrow> cache_key list \<Rightarrow> bool" where
  "accounted cur m ks \<longleftrightarrow> distinct ks \<and> set ks = dom m \<and> cur = total m ks"

definition bc_inv :: "block_cache \<Rightarrow> bool" where
  "bc_inv c \<longleftrightarrow> accounted (current_bytes c) (cache_map c) (lru_order c) \<and>
     current_bytes c \<le> capacity_bytes c"

lemma total_simps [simp]:
  "total m [] = 0" "total m (k # ks) = length (the (m k)) + total m ks"
  "total m (ks @ ls) = total m ks + total m ls"
  by (simp_all add: total_def)

lemma total_upd: "k \<notin> set ks \<Longrightarrow> total (m(k := v)) ks = total m ks"
  by (induction ks) auto

lemma total_remove1: "k \<in> set ks \<Longrightarrow> total m ks = length (the (m k)) + total m (remove1 k ks)"
  by (induction ks) auto

lemma bc_inv_new [simp]: "bc_inv (bc_new cap)"
  by (simp add: bc_inv_def bc_new_def accounted_def)

lemma accounted_remove:
  assumes "accounted cur m ks" and "m k = Some d"
  shows "length d \<le> cur" and "accounted (cur - length d) (m(k := None)) (remove1 k ks)"
proof -
  have k: "k \<in> set ks" and d: "distinct ks" using assms by (auto simp: accounted_def)
  have "k \<notin> set (remove1 k ks)" using d by simp
  then show "accounted (cur - length d) (m(k := None)) (remove1 k ks)"
    using assms k by (auto simp: accounted_def total_upd total_remove1 [OF k])
  show "length d \<le> cur" using assms k by (simp add: accounted_def total_remove1 [OF k])
qed

lemma bc_get_inv: "bc_inv c \<Longrightarrow> bc_inv (snd (bc_get k c))"
proof (cases "cache_map c k")
  case (Some d)
  assume "bc_inv c"
  then have acc: "accounted (current_bytes c) (cache_map c) (lru_order c)"
    and k: "k \<in> set (lru_order c)"
    using Some by (auto simp: bc_inv_def accounted_def)
  then show ?thesis
    using \<open>bc_inv c\<close> Some
    by (auto simp: bc_inv_def bc_get_def accounted_def total_remove1 [OF k])
qed (simp add: bc_get_def)

lemma bc_forget_inv: "bc_inv c \<Longrightarrow> bc_inv (bc_forget k c) \<and> cache_map (bc_forget k c) k = None"
  by (auto simp: bc_forget_def bc_inv_def accounted_remove split: option.splits
      intro: le_trans)

text \<open>
  What eviction does: it drops the shortest prefix of the deque (oldest first) after which the new
  block fits, and forgets exactly the dropped keys.
\<close>

lemma evict_spec:
  assumes "accounted cur m ks" and "evict cap n cur m ks = (cur', m', ks')" and "n \<le> cap"
  shows "accounted cur' m' ks' \<and> cur' + n \<le> cap \<and> m' = m |` set ks' \<and>
    (\<exists>i. ks' = drop i ks \<and> (\<forall>j < i. total m (drop j ks) + n > cap))"
  using assms
proof (induction cap n cur m ks rule: evict.induct)
  case (1 cap n cur m)
  then show ?case by (auto simp: accounted_def)
next
  case (2 cap n cur m k ks)
  show ?case
  proof (cases "cur + n > cap")
    case False
    with "2.prems" have "cur' = cur" "m' = m" "ks' = k # ks" by auto
    moreover have "m = m |` dom m" by (simp add: restrict_map_def fun_eq_iff domIff)
    ultimately show ?thesis
      using "2.prems" False by (auto simp: accounted_def intro!: exI [of _ 0])
  next
    case True
    obtain old where old: "m k = Some old"
      using "2.prems"(1) by (auto simp: accounted_def)
    have acc: "accounted (cur - length old) (m(k := None)) ks"
      using accounted_remove(2) [OF "2.prems"(1) old] by simp
    have k: "k \<notin> set ks" using "2.prems"(1) by (simp add: accounted_def)
    have ev: "evict cap n (cur - length old) (m(k := None)) ks = (cur', m', ks')"
      using "2.prems"(2) True old by (simp add: fun_upd_def)
    from "2.IH"(2) [OF True old acc ev "2.prems"(3)]
    obtain i where IH: "accounted cur' m' ks'" "cur' + n \<le> cap" "m' = (m(k := None)) |` set ks'"
      "ks' = drop i ks" "\<forall>j < i. total (m(k := None)) (drop j ks) + n > cap"
      by blast
    have "m' = m |` set ks'"
      using IH(3,4) k by (auto simp: restrict_map_def fun_eq_iff dest: in_set_dropD)
    moreover have "total m (drop j (k # ks)) + n > cap" if "j < Suc i" for j
    proof (cases j)
      case 0
      with True "2.prems"(1) show ?thesis by (simp add: accounted_def)
    next
      case (Suc j')
      with IH(5) that k show ?thesis
        by (metis Suc_less_eq drop_Suc_Cons in_set_dropD total_upd)
    qed
    ultimately show ?thesis using IH by (auto intro!: exI [of _ "Suc i"])
  qed
qed

lemma bc_insert_cases:
  assumes inv: "bc_inv c" and fits: "length data \<le> capacity_bytes c"
  obtains m ks i where
    "bc_insert key data c =
       (bc_forget key c)\<lparr>cache_map := m(key \<mapsto> data), current_bytes := total m ks + length data,
                        lru_order := ks @ [key]\<rparr>"
    and "accounted (total m ks) m ks" and "total m ks + length data \<le> capacity_bytes c"
    and "m = cache_map (bc_forget key c) |` set ks" and "key \<notin> set ks"
    and "ks = drop i (lru_order (bc_forget key c))"
    and "\<forall>j < i. total (cache_map (bc_forget key c)) (drop j (lru_order (bc_forget key c)))
            + length data > capacity_bytes c"
proof -
  let ?f = "bc_forget key c"
  have f: "bc_inv ?f" "cache_map ?f key = None" "capacity_bytes ?f = capacity_bytes c"
    using bc_forget_inv [OF inv] by (auto simp: bc_forget_def split: option.splits)
  obtain cur m ks where ev: "evict (capacity_bytes ?f) (length data) (current_bytes ?f)
      (cache_map ?f) (lru_order ?f) = (cur, m, ks)"
    by (metis prod_cases3)
  from evict_spec [OF _ ev] f fits
  have sp: "accounted cur m ks" "cur + length data \<le> capacity_bytes c"
    "m = cache_map ?f |` set ks"
    "\<exists>i. ks = drop i (lru_order ?f) \<and>
       (\<forall>j < i. total (cache_map ?f) (drop j (lru_order ?f)) + length data > capacity_bytes c)"
    by (auto simp: bc_inv_def)
  have "key \<notin> set ks"
    using sp(4) f by (auto simp: bc_inv_def accounted_def dest!: in_set_dropD)
  moreover have "cur = total m ks" using sp(1) by (simp add: accounted_def)
  ultimately show thesis using sp ev fits that by (auto simp: bc_insert_def Let_def)
qed

lemma bc_insert_inv: "bc_inv c \<Longrightarrow> bc_inv (bc_insert k d c)"
proof (cases "length d \<le> capacity_bytes c")
  case True
  assume "bc_inv c"
  from this True obtain m ks i where ins: "bc_insert k d c =
       (bc_forget k c)\<lparr>cache_map := m(k \<mapsto> d), current_bytes := total m ks + length d,
                        lru_order := ks @ [k]\<rparr>"
    and "accounted (total m ks) m ks" "total m ks + length d \<le> capacity_bytes c" "k \<notin> set ks"
    by (rule bc_insert_cases)
  moreover have "capacity_bytes (bc_forget k c) = capacity_bytes c"
    by (simp add: bc_forget_def split: option.splits)
  ultimately show ?thesis by (auto simp: bc_inv_def accounted_def total_upd)
qed (simp add: bc_insert_def)

lemma bc_get_insert:
  "bc_inv c \<Longrightarrow> length d \<le> capacity_bytes c \<Longrightarrow> fst (bc_get k (bc_insert k d c)) = Some d"
  by (erule bc_insert_cases [of c d k]) (auto simp: bc_get_def)

text \<open>A block that survives an insert keeps its data; no other key gets any.\<close>

lemma bc_insert_other:
  assumes "bc_inv c" and "l \<noteq> k" and "cache_map (bc_insert k d c) l = Some b"
  shows "cache_map c l = Some b"
proof (cases "length d \<le> capacity_bytes c")
  case True
  then obtain m ks i where ins: "bc_insert k d c =
       (bc_forget k c)\<lparr>cache_map := m(k \<mapsto> d), current_bytes := total m ks + length d,
                        lru_order := ks @ [k]\<rparr>" and m: "m = cache_map (bc_forget k c) |` set ks"
    using assms(1) by (metis bc_insert_cases)
  then have "cache_map (bc_forget k c) l = Some b"
    using assms by (auto simp: restrict_map_def split: if_splits)
  then show ?thesis by (auto simp: bc_forget_def split: option.splits if_splits)
qed (use assms in \<open>simp add: bc_insert_def\<close>)

subsection \<open>Sequences of cache operations\<close>

datatype cache_op = CacheGet cache_key | CacheInsert cache_key bytes

fun bc_run :: "cache_op list \<Rightarrow> block_cache \<Rightarrow> block_cache" where
  "bc_run [] c = c"
| "bc_run (CacheGet k # ops) c = bc_run ops (snd (bc_get k c))"
| "bc_run (CacheInsert k d # ops) c = bc_run ops (bc_insert k d c)"

lemma bc_run_inv: "bc_inv c \<Longrightarrow> bc_inv (bc_run ops c)"
  by (induction ops c rule: bc_run.induct) (simp_all add: bc_get_inv bc_insert_inv)

lemma bc_run_capacity: "capacity_bytes (bc_run ops c) = capacity_bytes c"
proof (induction ops c rule: bc_run.induct)
  case (2 k ops c)
  then show ?case by (simp add: bc_get_def split: option.splits)
next
  case (3 k d ops c)
  then show ?case
    by (simp add: bc_insert_def bc_forget_def Let_def split: option.splits prod.splits)
qed simp

end
