(* ===== verification/Compaction.thy ===== *)
theory Compaction
  imports Prelude
begin

text \<open>
  The compaction policy, \<open>crates/fundb-storage/src/compaction.rs\<close>. Files are a list, oldest first;
  their type does not matter.
\<close>

datatype compaction_policy =
    Leveled (level_size_ratio: nat) (max_levels: nat)
  | SizeTiered (min_sstable_count: nat)

fun should_compact :: "compaction_policy \<Rightarrow> 'f list \<Rightarrow> bool" where
  "should_compact (Leveled _ levels) files = (length files > (levels * 4) mod 2 ^ 64)"
| "should_compact (SizeTiered min_count) files = (length files \<ge> min_count)"

fun select_files :: "compaction_policy \<Rightarrow> 'f list \<Rightarrow> 'f list" where
  "select_files (Leveled _ _) files =
     (let n = length files
      in if n = 0 then [] else take ((n + 1) div 2) files)"
| "select_files (SizeTiered min_count) files =
     (let n = length files
      in if n < min_count then [] else take min_count files)"

lemma select_files_prefix: "\<exists>rest. files = select_files p files @ rest"
  by (cases p) (auto simp: Let_def intro: append_take_drop_id [symmetric])

lemma select_files_subset: "set (select_files p files) \<subseteq> set files"
  using select_files_prefix [of files p] by (metis set_append sup_ge1)

lemma length_select_files:
  "length (select_files p files) =
     (case p of
        Leveled _ _ \<Rightarrow> (length files + 1) div 2
      | SizeTiered m \<Rightarrow> if length files < m then 0 else m)"
  by (cases p) (auto simp: Let_def)

end
