(* ===== verification/Lsm.thy ===== *)
theory Lsm
  imports MemTable Sstable Wal Block_Cache Compaction
begin

text \<open>
  The storage engine, \<open>crates/fundb-storage/src/lsm.rs\<close>. The state holds the active memtable, the
  log, the frozen memtables (oldest first), the files of the directory by name, the block cache and
  the flush tasks that \<open>tokio::spawn\<close> has started and that have not ended. Time stamps for file names
  and tombstones are arguments. An operation that takes its locks one after the other runs as one
  step here, except the flush task: it runs apart from its caller, in two steps (write the segment,
  then remove the frozen memtable by the index it was given), so that tasks can interleave.
\<close>

datatype lsm_error = LsmWal wal_error | LsmSst sst_error | LsmFileMissing | LsmPanic

datatype flush_task = Spawned nat string | Written nat

record lsm =
  active :: mem_table
  lsm_wal :: wal
  immutables :: "imm_table list"
  lsm_files :: "(string, bytes) btree_map"
  sstable_dir :: string
  lsm_cache :: block_cache
  flush_threshold_bytes :: nat
  lsm_policy :: compaction_policy
  flush_tasks :: "flush_task list"

subsection \<open>File names\<close>

text \<open>\<open>format!("{:030}.sst", ts_nanos)\<close>.\<close>

definition sst_name :: "nat \<Rightarrow> string" where
  "sst_name ts =
     (let d = dec_digits ts in replicate (30 - length d) (CHR ''0'') @ d @ ''.sst'')"

text \<open>\<open>Path::extension\<close> of a file name.\<close>

definition extension :: "string \<Rightarrow> string option" where
  "extension name =
     (if name = ''..'' \<or> CHR ''.'' \<notin> set name then None
      else
        let ext = rev (takeWhile (\<lambda>c. c \<noteq> CHR ''.'') (rev name))
        in if length name = Suc (length ext) then None else Some ext)"

definition sorted_sst_files :: "(string, bytes) btree_map \<Rightarrow> string list" where
  "sorted_sst_files d = sort (filter (\<lambda>f. extension f = Some ''sst'') (map fst d))"

subsection \<open>Tombstones\<close>

definition tombstone_record :: "uuid \<Rightarrow> timestamp \<Rightarrow> string \<Rightarrow> fun_record" where
  "tombstone_record new_id now collection =
     builder_build new_id now (builder_confidence f32_zero (builder_new collection))"

definition is_tombstone :: "fun_record \<Rightarrow> bool" where
  "is_tombstone r \<longleftrightarrow> f32_eq_zero (rec_confidence r)"

definition filter_tombstone :: "fun_record \<Rightarrow> fun_record option" where
  "filter_tombstone r = (if is_tombstone r then None else Some r)"

subsection \<open>Opening\<close>

text \<open>The replay loop: writes enter the memtable, every other entry is skipped.\<close>

fun replay :: "ext \<Rightarrow> wal_entry list \<Rightarrow> mem_table \<Rightarrow> mem_table" where
  "replay X [] t = t"
| "replay X (WalWrite _ k r # es) t = replay X es (mt_insert X k r t)"
| "replay X (WalDelete _ _ # es) t = replay X es t"
| "replay X (TxnCommit _ # es) t = replay X es t"
| "replay X (TxnAbort _ # es) t = replay X es t"
| "replay X (Checkpoint _ # es) t = replay X es t"

definition lsm_open :: "ext \<Rightarrow> string \<Rightarrow> (string, bytes) btree_map \<Rightarrow> bytes option \<Rightarrow> nat \<Rightarrow> lsm" where
  "lsm_open X dir files wal_disk cache_cap =
     \<lparr>active = (case wal_disk of
                  None \<Rightarrow> mt_new
                | Some bs \<Rightarrow> replay X (recover X bs) mt_new),
      lsm_wal = wal_open X wal_disk,
      immutables = [],
      lsm_files = files,
      sstable_dir = dir,
      lsm_cache = bc_new cache_cap,
      flush_threshold_bytes = 64 * 1024 * 1024,
      lsm_policy = Leveled 10 7,
      flush_tasks = []\<rparr>"

subsection \<open>Compaction\<close>

fun open_all :: "ext \<Rightarrow> (string, bytes) btree_map \<Rightarrow> string list \<Rightarrow> lsm_error + sst_reader list" where
  "open_all X d [] = Inr []"
| "open_all X d (f # fs) =
     (case bt_get d f of
        None \<Rightarrow> Inl LsmFileMissing
      | Some content \<Rightarrow>
          (case sst_open X content of
             Inl e \<Rightarrow> Inl (LsmSst e)
           | Inr r \<Rightarrow> map_sum id (\<lambda>rs. r # rs) (open_all X d fs)))"

definition remove_files :: "string list \<Rightarrow> (string, bytes) btree_map \<Rightarrow> (string, bytes) btree_map" where
  "remove_files fs d = fold bt_remove fs d"

definition trigger_compaction :: "ext \<Rightarrow> nat \<Rightarrow> lsm \<Rightarrow> lsm \<times> lsm_error option" where
  "trigger_compaction X ts s =
     (let to_merge = select_files (lsm_policy s) (sorted_sst_files (lsm_files s))
      in if length to_merge < 2 then (s, None)
         else
           (case open_all X (lsm_files s) to_merge of
              Inl e \<Rightarrow> (s, Some e)
            | Inr readers \<Rightarrow>
                (case merge_sstables X readers of
                   Inl e \<Rightarrow> (s, Some (LsmSst e))
                 | Inr (content, _) \<Rightarrow>
                     (s\<lparr>lsm_files :=
                          remove_files to_merge (bt_insert (sst_name ts) content (lsm_files s))\<rparr>,
                      None))))"

subsection \<open>Flush\<close>

definition flush_begin :: "nat \<Rightarrow> lsm \<Rightarrow> lsm" where
  "flush_begin ts s =
     s\<lparr>active := mt_new,
       immutables := immutables s @ [mt_freeze (active s)],
       flush_tasks := flush_tasks s @ [Spawned (length (immutables s)) (sst_name ts)]\<rparr>"

definition flush_memtable :: "ext \<Rightarrow> nat \<Rightarrow> nat \<Rightarrow> lsm \<Rightarrow> lsm \<times> lsm_error option" where
  "flush_memtable X ts ts_compact s =
     (let s1 = flush_begin ts s
      in if should_compact (lsm_policy s1) (sorted_sst_files (lsm_files s1))
         then trigger_compaction X ts_compact s1
         else (s1, None))"

definition remove_at :: "nat \<Rightarrow> 'a list \<Rightarrow> 'a list" where
  "remove_at i xs = take i xs @ drop (Suc i) xs"

text \<open>One step of the \<open>i\<close>-th flush task.\<close>

definition flush_task_step :: "ext \<Rightarrow> nat \<Rightarrow> lsm \<Rightarrow> lsm" where
  "flush_task_step X i s =
     (if i < length (flush_tasks s) then
        (case flush_tasks s ! i of
           Spawned idx name \<Rightarrow>
             if idx < length (immutables s) then
               let w = fold (\<lambda>(k, r). sw_add k r) (imm_iter (immutables s ! idx)) sw_new
               in (case sw_finish X w of
                     Inl _ \<Rightarrow> s\<lparr>flush_tasks := remove_at i (flush_tasks s)\<rparr>
                   | Inr (content, _) \<Rightarrow>
                       s\<lparr>lsm_files := bt_insert name content (lsm_files s),
                         flush_tasks := (flush_tasks s)[i := Written idx]\<rparr>)
             else s\<lparr>flush_tasks := remove_at i (flush_tasks s)\<rparr>
         | Written idx \<Rightarrow>
             s\<lparr>immutables := (if idx < length (immutables s) then remove_at idx (immutables s)
                              else immutables s),
               flush_tasks := remove_at i (flush_tasks s)\<rparr>)
      else s)"

subsection \<open>Writes\<close>

definition lsm_write ::
  "ext \<Rightarrow> nat \<Rightarrow> nat \<Rightarrow> record_key \<Rightarrow> fun_record \<Rightarrow> lsm \<Rightarrow> lsm \<times> lsm_error option" where
  "lsm_write X ts ts_compact k r s =
     (case wal_append X (WalWrite 0 k r) (lsm_wal s) of
        Inl e \<Rightarrow> (s, Some (LsmWal e))
      | Inr (w, _) \<Rightarrow>
          let s1 = s\<lparr>lsm_wal := w, active := mt_insert X k r (active s)\<rparr>
          in if mt_size_bytes (active s1) \<ge> flush_threshold_bytes s1
             then flush_memtable X ts ts_compact s1
             else (s1, None))"

definition lsm_delete ::
  "ext \<Rightarrow> uuid \<Rightarrow> timestamp \<Rightarrow> record_key \<Rightarrow> lsm \<Rightarrow> lsm \<times> lsm_error option" where
  "lsm_delete X new_id now k s =
     (case wal_append X (WalDelete 0 k) (lsm_wal s) of
        Inl e \<Rightarrow> (s, Some (LsmWal e))
      | Inr (w, _) \<Rightarrow>
          let tomb = tombstone_record new_id now (key_collection k)
          in (s\<lparr>lsm_wal := w, active := mt_insert X k tomb (active s)\<rparr>, None))"

subsection \<open>Reads\<close>

definition sst_cache_key :: "ext \<Rightarrow> string \<Rightarrow> string \<Rightarrow> record_key \<Rightarrow> cache_key" where
  "sst_cache_key X dir f k =
     CacheKey (dir @ ''/'' @ f @ '':'' @ hex_bytes (key_bytes X k)) 0"

text \<open>The loop of \<open>get\<close> over the segments, newest first, with the block cache.\<close>

fun sst_lookup :: "ext \<Rightarrow> string \<Rightarrow> (string, bytes) btree_map \<Rightarrow> record_key \<Rightarrow> string list \<Rightarrow>
    block_cache \<Rightarrow> (lsm_error + fun_record option) \<times> block_cache" where
  "sst_lookup X dir d k [] c = (Inr None, c)"
| "sst_lookup X dir d k (f # fs) c =
     (let ck = sst_cache_key X dir f k;
          (hit, c1) = bc_get ck c
      in case Option.bind hit (dec (rec_codec X)) of
           Some r \<Rightarrow> (Inr (Some r), c1)
         | None \<Rightarrow>
             (case bt_get d f of
                None \<Rightarrow> (Inl LsmFileMissing, c1)
              | Some content \<Rightarrow>
                  (case sst_open X content of
                     Inl e \<Rightarrow> (Inl (LsmSst e), c1)
                   | Inr reader \<Rightarrow>
                       (case sst_get X reader k of
                          Inl e \<Rightarrow> (Inl (LsmSst e), c1)
                        | Inr None \<Rightarrow> sst_lookup X dir d k fs c1
                        | Inr (Some r) \<Rightarrow>
                            (Inr (Some r),
                             (case enc (rec_codec X) r of
                                None \<Rightarrow> c1
                              | Some b \<Rightarrow> bc_insert ck b c1))))))"

definition lsm_get :: "ext \<Rightarrow> record_key \<Rightarrow> lsm \<Rightarrow> (lsm_error + fun_record option) \<times> lsm" where
  "lsm_get X k s =
     (case mt_get (active s) k of
        Some r \<Rightarrow> (Inr (filter_tombstone r), s)
      | None \<Rightarrow>
          (case first_hit imm_get (rev (immutables s)) k of
             Some r \<Rightarrow> (Inr (filter_tombstone r), s)
           | None \<Rightarrow>
               let (res, c) = sst_lookup X (sstable_dir s) (lsm_files s) k
                     (rev (sorted_sst_files (lsm_files s))) (lsm_cache s)
               in (map_sum id (\<lambda>v. Option.bind v filter_tombstone) res, s\<lparr>lsm_cache := c\<rparr>)))"

definition lsm_scan :: "ext \<Rightarrow> record_key \<Rightarrow> record_key \<Rightarrow> lsm \<Rightarrow>
    lsm_error + (record_key \<times> fun_record) list" where
  "lsm_scan X lo hi s =
     (case open_all X (lsm_files s) (sorted_sst_files (lsm_files s)) of
        Inl e \<Rightarrow> Inl e
      | Inr readers \<Rightarrow>
          let m1 = fold (\<lambda>r. bt_insert_all (sst_range r lo hi)) readers [];
              m2 = fold (\<lambda>i. bt_insert_all (imm_range i lo hi)) (immutables s) m1
          in (case mt_range (active s) lo hi of
                None \<Rightarrow> Inl LsmPanic
              | Some ps \<Rightarrow>
                  Inr (filter (\<lambda>(_, r). \<not> is_tombstone r) (bt_insert_all ps m2))))"

end
