(* ===== verification/Lsm_Facts.thy ===== *)
theory Lsm_Facts
  imports Lsm
begin

text \<open>
  What the storage engine promises, and that the model of \<open>Lsm\<close> keeps it. The abstraction of a state
  is the map \<open>raw s\<close> from keys to the newest record any layer holds, and \<open>view s\<close>, the same with
  tombstones hidden. \<open>files_ok\<close> says that every segment of the directory opens and is well formed.
\<close>

subsection \<open>The abstraction\<close>

definition reader_of :: "ext \<Rightarrow> (string, bytes) btree_map \<Rightarrow> string \<Rightarrow> sst_reader" where
  "reader_of X d f =
     (case bt_get d f of
        None \<Rightarrow> \<lparr>sst_entries = [], sst_bloom = \<lparr>bits = [], bloom_k = 0\<rparr>\<rparr>
      | Some content \<Rightarrow>
          (case sst_open X content of
             Inl _ \<Rightarrow> \<lparr>sst_entries = [], sst_bloom = \<lparr>bits = [], bloom_k = 0\<rparr>\<rparr>
           | Inr r \<Rightarrow> r))"

definition file_ok :: "ext \<Rightarrow> (string, bytes) btree_map \<Rightarrow> string \<Rightarrow> bool" where
  "file_ok X d f \<longleftrightarrow>
     (case bt_get d f of
        None \<Rightarrow> False
      | Some content \<Rightarrow>
          (case sst_open X content of
             Inl _ \<Rightarrow> False
           | Inr r \<Rightarrow> reader_ok X r \<and> (\<forall>p\<in>set (sst_entries r). entry_ok X p)))"

definition files_ok :: "ext \<Rightarrow> (string, bytes) btree_map \<Rightarrow> bool" where
  "files_ok X d \<longleftrightarrow> bt_inv d \<and> (\<forall>f\<in>set (sorted_sst_files d). file_ok X d f)"

definition disk :: "ext \<Rightarrow> (string, bytes) btree_map \<Rightarrow> record_key \<Rightarrow> fun_record option" where
  "disk X d k = first_hit (\<lambda>f. sst_map (reader_of X d f)) (rev (sorted_sst_files d)) k"

definition raw :: "ext \<Rightarrow> lsm \<Rightarrow> record_key \<Rightarrow> fun_record option" where
  "raw X s k =
     or_else (mt_get (active s) k)
       (or_else (first_hit imm_get (rev (immutables s)) k) (disk X (lsm_files s) k))"

definition view :: "ext \<Rightarrow> lsm \<Rightarrow> record_key \<Rightarrow> fun_record option" where
  "view X s k = Option.bind (raw X s k) filter_tombstone"

definition lsm_wf :: "ext \<Rightarrow> lsm \<Rightarrow> bool" where
  "lsm_wf X s \<longleftrightarrow> mt_wf (active s) \<and> (\<forall>i\<in>set (immutables s). imm_wf i) \<and> files_ok X (lsm_files s)"

lemma file_okE:
  assumes "file_ok X d f"
  obtains content where "bt_get d f = Some content" and "sst_open X content = Inr (reader_of X d f)"
    and "reader_ok X (reader_of X d f)" and "\<forall>p\<in>set (sst_entries (reader_of X d f)). entry_ok X p"
  using assms by (auto simp: file_ok_def reader_of_def split: option.splits sum.splits)

lemma file_ok_sst_get: "file_ok X d f \<Longrightarrow> sst_get X (reader_of X d f) k = Inr (sst_map (reader_of X d f) k)"
  by (auto elim: file_okE simp: sst_get_map_of sst_map_def)

lemma file_ok_wf: "file_ok X d f \<Longrightarrow> sst_wf (reader_of X d f)"
  by (auto elim!: file_okE simp: sst_wf_def reader_ok_def)

lemma open_all_ok:
  "\<forall>f\<in>set fs. file_ok X d f \<Longrightarrow> open_all X d fs = Inr (map (reader_of X d) fs)"
  by (induction fs) (auto elim!: file_okE)

subsection \<open>The cache keys of different files and keys differ\<close>

lemma of_char_hex_digit:
  "a < 16 \<Longrightarrow> (of_char (hex_digit a) :: nat) = (if a < 10 then 48 + a else 87 + a)"
  by (simp add: hex_digit_def)

lemma hex_digit_inj:
  assumes "a < 16" and "b < 16" and "hex_digit a = hex_digit b"
  shows "a = b"
proof -
  have "(if a < 10 then 48 + a else 87 + a) = (if b < 10 then 48 + b else 87 + b)"
    using of_char_hex_digit [OF assms(1)] of_char_hex_digit [OF assms(2)] assms(3) by metis
  with assms(1,2) show ?thesis by (auto split: if_splits)
qed

lemma hex_digit_colon: "a < 16 \<Longrightarrow> hex_digit a \<noteq> CHR '':''"
proof
  assume a: "a < 16" and eq: "hex_digit a = CHR '':''"
  have "(if a < 10 then 48 + a else 87 + a) = 58"
    using of_char_hex_digit [OF a] unfolding eq by simp
  with a show False by (auto split: if_splits)
qed

lemma unat_u8_bound: "unat (b :: u8) < 256"
  using unsigned_less [of b] by simp

lemma hex_bytes_inj: "hex_bytes bs = hex_bytes cs \<Longrightarrow> bs = cs"
proof (induction bs arbitrary: cs)
  case Nil
  then show ?case by (cases cs) (auto simp: hex_bytes_def)
next
  case (Cons b bs)
  then obtain c cs' where cs: "cs = c # cs'" by (cases cs) (auto simp: hex_bytes_def)
  have "hex_digit (unat b div 16) = hex_digit (unat c div 16)"
    "hex_digit (unat b mod 16) = hex_digit (unat c mod 16)" "hex_bytes bs = hex_bytes cs'"
    using Cons.prems cs by (auto simp: hex_bytes_def)
  moreover have "unat b div 16 < 16" "unat c div 16 < 16"
    using unat_u8_bound [of b] unat_u8_bound [of c] by auto
  ultimately have "unat b div 16 = unat c div 16" "unat b mod 16 = unat c mod 16"
    by (auto intro!: hex_digit_inj)
  then have "unat b = unat c" by (metis div_mult_mod_eq)
  with Cons.IH [of cs'] \<open>hex_bytes bs = hex_bytes cs'\<close> cs show ?case
    by (simp add: word_unat_eq_iff)
qed

lemma hex_bytes_colon: "CHR '':'' \<notin> set (hex_bytes bs)"
proof -
  have "hex_digit (unat (b :: u8) div 16) \<noteq> CHR '':''" "hex_digit (unat b mod 16) \<noteq> CHR '':''"
    for b
    using unat_u8_bound [of b] by (auto intro!: hex_digit_colon)
  then have "CHR '':'' \<notin> set [hex_digit (unat b div 16), hex_digit (unat b mod 16)]" for b :: u8
    by (metis empty_iff empty_set list.set_cases list.set_intros(1) set_ConsD)
  then show ?thesis by (simp only: hex_bytes_def set_concat set_map) blast
qed

lemma split_last_char:
  "xs @ c # ys = xs' @ c # ys' \<Longrightarrow> c \<notin> set ys \<Longrightarrow> c \<notin> set ys' \<Longrightarrow> xs = xs' \<and> ys = ys'"
  by (auto simp: append_eq_append_conv2 Cons_eq_append_conv append_eq_Cons_conv)

abbreviation key_ok :: "ext \<Rightarrow> record_key \<Rightarrow> bool" where
  "key_ok X k \<equiv> roundtrips (key_codec X) k"

lemma key_bytes_inj: "key_ok X k \<Longrightarrow> key_ok X l \<Longrightarrow> key_bytes X k = key_bytes X l \<Longrightarrow> k = l"
  by (auto simp: key_bytes_def elim!: roundtripsE)

lemma sst_cache_key_inj:
  assumes "sst_cache_key X dir f k = sst_cache_key X dir g l" and "key_ok X k" and "key_ok X l"
  shows "f = g \<and> k = l"
proof -
  have "(dir @ ''/'' @ f) @ CHR '':'' # hex_bytes (key_bytes X k) =
      (dir @ ''/'' @ g) @ CHR '':'' # hex_bytes (key_bytes X l)"
    using assms(1) by (simp add: sst_cache_key_def)
  then have "dir @ ''/'' @ f = dir @ ''/'' @ g \<and>
      hex_bytes (key_bytes X k) = hex_bytes (key_bytes X l)"
    by (rule split_last_char) (rule hex_bytes_colon)+
  then show ?thesis using assms by (auto dest!: hex_bytes_inj intro: key_bytes_inj)
qed

subsection \<open>Coherence of the block cache\<close>

definition cache_ok :: "ext \<Rightarrow> string \<Rightarrow> (string, bytes) btree_map \<Rightarrow> block_cache \<Rightarrow> bool" where
  "cache_ok X dir d c \<longleftrightarrow> bc_inv c \<and>
     (\<forall>f k b. f \<in> set (sorted_sst_files d) \<longrightarrow> key_ok X k \<longrightarrow>
        cache_map c (sst_cache_key X dir f k) = Some b \<longrightarrow>
        (\<exists>r. dec (rec_codec X) b = Some r \<and> sst_map (reader_of X d f) k = Some r))"

lemma cache_map_get [simp]: "cache_map (snd (bc_get ck c)) = cache_map c"
  by (simp add: bc_get_def split: option.splits)

lemma fst_bc_get [simp]: "fst (bc_get ck c) = cache_map c ck"
  by (simp add: bc_get_def split: option.splits)

lemma cache_ok_get: "cache_ok X dir d c \<Longrightarrow> cache_ok X dir d (snd (bc_get ck c))"
  by (simp add: cache_ok_def bc_get_inv)

lemma cache_ok_insert:
  assumes c: "cache_ok X dir d c" and k: "key_ok X k"
    and b: "dec (rec_codec X) b = Some r" and r: "sst_map (reader_of X d f) k = Some r"
  shows "cache_ok X dir d (bc_insert (sst_cache_key X dir f k) b c)"
  unfolding cache_ok_def
proof (intro conjI allI impI)
  let ?ck = "sst_cache_key X dir f k"
  show "bc_inv (bc_insert ?ck b c)" using c by (simp add: cache_ok_def bc_insert_inv)
  fix g l b'
  assume g: "g \<in> set (sorted_sst_files d)" and l: "key_ok X l"
    and hit: "cache_map (bc_insert ?ck b c) (sst_cache_key X dir g l) = Some b'"
  show "\<exists>r. dec (rec_codec X) b' = Some r \<and> sst_map (reader_of X d g) l = Some r"
  proof (cases "sst_cache_key X dir g l = ?ck \<and> length b \<le> capacity_bytes c")
    case True
    then have "g = f" "l = k" using sst_cache_key_inj k l by blast+
    moreover have "b' = b"
      using bc_get_insert [of c b ?ck] c True hit by (simp add: cache_ok_def)
    ultimately show ?thesis using b r by simp
  next
    case False
    then have "cache_map c (sst_cache_key X dir g l) = Some b'"
      using c hit bc_insert_other [of c "sst_cache_key X dir g l" ?ck b b']
      by (cases "length b \<le> capacity_bytes c") (auto simp: cache_ok_def bc_insert_def)
    then show ?thesis using c g l unfolding cache_ok_def by blast
  qed
qed

lemma sst_lookup_correct:
  "\<forall>f\<in>set fs. f \<in> set (sorted_sst_files d) \<and> file_ok X d f \<Longrightarrow> key_ok X k \<Longrightarrow>
     cache_ok X dir d c \<Longrightarrow>
     fst (sst_lookup X dir d k fs c) = Inr (first_hit (\<lambda>f. sst_map (reader_of X d f)) fs k) \<and>
     cache_ok X dir d (snd (sst_lookup X dir d k fs c))"
proof (induction fs arbitrary: c)
  case (Cons f fs)
  let ?ck = "sst_cache_key X dir f k"
  have f: "f \<in> set (sorted_sst_files d)" and ok: "file_ok X d f" using Cons.prems by auto
  obtain hit c1 where get: "bc_get ?ck c = (hit, c1)" by fastforce
  have hit: "hit = cache_map c ?ck" and c1: "cache_ok X dir d c1"
    using get fst_bc_get [of ?ck c] cache_ok_get [OF Cons.prems(3), of ?ck] by auto
  show ?case
  proof (cases "Option.bind hit (dec (rec_codec X))")
    case (Some r)
    then have "sst_map (reader_of X d f) k = Some r"
      using Cons.prems(2,3) f hit unfolding cache_ok_def bind_eq_Some_conv by fastforce
    with Some c1 get show ?thesis by simp
  next
    case None
    obtain content where cont: "bt_get d f = Some content"
      "sst_open X content = Inr (reader_of X d f)"
      "\<forall>p\<in>set (sst_entries (reader_of X d f)). entry_ok X p"
      using ok by (rule file_okE)
    show ?thesis
    proof (cases "sst_map (reader_of X d f) k")
      case N: None
      then show ?thesis
        using Cons.IH [of c1] Cons.prems c1 get None cont ok by (simp add: file_ok_sst_get)
    next
      case (Some r)
      then have "(k, r) \<in> set (sst_entries (reader_of X d f))"
        by (simp add: sst_map_def map_of_SomeD)
      with cont(3) have "roundtrips (rec_codec X) r" by (auto simp: entry_ok_def)
      then obtain b where "enc (rec_codec X) r = Some b" "dec (rec_codec X) b = Some r"
        by (rule roundtripsE)
      then show ?thesis
        using cache_ok_insert [OF c1 Cons.prems(2) _ Some] Some None get cont ok
        by (simp add: file_ok_sst_get)
    qed
  qed
qed simp

text \<open>A lookup returns the view, and only touches the cache.\<close>

lemma lsm_get_view:
  assumes wf: "lsm_wf X s" and k: "key_ok X k"
    and c: "cache_ok X (sstable_dir s) (lsm_files s) (lsm_cache s)"
  shows "fst (lsm_get X k s) = Inr (view X s k)"
    and "cache_ok X (sstable_dir s) (lsm_files s) (lsm_cache (snd (lsm_get X k s)))"
    and "view X (snd (lsm_get X k s)) = view X s"
proof -
  let ?fs = "rev (sorted_sst_files (lsm_files s))"
  have fs: "\<forall>f\<in>set ?fs. f \<in> set (sorted_sst_files (lsm_files s)) \<and> file_ok X (lsm_files s) f"
    using wf by (auto simp: lsm_wf_def files_ok_def)
  note look = sst_lookup_correct [OF fs k c]
  show "fst (lsm_get X k s) = Inr (view X s k)"
    using look by (auto simp: lsm_get_def view_def raw_def disk_def split: option.splits prod.splits)
  show "cache_ok X (sstable_dir s) (lsm_files s) (lsm_cache (snd (lsm_get X k s)))"
    using look c by (auto simp: lsm_get_def split: option.splits prod.splits)
  show "view X (snd (lsm_get X k s)) = view X s"
    by (auto simp: lsm_get_def view_def raw_def fun_eq_iff split: option.splits prod.splits)
qed

subsection \<open>A range scan is the view, in key order\<close>

lemma map_of_filter_tombstone:
  "distinct (map fst m) \<Longrightarrow>
     map_of (filter (\<lambda>(_, r). \<not> is_tombstone r) m) k = Option.bind (map_of m k) filter_tombstone"
proof (induction m)
  case (Cons p m)
  obtain l r where p: "p = (l, r)" by (cases p)
  have "l \<notin> fst ` set (filter (\<lambda>(_, r). \<not> is_tombstone r) m)" using Cons.prems p by auto
  then have "map_of (filter (\<lambda>(_, r). \<not> is_tombstone r) m) l = None"
    by (simp add: map_of_eq_None_iff)
  with Cons p show ?case by (auto simp: filter_tombstone_def)
qed simp

lemma bt_inv_filter: "bt_inv m \<Longrightarrow> bt_inv (filter P m)"
  by (auto simp: bt_inv_def distinct_map_filter sorted_filter)

lemma lsm_scan_view:
  assumes wf: "lsm_wf X s" and le: "lo \<le> hi"
  obtains ps where "lsm_scan X lo hi s = Inr ps" and "bt_inv ps"
    and "\<And>k. map_of ps k = (if lo \<le> k \<and> k \<le> hi then view X s k else None)"
proof -
  let ?d = "lsm_files s"
  let ?rs = "map (reader_of X ?d) (sorted_sst_files ?d)"
  let ?m1 = "fold (\<lambda>r. bt_insert_all (sst_range r lo hi)) ?rs []"
  let ?m2 = "fold (\<lambda>i. bt_insert_all (imm_range i lo hi)) (immutables s) ?m1"
  let ?ps = "the (mt_range (active s) lo hi)"
  let ?m3 = "bt_insert_all ?ps ?m2"
  have mt: "mt_wf (active s)" and imm: "\<forall>i\<in>set (immutables s). imm_wf i"
    and ok: "\<forall>f\<in>set (sorted_sst_files ?d). file_ok X ?d f"
    using wf by (auto simp: lsm_wf_def files_ok_def)
  then have rs: "\<forall>r\<in>set ?rs. sst_wf r" by (auto intro: file_ok_wf)
  have inv: "bt_inv ?m3"
    by (intro bt_inv_insert_all imm_src.merge_inv sst_src.merge_inv bt_inv_Nil)
  have "lsm_scan X lo hi s = Inr (filter (\<lambda>(_, r). \<not> is_tombstone r) ?m3)"
    using open_all_ok [OF ok] by (subst lsm_scan_def, subst mt_range_Some [OF le]) (simp add: Let_def)
  moreover have "bt_inv (filter (\<lambda>(_, r). \<not> is_tombstone r) ?m3)"
    using inv by (rule bt_inv_filter)
  moreover have "map_of (filter (\<lambda>(_, r). \<not> is_tombstone r) ?m3) k =
      (if lo \<le> k \<and> k \<le> hi then view X s k else None)" for k
  proof -
    have top: "bt_get ?m3 k =
        or_else (if lo \<le> k \<and> k \<le> hi then mt_get (active s) k else None) (bt_get ?m2 k)"
      by (simp add: bt_get_insert_all mt_src.map_of_rev_scan [OF mt le] map_add_or_else)
    have "bt_get ?m3 k = (if lo \<le> k \<and> k \<le> hi then raw X s k else None)"
    proof (cases "lo \<le> k \<and> k \<le> hi")
      case True
      then show ?thesis
        unfolding top
        using imm_src.merge_get [OF imm, of lo k hi ?m1] sst_src.merge_get [OF rs, of lo k hi "[]"]
        by (simp add: raw_def disk_def rev_map first_hit_map)
    next
      case False
      then show ?thesis
        unfolding top
        using imm_src.merge_outside [OF imm le False, of ?m1]
          sst_src.merge_outside [OF rs le False, of "[]"]
        by (simp only: if_not_P [OF False] if_False or_else.simps bt_get_Nil)
    qed
    with inv show ?thesis
      by (simp add: map_of_filter_tombstone bt_inv_def bt_get_def view_def)
  qed
  ultimately show thesis by (rule that)
qed

subsection \<open>Writes and deletes\<close>

definition no_compaction :: "lsm \<Rightarrow> bool" where
  "no_compaction s \<longleftrightarrow> \<not> should_compact (lsm_policy s) (sorted_sst_files (lsm_files s))"

lemma raw_flush_begin: "raw X (flush_begin ts s) = raw X s"
  by (rule ext) (simp add: raw_def flush_begin_def)

lemma raw_flush_memtable:
  "no_compaction s \<Longrightarrow> raw X (fst (flush_memtable X ts ts' s)) = raw X s \<and>
     snd (flush_memtable X ts ts' s) = None"
  by (simp add: flush_memtable_def no_compaction_def raw_flush_begin Let_def)
    (simp add: flush_begin_def)

lemma lsm_write_raw:
  assumes "writable X (WalWrite 0 k r)" and "no_compaction s"
  shows "raw X (fst (lsm_write X ts ts' k r s)) = (raw X s)(k \<mapsto> r)"
    and "snd (lsm_write X ts ts' k r s) = None"
    and "wal_file (lsm_wal (fst (lsm_write X ts ts' k r s))) =
           wal_file (lsm_wal s) @ entry_bytes X (WalWrite 0 k r)"
proof -
  define w where "w = fst (projr (wal_append X (WalWrite 0 k r) (lsm_wal s)))"
  let ?s1 = "s\<lparr>lsm_wal := w, active := mt_insert X k r (active s)\<rparr>"
  have w: "wal_append X (WalWrite 0 k r) (lsm_wal s) = Inr (w, u64_succ (current_lsn (lsm_wal s)))"
    "wal_file w = wal_file (lsm_wal s) @ entry_bytes X (WalWrite 0 k r)"
    using assms(1) by (simp_all add: w_def wal_append_Inr)
  have nc: "no_compaction ?s1" using assms(2) by (simp add: no_compaction_def)
  have raw1: "raw X ?s1 = (raw X s)(k \<mapsto> r)" by (simp add: fun_eq_iff raw_def)
  note fl = raw_flush_memtable [OF nc, of X ts ts']
  show "raw X (fst (lsm_write X ts ts' k r s)) = (raw X s)(k \<mapsto> r)"
    "snd (lsm_write X ts ts' k r s) = None"
    using w(1) raw1 fl by (simp_all add: lsm_write_def Let_def)
  have "lsm_wal (fst (flush_memtable X ts ts' ?s1)) = w"
    using nc by (simp add: flush_memtable_def flush_begin_def no_compaction_def Let_def)
  then show "wal_file (lsm_wal (fst (lsm_write X ts ts' k r s))) =
      wal_file (lsm_wal s) @ entry_bytes X (WalWrite 0 k r)"
    using w by (simp add: lsm_write_def Let_def)
qed

lemma is_tombstone_tombstone [simp]: "is_tombstone (tombstone_record i t c)"
  by (simp add: is_tombstone_def tombstone_record_def)

lemma lsm_delete_raw:
  assumes "writable X (WalDelete 0 k)"
  shows "raw X (fst (lsm_delete X i t k s)) =
           (raw X s)(k \<mapsto> tombstone_record i t (key_collection k))"
    and "snd (lsm_delete X i t k s) = None"
  using assms by (simp_all add: lsm_delete_def wal_append_Inr fun_eq_iff raw_def Let_def)

lemma view_upd: "raw X s' = (raw X s)(k \<mapsto> r) \<Longrightarrow> view X s' = (view X s)(k := filter_tombstone r)"
  by (rule ext) (simp add: view_def)

subsection \<open>Recovery\<close>

text \<open>What the replayed log holds for a key: the record of its last write, deletes ignored.\<close>

fun wal_writes :: "wal_entry list \<Rightarrow> (record_key \<times> fun_record) list" where
  "wal_writes [] = []"
| "wal_writes (WalWrite _ k r # es) = (k, r) # wal_writes es"
| "wal_writes (_ # es) = wal_writes es"

lemma replay_fold: "replay X es t = fold (\<lambda>(k, r). mt_insert X k r) (wal_writes es) t"
  by (induction X es t rule: replay.induct) auto

lemma replay_get: "mt_get (replay X es mt_new) k = map_of (rev (wal_writes es)) k"
  unfolding replay_fold by (rule mt.lookup_load)

lemma replay_wf: "mt_wf (replay X es mt_new)"
  unfolding replay_fold by (intro mt.wf_fold mt.wf_empty)

lemma wal_writes_append [simp]: "wal_writes (es @ fs) = wal_writes es @ wal_writes fs"
  by (induction es rule: wal_writes.induct) auto

lemma lsm_open_raw:
  "raw X (lsm_open X dir d (Some bs) cap) k =
     or_else (map_of (rev (wal_writes (recover X bs))) k) (disk X d k)"
  by (simp add: raw_def lsm_open_def replay_get)

lemma lsm_open_wf: "files_ok X d \<Longrightarrow> lsm_wf X (lsm_open X dir d w cap)"
  by (auto simp: lsm_wf_def lsm_open_def replay_wf split: option.splits)

lemma lsm_open_cache: "cache_ok X dir d (lsm_cache (lsm_open X dir d w cap))"
  unfolding cache_ok_def lsm_open_def by (simp add: bc_new_def) (metis bc_inv_new bc_new_def)

end
