(* ===== verification/Lsm_Maintenance.thy ===== *)
theory Lsm_Maintenance
  imports Lsm_Facts
begin

text \<open>
  Flush and compaction against the abstraction \<open>raw\<close>: segment names sort by their time stamp, a
  flush of the oldest frozen memtable keeps every record visible, and the exact effect of a
  compaction on the map of the disk.
\<close>

subsection \<open>Segment names\<close>

text \<open>The decimal digits of \<open>n\<close>, exactly \<open>w\<close> of them.\<close>

fun fixed_digits :: "nat \<Rightarrow> nat \<Rightarrow> string" where
  "fixed_digits 0 n = []"
| "fixed_digits (Suc w) n = fixed_digits w (n div 10) @ [digit_char (n mod 10)]"

lemma length_fixed_digits [simp]: "length (fixed_digits w n) = w"
  by (induction w arbitrary: n) auto

lemma fixed_digits_0: "fixed_digits w 0 = replicate w (CHR ''0'')"
proof (induction w)
  case (Suc w)
  have "digit_char 0 = CHR ''0''" by code_simp
  with Suc show ?case by (simp add: replicate_append_same)
qed simp

lemma padded_digits:
  "0 < w \<Longrightarrow> n < 10 ^ w \<Longrightarrow>
     length (dec_digits n) \<le> w \<and>
     replicate (w - length (dec_digits n)) (CHR ''0'') @ dec_digits n = fixed_digits w n"
proof (induction w arbitrary: n)
  case (Suc w)
  show ?case
  proof (cases "n < 10")
    case True
    then have "dec_digits n = [digit_char n]" by (simp add: dec_digits.simps)
    with True show ?thesis by (simp add: fixed_digits_0)
  next
    case False
    then have d: "dec_digits n = dec_digits (n div 10) @ [digit_char (n mod 10)]"
      by (subst dec_digits.simps) simp
    have "0 < w" using False Suc.prems by (cases w) auto
    moreover have "n div 10 < 10 ^ w" using Suc.prems by (simp add: less_mult_imp_div_less mult.commute)
    ultimately show ?thesis using Suc.IH [of "n div 10"] d by simp
  qed
qed simp

lemma less_append_same_length:
  "length xs = length ys \<Longrightarrow>
     xs @ [x] < ys @ [y] \<longleftrightarrow> xs < ys \<or> xs = ys \<and> x < (y :: 'a :: linorder)"
  by (induction xs ys rule: list_induct2) auto

lemma digit_char_less: "a < 10 \<Longrightarrow> b < 10 \<Longrightarrow> digit_char a < digit_char b \<longleftrightarrow> a < b"
  by (simp add: digit_char_def less_char_def)

lemma digit_char_inj: "a < 10 \<Longrightarrow> b < 10 \<Longrightarrow> digit_char a = digit_char b \<Longrightarrow> a = b"
  by (metis digit_char_less less_irrefl linorder_neqE_nat)

lemma fixed_digits_inj:
  "a < 10 ^ w \<Longrightarrow> b < 10 ^ w \<Longrightarrow> fixed_digits w a = fixed_digits w b \<Longrightarrow> a = b"
proof (induction w arbitrary: a b)
  case (Suc w)
  have "a div 10 < 10 ^ w" "b div 10 < 10 ^ w"
    using Suc.prems by (auto simp: less_mult_imp_div_less mult.commute)
  with Suc have "a div 10 = b div 10" "a mod 10 = b mod 10"
    by (auto intro: digit_char_inj)
  then show ?case by (metis div_mult_mod_eq)
qed simp

lemma less_div_mod:
  "a div 10 < b div 10 \<or> a div 10 = b div 10 \<and> a mod 10 < b mod 10 \<longleftrightarrow> a < (b :: nat)"
proof -
  define q r q' r' where d: "q = a div 10" "r = a mod 10" "q' = b div 10" "r' = b mod 10"
  have "a = 10 * q + r" "r < 10" "b = 10 * q' + r'" "r' < 10" by (simp_all add: d)
  then have "a < b \<longleftrightarrow> q < q' \<or> q = q' \<and> r < r'" by linarith
  then show ?thesis by (simp add: d)
qed

lemma fixed_digits_less:
  "a < 10 ^ w \<Longrightarrow> b < 10 ^ w \<Longrightarrow> fixed_digits w a < fixed_digits w b \<longleftrightarrow> a < b"
proof (induction w arbitrary: a b)
  case (Suc w)
  have lt: "a div 10 < 10 ^ w" "b div 10 < 10 ^ w"
    using Suc.prems by (auto simp: less_mult_imp_div_less mult.commute)
  have "fixed_digits (Suc w) a < fixed_digits (Suc w) b \<longleftrightarrow>
      a div 10 < b div 10 \<or> a div 10 = b div 10 \<and> a mod 10 < b mod 10"
    using Suc.IH [OF lt] fixed_digits_inj [OF lt]
    by (auto simp: less_append_same_length digit_char_less)
  also have "\<dots> \<longleftrightarrow> a < b" by (rule less_div_mod)
  finally show ?case .
qed simp

lemma less_append_suffix:
  "length xs = length ys \<Longrightarrow> xs @ zs < ys @ zs \<longleftrightarrow> xs < (ys :: 'a :: linorder list)"
  by (induction xs ys rule: list_induct2) auto

lemma sst_name_fixed: "ts < 10 ^ 30 \<Longrightarrow> sst_name ts = fixed_digits 30 ts @ ''.sst''"
  using padded_digits [of 30 ts] unfolding sst_name_def Let_def by (simp flip: append_assoc)

lemma sst_name_less:
  "a < 10 ^ 30 \<Longrightarrow> b < 10 ^ 30 \<Longrightarrow> sst_name a < sst_name b \<longleftrightarrow> a < b"
  by (simp add: sst_name_fixed less_append_suffix fixed_digits_less)

lemma extension_sst: assumes "xs \<noteq> []" shows "extension (xs @ ''.sst'') = Some ''sst''"
proof -
  have len: "length (xs @ ''.sst'') = length xs + 4" by simp
  have ne: "xs @ ''.sst'' \<noteq> ''..''" 
  proof
    assume "xs @ ''.sst'' = ''..''"
    then have "length (xs @ ''.sst'') = length ''..''" by (rule arg_cong)
    then show False unfolding len by simp
  qed
  have dot: "CHR ''.'' \<in> set (xs @ ''.sst'')" by simp
  have tw: "rev (takeWhile (\<lambda>c. c \<noteq> CHR ''.'') (rev (xs @ ''.sst''))) = ''sst''" by simp
  have "extension (xs @ ''.sst'') = (if length (xs @ ''.sst'') = Suc (length ''sst'') then None else Some ''sst'')"
    unfolding extension_def Let_def tw using ne dot by (simp only: simp_thms if_False)
  then show ?thesis unfolding len using assms by simp
qed

lemma extension_sst_name [simp]: "extension (sst_name ts) = Some ''sst''"
proof -
  have "dec_digits ts \<noteq> []" by (subst dec_digits.simps) simp
  then show ?thesis
    using extension_sst [of "replicate (30 - length (dec_digits ts)) (CHR ''0'') @ dec_digits ts"]
    by (simp only: sst_name_def Let_def append_assoc append_is_Nil_conv simp_thms)
qed

subsection \<open>The listing of segments\<close>

lemma sorted_sst_files_props:
  "bt_inv d \<Longrightarrow> sorted (sorted_sst_files d) \<and> distinct (sorted_sst_files d)"
  by (auto simp: sorted_sst_files_def bt_inv_def)

lemma set_sorted_sst_files:
  "set (sorted_sst_files d) = {f. bt_get d f \<noteq> None \<and> extension f = Some ''sst''}"
  by (force simp: sorted_sst_files_def bt_get_def map_of_eq_None_iff)

lemma sorted_sst_files_unique:
  "bt_inv d \<Longrightarrow> sorted fs \<Longrightarrow> distinct fs \<Longrightarrow>
     set fs = {f. bt_get d f \<noteq> None \<and> extension f = Some ''sst''} \<Longrightarrow> sorted_sst_files d = fs"
  using sorted_sst_files_props set_sorted_sst_files by (metis sorted_distinct_set_unique)

lemma reader_of_insert:
  "f \<noteq> g \<Longrightarrow> reader_of X (bt_insert g content d) f = reader_of X d f"
  by (simp add: reader_of_def bt_get_insert)

lemma file_ok_insert:
  "f \<noteq> g \<Longrightarrow> file_ok X (bt_insert g content d) f = file_ok X d f"
  by (simp add: file_ok_def bt_get_insert)

text \<open>A name later than every segment of the directory.\<close>

definition newest_name :: "(string, bytes) btree_map \<Rightarrow> string \<Rightarrow> bool" where
  "newest_name d name \<longleftrightarrow>
     extension name = Some ''sst'' \<and> (\<forall>f\<in>set (sorted_sst_files d). f < name)"

lemma sorted_sst_files_insert:
  assumes "bt_inv d" and "newest_name d name"
  shows "sorted_sst_files (bt_insert name content d) = sorted_sst_files d @ [name]"
proof (rule sorted_sst_files_unique)
  show "bt_inv (bt_insert name content d)" using assms(1) by (rule bt_inv_insert)
  show "sorted (sorted_sst_files d @ [name])" "distinct (sorted_sst_files d @ [name])"
    using sorted_sst_files_props [OF assms(1)] assms(2)
    by (auto simp: sorted_append newest_name_def)
  show "set (sorted_sst_files d @ [name]) =
      {f. bt_get (bt_insert name content d) f \<noteq> None \<and> extension f = Some ''sst''}"
    using assms(2) by (auto simp: set_sorted_sst_files bt_get_insert newest_name_def)
qed

lemma disk_insert:
  assumes "bt_inv d" and new: "newest_name d name" and "sst_open X content = Inr r"
  shows "disk X (bt_insert name content d) k = or_else (sst_map r k) (disk X d k)"
proof -
  have "reader_of X (bt_insert name content d) name = r"
    using assms(3) by (simp add: reader_of_def bt_get_insert)
  moreover have "first_hit (\<lambda>f. sst_map (reader_of X (bt_insert name content d) f))
      (rev (sorted_sst_files d)) k = disk X d k"
    unfolding disk_def using new
    by (intro first_hit_cong) (auto simp: newest_name_def reader_of_insert)
  ultimately show ?thesis
    using sorted_sst_files_insert [OF assms(1) new, of content] by (simp add: disk_def)
qed

lemma files_ok_insert:
  assumes ok: "files_ok X d" and new: "newest_name d name" and open_r: "sst_open X content = Inr r"
    and r: "reader_ok X r" "\<forall>p\<in>set (sst_entries r). entry_ok X p"
  shows "files_ok X (bt_insert name content d)"
proof -
  have inv: "bt_inv d" using ok by (simp add: files_ok_def)
  have "file_ok X (bt_insert name content d) name"
    using open_r r by (simp add: file_ok_def bt_get_insert)
  moreover have "file_ok X (bt_insert name content d) f" if "f \<in> set (sorted_sst_files d)" for f
    using that ok new by (subst file_ok_insert) (auto simp: files_ok_def newest_name_def)
  ultimately show ?thesis
    using inv by (auto simp: files_ok_def sorted_sst_files_insert [OF inv new] bt_inv_insert)
qed

subsection \<open>The cache knows only files of the directory\<close>

definition cache_listed :: "ext \<Rightarrow> string \<Rightarrow> (string, bytes) btree_map \<Rightarrow> block_cache \<Rightarrow> bool" where
  "cache_listed X dir d c \<longleftrightarrow> bc_inv c \<and>
     (\<forall>f k b. key_ok X k \<longrightarrow> cache_map c (sst_cache_key X dir f k) = Some b \<longrightarrow>
        f \<in> set (sorted_sst_files d))"

lemma cache_listed_insert:
  assumes c: "cache_listed X dir d c" and k: "key_ok X k" and f: "f \<in> set (sorted_sst_files d)"
  shows "cache_listed X dir d (bc_insert (sst_cache_key X dir f k) b c)"
  unfolding cache_listed_def
proof (intro conjI allI impI)
  let ?ck = "sst_cache_key X dir f k"
  show "bc_inv (bc_insert ?ck b c)" using c by (simp add: cache_listed_def bc_insert_inv)
  fix g l b'
  assume l: "key_ok X l" and hit: "cache_map (bc_insert ?ck b c) (sst_cache_key X dir g l) = Some b'"
  show "g \<in> set (sorted_sst_files d)"
  proof (cases "sst_cache_key X dir g l = ?ck")
    case True
    then show ?thesis using sst_cache_key_inj l k f by blast
  next
    case False
    then have "cache_map c (sst_cache_key X dir g l) = Some b'"
      using c hit bc_insert_other [of c "sst_cache_key X dir g l" ?ck b b']
      by (cases "length b \<le> capacity_bytes c") (auto simp: cache_listed_def bc_insert_def)
    then show ?thesis using c l unfolding cache_listed_def by blast
  qed
qed

lemma sst_lookup_listed:
  "key_ok X k \<Longrightarrow> set fs \<subseteq> set (sorted_sst_files d) \<Longrightarrow> cache_listed X dir d c \<Longrightarrow>
     cache_listed X dir d (snd (sst_lookup X dir d k fs c))"
proof (induction fs arbitrary: c)
  case (Cons f fs)
  obtain hit c1 where get: "bc_get (sst_cache_key X dir f k) c = (hit, c1)" by fastforce
  then have "c1 = snd (bc_get (sst_cache_key X dir f k) c)" by simp
  then have "cache_listed X dir d c1" using Cons.prems(3) by (simp add: cache_listed_def bc_get_inv)
  then show ?case
    using Cons get by (auto simp: cache_listed_insert split: option.splits sum.splits)
qed simp

lemma lsm_get_listed:
  "key_ok X k \<Longrightarrow> cache_listed X (sstable_dir s) (lsm_files s) (lsm_cache s) \<Longrightarrow>
     cache_listed X (sstable_dir s) (lsm_files s) (lsm_cache (snd (lsm_get X k s)))"
  using sst_lookup_listed [of X k "rev (sorted_sst_files (lsm_files s))" "lsm_files s" "sstable_dir s" "lsm_cache s"]
  by (auto simp: lsm_get_def split: option.splits prod.splits)

lemma cache_new_file:
  assumes inv: "bt_inv d" and new: "newest_name d name"
    and c: "cache_ok X dir d c" "cache_listed X dir d c"
  shows "cache_ok X dir (bt_insert name content d) c" and "cache_listed X dir (bt_insert name content d) c"
proof -
  note files = sorted_sst_files_insert [OF inv new, of content]
  show "cache_listed X dir (bt_insert name content d) c"
    using c(2) unfolding cache_listed_def files by auto
  have old: "f \<in> set (sorted_sst_files d) \<and> reader_of X (bt_insert name content d) f = reader_of X d f"
    if "key_ok X k" "cache_map c (sst_cache_key X dir f k) = Some b" for f k b
  proof -
    have "f \<in> set (sorted_sst_files d)" using c(2) that unfolding cache_listed_def by blast
    moreover from this have "f \<noteq> name" using new by (auto simp: newest_name_def)
    ultimately show ?thesis by (simp add: reader_of_insert)
  qed
  show "cache_ok X dir (bt_insert name content d) c"
    unfolding cache_ok_def
  proof (intro conjI allI impI)
    show "bc_inv c" using c(1) by (simp add: cache_ok_def)
    fix f k b assume k: "key_ok X k" and hit: "cache_map c (sst_cache_key X dir f k) = Some b"
    then show "\<exists>r. dec (rec_codec X) b = Some r \<and> sst_map (reader_of X (bt_insert name content d) f) k = Some r"
      using old [OF k hit] c(1) unfolding cache_ok_def by auto
  qed
qed

subsection \<open>Flush\<close>

lemma flush_write_step:
  assumes task: "t < length (flush_tasks s)" "flush_tasks s ! t = Spawned idx name"
    and idx: "idx < length (immutables s)" and wf: "imm_wf (immutables s ! idx)"
    and wr: "sst_writable X (imm_entries (immutables s ! idx))"
  obtains content r where
    "flush_task_step X t s = s\<lparr>lsm_files := bt_insert name content (lsm_files s),
                               flush_tasks := (flush_tasks s)[t := Written idx]\<rparr>"
    and "sst_open X content = Inr r" and "reader_ok X r"
    and "sst_entries r = imm_entries (immutables s ! idx)"
proof -
  let ?es = "imm_entries (immutables s ! idx)"
  let ?w = "fold (\<lambda>(k, r). sw_add k r) ?es sw_new"
  have w: "sw_entries ?w = ?es" by (simp add: sw_entries_fold sw_new_def)
  have inv: "bt_inv ?es" using wf by (simp add: imm_wf_def)
  obtain fl r where "sw_finish X ?w = Inr (fl, r)" "sst_open X fl = Inr r"
    "sst_entries r = sort_key fst ?es" "reader_ok X r"
    using sw_finish_reader [of X ?w] w wr inv by (metis bt_inv_def)
  with task idx inv show thesis
    by (intro that [of fl r]) (simp_all add: flush_task_step_def imm_iter_def Let_def)
qed

text \<open>
  Running the task of the oldest frozen memtable to its end moves that memtable to disk and changes
  no record any reader sees.
\<close>

lemma flush_oldest:
  assumes wf: "lsm_wf X s" and imms: "immutables s = i # rest"
    and task: "t < length (flush_tasks s)" "flush_tasks s ! t = Spawned 0 name"
    and new: "newest_name (lsm_files s) name" and wr: "sst_writable X (imm_entries i)"
  defines "s1 \<equiv> flush_task_step X t s"
  defines "s2 \<equiv> flush_task_step X t s1"
  shows "raw X s1 = raw X s" and "raw X s2 = raw X s" and "immutables s2 = rest"
    and "active s2 = active s" and "lsm_wf X s2" and "flush_tasks s2 = remove_at t (flush_tasks s)"
    and "sorted_sst_files (lsm_files s2) = sorted_sst_files (lsm_files s) @ [name]"
    and "disk X (lsm_files s2) k = or_else (imm_get i k) (disk X (lsm_files s) k)"
    and "lsm_policy s2 = lsm_policy s"
proof -
  have i: "imm_wf i" and inv: "bt_inv (lsm_files s)" and ok: "files_ok X (lsm_files s)"
    using wf imms by (auto simp: lsm_wf_def files_ok_def)
  obtain content r where s1: "s1 = s\<lparr>lsm_files := bt_insert name content (lsm_files s),
                               flush_tasks := (flush_tasks s)[t := Written 0]\<rparr>"
    and r: "sst_open X content = Inr r" "reader_ok X r" "sst_entries r = imm_entries i"
    using flush_write_step [OF task, of X] imms i wr s1_def by (metis length_greater_0_conv
        list.discI nth_Cons_0)
  have s2: "s2 = s\<lparr>lsm_files := bt_insert name content (lsm_files s), immutables := rest,
                    flush_tasks := remove_at t (flush_tasks s)\<rparr>"
    using task imms by (simp add: s2_def s1 flush_task_step_def remove_at_def)
  have map_r: "sst_map r k = imm_get i k" for k
    by (simp add: sst_map_def imm_get_map_of r(3))
  have d: "disk X (bt_insert name content (lsm_files s)) k = or_else (imm_get i k) (disk X (lsm_files s) k)"
    for k
    using disk_insert [OF inv new r(1)] map_r by simp
  have absorb: "or_else a (or_else a b) = or_else a b" for a b :: "fun_record option"
    by (cases a) auto
  show "raw X s1 = raw X s" "raw X s2 = raw X s"
    by (auto simp: fun_eq_iff raw_def s1 s2 imms d first_hit_append absorb)
  show "immutables s2 = rest" "active s2 = active s" "flush_tasks s2 = remove_at t (flush_tasks s)"
    by (simp_all add: s2)
  show "sorted_sst_files (lsm_files s2) = sorted_sst_files (lsm_files s) @ [name]"
    by (simp add: s2 sorted_sst_files_insert [OF inv new])
  show "disk X (lsm_files s2) k = or_else (imm_get i k) (disk X (lsm_files s) k)"
    "lsm_policy s2 = lsm_policy s"
    by (simp_all add: s2 d)
  have "\<forall>p\<in>set (sst_entries r). entry_ok X p" using wr r(3) by (simp add: sst_writable_def)
  then show "lsm_wf X s2"
    using wf imms files_ok_insert [OF ok new r(1,2)] by (simp add: lsm_wf_def s2)
qed

text \<open>The first step of such a task alone: the segment is on disk, the frozen memtable still there.\<close>

lemma flush_first_step:
  assumes wf: "lsm_wf X s" and imms: "immutables s = i # rest"
    and task: "t < length (flush_tasks s)" "flush_tasks s ! t = Spawned 0 name"
    and new: "newest_name (lsm_files s) name" and wr: "sst_writable X (imm_entries i)"
  obtains content where
    "flush_task_step X t s = s\<lparr>lsm_files := bt_insert name content (lsm_files s),
                               flush_tasks := (flush_tasks s)[t := Written 0]\<rparr>"
    and "files_ok X (bt_insert name content (lsm_files s))"
    and "\<And>k. disk X (bt_insert name content (lsm_files s)) k = or_else (imm_get i k) (disk X (lsm_files s) k)"
proof -
  have i: "imm_wf i" and ok: "files_ok X (lsm_files s)" using wf imms by (auto simp: lsm_wf_def)
  then have inv: "bt_inv (lsm_files s)" by (simp add: files_ok_def)
  obtain content r where
    step: "flush_task_step X t s = s\<lparr>lsm_files := bt_insert name content (lsm_files s),
                                     flush_tasks := (flush_tasks s)[t := Written 0]\<rparr>"
    and r: "sst_open X content = Inr r" "reader_ok X r" "sst_entries r = imm_entries i"
    using flush_write_step [OF task, of X] imms i wr by (metis length_greater_0_conv list.discI nth_Cons_0)
  have "sst_map r k = imm_get i k" for k by (simp add: sst_map_def imm_get_map_of r(3))
  then have d: "disk X (bt_insert name content (lsm_files s)) k = or_else (imm_get i k) (disk X (lsm_files s) k)"
    for k using disk_insert [OF inv new r(1)] by simp
  have "\<forall>p\<in>set (sst_entries r). entry_ok X p" using wr r(3) by (simp add: sst_writable_def)
  then show thesis using that [OF step files_ok_insert [OF ok new r(1,2)] d] by blast
qed

subsection \<open>Compaction\<close>

lemma bt_get_remove_files:
  "bt_inv d \<Longrightarrow> bt_get (remove_files fs d) f = (if f \<in> set fs then None else bt_get d f)"
proof (induction fs arbitrary: d)
  case (Cons g fs)
  then show ?case by (simp add: remove_files_def bt_inv_remove bt_get_remove)
qed (simp add: remove_files_def)

lemma bt_inv_remove_files: "bt_inv d \<Longrightarrow> bt_inv (remove_files fs d)"
  by (induction fs arbitrary: d) (simp_all add: remove_files_def bt_inv_remove)

definition merged_readers :: "ext \<Rightarrow> lsm \<Rightarrow> sst_reader list" where
  "merged_readers X s = map (reader_of X (lsm_files s))
     (select_files (lsm_policy s) (sorted_sst_files (lsm_files s)))"

text \<open>
  The effect on the disk map: the merged segment has the newest name, so its records are found
  before those of the segments that were not merged, although those are newer.
\<close>

lemma trigger_compaction_disk:
  assumes wf: "lsm_wf X s" and new: "newest_name (lsm_files s) (sst_name ts)"
    and wr: "sst_writable X (merge_entries (merged_readers X s))"
    and split: "sorted_sst_files (lsm_files s) = old @ recent"
    and old: "old = select_files (lsm_policy s) (sorted_sst_files (lsm_files s))"
    and two: "2 \<le> length old"
  defines "s' \<equiv> fst (trigger_compaction X ts s)"
  shows "snd (trigger_compaction X ts s) = None"
    and "sorted_sst_files (lsm_files s') = recent @ [sst_name ts]"
    and "disk X (lsm_files s') k =
           or_else (first_hit (\<lambda>f. sst_map (reader_of X (lsm_files s) f)) (rev old) k)
             (first_hit (\<lambda>f. sst_map (reader_of X (lsm_files s) f)) (rev recent) k)"
    and "active s' = active s" and "immutables s' = immutables s"
proof -
  let ?d = "lsm_files s" and ?n = "sst_name ts"
  have inv: "bt_inv ?d" and ok: "\<forall>f\<in>set (sorted_sst_files ?d). file_ok X ?d f"
    using wf by (auto simp: lsm_wf_def files_ok_def)
  have rs: "merged_readers X s = map (reader_of X ?d) old" by (simp add: merged_readers_def old)
  have old_ok: "\<forall>f\<in>set old. file_ok X ?d f" using ok split by auto
  then have op: "open_all X ?d old = Inr (merged_readers X s)" by (simp add: open_all_ok rs)
  obtain content r where m: "merge_sstables X (merged_readers X s) = Inr (content, r)"
    "sst_open X content = Inr r" "sst_entries r = merge_entries (merged_readers X s)"
    using wr by (rule merge_sstables_reader) blast
  let ?d' = "remove_files old (bt_insert ?n content ?d)"
  have step: "trigger_compaction X ts s = (s\<lparr>lsm_files := ?d'\<rparr>, None)"
    using two op m(1) by (simp add: trigger_compaction_def Let_def flip: old)
  then show "snd (trigger_compaction X ts s) = None" by simp
  have s': "s' = s\<lparr>lsm_files := ?d'\<rparr>" by (simp add: s'_def step)
  then show "active s' = active s" "immutables s' = immutables s" by simp_all
  have inv1: "bt_inv (bt_insert ?n content ?d)" using inv by (rule bt_inv_insert)
  have dist: "sorted (old @ recent)" "distinct (old @ recent)"
    using sorted_sst_files_props [OF inv] split by auto
  have n_new: "\<forall>f\<in>set (old @ recent). f < ?n" using new split by (simp add: newest_name_def)
  have get: "bt_get ?d' f = (if f \<in> set old then None else if f = ?n then Some content else bt_get ?d f)"
    for f using bt_get_remove_files [OF inv1] by (simp add: bt_get_insert)
  show listing: "sorted_sst_files (lsm_files s') = recent @ [?n]"
    unfolding s'
  proof (simp, rule sorted_sst_files_unique)
    show "bt_inv ?d'" using inv1 by (rule bt_inv_remove_files)
    show "sorted (recent @ [?n])" "distinct (recent @ [?n])"
      using dist n_new by (auto simp: sorted_append less_imp_le)
    have "set (old @ recent) = {f. bt_get ?d f \<noteq> None \<and> extension f = Some ''sst''}"
      using set_sorted_sst_files [of ?d] split by simp
    then show "set (recent @ [?n]) = {f. bt_get ?d' f \<noteq> None \<and> extension f = Some ''sst''}"
      using dist n_new by (auto simp: get set_eq_iff)
  qed
  have n_old: "?n \<notin> set old" using n_new by auto
  have "reader_of X ?d' ?n = r" using m(2) n_old by (simp add: reader_of_def get)
  moreover have "first_hit (\<lambda>f. sst_map (reader_of X ?d' f)) (rev recent) k =
      first_hit (\<lambda>f. sst_map (reader_of X ?d f)) (rev recent) k"
    using dist n_new by (intro first_hit_cong) (auto simp: reader_of_def get)
  moreover have "sst_map r k = first_hit (\<lambda>f. sst_map (reader_of X ?d f)) (rev old) k"
    using merge_newest_wins [of "merged_readers X s" k] old_ok
    by (auto simp: sst_map_def m(3) rs rev_map first_hit_map intro: file_ok_wf)
  ultimately show "disk X (lsm_files s') k =
      or_else (first_hit (\<lambda>f. sst_map (reader_of X ?d f)) (rev old) k)
        (first_hit (\<lambda>f. sst_map (reader_of X ?d f)) (rev recent) k)"
    using listing by (simp add: disk_def s')
qed

lemma disk_split:
  "sorted_sst_files d = old @ recent \<Longrightarrow>
     disk X d k = or_else (first_hit (\<lambda>f. sst_map (reader_of X d f)) (rev recent) k)
                    (first_hit (\<lambda>f. sst_map (reader_of X d f)) (rev old) k)"
  by (simp add: disk_def first_hit_append)

end
