(* ===== verification/Sample_Ext.thy ===== *)
theory Sample_Ext
  imports Lsm_Maintenance
begin

text \<open>
  A concrete instance of the external functions, for the closed examples: keys of one byte in the
  collection \<open>c\<close>, records told apart by the one byte of their id, and hash functions that are
  constantly zero, a logarithm that is nowhere a number (every Bloom filter then has one word and one
  hash), and records so large that each write fills a memtable.
\<close>

definition sample_key :: "u8 \<Rightarrow> record_key" where
  "sample_key x = RecordKey ''c'' [x]"

definition sample_rec :: "u8 \<Rightarrow> fun_record" where
  "sample_rec x = builder_build [x] 0 (builder_new ''c'')"

fun sample_enc_entry :: "wal_entry \<Rightarrow> bytes option" where
  "sample_enc_entry (WalWrite _ k r) = Some ([0] @ key_id k @ rec_id r)"
| "sample_enc_entry (WalDelete _ k) = Some ([1] @ key_id k)"
| "sample_enc_entry (TxnCommit _) = Some [2]"
| "sample_enc_entry (TxnAbort _) = Some [3]"
| "sample_enc_entry (Checkpoint _) = Some [4]"

definition sample_dec_entry :: "bytes \<Rightarrow> wal_entry option" where
  "sample_dec_entry bs =
     (case bs of
        [t, x, y] \<Rightarrow> if t = 0 then Some (WalWrite 0 (sample_key x) (sample_rec y)) else None
      | [t, x] \<Rightarrow> if t = 1 then Some (WalDelete 0 (sample_key x)) else None
      | [t] \<Rightarrow> if t = 2 then Some (TxnCommit 0) else if t = 3 then Some (TxnAbort 0)
               else if t = 4 then Some (Checkpoint 0) else None
      | _ \<Rightarrow> None)"

definition plain_ext :: ext where
  "plain_ext =
     \<lparr>h1 = (\<lambda>_. 0), h2 = (\<lambda>_ _. 0),
      entry_codec = \<lparr>enc = sample_enc_entry, dec = sample_dec_entry\<rparr>,
      key_codec = \<lparr>enc = (\<lambda>k. Some (key_id k)),
                   dec = (\<lambda>bs. case bs of [x] \<Rightarrow> Some (sample_key x) | _ \<Rightarrow> None)\<rparr>,
      rec_codec = \<lparr>enc = (\<lambda>r. Some (rec_id r)),
                   dec = (\<lambda>bs. case bs of [x] \<Rightarrow> Some (sample_rec x) | _ \<Rightarrow> None)\<rparr>,
      bloom_codec = \<lparr>enc = (\<lambda>(ws, _). Some (if ws = [1] then [1] else [0])),
                     dec = (\<lambda>bs. Some (if bs = [1] then [1] else [0], 1))\<rparr>,
      ln64 = (\<lambda>_. 0x7FF8000000000000), sizeof_fun_record = 64 * 1024 * 1024\<rparr>"

lemma sample_key_simps [simp]:
  "sample_key x = sample_key y \<longleftrightarrow> x = y" "key_collection (sample_key x) = ''c''"
  "sample_key x < sample_key y \<longleftrightarrow> x < y" "sample_key x \<le> sample_key y \<longleftrightarrow> x \<le> y"
  by (auto simp: sample_key_def)

lemma rec_id_sample [simp]: "rec_id (sample_rec x) = [x]"
  by (simp add: sample_rec_def builder_build_def)

lemma sample_rec_inject [simp]: "sample_rec x = sample_rec y \<longleftrightarrow> x = y"
  by (metis rec_id_sample list.inject)

lemma sample_rec_live [simp]: "\<not> is_tombstone (sample_rec x)"
  by (simp add: is_tombstone_def sample_rec_def f32_eq_zero_def f32_one_def)

lemma filter_sample_rec [simp]: "filter_tombstone (sample_rec x) = Some (sample_rec x)"
  by (simp add: filter_tombstone_def)

lemma sample_writable [simp]:
  "writable plain_ext (WalWrite 0 (sample_key x) (sample_rec y))"
  "writable plain_ext (WalDelete 0 (sample_key x))"
  "writable plain_ext (TxnCommit 0)"
  by (simp_all add: roundtrips_def plain_ext_def sample_dec_entry_def sample_key_def)

lemma sample_key_ok [simp]: "key_ok plain_ext (sample_key x)"
  by (simp add: roundtrips_def plain_ext_def sample_key_def)

lemma sample_entry_ok [simp]: "entry_ok plain_ext (sample_key x, sample_rec y)"
  by (simp add: entry_ok_def roundtrips_def plain_ext_def sample_key_def)

subsection \<open>Sample segments\<close>

definition sample_filter :: "record_key list \<Rightarrow> bloom_filter" where
  "sample_filter ks = \<lparr>bits = [if ks = [] then 0 else 1], bloom_k = 1\<rparr>"

lemma sample_insert:
  "bloom_insert (hashes.truncate plain_ext) k \<lparr>bits = [w], bloom_k = 1\<rparr> =
     Some \<lparr>bits = [w OR 1], bloom_k = 1\<rparr>"
  by (simp add: bloom_insert_def hashes.truncate_def plain_ext_def bit_index_def bloom_m_def
      set_bit_at_def)

lemma sample_insert_all:
  "bloom_insert_all (hashes.truncate plain_ext) ks \<lparr>bits = [w], bloom_k = 1\<rparr> =
     Some \<lparr>bits = [if ks = [] then w else w OR 1], bloom_k = 1\<rparr>"
  by (induction ks arbitrary: w) (simp_all add: sample_insert or.assoc)

lemma nan_sizing:
  fixes a b :: f64
  assumes "n = 0x7FF8000000000000"
  shows "f64_mul a n = n" "f64_neg n = n" "f64_div n a = n" "f64_ceil n = n" "f64_round n = n"
    "f64_as_nat hi n = 0" "f64_is_nan n"
proof -
  have v: "f64_val n = FNan" "f64_bits FNan = n"
    using assms by (simp_all add: f64_val_def decode_def f64_bits_def encode_def)
  have "ieee_mul Binary64 (f64_val a) FNan = FNan" by (cases "f64_val a") simp_all
  then show "f64_mul a n = n" "f64_neg n = n" "f64_div n a = n" "f64_ceil n = n" "f64_round n = n"
    "f64_as_nat hi n = 0"
    by (simp_all add: f64_mul_def f64_neg_def f64_div_def f64_ceil_def f64_round_def f64_as_nat_def v)
  show "f64_is_nan n" using assms by (simp add: f64_is_nan_def is_nan_def magnitude_def)
qed

lemma sample_bloom_new:
  "bloom_new (ln64 plain_ext) n sst_fpr = (if n = 0 then None else Some \<lparr>bits = [0], bloom_k = 1\<rparr>)"
proof -
  have r: "f64_le 0 sst_fpr" "f64_lt sst_fpr f64_one"
    by (simp_all add: f64_le_def f64_lt_def fp_le_def fp_lt_def is_nan_def magnitude_def order_key_def
        signed_def sst_fpr_def f64_one_def)
  have one: "f64_as_nat 255 f64_one = 1"
    by (simp add: f64_as_nat_def f64_val_def decode_def f64_one_def trunc_mag_def signed_def)
  have "raw_bits (ln64 plain_ext) n sst_fpr = 0" "hash_count (ln64 plain_ext) m n = 1" for m
    by (simp_all add: raw_bits_def hash_count_def plain_ext_def nan_sizing [OF refl] f64_max_def one)
  with r show ?thesis by (simp add: bloom_new_def Let_def)
qed

lemma sample_build_bloom: "build_bloom plain_ext ks = Some (sample_filter ks)"
  by (simp add: build_bloom_def sample_insert_all sample_filter_def sample_bloom_new)

lemma sample_bloom_ok [simp]: "bloom_ok plain_ext ks"
  by (simp add: bloom_ok_def sample_build_bloom roundtrips_def sample_filter_def)
    (simp add: plain_ext_def)

definition sample_entries :: "(u8 \<times> u8) list \<Rightarrow> (record_key \<times> fun_record) list" where
  "sample_entries ps = map (\<lambda>(x, y). (sample_key x, sample_rec y)) ps"

lemma sample_sst_writable: "length ps < 2 ^ 32 \<Longrightarrow> sst_writable plain_ext (sample_entries ps)"
  by (auto simp: sst_writable_def sample_entries_def)

text \<open>The bytes of the segment with these entries, and the reader it opens to.\<close>

definition segment :: "(u8 \<times> u8) list \<Rightarrow> bytes" where
  "segment ps = (case sst_file_bytes plain_ext (sample_entries ps) of Inl _ \<Rightarrow> [] | Inr b \<Rightarrow> b)"

definition segment_reader :: "(u8 \<times> u8) list \<Rightarrow> sst_reader" where
  "segment_reader ps =
     \<lparr>sst_entries = sample_entries ps, sst_bloom = sample_filter (map fst (sample_entries ps))\<rparr>"

lemma map_fst_sample_entries: "map fst (sample_entries ps) = map sample_key (map fst ps)"
  by (auto simp: sample_entries_def)

lemma sorted_sample_keys: "sorted (map sample_key xs) = sorted xs"
  by (induction xs) auto

lemma segment_open:
  assumes "sorted (map fst ps)" and "distinct (map fst ps)" and "length ps < 2 ^ 32"
  shows "sst_open plain_ext (segment ps) = Inr (segment_reader ps)"
    and "reader_ok plain_ext (segment_reader ps)"
    and "\<forall>p\<in>set (sst_entries (segment_reader ps)). entry_ok plain_ext p"
proof -
  let ?es = "sample_entries ps"
  have ok: "\<forall>p\<in>set ?es. entry_ok plain_ext p" by (auto simp: sample_entries_def)
  have len: "length ?es < 2 ^ 32" using assms(3) by (simp add: sample_entries_def)
  obtain fl f where "sst_file_bytes plain_ext ?es = Inr fl" "build_bloom plain_ext (map fst ?es) = Some f"
    "sst_open plain_ext fl = Inr \<lparr>sst_entries = ?es, sst_bloom = f\<rparr>"
    using ok len sample_bloom_ok by (rule sst_open_file)
  then show "sst_open plain_ext (segment ps) = Inr (segment_reader ps)"
    by (simp add: segment_def segment_reader_def sample_build_bloom)
  have "sorted (map fst ?es)" "distinct (map fst ?es)"
    using assms by (simp_all add: map_fst_sample_entries sorted_sample_keys distinct_map inj_on_def
        del: map_map)
  moreover have "may_contain plain_ext (segment_reader ps) k = Some True" if "k \<in> set (map fst ?es)" for k
    using build_bloom_contains [OF sample_build_bloom that]
    by (simp add: may_contain_def segment_reader_def)
  ultimately show "reader_ok plain_ext (segment_reader ps)"
    by (simp add: reader_ok_def bt_inv_def) (simp add: segment_reader_def sample_filter_def)
  show "\<forall>p\<in>set (sst_entries (segment_reader ps)). entry_ok plain_ext p"
    using ok by (simp add: segment_reader_def)
qed

end
