(* ===== verification/Storage_Properties.thy ===== *)
theory Storage_Properties
  imports Sample_Ext
begin

text \<open>
  What a client of the storage engine sees: histories of operations against a map, crash recovery,
  flush and compaction. Three theorems record behaviour that loses or revives data: deletions that
  recovery forgets, a compaction that hides newer records, and flush tasks that interfere.
\<close>

subsection \<open>Histories of operations\<close>

datatype lsm_op =
    Put nat nat record_key fun_record
  | Del uuid timestamp record_key
  | Get record_key

fun run_op :: "ext \<Rightarrow> lsm_op \<Rightarrow> lsm \<Rightarrow> lsm" where
  "run_op X (Put ts tc k r) s = fst (lsm_write X ts tc k r s)"
| "run_op X (Del i t k) s = fst (lsm_delete X i t k s)"
| "run_op X (Get k) s = snd (lsm_get X k s)"

text \<open>The map a client has in mind.\<close>

fun spec_op :: "lsm_op \<Rightarrow> (record_key \<Rightarrow> fun_record option) \<Rightarrow> (record_key \<Rightarrow> fun_record option)"
  where
  "spec_op (Put _ _ k r) m = m(k := filter_tombstone r)"
| "spec_op (Del _ _ k) m = m(k := None)"
| "spec_op (Get _) m = m"

fun op_ok :: "ext \<Rightarrow> lsm_op \<Rightarrow> bool" where
  "op_ok X (Put _ _ k r) = writable X (WalWrite 0 k r)"
| "op_ok X (Del _ _ k) = writable X (WalDelete 0 k)"
| "op_ok X (Get k) = key_ok X k"

definition quiet :: "ext \<Rightarrow> lsm \<Rightarrow> bool" where
  "quiet X s \<longleftrightarrow> lsm_wf X s \<and> cache_ok X (sstable_dir s) (lsm_files s) (lsm_cache s) \<and> no_compaction s"

text \<open>
  A write freezes the memtable at most; the files, the policy and the cache stay.
\<close>

lemma lsm_write_cases:
  assumes "writable X (WalWrite 0 k r)" and "no_compaction s"
  obtains w where "fst (lsm_write X ts tc k r s) = s\<lparr>lsm_wal := w, active := mt_insert X k r (active s)\<rparr>"
  | w where "fst (lsm_write X ts tc k r s) =
       flush_begin ts (s\<lparr>lsm_wal := w, active := mt_insert X k r (active s)\<rparr>)"
proof -
  define w where "w = fst (projr (wal_append X (WalWrite 0 k r) (lsm_wal s)))"
  define s1 where "s1 = s\<lparr>lsm_wal := w, active := mt_insert X k r (active s)\<rparr>"
  have app: "wal_append X (WalWrite 0 k r) (lsm_wal s) = Inr (w, u64_succ (current_lsn (lsm_wal s)))"
    using assms(1) by (simp add: w_def wal_append_Inr)
  have nc: "no_compaction (flush_begin ts s1)"
    using assms(2) by (simp add: no_compaction_def flush_begin_def s1_def)
  have "fst (lsm_write X ts tc k r s) = s1 \<or>
      fst (lsm_write X ts tc k r s) = fst (flush_memtable X ts tc s1)"
    by (auto simp: lsm_write_def app Let_def s1_def)
  then have "fst (lsm_write X ts tc k r s) = s1 \<or> fst (lsm_write X ts tc k r s) = flush_begin ts s1"
    using nc by (simp add: flush_memtable_def no_compaction_def Let_def)
  then show thesis using that unfolding s1_def by blast
qed

lemma lsm_write_frame:
  fixes ts tc :: nat
  assumes "writable X (WalWrite 0 k r)" and "no_compaction s"
  defines "s' \<equiv> fst (lsm_write X ts tc k r s)"
  shows "lsm_files s' = lsm_files s" "lsm_policy s' = lsm_policy s" "lsm_cache s' = lsm_cache s"
    "sstable_dir s' = sstable_dir s"
    and "lsm_wf X s \<Longrightarrow> lsm_wf X s'"
  by (rule lsm_write_cases [OF assms(1,2), of ts tc]; auto simp: s'_def flush_begin_def lsm_wf_def)+

lemma lsm_delete_frame:
  fixes i :: uuid and t :: timestamp and s :: lsm
  assumes "writable X (WalDelete 0 k)"
  defines "s' \<equiv> fst (lsm_delete X i t k s)"
  shows "lsm_files s' = lsm_files s" "lsm_policy s' = lsm_policy s" "lsm_cache s' = lsm_cache s"
    "sstable_dir s' = sstable_dir s" "immutables s' = immutables s" "flush_tasks s' = flush_tasks s"
    and "mt_wf (active s) \<Longrightarrow> mt_wf (active s')"
    and "wal_file (lsm_wal s') = wal_file (lsm_wal s) @ entry_bytes X (WalDelete 0 k)"
  using assms by (auto simp: s'_def lsm_delete_def wal_append_Inr Let_def)

lemma lsm_get_frame:
  "active (snd (lsm_get X k s)) = active s" "immutables (snd (lsm_get X k s)) = immutables s"
  "lsm_files (snd (lsm_get X k s)) = lsm_files s" "lsm_policy (snd (lsm_get X k s)) = lsm_policy s"
  "sstable_dir (snd (lsm_get X k s)) = sstable_dir s" "flush_tasks (snd (lsm_get X k s)) = flush_tasks s"
  "lsm_wal (snd (lsm_get X k s)) = lsm_wal s"
  by (auto simp: lsm_get_def split: option.splits prod.splits)

lemma run_op_quiet: "quiet X s \<Longrightarrow> op_ok X p \<Longrightarrow> quiet X (run_op X p s)"
proof (cases p)
  case (Put ts tc k r)
  assume "quiet X s" "op_ok X p"
  with Put show ?thesis
    using lsm_write_frame [where X = X and k = k and r = r and s = s and ts = ts and tc = tc]
    by (simp add: quiet_def no_compaction_def)
next
  case (Del i t k)
  assume "quiet X s" "op_ok X p"
  with Del show ?thesis
    using lsm_delete_frame [where X = X and k = k and i = i and t = t and s = s] by (auto simp: quiet_def lsm_wf_def no_compaction_def)
next
  case (Get k)
  assume "quiet X s" "op_ok X p"
  with Get show ?thesis
    using lsm_get_frame [of X k s] lsm_get_view(2) [of X s k]
    by (auto simp: quiet_def lsm_wf_def no_compaction_def)
qed

lemma run_op_view: "quiet X s \<Longrightarrow> op_ok X p \<Longrightarrow> view X (run_op X p s) = spec_op p (view X s)"
proof (cases p)
  case (Put ts tc k r)
  assume "quiet X s" "op_ok X p"
  with Put have "raw X (run_op X p s) = (raw X s)(k \<mapsto> r)"
    using lsm_write_raw(1) by (simp add: quiet_def)
  then show ?thesis using Put by (simp add: view_upd)
next
  case (Del i t k)
  assume "quiet X s" "op_ok X p"
  with Del have "raw X (run_op X p s) = (raw X s)(k \<mapsto> tombstone_record i t (key_collection k))"
    by (simp add: lsm_delete_raw(1))
  then show ?thesis using Del by (simp add: view_upd filter_tombstone_def)
next
  case (Get k)
  assume "quiet X s" "op_ok X p"
  with Get show ?thesis using lsm_get_view(3) [of X s k] by (simp add: quiet_def)
qed

lemma run_ops:
  "quiet X s \<Longrightarrow> \<forall>p\<in>set ops. op_ok X p \<Longrightarrow>
     quiet X (fold (run_op X) ops s) \<and>
     view X (fold (run_op X) ops s) = fold spec_op ops (view X s)"
proof (induction ops arbitrary: s)
  case (Cons p ops)
  then show ?case
    using Cons.IH [of "run_op X p s"] by (simp add: run_op_quiet run_op_view)
qed simp

lemma quiet_open:
  "files_ok X d \<Longrightarrow> length (sorted_sst_files d) \<le> 28 \<Longrightarrow> quiet X (lsm_open X dir d w cap)"
  using lsm_open_cache [of X dir d w cap]
  by (simp add: quiet_def lsm_open_wf no_compaction_def) (simp add: lsm_open_def)

subsection \<open>Flush tasks between the operations\<close>

datatype lsm_step = Client lsm_op | FlushTask nat

fun run_step :: "ext \<Rightarrow> lsm_step \<Rightarrow> lsm \<Rightarrow> lsm" where
  "run_step X (Client p) s = run_op X p s"
| "run_step X (FlushTask t) s = flush_task_step X t s"

fun spec_step :: "lsm_step \<Rightarrow> (record_key \<Rightarrow> fun_record option) \<Rightarrow> (record_key \<Rightarrow> fun_record option)" where
  "spec_step (Client p) m = spec_op p m"
| "spec_step (FlushTask _) m = m"

fun is_written :: "flush_task \<Rightarrow> bool" where
  "is_written (Written _) = True"
| "is_written (Spawned _ _) = False"

text \<open>
  A flush task in order: it writes only the oldest frozen memtable, under a name later than the segments
  on disk, while no other task is between its two steps, and the segments stay too few for a compaction.
  A task that finds no memtable at its index ends without any effect.
\<close>

definition flush_in_order :: "ext \<Rightarrow> nat \<Rightarrow> lsm \<Rightarrow> bool" where
  "flush_in_order X t s \<longleftrightarrow>
     (if t < length (flush_tasks s) then
        (case flush_tasks s ! t of
           Written _ \<Rightarrow> True
         | Spawned idx name \<Rightarrow>
             idx < length (immutables s) \<longrightarrow>
             idx = 0 \<and> list_all (\<lambda>u. \<not> is_written u) (flush_tasks s) \<and> newest_name (lsm_files s) name \<and>
             sst_writable X (imm_entries (hd (immutables s))) \<and>
             \<not> should_compact (lsm_policy s) (sorted_sst_files (lsm_files s) @ [name]))
      else True)"

fun step_ok :: "ext \<Rightarrow> lsm_step \<Rightarrow> lsm \<Rightarrow> bool" where
  "step_ok X (Client p) s = op_ok X p"
| "step_ok X (FlushTask t) s = flush_in_order X t s"

fun run_ok :: "ext \<Rightarrow> lsm_step list \<Rightarrow> lsm \<Rightarrow> bool" where
  "run_ok X [] s = True"
| "run_ok X (p # ps) s \<longleftrightarrow> step_ok X p s \<and> run_ok X ps (run_step X p s)"

text \<open>At most one task is between its steps, and the segment it wrote holds the oldest frozen memtable.\<close>

definition written_ok :: "ext \<Rightarrow> lsm \<Rightarrow> bool" where
  "written_ok X s \<longleftrightarrow>
     length (filter is_written (flush_tasks s)) \<le> 1 \<and>
     (\<forall>idx. Written idx \<in> set (flush_tasks s) \<longrightarrow>
        idx = 0 \<and> immutables s \<noteq> [] \<and>
        (\<forall>k. or_else (imm_get (hd (immutables s)) k) (disk X (lsm_files s) k) = disk X (lsm_files s) k))"

definition orderly :: "ext \<Rightarrow> lsm \<Rightarrow> bool" where
  "orderly X s \<longleftrightarrow>
     quiet X s \<and> cache_listed X (sstable_dir s) (lsm_files s) (lsm_cache s) \<and> written_ok X s"

lemma set_remove_at: "set (remove_at t xs) \<subseteq> set xs"
  using set_take_subset [of t xs] set_drop_subset [of "Suc t" xs] by (auto simp: remove_at_def)

lemma filter_remove_at:
  "t < length xs \<Longrightarrow>
     length (filter P (remove_at t xs)) = length (filter P xs) - (if P (xs ! t) then 1 else 0)"
  by (subst (2) id_take_nth_drop [of t xs]) (simp_all add: remove_at_def)

lemma no_written: "Written idx \<in> set ts \<Longrightarrow> 1 \<le> length (filter is_written ts)"
  by (induction ts) auto

lemma written_ok_frame:
  assumes "written_ok X s" and "lsm_files s' = lsm_files s"
    and "immutables s' = immutables s @ is" and "flush_tasks s' = flush_tasks s @ us"
    and "\<forall>u\<in>set us. \<not> is_written u"
  shows "written_ok X s'"
proof -
  have "filter is_written us = []" and "Written idx \<notin> set us" for idx
    using assms(5) by (auto simp: filter_empty_conv)
  then show ?thesis using assms(1-4) by (auto simp: written_ok_def)
qed

lemma run_op_orderly:
  assumes o: "orderly X s" and ok: "op_ok X p"
  shows "orderly X (run_op X p s)"
proof -
  have q: "quiet X s" and l: "cache_listed X (sstable_dir s) (lsm_files s) (lsm_cache s)" and w: "written_ok X s"
    using o by (auto simp: orderly_def)
  have nc: "no_compaction s" using q by (simp add: quiet_def)
  have "cache_listed X (sstable_dir (run_op X p s)) (lsm_files (run_op X p s)) (lsm_cache (run_op X p s)) \<and>
      written_ok X (run_op X p s)"
  proof (cases p)
    case (Put ts tc k r)
    then have wr: "writable X (WalWrite 0 k r)" using ok by simp
    have "written_ok X (fst (lsm_write X ts tc k r s))"
      by (rule lsm_write_cases [OF wr nc, of ts tc])
        (auto simp: flush_begin_def intro: written_ok_frame [OF w, of _ "[]" "[]"] written_ok_frame [OF w])
    then show ?thesis using lsm_write_frame(1,3,4) [OF wr nc, of ts tc] l Put by simp
  next
    case (Del i t k)
    then have wr: "writable X (WalDelete 0 k)" using ok by simp
    have "written_ok X (fst (lsm_delete X i t k s))"
      by (rule written_ok_frame [OF w, of _ "[]" "[]"])
        (use lsm_delete_frame [OF wr, where i = i and t = t and s = s] in simp_all)
    then show ?thesis using lsm_delete_frame(1,3,4) [OF wr, where i = i and t = t and s = s] l Del by simp
  next
    case (Get k)
    have "written_ok X (snd (lsm_get X k s))"
      by (rule written_ok_frame [OF w, of _ "[]" "[]"]) (simp_all add: lsm_get_frame)
    then show ?thesis using Get ok lsm_get_listed [OF _ l] by (simp add: lsm_get_frame)
  qed
  then show ?thesis using run_op_quiet [OF q ok] by (simp add: orderly_def)
qed

text \<open>Every kind of step of a flush task: nothing, the task ends, the segment is written, the memtable goes.\<close>

lemma flush_step_cases:
  assumes o: "orderly X s" and f: "flush_in_order X t s"
  obtains "flush_task_step X t s = s"
  | "t < length (flush_tasks s)" "\<not> is_written (flush_tasks s ! t)"
    "flush_task_step X t s = s\<lparr>flush_tasks := remove_at t (flush_tasks s)\<rparr>"
  | i rest name content where "immutables s = i # rest" "t < length (flush_tasks s)"
    "list_all (\<lambda>u. \<not> is_written u) (flush_tasks s)"
    "newest_name (lsm_files s) name" "\<not> should_compact (lsm_policy s) (sorted_sst_files (lsm_files s) @ [name])"
    "flush_task_step X t s = s\<lparr>lsm_files := bt_insert name content (lsm_files s),
       flush_tasks := (flush_tasks s)[t := Written 0]\<rparr>"
    "files_ok X (bt_insert name content (lsm_files s))"
    "\<And>k. disk X (bt_insert name content (lsm_files s)) k = or_else (imm_get i k) (disk X (lsm_files s) k)"
  | i rest where "immutables s = i # rest" "t < length (flush_tasks s)" "is_written (flush_tasks s ! t)"
    "\<And>k. or_else (imm_get i k) (disk X (lsm_files s) k) = disk X (lsm_files s) k"
    "flush_task_step X t s = s\<lparr>immutables := rest, flush_tasks := remove_at t (flush_tasks s)\<rparr>"
proof (cases "t < length (flush_tasks s)")
  case False
  then show thesis by (intro that(1)) (simp add: flush_task_step_def)
next
  case t: True
  show thesis
  proof (cases "flush_tasks s ! t")
    case (Written idx)
    then have "Written idx \<in> set (flush_tasks s)" using t nth_mem by metis
    then have "idx = 0" "immutables s \<noteq> []"
      "\<And>k. or_else (imm_get (hd (immutables s)) k) (disk X (lsm_files s) k) = disk X (lsm_files s) k"
      using o by (auto simp: orderly_def written_ok_def)
    then show thesis
      using t Written by (intro that(4) [of "hd (immutables s)" "tl (immutables s)"])
        (simp_all add: flush_task_step_def remove_at_def drop_Suc)
  next
    case (Spawned idx name)
    show thesis
    proof (cases "idx < length (immutables s)")
      case False
      then show thesis using t Spawned by (intro that(2)) (simp_all add: flush_task_step_def)
    next
      case True
      then have facts: "idx = 0" "list_all (\<lambda>u. \<not> is_written u) (flush_tasks s)" "newest_name (lsm_files s) name"
        "sst_writable X (imm_entries (hd (immutables s)))"
        "\<not> should_compact (lsm_policy s) (sorted_sst_files (lsm_files s) @ [name])"
        using f t Spawned by (simp_all add: flush_in_order_def)
      obtain i rest where i: "immutables s = i # rest" using True by (cases "immutables s") auto
      have wf: "lsm_wf X s" using o by (simp add: orderly_def quiet_def)
      have task: "flush_tasks s ! t = Spawned 0 name" using Spawned facts(1) by simp
      have wr: "sst_writable X (imm_entries i)" using facts(4) i by simp
      show thesis
        using flush_first_step [OF wf i t task facts(3) wr] that(3) [OF i t facts(2,3,5)] by blast
    qed
  qed
qed

lemma flush_step_orderly:
  assumes o: "orderly X s" and f: "flush_in_order X t s"
  shows "orderly X (flush_task_step X t s)" and "raw X (flush_task_step X t s) = raw X s"
proof -
  have q: "lsm_wf X s" "cache_ok X (sstable_dir s) (lsm_files s) (lsm_cache s)" "no_compaction s"
    and l: "cache_listed X (sstable_dir s) (lsm_files s) (lsm_cache s)" and w: "written_ok X s"
    using o by (auto simp: orderly_def quiet_def)
  have absorb: "or_else a (or_else a b) = or_else a b" for a b :: "fun_record option"
    by (cases a) auto
  have "orderly X (flush_task_step X t s) \<and> raw X (flush_task_step X t s) = raw X s"
    using o f
  proof (cases rule: flush_step_cases)
    case 1
    then show ?thesis using o by simp
  next
    case 2
    have "written_ok X (s\<lparr>flush_tasks := remove_at t (flush_tasks s)\<rparr>)"
      using w 2 set_remove_at [of t "flush_tasks s"] by (auto simp: written_ok_def filter_remove_at)
    then show ?thesis
      using q l 2(3) by (simp add: orderly_def quiet_def lsm_wf_def no_compaction_def raw_def fun_eq_iff)
  next
    case (3 i rest name content)
    let ?s' = "s\<lparr>lsm_files := bt_insert name content (lsm_files s),
       flush_tasks := (flush_tasks s)[t := Written 0]\<rparr>"
    have inv: "bt_inv (lsm_files s)" using q(1) by (simp add: lsm_wf_def files_ok_def)
    have none: "filter is_written (flush_tasks s) = []"
      using 3(3) by (simp add: filter_empty_conv list_all_iff)
    then have "length (filter is_written ((flush_tasks s)[t := Written 0])) \<le> 1"
      using 3(2) by (simp add: upd_conv_take_nth_drop)
        (metis append_is_Nil_conv append_take_drop_id filter.simps(1) filter_append filter_empty_conv
          in_set_dropD in_set_takeD le_zero_eq length_0_conv)
    moreover have "idx = 0" if "Written idx \<in> set ((flush_tasks s)[t := Written 0])" for idx
      using subsetD [OF set_update_subset_insert that] 3(3) by (auto simp: list_all_iff)
    ultimately have "written_ok X ?s'"
      by (auto simp: written_ok_def 3(1,8) absorb)
    then show ?thesis
      using q l 3(1,5,7,8) cache_new_file [OF inv 3(4) q(2) l, of content]
        sorted_sst_files_insert [OF inv 3(4), of content] unfolding 3(6)
      by (simp add: orderly_def quiet_def lsm_wf_def no_compaction_def raw_def fun_eq_iff first_hit_append absorb)
  next
    case (4 i rest)
    have "length (filter is_written (remove_at t (flush_tasks s))) = 0"
      using 4(2,3) w by (simp add: filter_remove_at written_ok_def)
    then have "Written idx \<notin> set (remove_at t (flush_tasks s))" for idx
      using no_written [of idx "remove_at t (flush_tasks s)"] by auto
    then have "written_ok X (s\<lparr>immutables := rest, flush_tasks := remove_at t (flush_tasks s)\<rparr>)"
      using \<open>length (filter is_written (remove_at t (flush_tasks s))) = 0\<close> by (simp add: written_ok_def)
    then show ?thesis
      using q l 4(1,4) unfolding 4(5)
      by (simp add: orderly_def quiet_def lsm_wf_def no_compaction_def raw_def fun_eq_iff first_hit_append)
  qed
  then show "orderly X (flush_task_step X t s)" "raw X (flush_task_step X t s) = raw X s" by simp_all
qed

lemma run_step_correct:
  "orderly X s \<Longrightarrow> step_ok X p s \<Longrightarrow>
     orderly X (run_step X p s) \<and> view X (run_step X p s) = spec_step p (view X s)"
proof (cases p)
  case (Client q)
  assume "orderly X s" "step_ok X p s"
  then show ?thesis using Client run_op_orderly [of X s q] run_op_view [of X s q] by (simp add: orderly_def)
next
  case (FlushTask t)
  assume "orderly X s" "step_ok X p s"
  then show ?thesis
    using FlushTask flush_step_orderly [of X s t] by (simp add: view_def fun_eq_iff)
qed

lemma run_steps:
  "orderly X s \<Longrightarrow> run_ok X ps s \<Longrightarrow>
     orderly X (fold (run_step X) ps s) \<and>
     view X (fold (run_step X) ps s) = fold spec_step ps (view X s)"
  by (induction ps arbitrary: s) (simp_all add: run_step_correct)

lemma orderly_open:
  assumes "files_ok X d" and "length (sorted_sst_files d) \<le> 28"
  shows "orderly X (lsm_open X dir d w cap)"
proof -
  have "cache_listed X dir d (bc_new cap)"
    by (simp add: cache_listed_def) (simp add: bc_new_def)
  then show ?thesis
    using quiet_open [OF assms, of dir w cap]
    by (simp add: orderly_def written_ok_def) (simp add: lsm_open_def)
qed

text \<open>
  C1: Reads see exactly the writes. Clients write, delete and look up, and between their operations the
  flush tasks take their steps, in order: a task writes only the oldest frozen memtable, while no other
  task is between its two steps, to a segment later than those on disk, and the segments stay too few for
  a compaction. If the log can encode the entries, a lookup of any key at the end of such a run returns
  what a plain map would hold: the last record written for the key, or nothing after a delete. The lookup
  searches the memtable, the frozen memtables and the segments, with Bloom filters, binary search and the
  block cache. Flush tasks out of order and compactions are excluded because they do break this.
\<close>

theorem lsm_get_history:
  assumes "orderly X s" and "run_ok X steps s" and "key_ok X k"
  shows "fst (lsm_get X k (fold (run_step X) steps s)) = Inr (fold spec_step steps (view X s) k)"
  using run_steps [OF assms(1,2)] lsm_get_view(1) assms(3) by (simp add: orderly_def quiet_def)

lemma quiet_sample_open [simp]: "quiet X (lsm_open X dir [] w cap)"
  by (rule quiet_open) (simp_all add: files_ok_def sorted_sst_files_def)

lemma disk_Nil [simp]: "disk X [] k = None"
  by (simp add: disk_def sorted_sst_files_def)

text \<open>
  C5: A range scan of a well-formed state returns, in strictly ascending key order, exactly the live
  records of the range, each the newest of its key over all layers.
\<close>

theorem lsm_scan_correct:
  assumes "lsm_wf X s" and "lo \<le> hi"
  shows "\<exists>ps. lsm_scan X lo hi s = Inr ps \<and> sorted_wrt (<) (map fst ps) \<and>
           (\<forall>k. map_of ps k = (if lo \<le> k \<and> k \<le> hi then view X s k else None))"
proof -
  obtain ps where "lsm_scan X lo hi s = Inr ps" "bt_inv ps"
    "\<And>k. map_of ps k = (if lo \<le> k \<and> k \<le> hi then view X s k else None)"
    using lsm_scan_view [OF assms] by blast
  then show ?thesis by (intro exI [of _ ps]) (simp add: bt_inv_def strict_sorted_iff)
qed

theorem lsm_scan_correct_witness:
  "\<exists>ps. lsm_scan plain_ext (sample_key 1) (sample_key 5) (lsm_open plain_ext ''dir'' [] None 100) =
      Inr ps \<and> sorted_wrt (<) (map fst ps) \<and>
      (\<forall>k. map_of ps k = (if sample_key 1 \<le> k \<and> k \<le> sample_key 5
         then view plain_ext (lsm_open plain_ext ''dir'' [] None 100) k else None))"
  by (rule lsm_scan_correct) (use quiet_sample_open in \<open>simp_all add: quiet_def\<close>)

subsection \<open>Crash recovery\<close>

fun op_entry :: "lsm_op \<Rightarrow> wal_entry list" where
  "op_entry (Put _ _ k r) = [WalWrite 0 k r]"
| "op_entry (Del _ _ k) = [WalDelete 0 k]"
| "op_entry (Get _) = []"

fun step_entry :: "lsm_step \<Rightarrow> wal_entry list" where
  "step_entry (Client p) = op_entry p"
| "step_entry (FlushTask _) = []"

definition is_delete :: "lsm_step \<Rightarrow> bool" where
  "is_delete p \<longleftrightarrow> (case p of Client (Del _ _ _) \<Rightarrow> True | _ \<Rightarrow> False)"

text \<open>What the memtables alone hold.\<close>

definition memory :: "lsm \<Rightarrow> record_key \<Rightarrow> fun_record option" where
  "memory s k = or_else (mt_get (active s) k) (first_hit imm_get (rev (immutables s)) k)"

text \<open>
  The log of a running tree: complete entries; the newest record of every key it writes is its last
  entry for the key, and the memtables hold no other keys.
\<close>

definition replays :: "ext \<Rightarrow> wal_entry list \<Rightarrow> lsm \<Rightarrow> bool" where
  "replays X es s \<longleftrightarrow>
     wal_file (lsm_wal s) = log_bytes X es \<and> (\<forall>e\<in>set es. writable X e) \<and>
     (\<forall>k r. map_of (rev (wal_writes es)) k = Some r \<longrightarrow> raw X s k = Some r) \<and>
     (\<forall>k. map_of (rev (wal_writes es)) k = None \<longrightarrow> memory s k = None)"

lemma raw_memory: "raw X s k = or_else (memory s k) (disk X (lsm_files s) k)"
  by (cases "mt_get (active s) k") (simp_all add: raw_def memory_def)

lemma replays_reopen:
  assumes "replays X es s" and torn: "writable X e" "entry_bytes X e = frag @ rest" "rest \<noteq> []"
  shows "view X (lsm_open X dir (lsm_files s) (Some (wal_file (lsm_wal s) @ frag)) cap) = view X s"
proof -
  have r: "wal_file (lsm_wal s) = log_bytes X es" "\<forall>e\<in>set es. writable X e"
    "\<And>k r. map_of (rev (wal_writes es)) k = Some r \<Longrightarrow> raw X s k = Some r"
    "\<And>k. map_of (rev (wal_writes es)) k = None \<Longrightarrow> memory s k = None"
    using assms(1) by (auto simp: replays_def)
  have "recover X (log_bytes X es @ frag) = es @ recover X frag" using r(2) by (intro recover_log) blast
  then have rec: "recover X (log_bytes X es @ frag) = es" using recover_torn [OF torn] by simp
  have "raw X (lsm_open X dir (lsm_files s) (Some (log_bytes X es @ frag)) cap) k = raw X s k" for k
    using r(3,4) [of k] by (cases "map_of (rev (wal_writes es)) k") (simp_all add: lsm_open_raw rec raw_memory [of X s])
  then show ?thesis by (simp add: r(1) view_def fun_eq_iff)
qed

lemma write_memory:
  assumes "writable X (WalWrite 0 k r)" and "no_compaction s"
  shows "memory (fst (lsm_write X ts tc k r s)) = (memory s)(k \<mapsto> r)"
  by (rule lsm_write_cases [OF assms, of ts tc]) (simp_all add: memory_def fun_eq_iff flush_begin_def)

lemma run_step_replays:
  assumes o: "orderly X s" and ok: "step_ok X p s" and p: "\<not> is_delete p" and r: "replays X es s"
  shows "replays X (es @ step_entry p) (run_step X p s)"
proof (cases p)
  case (Client q)
  have q: "quiet X s" "no_compaction s" using o by (auto simp: orderly_def quiet_def)
  show ?thesis
  proof (cases q)
    case (Put ts tc k v)
    then have wr: "writable X (WalWrite 0 k v)" using ok Client by simp
    show ?thesis
      using r wr Client Put lsm_write_raw(1,3) [OF wr q(2), of ts tc] write_memory [OF wr q(2), of ts tc]
      by (auto simp: replays_def)
  next
    case (Del i t k)
    then show ?thesis using p Client by (simp add: is_delete_def)
  next
    case (Get k)
    have "raw X (snd (lsm_get X k s)) = raw X s" "memory (snd (lsm_get X k s)) = memory s"
      using lsm_get_frame [of X k s] by (simp_all add: fun_eq_iff raw_def memory_def)
    then show ?thesis using r Client Get by (simp add: replays_def lsm_get_frame)
  qed
next
  case (FlushTask t)
  have f: "flush_in_order X t s" using ok FlushTask by simp
  have "wal_file (lsm_wal (flush_task_step X t s)) = wal_file (lsm_wal s) \<and>
      (\<forall>k. memory s k = None \<longrightarrow> memory (flush_task_step X t s) k = None)"
    using o f
  proof (cases rule: flush_step_cases)
    case (4 i rest)
    have none: "or_else a b = None \<longleftrightarrow> a = None \<and> b = None" for a b :: "fun_record option"
      by (cases a) auto
    show ?thesis using 4(1) unfolding 4(5) by (simp add: memory_def first_hit_append none)
  qed (simp_all add: memory_def)
  then show ?thesis using r flush_step_orderly(2) [OF o f] FlushTask by (simp add: replays_def)
qed

lemma run_steps_replays:
  "orderly X s \<Longrightarrow> run_ok X ps s \<Longrightarrow> \<forall>p\<in>set ps. \<not> is_delete p \<Longrightarrow> replays X es s \<Longrightarrow>
     replays X (es @ concat (map step_entry ps)) (fold (run_step X) ps s)"
proof (induction ps arbitrary: s es)
  case (Cons p ps)
  then show ?case
    using Cons.IH [of "run_step X p s" "es @ step_entry p"] by (simp add: run_step_correct run_step_replays)
qed simp

lemma replays_open:
  assumes "\<forall>e\<in>set es. writable X e" and "w = Some (log_bytes X es) \<or> w = None \<and> es = []"
  shows "replays X es (lsm_open X dir d w cap)"
proof -
  have rec: "recover X (log_bytes X es) = es"
    using recover_log [of es X "[]"] assms(1) by simp
  have "wal_file (lsm_wal (lsm_open X dir d w cap)) = log_bytes X es"
    using assms(2) by (auto simp: lsm_open_def wal_open_def)
  moreover have "memory (lsm_open X dir d w cap) k = map_of (rev (wal_writes es)) k" for k
    using assms(2) by (auto simp: memory_def lsm_open_def replay_get rec)
  ultimately show ?thesis using assms(1) by (simp add: replays_def raw_memory)
qed


lemma length_sample_entry:
  "length (entry_bytes plain_ext (WalWrite 0 (sample_key x) (sample_rec y))) = 11"
  by (simp add: entry_bytes_def plain_ext_def frame_def sample_key_def)

text \<open>A sample run: a write that fills the memtable, and the two steps of its flush.\<close>

lemma sample_put:
  fixes s :: lsm and ts tc :: nat and x y :: u8
  assumes "no_compaction s" and "flush_threshold_bytes s = 64 * 1024 * 1024" and "mt_size (active s) = 0"
  defines "s' \<equiv> fst (lsm_write plain_ext ts tc (sample_key x) (sample_rec y) s)"
  shows "flush_tasks s' = flush_tasks s @ [Spawned (length (immutables s)) (sst_name ts)]"
    and "immutables s' = immutables s @ [mt_freeze (mt_insert plain_ext (sample_key x) (sample_rec y) (active s))]"
    and "lsm_files s' = lsm_files s" and "lsm_policy s' = lsm_policy s"
proof -
  let ?t = "mt_insert plain_ext (sample_key x) (sample_rec y) (active s)"
  have full: "64 * 1024 * 1024 \<le> mt_size_bytes ?t"
    using assms(3) by (simp add: mt_insert_def mt_size_bytes_def plain_ext_def)
  obtain w where w: "wal_append plain_ext (WalWrite 0 (sample_key x) (sample_rec y)) (lsm_wal s) =
      Inr (w, u64_succ (current_lsn (lsm_wal s)))"
    by (simp add: wal_append_Inr)
  have "s' = flush_begin ts (s\<lparr>lsm_wal := w, active := ?t\<rparr>)"
    using full assms(1,2)
    by (simp add: s'_def lsm_write_def w flush_memtable_def no_compaction_def flush_begin_def Let_def)
  then show "flush_tasks s' = flush_tasks s @ [Spawned (length (immutables s)) (sst_name ts)]"
    "immutables s' = immutables s @ [mt_freeze ?t]" "lsm_files s' = lsm_files s" "lsm_policy s' = lsm_policy s"
    by (simp_all add: flush_begin_def)
qed

lemma sample_put_flush:
  defines "s \<equiv> fst (lsm_write plain_ext 5 6 (sample_key 1) (sample_rec 1) (lsm_open plain_ext ''dir'' [] None 100))"
  shows "orderly plain_ext s" "flush_in_order plain_ext 0 s"
    "flush_in_order plain_ext 0 (flush_task_step plain_ext 0 s)"
proof -
  let ?s0 = "lsm_open plain_ext ''dir'' [] None 100"
  have empty: "files_ok plain_ext []" "sorted_sst_files [] = []" by (simp_all add: files_ok_def sorted_sst_files_def)
  have o: "orderly plain_ext ?s0" using empty by (intro orderly_open) simp_all
  then show s: "orderly plain_ext s"
    using run_op_orderly [OF o, of "Put 5 6 (sample_key 1) (sample_rec 1)"] by (simp add: s_def)
  have nc: "no_compaction ?s0" using o by (simp add: orderly_def quiet_def)
  have th: "flush_threshold_bytes ?s0 = 64 * 1024 * 1024" "mt_size (active ?s0) = 0"
    by (simp_all add: lsm_open_def mt_new_def)
  note put = sample_put [OF nc th, of 5 6 1 1, folded s_def]
  have tasks: "flush_tasks s = [Spawned 0 (sst_name 5)]" "immutables s =
      [mt_freeze (mt_insert plain_ext (sample_key 1) (sample_rec 1) mt_new)]" "lsm_files s = []"
    using put by (simp_all add: lsm_open_def)
  have "sst_writable plain_ext (imm_entries (hd (immutables s)))"
    using sample_sst_writable [of "[(1, 1)]"]
    by (simp add: tasks mt_freeze_def mt_insert_def mt_new_def sample_entries_def bt_insert.simps)
  then show f: "flush_in_order plain_ext 0 s"
    using tasks put(4) empty(2) by (simp add: flush_in_order_def newest_name_def lsm_open_def)
  show "flush_in_order plain_ext 0 (flush_task_step plain_ext 0 s)"
    using s f
    by (cases rule: flush_step_cases) (use f in \<open>simp_all add: tasks flush_in_order_def remove_at_def\<close>)
qed

theorem lsm_get_history_witness:
  "fst (lsm_get plain_ext (sample_key 1)
     (fold (run_step plain_ext)
       [Client (Put 5 6 (sample_key 1) (sample_rec 1)), FlushTask 0, FlushTask 0,
        Client (Get (sample_key 1)), Client (Put 7 8 (sample_key 2) (sample_rec 2)),
        Client (Del [9] 9 (sample_key 2)), Client (Put 9 9 (sample_key 1) (sample_rec 3))]
       (lsm_open plain_ext ''dir'' [] None 100))) = Inr (Some (sample_rec 3))"
proof -
  have "orderly plain_ext (lsm_open plain_ext ''dir'' [] None 100)"
    by (rule orderly_open) (simp_all add: files_ok_def sorted_sst_files_def)
  then show ?thesis
    by (subst lsm_get_history) (simp_all add: filter_tombstone_def sample_put_flush)
qed


text \<open>
  C39: Recovery forgets deletions. A delete is acknowledged and hides the record, but reopening the
  log that holds it gives the same view as reopening the log without it: the replay skips delete
  entries, so the record is back.
\<close>

theorem lsm_recovery_forgets_delete:
  fixes dir :: string and d :: "(string, bytes) btree_map" and cap :: nat and i :: uuid
    and t :: timestamp
  assumes es: "\<forall>e\<in>set es. writable X e" and del: "writable X (WalDelete 0 k)"
  defines "s \<equiv> lsm_open X dir d (Some (log_bytes X es)) cap"
  defines "s' \<equiv> fst (lsm_delete X i t k s)"
  shows "snd (lsm_delete X i t k s) = None \<and> view X s' k = None \<and>
         view X (lsm_open X dir d (Some (wal_file (lsm_wal s'))) cap) = view X s"
proof (intro conjI)
  show "snd (lsm_delete X i t k s) = None" using del by (rule lsm_delete_raw(2))
  have "raw X s' = (raw X s)(k \<mapsto> tombstone_record i t (key_collection k))"
    unfolding s'_def using del by (rule lsm_delete_raw(1))
  then show "view X s' k = None" by (simp add: view_def filter_tombstone_def)
  have "wal_file (lsm_wal s') = log_bytes X (es @ [WalDelete 0 k])"
    using lsm_delete_frame(8) [OF del] by (simp add: s'_def s_def lsm_open_def wal_open_def)
  moreover have "recover X (log_bytes X (es @ [WalDelete 0 k])) = es @ [WalDelete 0 k]"
    "recover X (log_bytes X es) = es"
    using recover_log [of "es @ [WalDelete 0 k]" X "[]"] recover_log [of es X "[]"] es del by auto
  ultimately show "view X (lsm_open X dir d (Some (wal_file (lsm_wal s'))) cap) = view X s"
    by (simp add: s_def view_def fun_eq_iff lsm_open_raw)
qed

lemma view_sample_log:
  "view plain_ext (lsm_open plain_ext dir [] (Some (log_bytes plain_ext [WalWrite 0 (sample_key x) (sample_rec y)])) cap)
     (sample_key x) = Some (sample_rec y)"
  using recover_log [of "[WalWrite 0 (sample_key x) (sample_rec y)]" plain_ext "[]"]
  by (simp add: view_def lsm_open_raw)

theorem lsm_recovery_forgets_delete_witness:
  "let s = lsm_open plain_ext ''dir'' []
             (Some (log_bytes plain_ext [WalWrite 0 (sample_key 1) (sample_rec 2)])) 100;
       s' = fst (lsm_delete plain_ext [9] 7 (sample_key 1) s)
   in view plain_ext s' (sample_key 1) = None \<and>
      view plain_ext (lsm_open plain_ext ''dir'' [] (Some (wal_file (lsm_wal s'))) 100)
        (sample_key 1) = Some (sample_rec 2)"
  using lsm_recovery_forgets_delete [of "[WalWrite 0 (sample_key 1) (sample_rec 2)]" plain_ext
      "sample_key 1" "[9]" 7 "''dir''" "[]" 100]
  by (simp add: Let_def view_sample_log del: log_bytes_simps)

text \<open>
  Writes after a corrupt frame are lost. A tree opened on a log that ends in a frame with a wrong
  checksum acknowledges a write and shows it, but the write is appended behind the corrupt frame,
  where recovery never arrives: after reopening, the write is gone.
\<close>

theorem lsm_write_after_corruption_lost:
  fixes dir :: string and d :: "(string, bytes) btree_map" and cap ts tc :: nat
  assumes es: "\<forall>e\<in>set es. writable X e" and bad: "read_frame X bad = Inl CrcMismatch"
    and wr: "writable X (WalWrite 0 k r)" and nc: "length (sorted_sst_files d) \<le> 28"
  defines "s \<equiv> lsm_open X dir d (Some (log_bytes X es @ bad)) cap"
  defines "s' \<equiv> fst (lsm_write X ts tc k r s)"
  shows "snd (lsm_write X ts tc k r s) = None \<and> view X s' = (view X s)(k := filter_tombstone r) \<and>
         view X (lsm_open X dir d (Some (wal_file (lsm_wal s'))) cap) = view X s"
proof (intro conjI)
  have "no_compaction s" using nc by (simp add: s_def no_compaction_def lsm_open_def)
  note w = lsm_write_raw [OF wr this, where ts = ts and ts' = tc]
  show "snd (lsm_write X ts tc k r s) = None" by (rule w(2))
  show "view X s' = (view X s)(k := filter_tombstone r)"
    using w(1) by (simp add: s'_def view_upd)
  have "wal_file (lsm_wal s') = log_bytes X es @ bad @ entry_bytes X (WalWrite 0 k r)"
    using w(3) by (simp add: s'_def s_def lsm_open_def wal_open_def)
  then show "view X (lsm_open X dir d (Some (wal_file (lsm_wal s'))) cap) = view X s"
    using recover_after_corruption [OF es bad] recover_after_corruption [OF es bad, of "[]"]
    by (simp add: s_def view_def fun_eq_iff lsm_open_raw)
qed

lemma sample_bad_frame: "read_frame plain_ext [1, 0, 0, 0, 7, 5, 0, 0, 0] = Inl CrcMismatch"
  by (simp add: read_frame_def read_exact_def crc_def plain_ext_def)

theorem lsm_write_after_corruption_lost_witness:
  "let s = lsm_open plain_ext ''dir'' [] (Some [1, 0, 0, 0, 7, 5, 0, 0, 0]) 100;
       s' = fst (lsm_write plain_ext 1 2 (sample_key 1) (sample_rec 2) s)
   in view plain_ext s' (sample_key 1) = Some (sample_rec 2) \<and>
      view plain_ext (lsm_open plain_ext ''dir'' [] (Some (wal_file (lsm_wal s'))) 100)
        (sample_key 1) = view plain_ext s (sample_key 1)"
  using lsm_write_after_corruption_lost [of "[]" plain_ext, OF _ sample_bad_frame, of "sample_key 1" "sample_rec 2"
      "[]" 1 2 "''dir''" 100]
  by (simp add: Let_def sorted_sst_files_def)

subsection \<open>Flush\<close>

text \<open>
  C18: A flush loses nothing. When the flush task of the oldest frozen memtable runs to its end (its
  segment name being later than the existing ones), no reader sees a difference, neither while the
  segment and the frozen memtable both exist nor afterwards; the memtable is gone and its records
  are in the newest segment.
\<close>

theorem lsm_flush_preserves:
  assumes "lsm_wf X s" and "immutables s = i # rest" and "t < length (flush_tasks s)"
    and "flush_tasks s ! t = Spawned 0 name" and "newest_name (lsm_files s) name"
    and "sst_writable X (imm_entries i)"
  shows "let s1 = flush_task_step X t s; s2 = flush_task_step X t s1
         in view X s1 = view X s \<and> view X s2 = view X s \<and> immutables s2 = rest \<and>
            (\<forall>k. disk X (lsm_files s2) k = or_else (imm_get i k) (disk X (lsm_files s) k)) \<and>
            lsm_wf X s2"
  using flush_oldest [OF assms] by (simp add: view_def fun_eq_iff Let_def)

text \<open>A memtable that holds these entries.\<close>

definition sample_table :: "(u8 \<times> u8) list \<Rightarrow> mem_table" where
  "sample_table ps = \<lparr>mt_inner = sample_entries ps, mt_size = 0\<rparr>"

lemma sample_table_wf:
  "sorted (map fst ps) \<Longrightarrow> distinct (map fst ps) \<Longrightarrow> mt_wf (sample_table ps)"
  by (simp add: mt_wf_def sample_table_def bt_inv_def map_fst_sample_entries sorted_sample_keys
      distinct_map inj_on_def del: map_map)

lemma newest_name_sample:
  "\<forall>f\<in>set (sorted_sst_files d). f < sst_name n \<Longrightarrow> newest_name d (sst_name n)"
  by (simp add: newest_name_def)

definition sample_state :: "(u8 \<times> u8) list \<Rightarrow> (u8 \<times> u8) list list \<Rightarrow> (string, bytes) btree_map \<Rightarrow>
    flush_task list \<Rightarrow> lsm" where
  "sample_state act imms d tasks =
     (lsm_open plain_ext ''dir'' d None 100)
       \<lparr>active := sample_table act, immutables := map (mt_freeze \<circ> sample_table) imms,
        flush_tasks := tasks\<rparr>"

lemma sample_state_wf:
  "files_ok plain_ext d \<Longrightarrow> \<forall>ps\<in>set (act # imms). sorted (map fst ps) \<and> distinct (map fst ps) \<Longrightarrow>
     lsm_wf plain_ext (sample_state act imms d tasks)"
  by (auto simp: lsm_wf_def sample_state_def sample_table_wf lsm_open_def)

lemma sample_state_simps [simp]:
  "active (sample_state act imms d tasks) = sample_table act"
  "immutables (sample_state act imms d tasks) = map (mt_freeze \<circ> sample_table) imms"
  "lsm_files (sample_state act imms d tasks) = d"
  "flush_tasks (sample_state act imms d tasks) = tasks"
  "lsm_policy (sample_state act imms d tasks) = Leveled 10 7"
  by (simp_all add: sample_state_def lsm_open_def)

lemma sample_freeze [simp]: "imm_entries (mt_freeze (sample_table ps)) = sample_entries ps"
  by (simp add: mt_freeze_def sample_table_def)

lemma files_ok_Nil [simp]: "files_ok X []"
  by (simp add: files_ok_def sorted_sst_files_def)

theorem lsm_flush_preserves_witness:
  "let s = sample_state [(1, 9)] [[(1, 2)]] [] [Spawned 0 (sst_name 5)];
       s1 = flush_task_step plain_ext 0 s; s2 = flush_task_step plain_ext 0 s1
   in view plain_ext s1 = view plain_ext s \<and> view plain_ext s2 = view plain_ext s \<and>
      immutables s2 = [] \<and>
      (\<forall>k. disk plain_ext (lsm_files s2) k =
         or_else (imm_get (mt_freeze (sample_table [(1, 2)])) k) (disk plain_ext [] k)) \<and>
      lsm_wf plain_ext s2"
  using lsm_flush_preserves [of plain_ext "sample_state [(1, 9)] [[(1, 2)]] [] [Spawned 0 (sst_name 5)]"
      "mt_freeze (sample_table [(1, 2)])" "[]" 0 "sst_name 5"]
  by (simp add: sample_state_wf sample_sst_writable newest_name_sample sorted_sst_files_def Let_def
      del: disk_Nil)

text \<open>
  Concurrent flush tasks interfere. Two frozen memtables wait, each with its task; the tasks hold
  the indices 0 and 1 of the time they were started. The first runs to its end and removes the
  memtable at index 0; the second then finds nothing at index 1 and ends, so the second memtable is
  never written. Once the next memtable has been frozen and flushed, a lookup finds the record of
  the abandoned, older memtable before the newer record on disk.
\<close>

theorem lsm_flush_race:
  assumes wf: "lsm_wf X s" and imms: "immutables s = [i, j]"
    and tasks: "flush_tasks s = [Spawned 0 n0, Spawned 1 n1]"
    and new: "newest_name (lsm_files s) n0"
      "\<forall>f\<in>set (sorted_sst_files (lsm_files s) @ [n0]). f < sst_name ts"
    and wr: "sst_writable X (imm_entries i)" "sst_writable X (mt_inner (active s))"
    and vals: "imm_get j k = Some older" "mt_get (active s) k = Some newer"
  shows "let s1 = flush_task_step X 0 (flush_task_step X 0 (flush_task_step X 0 s));
             s2 = flush_task_step X 0 (flush_task_step X 0 (flush_begin ts s1))
         in immutables s1 = [j] \<and> flush_tasks s1 = [] \<and> raw X s1 k = Some newer \<and>
            flush_tasks s2 = [] \<and> raw X s2 k = Some older"
proof -
  define s0 where "s0 = flush_task_step X 0 (flush_task_step X 0 s)"
  have t0: "0 < length (flush_tasks s)" "flush_tasks s ! 0 = Spawned 0 n0" by (simp_all add: tasks)
  note f = flush_oldest [OF wf imms t0 new(1) wr(1), folded s0_def]
  define s1 where "s1 = flush_task_step X 0 s0"
  have "flush_tasks s0 = [Spawned 1 n1]" using f(6) by (simp add: tasks remove_at_def)
  then have s1: "s1 = s0\<lparr>flush_tasks := []\<rparr>"
    using f(3) by (simp add: s1_def flush_task_step_def remove_at_def)
  let ?b = "flush_begin ts s1"
  have b: "immutables ?b = [j, mt_freeze (active s)]" "flush_tasks ?b = [Spawned 1 (sst_name ts)]"
    using f(3,4) by (simp_all add: flush_begin_def s1)
  have "imm_wf (immutables ?b ! 1)" using wf b by (simp add: lsm_wf_def)
  then obtain content where
    "flush_task_step X 0 ?b = ?b\<lparr>lsm_files := bt_insert (sst_name ts) content (lsm_files ?b),
                                  flush_tasks := [Written 1]\<rparr>"
    using flush_write_step [of 0 ?b 1 "sst_name ts" X] b wr(2) by (auto simp: mt_freeze_def)
  then have s2: "immutables (flush_task_step X 0 (flush_task_step X 0 ?b)) = [j]"
    "active (flush_task_step X 0 (flush_task_step X 0 ?b)) = mt_new"
    "flush_tasks (flush_task_step X 0 (flush_task_step X 0 ?b)) = []"
    using b by (simp_all add: flush_task_step_def remove_at_def) (simp add: flush_begin_def)
  have "raw X s1 k = Some newer" using vals f(2) by (simp add: s1 raw_def fun_eq_iff f(4))
  moreover have "raw X (flush_task_step X 0 (flush_task_step X 0 ?b)) k = Some older"
    using vals s2 by (simp add: raw_def)
  ultimately show ?thesis
    using f(3) s1 s2(3) by (simp add: Let_def flip: s0_def s1_def)
qed

theorem lsm_flush_race_witness:
  "let s = sample_state [(1, 3)] [[(1, 1)], [(1, 2)]] [] [Spawned 0 (sst_name 5), Spawned 1 (sst_name 6)];
       s1 = flush_task_step plain_ext 0 (flush_task_step plain_ext 0 (flush_task_step plain_ext 0 s));
       s2 = flush_task_step plain_ext 0 (flush_task_step plain_ext 0 (flush_begin 7 s1))
   in raw plain_ext s1 (sample_key 1) = Some (sample_rec 3) \<and>
      raw plain_ext s2 (sample_key 1) = Some (sample_rec 2)"
proof -
  have v: "imm_get (mt_freeze (sample_table [(1, 2)])) (sample_key 1) = Some (sample_rec 2)"
    "mt_get (sample_table [(1, 3)]) (sample_key 1) = Some (sample_rec 3)"
    by (simp_all add: mt_get_def bt_get_def sample_table_def sample_entries_def)
  show ?thesis
    using lsm_flush_race [of plain_ext
        "sample_state [(1, 3)] [[(1, 1)], [(1, 2)]] [] [Spawned 0 (sst_name 5), Spawned 1 (sst_name 6)]"
        "mt_freeze (sample_table [(1, 1)])" "mt_freeze (sample_table [(1, 2)])" "sst_name 5" "sst_name 6" 7
        "sample_key 1" "sample_rec 2" "sample_rec 3"] v
    by (simp add: sample_state_wf sample_sst_writable newest_name_sample sorted_sst_files_def Let_def
        sst_name_less) (simp add: sample_table_def sample_sst_writable)
qed

subsection \<open>Compaction\<close>

text \<open>The record the segments \<open>fs\<close> hold for a key, the last segment first.\<close>

definition held :: "ext \<Rightarrow> lsm \<Rightarrow> string list \<Rightarrow> record_key \<Rightarrow> fun_record option" where
  "held X s fs = first_hit (\<lambda>f. sst_map (reader_of X (lsm_files s) f)) (rev fs)"

text \<open>
  C19: Compaction merges without loss when it cannot reorder. If no key of a selected segment also
  occurs in a newer segment that is not selected (in particular when all segments are selected), a
  compaction leaves every lookup unchanged and replaces the selected segments by one.
\<close>

theorem compaction_preserves:
  assumes "lsm_wf X s" and "newest_name (lsm_files s) (sst_name ts)"
    and "sst_writable X (merge_entries (merged_readers X s))"
    and split: "sorted_sst_files (lsm_files s) = old @ recent"
    and "old = select_files (lsm_policy s) (sorted_sst_files (lsm_files s))"
    and "2 \<le> length old"
    and apart: "\<forall>k. held X s old k = None \<or> held X s recent k = None"
  shows "snd (trigger_compaction X ts s) = None \<and>
         view X (fst (trigger_compaction X ts s)) = view X s \<and>
         sorted_sst_files (lsm_files (fst (trigger_compaction X ts s))) = recent @ [sst_name ts]"
proof -
  note c = trigger_compaction_disk [OF assms(1-6)]
  have "disk X (lsm_files (fst (trigger_compaction X ts s))) k = disk X (lsm_files s) k" for k
    using apart [rule_format, of k] unfolding c(3) disk_split [OF split] held_def by auto
  then show ?thesis using c(1,2,4,5) by (simp add: view_def raw_def fun_eq_iff)
qed

text \<open>A directory with one segment per name.\<close>

fun sample_dir :: "(nat \<times> (u8 \<times> u8) list) list \<Rightarrow> (string, bytes) btree_map" where
  "sample_dir [] = []"
| "sample_dir ((n, ps) # rest) = bt_insert (sst_name n) (segment ps) (sample_dir rest)"

fun dir_ok :: "(nat \<times> (u8 \<times> u8) list) list \<Rightarrow> bool" where
  "dir_ok [] = True"
| "dir_ok ((n, ps) # rest) \<longleftrightarrow>
     n < 10 ^ 30 \<and> (\<forall>m\<in>set (map fst rest). m < n) \<and> sorted (map fst ps) \<and> distinct (map fst ps) \<and>
     length ps < 2 ^ 32 \<and> dir_ok rest"

lemma sample_dir_props:
  "dir_ok nps \<Longrightarrow> files_ok plain_ext (sample_dir nps) \<and>
     sorted_sst_files (sample_dir nps) = rev (map (sst_name \<circ> fst) nps) \<and>
     (\<forall>(n, ps)\<in>set nps. n < 10 ^ 30 \<and> reader_of plain_ext (sample_dir nps) (sst_name n) = segment_reader ps)"
proof (induction nps)
  case Nil
  then show ?case by (simp add: sorted_sst_files_def)
next
  case (Cons np rest)
  obtain n ps where np: "np = (n, ps)" by (cases np)
  let ?d = "sample_dir rest"
  have IH: "files_ok plain_ext ?d" "sorted_sst_files ?d = rev (map (sst_name \<circ> fst) rest)"
    "\<forall>(n, ps)\<in>set rest. n < 10 ^ 30 \<and> reader_of plain_ext ?d (sst_name n) = segment_reader ps"
    using Cons np by auto
  have lt: "\<forall>(m, qs)\<in>set rest. m < n \<and> m < 10 ^ 30" and n: "n < 10 ^ 30"
    using Cons.prems IH(3) np by fastforce+
  then have new: "newest_name ?d (sst_name n)"
    by (fastforce simp: newest_name_def IH(2) sst_name_less)
  have "sorted (map fst ps)" "distinct (map fst ps)" "length ps < 2 ^ 32"
    using Cons.prems np by auto
  note seg = segment_open [OF this]
  have "files_ok plain_ext (sample_dir (np # rest))"
    using files_ok_insert [OF IH(1) new seg] np by simp
  moreover have "sorted_sst_files (sample_dir (np # rest)) = rev (map (sst_name \<circ> fst) (np # rest))"
    using sorted_sst_files_insert [OF _ new] IH(1,2) np by (simp add: files_ok_def)
  moreover have "reader_of plain_ext (sample_dir (np # rest)) (sst_name n) = segment_reader ps"
    using seg(1) np by (simp add: reader_of_def bt_get_insert)
  moreover have "reader_of plain_ext (sample_dir (np # rest)) (sst_name m) = segment_reader qs"
    if "(m, qs) \<in> set rest" for m qs
  proof -
    have "m < n" "m < 10 ^ 30" using lt that by auto
    then have "sst_name m \<noteq> sst_name n" using sst_name_less [of m n] n by auto
    then show ?thesis using IH(3) that np by (auto simp: reader_of_insert)
  qed
  ultimately show ?case using n np IH(3) by auto
qed

lemma sample_dir_reader:
  "dir_ok nps \<Longrightarrow> (n, ps) \<in> set nps \<Longrightarrow>
     reader_of plain_ext (sample_dir nps) (sst_name n) = segment_reader ps"
  using sample_dir_props [of nps] by blast

definition two_files :: "(nat \<times> (u8 \<times> u8) list) list" where
  "two_files = [(13, [(3, 3)]), (12, [(1, 2)]), (11, [(1, 1)])]"

definition clash_files :: "(nat \<times> (u8 \<times> u8) list) list" where
  "clash_files = [(13, [(1, 3)]), (12, [(1, 2)]), (11, [(1, 1)])]"

lemma sample_files_ok: "dir_ok two_files" "dir_ok clash_files"
  by (simp_all add: two_files_def clash_files_def)

lemma sample_files_wf:
  "lsm_wf plain_ext (sample_state [] [] (sample_dir two_files) [])"
  "lsm_wf plain_ext (sample_state [] [] (sample_dir clash_files) [])"
  using sample_files_ok [THEN sample_dir_props] by (intro sample_state_wf; simp)+

lemma sample_listing:
  "sorted_sst_files (sample_dir two_files) = [sst_name 11, sst_name 12] @ [sst_name 13]"
  "sorted_sst_files (sample_dir clash_files) = [sst_name 11, sst_name 12] @ [sst_name 13]"
  using sample_files_ok [THEN sample_dir_props] by (simp_all add: two_files_def clash_files_def)

lemma sample_readers:
  "reader_of plain_ext (sample_dir two_files) (sst_name 11) = segment_reader [(1, 1)]"
  "reader_of plain_ext (sample_dir two_files) (sst_name 12) = segment_reader [(1, 2)]"
  "reader_of plain_ext (sample_dir two_files) (sst_name 13) = segment_reader [(3, 3)]"
  "reader_of plain_ext (sample_dir clash_files) (sst_name 11) = segment_reader [(1, 1)]"
  "reader_of plain_ext (sample_dir clash_files) (sst_name 12) = segment_reader [(1, 2)]"
  "reader_of plain_ext (sample_dir clash_files) (sst_name 13) = segment_reader [(1, 3)]"
  by (rule sample_dir_reader [OF sample_files_ok(1)] sample_dir_reader [OF sample_files_ok(2)];
      simp add: two_files_def clash_files_def)+

lemma merge_samples:
  "merge_entries [segment_reader [(x, y)], segment_reader [(x, z)]] = sample_entries [(x, z)]"
  by (simp add: merge_entries_def segment_reader_def sample_entries_def)

lemma segment_map [simp]:
  "sst_map (segment_reader ps) = map_of (sample_entries ps)"
  by (rule HOL.ext) (simp add: sst_map_def segment_reader_def)

lemma sample_merge:
  "merged_readers plain_ext (sample_state act imms (sample_dir two_files) ts) =
     [segment_reader [(1, 1)], segment_reader [(1, 2)]]"
  "merged_readers plain_ext (sample_state act imms (sample_dir clash_files) ts) =
     [segment_reader [(1, 1)], segment_reader [(1, 2)]]"
  by (simp_all add: merged_readers_def sample_listing sample_readers)

lemma newest_sample_dir:
  "newest_name (sample_dir two_files) (sst_name 14)" "newest_name (sample_dir clash_files) (sst_name 14)"
  by (simp_all add: newest_name_sample sample_listing sst_name_less)

lemma sample_merge_writable:
  "sst_writable plain_ext (merge_entries (merged_readers plain_ext
     (sample_state act imms (sample_dir two_files) ts)))"
  "sst_writable plain_ext (merge_entries (merged_readers plain_ext
     (sample_state act imms (sample_dir clash_files) ts)))"
  by (simp_all add: sample_merge merge_samples sample_sst_writable)

theorem compaction_preserves_witness:
  "let s = sample_state [] [] (sample_dir two_files) [] in
     view plain_ext (fst (trigger_compaction plain_ext 14 s)) = view plain_ext s \<and>
     sorted_sst_files (lsm_files (fst (trigger_compaction plain_ext 14 s))) =
       [sst_name 13] @ [sst_name 14]"
proof -
  let ?s = "sample_state [] [] (sample_dir two_files) []"
  have list: "sorted_sst_files (lsm_files ?s) = [sst_name 11, sst_name 12] @ [sst_name 13]"
    by (simp add: sample_listing)
  have sel: "[sst_name 11, sst_name 12] = select_files (lsm_policy ?s) (sorted_sst_files (lsm_files ?s))"
    unfolding list by simp
  have apart: "\<forall>k. held plain_ext ?s [sst_name 11, sst_name 12] k = None \<or>
      held plain_ext ?s [sst_name 13] k = None"
    by (simp add: held_def sample_readers sample_entries_def)
  have new: "newest_name (lsm_files ?s) (sst_name 14)" by (simp add: newest_sample_dir)
  show ?thesis
    using compaction_preserves [OF sample_files_wf(1) new sample_merge_writable(1) list sel _ apart]
    by (simp add: Let_def)
qed

text \<open>
  Compaction can bring an older record back. The merged segment receives the newest name although
  its content is older than the segments that were not selected. For a key that the selected
  segments hold, every lookup on disk after the compaction returns their record, whatever newer
  record the other segments hold.
\<close>

theorem compaction_hides_newer:
  assumes "lsm_wf X s" and "newest_name (lsm_files s) (sst_name ts)"
    and "sst_writable X (merge_entries (merged_readers X s))"
    and "sorted_sst_files (lsm_files s) = old @ recent"
    and "old = select_files (lsm_policy s) (sorted_sst_files (lsm_files s))"
    and "2 \<le> length old"
    and stale: "held X s old k = Some older"
  shows "disk X (lsm_files (fst (trigger_compaction X ts s))) k = Some older"
  using trigger_compaction_disk(3) [OF assms(1-6)] stale by (simp add: held_def)

theorem compaction_hides_newer_witness:
  "let s = sample_state [] [] (sample_dir clash_files) [] in
     disk plain_ext (lsm_files s) (sample_key 1) = Some (sample_rec 3) \<and>
     disk plain_ext (lsm_files (fst (trigger_compaction plain_ext 14 s))) (sample_key 1) =
       Some (sample_rec 2)"
proof -
  let ?s = "sample_state [] [] (sample_dir clash_files) []"
  have list: "sorted_sst_files (lsm_files ?s) = [sst_name 11, sst_name 12] @ [sst_name 13]"
    by (simp add: sample_listing)
  have sel: "[sst_name 11, sst_name 12] = select_files (lsm_policy ?s) (sorted_sst_files (lsm_files ?s))"
    unfolding list by simp
  have stale: "held plain_ext ?s [sst_name 11, sst_name 12] (sample_key 1) = Some (sample_rec 2)"
    by (simp add: held_def sample_readers sample_entries_def)
  have new: "newest_name (lsm_files ?s) (sst_name 14)" by (simp add: newest_sample_dir)
  have before: "disk plain_ext (lsm_files ?s) (sample_key 1) = Some (sample_rec 3)"
    using list by (simp add: disk_def sample_readers sample_entries_def)
  show ?thesis
    using compaction_hides_newer [OF sample_files_wf(2) new sample_merge_writable(2) list sel _ stale] before
    by (simp add: Let_def)
qed

text \<open>
  Segment names order segments by age: for time stamps below \<open>10 ^ 30\<close> nanoseconds the
  zero-padded names compare as their time stamps, so the sorted directory lists the oldest first.
\<close>

theorem sst_name_order:
  assumes "a < 10 ^ 30" and "b < 10 ^ 30"
  shows "(sst_name a < sst_name b \<longleftrightarrow> a < b) \<and> extension (sst_name a) = Some ''sst''"
  using assms by (simp_all add: sst_name_less)

theorem sst_name_order_witness:
  "sst_name 999 < sst_name 1000"
  using sst_name_order [of 999 1000] by simp

end
