(* ===== verification/Mvcc.thy ===== *)
theory Mvcc
  imports Ordered_Map Record_Types
begin

text \<open>
  The bitemporal version store, \<open>crates/fundb-storage/src/mvcc.rs\<close>. Every key has the list of its
  versions in the order they were written; the clock reading of \<open>begin_txn\<close> is an argument. Each
  operation holds the lock throughout, so it is one step; the lock is never poisoned.
\<close>

record transaction =
  txn_id :: nat
  snapshot_ts :: timestamp

record versioned_record =
  sys_from :: timestamp
  sys_to :: timestamp
  valid_from :: timestamp
  valid_to :: timestamp
  v_record :: fun_record

record mvcc_store =
  mv_inner :: "(record_key, versioned_record list) btree_map"
  next_txn :: nat

definition mvcc_new :: mvcc_store where
  "mvcc_new = \<lparr>mv_inner = [], next_txn = 1\<rparr>"

definition begin_txn :: "timestamp \<Rightarrow> mvcc_store \<Rightarrow> transaction \<times> mvcc_store" where
  "begin_txn now s =
     (\<lparr>txn_id = next_txn s, snapshot_ts = now\<rparr>, s\<lparr>next_txn := u64_succ (next_txn s)\<rparr>)"

definition record_key_of :: "fun_record \<Rightarrow> record_key" where
  "record_key_of r = RecordKey (rec_collection r) (rec_id r)"

text \<open>\<open>iter_mut().find(|v| v.sys_to == i64::MAX)\<close> and the assignment to what it finds.\<close>

fun supersede :: "timestamp \<Rightarrow> versioned_record list \<Rightarrow> versioned_record list" where
  "supersede ts [] = []"
| "supersede ts (v # vs) =
     (if sys_to v = i64_max then v\<lparr>sys_to := ts\<rparr> # vs else v # supersede ts vs)"

definition new_version :: "timestamp \<Rightarrow> fun_record \<Rightarrow> versioned_record" where
  "new_version ts r = \<lparr>sys_from = ts, sys_to = i64_max, valid_from = rec_valid_from r,
     valid_to = rec_valid_to r, v_record = r\<rparr>"

definition versions_of :: "mvcc_store \<Rightarrow> record_key \<Rightarrow> versioned_record list" where
  "versions_of s k = (case bt_get (mv_inner s) k of None \<Rightarrow> [] | Some vs \<Rightarrow> vs)"

definition mvcc_write :: "transaction \<Rightarrow> fun_record \<Rightarrow> mvcc_store \<Rightarrow> mvcc_store" where
  "mvcc_write txn r s =
     (let key = record_key_of r;
          versions = supersede (snapshot_ts txn) (versions_of s key)
      in s\<lparr>mv_inner :=
             bt_insert key (versions @ [new_version (snapshot_ts txn) r]) (mv_inner s)\<rparr>)"

definition live_at :: "timestamp \<Rightarrow> versioned_record \<Rightarrow> bool" where
  "live_at ts v \<longleftrightarrow> sys_from v \<le> ts \<and> ts < sys_to v"

definition read_as_of_system :: "mvcc_store \<Rightarrow> record_key \<Rightarrow> timestamp \<Rightarrow> fun_record option" where
  "read_as_of_system s k ts =
     (case bt_get (mv_inner s) k of
        None \<Rightarrow> None
      | Some vs \<Rightarrow> map_option v_record (List.find (live_at ts) vs))"

definition read_as_of_valid ::
  "mvcc_store \<Rightarrow> record_key \<Rightarrow> timestamp \<Rightarrow> timestamp \<Rightarrow> fun_record list" where
  "read_as_of_valid s k from to =
     (case bt_get (mv_inner s) k of
        None \<Rightarrow> []
      | Some vs \<Rightarrow> map v_record (filter (\<lambda>v. valid_from v < to \<and> valid_to v > from) vs))"

definition mvcc_commit :: "transaction \<Rightarrow> mvcc_store \<Rightarrow> mvcc_store" where
  "mvcc_commit _ s = s"

text \<open>The loop of \<open>gc\<close> over the values of the map, with its counter.\<close>

fun gc_loop :: "timestamp \<Rightarrow> (record_key, versioned_record list) btree_map \<Rightarrow> nat \<Rightarrow>
    nat \<times> (record_key, versioned_record list) btree_map" where
  "gc_loop before_ts [] deleted = (deleted, [])"
| "gc_loop before_ts ((k, vs) # m) deleted =
     (let kept = filter (\<lambda>v. sys_to v \<ge> before_ts) vs;
          (d, m') = gc_loop before_ts m (deleted + (length vs - length kept))
      in (d, (k, kept) # m'))"

definition mvcc_gc :: "timestamp \<Rightarrow> mvcc_store \<Rightarrow> nat \<times> mvcc_store" where
  "mvcc_gc before_ts s =
     (let (d, m) = gc_loop before_ts (mv_inner s) 0 in (d, s\<lparr>mv_inner := m\<rparr>))"

subsection \<open>Reads of one version list\<close>

definition read_versions :: "versioned_record list \<Rightarrow> timestamp \<Rightarrow> fun_record option" where
  "read_versions vs ts = map_option v_record (List.find (live_at ts) vs)"

lemma read_as_of_versions: "read_as_of_system s k ts = read_versions (versions_of s k) ts"
  by (simp add: read_as_of_system_def read_versions_def versions_of_def split: option.splits)

lemma versions_of_new [simp]: "versions_of mvcc_new k = []"
  by (simp add: versions_of_def mvcc_new_def)

lemma versions_of_begin [simp]: "versions_of (snd (begin_txn t s)) k = versions_of s k"
  by (simp add: versions_of_def begin_txn_def)

lemma versions_of_write:
  "versions_of (mvcc_write txn r s) k =
     (if k = record_key_of r
      then supersede (snapshot_ts txn) (versions_of s k) @ [new_version (snapshot_ts txn) r]
      else versions_of s k)"
  by (simp add: mvcc_write_def Let_def versions_of_def bt_get_insert)

lemma find_append:
  "List.find P (xs @ ys) = (case List.find P xs of Some x \<Rightarrow> Some x | None \<Rightarrow> List.find P ys)"
  by (induction xs) auto

lemma read_versions_append:
  "read_versions (vs @ ws) ts =
     (case read_versions vs ts of Some r \<Rightarrow> Some r | None \<Rightarrow> read_versions ws ts)"
  by (simp add: read_versions_def find_append split: option.splits)

lemma read_versions_Cons:
  "read_versions (v # vs) ts = (if live_at ts v then Some (v_record v) else read_versions vs ts)"
  by (simp add: read_versions_def)

lemma read_versions_Nil [simp]: "read_versions [] ts = None"
  by (simp add: read_versions_def)

text \<open>Superseding at \<open>ts\<close> is invisible to a read before \<open>ts\<close>.\<close>

lemma read_supersede_before: "q < ts \<Longrightarrow> q < i64_max \<Longrightarrow>
    read_versions (supersede ts vs) q = read_versions vs q"
  by (induction ts vs rule: supersede.induct) (auto simp: read_versions_Cons live_at_def)

lemma read_supersede_max: "q \<ge> i64_max \<Longrightarrow> ts \<le> i64_max \<Longrightarrow>
    read_versions (supersede ts vs) q = read_versions vs q"
  by (induction ts vs rule: supersede.induct) (auto simp: read_versions_Cons live_at_def)

lemma snapshot_isolation:
  assumes "q < snapshot_ts txn" and "snapshot_ts txn \<le> i64_max"
  shows "read_as_of_system (mvcc_write txn r s) k q = read_as_of_system s k q"
  using assms
  by (auto simp: read_as_of_versions versions_of_write read_versions_append
      read_supersede_before read_versions_Cons live_at_def new_version_def split: option.splits)

subsection \<open>The version chain of writes in timestamp order\<close>

text \<open>
  \<open>chain ts vs\<close>: the versions are consecutive, none reaches past \<open>ts\<close> except the last, which is
  current and started by \<open>ts\<close>.
\<close>

fun chain :: "timestamp \<Rightarrow> versioned_record list \<Rightarrow> bool" where
  "chain ts [] = True"
| "chain ts [v] = (sys_to v = i64_max \<and> sys_from v \<le> ts)"
| "chain ts (v # w # vs) = (sys_to v < i64_max \<and> sys_to v \<le> ts \<and> chain ts (w # vs))"

lemma chain_mono: "chain ts vs \<Longrightarrow> ts \<le> ts' \<Longrightarrow> chain ts' vs"
  by (induction ts vs rule: chain.induct) auto

lemma chain_closed:
  "chain ts vs \<Longrightarrow> ts < i64_max \<Longrightarrow> \<forall>v\<in>set (supersede ts vs). sys_to v \<le> ts"
  by (induction ts vs rule: chain.induct) auto

lemma chain_append_current:
  "\<forall>v\<in>set vs. sys_to v \<le> ts \<Longrightarrow> ts < i64_max \<Longrightarrow> sys_to w = i64_max \<Longrightarrow> sys_from w \<le> ts \<Longrightarrow>
     chain ts (vs @ [w])"
proof (induction vs)
  case (Cons v vs)
  then show ?case by (cases vs) auto
qed simp

lemma chain_write:
  "chain ts0 vs \<Longrightarrow> ts0 \<le> ts \<Longrightarrow> ts < i64_max \<Longrightarrow> chain ts (supersede ts vs @ [new_version ts r])"
  by (rule chain_append_current [OF chain_closed [OF chain_mono]]) (simp_all add: new_version_def)

lemma read_closed: "\<forall>v\<in>set vs. sys_to v \<le> ts \<Longrightarrow> ts \<le> q \<Longrightarrow> read_versions vs q = None"
  by (induction vs) (auto simp: read_versions_Cons live_at_def)

lemma read_after_write:
  assumes "chain ts0 vs" and "ts0 \<le> ts" and "ts < i64_max" and "ts \<le> q" and "q < i64_max"
  shows "read_versions (supersede ts vs @ [new_version ts r]) q = Some r"
proof -
  have "\<forall>v\<in>set (supersede ts vs). sys_to v \<le> ts"
    by (rule chain_closed [OF chain_mono [OF assms(1,2)] assms(3)])
  with assms show ?thesis
    by (simp add: read_versions_append read_closed read_versions_Cons live_at_def new_version_def)
qed

subsection \<open>The abstract specification: a history of timestamped writes\<close>

type_synonym history = "(timestamp \<times> fun_record) list"

text \<open>The record of the last write of the key at or before \<open>q\<close>.\<close>

definition as_of :: "history \<Rightarrow> record_key \<Rightarrow> timestamp \<Rightarrow> fun_record option" where
  "as_of h k q = map_option snd (List.find (\<lambda>(t, r). t \<le> q \<and> record_key_of r = k) (rev h))"

fun mvcc_replay :: "history \<Rightarrow> mvcc_store \<Rightarrow> mvcc_store" where
  "mvcc_replay [] s = s"
| "mvcc_replay ((t, r) # h) s =
     (let (txn, s1) = begin_txn t s in mvcc_replay h (mvcc_commit txn (mvcc_write txn r s1)))"

definition write_at :: "timestamp \<times> fun_record \<Rightarrow> mvcc_store \<Rightarrow> mvcc_store" where
  "write_at w s = (let (txn, s1) = begin_txn (fst w) s in mvcc_write txn (snd w) s1)"

lemma mvcc_replay_append:
  "mvcc_replay (h @ [w]) s = write_at w (mvcc_replay h s)"
  by (induction h s rule: mvcc_replay.induct; cases w)
    (auto simp: write_at_def begin_txn_def mvcc_commit_def Let_def split: prod.splits)

lemma versions_of_write_at:
  "versions_of (write_at (t, r) s) k =
     (if k = record_key_of r then supersede t (versions_of s k) @ [new_version t r]
      else versions_of s k)"
  by (simp add: write_at_def begin_txn_def versions_of_write)
    (simp add: versions_of_def)

lemma as_of_append:
  "as_of (h @ [(t, r)]) k q = (if t \<le> q \<and> record_key_of r = k then Some r else as_of h k q)"
  by (simp add: as_of_def)

lemma replay_refines:
  assumes "sorted (map fst h)" and "\<forall>w\<in>set h. fst w < i64_max" and "q < i64_max"
  shows "(\<forall>t \<ge> (if h = [] then 0 else fst (last h)). chain t (versions_of (mvcc_replay h mvcc_new) k)) \<and>
    read_as_of_system (mvcc_replay h mvcc_new) k q = as_of h k q"
  using assms
proof (induction h rule: rev_induct)
  case Nil
  then show ?case by (simp add: read_as_of_versions as_of_def)
next
  case (snoc w h)
  obtain t r where w: "w = (t, r)" by (cases w)
  let ?s = "mvcc_replay h mvcc_new"
  let ?t0 = "if h = [] then t else fst (last h)"
  have t: "t < i64_max" "?t0 \<le> t"
    using snoc.prems w by (auto simp: sorted_append)
  have IH: "chain ?t0 (versions_of ?s k)"
    "read_versions (versions_of ?s k) q = as_of h k q"
    using snoc by (auto simp: sorted_append read_as_of_versions)
  have ver: "versions_of (mvcc_replay (h @ [(t, r)]) mvcc_new) k =
      (if k = record_key_of r then supersede t (versions_of ?s k) @ [new_version t r]
       else versions_of ?s k)"
    by (simp add: mvcc_replay_append versions_of_write_at)
  have "chain t' (versions_of (mvcc_replay (h @ [(t, r)]) mvcc_new) k)" if "t \<le> t'" for t'
    using chain_write [OF IH(1) t(2) t(1), of r] chain_mono [OF IH(1)] t that
    by (auto simp: ver intro: chain_mono)
  moreover have "read_versions (versions_of (mvcc_replay (h @ [(t, r)]) mvcc_new) k) q =
      as_of (h @ [(t, r)]) k q"
  proof (cases "k = record_key_of r \<and> t \<le> q")
    case True
    then show ?thesis
      using read_after_write [OF IH(1) t(2) t(1) _ snoc.prems(3), of r]
      unfolding ver as_of_append by simp
  next
    case False
    then show ?thesis
      using IH(2) snoc.prems(3)
      by (auto simp: ver as_of_append read_versions_append read_supersede_before
          read_versions_Cons live_at_def new_version_def split: option.splits)
  qed
  ultimately show ?case by (simp add: w read_as_of_versions)
qed

subsection \<open>Garbage collection\<close>

lemma gc_loop_acc: "gc_loop b m d =
    (d + sum_list (map (\<lambda>(_, vs). length vs - length (filter (\<lambda>v. sys_to v \<ge> b) vs)) m),
     map (\<lambda>(k, vs). (k, filter (\<lambda>v. sys_to v \<ge> b) vs)) m)"
proof (induction b m d rule: gc_loop.induct)
  case (2 b k vs m d)
  then show ?case
    using length_filter_le [of "\<lambda>v. sys_to v \<ge> b" vs]
    by (simp add: Let_def del: length_filter_le)
qed simp

lemma versions_of_gc:
  "versions_of (snd (mvcc_gc b s)) k = filter (\<lambda>v. sys_to v \<ge> b) (versions_of s k)"
proof -
  have "map_of (map (\<lambda>(k, vs). (k, f vs)) m) k = map_option f (map_of m k)"
    for f :: "versioned_record list \<Rightarrow> versioned_record list" and m
    by (induction m) auto
  then show ?thesis
    by (simp add: mvcc_gc_def gc_loop_acc versions_of_def bt_get_def split: option.splits)
qed

lemma read_gc: "b \<le> q \<Longrightarrow> read_versions (filter (\<lambda>v. sys_to v \<ge> b) vs) q = read_versions vs q"
  by (induction vs) (auto simp: read_versions_Cons live_at_def)

end
