(* ===== verification/Temporal_Index.thy ===== *)
theory Temporal_Index
  imports Record_Types
begin

text \<open>The temporal index of \<open>crates/fundb-indexes/src/temporal.rs\<close>: a list of half-open intervals.\<close>

record interval =
  iv_id :: uuid
  iv_from :: timestamp
  iv_to :: timestamp

record temporal_index =
  intervals :: "interval list"

definition ti_new :: temporal_index where
  "ti_new = \<lparr>intervals = []\<rparr>"

definition ti_insert :: "uuid \<Rightarrow> timestamp \<Rightarrow> timestamp \<Rightarrow> temporal_index \<Rightarrow> temporal_index" where
  "ti_insert uid from to t =
     t\<lparr>intervals := intervals t @ [\<lparr>iv_id = uid, iv_from = from, iv_to = to\<rparr>]\<rparr>"

definition point_query :: "temporal_index \<Rightarrow> timestamp \<Rightarrow> uuid list" where
  "point_query t at = map iv_id (filter (\<lambda>iv. iv_from iv \<le> at \<and> at < iv_to iv) (intervals t))"

definition range_query :: "temporal_index \<Rightarrow> timestamp \<Rightarrow> timestamp \<Rightarrow> uuid list" where
  "range_query t from to =
     map iv_id (filter (\<lambda>iv. iv_from iv < to \<and> iv_to iv > from) (intervals t))"

definition ti_delete :: "uuid \<Rightarrow> temporal_index \<Rightarrow> temporal_index" where
  "ti_delete uid t = t\<lparr>intervals := filter (\<lambda>iv. iv_id iv \<noteq> uid) (intervals t)\<rparr>"

definition ti_len :: "temporal_index \<Rightarrow> nat" where
  "ti_len t = length (intervals t)"

definition ti_is_empty :: "temporal_index \<Rightarrow> bool" where
  "ti_is_empty t \<longleftrightarrow> intervals t = []"

text \<open>An interval that contains a point of the window is in the range query.\<close>

lemma point_in_range:
  "set (point_query t at) \<subseteq> set (range_query t from to)" if "from \<le> at" and "at < to"
  using that by (auto simp: point_query_def range_query_def)

lemma range_query_unit: "range_query t at (at + 1) = point_query t at"
  unfolding range_query_def point_query_def
  by (rule arg_cong [where f = "map iv_id"], rule filter_cong) auto

lemma point_query_delete:
  "point_query (ti_delete uid t) at = filter (\<lambda>i. i \<noteq> uid) (point_query t at)"
  by (auto simp: point_query_def ti_delete_def filter_map o_def intro!: arg_cong [where f = "map iv_id"]
      filter_cong)

lemma range_query_delete:
  "range_query (ti_delete uid t) from to = filter (\<lambda>i. i \<noteq> uid) (range_query t from to)"
  by (auto simp: range_query_def ti_delete_def filter_map o_def intro!: arg_cong [where f = "map iv_id"]
      filter_cong)

end
