(* ===== verification/Engine_Properties.thy ===== *)
theory Engine_Properties
  imports Storage_Properties Mvcc Temporal_Index
begin

text \<open>
  The properties of the single components of the storage engine: log, segments, Bloom filter, block
  cache, version store and temporal index.
\<close>

subsection \<open>Write-ahead log\<close>

text \<open>
  C20: The log returns what was appended. Appending any encodable entries to a fresh log succeeds,
  hands out the sequence numbers 1, 2, 3, ...; recovery of the file yields exactly the entries in
  order, and a log reopened on the file continues after the last sequence number.
\<close>

theorem wal_roundtrip:
  assumes es: "\<forall>e\<in>set es. writable X e" and len: "length es < 2 ^ 64"
  shows "\<exists>w. wal_append_all X es (wal_open X None) = Inr (w, [1..<Suc (length es)]) \<and>
             recover X (wal_file w) = es \<and> current_lsn (wal_open X (Some (wal_file w))) = length es"
proof -
  have w0: "current_lsn (wal_open X None) = 0" "wal_file (wal_open X None) = []"
    by (simp_all add: wal_open_def)
  obtain w lsns where w: "wal_append_all X es (wal_open X None) = Inr (w, lsns)"
    "wal_file w = log_bytes X es"
    using wal_append_all_file [OF es, of "wal_open X None"] w0 by auto
  have "recover X (wal_file w) = es"
    using recover_log [OF es, of "[]"] w(2) by simp
  moreover have "lsns = [1..<Suc (length es)]"
    using wal_append_all_lsns [OF es _ w(1)] w0 len by simp
  ultimately show ?thesis
    using w count_valid_entries_eq [of 0 X "wal_file w"] len by (simp add: wal_open_def)
qed

theorem wal_roundtrip_witness:
  "let es = [WalWrite 0 (sample_key 1) (sample_rec 2), TxnCommit 0] in
     \<exists>w. wal_append_all plain_ext es (wal_open plain_ext None) = Inr (w, [1..<Suc (length es)]) \<and>
       recover plain_ext (wal_file w) = es \<and>
       current_lsn (wal_open plain_ext (Some (wal_file w))) = length es"
  unfolding Let_def by (rule wal_roundtrip) simp_all

lemma wal_append_all_append:
  "wal_append_all X (es @ fs) w =
     (case wal_append_all X es w of
        Inl err \<Rightarrow> Inl err
      | Inr (w1, ls) \<Rightarrow>
          (case wal_append_all X fs w1 of Inl err \<Rightarrow> Inl err | Inr (w2, ms) \<Rightarrow> Inr (w2, ls @ ms)))"
  by (induction es arbitrary: w) (auto split: sum.splits)

lemma wal_synced_append_all:
  "\<forall>e\<in>set es. writable X e \<and> \<not> is_commit e \<Longrightarrow> wal_append_all X es w = Inr (w', ls) \<Longrightarrow>
     wal_synced w' = wal_synced w"
proof (induction es arbitrary: w ls)
  case (Cons e es)
  then show ?case by (auto simp: wal_append_Inr split: sum.splits)
qed simp

text \<open>
  A commit is durable. Whatever was appended before the last commit entry, and however much
  follows it without another commit, the part of the file that was synced to disk recovers to
  exactly the entries up to and including the commit, and so it does with any torn frame behind it.
\<close>

theorem wal_commit_durable:
  assumes es: "\<forall>e\<in>set es. writable X e" and c: "writable X (TxnCommit t)"
    and fs: "\<forall>e\<in>set fs. writable X e \<and> \<not> is_commit e"
    and torn: "writable X e" "entry_bytes X e = frag @ rest" "rest \<noteq> []"
  shows "\<exists>w ls. wal_append_all X (es @ [TxnCommit t] @ fs) (wal_open X None) = Inr (w, ls) \<and>
           recover X (take (wal_synced w) (wal_file w)) = es @ [TxnCommit t] \<and>
           recover X (take (wal_synced w) (wal_file w) @ frag) = es @ [TxnCommit t]"
proof -
  let ?log = "log_bytes X (es @ [TxnCommit t])"
  have ec: "\<forall>e\<in>set (es @ [TxnCommit t]). writable X e" using es c by auto
  obtain w0 l0 where w0: "wal_append_all X es (wal_open X None) = Inr (w0, l0)"
    "wal_file w0 = log_bytes X es"
    using wal_append_all_file [OF es, of "wal_open X None"] by (auto simp: wal_open_def)
  obtain w1 l1 where w1: "wal_append_all X [TxnCommit t] w0 = Inr (w1, l1)"
    "wal_file w1 = ?log" "wal_synced w1 = length ?log"
    using c w0(2) by (simp add: wal_append_Inr)
  have "\<forall>e\<in>set fs. writable X e" using fs by blast
  then obtain w2 l2 where w2: "wal_append_all X fs w1 = Inr (w2, l2)"
    "wal_file w2 = ?log @ log_bytes X fs"
    using wal_append_all_file [of fs X w1] w1(2) by auto
  have "wal_synced w2 = length ?log" using wal_synced_append_all [OF fs w2(1)] w1(3) by simp
  then have tk: "take (wal_synced w2) (wal_file w2) = ?log" using w2(2) by simp
  have rec: "recover X (?log @ tail) = (es @ [TxnCommit t]) @ recover X tail" for tail
    using ec by (rule recover_log)
  have "wal_append_all X (es @ [TxnCommit t] @ fs) (wal_open X None) = Inr (w2, l0 @ l1 @ l2)"
    unfolding wal_append_all_append w0(1) sum.case prod.case w1(1) w2(1) ..
  then show ?thesis
    using rec [of "[]"] rec [of frag] recover_torn [OF torn] tk by auto
qed

theorem wal_commit_durable_witness:
  "\<exists>w ls. wal_append_all plain_ext
             ([WalWrite 0 (sample_key 1) (sample_rec 2)] @ [TxnCommit 0] @ [WalDelete 0 (sample_key 1)])
             (wal_open plain_ext None) = Inr (w, ls) \<and>
     recover plain_ext (take (wal_synced w) (wal_file w)) =
       [WalWrite 0 (sample_key 1) (sample_rec 2)] @ [TxnCommit 0] \<and>
     recover plain_ext (take (wal_synced w) (wal_file w)
         @ take 5 (entry_bytes plain_ext (WalWrite 0 (sample_key 1) (sample_rec 2)))) =
       [WalWrite 0 (sample_key 1) (sample_rec 2)] @ [TxnCommit 0]"
  by (rule wal_commit_durable [where e = "WalWrite 0 (sample_key 1) (sample_rec 2)"
        and rest = "drop 5 (entry_bytes plain_ext (WalWrite 0 (sample_key 1) (sample_rec 2)))"])
    (simp_all add: length_sample_entry)

subsection \<open>Segments\<close>

text \<open>
  C21: A segment answers like the records it was written from. Records with distinct keys are added
  to a writer in any order; \<open>finish\<close> produces a file that opens to the reader it returns, and the
  reader, through Bloom filter and binary search, returns for every key the record added for it, and
  for every range the records of the range in key order.
\<close>

theorem sstable_roundtrip:
  assumes wr: "sst_writable X es" and dist: "distinct (map fst es)"
  shows "\<exists>fl r. sw_finish X (fold (\<lambda>(k, r). sw_add k r) es sw_new) = Inr (fl, r) \<and>
           sst_open X fl = Inr r \<and> (\<forall>k. sst_get X r k = Inr (map_of es k)) \<and>
           (\<forall>lo hi. sst_range r lo hi = filter (\<lambda>p. lo \<le> fst p \<and> fst p \<le> hi) (sort_key fst es)) \<and>
           sst_len r = length es"
proof -
  let ?w = "fold (\<lambda>(k, r). sw_add k r) es sw_new"
  have w: "sw_entries ?w = es" by (simp add: sw_entries_fold sw_new_def)
  obtain fl r where r: "sw_finish X ?w = Inr (fl, r)" "sst_open X fl = Inr r"
    "sst_entries r = sort_key fst es" "reader_ok X r"
    using sw_finish_reader [of X ?w] wr dist w by auto
  have "sst_get X r k = Inr (map_of es k)" for k
    using sst_get_map_of [OF r(4)] r(3) dist by (simp add: map_of_sort_key)
  moreover have "sst_wf r" using r(4) by (simp add: sst_wf_def reader_ok_def)
  then have "sst_range r lo hi = filter (\<lambda>p. lo \<le> fst p \<and> fst p \<le> hi) (sort_key fst es)" for lo hi
    by (simp add: sst_range_filter r(3))
  ultimately show ?thesis using r by (auto simp: sst_len_def)
qed

theorem sstable_roundtrip_witness:
  "\<exists>fl r. sw_finish plain_ext
             (fold (\<lambda>(k, r). sw_add k r) (sample_entries [(5, 1), (2, 7), (9, 4)]) sw_new) = Inr (fl, r) \<and>
     sst_open plain_ext fl = Inr r \<and>
     (\<forall>k. sst_get plain_ext r k = Inr (map_of (sample_entries [(5, 1), (2, 7), (9, 4)]) k)) \<and>
     (\<forall>lo hi. sst_range r lo hi = filter (\<lambda>p. lo \<le> fst p \<and> fst p \<le> hi)
        (sort_key fst (sample_entries [(5, 1), (2, 7), (9, 4)]))) \<and>
     sst_len r = length (sample_entries [(5, 1), (2, 7), (9, 4)])"
  by (rule sstable_roundtrip) (simp_all add: sample_sst_writable map_fst_sample_entries)

text \<open>
  C22: Merging keeps the newest record of every key. The merge of segments given oldest first, when
  its result can be written, opens again and returns for every key the record of the last input
  that holds the key, and nothing for a key no input holds.
\<close>

theorem merge_sstables_newest:
  assumes wr: "sst_writable X (merge_entries rs)" and wf: "\<forall>r\<in>set rs. sst_wf r"
  shows "\<exists>fl r. merge_sstables X rs = Inr (fl, r) \<and> sst_open X fl = Inr r \<and>
           (\<forall>k. sst_get X r k = Inr (first_hit sst_map (rev rs) k))"
proof -
  obtain fl r where r: "merge_sstables X rs = Inr (fl, r)" "sst_open X fl = Inr r"
    "sst_entries r = merge_entries rs" "reader_ok X r"
    using wr by (rule merge_sstables_reader) blast
  then show ?thesis
    using sst_get_map_of [OF r(4)] merge_newest_wins [OF wf] by auto
qed

theorem merge_sstables_newest_witness:
  "\<exists>fl r. merge_sstables plain_ext [segment_reader [(1, 1)], segment_reader [(1, 2)]] = Inr (fl, r) \<and>
     sst_open plain_ext fl = Inr r \<and>
     (\<forall>k. sst_get plain_ext r k =
        Inr (first_hit sst_map (rev [segment_reader [(1, 1)], segment_reader [(1, 2)]]) k))"
  by (rule merge_sstables_newest)
    (simp_all only: merge_samples, simp_all add: sample_sst_writable sst_wf_def bt_inv_def
      segment_reader_def map_fst_sample_entries)

subsection \<open>Bloom filter\<close>

text \<open>
  C23: The Bloom filter has no false negatives and does not panic: a filter sized for a positive
  capacity and a rate of the unit interval, whose number of bits stays below the end of usize, accepts
  any keys, afterwards reports every inserted key as possibly present, and answers every query. The hash
  functions and the logarithm are arbitrary.
\<close>

theorem bloom_no_false_negative:
  assumes "sizable ln capacity fpr"
  shows "\<exists>f g. bloom_new ln capacity fpr = Some f \<and> bloom_insert_all H keys f = Some g \<and>
           (\<forall>key\<in>set keys. bloom_contains H g key = Some True) \<and>
           (\<forall>key. bloom_contains H g key \<noteq> None)"
proof -
  obtain f where f: "bloom_new ln capacity fpr = Some f" "bits f \<noteq> []"
    using bloom_new_sizable [OF assms] by blast
  then obtain g where g: "bloom_insert_all H keys f = Some g" by (blast dest: bloom_insert_all_total)
  then have "bits g \<noteq> []" using f(2) bloom_insert_all_le [OF g] by (auto simp: bits_le_def)
  then have "bloom_contains H g key \<noteq> None" for key
    using bloom_contains_loop_total unfolding bloom_contains_def by blast
  then show ?thesis using f(1) g bloom_insert_all_contains [OF g] by blast
qed

text \<open>The logarithms of 2 and of 0.01 as f64, minus infinity for zero.\<close>

definition sample_ln :: "f64 \<Rightarrow> f64" where
  "sample_ln x =
     (if x = f64_two then 0x3FE62E42FEFA39EF
      else if x = 0x3F847AE147AE147B then 0xC0126BB1BBB55516 else f64_infinity True)"

lemmas f64_eval =
  f64_mul_def f64_neg_def f64_ceil_def f64_round_def f64_as_nat_def f64_val_def f64_bits_def decode_def
  encode_def round_ratio_def round_int_def int_as_f64_def scale_def nearest_even_def trunc_mag_def
  is_integral_def signed_def Let_def bitlen.simps u64_max_def

lemmas f64_order =
  f64_le_def f64_lt_def fp_le_def fp_lt_def is_nan_def magnitude_def order_key_def signed_def f64_one_def

lemma sample_ln_values:
  "sample_ln f64_two = 0x3FE62E42FEFA39EF" "sample_ln 0x3F847AE147AE147B = 0xC0126BB1BBB55516"
  "sample_ln 0 = 0xFFF0000000000000"
  by (simp_all add: sample_ln_def f64_two_def f64_infinity_def f64_bits_def encode_def)

lemma round_ratio_by:
  assumes "num \<noteq> 0" and "t = int (bitlen num) - int (bitlen den) + x - int (prec F)"
    and "scale num den (x - t) = (n0, d0)"
    and "e = max (emin F) (if 2 ^ prec F \<le> n0 div d0 then t + 1 else t)"
    and "q = nearest_even (scale num den (x - e))" and "q \<noteq> 2 ^ prec F" and "e \<le> emax F"
  shows "round_ratio F s num den x = FFin s q e"
  using assms(1,6,7)
  unfolding round_ratio_def Let_def assms(2) [symmetric] assms(3) prod.case assms(4) [symmetric]
    assms(5) [symmetric]
  by simp

text \<open>The quotient of \<open>- 3 * ln 0.01\<close> and \<open>ln 2 * ln 2\<close> rounds to 28.755: 29 bits.\<close>

lemma sample_quotient:
  "round_ratio Binary64 False 7777441025097633 8655072057804174 5 = FFin False 8093862250619336 (- 48)"
proof (rule round_ratio_by)
  have d: "(70052961005051416814834927271936::nat) div 8655072057804174 = 8093862250619335" by simp
  show "scale 7777441025097633 8655072057804174 (5 - (- 48)) =
      (70052961005051416814834927271936, 8655072057804174)"
    by (simp add: scale_def)
  show "- 48 = max (emin Binary64) (if 2 ^ prec Binary64 \<le>
      70052961005051416814834927271936 div (8655072057804174::nat) then - 48 + 1 else - 48)"
    unfolding d by simp
  show "8093862250619336 = nearest_even (scale 7777441025097633 8655072057804174 (5 - (- 48)))"
    by (simp add: scale_def nearest_even_def)
qed (simp_all add: bitlen.simps)

lemma sample_division: "f64_div 0x402BA18A998FFFA1 0x3FDEBFBDFF82C58E = 0x403CC153284F21C8"
proof -
  have "f64_val 0x402BA18A998FFFA1 = FFin False 7777441025097633 (- 49)"
    "f64_val 0x3FDEBFBDFF82C58E = FFin False 8655072057804174 (- 54)"
    by (simp_all add: f64_val_def decode_def)
  then show ?thesis by (simp add: f64_div_def sample_quotient f64_bits_def encode_def)
qed

lemma sample_raw_bits: "raw_bits sample_ln 3 0x3F847AE147AE147B = 29"
proof -
  have "f64_neg (f64_mul (int_as_f64 3) 0xC0126BB1BBB55516) = 0x402BA18A998FFFA1"
    "f64_mul 0x3FE62E42FEFA39EF 0x3FE62E42FEFA39EF = 0x3FDEBFBDFF82C58E"
    "f64_as_nat u64_max (f64_ceil 0x403CC153284F21C8) = 29"
    by (simp_all add: f64_eval)
  then show ?thesis by (simp add: raw_bits_def sample_ln_values sample_division)
qed

theorem bloom_no_false_negative_witness:
  "\<exists>f g. bloom_new sample_ln 3 0x3F847AE147AE147B = Some f \<and>
     bloom_insert_all (hashes.truncate plain_ext) [[1], [2]] f = Some g \<and>
     (\<forall>key\<in>set [[1], [2]]. bloom_contains (hashes.truncate plain_ext) g key = Some True) \<and>
     (\<forall>key. bloom_contains (hashes.truncate plain_ext) g key \<noteq> None)"
  by (rule bloom_no_false_negative) (simp add: sizable_def sample_raw_bits f64_order)

text \<open>
  A rate of zero passes the assertion although its message excludes it. Its logarithm is minus infinity,
  the number of bits saturates and the rounding up to whole words wraps to zero words: the first insertion
  and the first lookup panic.
\<close>

theorem bloom_zero_rate_panics:
  "case bloom_new sample_ln 1 0 of
     None \<Rightarrow> False
   | Some f \<Rightarrow> bits f = [] \<and> bloom_insert H key f = None \<and> bloom_contains H f key = None"
proof -
  have "raw_bits sample_ln 1 0 = 2 ^ 64 - 1"
    by (simp add: raw_bits_def sample_ln_values f64_eval f64_div_def)
  moreover have "hash_count sample_ln 0 1 = 1"
    by (simp add: hash_count_def sample_ln_values f64_eval f64_div_def f64_max_def f64_is_nan_def f64_order)
  ultimately have "bloom_new sample_ln 1 0 = Some \<lparr>bits = [], bloom_k = 1\<rparr>"
    by (simp add: bloom_new_def f64_order)
  then show ?thesis
    by (simp add: bloom_insert_def bloom_contains_def bit_index_def bloom_m_def Let_def)
qed

subsection \<open>Block cache\<close>

text \<open>
  The block cache never exceeds its capacity. After any sequence of lookups and inserts the byte
  counter is the exact total of the cached blocks, at most the capacity, and the recency list holds
  every cached key once; a block that fits is returned by the next lookup of its key.
\<close>

theorem block_cache_bounded:
  "let c = bc_run ops (bc_new cap) in
     used_bytes c = (\<Sum>k\<in>dom (cache_map c). length (the (cache_map c k))) \<and> used_bytes c \<le> cap \<and>
     distinct (lru_order c) \<and> set (lru_order c) = dom (cache_map c) \<and>
     (length d \<le> cap \<longrightarrow> fst (bc_get k (bc_insert k d c)) = Some d)"
proof -
  define c where "c = bc_run ops (bc_new cap)"
  have inv: "bc_inv c" by (simp add: c_def bc_run_inv)
  have cap: "capacity_bytes c = cap" by (simp add: c_def bc_run_capacity) (simp add: bc_new_def)
  have "current_bytes c = (\<Sum>k\<in>dom (cache_map c). length (the (cache_map c k)))"
    using inv by (simp add: bc_inv_def accounted_def total_def sum_list_distinct_conv_sum_set)
  then show ?thesis
    using inv cap bc_get_insert [OF inv] unfolding c_def [symmetric] Let_def
    by (auto simp: bc_inv_def accounted_def used_bytes_def)
qed

theorem block_cache_bounded_witness:
  "fst (bc_get (CacheKey ''f'' 0) (bc_insert (CacheKey ''f'' 0) [1, 2]
     (bc_run [CacheInsert (CacheKey ''g'' 0) [3]] (bc_new 2)))) = Some [1, 2]"
  using block_cache_bounded [where ops = "[CacheInsert (CacheKey ''g'' 0) [3]]" and cap = 2
      and d = "[1, 2]" and k = "CacheKey ''f'' 0"] by (simp add: Let_def)

text \<open>
  Eviction is least recently used and minimal. An insert of a block that fits drops the shortest
  prefix of the recency list (the keys not used for the longest time) after which the block has
  room, keeps every other block unchanged, and makes the new key the most recent.
\<close>

theorem block_cache_lru:
  assumes inv: "bc_inv c" and fits: "length data \<le> capacity_bytes c" and fresh: "cache_map c key = None"
  shows "\<exists>i. lru_order (bc_insert key data c) = drop i (lru_order c) @ [key] \<and>
           cache_map (bc_insert key data c) = (cache_map c |` set (drop i (lru_order c)))(key \<mapsto> data) \<and>
           (\<forall>j < i. total (cache_map c) (drop j (lru_order c)) + length data > capacity_bytes c)"
proof -
  have f: "bc_forget key c = c" using fresh by (simp add: bc_forget_def)
  show ?thesis by (rule bc_insert_cases [OF inv fits, of key]) (auto simp: f)
qed

theorem block_cache_lru_witness:
  "\<exists>i. lru_order (bc_insert (CacheKey ''f'' 0) [1, 2] (bc_new 2)) =
         drop i (lru_order (bc_new 2)) @ [CacheKey ''f'' 0] \<and>
       cache_map (bc_insert (CacheKey ''f'' 0) [1, 2] (bc_new 2)) =
         (cache_map (bc_new 2) |` set (drop i (lru_order (bc_new 2))))(CacheKey ''f'' 0 \<mapsto> [1, 2]) \<and>
       (\<forall>j < i. total (cache_map (bc_new 2)) (drop j (lru_order (bc_new 2))) + length [1, 2 :: u8]
          > capacity_bytes (bc_new 2))"
  by (rule block_cache_lru) (simp_all, simp_all add: bc_new_def)

subsection \<open>Version store\<close>

text \<open>
  C27: The version store keeps the whole history. When transactions write in the order of their
  snapshots, a read of any key as of any time returns the record of the last write of the key at or
  before that time, and nothing before the first write.
\<close>

theorem mvcc_time_travel:
  assumes "sorted (map fst h)" and "\<forall>w\<in>set h. fst w < i64_max" and "q < i64_max"
  shows "read_as_of_system (mvcc_replay h mvcc_new) k q = as_of h k q"
  using replay_refines [OF assms] by blast

theorem mvcc_time_travel_witness:
  "read_as_of_system (mvcc_replay [(10, sample_rec 1), (20, sample_rec 2), (30, sample_rec 1)] mvcc_new)
     (sample_key 1) 25 = Some (sample_rec 1)"
  by (subst mvcc_time_travel)
    (simp_all add: i64_max_def as_of_def record_key_of_def sample_rec_def sample_key_def
      builder_build_def builder_new_def)

text \<open>
  Snapshot isolation. A write, even to the same key, changes no read as of a time before the
  writer's snapshot, in any state of the store.
\<close>

theorem mvcc_snapshot_isolation:
  assumes "q < snapshot_ts txn" and "snapshot_ts txn \<le> i64_max"
  shows "read_as_of_system (mvcc_write txn r s) k q = read_as_of_system s k q"
  using assms by (rule snapshot_isolation)

theorem mvcc_snapshot_isolation_witness:
  "read_as_of_system (mvcc_write \<lparr>txn_id = 1, snapshot_ts = 20\<rparr> (sample_rec 1)
     (mvcc_replay [(10, sample_rec 1)] mvcc_new)) (sample_key 1) 15 =
   read_as_of_system (mvcc_replay [(10, sample_rec 1)] mvcc_new) (sample_key 1) 15"
  by (rule mvcc_snapshot_isolation) (simp_all add: i64_max_def)

text \<open>
  C28: Garbage collection is invisible to recent readers and reports what it removed. After a
  collection at \<open>b\<close> every read as of a time from \<open>b\<close> on returns what it returned before; the kept
  versions of a key are those whose system interval ends at \<open>b\<close> or later.
\<close>

theorem mvcc_gc_safe:
  assumes "b \<le> q"
  shows "read_as_of_system (snd (mvcc_gc b s)) k q = read_as_of_system s k q \<and>
         versions_of (snd (mvcc_gc b s)) k = filter (\<lambda>v. sys_to v \<ge> b) (versions_of s k) \<and>
         fst (mvcc_gc b s) + (\<Sum>(_, vs)\<leftarrow>mv_inner (snd (mvcc_gc b s)). length vs) =
           (\<Sum>(_, vs)\<leftarrow>mv_inner s. length vs)"
proof -
  have "(\<Sum>(_, vs)\<leftarrow>m. length vs - length (filter P vs)) + (\<Sum>(_, vs)\<leftarrow>m. length (filter P vs)) =
      (\<Sum>(_, vs)\<leftarrow>m. length vs)"
    for m :: "(record_key \<times> versioned_record list) list" and P
  proof (induction m)
    case (Cons p m)
    have "length (filter P (snd p)) \<le> length (snd p)" by simp
    with Cons show ?case by (simp add: case_prod_unfold del: length_filter_le)
  qed simp
  then show ?thesis
    using assms
    by (simp add: read_as_of_versions versions_of_gc read_gc)
      (simp add: mvcc_gc_def gc_loop_acc o_def case_prod_unfold)
qed

theorem mvcc_gc_safe_witness:
  "read_as_of_system (snd (mvcc_gc 15 (mvcc_replay [(10, sample_rec 1), (12, sample_rec 1)] mvcc_new)))
     (sample_key 1) 20 =
   read_as_of_system (mvcc_replay [(10, sample_rec 1), (12, sample_rec 1)] mvcc_new) (sample_key 1) 20"
  by (rule mvcc_gc_safe [THEN conjunct1]) simp

text \<open>
  A late writer erases history. A transaction that began before another but writes after it
  closes the other's version at its own, earlier snapshot: that version's interval becomes empty and
  no read, at any time, returns its record any more.
\<close>

theorem mvcc_late_writer:
  assumes "versions_of s k = []" and "record_key_of r = k" and "record_key_of r' = k" and "r \<noteq> r'"
    and "snapshot_ts t \<le> snapshot_ts t'" and "snapshot_ts t' < i64_max"
  shows "read_as_of_system (mvcc_write t' r' s) k (snapshot_ts t') = Some r' \<and>
         (\<forall>q. read_as_of_system (mvcc_write t r (mvcc_write t' r' s)) k q \<noteq> Some r')"
  using assms
  by (auto simp: read_as_of_versions versions_of_write read_versions_Cons live_at_def new_version_def)

theorem mvcc_late_writer_witness:
  "read_as_of_system (mvcc_write \<lparr>txn_id = 1, snapshot_ts = 10\<rparr> (sample_rec 1)
     (mvcc_write \<lparr>txn_id = 2, snapshot_ts = 20\<rparr> ((sample_rec 1)\<lparr>rec_data := [7]\<rparr>) mvcc_new))
     (sample_key 1) 20 \<noteq> Some ((sample_rec 1)\<lparr>rec_data := [7]\<rparr>)"
  by (rule mvcc_late_writer [THEN conjunct2, rule_format])
    (simp_all add: record_key_of_def sample_rec_def sample_key_def builder_build_def builder_new_def
      i64_max_def)

subsection \<open>Indexes\<close>

text \<open>
  Range and point queries of the temporal index agree. With non-empty validity intervals, the
  records a range query returns are exactly those valid at some instant of the range; deleting an
  id removes it from every query and nothing else.
\<close>

theorem temporal_range_union:
  assumes "\<forall>iv\<in>set (intervals t). iv_from iv < iv_to iv" and "from < to"
  shows "set (range_query t from to) = (\<Union>at\<in>{from..<to}. set (point_query t at)) \<and>
         range_query (ti_delete uid t) from to = filter (\<lambda>i. i \<noteq> uid) (range_query t from to)"
proof (intro conjI range_query_delete equalityI subsetI)
  fix i assume "i \<in> set (range_query t from to)"
  then obtain iv where iv: "iv \<in> set (intervals t)" "i = iv_id iv" "iv_from iv < to" "iv_to iv > from"
    by (auto simp: range_query_def)
  let ?at = "max from (iv_from iv)"
  have "?at \<in> {from..<to}" "iv_from iv \<le> ?at" "?at < iv_to iv" using iv assms by auto
  then show "i \<in> (\<Union>at\<in>{from..<to}. set (point_query t at))"
    using iv by (auto simp: point_query_def intro!: bexI [of _ ?at])
qed (use point_in_range in fastforce)

theorem temporal_range_union_witness:
  "set (range_query (ti_insert [1] 5 9 (ti_insert [2] 0 3 ti_new)) 4 6) =
     (\<Union>at\<in>{4..<6}. set (point_query (ti_insert [1] 5 9 (ti_insert [2] 0 3 ti_new)) at))"
  by (rule temporal_range_union [THEN conjunct1]) (simp_all add: ti_insert_def ti_new_def)

text \<open>
  The scalar index is an ordered map. After any sequence of inserts into a new index, a lookup
  returns the value of the last insert of the key; a range query with bounds in order returns, in
  ascending key order without repetition, exactly the entries within the bounds; reversed bounds
  panic.
\<close>

theorem btree_index_correct:
  fixes ps :: "('k::linorder \<times> 'v) list"
  shows "let t = fold (\<lambda>(k, v). ix_insert k v) ps ix_new in
     ix_get t k = map_of (rev ps) k \<and>
     (case ix_range t lo hi of
        None \<Rightarrow> range_panics lo hi
      | Some es \<Rightarrow> \<not> range_panics lo hi \<and> sorted_wrt (<) (map fst es) \<and>
          (\<forall>k. map_of es k = (if above lo k \<and> below hi k then map_of (rev ps) k else None)))"
proof -
  define t where "t = fold (\<lambda>(k, v). ix_insert k v) ps ix_new"
  have get: "ix_get t l = map_of (rev ps) l" for l unfolding t_def by (rule ix.lookup_load)
  have wf: "ix_wf t" unfolding t_def by (intro ix.wf_fold ix.wf_empty)
  show ?thesis
  proof (cases "ix_range t lo hi")
    case None
    then show ?thesis using get
      by (simp add: t_def [symmetric] ix_range_def bt_range_def split: if_splits)
  next
    case (Some es)
    then have some: "bt_range (ix_inner t) lo hi = Some es" by (simp add: ix_range_def)
    then have "\<not> range_panics lo hi" by (auto simp: bt_range_def split: if_splits)
    moreover have "bt_inv es" using bt_range_Some(2) [OF some] wf by (simp add: ix_wf_def)
    ultimately show ?thesis
      using Some get bt_range_Some(1) [OF some]
      by (simp add: t_def [symmetric] bt_inv_def strict_sorted_iff ix_get_def)
  qed
qed

end
