(* ===== verification/Raft.thy ===== *)
theory Raft
  imports Ordered_Map
begin

text \<open>
  Raft, \<open>crates/fundb-raft/src/raft.rs\<close>: the data types, the in-memory storage, the internal state
  with its handlers, and the node. A u64 is a natural number with the wrap-around of \<open>+= 1\<close>; a
  \<open>HashMap\<close> is an ordered map (its iteration order only feeds a list that is sorted at once). Readings
  of the clocks are the argument \<open>clock\<close>. The storage is a record of operations, one field per method
  of the trait \<open>RaftStorage\<close>, over an abstract storage state; an operation that can fail returns
  \<open>None\<close> or \<open>False\<close>. Locks are never contended: every public method runs as one step.
\<close>

type_synonym node_id = nat

datatype raft_error = NotLeader "node_id option" | Storage

datatype entry_type = Normal | Config | SnapshotEntry

record log_entry =
  le_index :: nat
  le_term :: nat
  le_data :: bytes
  le_type :: entry_type

record hard_state =
  hs_term :: nat
  hs_voted_for :: "node_id option"
  hs_commit :: nat

record snapshot =
  sn_index :: nat
  sn_term :: nat
  sn_data :: bytes

datatype raft_role = Follower | Candidate | Leader

record append_entries_request =
  ae_term :: nat
  ae_leader_id :: node_id
  ae_prev_log_index :: nat
  ae_prev_log_term :: nat
  ae_entries :: "log_entry list"
  ae_leader_commit :: nat

record append_entries_response =
  aer_term :: nat
  aer_success :: bool

record request_vote_request =
  rv_term :: nat
  rv_candidate_id :: node_id
  rv_last_log_index :: nat
  rv_last_log_term :: nat

record request_vote_response =
  rvr_term :: nat
  rvr_vote_granted :: bool

record install_snapshot_request =
  is_term :: nat
  is_leader_id :: node_id
  is_last_included_index :: nat
  is_last_included_term :: nat
  is_data :: bytes

record install_snapshot_response =
  isr_term :: nat

subsection \<open>The storage interface\<close>

record 'st storage_ops =
  st_append_entries :: "log_entry list \<Rightarrow> 'st \<Rightarrow> 'st \<times> bool"
  st_get_entries :: "nat \<Rightarrow> nat \<Rightarrow> 'st \<Rightarrow> log_entry list option"
  st_last_index :: "'st \<Rightarrow> nat"
  st_last_term :: "'st \<Rightarrow> nat"
  st_save_hard_state :: "hard_state \<Rightarrow> 'st \<Rightarrow> 'st \<times> bool"
  st_load_hard_state :: "'st \<Rightarrow> hard_state option"
  st_save_snapshot :: "snapshot \<Rightarrow> 'st \<Rightarrow> 'st \<times> bool"
  st_load_snapshot :: "'st \<Rightarrow> snapshot option option"

subsection \<open>MemoryRaftStorage\<close>

record mem_storage =
  ms_log :: "log_entry list"
  ms_hard_state :: hard_state
  ms_snapshot :: "snapshot option"

definition hard_state_default :: hard_state where
  "hard_state_default = \<lparr>hs_term = 0, hs_voted_for = None, hs_commit = 0\<rparr>"

definition ms_new :: mem_storage where
  "ms_new = \<lparr>ms_log = [], ms_hard_state = hard_state_default, ms_snapshot = None\<rparr>"

text \<open>
  The truncation at the first entry whose index is not smaller, then the push.
\<close>

definition log_put :: "log_entry \<Rightarrow> log_entry list \<Rightarrow> log_entry list" where
  "log_put e log =
     (if le_index e > 0 then takeWhile (\<lambda>x. \<not> le_index x \<ge> le_index e) log else log) @ [e]"

definition ms_append_entries :: "log_entry list \<Rightarrow> mem_storage \<Rightarrow> mem_storage" where
  "ms_append_entries es s = s\<lparr>ms_log := fold log_put es (ms_log s)\<rparr>"

definition ms_get_entries :: "nat \<Rightarrow> nat \<Rightarrow> mem_storage \<Rightarrow> log_entry list" where
  "ms_get_entries from to s = filter (\<lambda>e. le_index e \<ge> from \<and> le_index e \<le> to) (ms_log s)"

definition ms_last_index :: "mem_storage \<Rightarrow> nat" where
  "ms_last_index s = (if ms_log s = [] then 0 else le_index (last (ms_log s)))"

definition ms_last_term :: "mem_storage \<Rightarrow> nat" where
  "ms_last_term s = (if ms_log s = [] then 0 else le_term (last (ms_log s)))"

definition ms_save_hard_state :: "hard_state \<Rightarrow> mem_storage \<Rightarrow> mem_storage" where
  "ms_save_hard_state h s = s\<lparr>ms_hard_state := h\<rparr>"

definition ms_load_hard_state :: "mem_storage \<Rightarrow> hard_state" where
  "ms_load_hard_state s = ms_hard_state s"

definition ms_save_snapshot :: "snapshot \<Rightarrow> mem_storage \<Rightarrow> mem_storage" where
  "ms_save_snapshot x s = s\<lparr>ms_snapshot := Some x\<rparr>"

definition ms_load_snapshot :: "mem_storage \<Rightarrow> snapshot option" where
  "ms_load_snapshot s = ms_snapshot s"

definition mem_ops :: "mem_storage storage_ops" where
  "mem_ops =
     \<lparr>st_append_entries = (\<lambda>es s. (ms_append_entries es s, True)),
      st_get_entries = (\<lambda>from to s. Some (ms_get_entries from to s)),
      st_last_index = ms_last_index, st_last_term = ms_last_term,
      st_save_hard_state = (\<lambda>h s. (ms_save_hard_state h s, True)),
      st_load_hard_state = (\<lambda>s. Some (ms_load_hard_state s)),
      st_save_snapshot = (\<lambda>x s. (ms_save_snapshot x s, True)),
      st_load_snapshot = (\<lambda>s. Some (ms_load_snapshot s))\<rparr>"

subsection \<open>RaftState\<close>

record clock =
  instant :: nat
  subsec_nanos :: nat

definition random_election_timeout :: "clock \<Rightarrow> nat" where
  "random_election_timeout c = 150 + subsec_nanos c mod 151"

record raft_state =
  role :: raft_role
  current_term :: nat
  voted_for :: "node_id option"
  rlog :: "log_entry list"
  commit_index :: nat
  last_applied :: nat
  next_index :: "(node_id, nat) btree_map"
  match_index :: "(node_id, nat) btree_map"
  leader_id :: "node_id option"
  last_heartbeat :: nat
  election_timeout :: nat

definition rs_new :: "clock \<Rightarrow> raft_state" where
  "rs_new c =
     \<lparr>role = Follower, current_term = 0, voted_for = None, rlog = [], commit_index = 0,
      last_applied = 0, next_index = [], match_index = [], leader_id = None,
      last_heartbeat = instant c, election_timeout = random_election_timeout c\<rparr>"

definition last_log_index :: "raft_state \<Rightarrow> nat" where
  "last_log_index s = (if rlog s = [] then 0 else le_index (last (rlog s)))"

definition last_log_term :: "raft_state \<Rightarrow> nat" where
  "last_log_term s = (if rlog s = [] then 0 else le_term (last (rlog s)))"

definition term_at :: "log_entry list \<Rightarrow> nat \<Rightarrow> nat" where
  "term_at log index =
     (if index = 0 then 0
      else case List.find (\<lambda>e. le_index e = index) log of None \<Rightarrow> 0 | Some e \<Rightarrow> le_term e)"

definition log_term_at :: "raft_state \<Rightarrow> nat \<Rightarrow> nat" where
  "log_term_at s index = term_at (rlog s) index"

definition is_log_up_to_date :: "raft_state \<Rightarrow> nat \<Rightarrow> nat \<Rightarrow> bool" where
  "is_log_up_to_date s lli llt =
     (let my_last_term = last_log_term s; my_last_index = last_log_index s
      in if llt \<noteq> my_last_term then llt \<ge> my_last_term else lli \<ge> my_last_index)"

definition become_follower :: "clock \<Rightarrow> nat \<Rightarrow> node_id option \<Rightarrow> raft_state \<Rightarrow> raft_state" where
  "become_follower c term leader s =
     s\<lparr>role := Follower, current_term := term, voted_for := None, leader_id := leader,
       last_heartbeat := instant c, election_timeout := random_election_timeout c\<rparr>"

definition become_candidate :: "clock \<Rightarrow> raft_state \<Rightarrow> raft_state" where
  "become_candidate c s =
     s\<lparr>current_term := u64_succ (current_term s), role := Candidate, voted_for := None,
       leader_id := None, last_heartbeat := instant c,
       election_timeout := random_election_timeout c\<rparr>"

definition become_leader :: "node_id \<Rightarrow> node_id list \<Rightarrow> raft_state \<Rightarrow> raft_state" where
  "become_leader my_id peer_ids s =
     (let next_idx = u64_succ (last_log_index s)
      in s\<lparr>role := Leader, leader_id := Some my_id,
           next_index := fold (\<lambda>p. bt_insert p next_idx) peer_ids [],
           match_index := fold (\<lambda>p. bt_insert p 0) peer_ids []\<rparr>)"

definition match_of :: "raft_state \<Rightarrow> node_id \<Rightarrow> nat" where
  "match_of s p = (case bt_get (match_index s) p of None \<Rightarrow> 0 | Some n \<Rightarrow> n)"

text \<open>The commit rule: the entry in the middle of the sorted match indices.\<close>

definition advance_commit_index :: "node_id list \<Rightarrow> raft_state \<Rightarrow> raft_state \<times> bool" where
  "advance_commit_index peer_ids s =
     (let all_match = sort (map (match_of s) peer_ids @ [last_log_index s]);
          total = length all_match;
          majority_idx = total div 2;
          new_commit = all_match ! majority_idx
      in if new_commit > commit_index s then
           let entry_term = log_term_at s new_commit
           in if entry_term = current_term s then (s\<lparr>commit_index := new_commit\<rparr>, True)
              else (s, False)
         else (s, False))"

text \<open>Steps 4 and 5 of AppendEntries.\<close>

definition truncate_conflict :: "log_entry \<Rightarrow> log_entry list \<Rightarrow> log_entry list" where
  "truncate_conflict e log =
     (let existing_term = term_at log (le_index e)
      in if existing_term \<noteq> 0 \<and> existing_term \<noteq> le_term e
         then filter (\<lambda>x. le_index x < le_index e) log else log)"

definition append_missing :: "log_entry \<Rightarrow> log_entry list \<Rightarrow> log_entry list" where
  "append_missing e log = (if term_at log (le_index e) = 0 then log @ [e] else log)"

definition merge_log :: "log_entry list \<Rightarrow> log_entry list \<Rightarrow> log_entry list" where
  "merge_log es log = fold append_missing es (fold truncate_conflict es log)"

definition rs_handle_append_entries ::
  "clock \<Rightarrow> append_entries_request \<Rightarrow> raft_state \<Rightarrow> raft_state \<times> append_entries_response \<times> bool" where
  "rs_handle_append_entries c req s =
     (if ae_term req < current_term s then
        (s, \<lparr>aer_term = current_term s, aer_success = False\<rparr>, False)
      else
        let s1 = (if ae_term req > current_term s \<or> role s = Candidate
                  then become_follower c (ae_term req) (Some (ae_leader_id req)) s
                  else s\<lparr>leader_id := Some (ae_leader_id req), last_heartbeat := instant c\<rparr>)
        in if ae_prev_log_index req > 0 \<and>
              log_term_at s1 (ae_prev_log_index req) \<noteq> ae_prev_log_term req
           then (s1, \<lparr>aer_term = current_term s1, aer_success = False\<rparr>, True)
           else
             let s2 = s1\<lparr>rlog := merge_log (ae_entries req) (rlog s1)\<rparr>;
                 s3 = (if ae_leader_commit req > commit_index s2
                       then s2\<lparr>commit_index := min (ae_leader_commit req) (last_log_index s2)\<rparr>
                       else s2)
             in (s3, \<lparr>aer_term = current_term s3, aer_success = True\<rparr>, True))"

definition rs_handle_request_vote ::
  "clock \<Rightarrow> request_vote_request \<Rightarrow> raft_state \<Rightarrow> raft_state \<times> request_vote_response \<times> bool" where
  "rs_handle_request_vote c req s =
     (if rv_term req < current_term s then
        (s, \<lparr>rvr_term = current_term s, rvr_vote_granted = False\<rparr>, False)
      else
        let s1 = (if rv_term req > current_term s then become_follower c (rv_term req) None s else s);
            can_vote = (voted_for s1 = None \<or> voted_for s1 = Some (rv_candidate_id req));
            log_ok = is_log_up_to_date s1 (rv_last_log_index req) (rv_last_log_term req)
        in if can_vote \<and> log_ok
           then (s1\<lparr>voted_for := Some (rv_candidate_id req), last_heartbeat := instant c\<rparr>,
                 \<lparr>rvr_term = current_term s1, rvr_vote_granted = True\<rparr>, True)
           else (s1, \<lparr>rvr_term = current_term s1, rvr_vote_granted = False\<rparr>, False))"

subsection \<open>RaftNode\<close>

record 'st raft_node =
  node :: node_id
  peers :: "(node_id \<times> string) list"
  storage :: 'st
  rstate :: raft_state

definition hard_state_of :: "raft_state \<Rightarrow> hard_state" where
  "hard_state_of s =
     \<lparr>hs_term = current_term s, hs_voted_for = voted_for s, hs_commit = commit_index s\<rparr>"

definition raft_new ::
  "'st storage_ops \<Rightarrow> clock \<Rightarrow> node_id \<Rightarrow> (node_id \<times> string) list \<Rightarrow> 'st \<Rightarrow> 'st raft_node" where
  "raft_new S c nid ps st =
     (let s0 = rs_new c;
          s1 = (case st_load_hard_state S st of
                  None \<Rightarrow> s0
                | Some hs \<Rightarrow> s0\<lparr>current_term := hs_term hs, voted_for := hs_voted_for hs,
                               commit_index := hs_commit hs\<rparr>);
          last_idx = st_last_index S st;
          s2 = (if last_idx > 0 then
                  (case st_get_entries S 1 last_idx st of
                     None \<Rightarrow> s1
                   | Some es \<Rightarrow> s1\<lparr>rlog := es\<rparr>)
                else s1)
      in \<lparr>node = nid, peers = ps, storage = st, rstate = s2\<rparr>)"

definition persist :: "'st storage_ops \<Rightarrow> 'st raft_node \<Rightarrow> 'st raft_node \<times> bool" where
  "persist S n =
     (let (st, ok) = st_save_hard_state S (hard_state_of (rstate n)) (storage n)
      in (n\<lparr>storage := st\<rparr>, ok))"

definition replicate_and_commit ::
  "'st storage_ops \<Rightarrow> nat \<Rightarrow> 'st raft_node \<Rightarrow> 'st raft_node \<times> raft_error option" where
  "replicate_and_commit S up_to_index n =
     (let total = length (peers n) + 1;
          majority = total div 2 + 1;
          acks = fold (\<lambda>_ a. a + 1) (peers n) (1 :: nat)
      in if acks \<ge> majority \<and> up_to_index > commit_index (rstate n) \<and>
            log_term_at (rstate n) up_to_index = current_term (rstate n)
         then
           let (n1, ok) = persist S (n\<lparr>rstate := (rstate n)\<lparr>commit_index := up_to_index\<rparr>\<rparr>)
           in (n1, if ok then None else Some Storage)
         else (n, None))"

definition propose ::
  "'st storage_ops \<Rightarrow> bytes \<Rightarrow> 'st raft_node \<Rightarrow> 'st raft_node \<times> raft_error option" where
  "propose S payload n =
     (if role (rstate n) \<noteq> Leader then (n, Some (NotLeader (leader_id (rstate n))))
      else
        let s = rstate n;
            entry = \<lparr>le_index = u64_succ (last_log_index s), le_term = current_term s,
                     le_data = payload, le_type = Normal\<rparr>;
            (st, ok) = st_append_entries S [entry] (storage n);
            n1 = n\<lparr>rstate := s\<lparr>rlog := rlog s @ [entry]\<rparr>, storage := st\<rparr>
        in if \<not> ok then (n1, Some Storage)
           else if peers n = [] then
             let (n2, ok2) = persist S (n1\<lparr>rstate := (rstate n1)\<lparr>commit_index := le_index entry\<rparr>\<rparr>)
             in (n2, if ok2 then None else Some Storage)
           else replicate_and_commit S (le_index entry) n1)"

definition read_index :: "'st raft_node \<Rightarrow> nat" where
  "read_index n = commit_index (rstate n)"

definition is_leader :: "'st raft_node \<Rightarrow> bool" where
  "is_leader n \<longleftrightarrow> role (rstate n) = Leader"

definition start_election :: "'st storage_ops \<Rightarrow> clock \<Rightarrow> 'st raft_node \<Rightarrow> 'st raft_node \<times> bool" where
  "start_election S c n =
     (let peer_ids = map fst (peers n);
          s = (become_candidate c (rstate n))\<lparr>voted_for := Some (node n)\<rparr>;
          term = current_term s;
          n1 = fst (persist S (n\<lparr>rstate := s\<rparr>))
      in if peer_ids = [] then (n1\<lparr>rstate := become_leader (node n) [] s\<rparr>, True)
         else
           let votes = 1; total = length peer_ids + 1; majority = total div 2 + 1
           in if votes \<ge> majority \<and> current_term (rstate n1) = term \<and> role (rstate n1) = Candidate
              then (n1\<lparr>rstate := become_leader (node n) peer_ids (rstate n1)\<rparr>, True)
              else (n1, False))"

text \<open>The request that \<open>send_heartbeat\<close> builds for every peer; only a leader sends it.\<close>

definition send_heartbeat :: "'st raft_node \<Rightarrow> (node_id \<times> append_entries_request) list" where
  "send_heartbeat n =
     (let s = rstate n;
          req = \<lparr>ae_term = current_term s, ae_leader_id = node n,
                 ae_prev_log_index = last_log_index s, ae_prev_log_term = last_log_term s,
                 ae_entries = [], ae_leader_commit = commit_index s\<rparr>
      in if role s \<noteq> Leader then [] else map (\<lambda>(p, _). (p, req)) (peers n))"

definition handle_append_entries :: "'st storage_ops \<Rightarrow> clock \<Rightarrow> append_entries_request \<Rightarrow>
    'st raft_node \<Rightarrow> 'st raft_node \<times> append_entries_response" where
  "handle_append_entries S c req n =
     (let (s, resp, pers) = rs_handle_append_entries c req (rstate n);
          n1 = n\<lparr>rstate := s\<rparr>
      in (if pers then fst (persist S n1) else n1, resp))"

definition handle_request_vote :: "'st storage_ops \<Rightarrow> clock \<Rightarrow> request_vote_request \<Rightarrow>
    'st raft_node \<Rightarrow> 'st raft_node \<times> request_vote_response" where
  "handle_request_vote S c req n =
     (let (s, resp, pers) = rs_handle_request_vote c req (rstate n);
          n1 = n\<lparr>rstate := s\<rparr>
      in (if pers then fst (persist S n1) else n1, resp))"

definition handle_install_snapshot :: "'st storage_ops \<Rightarrow> clock \<Rightarrow> install_snapshot_request \<Rightarrow>
    'st raft_node \<Rightarrow> 'st raft_node \<times> install_snapshot_response" where
  "handle_install_snapshot S c req n =
     (let s = rstate n
      in if is_term req < current_term s then (n, \<lparr>isr_term = current_term s\<rparr>)
         else
           let s1 = (if is_term req > current_term s
                     then become_follower c (is_term req) (Some (is_leader_id req)) s
                     else s\<lparr>leader_id := Some (is_leader_id req), last_heartbeat := instant c\<rparr>);
               snap = \<lparr>sn_index = is_last_included_index req, sn_term = is_last_included_term req,
                       sn_data = is_data req\<rparr>;
               s2 = s1\<lparr>rlog := filter (\<lambda>e. le_index e > is_last_included_index req) (rlog s1)\<rparr>;
               s3 = (if is_last_included_index req > commit_index s2
                     then s2\<lparr>commit_index := is_last_included_index req\<rparr> else s2);
               s4 = (if is_last_included_index req > last_applied s3
                     then s3\<lparr>last_applied := is_last_included_index req\<rparr> else s3);
               st1 = fst (st_save_snapshot S snap (storage n));
               n1 = fst (persist S (n\<lparr>rstate := s4, storage := st1\<rparr>))
           in (n1, \<lparr>isr_term = current_term s4\<rparr>))"

definition update_match_index ::
  "'st storage_ops \<Rightarrow> node_id \<Rightarrow> nat \<Rightarrow> 'st raft_node \<Rightarrow> 'st raft_node" where
  "update_match_index S peer_id match_idx n =
     (let s = rstate n
      in if role s \<noteq> Leader then n
         else
           let s1 = s\<lparr>match_index := bt_insert peer_id match_idx (match_index s),
                      next_index := bt_insert peer_id (u64_succ match_idx) (next_index s)\<rparr>;
               peer_ids = map fst (next_index s1);
               (s2, advanced) = advance_commit_index peer_ids s1;
               n1 = n\<lparr>rstate := s2\<rparr>
           in if advanced then fst (persist S n1) else n1)"

definition force_become_leader :: "'st raft_node \<Rightarrow> 'st raft_node" where
  "force_become_leader n =
     (let s = rstate n; s1 = s\<lparr>current_term := u64_succ (current_term s)\<rparr>
      in n\<lparr>rstate := become_leader (node n) (map fst (peers n)) s1\<rparr>)"

definition force_set_role :: "raft_role \<Rightarrow> 'st raft_node \<Rightarrow> 'st raft_node" where
  "force_set_role r n = n\<lparr>rstate := (rstate n)\<lparr>role := r\<rparr>\<rparr>"

end
