(* ===== verification/Raft_Facts.thy ===== *)
theory Raft_Facts
  imports Raft "HOL-Library.Multiset"
begin

text \<open>
  Facts about the Raft model: what a restart reads back from the storage (stated once for every
  storage that keeps the laws of the locale \<open>raft_storage\<close>), logs with consecutive indices and the
  two loops of AppendEntries on them, the median rule of the commit index, and runs of a node.
\<close>

subsection \<open>The contract of the storage\<close>

locale raft_storage =
  fixes S :: "'st storage_ops"
  assumes load_after_save:
      "st_save_hard_state S h st = (st', True) \<Longrightarrow> st_load_hard_state S st' = Some h"
    and save_keeps_log:
      "st_save_hard_state S h st = (st', ok) \<Longrightarrow>
         st_last_index S st' = st_last_index S st \<and> st_get_entries S from to st' = st_get_entries S from to st"
    and snapshot_keeps_log:
      "st_save_snapshot S x st = (st', ok) \<Longrightarrow>
         st_last_index S st' = st_last_index S st \<and> st_get_entries S from to st' = st_get_entries S from to st"
begin

text \<open>The log a restart reads.\<close>

definition stored_log :: "'st \<Rightarrow> log_entry list" where
  "stored_log st =
     (if st_last_index S st > 0 then
        (case st_get_entries S 1 (st_last_index S st) st of None \<Rightarrow> [] | Some es \<Rightarrow> es)
      else [])"

lemma restart_log: "rlog (rstate (raft_new S c i ps st)) = stored_log st"
  by (simp add: raft_new_def stored_log_def rs_new_def Let_def split: option.splits)

lemma persist_rstate [simp]: "rstate (fst (persist S n)) = rstate n"
  by (simp add: persist_def split: prod.splits)

lemma persist_stored_log: "stored_log (storage (fst (persist S n))) = stored_log (storage n)"
  using save_keeps_log [of "hard_state_of (rstate n)" "storage n"]
  by (cases "st_save_hard_state S (hard_state_of (rstate n)) (storage n)")
    (simp add: persist_def stored_log_def)

lemma restart_after_persist:
  assumes "snd (persist S n)"
  shows "current_term (rstate (raft_new S c i ps (storage (fst (persist S n))))) = current_term (rstate n)"
    and "voted_for (rstate (raft_new S c i ps (storage (fst (persist S n))))) = voted_for (rstate n)"
    and "commit_index (rstate (raft_new S c i ps (storage (fst (persist S n))))) = commit_index (rstate n)"
proof -
  obtain st where st: "st_save_hard_state S (hard_state_of (rstate n)) (storage n) = (st, True)"
    using assms by (auto simp: persist_def split: prod.splits)
  have "st_load_hard_state S st = Some (hard_state_of (rstate n))"
    using st by (rule load_after_save)
  with st show "current_term (rstate (raft_new S c i ps (storage (fst (persist S n))))) = current_term (rstate n)"
    "voted_for (rstate (raft_new S c i ps (storage (fst (persist S n))))) = voted_for (rstate n)"
    "commit_index (rstate (raft_new S c i ps (storage (fst (persist S n))))) = commit_index (rstate n)"
    by (simp_all add: persist_def raft_new_def hard_state_of_def Let_def split: option.splits)
qed

end

interpretation mem: raft_storage mem_ops
  by unfold_locales
    (auto simp: mem_ops_def ms_load_hard_state_def ms_save_hard_state_def ms_last_index_def
      ms_get_entries_def ms_save_snapshot_def)

lemma mem_persist_ok [simp]: "snd (persist mem_ops n)"
  by (simp add: persist_def mem_ops_def)

subsection \<open>Logs with consecutive indices\<close>

definition log_from :: "nat \<Rightarrow> log_entry list \<Rightarrow> bool" where
  "log_from p es \<longleftrightarrow>
     map le_index es = [Suc p..<Suc p + length es] \<and> (\<forall>e\<in>set es. 0 < le_term e)"

abbreviation log_wf :: "log_entry list \<Rightarrow> bool" where
  "log_wf log \<equiv> log_from 0 log"

lemma log_from_Nil [simp]: "log_from p []"
  by (simp add: log_from_def)

lemma log_from_Cons:
  "log_from p (e # es) \<longleftrightarrow> le_index e = Suc p \<and> 0 < le_term e \<and> log_from (Suc p) es"
  by (auto simp: log_from_def upt_conv_Cons simp del: upt_Suc)

lemma log_from_index: "log_from p es \<Longrightarrow> e \<in> set es \<Longrightarrow> p < le_index e"
  by (induction es arbitrary: p) (auto simp: log_from_Cons dest: Suc_lessD)

lemma log_from_append:
  "log_from p (es @ fs) \<longleftrightarrow> log_from p es \<and> log_from (p + length es) fs"
  by (induction es arbitrary: p) (auto simp: log_from_Cons)

lemma log_from_take: "log_from p es \<Longrightarrow> log_from p (take m es)"
  by (metis append_take_drop_id log_from_append)

lemma log_from_drop: "log_from p es \<Longrightarrow> log_from (p + min m (length es)) (drop m es)"
  by (metis append_take_drop_id length_take log_from_append min.commute)

lemma find_log_from:
  "log_from p log \<Longrightarrow>
     List.find (\<lambda>e. le_index e = i) log =
       (if p < i \<and> i \<le> p + length log then Some (log ! (i - Suc p)) else None)"
proof (induction log arbitrary: p)
  case (Cons e log)
  then show ?case by (auto simp: log_from_Cons nth_Cons')
qed simp

lemma term_at_log:
  "log_wf log \<Longrightarrow> term_at log i =
     (if 1 \<le> i \<and> i \<le> length log then le_term (log ! (i - 1)) else 0)"
  by (auto simp: term_at_def find_log_from)

lemma term_at_pos: "log_wf log \<Longrightarrow> 0 < term_at log i \<longleftrightarrow> 1 \<le> i \<and> i \<le> length log"
  by (auto simp: term_at_log log_from_def)

lemma filter_log_from:
  "log_from p log \<Longrightarrow> filter (\<lambda>x. le_index x < i) log = take (i - Suc p) log"
proof (induction log arbitrary: p)
  case (Cons e log)
  then have e: "le_index e = Suc p" "log_from (Suc p) log" by (simp_all add: log_from_Cons)
  show ?case
  proof (cases "Suc p < i")
    case True
    then have "i - Suc p = Suc (i - Suc (Suc p))" by simp
    with True Cons.IH [OF e(2)] e(1) show ?thesis by simp
  next
    case False
    have "filter (\<lambda>x. le_index x < i) log = []"
      using Cons.IH [OF e(2)] False by simp
    with False e(1) show ?thesis by simp
  qed
qed simp

lemma term_at_take:
  "log_wf log \<Longrightarrow> term_at (take m log) i = (if i \<le> m then term_at log i else 0)"
  by (auto simp: term_at_log log_from_take)

subsection \<open>The two loops of AppendEntries\<close>

lemma truncate_conflict_take:
  assumes "log_wf log" and "le_index e = Suc p"
  shows "truncate_conflict e log =
      (if term_at log (Suc p) \<noteq> 0 \<and> term_at log (Suc p) \<noteq> le_term e then take p log else log)"
  using assms by (simp add: truncate_conflict_def Let_def filter_log_from)

lemma truncate_fold:
  "log_wf log \<Longrightarrow> log_from p es \<Longrightarrow> p \<le> length log \<Longrightarrow>
     \<exists>m\<le>length log. fold truncate_conflict es log = take m log \<and> p \<le> m \<and>
       (\<forall>e\<in>set es. term_at (take m log) (le_index e) \<in> {0, le_term e}) \<and>
       (m = length log \<or> (\<exists>e\<in>set es. le_index e = Suc m \<and> term_at log (Suc m) \<noteq> le_term e))"
proof (induction es arbitrary: p log)
  case Nil
  then show ?case by (intro exI [of _ "length log"]) simp
next
  case (Cons e es)
  have e: "le_index e = Suc p" "log_from (Suc p) es" using Cons.prems by (auto simp: log_from_Cons)
  define l1 where "l1 = truncate_conflict e log"
  note tr = truncate_conflict_take [OF Cons.prems(1) e(1), folded l1_def]
  show ?case
  proof (cases "Suc p \<le> length l1")
    case True
    have l1: "l1 = log" using tr True Cons.prems(3) by (auto split: if_splits)
    have "length (take p log) < length l1" using True Cons.prems(3) by simp
    then have "l1 \<noteq> take p log" by auto
    then have match: "term_at log (Suc p) \<in> {0, le_term e}"
      using tr by (auto split: if_splits)
    obtain m where m: "fold truncate_conflict es log = take m log" "Suc p \<le> m"
      "\<forall>e\<in>set es. term_at (take m log) (le_index e) \<in> {0, le_term e}" "m \<le> length log"
      "m = length log \<or> (\<exists>e\<in>set es. le_index e = Suc m \<and> term_at log (Suc m) \<noteq> le_term e)"
      using Cons.IH [OF Cons.prems(1) e(2)] True l1 by blast
    then show ?thesis
      using match e(1) Cons.prems(1) l1
      by (intro exI [of _ m]) (auto simp: term_at_take simp flip: l1_def)
  next
    case False
    have l1: "l1 = take p log" using tr False Cons.prems(3) by (auto split: if_splits)
    have none: "term_at l1 (le_index x) = 0" if "x \<in> set (e # es)" for x
    proof -
      have "p < le_index x" using log_from_index [OF Cons.prems(2) that] .
      then show ?thesis
        using Cons.prems(1) l1 by (simp add: term_at_take)
    qed
    have "fold truncate_conflict es l1 = l1"
    proof -
      have "fold truncate_conflict xs l1 = l1" if "set xs \<subseteq> set es" for xs
        using that none by (induction xs) (auto simp: truncate_conflict_def Let_def)
      then show ?thesis by simp
    qed
    moreover have "p = length log \<or> term_at log (Suc p) \<noteq> le_term e"
      using tr l1 Cons.prems(2,3) term_at_pos [OF Cons.prems(1), of "Suc p"]
      by (cases "p = length log") (auto simp: log_from_Cons split: if_splits)
    ultimately show ?thesis
      using none l1 e(1) Cons.prems(3) by (intro exI [of _ p]) (auto simp flip: l1_def)
  qed
qed

lemma append_fold:
  "log_wf log \<Longrightarrow> log_from p es \<Longrightarrow> p \<le> length log \<Longrightarrow>
     fold append_missing es log = log @ drop (length log - p) es"
proof (induction es arbitrary: p log)
  case (Cons e es)
  have e: "le_index e = Suc p" "0 < le_term e" "log_from (Suc p) es"
    using Cons.prems by (auto simp: log_from_Cons)
  show ?case
  proof (cases "Suc p \<le> length log")
    case True
    then have "append_missing e log = log"
      using term_at_pos [OF Cons.prems(1), of "Suc p"] e(1) by (simp add: append_missing_def)
    moreover have "length log - p = Suc (length log - Suc p)" using True by simp
    ultimately show ?thesis using Cons.IH [OF Cons.prems(1) e(3) True] by simp
  next
    case False
    then have p: "p = length log" using Cons.prems(3) by simp
    have "append_missing e log = log @ [e]"
      using term_at_pos [OF Cons.prems(1), of "Suc p"] e(1) p by (simp add: append_missing_def)
    moreover have "log_wf (log @ [e])" using Cons.prems(1) e p by (simp add: log_from_append log_from_Cons)
    ultimately show ?thesis using Cons.IH [of "log @ [e]" "Suc p"] e(3) p by simp
  qed
qed simp

lemma merge_log_spec:
  assumes wf: "log_wf log" and es: "log_from p es" and p: "p \<le> length log"
  shows "log_wf (merge_log es log)"
    and "take p (merge_log es log) = take p log"
    and "p + length es \<le> length (merge_log es log)"
    and "\<forall>e\<in>set es. term_at (merge_log es log) (le_index e) = le_term e"
    and "\<exists>m. p \<le> m \<and> m \<le> length log \<and> merge_log es log = take m log @ drop (m - p) es \<and>
      (\<forall>e\<in>set es. le_index e \<le> m \<longrightarrow> le_term (log ! (le_index e - 1)) = le_term e) \<and>
      (m = length log \<or> (\<exists>e\<in>set es. le_index e = Suc m \<and> le_term (log ! m) \<noteq> le_term e))"
proof -
  obtain m where m: "fold truncate_conflict es log = take m log" "p \<le> m"
    "\<forall>e\<in>set es. term_at (take m log) (le_index e) \<in> {0, le_term e}" "m \<le> length log"
    "m = length log \<or> (\<exists>e\<in>set es. le_index e = Suc m \<and> term_at log (Suc m) \<noteq> le_term e)"
    using truncate_fold [OF wf es p] by blast
  define l where "l = take m log"
  have l: "log_wf l" "p \<le> length l" using wf p m(2) by (auto simp: l_def log_from_take)
  have ml: "merge_log es log = l @ drop (length l - p) es"
    using append_fold [OF l(1) es l(2)] m(1) by (simp add: merge_log_def l_def)
  have d: "log_from (p + min (length l - p) (length es)) (drop (length l - p) es)"
    using es by (rule log_from_drop)
  have "le_term (log ! (le_index e - 1)) = le_term e" if "e \<in> set es" "le_index e \<le> m" for e
  proof -
    have i: "0 < le_index e" using log_from_index [OF es that(1)] by simp
    then have "term_at (take m log) (le_index e) \<noteq> 0"
      using term_at_pos [OF wf, of "le_index e"] that(2) m(4) by (simp add: term_at_take [OF wf])
    with m(3) that have "term_at log (le_index e) = le_term e"
      by (auto simp: term_at_take [OF wf])
    then show ?thesis using i that(2) m(4) by (simp add: term_at_log [OF wf] split: if_splits)
  qed
  moreover have "m = length log \<or> (\<exists>e\<in>set es. le_index e = Suc m \<and> le_term (log ! m) \<noteq> le_term e)"
    using m(4,5) by (auto simp: term_at_log [OF wf])
  moreover have "length l = m" using m(4) by (simp add: l_def)
  ultimately show "\<exists>m. p \<le> m \<and> m \<le> length log \<and> merge_log es log = take m log @ drop (m - p) es \<and>
      (\<forall>e\<in>set es. le_index e \<le> m \<longrightarrow> le_term (log ! (le_index e - 1)) = le_term e) \<and>
      (m = length log \<or> (\<exists>e\<in>set es. le_index e = Suc m \<and> le_term (log ! m) \<noteq> le_term e))"
    using ml m(2,4) by (intro exI [of _ m]) (simp add: l_def)
  show wf': "log_wf (merge_log es log)"
    using l d unfolding ml log_from_append
    by (cases "length l - p \<le> length es") auto
  show "take p (merge_log es log) = take p log"
    using l(2) m(2) by (simp add: ml l_def min_def)
  show len: "p + length es \<le> length (merge_log es log)"
    using l(2) by (simp add: ml)
  show "\<forall>e\<in>set es. term_at (merge_log es log) (le_index e) = le_term e"
  proof
    fix e assume "e \<in> set es"
    then obtain j where j: "j < length es" "es ! j = e" by (auto simp: in_set_conv_nth)
    have idx: "le_index e = Suc (p + j)"
    proof -
      have "map le_index es ! j = [Suc p..<Suc p + length es] ! j"
        using es by (simp add: log_from_def)
      then show ?thesis using j by (simp del: upt_Suc)
    qed
    show "term_at (merge_log es log) (le_index e) = le_term e"
    proof (cases "p + j < length l")
      case True
      then have "term_at l (le_index e) = le_term e"
        using m(3) \<open>e \<in> set es\<close> term_at_pos [OF l(1), of "le_index e"] idx by (auto simp: l_def)
      moreover have "merge_log es log ! (p + j) = l ! (p + j)" using True by (simp add: ml nth_append)
      ultimately show ?thesis
        using True idx len j by (simp add: term_at_log [OF wf'] term_at_log [OF l(1)])
    next
      case False
      then have "merge_log es log ! (p + j) = e"
        using j l(2) by (simp add: ml nth_append)
      then show ?thesis
        using len idx j by (simp add: term_at_log [OF wf'])
    qed
  qed
qed

subsection \<open>The commit rule\<close>

lemma sorted_upper_half:
  assumes "sorted xs" and "i < length xs"
  shows "length xs - i \<le> length (filter (\<lambda>x. xs ! i \<le> x) xs)"
proof -
  have "filter (\<lambda>x. xs ! i \<le> x) (drop i xs) = drop i xs"
  proof (rule filter_True, rule ballI)
    fix x assume "x \<in> set (drop i xs)"
    then obtain j where "j < length xs - i" "x = xs ! (i + j)" by (auto simp: in_set_conv_nth)
    then show "xs ! i \<le> x" using assms by (simp add: sorted_nth_mono)
  qed
  moreover have "length (filter (\<lambda>x. xs ! i \<le> x) xs) =
      length (filter (\<lambda>x. xs ! i \<le> x) (take i xs)) + length (filter (\<lambda>x. xs ! i \<le> x) (drop i xs))"
    by (metis append_take_drop_id filter_append length_append)
  ultimately show ?thesis by simp
qed

lemma filter_sort_length: "length (filter P (sort xs)) = length (filter P xs)"
  by (metis mset_filter mset_sort size_mset)

text \<open>At least half of the nodes, and with an odd number more than half, hold the entry.\<close>

lemma advance_commit_spec:
  assumes "advance_commit_index ps s = (s', True)"
  defines "c \<equiv> commit_index s'"
  shows "commit_index s < c" and "log_term_at s c = current_term s" and "s' = s\<lparr>commit_index := c\<rparr>"
    and "Suc (length ps) - Suc (length ps) div 2 \<le>
           length (filter (\<lambda>p. c \<le> match_of s p) ps) + (if c \<le> last_log_index s then 1 else 0)"
proof -
  let ?xs = "map (match_of s) ps @ [last_log_index s]"
  have c: "c = sort ?xs ! (Suc (length ps) div 2)" and eqs: "commit_index s < c"
    "log_term_at s c = current_term s" "s' = s\<lparr>commit_index := c\<rparr>"
    using assms by (auto simp: advance_commit_index_def Let_def split: if_splits)
  then show "commit_index s < c" "log_term_at s c = current_term s" "s' = s\<lparr>commit_index := c\<rparr>"
    by simp_all
  have "Suc (length ps) - Suc (length ps) div 2 \<le> length (filter (\<lambda>x. c \<le> x) (sort ?xs))"
    using sorted_upper_half [of "sort ?xs" "Suc (length ps) div 2"] c by simp
  then show "Suc (length ps) - Suc (length ps) div 2 \<le>
      length (filter (\<lambda>p. c \<le> match_of s p) ps) + (if c \<le> last_log_index s then 1 else 0)"
    by (simp add: filter_sort_length filter_map o_def split: if_splits)
qed

lemma advance_commit_False: "advance_commit_index ps s = (s', False) \<Longrightarrow> s' = s"
  by (auto simp: advance_commit_index_def Let_def split: if_splits)

lemma advance_commit_term: "current_term (fst (advance_commit_index ps s)) = current_term s"
  by (auto simp: advance_commit_index_def Let_def)

subsection \<open>Runs of a node\<close>

datatype raft_event =
    Propose bytes
  | Election clock
  | RecvAppend clock append_entries_request
  | RecvVote clock request_vote_request
  | RecvSnapshot clock install_snapshot_request
  | Acked node_id nat
  | ForceLeader

fun raft_handle :: "'st storage_ops \<Rightarrow> raft_event \<Rightarrow> 'st raft_node \<Rightarrow> 'st raft_node" where
  "raft_handle S (Propose b) n = fst (propose S b n)"
| "raft_handle S (Election c) n = fst (start_election S c n)"
| "raft_handle S (RecvAppend c req) n = fst (handle_append_entries S c req n)"
| "raft_handle S (RecvVote c req) n = fst (handle_request_vote S c req n)"
| "raft_handle S (RecvSnapshot c req) n = fst (handle_install_snapshot S c req n)"
| "raft_handle S (Acked p i) n = update_match_index S p i n"
| "raft_handle S ForceLeader n = force_become_leader n"

lemma persist_fst_simps [simp]:
  "rstate (fst (persist S n)) = rstate n" "node (fst (persist S n)) = node n"
  "peers (fst (persist S n)) = peers n"
  by (simp_all add: persist_def split: prod.splits)

lemma replicate_rstate:
  "rstate (fst (replicate_and_commit S i n)) = rstate n \<or>
   rstate (fst (replicate_and_commit S i n)) = (rstate n)\<lparr>commit_index := i\<rparr>"
  by (simp add: replicate_and_commit_def Let_def split_beta)

lemma replicate_vote_term:
  "current_term (rstate (fst (replicate_and_commit S i n))) = current_term (rstate n)"
  "voted_for (rstate (fst (replicate_and_commit S i n))) = voted_for (rstate n)"
  using replicate_rstate [of S i n] by auto

lemma propose_vote_term:
  "current_term (rstate (fst (propose S b n))) = current_term (rstate n)"
  "voted_for (rstate (fst (propose S b n))) = voted_for (rstate n)"
  by (simp_all add: propose_def Let_def split_beta replicate_vote_term)

text \<open>The votes a node hands out while it handles an event, its vote for itself included.\<close>

fun grants :: "'st storage_ops \<Rightarrow> raft_event \<Rightarrow> 'st raft_node \<Rightarrow> (nat \<times> node_id) list" where
  "grants S (RecvVote c req) n =
     (let resp = snd (handle_request_vote S c req n)
      in if rvr_vote_granted resp then [(rvr_term resp, rv_candidate_id req)] else [])"
| "grants S (Election c) n = [(current_term (rstate (fst (start_election S c n))), node n)]"
| "grants S _ n = []"

text \<open>
  The event that clears the vote of the running term: an AppendEntries of the node's own term while
  it is a candidate.
\<close>

fun clears_vote :: "raft_event \<Rightarrow> 'st raft_node \<Rightarrow> bool" where
  "clears_vote (RecvAppend c req) n \<longleftrightarrow>
     role (rstate n) = Candidate \<and> ae_term req = current_term (rstate n)"
| "clears_vote _ n \<longleftrightarrow> False"

inductive vote_run :: "'st storage_ops \<Rightarrow> 'st raft_node \<Rightarrow> 'st raft_node \<Rightarrow> (nat \<times> node_id) list \<Rightarrow> bool"
  for S :: "'st storage_ops" and n0 :: "'st raft_node" where
  start: "vote_run S n0 n0 []"
| step: "vote_run S n0 n hist \<Longrightarrow> current_term (rstate n) < u64_max \<Longrightarrow> \<not> clears_vote ev n \<Longrightarrow>
    vote_run S n0 (raft_handle S ev n) (grants S ev n @ hist)"

inductive_cases vote_run_emptyE: "vote_run S n0 n []"

text \<open>What one event does to term and vote.\<close>

definition term_step :: "raft_state \<Rightarrow> raft_state \<Rightarrow> bool" where
  "term_step s s' \<longleftrightarrow> current_term s \<le> current_term s'"

definition vote_step :: "raft_state \<Rightarrow> raft_state \<Rightarrow> bool" where
  "vote_step s s' \<longleftrightarrow> current_term s < current_term s' \<or>
     (current_term s' = current_term s \<and> (\<forall>c. voted_for s = Some c \<longrightarrow> voted_for s' = Some c))"

lemma become_leader_simps [simp]:
  "current_term (become_leader i ps s) = current_term s"
  "voted_for (become_leader i ps s) = voted_for s"
  "role (become_leader i ps s) = Leader" "rlog (become_leader i ps s) = rlog s"
  "commit_index (become_leader i ps s) = commit_index s"
  by (simp_all add: become_leader_def Let_def)

lemma start_election_rstate:
  "rstate (fst (start_election S c n)) \<in>
     {(become_candidate c (rstate n))\<lparr>voted_for := Some (node n)\<rparr>,
      become_leader (node n) (map fst (peers n)) ((become_candidate c (rstate n))\<lparr>voted_for := Some (node n)\<rparr>)}"
  by (auto simp: start_election_def Let_def)

lemma election_terms:
  "current_term (rstate n) < u64_max \<Longrightarrow>
     current_term (rstate (fst (start_election S c n))) = Suc (current_term (rstate n))"
  "voted_for (rstate (fst (start_election S c n))) = Some (node n)"
  using start_election_rstate [of S c n] by (auto simp: become_candidate_def u64_succ_less)

lemma request_vote_steps:
  assumes "rs_handle_request_vote c req s = (s', resp, b)"
  shows "vote_step s s'"
    and "rvr_vote_granted resp \<Longrightarrow> rvr_term resp = current_term s' \<and>
           voted_for s' = Some (rv_candidate_id req) \<and> b"
    and "rvr_vote_granted resp \<Longrightarrow> current_term s' = rv_term req"
  using assms
  by (auto simp: rs_handle_request_vote_def vote_step_def become_follower_def Let_def split: if_splits)

lemma append_entries_steps:
  assumes "rs_handle_append_entries c req s = (s', resp, b)"
  shows "term_step s s'" and "\<not> (role s = Candidate \<and> ae_term req = current_term s) \<Longrightarrow> vote_step s s'"
  using assms
  by (auto simp: rs_handle_append_entries_def vote_step_def term_step_def become_follower_def Let_def
      split: if_splits)

lemma snapshot_steps: "vote_step (rstate n) (rstate (fst (handle_install_snapshot S c req n)))"
  by (auto simp: handle_install_snapshot_def vote_step_def become_follower_def Let_def)

lemma match_steps:
  "current_term (rstate (update_match_index S p i n)) = current_term (rstate n)"
  "voted_for (rstate (update_match_index S p i n)) = voted_for (rstate n)"
  by (auto simp: update_match_index_def Let_def advance_commit_index_def split_beta)

lemma handle_rstates:
  "rstate (fst (handle_append_entries S c a n)) = fst (rs_handle_append_entries c a (rstate n))"
  "snd (handle_append_entries S c a n) = fst (snd (rs_handle_append_entries c a (rstate n)))"
  "rstate (fst (handle_request_vote S c v n)) = fst (rs_handle_request_vote c v (rstate n))"
  "snd (handle_request_vote S c v n) = fst (snd (rs_handle_request_vote c v (rstate n)))"
  by (auto simp: handle_append_entries_def handle_request_vote_def split_beta Let_def)

lemma raft_handle_vote_step:
  assumes "current_term (rstate n) < u64_max" and "\<not> clears_vote ev n"
  shows "vote_step (rstate n) (rstate (raft_handle S ev n))"
proof (cases ev)
  case (RecvAppend c req)
  then show ?thesis
    using assms append_entries_steps(2) [of c req "rstate n"] by (simp add: handle_rstates) (metis prod.collapse)
next
  case (RecvVote c req)
  then show ?thesis
    using request_vote_steps(1) [of c req "rstate n"] by (simp add: handle_rstates) (metis prod.collapse)
next
  case (RecvSnapshot c req)
  then show ?thesis by (simp add: snapshot_steps)
qed (use assms in \<open>simp_all add: vote_step_def propose_vote_term election_terms match_steps
      force_become_leader_def u64_succ_less Let_def\<close>)

lemma grants_vote:
  assumes "(t, c) \<in> set (grants S ev n)"
  shows "current_term (rstate (raft_handle S ev n)) = t \<and> voted_for (rstate (raft_handle S ev n)) = Some c"
  using assms
proof (cases ev)
  case (RecvVote k req)
  obtain s' resp b where "rs_handle_request_vote k req (rstate n) = (s', resp, b)"
    by (metis prod_cases3)
  then show ?thesis
    using RecvVote assms request_vote_steps(2) [of k req "rstate n" s' resp b]
    by (simp add: handle_rstates Let_def split: if_splits)
qed (auto simp: election_terms)

lemma grants_fresh:
  "(t, c) \<in> set (grants S ev n) \<Longrightarrow> (t, d) \<in> set (grants S ev n) \<Longrightarrow> c = d"
  by (cases ev) (auto simp: Let_def split: if_splits)

lemma vote_run_inv:
  "vote_run S n0 n hist \<Longrightarrow>
     (\<forall>(t, c)\<in>set hist. t \<le> current_term (rstate n) \<and>
        (t = current_term (rstate n) \<longrightarrow> voted_for (rstate n) = Some c)) \<and>
     (\<forall>t c d. (t, c) \<in> set hist \<longrightarrow> (t, d) \<in> set hist \<longrightarrow> c = d)"
proof (induction rule: vote_run.induct)
  case (step n hist ev)
  let ?n = "raft_handle S ev n"
  have vs: "vote_step (rstate n) (rstate ?n)" using step.hyps by (intro raft_handle_vote_step)
  have old: "t \<le> current_term (rstate ?n) \<and> (t = current_term (rstate ?n) \<longrightarrow> voted_for (rstate ?n) = Some c)"
    if "(t, c) \<in> set hist" for t c
    using that step.IH vs by (fastforce simp: vote_step_def)
  have new: "t = current_term (rstate ?n) \<and> voted_for (rstate ?n) = Some c"
    if "(t, c) \<in> set (grants S ev n)" for t c
    using grants_vote [OF that] by simp
  have uniq: "c = d" if "(t, c) \<in> set (grants S ev n @ hist)" "(t, d) \<in> set (grants S ev n @ hist)" for t c d
    using that old new step.IH by (auto simp: grants_fresh)
  show ?case using old new uniq by (intro conjI ballI allI impI; (clarsimp)?) auto
qed simp

end
