(* ===== verification/Raft_Properties.thy ===== *)
theory Raft_Properties
  imports Raft_Facts
begin

text \<open>
  The properties of the Raft node: votes, terms, the log of a follower, the commit rule, restarts
  and snapshots. Four of them record deviations from the protocol: a candidate's forgotten vote,
  commits without a majority in clusters of even size, acknowledged entries that a restart loses,
  and a snapshot after which replication is refused for good.
\<close>

definition sample_clock :: clock where
  "sample_clock = \<lparr>instant = 0, subsec_nanos = 7\<rparr>"

definition fresh_node :: "(node_id \<times> string) list \<Rightarrow> mem_storage raft_node" where
  "fresh_node ps = raft_new mem_ops sample_clock 1 ps ms_new"

text \<open>
  C10: A node never votes twice in a term. In every run of a node, over any sequence of proposals,
  elections and received messages, all votes it gives in one term, its own candidacy included, go to
  one candidate; the only event excluded is an AppendEntries of its own term that reaches it while
  it is a candidate.
\<close>

theorem raft_single_vote:
  assumes "vote_run S n0 n hist" and "(t, c) \<in> set hist" and "(t, d) \<in> set hist"
  shows "c = d"
  using vote_run_inv [OF assms(1)] assms(2,3) by blast

definition sample_vote :: "node_id \<Rightarrow> request_vote_request" where
  "sample_vote cand = \<lparr>rv_term = 1, rv_candidate_id = cand, rv_last_log_index = 0, rv_last_log_term = 0\<rparr>"

lemma fresh_node_simps [simp]:
  "rstate (fresh_node ps) = rs_new sample_clock" "node (fresh_node ps) = 1" "peers (fresh_node ps) = ps"
  "storage (fresh_node ps) = ms_new"
  by (simp_all add: fresh_node_def raft_new_def mem_ops_def ms_new_def ms_load_hard_state_def
      hard_state_default_def ms_last_index_def rs_new_def Let_def)

theorem raft_single_vote_witness:
  "\<exists>n hist. vote_run mem_ops (fresh_node [(2, ''b''), (3, ''c'')]) n hist \<and> (1, 2) \<in> set hist \<and>
     (\<forall>d. (1, d) \<in> set hist \<longrightarrow> 2 = d)"
proof -
  let ?n0 = "fresh_node [(2, ''b''), (3, ''c'')]" and ?ev = "RecvVote sample_clock (sample_vote 2)"
  have run: "vote_run mem_ops ?n0 (raft_handle mem_ops ?ev ?n0) (grants mem_ops ?ev ?n0 @ [])"
    by (rule vote_run.step [OF vote_run.start]) (simp_all add: rs_new_def u64_max_def)
  have g: "(1, 2) \<in> set (grants mem_ops ?ev ?n0 @ [])"
    by (simp add: handle_rstates rs_handle_request_vote_def rs_new_def sample_vote_def
        become_follower_def is_log_up_to_date_def last_log_index_def last_log_term_def Let_def)
  then show ?thesis using run raft_single_vote [OF run g] by blast
qed

text \<open>
  A candidate can vote twice. A candidate that has voted for itself and receives an
  AppendEntries of its own term forgets that vote, so it grants its vote of the same term to another
  candidate with an up-to-date log.
\<close>

theorem raft_candidate_votes_twice:
  assumes "role (rstate n) = Candidate" and "voted_for (rstate n) = Some (node n)"
    and "ae_term a = current_term (rstate n)" and "rv_term v = current_term (rstate n)"
    and "is_log_up_to_date (rstate (fst (handle_append_entries S c a n))) (rv_last_log_index v) (rv_last_log_term v)"
  shows "voted_for (rstate (fst (handle_append_entries S c a n))) = None \<and>
         rvr_vote_granted (snd (handle_request_vote S c v (fst (handle_append_entries S c a n)))) \<and>
         rvr_term (snd (handle_request_vote S c v (fst (handle_append_entries S c a n)))) =
           current_term (rstate n)"
proof -
  let ?s = "fst (rs_handle_append_entries c a (rstate n))"
  have s: "voted_for ?s = None" "current_term ?s = current_term (rstate n)"
    using assms(1,3)
    by (auto simp: rs_handle_append_entries_def become_follower_def Let_def)
  then show ?thesis
    using assms(4,5) by (simp add: handle_rstates rs_handle_request_vote_def Let_def)
qed

definition sample_append :: "append_entries_request" where
  "sample_append = \<lparr>ae_term = 1, ae_leader_id = 3, ae_prev_log_index = 0, ae_prev_log_term = 0,
     ae_entries = [], ae_leader_commit = 0\<rparr>"

lemma sample_candidate:
  "fst (start_election mem_ops sample_clock (fresh_node [(2, ''b''), (3, ''c'')])) =
     (fresh_node [(2, ''b''), (3, ''c'')])
       \<lparr>rstate := (become_candidate sample_clock (rs_new sample_clock))\<lparr>voted_for := Some 1\<rparr>,
        storage := ms_new\<lparr>ms_hard_state := \<lparr>hs_term = 1, hs_voted_for = Some 1, hs_commit = 0\<rparr>\<rparr>\<rparr>"
  by (simp add: start_election_def persist_def mem_ops_def Let_def ms_save_hard_state_def
      hard_state_of_def become_candidate_def rs_new_def u64_succ_def)

theorem raft_candidate_votes_twice_witness:
  "let n = fst (start_election mem_ops sample_clock (fresh_node [(2, ''b''), (3, ''c'')]));
       n' = fst (handle_append_entries mem_ops sample_clock sample_append n)
   in voted_for (rstate n) = Some 1 \<and>
      rvr_vote_granted (snd (handle_request_vote mem_ops sample_clock (sample_vote 2) n'))"
  using raft_candidate_votes_twice [where S = mem_ops and c = sample_clock and a = sample_append
      and v = "sample_vote 2"
      and n = "fst (start_election mem_ops sample_clock (fresh_node [(2, ''b''), (3, ''c'')]))"]
  by (simp add: sample_candidate Let_def sample_append_def sample_vote_def become_candidate_def
      rs_new_def u64_succ_def handle_rstates is_log_up_to_date_def rs_handle_append_entries_def
      become_follower_def last_log_index_def last_log_term_def merge_log_def)

definition event_term_ok :: "'st storage_ops \<Rightarrow> raft_event \<Rightarrow> 'st raft_node \<Rightarrow> bool" where
  "event_term_ok S ev n \<longleftrightarrow>
     current_term (rstate n) \<le> current_term (rstate (raft_handle S ev n)) \<and>
     (case ev of
        RecvVote c v \<Rightarrow>
          rvr_vote_granted (snd (handle_request_vote S c v n)) \<longrightarrow>
            rv_term v = current_term (rstate (raft_handle S ev n)) \<and>
            (last_log_term (rstate n) < rv_last_log_term v \<or>
             last_log_term (rstate n) = rv_last_log_term v \<and> last_log_index (rstate n) \<le> rv_last_log_index v)
      | _ \<Rightarrow> True)"

lemma vote_needs_log:
  assumes "rs_handle_request_vote c v s = (s', resp, b)" and "rvr_vote_granted resp"
  shows "last_log_term s < rv_last_log_term v \<or>
         last_log_term s = rv_last_log_term v \<and> last_log_index s \<le> rv_last_log_index v"
proof -
  have "is_log_up_to_date (if rv_term v > current_term s then become_follower c (rv_term v) None s else s)
      (rv_last_log_index v) (rv_last_log_term v)"
    using assms by (auto simp: rs_handle_request_vote_def Let_def split: if_splits)
  then have "is_log_up_to_date s (rv_last_log_index v) (rv_last_log_term v)"
    by (auto simp: is_log_up_to_date_def last_log_term_def last_log_index_def become_follower_def
        Let_def split: if_splits)
  then show ?thesis by (auto simp: is_log_up_to_date_def Let_def split: if_splits)
qed

text \<open>
  C12: The term of a node never decreases, whatever it handles, as long as the counter has not reached
  its maximum; and a node grants a vote only in its current term, to a candidate whose last log entry
  has a greater term than its own last entry, or the same term and at least the same index.
\<close>

theorem raft_terms_and_election_restriction:
  assumes "current_term (rstate n) < u64_max"
  shows "event_term_ok S ev n"
proof (cases ev)
  case (RecvAppend c a)
  obtain s' resp b where "rs_handle_append_entries c a (rstate n) = (s', resp, b)"
    by (metis prod_cases3)
  then show ?thesis
    using append_entries_steps(1) [of c a "rstate n" s' resp b] RecvAppend
    by (simp add: event_term_ok_def handle_rstates term_step_def)
next
  case (RecvVote c v)
  obtain s' resp b where r: "rs_handle_request_vote c v (rstate n) = (s', resp, b)"
    by (metis prod_cases3)
  then show ?thesis
    using request_vote_steps [OF r] vote_needs_log [OF r] RecvVote
    by (auto simp: event_term_ok_def handle_rstates vote_step_def)
next
  case (RecvSnapshot c a)
  then show ?thesis using snapshot_steps [of n S c a] by (auto simp: event_term_ok_def vote_step_def)
qed (use assms in \<open>simp_all add: event_term_ok_def propose_vote_term election_terms match_steps
      force_become_leader_def u64_succ_less Let_def\<close>)

theorem raft_terms_and_election_restriction_witness:
  "event_term_ok mem_ops (RecvVote sample_clock (sample_vote 2)) (fresh_node [(2, ''b'')])"
  by (rule raft_terms_and_election_restriction) (simp add: rs_new_def u64_max_def)

subsection \<open>The log of a follower\<close>

lemma last_log_index_wf: "log_wf (rlog s) \<Longrightarrow> last_log_index s = length (rlog s)"
proof (cases "rlog s" rule: rev_cases)
  case (snoc es e)
  assume "log_wf (rlog s)"
  with snoc show ?thesis by (simp add: last_log_index_def log_from_append log_from_Cons)
qed (simp add: last_log_index_def)

lemma append_success:
  assumes "rs_handle_append_entries c req s = (s', resp, b)" and "aer_success resp"
  shows "rlog s' = merge_log (ae_entries req) (rlog s)"
    and "ae_prev_log_index req > 0 \<longrightarrow> term_at (rlog s) (ae_prev_log_index req) = ae_prev_log_term req"
    and "commit_index s' = (if ae_leader_commit req > commit_index s
           then min (ae_leader_commit req) (last_log_index s') else commit_index s)"
    and "current_term s' = ae_term req \<and> role s' \<noteq> Candidate"
  using assms
  by (auto simp: rs_handle_append_entries_def become_follower_def log_term_at_def last_log_index_def
      Let_def split: if_splits)

text \<open>
  C11: A follower that accepts entries takes over the leader's. For a log and a request with consecutive
  indices, a successful AppendEntries keeps the log consecutive; the previous entry has the leader's term
  and nothing up to it changes. The follower keeps its log up to the first of its entries whose term
  differs from the one sent at that index, or all of it, and behind that it has exactly the entries sent,
  data included. So the log reaches the last entry sent, has the leader's term at the index of each, and
  an entry it already held with the index and the term of a sent one stays as it was.
\<close>

theorem raft_follower_log:
  assumes res: "rs_handle_append_entries c req s = (s', resp, b)" "aer_success resp"
    and wf: "log_wf (rlog s)" and es: "log_from (ae_prev_log_index req) (ae_entries req)"
    and prev: "ae_prev_log_index req > 0 \<longrightarrow> ae_prev_log_term req > 0"
  shows "log_wf (rlog s') \<and>
         take (ae_prev_log_index req) (rlog s') = take (ae_prev_log_index req) (rlog s) \<and>
         (ae_prev_log_index req > 0 \<longrightarrow> log_term_at s' (ae_prev_log_index req) = ae_prev_log_term req) \<and>
         ae_prev_log_index req + length (ae_entries req) \<le> last_log_index s' \<and>
         (\<forall>e\<in>set (ae_entries req). log_term_at s' (le_index e) = le_term e) \<and>
         (\<exists>m. ae_prev_log_index req \<le> m \<and> m \<le> length (rlog s) \<and>
            rlog s' = take m (rlog s) @ drop (m - ae_prev_log_index req) (ae_entries req) \<and>
            (\<forall>e\<in>set (ae_entries req). le_index e \<le> m \<longrightarrow> le_term (rlog s ! (le_index e - 1)) = le_term e) \<and>
            (m = length (rlog s) \<or>
             (\<exists>e\<in>set (ae_entries req). le_index e = Suc m \<and> le_term (rlog s ! m) \<noteq> le_term e)))"
proof -
  let ?p = "ae_prev_log_index req"
  note a = append_success [OF res]
  have p: "?p \<le> length (rlog s)"
    using a(2) prev term_at_pos [OF wf, of ?p] by (cases "?p = 0") auto
  note m = merge_log_spec [OF wf es p, folded a(1)]
  have "log_term_at s' ?p = term_at (rlog s) ?p"
  proof -
    have "term_at (take ?p (rlog s')) ?p = term_at (take ?p (rlog s)) ?p" using m(2) by simp
    then show ?thesis using term_at_take [OF m(1)] term_at_take [OF wf] by (simp add: log_term_at_def)
  qed
  then show ?thesis
    using m(1-4) a(2) last_log_index_wf [OF m(1)] by (intro conjI m(5)) (simp_all add: log_term_at_def)
qed

definition entry :: "nat \<Rightarrow> nat \<Rightarrow> log_entry" where
  "entry i t = \<lparr>le_index = i, le_term = t, le_data = [], le_type = Normal\<rparr>"

definition log_state :: "log_entry list \<Rightarrow> raft_state" where
  "log_state es = (rs_new sample_clock)\<lparr>rlog := es, current_term := 2\<rparr>"

definition append_req :: "nat \<Rightarrow> nat \<Rightarrow> log_entry list \<Rightarrow> nat \<Rightarrow> append_entries_request" where
  "append_req pi pt es lc = \<lparr>ae_term = 2, ae_leader_id = 3, ae_prev_log_index = pi,
     ae_prev_log_term = pt, ae_entries = es, ae_leader_commit = lc\<rparr>"

lemmas raft_eval = rs_handle_append_entries_def append_req_def log_state_def rs_new_def entry_def
  log_term_at_def term_at_def merge_log_def truncate_conflict_def append_missing_def
  last_log_index_def Let_def log_from_def

theorem raft_follower_log_witness:
  "rlog (fst (rs_handle_append_entries sample_clock (append_req 1 1 [entry 2 2, entry 3 2] 0)
               (log_state [entry 1 1, entry 2 1]))) = [entry 1 1, entry 2 2, entry 3 2]"
proof -
  let ?r = "append_req 1 1 [entry 2 2, entry 3 2] 0" and ?s = "log_state [entry 1 1, entry 2 1]"
  obtain s' resp b where r: "rs_handle_append_entries sample_clock ?r ?s = (s', resp, b)"
    by (metis prod_cases3)
  moreover have "aer_success resp" using r by (auto simp: raft_eval)
  ultimately have "\<exists>m. ae_prev_log_index ?r \<le> m \<and> m \<le> length (rlog ?s) \<and>
      rlog s' = take m (rlog ?s) @ drop (m - ae_prev_log_index ?r) (ae_entries ?r) \<and>
      (\<forall>e\<in>set (ae_entries ?r). le_index e \<le> m \<longrightarrow> le_term (rlog ?s ! (le_index e - 1)) = le_term e) \<and>
      (m = length (rlog ?s) \<or> (\<exists>e\<in>set (ae_entries ?r). le_index e = Suc m \<and> le_term (rlog ?s ! m) \<noteq> le_term e))"
    by (rule raft_follower_log [THEN conjunct2, THEN conjunct2, THEN conjunct2, THEN conjunct2, THEN conjunct2])
      (simp_all add: append_req_def log_state_def entry_def log_from_def)
  moreover have "ae_prev_log_index ?r = 1" "ae_entries ?r = [entry 2 2, entry 3 2]" "rlog ?s = [entry 1 1, entry 2 1]"
    by (simp_all add: append_req_def log_state_def)
  ultimately obtain m where m: "1 \<le> m" "m \<le> 2" "rlog s' = take m [entry 1 1, entry 2 1] @ drop (m - 1) [entry 2 2, entry 3 2]"
    "\<forall>e\<in>set [entry 2 2, entry 3 2]. le_index e \<le> m \<longrightarrow> le_term ([entry 1 1, entry 2 1] ! (le_index e - 1)) = le_term e"
    by (metis length_Cons list.size(3) One_nat_def numeral_2_eq_2)
  then have "m \<noteq> 2" by (auto simp: entry_def)
  then have "m = 1" using m(1,2) by simp
  then show ?thesis using m(3) r by simp
qed

text \<open>
  A follower commits entries it was not asked about. The commit index is bounded by the last index
  of the follower's own log, not by the last entry the request vouches for: a successful request
  without entries, whose previous index lies before the end of the log, commits the whole rest of
  the log, of whatever term.
\<close>

theorem raft_commits_unverified_suffix:
  assumes res: "rs_handle_append_entries c req s = (s', resp, b)" "aer_success resp"
    and none: "ae_entries req = []" and behind: "ae_prev_log_index req < last_log_index s"
    and lc: "last_log_index s \<le> ae_leader_commit req" "commit_index s < last_log_index s"
  shows "commit_index s' = last_log_index s \<and> rlog s' = rlog s \<and> ae_prev_log_index req < commit_index s'"
proof -
  have "rlog s' = rlog s" using append_success(1) [OF res] none by (simp add: merge_log_def)
  moreover then have "last_log_index s' = last_log_index s" by (simp add: last_log_index_def)
  ultimately show ?thesis using append_success(3) [OF res] lc behind by simp
qed

theorem raft_commits_unverified_suffix_witness:
  "let s' = fst (rs_handle_append_entries sample_clock (append_req 1 1 [] 2)
               (log_state [entry 1 1, entry 2 1]))
   in commit_index s' = 2"
proof -
  let ?r = "append_req 1 1 [] 2" and ?s = "log_state [entry 1 1, entry 2 1]"
  obtain s' resp b where r: "rs_handle_append_entries sample_clock ?r ?s = (s', resp, b)"
    by (metis prod_cases3)
  moreover have "aer_success resp" using r by (auto simp: raft_eval)
  ultimately have "commit_index s' = last_log_index ?s"
    by (rule raft_commits_unverified_suffix [THEN conjunct1]) (simp_all add: raft_eval)
  then show ?thesis using r by (simp add: raft_eval)
qed

subsection \<open>The commit rule of the leader\<close>

text \<open>
  C13: What a leader commits on an acknowledgement is stored by a majority. With an odd number of nodes, if
  recording the match index of a follower changes the commit index, the node is the leader, the commit
  index grew to an entry of its own term, and more than half of all nodes, the leader counted, have
  reached it by their match indices. This is the way in which acknowledgements of followers commit;
  \<open>propose\<close> counts simulated acknowledgements instead, and with an even number of nodes the rule is wrong.
\<close>

theorem raft_commit_needs_majority:
  fixes n :: "'st raft_node" and S :: "'st storage_ops" and p i :: nat
  defines "s' \<equiv> rstate (update_match_index S p i n)"
  assumes changed: "commit_index s' \<noteq> commit_index (rstate n)" and odd: "even (length (next_index s'))"
  shows "role (rstate n) = Leader \<and> match_of s' p = i \<and>
         commit_index (rstate n) < commit_index s' \<and> log_term_at s' (commit_index s') = current_term s' \<and>
         Suc (length (next_index s')) <
           2 * (length (filter (\<lambda>q. commit_index s' \<le> match_of s' q) (map fst (next_index s'))) +
                (if commit_index s' \<le> last_log_index s' then 1 else 0))"
proof -
  let ?s = "rstate n"
  define s1 where "s1 = ?s\<lparr>match_index := bt_insert p i (match_index ?s),
    next_index := bt_insert p (u64_succ i) (next_index ?s)\<rparr>"
  obtain s2 adv where a: "advance_commit_index (map fst (next_index s1)) s1 = (s2, adv)" by fastforce
  have keep: "rstate (fst (persist S m)) = rstate m" for m :: "'st raft_node"
    by (simp add: persist_def split: prod.splits)
  have leader: "role ?s = Leader"
  proof (rule ccontr)
    assume "role ?s \<noteq> Leader"
    then have "s' = ?s" by (simp add: s'_def update_match_index_def Let_def)
    then show False using changed by simp
  qed
  then have s': "s' = s2"
    using a by (simp add: s'_def update_match_index_def Let_def keep flip: s1_def)
  have c1: "commit_index s1 = commit_index ?s" by (simp add: s1_def)
  then have adv: "advance_commit_index (map fst (next_index s1)) s1 = (s', True)"
    using a changed s' advance_commit_False [of "map fst (next_index s1)" s1 s2] by (cases adv) auto
  note spec = advance_commit_spec [OF adv]
  define k where "k = commit_index s'"
  have eq: "s' = s1\<lparr>commit_index := k\<rparr>" using spec(3) by (simp add: k_def)
  then have same: "match_of s' = match_of s1" "next_index s' = next_index s1" "last_log_index s' = last_log_index s1"
    "log_term_at s' = log_term_at s1" "current_term s' = current_term s1"
    by (simp_all add: match_of_def last_log_index_def log_term_at_def fun_eq_iff)
  have "match_of s' p = i" by (simp add: same(1) s1_def match_of_def bt_get_insert)
  moreover have "Suc (length (next_index s')) <
      2 * (length (filter (\<lambda>q. k \<le> match_of s' q) (map fst (next_index s'))) + (if k \<le> last_log_index s' then 1 else 0))"
    using spec(4) odd by (auto simp: same k_def even_iff_mod_2_eq_zero; presburger)
  ultimately show ?thesis
    using leader spec(1,2) c1 same(4,5) by (simp add: k_def)
qed

definition leader_state :: "(node_id, nat) btree_map \<Rightarrow> raft_state" where
  "leader_state m = (log_state [entry 1 2, entry 2 2])
     \<lparr>role := Leader, next_index := map (\<lambda>(p, i). (p, i + 1)) m, match_index := m\<rparr>"

theorem raft_commit_needs_majority_witness:
  "let n = (fresh_node [(2, ''b''), (3, ''c'')])\<lparr>rstate := leader_state [(2, 0), (3, 0)]\<rparr>;
       s' = rstate (update_match_index mem_ops 2 2 n)
   in 3 < 2 * (length (filter (\<lambda>q. commit_index s' \<le> match_of s' q) [2, 3]) +
        (if commit_index s' \<le> last_log_index s' then 1 else 0))"
proof -
  let ?n = "(fresh_node [(2, ''b''), (3, ''c'')])\<lparr>rstate := leader_state [(2, 0), (3, 0)]\<rparr>"
  let ?s' = "rstate (update_match_index mem_ops 2 2 ?n)"
  have s': "?s' = (leader_state [(2, 2), (3, 0)])\<lparr>next_index := [(2, 3), (3, 1)], commit_index := 2\<rparr>"
    by (simp add: update_match_index_def advance_commit_index_def leader_state_def match_of_def bt_get_def
        raft_eval persist_def mem_ops_def bt_insert.simps u64_succ_def)
  have "Suc (length (next_index ?s')) <
      2 * (length (filter (\<lambda>q. commit_index ?s' \<le> match_of ?s' q) (map fst (next_index ?s'))) +
           (if commit_index ?s' \<le> last_log_index ?s' then 1 else 0))"
  proof (rule raft_commit_needs_majority [THEN conjunct2, THEN conjunct2, THEN conjunct2, THEN conjunct2])
    show "commit_index ?s' \<noteq> commit_index (rstate ?n)" unfolding s' by (simp add: leader_state_def raft_eval)
    show "even (length (next_index ?s'))" unfolding s' by simp
  qed
  moreover have "map fst (next_index ?s') = [2, 3]" "length (next_index ?s') = 2" by (simp_all add: s')
  ultimately show ?thesis by (simp add: Let_def)
qed

text \<open>
  A proposal commits without any follower. A leader with peers that appends a proposal counts each peer as
  an acknowledgement without sending it anything: the entry is committed at once, while what is known of
  the followers has not changed.
\<close>

theorem propose_commits_unreplicated:
  fixes n :: "mem_storage raft_node" and payload :: bytes
  defines "s \<equiv> rstate n" and "s' \<equiv> rstate (fst (propose mem_ops payload n))"
  assumes "role s = Leader" and "log_wf (rlog s)" and "peers n \<noteq> []" and "0 < current_term s"
    and "commit_index s \<le> length (rlog s)" and "length (rlog s) < u64_max"
  shows "commit_index s' = Suc (length (rlog s)) \<and> match_index s' = match_index s"
proof -
  let ?e = "\<lparr>le_index = Suc (length (rlog s)), le_term = current_term s, le_data = payload, le_type = Normal\<rparr>"
  have last: "u64_succ (last_log_index s) = Suc (length (rlog s))"
    using assms(4,8) by (simp add: last_log_index_wf u64_succ_less)
  have acks: "fold (\<lambda>_. Suc) ps k = k + length ps" for ps :: "(node_id \<times> string) list" and k
    by (induction ps arbitrary: k) simp_all
  have "log_wf (rlog s @ [?e])" using assms(4,6) by (simp add: log_from_append log_from_Cons)
  then have t: "term_at (rlog s @ [?e]) (Suc (length (rlog s))) = current_term s"
    by (simp add: term_at_log nth_append)
  have "1 \<le> length (peers n)" using assms(5) by (cases "peers n") auto
  then have "Suc (length (peers n)) div 2 + 1 \<le> 1 + length (peers n)" by simp
  then show ?thesis
    using assms(3,5,7) t last
    by (simp add: s'_def s_def propose_def replicate_and_commit_def mem_ops_def persist_def Let_def acks
        log_term_at_def)
qed

theorem propose_commits_unreplicated_witness:
  "let n = (fresh_node [(2, ''b''), (3, ''c'')])\<lparr>rstate := leader_state [(2, 0), (3, 0)]\<rparr>;
       s' = rstate (fst (propose mem_ops [7] n))
   in commit_index s' = 3 \<and> match_index s' = [(2, 0), (3, 0)]"
proof -
  let ?n = "(fresh_node [(2, ''b''), (3, ''c'')])\<lparr>rstate := leader_state [(2, 0), (3, 0)]\<rparr>"
  have "peers ?n = [(2, ''b''), (3, ''c'')]" by (simp add: fresh_node_def raft_new_def Let_def split: option.splits)
  then show ?thesis
    using propose_commits_unreplicated [of ?n "[7]"]
    by (simp add: Let_def leader_state_def log_state_def entry_def rs_new_def log_from_Cons u64_max_def)
qed

text \<open>
  With two nodes a leader commits on its own. When the only follower acknowledges nothing at all
  (match index 0), the leader commits its whole log: the index \<open>total / 2\<close> of the sorted match
  indices is the greater of the two.
\<close>

theorem raft_two_nodes_commit_alone:
  assumes "role (rstate n) = Leader" and "map fst (next_index (rstate n)) = [p]"
    and "commit_index (rstate n) < last_log_index (rstate n)"
    and "log_term_at (rstate n) (last_log_index (rstate n)) = current_term (rstate n)"
  shows "commit_index (rstate (update_match_index S p 0 n)) = last_log_index (rstate n) \<and>
         match_of (rstate (update_match_index S p 0 n)) p = 0"
proof -
  let ?s = "rstate n"
  obtain i where ni: "next_index ?s = [(p, i)]" using assms(2) by (cases "next_index ?s") auto
  let ?s1 = "?s\<lparr>match_index := bt_insert p 0 (match_index ?s), next_index := [(p, Suc 0)]\<rparr>"
  have last: "last_log_index ?s1 = last_log_index ?s" by (simp add: last_log_index_def)
  have m: "match_of ?s1 p = 0" by (simp add: match_of_def bt_get_insert)
  have "sort (map (match_of ?s1) [p] @ [last_log_index ?s1]) = [0, last_log_index ?s]"
    by (simp add: m last)
  then have "advance_commit_index [p] ?s1 = (?s1\<lparr>commit_index := last_log_index ?s\<rparr>, True)"
    using assms(3,4) by (simp add: advance_commit_index_def log_term_at_def Let_def)
  then have "rstate (update_match_index S p 0 n) = ?s1\<lparr>commit_index := last_log_index ?s\<rparr>"
    using assms(1) by (simp add: update_match_index_def ni u64_succ_def Let_def)
  then show ?thesis using m by (simp add: match_of_def)
qed

theorem raft_two_nodes_commit_alone_witness:
  "let n = (fresh_node [(2, ''b'')])\<lparr>rstate := leader_state [(2, 0)]\<rparr>
   in commit_index (rstate (update_match_index mem_ops 2 0 n)) = 2"
proof -
  let ?n = "(fresh_node [(2, ''b'')])\<lparr>rstate := leader_state [(2, 0)]\<rparr>"
  have "commit_index (rstate (update_match_index mem_ops 2 0 ?n)) = last_log_index (rstate ?n)"
    by (rule raft_two_nodes_commit_alone [THEN conjunct1]) (simp_all add: leader_state_def raft_eval)
  then show ?thesis by (simp add: leader_state_def raft_eval)
qed

subsection \<open>Restarts\<close>

text \<open>
  A granted vote survives a crash. After a node with the in-memory storage has granted a vote and
  restarts from what it stored, it is in the same term with the same vote, and refuses every other
  candidate of that term.
\<close>

theorem raft_vote_survives_restart:
  fixes n :: "mem_storage raft_node" and c c2 c3 :: clock and v w :: request_vote_request
    and i :: node_id and ps :: "(node_id \<times> string) list"
  defines "n1 \<equiv> fst (handle_request_vote mem_ops c v n)"
  defines "n2 \<equiv> raft_new mem_ops c2 i ps (storage n1)"
  assumes granted: "rvr_vote_granted (snd (handle_request_vote mem_ops c v n))"
    and other: "rv_term w = rv_term v" "rv_candidate_id w \<noteq> rv_candidate_id v"
  shows "current_term (rstate n2) = rv_term v \<and> voted_for (rstate n2) = Some (rv_candidate_id v) \<and>
         \<not> rvr_vote_granted (snd (handle_request_vote mem_ops c3 w n2))"
proof -
  obtain s' resp b where r: "rs_handle_request_vote c v (rstate n) = (s', resp, b)"
    by (metis prod_cases3)
  have g: "rvr_vote_granted resp" using granted r by (simp add: handle_rstates)
  note steps = request_vote_steps(2,3) [OF r g]
  let ?m = "n\<lparr>rstate := s'\<rparr>"
  have n1: "n1 = fst (persist mem_ops ?m)"
    using r steps by (simp add: n1_def handle_request_vote_def)
  have "current_term (rstate n2) = current_term s'" "voted_for (rstate n2) = voted_for s'"
    using mem.restart_after_persist [of ?m c2 i ps] by (simp_all add: n2_def n1)
  with steps have t: "current_term (rstate n2) = rv_term v" "voted_for (rstate n2) = Some (rv_candidate_id v)"
    by simp_all
  then have "\<not> rvr_vote_granted (snd (handle_request_vote mem_ops c3 w n2))"
    using other by (simp add: handle_rstates rs_handle_request_vote_def Let_def)
  with t show ?thesis by simp
qed

theorem raft_vote_survives_restart_witness:
  "let n1 = fst (handle_request_vote mem_ops sample_clock (sample_vote 2) (fresh_node [(2, ''b''), (3, ''c'')]));
       n2 = raft_new mem_ops sample_clock 1 [] (storage n1)
   in \<not> rvr_vote_granted (snd (handle_request_vote mem_ops sample_clock (sample_vote 3) n2))"
  unfolding Let_def
  by (rule raft_vote_survives_restart [THEN conjunct2, THEN conjunct2])
    (simp_all add: handle_rstates rs_handle_request_vote_def rs_new_def sample_vote_def
      become_follower_def is_log_up_to_date_def last_log_index_def last_log_term_def Let_def)

text \<open>
  Acknowledged entries are lost in a restart. A follower acknowledges entries without writing them
  to its storage: a restart finds the log it would have found before the request, while the commit
  index it stored may already count the new entries.
\<close>

theorem raft_restart_loses_entries:
  fixes n :: "mem_storage raft_node" and c c' :: clock and req :: append_entries_request
    and i :: node_id and ps :: "(node_id \<times> string) list"
  defines "n1 \<equiv> fst (handle_append_entries mem_ops c req n)"
  assumes ok: "aer_success (snd (handle_append_entries mem_ops c req n))"
  shows "rlog (rstate (raft_new mem_ops c' i ps (storage n1))) =
           rlog (rstate (raft_new mem_ops c' i ps (storage n))) \<and>
         commit_index (rstate (raft_new mem_ops c' i ps (storage n1))) = commit_index (rstate n1)"
proof -
  obtain s' resp b where r: "rs_handle_append_entries c req (rstate n) = (s', resp, b)"
    by (metis prod_cases3)
  have b: "b" using ok r by (auto simp: handle_rstates rs_handle_append_entries_def Let_def split: if_splits)
  let ?m = "n\<lparr>rstate := s'\<rparr>"
  have n1: "n1 = fst (persist mem_ops ?m)" using r b by (simp add: n1_def handle_append_entries_def)
  show ?thesis
    using mem.restart_after_persist(3) [of ?m c' i ps] mem.persist_stored_log [of ?m]
    by (simp add: mem.restart_log n1)
qed

theorem raft_restart_loses_entries_witness:
  "let req = (append_req 0 0 [entry 1 2] 1); n = fresh_node [(3, ''c'')];
       n1 = fst (handle_append_entries mem_ops sample_clock req n);
       n2 = raft_new mem_ops sample_clock 1 [(3, ''c'')] (storage n1)
   in rlog (rstate n1) = [entry 1 2] \<and> rlog (rstate n2) = [] \<and> commit_index (rstate n2) = 1"
  using raft_restart_loses_entries [of sample_clock "append_req 0 0 [entry 1 2] 1" "fresh_node [(3, ''c'')]"
      sample_clock 1 "[(3, ''c'')]"]
  by (simp add: handle_rstates raft_eval become_follower_def raft_new_def mem_ops_def ms_new_def
      ms_last_index_def)

text \<open>
  After a snapshot a follower accepts no more entries. Once a snapshot has covered its whole log,
  the log is empty and nothing records the snapshot's last index and term, so the follower rejects
  every AppendEntries whose previous entry has a positive index and term, in particular the one that
  follows the snapshot.
\<close>

theorem raft_snapshot_blocks_replication:
  assumes acc: "current_term (rstate n) \<le> is_term snap"
    and covers: "\<forall>e\<in>set (rlog (rstate n)). le_index e \<le> is_last_included_index snap"
    and req: "0 < ae_prev_log_index req" "0 < ae_prev_log_term req"
  shows "\<not> aer_success (snd (handle_append_entries S c req (fst (handle_install_snapshot S c' snap n))))"
proof -
  have "rlog (rstate (fst (handle_install_snapshot S c' snap n))) = []"
    using acc covers
    by (auto simp: handle_install_snapshot_def become_follower_def Let_def filter_empty_conv)
  then show ?thesis
    using req by (auto simp: handle_rstates rs_handle_append_entries_def become_follower_def
        log_term_at_def term_at_def Let_def)
qed

definition sample_snapshot :: "install_snapshot_request" where
  "sample_snapshot = \<lparr>is_term = 2, is_leader_id = 3, is_last_included_index = 5,
     is_last_included_term = 2, is_data = []\<rparr>"

theorem raft_snapshot_blocks_replication_witness:
  "\<not> aer_success (snd (handle_append_entries mem_ops sample_clock (append_req 5 2 [entry 6 2] 6)
      (fst (handle_install_snapshot mem_ops sample_clock sample_snapshot (fresh_node [(3, ''c'')])))))"
  by (rule raft_snapshot_blocks_replication)
    (simp_all add: rs_new_def sample_snapshot_def append_req_def)

subsection \<open>A cluster of one node\<close>

lemma log_put_end: "log_wf log \<Longrightarrow> le_index e = Suc (length log) \<Longrightarrow> log_put e log = log @ [e]"
proof -
  assume wf: "log_wf log" and e: "le_index e = Suc (length log)"
  have "le_index x \<le> length log" if "x \<in> set log" for x
  proof -
    have "le_index x \<in> set (map le_index log)" using that by simp
    then show ?thesis using wf unfolding log_from_def by auto
  qed
  then have "takeWhile (\<lambda>x. \<not> le_index x \<ge> le_index e) log = log"
    using e by (auto simp: takeWhile_eq_all_conv) (meson le_trans not_less_eq_eq)
  with e show ?thesis by (simp add: log_put_def)
qed

lemma ms_get_all: "log_wf (ms_log st) \<Longrightarrow> ms_get_entries 1 (length (ms_log st)) st = ms_log st"
proof -
  assume wf: "log_wf (ms_log st)"
  have "1 \<le> le_index x \<and> le_index x \<le> length (ms_log st)" if "x \<in> set (ms_log st)" for x
  proof -
    have "le_index x \<in> set (map le_index (ms_log st))" using that by simp
    then show ?thesis using wf unfolding log_from_def by auto
  qed
  then show ?thesis by (simp add: ms_get_entries_def)
qed

text \<open>
  Elections and proposals. \<open>start_election\<close> makes a node leader exactly when it has no peers (no
  remote votes are counted). In a cluster of one node whose storage holds its log, a proposal after
  the election succeeds, commits the new entry, and a restart finds the whole log with the entry and
  the commit index.
\<close>

theorem raft_single_node:
  fixes n :: "mem_storage raft_node" and c c' :: clock and payload :: bytes
  assumes wf: "log_wf (rlog (rstate n))" and st: "ms_log (storage n) = rlog (rstate n)"
    and small: "current_term (rstate n) < u64_max" "length (rlog (rstate n)) < u64_max"
  defines "n1 \<equiv> fst (start_election mem_ops c n)"
  defines "n2 \<equiv> fst (propose mem_ops payload n1)"
  defines "n3 \<equiv> raft_new mem_ops c' (node n) [] (storage n2)"
  shows "(snd (start_election mem_ops c n) \<longleftrightarrow> peers n = []) \<and>
         (peers n = [] \<longrightarrow>
            snd (propose mem_ops payload n1) = None \<and>
            rlog (rstate n3) = rlog (rstate n) @ [\<lparr>le_index = Suc (length (rlog (rstate n))),
              le_term = Suc (current_term (rstate n)), le_data = payload, le_type = Normal\<rparr>] \<and>
            commit_index (rstate n3) = Suc (length (rlog (rstate n))))"
proof (intro conjI impI)
  show "snd (start_election mem_ops c n) \<longleftrightarrow> peers n = []"
    by (cases "peers n") (auto simp: start_election_def Let_def)
  assume p: "peers n = []"
  let ?log = "rlog (rstate n)"
  let ?e = "\<lparr>le_index = Suc (length ?log), le_term = Suc (current_term (rstate n)),
     le_data = payload, le_type = Normal\<rparr>"
  have n1: "role (rstate n1) = Leader" "rlog (rstate n1) = ?log" "peers n1 = []"
    "current_term (rstate n1) = Suc (current_term (rstate n))" "ms_log (storage n1) = ?log"
    using p small(1) st
    by (simp_all add: n1_def start_election_def Let_def become_candidate_def u64_succ_less persist_def
        mem_ops_def ms_save_hard_state_def)
  have last: "u64_succ (last_log_index (rstate n1)) = Suc (length ?log)"
    using last_log_index_wf [of "rstate n1"] n1(2) wf small(2) by (simp add: u64_succ_less)
  have put: "log_put ?e ?log = ?log @ [?e]" using wf by (simp add: log_put_end)
  have done_prop: "snd (propose mem_ops payload n1) = None" "ms_log (storage n2) = ?log @ [?e]"
    "ms_hard_state (storage n2) = \<lparr>hs_term = Suc (current_term (rstate n)),
       hs_voted_for = voted_for (rstate n1), hs_commit = Suc (length ?log)\<rparr>"
    using n1 last put
    by (simp_all add: n2_def propose_def Let_def split_beta)
      (simp_all add: persist_def mem_ops_def ms_save_hard_state_def ms_append_entries_def hard_state_of_def)
  show "snd (propose mem_ops payload n1) = None" by (rule done_prop(1))
  have "log_wf (?log @ [?e])" using wf by (simp add: log_from_append log_from_Cons)
  then have "ms_get_entries 1 (Suc (length ?log)) (storage n2) = ?log @ [?e]"
    using ms_get_all [of "storage n2"] done_prop(2) by simp
  then show "rlog (rstate n3) = ?log @ [?e]" "commit_index (rstate n3) = Suc (length ?log)"
    using done_prop by (simp_all add: n3_def raft_new_def mem_ops_def ms_last_index_def
        ms_load_hard_state_def Let_def)
qed

theorem raft_single_node_witness:
  "let n = fresh_node []; n1 = fst (start_election mem_ops sample_clock n);
       n2 = fst (propose mem_ops [7] n1);
       n3 = raft_new mem_ops sample_clock (node n) [] (storage n2)
   in snd (propose mem_ops [7] n1) = None \<and> commit_index (rstate n3) = 1"
  using raft_single_node [of "fresh_node []" sample_clock "[7]" sample_clock]
  by (simp add: rs_new_def ms_new_def u64_max_def Let_def)

end
