(* ===== verification/Sharding.thy ===== *)
theory Sharding
  imports Ordered_Map
begin

text \<open>
  The consistent-hash shard manager, \<open>crates/fundb-cluster/src/sharding.rs\<close>. A \<open>HashMap\<close> is an
  ordered map and a \<open>HashSet\<close> a sorted list without repetition, so the migrations of \<open>remove_node\<close>
  come in shard order where the code leaves the order open; likewise the ring is sorted stably where
  \<open>sort_unstable_by_key\<close> leaves the order of equal hashes open. A panic is \<open>None\<close>.
\<close>

type_synonym shard_node = nat
type_synonym shard_id = nat
type_synonym socket_addr = string

definition fnv_offset_basis :: u64 where
  "fnv_offset_basis = 14695981039346656037"

definition fnv_prime :: u64 where
  "fnv_prime = 1099511628211"

definition fnv1a_64 :: "bytes \<Rightarrow> u64" where
  "fnv1a_64 bs = fold (\<lambda>b hash. (hash XOR ucast b) * fnv_prime) bs fnv_offset_basis"

definition as_bytes :: "string \<Rightarrow> bytes" where
  "as_bytes s = map (\<lambda>c. word_of_nat (of_char c)) s"

record shard_migration =
  mig_shard :: shard_id
  from_node :: shard_node
  to_node :: shard_node

record repl_group =
  rg_shard :: shard_id
  rg_leader :: shard_node
  rg_followers :: "shard_node list"
  rg_factor :: nat

record ring_entry =
  re_hash :: u64
  re_node :: shard_node
  re_shard :: shard_id

record shard_map =
  virtual_nodes :: nat
  ring :: "ring_entry list"
  node_addrs :: "(shard_node, socket_addr) btree_map"
  shard_owners :: "(shard_id, shard_node) btree_map"
  collection_shards :: "(string, shard_id list) btree_map"
  replication_factor :: nat
  next_shard_id :: nat

definition sm_new :: "nat \<Rightarrow> shard_map" where
  "sm_new vn =
     \<lparr>virtual_nodes = vn, ring = [], node_addrs = [], shard_owners = [], collection_shards = [],
      replication_factor = 1, next_shard_id = 0\<rparr>"

subsection \<open>Routing\<close>

definition routing_key :: "string \<Rightarrow> bytes \<Rightarrow> string" where
  "routing_key collection record_id = collection @ ''/'' @ hex_bytes record_id"

text \<open>The ring entry at the successor position; an empty ring is indexed out of bounds.\<close>

definition successor_entry :: "ring_entry list \<Rightarrow> u64 \<Rightarrow> ring_entry option" where
  "successor_entry r key_hash =
     (let pos = partition_point (\<lambda>e. re_hash e < key_hash) r
      in if pos < length r then Some (r ! pos)
         else if r = [] then None else Some (r ! 0))"

definition successor_shard :: "shard_map \<Rightarrow> u64 \<Rightarrow> shard_id option" where
  "successor_shard s key_hash = map_option re_shard (successor_entry (ring s) key_hash)"

definition shard_for :: "string \<Rightarrow> bytes \<Rightarrow> shard_map \<Rightarrow> (shard_id \<times> shard_map) option" where
  "shard_for collection record_id s =
     (if ring s = [] then Some (0, s)
      else
        let hash = fnv1a_64 (as_bytes (routing_key collection record_id))
        in case successor_shard s hash of
             None \<Rightarrow> None
           | Some shard \<Rightarrow>
               let used = (case bt_get (collection_shards s) collection of None \<Rightarrow> [] | Some v \<Rightarrow> v)
               in Some (shard, s\<lparr>collection_shards :=
                          bt_insert collection (if shard \<in> set used then used else insort shard used)
                            (collection_shards s)\<rparr>))"

definition shards_for_collection :: "shard_map \<Rightarrow> string \<Rightarrow> shard_id list" where
  "shards_for_collection s collection =
     (case bt_get (collection_shards s) collection of None \<Rightarrow> [] | Some v \<Rightarrow> sort v)"

definition node_for_shard :: "shard_map \<Rightarrow> shard_id \<Rightarrow> shard_node option" where
  "node_for_shard s shard = bt_get (shard_owners s) shard"

definition leader_addr :: "shard_map \<Rightarrow> shard_id \<Rightarrow> socket_addr option" where
  "leader_addr s shard =
     (case bt_get (shard_owners s) shard of
        None \<Rightarrow> None
      | Some n \<Rightarrow> bt_get (node_addrs s) n)"

definition all_nodes :: "shard_map \<Rightarrow> (shard_node \<times> socket_addr) list" where
  "all_nodes s = sort_key fst (node_addrs s)"

subsection \<open>Topology changes\<close>

text \<open>The loop of \<open>recompute_ownership\<close> over the ring, with the owners and the migrations so far.\<close>

fun recompute_loop :: "shard_node option \<Rightarrow> ring_entry list \<Rightarrow> (shard_id, shard_node) btree_map \<Rightarrow>
    shard_migration list \<Rightarrow> (shard_id, shard_node) btree_map \<times> shard_migration list" where
  "recompute_loop new_node [] owners migs = (owners, migs)"
| "recompute_loop new_node (e # es) owners migs =
     (let shard = re_shard e; new_owner = re_node e
      in case bt_get owners shard of
           Some old_owner \<Rightarrow>
             if old_owner \<noteq> new_owner then
               recompute_loop new_node es (bt_insert shard new_owner owners)
                 (if new_node = None \<or> new_node = Some new_owner
                  then migs @ [\<lparr>mig_shard = shard, from_node = old_owner, to_node = new_owner\<rparr>]
                  else migs)
             else recompute_loop new_node es owners migs
         | None \<Rightarrow> recompute_loop new_node es (bt_insert shard new_owner owners) migs)"

definition recompute_ownership ::
  "shard_node option \<Rightarrow> shard_map \<Rightarrow> shard_migration list \<times> shard_map" where
  "recompute_ownership new_node s =
     (let (owners, migs) = recompute_loop new_node (ring s) (shard_owners s) []
      in (migs, s\<lparr>shard_owners := owners\<rparr>))"

text \<open>The ring entries of a node, from the next free shard id on (a u32 counter).\<close>

definition replica_entry :: "shard_node \<Rightarrow> nat \<Rightarrow> shard_id \<Rightarrow> ring_entry" where
  "replica_entry n replica shard =
     \<lparr>re_hash = fnv1a_64 (as_bytes (dec_digits n @ ''#'' @ dec_digits replica)), re_node = n,
      re_shard = shard\<rparr>"

fun push_replicas :: "shard_node \<Rightarrow> nat list \<Rightarrow> ring_entry list \<Rightarrow> nat \<Rightarrow> ring_entry list \<times> nat" where
  "push_replicas n [] r next = (r, next)"
| "push_replicas n (i # is) r next =
     push_replicas n is (r @ [replica_entry n i next]) ((next + 1) mod 2 ^ 32)"

definition add_node :: "shard_node \<Rightarrow> socket_addr \<Rightarrow> shard_map \<Rightarrow> shard_migration list \<times> shard_map" where
  "add_node n addr s =
     (if bt_get (node_addrs s) n \<noteq> None then ([], s)
      else
        let (r, next) = push_replicas n [0..<virtual_nodes s] (ring s) (next_shard_id s);
            s1 = s\<lparr>node_addrs := bt_insert n addr (node_addrs s), ring := sort_key re_hash r,
                   next_shard_id := next\<rparr>
        in recompute_ownership (Some n) s1)"

text \<open>The new owner of a shard of the removed node, whose entries have left the ring.\<close>

definition new_owner :: "shard_node \<Rightarrow> ring_entry list \<Rightarrow> shard_id \<Rightarrow> shard_node option" where
  "new_owner n r shard =
     (case List.find (\<lambda>e. re_shard e = shard) r of
        Some e0 \<Rightarrow>
          (case List.find (\<lambda>e. re_hash e \<ge> re_hash e0 \<and> re_node e \<noteq> n) r of
             Some e \<Rightarrow> Some (re_node e)
           | None \<Rightarrow> map_option re_node (List.find (\<lambda>e. re_node e \<noteq> n) r))
      | None \<Rightarrow>
          let hash = fnv1a_64 (u32_to_le (as_u32 shard))
          in (case List.find (\<lambda>e. re_hash e \<ge> hash) r of
                Some e \<Rightarrow> Some (re_node e)
              | None \<Rightarrow> (if r = [] then None else Some (re_node (hd r)))))"

fun reassign_loop :: "shard_node \<Rightarrow> ring_entry list \<Rightarrow> shard_id list \<Rightarrow>
    (shard_id, shard_node) btree_map \<Rightarrow> (shard_id, shard_node) btree_map \<times> shard_migration list" where
  "reassign_loop n r [] owners = (owners, [])"
| "reassign_loop n r (shard # shards) owners =
     (case new_owner n r shard of
        None \<Rightarrow> reassign_loop n r shards owners
      | Some m \<Rightarrow>
          let (owners1, migs) = reassign_loop n r shards (bt_insert shard m owners)
          in (owners1, \<lparr>mig_shard = shard, from_node = n, to_node = m\<rparr> # migs))"

definition remove_node :: "shard_node \<Rightarrow> shard_map \<Rightarrow> shard_migration list \<times> shard_map" where
  "remove_node n s =
     (if bt_get (node_addrs s) n = None then ([], s)
      else
        let owned = map fst (filter (\<lambda>(_, owner). owner = n) (shard_owners s));
            r = filter (\<lambda>e. re_node e \<noteq> n) (ring s);
            s1 = s\<lparr>ring := r, node_addrs := bt_remove n (node_addrs s)\<rparr>
        in if r = [] then
             (map (\<lambda>shard. \<lparr>mig_shard = shard, from_node = n, to_node = 0\<rparr>) owned,
              s1\<lparr>shard_owners := []\<rparr>)
           else
             let (owners, migs) = reassign_loop n r owned (shard_owners s)
             in (migs, s1\<lparr>shard_owners := owners\<rparr>))"

subsection \<open>Replication groups\<close>

text \<open>
  The walk around the ring: \<open>left\<close> counts the positions not yet visited, so the walk is back at its
  start when it is 0, and the position is \<open>(start + total - left) mod total\<close>.
\<close>

fun follower_walk :: "ring_entry list \<Rightarrow> nat \<Rightarrow> nat \<Rightarrow> nat \<Rightarrow> shard_node list \<Rightarrow> shard_node list \<Rightarrow>
    shard_node list" where
  "follower_walk r need start 0 seen followers = followers"
| "follower_walk r need start (Suc left) seen followers =
     (if length followers < need then
        let idx = (start + length r - Suc left) mod length r; candidate = re_node (r ! idx)
        in if candidate \<notin> set seen
           then follower_walk r need start left (candidate # seen) (followers @ [candidate])
           else follower_walk r need start left seen followers
      else followers)"

definition position :: "('a \<Rightarrow> bool) \<Rightarrow> 'a list \<Rightarrow> nat option" where
  "position P xs = (let n = length (takeWhile (\<lambda>x. \<not> P x) xs) in if n < length xs then Some n else None)"

definition replication_group :: "shard_map \<Rightarrow> shard_id \<Rightarrow> repl_group option" where
  "replication_group s shard =
     (case bt_get (shard_owners s) shard of
        None \<Rightarrow> None
      | Some leader \<Rightarrow>
          let rf = replication_factor s;
              followers =
                (if rf > 1 \<and> length (ring s) > 1 then
                   let start = (case position (\<lambda>e. re_node e = leader) (ring s) of
                                  None \<Rightarrow> 0 | Some i \<Rightarrow> i)
                   in follower_walk (ring s) (rf - 1) start (length (ring s) - 1) [leader] []
                 else [])
          in Some \<lparr>rg_shard = shard, rg_leader = leader, rg_followers = followers, rg_factor = rf\<rparr>)"

definition set_replication_factor :: "nat \<Rightarrow> shard_map \<Rightarrow> shard_map" where
  "set_replication_factor factor s = s\<lparr>replication_factor := factor\<rparr>"

end
