(* ===== verification/Sharding_Facts.thy ===== *)
theory Sharding_Facts
  imports Sharding "HOL-Library.Multiset"
begin

text \<open>
  The invariant of the shard map and what its operations do to ring and ownership: the ring is sorted
  and its shard ids are distinct, every ring entry's shard is owned by the entry's node, and every
  owner has an address.
\<close>

definition nodes_of :: "ring_entry list \<Rightarrow> shard_node set" where
  "nodes_of r = re_node ` set r"

definition sm_inv :: "shard_map \<Rightarrow> bool" where
  "sm_inv s \<longleftrightarrow>
     sorted (map re_hash (ring s)) \<and> distinct (map re_shard (ring s)) \<and>
     bt_inv (node_addrs s) \<and> bt_inv (shard_owners s) \<and>
     (\<forall>e\<in>set (ring s). re_shard e < next_shard_id s \<and>
        bt_get (shard_owners s) (re_shard e) = Some (re_node e)) \<and>
     (\<forall>k n. bt_get (shard_owners s) k = Some n \<longrightarrow>
        k < next_shard_id s \<and> bt_get (node_addrs s) n \<noteq> None) \<and>
     (virtual_nodes s > 0 \<longrightarrow> (\<forall>n. bt_get (node_addrs s) n \<noteq> None \<longrightarrow> n \<in> nodes_of (ring s)))"

lemma sm_inv_new: "sm_inv (sm_new vn)"
  by (simp add: sm_inv_def sm_new_def)

lemma sm_inv_addr_node:
  "sm_inv s \<Longrightarrow> 0 < virtual_nodes s \<Longrightarrow> bt_get (node_addrs s) n \<noteq> None \<Longrightarrow> n \<in> nodes_of (ring s)"
  by (auto simp: sm_inv_def)

lemma sm_inv_owner:
  "sm_inv s \<Longrightarrow> bt_get (shard_owners s) k = Some n \<Longrightarrow>
     k < next_shard_id s \<and> bt_get (node_addrs s) n \<noteq> None"
  by (auto simp: sm_inv_def)

lemma sm_inv_entry:
  "sm_inv s \<Longrightarrow> e \<in> set (ring s) \<Longrightarrow> bt_get (shard_owners s) (re_shard e) = Some (re_node e)"
  by (auto simp: sm_inv_def)

lemma sm_inv_entry_addr:
  "sm_inv s \<Longrightarrow> n \<in> nodes_of (ring s) \<Longrightarrow> bt_get (node_addrs s) n \<noteq> None"
  using sm_inv_entry sm_inv_owner by (fastforce simp: nodes_of_def)

subsection \<open>Successors on a sorted ring\<close>

definition first_of :: "'a list \<Rightarrow> 'a option" where
  "first_of xs = (case xs of [] \<Rightarrow> None | x # _ \<Rightarrow> Some x)"

lemma first_of_filter: "first_of xs = Some x \<Longrightarrow> P x \<Longrightarrow> first_of (filter P xs) = Some x"
  by (cases xs) (auto simp: first_of_def)

lemma successor_entry_first:
  assumes "sorted (map re_hash r)"
  shows "successor_entry r h =
      (if filter (\<lambda>e. h \<le> re_hash e) r = [] then first_of r
       else first_of (filter (\<lambda>e. h \<le> re_hash e) r))"
proof -
  let ?n = "partition_point (\<lambda>e. re_hash e < h) r"
  have d: "drop ?n r = filter (\<lambda>e. h \<le> re_hash e) r"
    using sorted_dropWhile_filter [OF assms] by (simp add: partition_point_def flip: dropWhile_eq_drop)
  show ?thesis
  proof (cases "?n < length r")
    case True
    then have "drop ?n r = r ! ?n # drop (Suc ?n) r" by (simp add: Cons_nth_drop_Suc)
    with True d show ?thesis by (simp add: successor_entry_def first_of_def flip: d)
  next
    case False
    then have "filter (\<lambda>e. h \<le> re_hash e) r = []" by (simp flip: d)
    with False show ?thesis
      by (cases r) (simp_all add: successor_entry_def first_of_def)
  qed
qed

text \<open>
  Taking nodes out of the ring leaves the successor of a key alone when it belongs to another node.
\<close>

lemma successor_entry_filter:
  assumes srt: "sorted (map re_hash r)" and succ: "successor_entry r h = Some e" and P: "P e"
  shows "successor_entry (filter P r) h = Some e"
proof -
  have srt': "sorted (map re_hash (filter P r))" using srt by (simp add: sorted_filter)
  let ?Q = "\<lambda>e. h \<le> re_hash e"
  have comm: "filter ?Q (filter P r) = filter P (filter ?Q r)"
    by (simp add: conj_commute)
  show ?thesis
  proof (cases "filter ?Q r = []")
    case True
    then have "first_of r = Some e" using succ successor_entry_first [OF srt] by simp
    then have "first_of (filter P r) = Some e" using P by (rule first_of_filter)
    with True comm show ?thesis by (simp only: successor_entry_first [OF srt'] filter.simps simp_thms if_True)
  next
    case False
    then have "first_of (filter ?Q r) = Some e" using succ successor_entry_first [OF srt] by simp
    then have f: "first_of (filter P (filter ?Q r)) = Some e" using P by (rule first_of_filter)
    then have "filter P (filter ?Q r) \<noteq> []" by (auto simp: first_of_def)
    with f comm show ?thesis by (simp only: successor_entry_first [OF srt'] if_False)
  qed
qed

lemma successor_entry_mem: "successor_entry r h = Some e \<Longrightarrow> e \<in> set r"
  by (auto simp: successor_entry_def Let_def split: if_splits)

lemma successor_entry_total: "r \<noteq> [] \<Longrightarrow> \<exists>e. successor_entry r h = Some e"
  by (auto simp: successor_entry_def Let_def)

subsection \<open>Adding a node\<close>

lemma distinct_map_sort: "distinct (map f (sort_key g xs)) = distinct (map f xs)"
  by (rule mset_eq_imp_distinct_iff) simp

lemma push_replicas_eq:
  "next + length is < 2 ^ 32 \<Longrightarrow>
     push_replicas n is r next =
       (r @ map (\<lambda>j. replica_entry n (is ! j) (next + j)) [0..<length is], next + length is)"
proof (induction "is" arbitrary: r "next")
  case (Cons i "is")
  have "map (\<lambda>j. replica_entry n ((i # is) ! j) (next + j)) [0..<length (i # is)] =
      replica_entry n i next # map (\<lambda>j. replica_entry n (is ! j) (Suc next + j)) [0..<length is]"
    by (simp add: upt_conv_Cons map_Suc_upt [symmetric] o_def del: upt_Suc)
  with Cons show ?case by simp
qed simp

text \<open>The loop of \<open>recompute_ownership\<close> when no owner of a ring entry differs from it.\<close>

lemma recompute_loop_fresh:
  "distinct (map re_shard es) \<Longrightarrow> \<forall>e\<in>set es. bt_get owners (re_shard e) \<in> {None, Some (re_node e)} \<Longrightarrow>
     bt_inv owners \<Longrightarrow>
     \<exists>owners'. recompute_loop nn es owners migs = (owners', migs) \<and> bt_inv owners' \<and>
       (\<forall>e\<in>set es. bt_get owners' (re_shard e) = Some (re_node e)) \<and>
       (\<forall>k. k \<notin> re_shard ` set es \<longrightarrow> bt_get owners' k = bt_get owners k)"
proof (induction es arbitrary: owners)
  case (Cons e es)
  define o1 where "o1 = (if bt_get owners (re_shard e) = None
      then bt_insert (re_shard e) (re_node e) owners else owners)"
  have step: "recompute_loop nn (e # es) owners migs = recompute_loop nn es o1 migs"
    using Cons.prems(2) by (auto simp: o1_def)
  have o1: "bt_inv o1" "bt_get o1 (re_shard e) = Some (re_node e)"
    "\<forall>k. k \<noteq> re_shard e \<longrightarrow> bt_get o1 k = bt_get owners k"
    using Cons.prems(2,3) by (auto simp: o1_def bt_inv_insert bt_get_insert)
  have ne: "re_shard e \<notin> re_shard ` set es" using Cons.prems(1) by simp
  then have "\<forall>x\<in>set es. bt_get o1 (re_shard x) \<in> {None, Some (re_node x)}"
    using Cons.prems(2) o1(3) by (metis image_eqI list.set_intros(2))
  then obtain owners' where IH: "recompute_loop nn es o1 migs = (owners', migs)" "bt_inv owners'"
    "\<forall>e\<in>set es. bt_get owners' (re_shard e) = Some (re_node e)"
    "\<forall>k. k \<notin> re_shard ` set es \<longrightarrow> bt_get owners' k = bt_get o1 k"
    using Cons.IH [of o1] Cons.prems(1) o1(1) by auto
  then show ?case using step o1 ne by auto
qed simp

definition added_ring :: "shard_node \<Rightarrow> shard_map \<Rightarrow> ring_entry list" where
  "added_ring n s = map (\<lambda>j. replica_entry n j (next_shard_id s + j)) [0..<virtual_nodes s]"

text \<open>
  Adding a new node: its entries join the ring, every old entry and owner stays, and the list of
  migrations is empty.
\<close>

lemma add_node_spec:
  assumes inv: "sm_inv s" and fresh: "bt_get (node_addrs s) n = None"
    and room: "next_shard_id s + virtual_nodes s < 2 ^ 32"
  obtains owners where
    "add_node n addr s = ([], s\<lparr>node_addrs := bt_insert n addr (node_addrs s),
        ring := sort_key re_hash (ring s @ added_ring n s),
        next_shard_id := next_shard_id s + virtual_nodes s, shard_owners := owners\<rparr>)"
    and "bt_inv owners"
    and "\<forall>e\<in>set (ring s @ added_ring n s). bt_get owners (re_shard e) = Some (re_node e)"
    and "\<forall>k. k \<notin> re_shard ` set (added_ring n s) \<longrightarrow> bt_get owners k = bt_get (shard_owners s) k"
    and "distinct (map re_shard (ring s @ added_ring n s))"
proof -
  let ?new = "added_ring n s" and ?r = "sort_key re_hash (ring s @ added_ring n s)"
  have push: "push_replicas n [0..<virtual_nodes s] (ring s) (next_shard_id s) =
      (ring s @ ?new, next_shard_id s + virtual_nodes s)"
    using push_replicas_eq [of "next_shard_id s" "[0..<virtual_nodes s]" n "ring s"] room
    by (simp add: added_ring_def)
  have ids: "map re_shard ?new = map (\<lambda>j. next_shard_id s + j) [0..<virtual_nodes s]"
    by (simp add: added_ring_def replica_entry_def)
  have old: "\<forall>e\<in>set (ring s). re_shard e < next_shard_id s \<and>
      bt_get (shard_owners s) (re_shard e) = Some (re_node e)" and dist: "distinct (map re_shard (ring s))"
    using inv by (auto simp: sm_inv_def)
  have new_ids: "next_shard_id s \<le> k" if "k \<in> set (map re_shard ?new)" for k
    using that unfolding ids by auto
  have d: "distinct (map re_shard (ring s @ ?new))"
    using dist old new_ids unfolding map_append distinct_append ids
    by (fastforce simp: distinct_map inj_on_def)
  have none: "bt_get (shard_owners s) k = None" if "k \<in> set (map re_shard ?new)" for k
  proof (rule ccontr)
    assume "bt_get (shard_owners s) k \<noteq> None"
    then have "k < next_shard_id s" using inv by (auto simp: sm_inv_def)
    with new_ids [OF that] show False by simp
  qed
  have dr: "distinct (map re_shard ?r)"
    using d by (simp only: distinct_map_sort)
  have agree: "\<forall>e\<in>set ?r. bt_get (shard_owners s) (re_shard e) \<in> {None, Some (re_node e)}"
    using old none by auto
  have "bt_inv (shard_owners s)" using inv by (simp add: sm_inv_def)
  from recompute_loop_fresh [OF dr agree this, of "Some n" "[]"]
  obtain owners where ow: "recompute_loop (Some n) ?r (shard_owners s) [] = (owners, [])"
    "bt_inv owners" "\<forall>e\<in>set ?r. bt_get owners (re_shard e) = Some (re_node e)"
    "\<forall>k. k \<notin> re_shard ` set ?r \<longrightarrow> bt_get owners k = bt_get (shard_owners s) k"
    by blast
  have keep: "\<forall>k. k \<notin> re_shard ` set ?new \<longrightarrow> bt_get owners k = bt_get (shard_owners s) k"
  proof (intro allI impI)
    fix k assume k: "k \<notin> re_shard ` set ?new"
    show "bt_get owners k = bt_get (shard_owners s) k"
    proof (cases "k \<in> re_shard ` set (ring s)")
      case True
      then obtain e where e: "e \<in> set (ring s)" "re_shard e = k" by auto
      then have "bt_get owners k = Some (re_node e)" using ow(3) by auto
      moreover have "bt_get (shard_owners s) k = Some (re_node e)" using old e by auto
      ultimately show ?thesis by simp
    next
      case False
      then show ?thesis using k ow(4) by auto
    qed
  qed
  show thesis
  proof (rule that [OF _ ow(2) _ keep d])
    show "add_node n addr s = ([], s\<lparr>node_addrs := bt_insert n addr (node_addrs s), ring := ?r,
        next_shard_id := next_shard_id s + virtual_nodes s, shard_owners := owners\<rparr>)"
      using fresh push ow(1) by (simp add: add_node_def recompute_ownership_def Let_def)
    show "\<forall>e\<in>set (ring s @ ?new). bt_get owners (re_shard e) = Some (re_node e)"
      using ow(3) by simp
  qed
qed

lemma added_ring_node: "e \<in> set (added_ring n s) \<Longrightarrow> re_node e = n"
  by (auto simp: added_ring_def replica_entry_def)

lemma added_ring_shard:
  "e \<in> set (added_ring n s) \<Longrightarrow> re_shard e < next_shard_id s + virtual_nodes s \<and> next_shard_id s \<le> re_shard e"
  by (auto simp: added_ring_def replica_entry_def)

lemma add_node_inv:
  assumes inv: "sm_inv s" and room: "next_shard_id s + virtual_nodes s < 2 ^ 32"
  shows "sm_inv (snd (add_node n addr s)) \<and> virtual_nodes (snd (add_node n addr s)) = virtual_nodes s \<and>
         next_shard_id (snd (add_node n addr s)) \<le> next_shard_id s + virtual_nodes s"
proof (cases "bt_get (node_addrs s) n = None")
  case True
  obtain owners where s': "add_node n addr s = ([], s\<lparr>node_addrs := bt_insert n addr (node_addrs s),
        ring := sort_key re_hash (ring s @ added_ring n s),
        next_shard_id := next_shard_id s + virtual_nodes s, shard_owners := owners\<rparr>)"
    and ow: "bt_inv owners"
      "\<forall>e\<in>set (ring s @ added_ring n s). bt_get owners (re_shard e) = Some (re_node e)"
      "\<forall>k. k \<notin> re_shard ` set (added_ring n s) \<longrightarrow> bt_get owners k = bt_get (shard_owners s) k"
      "distinct (map re_shard (ring s @ added_ring n s))"
    using add_node_spec [OF inv True room] by blast
  have owner: "k < next_shard_id s + virtual_nodes s \<and> bt_get (bt_insert n addr (node_addrs s)) m \<noteq> None"
    if "bt_get owners k = Some m" for k m
  proof (cases "k \<in> re_shard ` set (added_ring n s)")
    case True
    then obtain e where e: "e \<in> set (added_ring n s)" "re_shard e = k" by auto
    then have "m = n" using ow(2) that added_ring_node [OF e(1)] by auto
    then show ?thesis using added_ring_shard [OF e(1)] e(2) by (simp add: bt_get_insert)
  next
    case False
    then have "bt_get (shard_owners s) k = Some m" using ow(3) that by simp
    then show ?thesis using inv by (force simp: sm_inv_def bt_get_insert)
  qed
  have ents: "re_shard e < next_shard_id s + virtual_nodes s" if "e \<in> set (ring s @ added_ring n s)" for e
    using ow(2) owner that by auto
  have nodes: "m \<in> nodes_of (ring s @ added_ring n s)"
    if "virtual_nodes s > 0" "bt_get (bt_insert n addr (node_addrs s)) m \<noteq> None" for m
  proof (cases "m = n")
    case True
    have "replica_entry n 0 (next_shard_id s) \<in> set (added_ring n s)"
      using that(1) by (auto simp: added_ring_def intro!: image_eqI [of _ _ 0])
    then show ?thesis using True by (auto simp: nodes_of_def replica_entry_def intro!: image_eqI)
  next
    case False
    then show ?thesis using that inv by (auto simp: sm_inv_def bt_get_insert nodes_of_def)
  qed
  have "distinct (map re_shard (sort_key re_hash (ring s @ added_ring n s)))"
    using ow(4) by (simp only: distinct_map_sort)
  then show ?thesis
    using inv ow(1,2) owner ents nodes
    by (simp add: s' sm_inv_def bt_inv_insert nodes_of_def)
next
  case False
  then show ?thesis using inv by (simp add: add_node_def)
qed

text \<open>After the addition a key routes as before or to the new node.\<close>

lemma add_node_routing:
  assumes "sm_inv s" and "bt_get (node_addrs s) n = None"
    and "next_shard_id s + virtual_nodes s < 2 ^ 32"
    and "successor_entry (ring (snd (add_node n addr s))) h = Some e" and "re_node e \<noteq> n"
  shows "successor_entry (ring s) h = Some e"
proof -
  obtain owners where s': "add_node n addr s = ([], s\<lparr>node_addrs := bt_insert n addr (node_addrs s),
        ring := sort_key re_hash (ring s @ added_ring n s),
        next_shard_id := next_shard_id s + virtual_nodes s, shard_owners := owners\<rparr>)"
    using add_node_spec [OF assms(1-3)] by blast
  have nodes: "re_node x \<noteq> n" if "x \<in> set (ring s)" for x
  proof -
    have "bt_get (shard_owners s) (re_shard x) = Some (re_node x)" using assms(1) that by (simp add: sm_inv_def)
    then have "bt_get (node_addrs s) (re_node x) \<noteq> None" using assms(1) unfolding sm_inv_def by blast
    then show ?thesis using assms(2) by auto
  qed
  have "filter (\<lambda>x. re_node x \<noteq> n) (sort_key re_hash (ring s @ added_ring n s)) =
      sort_key re_hash (filter (\<lambda>x. re_node x \<noteq> n) (ring s @ added_ring n s))"
    by (rule filter_sort)
  also have "filter (\<lambda>x. re_node x \<noteq> n) (ring s @ added_ring n s) = ring s"
    using nodes added_ring_node [of _ n s] by (auto simp: filter_empty_conv intro!: filter_True)
  also have "sort_key re_hash (ring s) = ring s"
    using assms(1) by (simp add: sm_inv_def sort_key_id_if_sorted)
  finally have same: "filter (\<lambda>x. re_node x \<noteq> n) (ring (snd (add_node n addr s))) = ring s"
    by (simp add: s')
  have "sorted (map re_hash (ring (snd (add_node n addr s))))" by (simp add: s')
  from successor_entry_filter [OF this assms(4), of "\<lambda>x. re_node x \<noteq> n"] assms(5) same
  show ?thesis by simp
qed

subsection \<open>Removing a node\<close>

lemma new_owner_in:
  assumes "r \<noteq> []" and "\<forall>e\<in>set r. re_node e \<noteq> n"
  obtains m where "new_owner n r shard = Some m" and "m \<in> nodes_of r"
proof -
  have ex: "\<exists>e. List.find P r = Some e \<and> e \<in> set r" if "\<exists>e\<in>set r. P e" for P
    using that by (cases "List.find P r") (auto simp: find_None_iff find_Some_iff)
  have mem: "e \<in> set r" if "List.find P r = Some e" for P e
    using that by (auto simp: find_Some_iff)
  obtain e where e: "List.find (\<lambda>e. re_node e \<noteq> n) r = Some e" "e \<in> set r"
    using ex [of "\<lambda>e. re_node e \<noteq> n"] assms by (cases r) auto
  have hd: "hd r \<in> set r" using assms(1) by simp
  have "\<exists>m. new_owner n r shard = Some m \<and> m \<in> nodes_of r"
    using e hd assms(1)
    by (auto simp: new_owner_def nodes_of_def Let_def split: option.splits dest: mem)
  with that show thesis by blast
qed

lemma reassign_loop_spec:
  assumes r: "r \<noteq> []" "\<forall>e\<in>set r. re_node e \<noteq> n"
  shows "bt_inv owners \<Longrightarrow> \<exists>owners' migs. reassign_loop n r ks owners = (owners', migs) \<and> bt_inv owners' \<and>
     map mig_shard migs = ks \<and>
     (\<forall>k\<in>set ks. \<exists>m\<in>nodes_of r. bt_get owners' k = Some m) \<and>
     (\<forall>k. k \<notin> set ks \<longrightarrow> bt_get owners' k = bt_get owners k)"
proof (induction ks arbitrary: owners)
  case (Cons k ks)
  obtain m where m: "new_owner n r k = Some m" "m \<in> nodes_of r" using r by (rule new_owner_in)
  let ?o1 = "bt_insert k m owners"
  have "bt_inv ?o1" using Cons.prems by (rule bt_inv_insert)
  then obtain owners' migs where IH: "reassign_loop n r ks ?o1 = (owners', migs)" "bt_inv owners'"
    "map mig_shard migs = ks" "\<forall>k\<in>set ks. \<exists>m\<in>nodes_of r. bt_get owners' k = Some m"
    "\<forall>k. k \<notin> set ks \<longrightarrow> bt_get owners' k = bt_get ?o1 k"
    using Cons.IH by blast
  have "\<exists>m\<in>nodes_of r. bt_get owners' k = Some m"
    using IH(4,5) m(2) by (cases "k \<in> set ks") (auto simp: bt_get_insert)
  then show ?case using m(1) IH by (auto simp: bt_get_insert)
qed simp

lemma remove_node_spec:
  fixes n :: shard_node
  assumes inv: "sm_inv s" and known: "bt_get (node_addrs s) n \<noteq> None"
  defines "s' \<equiv> snd (remove_node n s)"
  shows "ring s' = filter (\<lambda>e. re_node e \<noteq> n) (ring s)"
    and "node_addrs s' = bt_remove n (node_addrs s)"
    and "virtual_nodes s' = virtual_nodes s" and "next_shard_id s' = next_shard_id s"
    and "bt_inv (shard_owners s')"
    and "ring s' \<noteq> [] \<Longrightarrow> bt_get (shard_owners s) k = Some n \<Longrightarrow>
           \<exists>m\<in>nodes_of (ring s'). bt_get (shard_owners s') k = Some m"
    and "ring s' \<noteq> [] \<Longrightarrow> bt_get (shard_owners s) k \<noteq> Some n \<Longrightarrow>
           bt_get (shard_owners s') k = bt_get (shard_owners s) k"
    and "ring s' = [] \<Longrightarrow> shard_owners s' = []"
    and "map mig_shard (fst (remove_node n s)) =
           map fst (filter (\<lambda>(_, owner). owner = n) (shard_owners s))"
proof -
  let ?r = "filter (\<lambda>e. re_node e \<noteq> n) (ring s)"
  let ?owned = "map fst (filter (\<lambda>(_, owner). owner = n) (shard_owners s))"
  have bi: "bt_inv (shard_owners s)" using inv by (simp add: sm_inv_def)
  then have dist: "distinct (map fst (shard_owners s))" by (simp add: bt_inv_def)
  have owned: "k \<in> set ?owned \<longleftrightarrow> bt_get (shard_owners s) k = Some n" for k
    using dist by (force simp: bt_get_def map_of_eq_Some_iff image_iff)
  obtain owners migs where loop: "?r \<noteq> [] \<longrightarrow> reassign_loop n ?r ?owned (shard_owners s) = (owners, migs) \<and>
      bt_inv owners \<and> map mig_shard migs = ?owned \<and>
      (\<forall>k\<in>set ?owned. \<exists>m\<in>nodes_of ?r. bt_get owners k = Some m) \<and>
      (\<forall>k. k \<notin> set ?owned \<longrightarrow> bt_get owners k = bt_get (shard_owners s) k)"
  proof (cases "?r = []")
    case False
    have "\<forall>e\<in>set ?r. re_node e \<noteq> n" by simp
    from reassign_loop_spec [OF False this bi, of ?owned] show thesis using that by blast
  qed (use that in blast)
  have s'_eq: "s' = s\<lparr>ring := ?r, node_addrs := bt_remove n (node_addrs s),
      shard_owners := (if ?r = [] then [] else owners)\<rparr>"
    using known loop by (auto simp: s'_def remove_node_def Let_def)
  show "ring s' = ?r" "node_addrs s' = bt_remove n (node_addrs s)"
    "virtual_nodes s' = virtual_nodes s" "next_shard_id s' = next_shard_id s"
    "ring s' = [] \<Longrightarrow> shard_owners s' = []"
    by (simp_all add: s'_eq)
  show "bt_inv (shard_owners s')"
    using loop by (cases "?r = []") (simp_all only: s'_eq, simp_all)
  have own': "shard_owners s' = owners" "ring s' = ?r" if "ring s' \<noteq> []"
    using that by (auto simp: s'_eq)
  show "\<exists>m\<in>nodes_of (ring s'). bt_get (shard_owners s') k = Some m"
    if "ring s' \<noteq> []" "bt_get (shard_owners s) k = Some n"
  proof -
    have "?r \<noteq> []" "k \<in> set ?owned" using that own' owned by auto
    then show ?thesis using loop unfolding own' [OF that(1)] by blast
  qed
  show "bt_get (shard_owners s') k = bt_get (shard_owners s) k"
    if "ring s' \<noteq> []" "bt_get (shard_owners s) k \<noteq> Some n"
  proof -
    have "?r \<noteq> []" "k \<notin> set ?owned" using that own' owned by auto
    then show ?thesis using loop own' [OF that(1)] by blast
  qed
  show "map mig_shard (fst (remove_node n s)) = ?owned"
    using known loop by (auto simp: remove_node_def Let_def o_def)
qed

lemma remove_node_inv:
  fixes n :: shard_node
  assumes inv: "sm_inv s"
  shows "sm_inv (snd (remove_node n s)) \<and> virtual_nodes (snd (remove_node n s)) = virtual_nodes s \<and>
         next_shard_id (snd (remove_node n s)) = next_shard_id s"
proof (cases "bt_get (node_addrs s) n = None")
  case False
  note sp = remove_node_spec [OF inv False]
  let ?s' = "snd (remove_node n s)"
  have addrs: "bt_get (node_addrs ?s') m = (if m = n then None else bt_get (node_addrs s) m)" for m
    using inv by (simp add: sp(2) sm_inv_def bt_get_remove)
  have ents: "re_shard e < next_shard_id s \<and> bt_get (shard_owners ?s') (re_shard e) = Some (re_node e)"
    if "e \<in> set (ring ?s')" for e
  proof -
    have e: "e \<in> set (ring s)" "re_node e \<noteq> n" using that sp(1) by auto
    then have "bt_get (shard_owners s) (re_shard e) = Some (re_node e)" "re_shard e < next_shard_id s"
      using inv by (auto simp: sm_inv_def)
    moreover have "ring ?s' \<noteq> []" using that by auto
    ultimately show ?thesis using sp(7) [of "re_shard e"] e(2) by simp
  qed
  have ring_addr: "bt_get (node_addrs ?s') m \<noteq> None" if m: "m \<in> nodes_of (ring ?s')" for m
  proof -
    obtain e where e: "e \<in> set (ring s)" "re_node e = m" "m \<noteq> n"
      using m by (auto simp: nodes_of_def sp(1))
    then have "bt_get (shard_owners s) (re_shard e) = Some m" using inv by (auto simp: sm_inv_def)
    then show ?thesis using inv e(3) addrs unfolding sm_inv_def by auto
  qed
  have own: "k < next_shard_id s \<and> bt_get (node_addrs ?s') m \<noteq> None"
    if "bt_get (shard_owners ?s') k = Some m" for k m
  proof -
    have ne: "ring ?s' \<noteq> []" using that sp(8) by auto
    show ?thesis
    proof (cases "bt_get (shard_owners s) k = Some n")
      case True
      then have "m \<in> nodes_of (ring ?s')" using sp(6) [OF ne True] that by auto
      moreover have "k < next_shard_id s" using True inv unfolding sm_inv_def by blast
      ultimately show ?thesis using ring_addr by blast
    next
      case f: False
      then have o: "bt_get (shard_owners s) k = Some m" using sp(7) [OF ne f] that by simp
      then have "k < next_shard_id s \<and> bt_get (node_addrs s) m \<noteq> None" using inv unfolding sm_inv_def by blast
      then show ?thesis using addrs o f by auto
    qed
  qed
  have "distinct (map re_shard (ring ?s'))" "sorted (map re_hash (ring ?s'))"
    using inv by (simp_all add: sp(1) sm_inv_def distinct_map_filter sorted_filter)
  moreover have "m \<in> nodes_of (ring ?s')" if "virtual_nodes s > 0" "bt_get (node_addrs ?s') m \<noteq> None" for m
  proof -
    have "m \<noteq> n" "bt_get (node_addrs s) m \<noteq> None" using that(2) addrs by (auto split: if_splits)
    moreover then have "m \<in> nodes_of (ring s)" using inv that(1) unfolding sm_inv_def by blast
    ultimately show ?thesis by (auto simp: nodes_of_def sp(1))
  qed
  moreover have "bt_inv (node_addrs ?s')" using inv by (simp add: sp(2) sm_inv_def bt_inv_remove)
  ultimately show ?thesis
    using ents own sp(5) by (simp add: sm_inv_def sp(3,4))
qed (use inv in \<open>simp add: remove_node_def\<close>)

end
