(* ===== verification/Sharding_Properties.thy ===== *)
theory Sharding_Properties
  imports Sharding_Facts
begin

text \<open>
  The properties of the shard map: routing always finds a live owner, topology changes move no more
  than they must, and replication groups.
\<close>

subsection \<open>Runs\<close>

datatype shard_op =
    AddNode shard_node socket_addr
  | RemoveNode shard_node
  | Route string bytes
  | SetFactor nat

fun run_shard_op :: "shard_op \<Rightarrow> shard_map \<Rightarrow> shard_map" where
  "run_shard_op (AddNode n a) s = snd (add_node n a s)"
| "run_shard_op (RemoveNode n) s = snd (remove_node n s)"
| "run_shard_op (Route c i) s = (case shard_for c i s of None \<Rightarrow> s | Some (_, s') \<Rightarrow> s')"
| "run_shard_op (SetFactor f) s = set_replication_factor f s"

lemma sm_inv_collections [simp]: "sm_inv (s\<lparr>collection_shards := c\<rparr>) = sm_inv s"
  by (simp add: sm_inv_def)

lemma sm_inv_factor [simp]: "sm_inv (s\<lparr>replication_factor := f\<rparr>) = sm_inv s"
  by (simp add: sm_inv_def)

lemma shard_for_frame:
  assumes "shard_for c i s = Some (k, s')"
  shows "\<exists>cs. s' = s\<lparr>collection_shards := cs\<rparr>"
proof -
  have "s = s\<lparr>collection_shards := collection_shards s\<rparr>" by simp
  then have "\<exists>cs. s = s\<lparr>collection_shards := cs\<rparr>" by blast
  then show ?thesis
    using assms by (cases "ring s = []") (auto simp: shard_for_def Let_def split: option.splits)
qed

lemma run_shard_op_inv:
  assumes "sm_inv s" and "next_shard_id s + virtual_nodes s < 2 ^ 32"
  shows "sm_inv (run_shard_op p s) \<and> virtual_nodes (run_shard_op p s) = virtual_nodes s \<and>
         next_shard_id (run_shard_op p s) \<le> next_shard_id s + virtual_nodes s"
proof (cases p)
  case (AddNode n a)
  then show ?thesis using add_node_inv [OF assms, of n a] by simp
next
  case (RemoveNode n)
  then show ?thesis using remove_node_inv [OF assms(1), of n] by simp
next
  case (Route c i)
  then show ?thesis
    using assms(1) by (auto split: option.splits dest!: shard_for_frame)
next
  case (SetFactor f)
  then show ?thesis using assms(1) by (simp add: set_replication_factor_def)
qed

lemma run_shard_ops_inv:
  "sm_inv s \<Longrightarrow> next_shard_id s + virtual_nodes s * length ops < 2 ^ 32 \<Longrightarrow>
     sm_inv (fold run_shard_op ops s) \<and> virtual_nodes (fold run_shard_op ops s) = virtual_nodes s \<and>
     next_shard_id (fold run_shard_op ops s) \<le> next_shard_id s + virtual_nodes s * length ops"
proof (induction ops arbitrary: s)
  case (Cons p ops)
  let ?s = "run_shard_op p s"
  have room: "next_shard_id s + virtual_nodes s < 2 ^ 32" using Cons.prems(2) by simp
  note st = run_shard_op_inv [OF Cons.prems(1) room, of p]
  have next_room: "next_shard_id ?s + virtual_nodes ?s * length ops < 2 ^ 32"
    using st Cons.prems(2) by simp
  show ?case
    using Cons.IH [OF conjunct1 [OF st] next_room] st by simp
qed simp

subsection \<open>Routing\<close>

lemma route_owner:
  assumes inv: "sm_inv s" and ne: "ring s \<noteq> []"
  obtains k s' e where "shard_for c i s = Some (k, s')" and "e \<in> set (ring s)" and "re_shard e = k"
    and "node_for_shard s' k = Some (re_node e)" and "leader_addr s' k \<noteq> None"
proof -
  let ?h = "fnv1a_64 (as_bytes (routing_key c i))"
  obtain e where e: "successor_entry (ring s) ?h = Some e" using successor_entry_total [OF ne] by blast
  then have "successor_shard s ?h = Some (re_shard e)" by (simp add: successor_shard_def)
  then obtain cs where s': "shard_for c i s = Some (re_shard e, s\<lparr>collection_shards := cs\<rparr>)"
    using ne by (simp add: shard_for_def Let_def)
  have mem: "e \<in> set (ring s)" using e by (rule successor_entry_mem)
  then have own: "bt_get (shard_owners s) (re_shard e) = Some (re_node e)" using inv by (simp add: sm_inv_def)
  then have "bt_get (node_addrs s) (re_node e) \<noteq> None" using inv sm_inv_owner by blast
  with own show thesis
    using that [OF s' mem] by (simp add: node_for_shard_def leader_addr_def)
qed

text \<open>
  C29: Routing always reaches a live node. After any sequence of joining and leaving nodes, routed
  keys and changes of the replication factor (within the u32 range of shard ids), as long as some
  node is registered and nodes have at least one ring entry, every key routes to a shard that has an
  owner with a registered address, so \<open>leader_addr\<close> does not panic.
\<close>

theorem shard_routing_safe:
  assumes room: "vn * length ops < 2 ^ 32" and vn: "0 < vn"
    and some: "all_nodes (fold run_shard_op ops (sm_new vn)) \<noteq> []"
  shows "\<exists>k s'. shard_for c i (fold run_shard_op ops (sm_new vn)) = Some (k, s') \<and>
           node_for_shard s' k \<noteq> None \<and> leader_addr s' k \<noteq> None"
proof -
  let ?s = "fold run_shard_op ops (sm_new vn)"
  have inv: "sm_inv ?s \<and> virtual_nodes ?s = vn"
    using run_shard_ops_inv [OF sm_inv_new, of vn ops] room by (simp add: sm_new_def)
  obtain n a where "(n, a) \<in> set (all_nodes ?s)" using some by (cases "all_nodes ?s") auto
  then have "(n, a) \<in> set (node_addrs ?s)" by (simp only: all_nodes_def set_sort)
  then have "n \<in> fst ` set (node_addrs ?s)" by (rule image_eqI [rotated]) simp
  then have "bt_get (node_addrs ?s) n \<noteq> None" by (simp only: bt_get_def map_of_eq_None_iff) simp
  with inv vn have "n \<in> nodes_of (ring ?s)" by (intro sm_inv_addr_node) simp_all
  then have "ring ?s \<noteq> []" by (auto simp: nodes_of_def)
  from route_owner [OF conjunct1 [OF inv] this, of c i] show ?thesis by (metis option.distinct(1))
qed

lemma all_nodes_add_witness: "all_nodes (fold run_shard_op [AddNode 1 ''a''] (sm_new 2)) \<noteq> []"
proof -
  obtain owners where "add_node 1 ''a'' (sm_new 2) = ([], (sm_new 2)\<lparr>node_addrs := bt_insert 1 ''a'' (node_addrs (sm_new 2)),
        ring := sort_key re_hash (ring (sm_new 2) @ added_ring 1 (sm_new 2)),
        next_shard_id := next_shard_id (sm_new 2) + virtual_nodes (sm_new 2), shard_owners := owners\<rparr>)"
    by (rule add_node_spec [OF sm_inv_new, of 2 1 "''a''"]) (simp_all, simp_all add: sm_new_def)
  then show ?thesis by (simp add: all_nodes_def) (simp add: sm_new_def)
qed

theorem shard_routing_safe_witness:
  "\<exists>k s'. shard_for ''users'' [1, 2] (fold run_shard_op [AddNode 1 ''a''] (sm_new 2)) = Some (k, s') \<and>
     node_for_shard s' k \<noteq> None \<and> leader_addr s' k \<noteq> None"
  by (rule shard_routing_safe [OF _ _ all_nodes_add_witness]) simp_all

subsection \<open>Leaving nodes\<close>

text \<open>
  C30: Removing a node moves only its own keys. The node owns nothing afterwards; every shard of
  another node keeps its owner; every shard of the removed node goes to a remaining node (when ring
  entries remain) and is reported as migrated; and a key whose ring entry belongs to another node
  still routes to the same entry.
\<close>

theorem remove_node_minimal:
  assumes inv: "sm_inv s" and known: "bt_get (node_addrs s) n \<noteq> None"
    and rest: "\<exists>m\<in>nodes_of (ring s). m \<noteq> n"
  shows "let (migs, s') = remove_node n s in
           sm_inv s' \<and> (\<forall>k. node_for_shard s' k \<noteq> Some n) \<and>
           (\<forall>k. node_for_shard s k \<noteq> Some n \<longrightarrow> node_for_shard s' k = node_for_shard s k) \<and>
           (\<forall>k. node_for_shard s k = Some n \<longrightarrow> k \<in> set (map mig_shard migs) \<and>
              (\<exists>m\<in>nodes_of (ring s). m \<noteq> n \<and> node_for_shard s' k = Some m)) \<and>
           (\<forall>h e. successor_entry (ring s) h = Some e \<longrightarrow> re_node e \<noteq> n \<longrightarrow>
              successor_entry (ring s') h = Some e)"
proof -
  obtain migs s' where r: "remove_node n s = (migs, s')" by fastforce
  note sp = remove_node_spec [OF inv known, unfolded r, simplified]
  have ne: "ring s' \<noteq> []" using rest by (auto simp: sp(1) nodes_of_def filter_empty_conv)
  have "sm_inv s'" using remove_node_inv [OF inv, of n] by (simp add: r)
  moreover have keep: "node_for_shard s' k = node_for_shard s k" if "node_for_shard s k \<noteq> Some n" for k
    using sp(7) [of k] ne that by (simp add: node_for_shard_def sp(1))
  moreover have moved: "\<exists>m\<in>nodes_of (ring s). m \<noteq> n \<and> node_for_shard s' k = Some m"
    if "node_for_shard s k = Some n" for k
    using sp(6) [of k] ne that by (auto simp: node_for_shard_def sp(1) nodes_of_def)
  moreover have "node_for_shard s' k \<noteq> Some n" for k
    using keep [of k] moved [of k] by (cases "node_for_shard s k = Some n") auto
  moreover have "k \<in> set (map mig_shard migs)" if "node_for_shard s k = Some n" for k
  proof -
    have "(k, n) \<in> set (shard_owners s)"
      using that by (simp add: node_for_shard_def bt_get_def map_of_SomeD)
    then show ?thesis unfolding sp(9) by force
  qed
  moreover have "successor_entry (ring s') h = Some e"
    if "successor_entry (ring s) h = Some e" "re_node e \<noteq> n" for h e
    unfolding sp(1) using inv that by (intro successor_entry_filter) (auto simp: sm_inv_def)
  ultimately show ?thesis by (simp add: r)
qed

lemma two_nodes_inv:
  assumes "0 < vn" and "vn * 2 < 2 ^ 32"
  defines "s \<equiv> fold run_shard_op [AddNode 1 ''a'', AddNode 2 ''b''] (sm_new vn)"
  shows "sm_inv s" and "virtual_nodes s = vn" and "next_shard_id s \<le> vn * 2"
    and "bt_get (node_addrs s) 1 \<noteq> None" and "bt_get (node_addrs s) 2 \<noteq> None"
    and "1 \<in> nodes_of (ring s)"
proof -
  have inv: "sm_inv s \<and> virtual_nodes s = vn \<and> next_shard_id s \<le> vn * 2"
    using run_shard_ops_inv [OF sm_inv_new, of vn "[AddNode 1 ''a'', AddNode 2 ''b'']"] assms(2)
    by (simp add: s_def) (simp add: sm_new_def)
  then show "sm_inv s" "virtual_nodes s = vn" "next_shard_id s \<le> vn * 2" by blast+
  have addr: "bt_get (node_addrs (snd (add_node n a t))) m =
      (if m = n \<and> bt_get (node_addrs t) n = None then Some a else bt_get (node_addrs t) m)" for n m a t
    by (auto simp: add_node_def recompute_ownership_def Let_def bt_get_insert split: prod.splits)
  show a: "bt_get (node_addrs s) 1 \<noteq> None" "bt_get (node_addrs s) 2 \<noteq> None"
    by (simp_all add: s_def addr)
  show "1 \<in> nodes_of (ring s)" using inv a(1) assms(1) by (intro sm_inv_addr_node) simp_all
qed

theorem remove_node_minimal_witness:
  "let (migs, s') = remove_node 2 (fold run_shard_op [AddNode 1 ''a'', AddNode 2 ''b''] (sm_new 3))
   in sm_inv s' \<and> (\<forall>k. node_for_shard s' k \<noteq> Some 2)"
proof -
  let ?s = "fold run_shard_op [AddNode 1 ''a'', AddNode 2 ''b''] (sm_new 3)"
  have t: "sm_inv ?s" "bt_get (node_addrs ?s) 2 \<noteq> None" "1 \<in> nodes_of (ring ?s)"
    using two_nodes_inv [of 3] by simp_all
  then have "\<exists>m\<in>nodes_of (ring ?s). m \<noteq> 2" by (intro bexI [of _ 1]) simp_all
  from remove_node_minimal [OF t(1,2) this] show ?thesis by (auto simp: Let_def split: prod.splits)
qed

subsection \<open>Joining nodes\<close>

text \<open>
  Adding a node reports no migration. The documentation promises the list of shards that moved to
  the new node; the list is always empty, because every ring entry has a fresh shard id. Keys do
  move: a key routes as before or to one of the new node's entries, and the entry of the new node
  with the smallest hash not below the key takes the key over.
\<close>

theorem add_node_reports_nothing:
  assumes inv: "sm_inv s" and fresh: "bt_get (node_addrs s) n = None"
    and room: "next_shard_id s + virtual_nodes s < 2 ^ 32"
  shows "fst (add_node n a s) = [] \<and>
         (\<forall>h e. successor_entry (ring (snd (add_node n a s))) h = Some e \<longrightarrow>
            successor_entry (ring s) h = Some e \<or> re_node e = n) \<and>
         (\<forall>e\<in>set (ring (snd (add_node n a s))). \<exists>e'. re_hash e' = re_hash e \<and>
            successor_entry (ring (snd (add_node n a s))) (re_hash e) = Some e')"
proof (intro conjI allI impI ballI)
  obtain owners where s': "add_node n a s = ([], s\<lparr>node_addrs := bt_insert n a (node_addrs s),
        ring := sort_key re_hash (ring s @ added_ring n s),
        next_shard_id := next_shard_id s + virtual_nodes s, shard_owners := owners\<rparr>)"
    using add_node_spec [OF inv fresh room] by blast
  then show "fst (add_node n a s) = []" by simp
  fix h e assume "successor_entry (ring (snd (add_node n a s))) h = Some e"
  then show "successor_entry (ring s) h = Some e \<or> re_node e = n"
    using add_node_routing [OF inv fresh room] by blast
next
  fix e assume e: "e \<in> set (ring (snd (add_node n a s)))"
  let ?r = "ring (snd (add_node n a s))"
  let ?f = "filter (\<lambda>x. re_hash e \<le> re_hash x) ?r"
  have srt: "sorted (map re_hash ?r)" using add_node_inv [OF inv room] by (simp add: sm_inv_def)
  have ne: "?f \<noteq> []" using e by (auto simp: filter_empty_conv)
  then obtain e' rest where f: "?f = e' # rest" by (cases ?f) auto
  have "sorted (map re_hash ?f)" using srt by (rule sorted_filter)
  moreover have "e \<in> set ?f" using e by simp
  ultimately have "re_hash e' \<le> re_hash e" unfolding f by auto
  moreover have "re_hash e \<le> re_hash e'" using arg_cong [OF f, of set] by auto
  ultimately have "re_hash e' = re_hash e" by simp
  moreover have "successor_entry ?r (re_hash e) = Some e'"
    using successor_entry_first [OF srt, of "re_hash e"] ne f by (simp add: first_of_def)
  ultimately show "\<exists>e'. re_hash e' = re_hash e \<and> successor_entry ?r (re_hash e) = Some e'" by blast
qed

theorem add_node_reports_nothing_witness:
  "fst (add_node 3 ''c'' (fold run_shard_op [AddNode 1 ''a'', AddNode 2 ''b''] (sm_new 3))) = []"
proof -
  let ?s = "fold run_shard_op [AddNode 1 ''a'', AddNode 2 ''b''] (sm_new 3)"
  have none: "bt_get (node_addrs ?s) 3 = None"
  proof -
    have addr: "bt_get (node_addrs (snd (add_node n a t))) m =
        (if m = n \<and> bt_get (node_addrs t) n = None then Some a else bt_get (node_addrs t) m)" for n m a t
      by (auto simp: add_node_def recompute_ownership_def Let_def bt_get_insert split: prod.splits)
    show ?thesis by (simp add: addr) (simp add: sm_new_def)
  qed
  have "sm_inv ?s" "next_shard_id ?s + virtual_nodes ?s < 2 ^ 32"
    using two_nodes_inv [of 3] by simp_all
  from add_node_reports_nothing [OF this(1) none this(2), of "''c''"] show ?thesis by blast
qed

subsection \<open>Replication groups\<close>

lemma follower_walk_spec:
  assumes "set seen = insert l (set fs)" and "distinct fs" and "l \<notin> set fs" and "length fs \<le> need"
    and "set fs \<subseteq> nodes_of r" and "r \<noteq> []"
  shows "distinct (follower_walk r need start left seen fs) \<and>
         l \<notin> set (follower_walk r need start left seen fs) \<and>
         set (follower_walk r need start left seen fs) \<subseteq> nodes_of r \<and>
         set fs \<subseteq> set (follower_walk r need start left seen fs) \<and>
         length (follower_walk r need start left seen fs) \<le> need \<and>
         (length (follower_walk r need start left seen fs) = need \<or>
          (\<forall>j\<in>{1..left}. re_node (r ! ((start + length r - j) mod length r)) \<in>
             insert l (set (follower_walk r need start left seen fs))))"
  using assms
proof (induction left arbitrary: seen fs)
  case (Suc left)
  let ?idx = "(start + length r - Suc left) mod length r"
  let ?c = "re_node (r ! ?idx)"
  have idx: "?c \<in> nodes_of r" using Suc.prems(6) by (simp add: nodes_of_def)
  show ?case
  proof (cases "length fs < need")
    case False
    then have "follower_walk r need start (Suc left) seen fs = fs" by simp
    then show ?thesis using False Suc.prems by simp
  next
    case True
    show ?thesis
    proof (cases "?c \<in> set seen")
      case in_seen: True
      then have st: "follower_walk r need start (Suc left) seen fs = follower_walk r need start left seen fs"
        using True by (simp add: Let_def)
      note IH = Suc.IH [OF Suc.prems]
      have "?c \<in> insert l (set (follower_walk r need start left seen fs))"
        using in_seen Suc.prems(1) IH by auto
      then show ?thesis using IH unfolding st by (auto simp: atLeastAtMostSuc_conv)
    next
      case new: False
      then have st: "follower_walk r need start (Suc left) seen fs =
          follower_walk r need start left (?c # seen) (fs @ [?c])"
        using True by (simp add: Let_def)
      have pre: "set (?c # seen) = insert l (set (fs @ [?c]))" "distinct (fs @ [?c])"
        "l \<notin> set (fs @ [?c])" "length (fs @ [?c]) \<le> need" "set (fs @ [?c]) \<subseteq> nodes_of r"
        using Suc.prems new True idx by auto
      note IH = Suc.IH [OF pre Suc.prems(6)]
      have "?c \<in> set (follower_walk r need start left (?c # seen) (fs @ [?c]))"
        using IH by auto
      then show ?thesis using IH unfolding st by (auto simp: atLeastAtMostSuc_conv)
    qed
  qed
qed simp

lemma position_Some: "\<exists>x\<in>set xs. P x \<Longrightarrow> \<exists>i. position P xs = Some i \<and> i < length xs \<and> P (xs ! i)"
proof -
  assume ex: "\<exists>x\<in>set xs. P x"
  let ?n = "length (takeWhile (\<lambda>x. \<not> P x) xs)"
  have "?n < length xs"
    using ex by (metis length_takeWhile_le le_neq_implies_less takeWhile_eq_all_conv takeWhile_eq_take take_all_iff order_refl)
  then show ?thesis using nth_length_takeWhile [of "\<lambda>x. \<not> P x" xs] by (simp add: position_def Let_def)
qed

lemma node_addrs_card:
  assumes "sm_inv s" and "0 < virtual_nodes s"
  shows "card (nodes_of (ring s)) = length (node_addrs s)"
proof -
  have "nodes_of (ring s) = fst ` set (node_addrs s)"
  proof (intro equalityI subsetI)
    fix n assume "n \<in> nodes_of (ring s)"
    then have "bt_get (node_addrs s) n \<noteq> None" using assms(1) by (intro sm_inv_entry_addr)
    then show "n \<in> fst ` set (node_addrs s)" by (simp add: bt_get_def map_of_eq_None_iff)
  next
    fix n assume "n \<in> fst ` set (node_addrs s)"
    then have "bt_get (node_addrs s) n \<noteq> None" by (simp add: bt_get_def map_of_eq_None_iff)
    then show "n \<in> nodes_of (ring s)" using assms by (intro sm_inv_addr_node)
  qed
  moreover have "distinct (map fst (node_addrs s))" using assms(1) by (simp add: sm_inv_def bt_inv_def)
  ultimately show ?thesis using distinct_card [of "map fst (node_addrs s)"] by simp
qed

text \<open>
  Replication groups are as large as the cluster allows. The group of an owned shard is led by
  its owner; its followers are distinct registered nodes other than the leader, and there are
  \<open>replication_factor - 1\<close> of them, or all other nodes when there are fewer.
\<close>

theorem replication_group_complete:
  assumes inv: "sm_inv s" and vn: "0 < virtual_nodes s" and own: "node_for_shard s k = Some l"
  shows "\<exists>g. replication_group s k = Some g \<and> rg_leader g = l \<and> distinct (rg_followers g) \<and>
           l \<notin> set (rg_followers g) \<and> set (rg_followers g) \<subseteq> fst ` set (all_nodes s) \<and>
           length (rg_followers g) = min (replication_factor s - 1) (length (all_nodes s) - 1)"
proof -
  let ?r = "ring s" and ?need = "replication_factor s - 1"
  have card: "card (nodes_of ?r) = length (all_nodes s)"
    using node_addrs_card [OF inv vn] by (simp add: all_nodes_def)
  have sub: "nodes_of ?r \<subseteq> fst ` set (all_nodes s)"
  proof
    fix n assume "n \<in> nodes_of ?r"
    with \<open>n \<in> nodes_of ?r\<close> have "bt_get (node_addrs s) n \<noteq> None" using inv by (intro sm_inv_entry_addr)
    then show "n \<in> fst ` set (all_nodes s)" by (simp add: all_nodes_def bt_get_def map_of_eq_None_iff)
  qed
  have "bt_get (node_addrs s) l \<noteq> None" using own inv sm_inv_owner by (auto simp: node_for_shard_def)
  then have l: "l \<in> nodes_of ?r" using inv vn by (intro sm_inv_addr_node)
  then have ne: "?r \<noteq> []" by (auto simp: nodes_of_def)
  have fin: "finite (nodes_of ?r)" by (simp add: nodes_of_def)
  show ?thesis
  proof (cases "replication_factor s > 1 \<and> length ?r > 1")
    case False
    have "min ?need (length (all_nodes s) - 1) = 0"
    proof (cases "length ?r > 1")
      case True
      then show ?thesis using False by simp
    next
      case f: False
      have "card (nodes_of ?r) \<le> length ?r"
        unfolding nodes_of_def by (metis card_image_le card_length finite_set le_trans)
      then show ?thesis using f card by simp
    qed
    then show ?thesis
      using False own by (auto simp: replication_group_def node_for_shard_def Let_def)
  next
    case True
    have "\<exists>e\<in>set ?r. re_node e = l" using l by (auto simp: nodes_of_def)
    from position_Some [OF this] obtain i where i: "position (\<lambda>e. re_node e = l) ?r = Some i"
      "i < length ?r" "re_node (?r ! i) = l" by auto
    define fs where "fs = follower_walk ?r ?need i (length ?r - 1) [l] []"
    have g: "replication_group s k = Some \<lparr>rg_shard = k, rg_leader = l, rg_followers = fs,
        rg_factor = replication_factor s\<rparr>"
      using True own i(1) by (simp add: replication_group_def node_for_shard_def Let_def fs_def)
    have sp: "distinct fs" "l \<notin> set fs" "set fs \<subseteq> nodes_of ?r" "length fs \<le> ?need"
      "length fs = ?need \<or> (\<forall>j\<in>{1..length ?r - 1}. re_node (?r ! ((i + length ?r - j) mod length ?r)) \<in>
         insert l (set fs))"
      using follower_walk_spec [of "[l]" l "[]" ?need ?r i "length ?r - 1"] ne by (auto simp: fs_def)
    have fs_sub: "set fs \<subseteq> nodes_of ?r - {l}" using sp(2,3) by auto
    have len: "length fs = card (set fs)" using sp(1) by (simp add: distinct_card)
    have le: "length fs \<le> length (all_nodes s) - 1"
      unfolding len using card_mono [OF _ fs_sub] fin l card by simp
    have "length fs = ?need \<or> length fs = length (all_nodes s) - 1"
    proof (cases "length fs = ?need")
      case f: False
      have "nodes_of ?r - {l} \<subseteq> set fs"
      proof
        fix n assume "n \<in> nodes_of ?r - {l}"
        then obtain p where p: "p < length ?r" "re_node (?r ! p) = n" "n \<noteq> l"
          by (auto simp: nodes_of_def in_set_conv_nth)
        then have "p \<noteq> i" using i(3) by auto
        define j where "j = (if p < i then i - p else i + length ?r - p)"
        have j: "j \<in> {1..length ?r - 1}" "(i + length ?r - j) mod length ?r = p"
          using p(1) \<open>p \<noteq> i\<close> i(2) by (auto simp: j_def)
        have "re_node (?r ! ((i + length ?r - j) mod length ?r)) \<in> insert l (set fs)"
          using sp(5) f j(1) by blast
        then show "n \<in> set fs" using p(2,3) by (simp only: j(2)) auto
      qed
      then have "set fs = nodes_of ?r - {l}" using fs_sub by blast
      then show ?thesis using len card l fin by simp
    qed simp
    then have "length fs = min ?need (length (all_nodes s) - 1)" using le sp(4) by auto
    then show ?thesis using g sp sub by auto
  qed
qed

theorem replication_group_complete_witness:
  "\<exists>k l g. let s = set_replication_factor 3 (fold run_shard_op [AddNode 1 ''a'', AddNode 2 ''b''] (sm_new 3))
     in replication_group s k = Some g \<and> rg_leader g = l \<and> l \<notin> set (rg_followers g) \<and>
        length (rg_followers g) = min (replication_factor s - 1) (length (all_nodes s) - 1)"
proof -
  let ?base = "fold run_shard_op [AddNode 1 ''a'', AddNode 2 ''b''] (sm_new 3)"
  let ?s = "set_replication_factor 3 ?base"
  have t: "sm_inv ?base" "virtual_nodes ?base = 3" "1 \<in> nodes_of (ring ?base)"
    using two_nodes_inv [of 3] by simp_all
  then obtain e where "e \<in> set (ring ?base)" by (auto simp: nodes_of_def)
  then have "bt_get (shard_owners ?base) (re_shard e) = Some (re_node e)" using t(1) by (simp add: sm_inv_def)
  then have own: "node_for_shard ?s (re_shard e) = Some (re_node e)"
    by (simp add: node_for_shard_def set_replication_factor_def)
  have "sm_inv ?s" "0 < virtual_nodes ?s"
    using t by (simp_all add: set_replication_factor_def)
  from replication_group_complete [OF this own] show ?thesis
    unfolding Let_def by blast
qed

end
