(* ===== verification/Lexer.thy ===== *)
theory Lexer
  imports Prelude
begin

text \<open>
  The FunQL lexer, \<open>crates/fundb-sql/src/token.rs\<close> and \<open>lexer.rs\<close>. Source text is a list of Unicode
  code points; the state holds the part of the input from the byte position on. Taking a slice of
  the input off a character boundary is a panic. The standard library's tables of alphabetic and
  numeric characters beyond ASCII and its parser of f64 literals come with the argument \<open>U\<close>. A keyword token stands for the constructor
  of the enum that bears its name.
\<close>

type_synonym ustring = "nat list"

definition text_of :: "string \<Rightarrow> ustring" where
  "text_of s = map of_char s"

datatype token =
    TkKeyword string
  | TkArrow | TkVectorDist | TkDotDot
  | TkEq | TkNotEq | TkLt | TkLtEq | TkGt | TkGtEq | TkPlus | TkMinus | TkStar | TkSlash | TkPercent
  | TkAssign
  | TkLParen | TkRParen | TkLBrace | TkRBrace | TkLBracket | TkRBracket | TkComma | TkSemicolon
  | TkColon | TkDot
  | TkIntLiteral int | TkFloatLiteral f64 | TkStringLiteral ustring | TkParam ustring
  | TkIdent ustring
  | TkEof | TkNewline

definition keyword_table :: "(string \<times> string) list" where
  "keyword_table =
    [(''select'', ''Select''), (''from'', ''From''), (''where'', ''Where''),
     (''insert'', ''Insert''), (''into'', ''Into''), (''values'', ''Values''),
     (''update'', ''Update''), (''set'', ''Set''), (''delete'', ''Delete''),
     (''create'', ''Create''), (''drop'', ''Drop''), (''table'', ''Table''),
     (''index'', ''Index''), (''on'', ''On''), (''as'', ''As''), (''by'', ''By''),
     (''order'', ''Order''), (''group'', ''Group''), (''having'', ''Having''),
     (''limit'', ''Limit''), (''offset'', ''Offset''), (''join'', ''Join''),
     (''inner'', ''Inner''), (''left'', ''Left''), (''right'', ''Right''),
     (''outer'', ''Outer''), (''cross'', ''Cross''), (''union'', ''Union''), (''all'', ''All''),
     (''distinct'', ''Distinct''), (''and'', ''And''), (''or'', ''Or''), (''not'', ''Not''),
     (''in'', ''In''), (''is'', ''Is''), (''null'', ''Null''), (''true'', ''True''),
     (''false'', ''False''), (''asc'', ''Asc''), (''desc'', ''Desc''),
     (''between'', ''Between''), (''like'', ''Like''), (''exists'', ''Exists''),
     (''case'', ''Case''), (''when'', ''When''), (''then'', ''Then''), (''else'', ''Else''),
     (''end'', ''End''), (''with'', ''With''), (''interval'', ''Interval''), (''now'', ''Now''),
     (''explain'', ''Explain''), (''_vector'', ''Vector''), (''traverse'', ''Traverse''),
     (''return'', ''Return''), (''depth'', ''Depth''), (''start'', ''Start''),
     (''path'', ''Path''), (''as_of'', ''AsOf''), (''systemtime'', ''SystemTime''),
     (''validtime'', ''ValidTime''), (''confidence'', ''Confidence''),
     (''source_count'', ''SourceCount''), (''contradiction_count'', ''ContradictionCount''),
     (''trace'', ''Trace''), (''causality'', ''Causality''), (''max_depth'', ''MaxDepth''),
     (''min_strength'', ''MinStrength''), (''min_stability'', ''MinStability''),
     (''estimate_effect'', ''EstimateEffect''), (''intervene'', ''Intervene''),
     (''counterfactual'', ''Counterfactual''), (''predict'', ''Predict''), (''had'', ''Had''),
     (''given'', ''Given''), (''discover'', ''Discover''),
     (''causal_structure'', ''CausalStructure''), (''algorithm'', ''Algorithm''),
     (''equilibrium'', ''ModeEquilibrium''), (''structure'', ''Structure''),
     (''equations'', ''Equations''), (''variables'', ''Variables''), (''infer'', ''Infer''),
     (''within'', ''Within''), (''context'', ''Context''), (''max_tokens'', ''MaxTokens''),
     (''coherence'', ''Coherence''), (''diversity'', ''Diversity''),
     (''include_contradictions'', ''IncludeContradictions''), (''priority'', ''Priority''),
     (''understand'', ''Understand''), (''remember'', ''Remember''), (''recall'', ''Recall''),
     (''forget'', ''Forget''), (''for'', ''For''), (''agent'', ''Agent''),
     (''memory'', ''Memory''), (''importance'', ''Importance''),
     (''semantic_similarity'', ''SemanticSimilarity''), (''recency'', ''Recency''),
     (''decay'', ''Decay''), (''collection'', ''Collection''),
     (''consolidate'', ''Consolidate''), (''min_confidence'', ''MinConfidence''),
     (''store'', ''Store'')]"

definition keyword :: "ustring \<Rightarrow> token option" where
  "keyword s = map_option TkKeyword (map_of (map (\<lambda>(k, t). (text_of k, t)) keyword_table) s)"

record span =
  sp_line :: nat
  sp_col :: nat
  sp_len :: nat

datatype lex_message =
    UnterminatedComment | UnterminatedString | UnexpectedBang | UnexpectedChar nat
  | InvalidFloat ustring | InvalidInt ustring

record lex_error =
  le_message :: lex_message
  le_line :: nat
  le_col :: nat

datatype lex_failure = LexFail lex_error | LexPanic

record unicode =
  alphabetic :: "nat \<Rightarrow> bool"
  numeric :: "nat \<Rightarrow> bool"
  parse_f64 :: "ustring \<Rightarrow> f64 option"

record lexer =
  lx_rest :: ustring
  lx_pos :: nat
  lx_line :: nat
  lx_col :: nat

definition lexer_new :: "ustring \<Rightarrow> lexer" where
  "lexer_new input = \<lparr>lx_rest = input, lx_pos = 0, lx_line = 1, lx_col = 1\<rparr>"

subsection \<open>Helpers\<close>

definition len_utf8 :: "nat \<Rightarrow> nat" where
  "len_utf8 c = (if c < 0x80 then 1 else if c < 0x800 then 2 else if c < 0x10000 then 3 else 4)"

definition byte_len :: "ustring \<Rightarrow> nat" where
  "byte_len s = sum_list (map len_utf8 s)"

definition u32_inc :: "nat \<Rightarrow> nat" where
  "u32_inc n = (n + 1) mod 2 ^ 32"

definition current_char :: "lexer \<Rightarrow> nat option" where
  "current_char l = (case lx_rest l of [] \<Rightarrow> None | c # _ \<Rightarrow> Some c)"

text \<open>
  \<open>peek_char(1)\<close>, called when the current character is known to be one byte: the character after it.
\<close>

definition peek_char :: "lexer \<Rightarrow> nat option" where
  "peek_char l = (case lx_rest l of _ # c # _ \<Rightarrow> Some c | _ \<Rightarrow> None)"

definition advance :: "lexer \<Rightarrow> (nat \<times> lexer) option" where
  "advance l =
     (case lx_rest l of
        [] \<Rightarrow> None
      | ch # cs \<Rightarrow>
          Some (ch, l\<lparr>lx_rest := cs, lx_pos := lx_pos l + len_utf8 ch,
                     lx_line := (if ch = 10 then u32_inc (lx_line l) else lx_line l),
                     lx_col := (if ch = 10 then 1 else u32_inc (lx_col l))\<rparr>))"

definition skip1 :: "lexer \<Rightarrow> lexer" where
  "skip1 l = (case advance l of None \<Rightarrow> l | Some (_, l') \<Rightarrow> l')"

definition lex_error :: "lex_message \<Rightarrow> nat \<Rightarrow> nat \<Rightarrow> lex_failure" where
  "lex_error msg line col = LexFail \<lparr>le_message = msg, le_line = line, le_col = col\<rparr>"

definition ascii_digit :: "nat \<Rightarrow> bool" where
  "ascii_digit c \<longleftrightarrow> 48 \<le> c \<and> c \<le> 57"

definition ascii_lower :: "nat \<Rightarrow> nat" where
  "ascii_lower c = (if 65 \<le> c \<and> c \<le> 90 then c + 32 else c)"

text \<open>
  \<open>char::is_alphabetic\<close> and \<open>char::is_numeric\<close>: fixed on ASCII, a table beyond it.
\<close>

definition is_alphabetic :: "unicode \<Rightarrow> nat \<Rightarrow> bool" where
  "is_alphabetic U c \<longleftrightarrow>
     (if c < 0x80 then 65 \<le> c \<and> c \<le> 90 \<or> 97 \<le> c \<and> c \<le> 122 else alphabetic U c)"

definition is_numeric :: "unicode \<Rightarrow> nat \<Rightarrow> bool" where
  "is_numeric U c \<longleftrightarrow> (if c < 0x80 then ascii_digit c else numeric U c)"

subsection \<open>Whitespace and comments\<close>

function skip_while :: "(nat \<Rightarrow> bool) \<Rightarrow> lexer \<Rightarrow> lexer" where
  "skip_while P l =
     (case advance l of
        Some (c, l') \<Rightarrow> if P c then skip_while P l' else l
      | None \<Rightarrow> l)"
  by pat_completeness auto
termination
  by (relation "measure (\<lambda>(_, l). length (lx_rest l))") (auto simp: advance_def split: list.splits)

function skip_line :: "lexer \<Rightarrow> lexer" where
  "skip_line l =
     (case advance l of
        None \<Rightarrow> l
      | Some (c, l') \<Rightarrow> if c = 10 then l' else skip_line l')"
  by pat_completeness auto
termination
  by (relation "measure (\<lambda>l. length (lx_rest l))") (auto simp: advance_def split: list.splits)

text \<open>The inside of a block comment, after its opening.\<close>

function skip_block :: "lexer \<Rightarrow> lex_failure + lexer" where
  "skip_block l =
     (case advance l of
        None \<Rightarrow> Inl (lex_error UnterminatedComment (lx_line l) (lx_col l))
      | Some (c, l') \<Rightarrow>
          if c = 42 then (if current_char l' = Some 47 then Inr (skip1 l') else skip_block l')
          else skip_block l')"
  by pat_completeness auto
termination
  by (relation "measure (\<lambda>l. length (lx_rest l))") (auto simp: advance_def split: list.splits)

declare skip_while.simps [simp del] skip_line.simps [simp del] skip_block.simps [simp del]

text \<open>
  The slice \<open>input[pos..pos + 2]\<close> of a rest with at least two bytes: \<open>None\<close> when it ends inside a
  character.
\<close>

definition slice2 :: "ustring \<Rightarrow> ustring option" where
  "slice2 s =
     (case s of
        [] \<Rightarrow> None
      | c # cs \<Rightarrow>
          if len_utf8 c = 2 then Some [c]
          else if len_utf8 c = 1 then
            (case cs of [] \<Rightarrow> None | d # _ \<Rightarrow> if len_utf8 d = 1 then Some [c, d] else None)
          else None)"

definition whitespace :: "nat \<Rightarrow> bool" where
  "whitespace c \<longleftrightarrow> c = 32 \<or> c = 9 \<or> c = 13 \<or> c = 10"

lemma advance_length: "advance l = Some (c, l') \<Longrightarrow> length (lx_rest l) = Suc (length (lx_rest l'))"
  by (auto simp: advance_def split: list.splits)

lemma advance_None: "advance l = None \<longleftrightarrow> lx_rest l = []"
  by (auto simp: advance_def split: list.splits)

lemma skip_while_length: "length (lx_rest (skip_while P l)) \<le> length (lx_rest l)"
proof (induction P l rule: skip_while.induct)
  case (1 P l)
  show ?case
  proof (cases "advance l")
    case None
    then show ?thesis by (subst skip_while.simps) simp
  next
    case (Some p)
    then obtain c l' where a: "advance l = Some (c, l')" by (cases p) auto
    have "P c \<Longrightarrow> length (lx_rest (skip_while P l')) \<le> length (lx_rest l')" using "1.IH" [OF a refl] .
    then show ?thesis using advance_length [OF a] by (subst skip_while.simps) (auto simp: a)
  qed
qed

lemma skip_line_length: "length (lx_rest (skip_line l)) \<le> length (lx_rest l)"
proof (induction l rule: skip_line.induct)
  case (1 l)
  show ?case
  proof (cases "advance l")
    case None
    then show ?thesis by (subst skip_line.simps) simp
  next
    case (Some p)
    then obtain c l' where a: "advance l = Some (c, l')" by (cases p) auto
    have "c \<noteq> 10 \<Longrightarrow> length (lx_rest (skip_line l')) \<le> length (lx_rest l')" using "1.IH" [OF a refl] .
    then show ?thesis using advance_length [OF a] by (subst skip_line.simps) (auto simp: a)
  qed
qed

lemma skip_line_less: "lx_rest l \<noteq> [] \<Longrightarrow> length (lx_rest (skip_line l)) < length (lx_rest l)"
proof -
  assume "lx_rest l \<noteq> []"
  then obtain c l' where a: "advance l = Some (c, l')" using advance_None [of l] by (cases "advance l") auto
  show ?thesis
    using skip_line_length [of l'] advance_length [OF a] by (subst skip_line.simps) (simp add: a)
qed

lemma skip1_length: "length (lx_rest (skip1 l)) \<le> length (lx_rest l)"
  by (auto simp: skip1_def split: option.splits dest!: advance_length)

lemma skip1_less: "lx_rest l \<noteq> [] \<Longrightarrow> length (lx_rest (skip1 l)) < length (lx_rest l)"
  by (auto simp: skip1_def advance_def split: list.splits)

lemma skip_block_length: "skip_block l = Inr l' \<Longrightarrow> length (lx_rest l') \<le> length (lx_rest l)"
proof (induction l rule: skip_block.induct)
  case (1 l)
  obtain c l1 where a: "advance l = Some (c, l1)"
    using "1.prems" by (subst (asm) skip_block.simps) (auto split: option.splits)
  have "l' = skip1 l1 \<or> length (lx_rest l') \<le> length (lx_rest l1)"
    using "1.prems" "1.IH" [OF a refl] by (subst (asm) skip_block.simps) (auto simp: a split: if_splits)
  then show ?case using skip1_length [of l1] advance_length [OF a] by auto
qed

function skip_whitespace_and_comments :: "lexer \<Rightarrow> lex_failure + lexer" where
  "skip_whitespace_and_comments l =
     (let l1 = skip_while whitespace l
      in if byte_len (lx_rest l1) \<ge> 2 then
           (case slice2 (lx_rest l1) of
              None \<Rightarrow> Inl LexPanic
            | Some s \<Rightarrow>
                if s = [45, 45] then skip_whitespace_and_comments (skip_line l1)
                else if s = [47, 42] then
                  (case skip_block (skip1 (skip1 l1)) of
                     Inl e \<Rightarrow> Inl e
                   | Inr l2 \<Rightarrow> skip_whitespace_and_comments l2)
                else Inr l1)
         else Inr l1)"
  by pat_completeness auto
termination
proof (relation "measure (\<lambda>l. length (lx_rest l))", goal_cases)
  case (2 l l1 s)
  have ne: "lx_rest l1 \<noteq> []" using 2(2) by (auto simp: byte_len_def)
  then show ?case
    using skip_line_less [OF ne] skip_while_length [of whitespace l] 2(1) by simp
next
  case (3 l l1 s l2)
  have ne: "lx_rest l1 \<noteq> []" using 3(2) by (auto simp: byte_len_def)
  show ?case
    using skip_block_length [OF 3(6)] skip1_length [of "skip1 l1"] skip1_less [OF ne]
      skip_while_length [of whitespace l] 3(1) by simp
qed simp

declare skip_whitespace_and_comments.simps [simp del]

subsection \<open>Numbers, words, strings, parameters\<close>

text \<open>The text between two states, \<open>input[start..pos]\<close>.\<close>

definition consumed :: "lexer \<Rightarrow> lexer \<Rightarrow> ustring" where
  "consumed l0 l1 = take (length (lx_rest l0) - length (lx_rest l1)) (lx_rest l0)"

definition span_from :: "lexer \<Rightarrow> lexer \<Rightarrow> span" where
  "span_from l0 l1 = \<lparr>sp_line = lx_line l0, sp_col = lx_col l0, sp_len = lx_pos l1 - lx_pos l0\<rparr>"

definition parse_i64 :: "ustring \<Rightarrow> int option" where
  "parse_i64 s =
     (if s = [] \<or> \<not> list_all ascii_digit s then None
      else let v = fold (\<lambda>c a. a * 10 + (int c - 48)) s 0
           in if v \<le> i64_max then Some v else None)"

function number_loop :: "bool \<Rightarrow> lexer \<Rightarrow> bool \<times> lexer" where
  "number_loop has_dot l =
     (case advance l of
        None \<Rightarrow> (has_dot, l)
      | Some (c, l') \<Rightarrow>
          if ascii_digit c then number_loop has_dot l'
          else if c = 46 \<and> \<not> has_dot then
            (if peek_char l = Some 46 then (has_dot, l) else number_loop True l')
          else (has_dot, l))"
  by pat_completeness auto
termination
  by (relation "measure (\<lambda>(_, l). length (lx_rest l))") (auto dest: advance_length)

declare number_loop.simps [simp del]

definition lex_number :: "unicode \<Rightarrow> lexer \<Rightarrow> lex_failure + (token \<times> span) \<times> lexer" where
  "lex_number U l =
     (let (has_dot, l1) = (if current_char l = Some 46 then number_loop True (skip1 l)
                           else number_loop False l);
          raw = consumed l l1
      in if has_dot then
           (case parse_f64 U raw of
              None \<Rightarrow> Inl (lex_error (InvalidFloat raw) (lx_line l) (lx_col l))
            | Some v \<Rightarrow> Inr ((TkFloatLiteral v, span_from l l1), l1))
         else
           (case parse_i64 raw of
              None \<Rightarrow> Inl (lex_error (InvalidInt raw) (lx_line l) (lx_col l))
            | Some v \<Rightarrow> Inr ((TkIntLiteral v, span_from l l1), l1)))"

text \<open>\<open>is_alphanumeric\<close> is \<open>is_alphabetic\<close> or \<open>is_numeric\<close>.\<close>

definition word_char :: "unicode \<Rightarrow> nat \<Rightarrow> bool" where
  "word_char U c \<longleftrightarrow> is_alphabetic U c \<or> is_numeric U c \<or> c = 95"

definition lex_word :: "unicode \<Rightarrow> lexer \<Rightarrow> (token \<times> span) \<times> lexer" where
  "lex_word U l =
     (let l1 = skip_while (word_char U) l;
          raw = consumed l l1;
          lower = map ascii_lower raw
      in ((case keyword lower of Some kw \<Rightarrow> kw | None \<Rightarrow> TkIdent raw, span_from l l1), l1))"

text \<open>The loop of a string literal, after its opening quote, with the text collected so far.\<close>

function string_loop :: "ustring \<Rightarrow> lexer \<Rightarrow> (ustring \<times> lexer) option" where
  "string_loop s l =
     (case advance l of
        None \<Rightarrow> None
      | Some (c, l') \<Rightarrow>
          if c = 39 then
            (if current_char l' = Some 39 then string_loop (s @ [39]) (skip1 l') else Some (s, l'))
          else string_loop (s @ [c]) l')"
  by pat_completeness auto
termination
  by (relation "measure (\<lambda>(_, l). length (lx_rest l))")
    (auto dest!: advance_length intro: le_less_trans [OF skip1_length])

declare string_loop.simps [simp del]

definition lex_string :: "lexer \<Rightarrow> lex_failure + (token \<times> span) \<times> lexer" where
  "lex_string l =
     (case string_loop [] (skip1 l) of
        None \<Rightarrow> Inl (lex_error UnterminatedString (lx_line l) (lx_col l))
      | Some (s, l1) \<Rightarrow> Inr ((TkStringLiteral s, span_from l l1), l1))"

definition lex_param :: "unicode \<Rightarrow> lexer \<Rightarrow> (token \<times> span) \<times> lexer" where
  "lex_param U l =
     (let l1 = skip1 l; l2 = skip_while (word_char U) l1
      in ((TkParam (consumed l1 l2), span_from l l2), l2))"

subsection \<open>The dispatch and the whole input\<close>

definition emit :: "token \<Rightarrow> lexer \<Rightarrow> lexer \<Rightarrow> lex_failure + (token \<times> span) \<times> lexer" where
  "emit tok l0 l1 = Inr ((tok, span_from l0 l1), l1)"

text \<open>The single-character tokens, by code point.\<close>

definition simple_token :: "nat \<Rightarrow> token option" where
  "simple_token ch = map_of
     [(43, TkPlus), (37, TkPercent), (47, TkSlash), (42, TkStar), (40, TkLParen), (41, TkRParen),
      (123, TkLBrace), (125, TkRBrace), (91, TkLBracket), (93, TkRBracket), (44, TkComma),
      (59, TkSemicolon)] ch"

text \<open>Operators and punctuation: \<open>l\<close> is the state before \<open>ch\<close>, \<open>l1\<close> after it.\<close>

definition lex_operator :: "nat \<Rightarrow> lexer \<Rightarrow> lexer \<Rightarrow> lex_failure + (token \<times> span) \<times> lexer" where
  "lex_operator ch l l1 =
     (case simple_token ch of
        Some tok \<Rightarrow> emit tok l l1
      | None \<Rightarrow>
          if ch = 61 then (if current_char l1 = Some 61 then emit TkEq l (skip1 l1) else emit TkAssign l l1)
          else if ch = 33 then
            (if current_char l1 = Some 61 then emit TkNotEq l (skip1 l1)
             else Inl (lex_error UnexpectedBang (lx_line l) (lx_col l)))
          else if ch = 60 then
            (if current_char l1 = Some 45 \<and> peek_char l1 = Some 62
             then emit TkVectorDist l (skip1 (skip1 l1))
             else if current_char l1 = Some 61 then emit TkLtEq l (skip1 l1)
             else if current_char l1 = Some 62 then emit TkNotEq l (skip1 l1)
             else emit TkLt l l1)
          else if ch = 62 then
            (if current_char l1 = Some 61 then emit TkGtEq l (skip1 l1) else emit TkGt l l1)
          else if ch = 45 then
            (if current_char l1 = Some 62 then emit TkArrow l (skip1 l1) else emit TkMinus l l1)
          else if ch = 46 then
            (if current_char l1 = Some 46 then emit TkDotDot l (skip1 l1) else emit TkDot l l1)
          else Inl (lex_error (UnexpectedChar ch) (lx_line l) (lx_col l)))"

definition peeks :: "(nat \<Rightarrow> bool) \<Rightarrow> lexer \<Rightarrow> bool" where
  "peeks P l \<longleftrightarrow> (case peek_char l of None \<Rightarrow> False | Some c \<Rightarrow> P c)"

definition next_token :: "unicode \<Rightarrow> lexer \<Rightarrow> lex_failure + (token \<times> span) \<times> lexer" where
  "next_token U l =
     (case current_char l of
        None \<Rightarrow> Inr ((TkEof, span_from l l), l)
      | Some ch \<Rightarrow>
          if ascii_digit ch \<or> ch = 46 \<and> peeks ascii_digit l then lex_number U l
          else if is_alphabetic U ch \<or> ch = 95 then Inr (lex_word U l)
          else if ch = 39 then lex_string l
          else if ch = 58 then
            (if peeks (\<lambda>c. is_alphabetic U c \<or> c = 95) l then Inr (lex_param U l)
             else emit TkColon l (skip1 l))
          else lex_operator ch l (skip1 l))"

lemma skip_while_less:
  "current_char l = Some c \<Longrightarrow> P c \<Longrightarrow> length (lx_rest (skip_while P l)) < length (lx_rest l)"
proof -
  assume c: "current_char l = Some c" "P c"
  then obtain l' where a: "advance l = Some (c, l')"
    by (auto simp: current_char_def advance_def split: list.splits)
  show ?thesis
    using skip_while_length [of P l'] advance_length [OF a] c(2) by (subst skip_while.simps) (simp add: a)
qed

lemma number_loop_length: "length (lx_rest (snd (number_loop d l))) \<le> length (lx_rest l)"
proof (induction d l rule: number_loop.induct)
  case (1 d l)
  show ?case
  proof (cases "advance l")
    case None
    then show ?thesis by (subst number_loop.simps) simp
  next
    case (Some p)
    then obtain c l' where a: "advance l = Some (c, l')" by (cases p) auto
    have "length (lx_rest (snd (number_loop d l'))) \<le> length (lx_rest l')" if "ascii_digit c"
      using "1.IH"(1) [OF a refl that] .
    moreover have "length (lx_rest (snd (number_loop True l'))) \<le> length (lx_rest l')"
      if "\<not> ascii_digit c" "c = 46 \<and> \<not> d" "peek_char l \<noteq> Some 46"
      using "1.IH"(2) [OF a refl that] .
    ultimately show ?thesis using advance_length [OF a] by (subst number_loop.simps) (auto simp: a)
  qed
qed

lemma number_loop_less:
  "current_char l = Some c \<Longrightarrow> ascii_digit c \<Longrightarrow>
     length (lx_rest (snd (number_loop d l))) < length (lx_rest l)"
proof -
  assume c: "current_char l = Some c" "ascii_digit c"
  then obtain l' where a: "advance l = Some (c, l')"
    by (auto simp: current_char_def advance_def split: list.splits)
  show ?thesis
    using number_loop_length [of d l'] advance_length [OF a] c(2)
    by (subst number_loop.simps) (simp add: a)
qed

lemma string_loop_length:
  "string_loop s l = Some (s', l') \<Longrightarrow> length (lx_rest l') \<le> length (lx_rest l)"
proof (induction s l rule: string_loop.induct)
  case (1 s l)
  obtain c l1 where a: "advance l = Some (c, l1)"
    using "1.prems" by (subst (asm) string_loop.simps) (auto split: option.splits)
  consider "c = 39" "current_char l1 = Some 39" "string_loop (s @ [39]) (skip1 l1) = Some (s', l')"
    | "l' = l1" | "c \<noteq> 39" "string_loop (s @ [c]) l1 = Some (s', l')"
    using "1.prems" by (subst (asm) string_loop.simps) (auto simp: a split: if_splits)
  then show ?case
  proof cases
    case 1
    then show ?thesis
      using "1.IH"(1) [OF a refl 1(1,2,3)] skip1_length [of l1] advance_length [OF a] by simp
  next
    case 2
    then show ?thesis using advance_length [OF a] by simp
  next
    case 3
    then show ?thesis using "1.IH"(2) [OF a refl 3(1,2)] advance_length [OF a] by simp
  qed
qed

lemma current_char_Some: "lx_rest l \<noteq> [] \<longleftrightarrow> (\<exists>c. current_char l = Some c)"
  by (auto simp: current_char_def split: list.splits)

text \<open>Every token consumes input, so the loop over the whole input ends.\<close>

lemma lex_operator_length:
  "lex_operator ch l l1 = Inr (ts, l2) \<Longrightarrow> length (lx_rest l2) \<le> length (lx_rest l1)"
  using skip1_length [of l1] skip1_length [of "skip1 l1"]
  by (auto simp: lex_operator_def emit_def split: option.splits if_splits)

lemma next_token_progress:
  assumes "next_token U l = Inr (ts, l')" and ne: "lx_rest l \<noteq> []"
  shows "length (lx_rest l') < length (lx_rest l)"
proof -
  obtain c where c: "current_char l = Some c" using ne current_char_Some by blast
  note less = skip1_less [OF ne]
  consider "ascii_digit c" "lex_number U l = Inr (ts, l')"
    | "c = 46" "\<not> ascii_digit c" "lex_number U l = Inr (ts, l')"
    | "is_alphabetic U c \<or> c = 95" "lex_word U l = (ts, l')"
    | "lex_string l = Inr (ts, l')"
    | "lex_param U l = (ts, l')"
    | "l' = skip1 l"
    | "lex_operator c l (skip1 l) = Inr (ts, l')"
    using assms(1) c by (auto simp: next_token_def emit_def split: if_splits)
  then show ?thesis
  proof cases
    case 1
    then have "l' = snd (number_loop False l)"
      using c by (auto simp: lex_number_def Let_def ascii_digit_def split: prod.splits option.splits if_splits)
    then show ?thesis using number_loop_less [OF c 1(1)] by simp
  next
    case 2
    then have "l' = snd (number_loop True (skip1 l))"
      using c by (auto simp: lex_number_def Let_def split: prod.splits option.splits if_splits)
    then show ?thesis using number_loop_length [of True "skip1 l"] less by simp
  next
    case 3
    then have "l' = skip_while (word_char U) l" by (auto simp: lex_word_def Let_def)
    then show ?thesis using skip_while_less [OF c, of "word_char U"] 3(1) by (auto simp: word_char_def)
  next
    case 4
    then show ?thesis
      using string_loop_length less by (fastforce simp: lex_string_def split: option.splits)
  next
    case 5
    then have "l' = skip_while (word_char U) (skip1 l)" by (auto simp: lex_param_def Let_def)
    then show ?thesis using skip_while_length [of "word_char U" "skip1 l"] less by simp
  next
    case 6
    then show ?thesis using less by simp
  next
    case 7
    then show ?thesis using lex_operator_length less by fastforce
  qed
qed

lemma skip_whitespace_length:
  "skip_whitespace_and_comments l = Inr l' \<Longrightarrow> length (lx_rest l') \<le> length (lx_rest l)"
proof (induction l rule: skip_whitespace_and_comments.induct)
  case (1 l)
  let ?l1 = "skip_while whitespace l"
  note base = skip_while_length [of whitespace l]
  consider "l' = ?l1"
    | "2 \<le> byte_len (lx_rest ?l1)" "slice2 (lx_rest ?l1) = Some [45, 45]"
      "skip_whitespace_and_comments (skip_line ?l1) = Inr l'"
    | l2 where "2 \<le> byte_len (lx_rest ?l1)" "slice2 (lx_rest ?l1) = Some [47, 42]"
      "skip_block (skip1 (skip1 ?l1)) = Inr l2" "skip_whitespace_and_comments l2 = Inr l'"
    using "1.prems" by (subst (asm) skip_whitespace_and_comments.simps)
      (auto simp: Let_def split: if_splits option.splits sum.splits)
  then show ?case
  proof cases
    case 1
    then show ?thesis using base by simp
  next
    case 2
    then show ?thesis using "1.IH"(1) [OF refl 2(1,2) refl 2(3)] skip_line_length [of ?l1] base by simp
  next
    case 3
    then have "length (lx_rest l') \<le> length (lx_rest l2)" using "1.IH"(2) [OF refl 3(1,2) _ refl 3(3,4)] by simp
    then show ?thesis
      using skip_block_length [OF 3(3)] skip1_length [of "skip1 ?l1"] skip1_length [of ?l1] base by simp
  qed
qed

function tokenize :: "unicode \<Rightarrow> lexer \<Rightarrow> lex_failure + (token \<times> span) list \<times> lexer" where
  "tokenize U l =
     (case skip_whitespace_and_comments l of
        Inl e \<Rightarrow> Inl e
      | Inr l1 \<Rightarrow>
          if lx_rest l1 = [] then Inr ([(TkEof, span_from l1 l1)], l1)
          else
            (case next_token U l1 of
               Inl e \<Rightarrow> Inl e
             | Inr ((tok, sp), l2) \<Rightarrow>
                 (case tokenize U l2 of
                    Inl e \<Rightarrow> Inl e
                  | Inr (ts, l3) \<Rightarrow> Inr (if tok = TkNewline then ts else (tok, sp) # ts, l3))))"
  by pat_completeness auto
termination
proof (relation "measure (\<lambda>(_, l). length (lx_rest l))", goal_cases)
  case (2 U l l1 ts l2 tok sp)
  then show ?case using skip_whitespace_length [of l l1] next_token_progress by fastforce
qed simp

declare tokenize.simps [simp del]

end
