(* ===== verification/Ast.thy ===== *)
theory Ast
  imports Lexer
begin

text \<open>
  The syntax trees of FunQL, \<open>crates/fundb-sql/src/ast.rs\<close>. The structs that hold expressions are
  declared over the type \<open>'e\<close> of expressions, as one-constructor datatypes; the expressions tie the
  knot, since a subquery holds a statement.
\<close>

datatype literal = LInt int | LFloat f64 | LString ustring | LBool bool | LNull

datatype binary_op =
    OpEq | OpNotEq | OpLt | OpLtEq | OpGt | OpGtEq | OpAnd | OpOr | OpAdd | OpSub | OpMul | OpDiv
  | OpMod | OpLike | OpNotLike | OpIn | OpNotIn | OpBetween | OpArrow

datatype unary_op = UNeg | UNot | UIsNull | UIsNotNull

datatype 'e select_item = Wildcard | SelectExpr (item_expr: 'e) (item_alias: "ustring option")

datatype table_ref =
  TableRef (tr_name: ustring) (tr_alias: "ustring option") (tr_is_agent_memory: bool)

datatype join_type = JoinInner | JoinLeft | JoinRight | JoinCross | JoinFull

datatype 'e join_clause =
  JoinClause (jc_type: join_type) (jc_table: table_ref) (jc_on: "'e option")

datatype 'e order_by_item = OrderByItem (ob_expr: 'e) (ob_asc: bool)

datatype 'e as_of_clause = AsOfSystemTime 'e | AsOfValidTimeBetween 'e 'e | AsOfValidTimeAt 'e

datatype 'e context_options =
  ContextOptions (co_max_tokens: "'e option") (co_coherence: "'e option") (co_diversity: "'e option")
    (co_include_contradictions: "bool option") (co_priority: "'e order_by_item list")

datatype 'e traverse_clause =
  TraverseClause (tv_relation: ustring) (tv_chain: "ustring list") (tv_depth_min: "'e option")
    (tv_depth_max: "'e option") (tv_target_alias: "ustring option")

datatype 'e trace_causality_clause =
  TraceCausalityClause (tc_from: "'e option") (tc_to: "'e option") (tc_max_depth: "'e option")
    (tc_min_strength: "'e option") (tc_min_stability: "'e option")

datatype 'e recall_weight =
    SemanticSimilarity (rw_query: 'e) (rw_weight: "'e option")
  | Recency (rw_decay: "ustring option") (rw_half_life: "ustring option") (rw_weight: "'e option")
  | Importance (rw_weight: "'e option")

datatype 'e recall_by_clause = RecallByClause (rb_weights: "'e recall_weight list")

datatype 'e select_stmt =
  SelectStmt (s_distinct: bool) (s_projections: "'e select_item list") (s_from: "table_ref option")
    (s_joins: "'e join_clause list") (s_where: "'e option") (s_group_by: "'e list")
    (s_having: "'e option") (s_order_by: "'e order_by_item list") (s_limit: "'e option")
    (s_offset: "'e option") (s_within_context: "'e context_options option")
    (s_as_of: "'e as_of_clause option") (s_traverse: "'e traverse_clause option")
    (s_trace_causality: "'e trace_causality_clause option")
    (s_return_items: "'e select_item list") (s_recall_by: "'e recall_by_clause option")

datatype 'e trace_causality_stmt =
  TraceCausalityStmt (ts_collection: ustring) (ts_from: 'e) (ts_to: 'e) (ts_max_depth: "'e option")
    (ts_min_strength: "'e option") (ts_min_stability: "'e option")
    (ts_return_fields: "'e select_item list")

datatype 'e understand_option =
    UnderstandConfidence 'e | UnderstandWithin ustring | UnderstandDepth 'e
  | UnderstandInCollection ustring | UnderstandUsingVector ustring | UnderstandMinSimilarity 'e

datatype 'e understand_stmt =
  UnderstandStmt (us_intent: ustring) (us_options: "'e understand_option list")

datatype causal_model_mode = ModelStandard | ModelEquilibrium

datatype causal_variable = CausalVariable (cv_name: ustring) (cv_ty: ustring)

datatype 'e causal_equation =
  CausalEquation (ce_variable: ustring) (ce_rhs: 'e) (ce_learn_from: "ustring option")

datatype 'e create_causal_model_stmt =
  CreateCausalModelStmt (cm_name: ustring) (cm_mode: causal_model_mode)
    (cm_variables: "causal_variable list") (cm_structure: "(ustring \<times> ustring) list")
    (cm_equations: "'e causal_equation list")

datatype 'e estimate_effect_stmt =
  EstimateEffectStmt (ee_projections: "'e select_item list") (ee_model: ustring)
    (ee_set_vars: "(ustring \<times> 'e) list") (ee_predict: ustring)
    (ee_given: "(ustring \<times> 'e) list option")

datatype 'e discover_causal_stmt =
  DiscoverCausalStmt (dc_collection: ustring) (dc_algorithm: "ustring option")
    (dc_min_confidence: "'e option") (dc_store_as: "ustring option") (dc_variables: "ustring list")

datatype 'e remember_stmt =
  RememberStmt (rm_content: ustring) (rm_agent_id: 'e) (rm_importance: "'e option")
    (rm_memory_type: "ustring option")

datatype 'e recall_by_stmt =
  RecallByStmt (rs_weights: "'e recall_weight list") (rs_agent_id: 'e) (rs_limit: "'e option")

datatype 'e forget_stmt = ForgetStmt (fg_agent_id: 'e) (fg_filter: "'e option")

datatype 'e insert_stmt =
  InsertStmt (in_table: ustring) (in_columns: "ustring list") (in_values: "'e list list")

datatype 'e update_stmt =
  UpdateStmt (up_table: ustring) (up_alias: "ustring option") (up_assignments: "(ustring \<times> 'e) list")
    (up_where: "'e option")

datatype 'e delete_stmt = DeleteStmt (dl_table: ustring) (dl_where: "'e option")

datatype column_def = ColumnDef (cd_name: ustring) (cd_ty: ustring) (cd_nullable: bool)

datatype create_collection_stmt =
  CreateCollectionStmt (cc_name: ustring) (cc_if_not_exists: bool) (cc_columns: "column_def list")

datatype create_index_stmt =
  CreateIndexStmt (ci_name: ustring) (ci_table: ustring) (ci_columns: "ustring list")
    (ci_unique: bool)

text \<open>A counterfactual contains a statement: \<open>'s\<close> stands for the type of statements.\<close>

datatype ('e, 's) counterfactual_given = GivenSubquery 's | GivenPairs "(ustring \<times> 'e) list"

datatype ('e, 's) counterfactual_stmt =
  CounterfactualStmt (cf_projections: "'e select_item list") (cf_model: ustring)
    (cf_given: "('e, 's) counterfactual_given option") (cf_had: "(ustring \<times> 'e) list")
    (cf_predict: ustring)

datatype 'e statement =
    Select "'e select_stmt"
  | Insert "'e insert_stmt"
  | Update "'e update_stmt"
  | Delete "'e delete_stmt"
  | CreateCollection create_collection_stmt
  | CreateIndex create_index_stmt
  | CreateCausalModel "'e create_causal_model_stmt"
  | Understand "'e understand_stmt"
  | TraceCausality "'e trace_causality_stmt"
  | EstimateEffect "'e estimate_effect_stmt"
  | Counterfactual "('e, 'e statement) counterfactual_stmt"
  | DiscoverCausal "'e discover_causal_stmt"
  | Remember "'e remember_stmt"
  | RecallBy "'e recall_by_stmt"
  | Forget "'e forget_stmt"

datatype expr =
    Literal literal
  | Ident ustring
  | Param ustring
  | BinaryOp binary_op expr expr
  | UnaryOp unary_op expr
  | FunctionCall ustring "expr list"
  | VectorDist ustring expr
  | InList expr "expr list"
  | IsNull expr
  | IsNotNull expr
  | Between expr expr expr
  | Subquery "expr statement"
  | Star
  | Array "expr list"
  | Qualified ustring ustring
  | Case "expr option" "(expr \<times> expr) list" "expr option"
  | Cast expr ustring
  | Not expr

end
