(* ===== verification/Parser.thy ===== *)
theory Parser
  imports Ast
begin

text \<open>
  The recursive-descent parser of FunQL, \<open>crates/fundb-sql/src/parser.rs\<close>, from the token navigation
  to the operators and primary expressions. The parser state is the list of tokens from the current position on; a
  parser maps it to a result and the rest, an error with its position, a panic (an index out of
  bounds) or \<open>OutOfFuel\<close>. The functions take the parsers they recur to as arguments: \<open>pe\<close> of whole
  expressions, \<open>pp\<close> of primary expressions and \<open>ps\<close> of inner SELECTs; \<open>knot\<close>, in the theory of the
  SELECT statement, ties them with a bound on the nesting depth. A loop gets as many rounds as there
  are tokens left.
\<close>

type_synonym tokens = "(token \<times> span) list"

datatype parse_message =
    Expected token token
  | Message string
  | MessageToken string token
  | MessageText string ustring

record parse_error =
  pe_message :: parse_message
  pe_line :: nat
  pe_col :: nat

datatype 'a presult = Parsed 'a tokens | Failed parse_error | Panicked | OutOfFuel

type_synonym 'a parser = "tokens \<Rightarrow> 'a presult"

subsection \<open>Sequencing and loops\<close>

definition ret :: "'a \<Rightarrow> 'a parser" where
  "ret x ts = Parsed x ts"

definition bindp :: "'a parser \<Rightarrow> ('a \<Rightarrow> 'b parser) \<Rightarrow> 'b parser" where
  "bindp p f ts =
     (case p ts of
        Parsed x ts' \<Rightarrow> f x ts'
      | Failed e \<Rightarrow> Failed e
      | Panicked \<Rightarrow> Panicked
      | OutOfFuel \<Rightarrow> OutOfFuel)"

definition thenp :: "'a parser \<Rightarrow> 'b parser \<Rightarrow> 'b parser" where
  "thenp p q = bindp p (\<lambda>_. q)"

definition mapp :: "('a \<Rightarrow> 'b) \<Rightarrow> 'a parser \<Rightarrow> 'b parser" where
  "mapp f p = bindp p (\<lambda>x. ret (f x))"

text \<open>A loop whose body returns the next state, or \<open>None\<close> to leave the loop.\<close>

primrec ploop :: "nat \<Rightarrow> ('s \<Rightarrow> 's option parser) \<Rightarrow> 's \<Rightarrow> 's parser" where
  "ploop 0 body s = (\<lambda>ts. OutOfFuel)"
| "ploop (Suc n) body s = bindp (body s) (\<lambda>r. case r of None \<Rightarrow> ret s | Some s' \<Rightarrow> ploop n body s')"

definition loop :: "('s \<Rightarrow> 's option parser) \<Rightarrow> 's \<Rightarrow> 's parser" where
  "loop body s ts = ploop (Suc (length ts)) body s ts"

abbreviation again :: "'s parser \<Rightarrow> 's option parser" where
  "again p \<equiv> mapp Some p"

abbreviation leave :: "'s option parser" where
  "leave \<equiv> ret None"

subsection \<open>Token navigation\<close>

definition eq_ignore_ascii_case :: "ustring \<Rightarrow> string \<Rightarrow> bool" where
  "eq_ignore_ascii_case s k \<longleftrightarrow> map ascii_lower s = map ascii_lower (text_of k)"

definition ident_is :: "string \<Rightarrow> token \<Rightarrow> bool" where
  "ident_is k t \<longleftrightarrow> (case t of TkIdent s \<Rightarrow> eq_ignore_ascii_case s k | _ \<Rightarrow> False)"

definition is_ident :: "token \<Rightarrow> bool" where
  "is_ident t \<longleftrightarrow> (case t of TkIdent _ \<Rightarrow> True | _ \<Rightarrow> False)"

definition ident_keywords :: "(string \<times> string) list" where
  "ident_keywords =
    [(''Algorithm'', ''algorithm''), (''Structure'', ''structure''), (''Equations'', ''equations''),
     (''Variables'', ''variables''), (''Confidence'', ''confidence''), (''Depth'', ''depth''),
     (''Path'', ''path''), (''Causality'', ''causality''), (''Recency'', ''recency''),
     (''Importance'', ''importance''), (''Memory'', ''memory''), (''Agent'', ''agent''),
     (''Priority'', ''priority''), (''Coherence'', ''coherence''), (''Diversity'', ''diversity''),
     (''Context'', ''context''), (''Collection'', ''collection''), (''Start'', ''start''),
     (''Return'', ''return''), (''Predict'', ''predict''), (''Now'', ''now''),
     (''Interval'', ''interval''), (''Explain'', ''explain''), (''Set'', ''set''),
     (''Value'', ''value''), (''MinConfidence'', ''min_confidence''), (''Store'', ''store''),
     (''Decay'', ''decay''), (''SemanticSimilarity'', ''semantic_similarity''),
     (''Consolidate'', ''consolidate''), (''Infer'', ''infer''), (''StoreAs'', ''store_as''),
     (''Vector'', ''_vector''), (''Traverse'', ''traverse''), (''Trace'', ''trace''),
     (''With'', ''with''), (''MaxTokens'', ''max_tokens''),
     (''IncludeContradictions'', ''include_contradictions'')]"

definition keyword_as_ident :: "token \<Rightarrow> ustring option" where
  "keyword_as_ident t =
     (case t of
        TkIdent s \<Rightarrow> Some s
      | TkKeyword k \<Rightarrow> map_option text_of (map_of ident_keywords k)
      | _ \<Rightarrow> None)"

definition peek :: "token parser" where
  "peek ts = (case ts of [] \<Rightarrow> Panicked | (t, _) # _ \<Rightarrow> Parsed t ts)"

definition peek2 :: "token option parser" where
  "peek2 ts = Parsed (case ts of _ # (t, _) # _ \<Rightarrow> Some t | _ \<Rightarrow> None) ts"

definition next_tok :: "token parser" where
  "next_tok ts =
     (case ts of
        [] \<Rightarrow> Panicked
      | (t, sp) # ts' \<Rightarrow> Parsed t (if ts' = [] then ts else ts'))"

text \<open>\<open>Err(self.error(msg))\<close>: the error at the span of the current token.\<close>

definition fail :: "parse_message \<Rightarrow> 'a parser" where
  "fail msg ts =
     (case ts of
        [] \<Rightarrow> Panicked
      | (_, sp) # _ \<Rightarrow> Failed \<lparr>pe_message = msg, pe_line = sp_line sp, pe_col = sp_col sp\<rparr>)"

text \<open>One arm of a match on the current token, and one that starts by consuming it.\<close>

definition branch :: "(token \<Rightarrow> bool) \<Rightarrow> 'a parser \<Rightarrow> 'a parser \<Rightarrow> 'a parser" where
  "branch P p q = bindp peek (\<lambda>t. if P t then p else q)"

definition took :: "(token \<Rightarrow> bool) \<Rightarrow> 'a parser \<Rightarrow> 'a parser \<Rightarrow> 'a parser" where
  "took P p q = branch P (thenp next_tok p) q"

abbreviation kw :: "string \<Rightarrow> token \<Rightarrow> bool" where
  "kw k \<equiv> (\<lambda>t. t = TkKeyword k)"

definition eat :: "token \<Rightarrow> bool parser" where
  "eat tok = took (\<lambda>t. t = tok) (ret True) (ret False)"

definition expect :: "token \<Rightarrow> unit parser" where
  "expect tok = bindp peek (\<lambda>t. if t = tok then thenp next_tok (ret ()) else fail (Expected tok t))"

definition expect_ident :: "ustring parser" where
  "expect_ident = bindp peek (\<lambda>t.
     case t of
       TkIdent name \<Rightarrow> thenp next_tok (ret name)
     | _ \<Rightarrow> (case keyword_as_ident t of
               Some s \<Rightarrow> thenp next_tok (ret s)
             | None \<Rightarrow> fail (MessageToken ''expected identifier, found'' t)))"

definition eat_keyword_or_ident :: "string \<Rightarrow> bool parser" where
  "eat_keyword_or_ident k = took (ident_is k) (ret True) (ret False)"

definition expect_string_or_ident :: "ustring parser" where
  "expect_string_or_ident = bindp peek (\<lambda>t.
     case t of TkStringLiteral s \<Rightarrow> thenp next_tok (ret s) | _ \<Rightarrow> expect_ident)"

text \<open>\<open>if self.eat(tok) { Some(p) } else { None }\<close>, and \<open>p { tok p }\<close> collected in a list.\<close>

definition optional :: "token \<Rightarrow> 'a parser \<Rightarrow> 'a option parser" where
  "optional tok p = bindp (eat tok) (\<lambda>b. if b then mapp Some p else ret None)"

definition more_items :: "token \<Rightarrow> 'a parser \<Rightarrow> 'a list \<Rightarrow> 'a list parser" where
  "more_items tok p = loop (\<lambda>xs. took (\<lambda>t. t = tok) (again (mapp (\<lambda>x. xs @ [x]) p)) leave)"

definition separated :: "token \<Rightarrow> 'a parser \<Rightarrow> 'a list parser" where
  "separated tok p = bindp p (\<lambda>x. more_items tok p [x])"

text \<open>The same, leaving the loop when \<open>stop\<close> follows a separator.\<close>

definition more_until :: "token \<Rightarrow> token \<Rightarrow> 'a parser \<Rightarrow> 'a list \<Rightarrow> 'a list parser" where
  "more_until tok stop p = loop (\<lambda>xs.
     took (\<lambda>t. t = tok) (branch (\<lambda>t. t = stop) leave (again (mapp (\<lambda>x. xs @ [x]) p))) leave)"

subsection \<open>Operators\<close>

text \<open>A left-associative level: operands \<open>p\<close> joined by the operators that \<open>ops\<close> knows.\<close>

definition left_assoc :: "(token \<Rightarrow> binary_op option) \<Rightarrow> expr parser \<Rightarrow> expr parser" where
  "left_assoc ops p = bindp p (loop (\<lambda>left. bindp peek (\<lambda>t.
     case ops t of
       None \<Rightarrow> leave
     | Some op \<Rightarrow> thenp next_tok (again (mapp (BinaryOp op left) p)))))"

definition or_op :: "token \<Rightarrow> binary_op option" where
  "or_op t = (if t = TkKeyword ''Or'' then Some OpOr else None)"

definition and_op :: "token \<Rightarrow> binary_op option" where
  "and_op t = (if t = TkKeyword ''And'' then Some OpAnd else None)"

definition add_op :: "token \<Rightarrow> binary_op option" where
  "add_op t = (case t of TkPlus \<Rightarrow> Some OpAdd | TkMinus \<Rightarrow> Some OpSub | _ \<Rightarrow> None)"

definition mul_op :: "token \<Rightarrow> binary_op option" where
  "mul_op t = (case t of TkStar \<Rightarrow> Some OpMul | TkSlash \<Rightarrow> Some OpDiv | TkPercent \<Rightarrow> Some OpMod | _ \<Rightarrow> None)"

definition cmp_op :: "token \<Rightarrow> binary_op option" where
  "cmp_op t =
     (case t of
        TkEq \<Rightarrow> Some OpEq | TkAssign \<Rightarrow> Some OpEq | TkNotEq \<Rightarrow> Some OpNotEq | TkLt \<Rightarrow> Some OpLt
      | TkLtEq \<Rightarrow> Some OpLtEq | TkGt \<Rightarrow> Some OpGt | TkGtEq \<Rightarrow> Some OpGtEq
      | TkKeyword k \<Rightarrow> if k = ''Like'' then Some OpLike else None
      | _ \<Rightarrow> None)"

definition parse_unary_expr :: "expr parser \<Rightarrow> expr parser" where
  "parse_unary_expr pp = took (\<lambda>t. t = TkMinus) (mapp (UnaryOp UNeg) pp) pp"

definition parse_vector_dist_expr :: "expr parser \<Rightarrow> expr parser" where
  "parse_vector_dist_expr pp =
     bindp (parse_unary_expr pp) (\<lambda>e.
     took (\<lambda>t. t = TkVectorDist) (mapp (BinaryOp OpArrow e) (parse_unary_expr pp)) (ret e))"

definition parse_multiplicative_expr :: "expr parser \<Rightarrow> expr parser" where
  "parse_multiplicative_expr pp = left_assoc mul_op (parse_vector_dist_expr pp)"

definition parse_additive_expr :: "expr parser \<Rightarrow> expr parser" where
  "parse_additive_expr pp = left_assoc add_op (parse_multiplicative_expr pp)"

text \<open>
  \<open>parse_in_list\<close> and \<open>parse_comparison_expr\<close> take the parser \<open>pe\<close> of whole expressions, which the
  list elements are, next to \<open>pp\<close>.
\<close>

definition parse_in_list :: "expr parser \<Rightarrow> expr list parser" where
  "parse_in_list pe =
     thenp (expect TkLParen) (bindp (separated TkComma pe) (\<lambda>xs. thenp (expect TkRParen) (ret xs)))"

text \<open>What follows the left operand of a comparison.\<close>

definition comparison_tail :: "expr parser \<Rightarrow> expr parser \<Rightarrow> expr \<Rightarrow> expr parser" where
  "comparison_tail pe pp left =
     bindp peek (\<lambda>t.
       case cmp_op t of
         Some op \<Rightarrow> thenp next_tok (mapp (BinaryOp op left) (parse_additive_expr pp))
       | None \<Rightarrow>
           took (kw ''Not'')
             (took (kw ''Like'') (mapp (BinaryOp OpNotLike left) (parse_additive_expr pp))
               (took (kw ''In'') (mapp (InList left) (parse_in_list pe))
                 (fail (Message ''expected LIKE or IN after NOT''))))
          (took (kw ''Is'')
             (took (kw ''Not'') (thenp (expect (TkKeyword ''Null'')) (ret (IsNotNull left)))
               (thenp (expect (TkKeyword ''Null'')) (ret (IsNull left))))
          (took (kw ''In'') (mapp (InList left) (parse_in_list pe))
          (took (kw ''Between'')
             (bindp (parse_additive_expr pp) (\<lambda>low.
              thenp (expect (TkKeyword ''And''))
                (mapp (Between left low) (parse_additive_expr pp))))
           (ret left)))))"

definition parse_comparison_expr :: "expr parser \<Rightarrow> expr parser \<Rightarrow> expr parser" where
  "parse_comparison_expr pe pp = bindp (parse_additive_expr pp) (comparison_tail pe pp)"

primrec not_loop :: "nat \<Rightarrow> expr parser \<Rightarrow> expr parser" where
  "not_loop 0 p = (\<lambda>ts. OutOfFuel)"
| "not_loop (Suc n) p = took (kw ''Not'') (mapp Not (not_loop n p)) p"

definition parse_not_expr :: "expr parser \<Rightarrow> expr parser \<Rightarrow> expr parser" where
  "parse_not_expr pe pp ts = not_loop (Suc (length ts)) (parse_comparison_expr pe pp) ts"

definition parse_and_expr :: "expr parser \<Rightarrow> expr parser \<Rightarrow> expr parser" where
  "parse_and_expr pe pp = left_assoc and_op (parse_not_expr pe pp)"

definition parse_or_expr :: "expr parser \<Rightarrow> expr parser \<Rightarrow> expr parser" where
  "parse_or_expr pe pp = left_assoc or_op (parse_and_expr pe pp)"


subsection \<open>Primary expressions\<close>

definition vector_default :: ustring where
  "vector_default = text_of ''_default''"

text \<open>What follows \<open>_vector\<close>, alone or behind a table name.\<close>

definition vector_tail :: "expr parser \<Rightarrow> expr parser" where
  "vector_tail pp =
     took (\<lambda>t. t = TkVectorDist) (mapp (VectorDist vector_default) pp)
       (thenp (expect TkLParen)
        (bindp expect_string_or_ident (\<lambda>field.
         thenp (expect TkRParen)
           (took (\<lambda>t. t = TkVectorDist) (mapp (VectorDist field) pp)
              (ret (FunctionCall (text_of ''_vector'') [Literal (LString field)]))))))"

text \<open>
  The arguments of a call, after the opening parenthesis; in a plain call an argument behind the
  first may be named, in a method call not.
\<close>

definition call_argument :: "bool \<Rightarrow> expr parser \<Rightarrow> expr parser" where
  "call_argument named pe =
     bindp peek (\<lambda>t. bindp peek2 (\<lambda>t2.
       if named \<and> is_ident t \<and> t2 = Some TkColon
       then thenp expect_ident (thenp (expect TkColon) pe)
       else pe))"

definition call_args :: "bool \<Rightarrow> expr parser \<Rightarrow> expr list parser" where
  "call_args named pe =
     bindp (branch (\<lambda>t. t = TkRParen) (ret [])
       (bindp pe (\<lambda>x. loop (\<lambda>xs.
          took (\<lambda>t. t = TkComma)
            (branch (\<lambda>t. t = TkRParen) leave
              (again (mapp (\<lambda>x. xs @ [x]) (call_argument named pe)))) leave) [x])))
       (\<lambda>args. thenp (expect TkRParen) (ret args))"

text \<open>The arm for identifiers and the keywords that double as identifiers.\<close>

definition parse_name_expr :: "expr parser \<Rightarrow> expr parser \<Rightarrow> ustring \<Rightarrow> expr parser" where
  "parse_name_expr pe pp name =
     took (\<lambda>t. t = TkLParen) (mapp (FunctionCall name) (call_args True pe))
    (took (\<lambda>t. t = TkDot)
       (took (\<lambda>t. t = TkStar) (ret (Qualified name (text_of ''*'')))
       (took (kw ''Vector'') (vector_tail pp)
          (bindp expect_ident (\<lambda>field.
             took (\<lambda>t. t = TkLParen) (mapp (FunctionCall (name @ text_of ''.'' @ field)) (call_args False pe))
               (ret (Qualified name field))))))
       (ret (Ident name)))"

definition parse_case_expr :: "expr parser \<Rightarrow> expr parser" where
  "parse_case_expr pe =
     thenp (expect (TkKeyword ''Case''))
      (bindp (branch (kw ''When'') (ret None) (mapp Some pe)) (\<lambda>operand.
       bindp (loop (\<lambda>ws. took (kw ''When'')
                (bindp pe (\<lambda>cond. thenp (expect (TkKeyword ''Then''))
                   (again (mapp (\<lambda>result. ws @ [(cond, result)]) pe)))) leave) []) (\<lambda>when_clauses.
       bindp (optional (TkKeyword ''Else'') pe) (\<lambda>else_clause.
       thenp (expect (TkKeyword ''End'')) (ret (Case operand when_clauses else_clause))))))"

definition array_expr :: "expr parser \<Rightarrow> expr parser" where
  "array_expr pe =
     took (\<lambda>t. t = TkRBracket) (ret (Array []))
       (bindp pe (\<lambda>x. bindp (more_until TkComma TkRBracket pe [x]) (\<lambda>xs.
        thenp (expect TkRBracket) (ret (Array xs)))))"

definition interval_expr :: "expr parser" where
  "interval_expr = bindp peek (\<lambda>t.
     case t of
       TkStringLiteral s \<Rightarrow>
         thenp next_tok (ret (FunctionCall (text_of ''interval'') [Literal (LString s)]))
     | _ \<Rightarrow> ret (Ident (text_of ''interval'')))"

definition parse_primary_body ::
    "expr parser \<Rightarrow> expr parser \<Rightarrow> expr select_stmt parser \<Rightarrow> expr parser" where
  "parse_primary_body pe pp ps = bindp peek (\<lambda>tok.
     case tok of
       TkIntLiteral n \<Rightarrow> thenp next_tok (ret (Literal (LInt n)))
     | TkFloatLiteral f \<Rightarrow> thenp next_tok (ret (Literal (LFloat f)))
     | TkStringLiteral s \<Rightarrow> thenp next_tok (ret (Literal (LString s)))
     | TkParam name \<Rightarrow> thenp next_tok (ret (Param name))
     | TkStar \<Rightarrow> thenp next_tok (ret Star)
     | TkLParen \<Rightarrow> thenp next_tok
         (branch (kw ''Select'')
           (bindp ps (\<lambda>sub. thenp (expect TkRParen) (ret (Subquery (Select sub)))))
           (bindp pe (\<lambda>e. thenp (expect TkRParen) (ret e))))
     | TkLBracket \<Rightarrow> thenp next_tok (array_expr pe)
     | _ \<Rightarrow>
         if tok = TkKeyword ''True'' then thenp next_tok (ret (Literal (LBool True)))
         else if tok = TkKeyword ''False'' then thenp next_tok (ret (Literal (LBool False)))
         else if tok = TkKeyword ''Null'' then thenp next_tok (ret (Literal LNull))
         else if tok = TkKeyword ''Vector'' then thenp next_tok (vector_tail pp)
         else if tok = TkKeyword ''Exists'' then thenp next_tok (thenp (expect TkLParen)
                (bindp ps (\<lambda>sub. thenp (expect TkRParen) (ret (Subquery (Select sub))))))
         else if tok = TkKeyword ''Case'' then parse_case_expr pe
         else if tok = TkKeyword ''Interval'' then thenp next_tok interval_expr
         else
           (case keyword_as_ident tok of
              Some name \<Rightarrow> thenp next_tok (parse_name_expr pe pp name)
            | None \<Rightarrow> fail (MessageToken ''unexpected token in expression:'' tok)))"

end
