(* ===== verification/Parser_Select.thy ===== *)
theory Parser_Select
  imports Parser
begin

text \<open>
  The clauses of the SELECT statement and its parser, \<open>crates/fundb-sql/src/parser.rs\<close>, and the knot of
  the mutually recursive parsers of expressions and inner SELECTs.
\<close>

subsection \<open>Lists, items, table references and joins\<close>

definition parse_order_by_item :: "expr parser \<Rightarrow> expr order_by_item parser" where
  "parse_order_by_item pe = bindp pe (\<lambda>e.
     bindp (eat (TkKeyword ''Desc'')) (\<lambda>desc.
       if desc then ret (OrderByItem e False)
       else thenp (eat (TkKeyword ''Asc'')) (ret (OrderByItem e True))))"

definition parse_order_by_list :: "expr parser \<Rightarrow> expr order_by_item list parser" where
  "parse_order_by_list pe = bindp (parse_order_by_item pe) (\<lambda>x.
     more_until TkComma TkRBracket (parse_order_by_item pe) [x])"

definition parse_expr_list :: "expr parser \<Rightarrow> expr list parser" where
  "parse_expr_list pe = separated TkComma pe"

definition clause_keywords :: "string list" where
  "clause_keywords =
     [''Where'', ''Join'', ''Inner'', ''Left'', ''Right'', ''Cross'', ''Outer'', ''Order'', ''Group'',
      ''Having'', ''Limit'', ''Offset'', ''Within'', ''AsOf'', ''As'', ''Traverse'', ''Trace'',
      ''Return'', ''Recall'']"

definition is_clause_keyword :: "token \<Rightarrow> bool" where
  "is_clause_keyword t \<longleftrightarrow>
     (case t of TkKeyword k \<Rightarrow> k \<in> set clause_keywords | _ \<Rightarrow> t = TkEof \<or> t = TkSemicolon)"

text \<open>\<open>AS name\<close>, or a name on its own.\<close>

definition parse_alias :: "ustring option parser" where
  "parse_alias = bindp (eat (TkKeyword ''As'')) (\<lambda>a.
     if a then mapp Some expect_ident
     else branch (\<lambda>t. is_ident t \<and> \<not> is_clause_keyword t) (mapp Some expect_ident) (ret None))"

definition parse_select_item :: "expr parser \<Rightarrow> expr select_item parser" where
  "parse_select_item pe =
     took (\<lambda>t. t = TkStar) (ret Wildcard)
       (bindp pe (\<lambda>e. mapp (SelectExpr e) parse_alias))"

definition parse_projection_list :: "expr parser \<Rightarrow> expr select_item list parser" where
  "parse_projection_list pe = separated TkComma (parse_select_item pe)"

definition parse_qualified_name :: "ustring parser" where
  "parse_qualified_name = bindp expect_ident (\<lambda>name.
     took (\<lambda>t. t = TkDot) (mapp (\<lambda>sub. name @ text_of ''.'' @ sub) expect_ident) (ret name))"

definition of_follows :: "bool parser" where
  "of_follows = mapp (\<lambda>t2. case t2 of Some t \<Rightarrow> ident_is ''of'' t | None \<Rightarrow> False) peek2"

definition parse_table_alias :: "ustring option parser" where
  "parse_table_alias = bindp peek (\<lambda>t. bindp of_follows (\<lambda>ofs.
     if t = TkKeyword ''As'' \<and> \<not> ofs then thenp next_tok (mapp Some expect_ident)
     else if is_ident t \<and> \<not> is_clause_keyword t then mapp Some expect_ident
     else ret None))"

definition parse_table_ref :: "expr select_stmt parser \<Rightarrow> table_ref parser" where
  "parse_table_ref ps =
     took (kw ''Agent'')
       (thenp (expect (TkKeyword ''Memory'')) (mapp (\<lambda>name. TableRef name None True) expect_ident))
    (took (\<lambda>t. t = TkLParen)
       (bindp ps (\<lambda>_. thenp (expect TkRParen)
          (mapp (\<lambda>alias. TableRef (text_of ''<subquery>'') alias False) parse_alias)))
       (bindp parse_qualified_name (\<lambda>name.
          mapp (\<lambda>alias. TableRef name alias False) parse_table_alias)))"

definition is_join_token :: "token \<Rightarrow> bool" where
  "is_join_token t \<longleftrightarrow>
     t \<in> TkKeyword ` set [''Join'', ''Inner'', ''Left'', ''Right'', ''Cross'', ''Outer'']"

definition join_kind :: "join_type parser" where
  "join_kind = bindp peek (\<lambda>t.
     if t = TkKeyword ''Inner'' then thenp next_tok (thenp (eat (TkKeyword ''Join'')) (ret JoinInner))
     else if t = TkKeyword ''Left'' then
       thenp next_tok (thenp (eat (TkKeyword ''Outer'')) (thenp (eat (TkKeyword ''Join'')) (ret JoinLeft)))
     else if t = TkKeyword ''Right'' then
       thenp next_tok (thenp (eat (TkKeyword ''Outer'')) (thenp (eat (TkKeyword ''Join'')) (ret JoinRight)))
     else if t = TkKeyword ''Cross'' then thenp next_tok (thenp (eat (TkKeyword ''Join'')) (ret JoinCross))
     else if t = TkKeyword ''Outer'' then thenp next_tok (thenp (eat (TkKeyword ''Join'')) (ret JoinFull))
     else if t = TkKeyword ''Join'' then thenp next_tok (ret JoinInner)
     else fail (MessageToken ''expected JOIN keyword, found'' t))"

definition parse_join :: "expr parser \<Rightarrow> expr select_stmt parser \<Rightarrow> expr join_clause parser" where
  "parse_join pe ps =
     bindp join_kind (\<lambda>ty. bindp (parse_table_ref ps) (\<lambda>table.
     mapp (JoinClause ty table) (optional (TkKeyword ''On'') pe)))"

subsection \<open>Traversal, causality, context, time travel, recall\<close>

definition chain_from :: "ustring \<Rightarrow> ustring list parser" where
  "chain_from first = more_items TkArrow expect_ident [first]"

definition parse_traverse_clause :: "expr parser \<Rightarrow> expr traverse_clause parser" where
  "parse_traverse_clause pp =
     thenp (expect (TkKeyword ''Traverse'')) (bindp expect_ident (\<lambda>relation.
     bindp (took (\<lambda>t. t = TkLParen)
        (thenp (took (\<lambda>t. t = TkKeyword ''Depth'' \<or> ident_is ''depth'' t) (eat TkColon) (ret False))
          (bindp pp (\<lambda>low.
           bindp (took (\<lambda>t. t = TkDotDot) (mapp (\<lambda>high. (Some low, Some high)) pp)
                    (ret (Some low, Some low))) (\<lambda>depths.
           thenp (expect TkRParen) (ret depths)))))
        (ret (None, None))) (\<lambda>(depth_min, depth_max).
     mapp (\<lambda>chain. TraverseClause relation chain depth_min depth_max None) (chain_from relation))))"

record trace_acc =
  ta_from :: "expr option"
  ta_to :: "expr option"
  ta_max_depth :: "expr option"
  ta_min_strength :: "expr option"
  ta_min_stability :: "expr option"
  ta_return :: "expr select_item list"

definition trace_start :: trace_acc where
  "trace_start = \<lparr>ta_from = None, ta_to = None, ta_max_depth = None, ta_min_strength = None,
     ta_min_stability = None, ta_return = []\<rparr>"

text \<open>The three limits, common to the clause and to the statement; \<open>q\<close> is what else there is.\<close>

definition trace_limits :: "expr parser \<Rightarrow> trace_acc \<Rightarrow> trace_acc option parser \<Rightarrow> trace_acc option parser" where
  "trace_limits pe a q =
     took (kw ''MaxDepth'') (again (mapp (\<lambda>e. a\<lparr>ta_max_depth := Some e\<rparr>) pe))
    (took (kw ''MinStrength'') (again (mapp (\<lambda>e. a\<lparr>ta_min_strength := Some e\<rparr>) pe))
    (took (kw ''MinStability'') (again (mapp (\<lambda>e. a\<lparr>ta_min_stability := Some e\<rparr>) pe)) q))"

definition parse_trace_causality_clause :: "expr parser \<Rightarrow> expr parser \<Rightarrow> expr trace_causality_clause parser" where
  "parse_trace_causality_clause pe pp =
     thenp (expect (TkKeyword ''Trace'')) (thenp (expect (TkKeyword ''Causality''))
      (mapp (\<lambda>a. TraceCausalityClause (ta_from a) (ta_to a) (ta_max_depth a) (ta_min_strength a)
                   (ta_min_stability a))
        (loop (\<lambda>a.
           took (kw ''From'') (again (mapp (\<lambda>e. a\<lparr>ta_from := Some e\<rparr>) pp))
          (took (ident_is ''to'') (again (mapp (\<lambda>e. a\<lparr>ta_to := Some e\<rparr>) pp))
          (trace_limits pe a leave))) trace_start)))"

record context_acc =
  ca_max_tokens :: "expr option"
  ca_coherence :: "expr option"
  ca_diversity :: "expr option"
  ca_include :: "bool option"
  ca_priority :: "expr order_by_item list"

definition parse_context_option :: "expr parser \<Rightarrow> ustring \<Rightarrow> context_acc \<Rightarrow> context_acc parser" where
  "parse_context_option pe key c =
     (if map ascii_lower key = text_of ''max_tokens'' then mapp (\<lambda>e. c\<lparr>ca_max_tokens := Some e\<rparr>) pe
      else if map ascii_lower key = text_of ''coherence'' then mapp (\<lambda>e. c\<lparr>ca_coherence := Some e\<rparr>) pe
      else if map ascii_lower key = text_of ''diversity'' then mapp (\<lambda>e. c\<lparr>ca_diversity := Some e\<rparr>) pe
      else if map ascii_lower key = text_of ''include_contradictions'' then
        took (kw ''True'') (ret (c\<lparr>ca_include := Some True\<rparr>))
       (took (kw ''False'') (ret (c\<lparr>ca_include := Some False\<rparr>))
          (bindp peek (\<lambda>t.
             fail (MessageToken ''expected true/false for include_contradictions, found'' t))))
      else if map ascii_lower key = text_of ''priority'' then
        took (\<lambda>t. t = TkLBracket)
          (bindp (parse_order_by_list pe) (\<lambda>xs. thenp (expect TkRBracket) (ret (c\<lparr>ca_priority := xs\<rparr>))))
          (mapp (\<lambda>xs. c\<lparr>ca_priority := xs\<rparr>) (parse_order_by_list pe))
      else fail (MessageText ''unknown WITHIN CONTEXT option:'' (map ascii_lower key)))"

definition parse_within_context :: "expr parser \<Rightarrow> expr context_options parser" where
  "parse_within_context pe =
     thenp (expect (TkKeyword ''Within'')) (thenp (expect (TkKeyword ''Context'')) (thenp (expect TkLParen)
      (bindp (loop (\<lambda>c. branch (\<lambda>t. t = TkRParen \<or> t = TkEof) leave
                 (bindp expect_ident (\<lambda>key. thenp (expect TkColon)
                   (bindp (parse_context_option pe key c) (\<lambda>c'.
                    thenp (eat TkComma) (ret (Some c')))))))
               \<lparr>ca_max_tokens = None, ca_coherence = None, ca_diversity = None, ca_include = None,
                ca_priority = []\<rparr>) (\<lambda>c.
       thenp (expect TkRParen)
         (ret (ContextOptions (ca_max_tokens c) (ca_coherence c) (ca_diversity c) (ca_include c)
            (ca_priority c)))))))"

definition valid_time_body :: "expr parser \<Rightarrow> expr as_of_clause parser" where
  "valid_time_body pp =
     took (kw ''Between'')
       (bindp pp (\<lambda>low. thenp (expect (TkKeyword ''And'')) (mapp (AsOfValidTimeBetween low) pp)))
       (mapp AsOfValidTimeAt pp)"

definition parse_as_of_body :: "expr parser \<Rightarrow> expr as_of_clause parser" where
  "parse_as_of_body pp = bindp peek (\<lambda>first.
     if first = TkKeyword ''SystemTime'' then thenp next_tok (mapp AsOfSystemTime pp)
     else if first = TkKeyword ''ValidTime'' then thenp next_tok (valid_time_body pp)
     else if ident_is ''system'' first then
       thenp next_tok (thenp (eat_keyword_or_ident ''time'') (mapp AsOfSystemTime pp))
     else if ident_is ''valid'' first then
       thenp next_tok (thenp (eat_keyword_or_ident ''time'') (valid_time_body pp))
     else fail (MessageToken ''expected SYSTEM TIME or VALID TIME after AS OF, found'' first))"

text \<open>The parameters of \<open>recency(...)\<close>.\<close>

record recency_acc =
  ra_decay :: "ustring option"
  ra_half_life :: "ustring option"
  ra_weight :: "expr option"

definition recency_params :: "expr parser \<Rightarrow> recency_acc parser" where
  "recency_params pp =
     loop (\<lambda>r. branch (\<lambda>t. t = TkRParen \<or> t = TkEof) leave
       (bindp expect_ident (\<lambda>k. thenp (expect TkColon)
         (bindp (if map ascii_lower k = text_of ''decay''
                   then mapp (\<lambda>s. r\<lparr>ra_decay := Some s\<rparr>) expect_string_or_ident
                 else if map ascii_lower k = text_of ''half_life''
                   then mapp (\<lambda>s. r\<lparr>ra_half_life := Some s\<rparr>) expect_string_or_ident
                 else if map ascii_lower k = text_of ''weight''
                   then mapp (\<lambda>e. r\<lparr>ra_weight := Some e\<rparr>) pp
                 else mapp (\<lambda>_. r) pp) (\<lambda>r'.
          thenp (eat TkComma) (ret (Some r')))))))
     \<lparr>ra_decay = None, ra_half_life = None, ra_weight = None\<rparr>"

definition weight_param :: "expr parser \<Rightarrow> expr option parser" where
  "weight_param pp = bindp expect_ident (\<lambda>key.
     if eq_ignore_ascii_case key ''weight'' then thenp (expect TkColon) (mapp Some pp) else ret None)"

definition parse_recall_weight :: "expr parser \<Rightarrow> expr recall_weight parser" where
  "parse_recall_weight pp = bindp expect_ident (\<lambda>name. thenp (expect TkLParen)
     (if map ascii_lower name = text_of ''semantic_similarity'' then
        bindp pp (\<lambda>query. bindp (took (\<lambda>t. t = TkComma) (weight_param pp) (ret None)) (\<lambda>w.
        thenp (expect TkRParen) (ret (SemanticSimilarity query w))))
      else if map ascii_lower name = text_of ''recency'' then
        bindp (recency_params pp) (\<lambda>r.
        thenp (expect TkRParen) (ret (Recency (ra_decay r) (ra_half_life r) (ra_weight r))))
      else if map ascii_lower name = text_of ''importance'' then
        bindp (branch (\<lambda>t. t = TkRParen) (ret None) (weight_param pp)) (\<lambda>w.
        thenp (expect TkRParen) (ret (Importance w)))
      else fail (MessageText ''unknown recall weight function:'' (map ascii_lower name))))"

definition parse_recall_weights :: "expr parser \<Rightarrow> expr recall_weight list parser" where
  "parse_recall_weights pp = separated TkPlus (parse_recall_weight pp)"

definition parse_recall_by_clause :: "expr parser \<Rightarrow> expr recall_by_clause parser" where
  "parse_recall_by_clause pp =
     thenp (expect (TkKeyword ''Recall'')) (thenp (expect (TkKeyword ''By''))
       (mapp RecallByClause (parse_recall_weights pp)))"

subsection \<open>The SELECT statement and the knot\<close>

text \<open>The local variables of \<open>finish_select\<close>.\<close>

record select_acc =
  sa_joins :: "expr join_clause list"
  sa_where :: "expr option"
  sa_group_by :: "expr list"
  sa_having :: "expr option"
  sa_order_by :: "expr order_by_item list"
  sa_limit :: "expr option"
  sa_offset :: "expr option"
  sa_within :: "expr context_options option"
  sa_as_of :: "expr as_of_clause option"
  sa_traverse :: "expr traverse_clause option"
  sa_trace :: "expr trace_causality_clause option"
  sa_return :: "expr select_item list"
  sa_recall :: "expr recall_by_clause option"

definition select_start :: select_acc where
  "select_start =
     \<lparr>sa_joins = [], sa_where = None, sa_group_by = [], sa_having = None, sa_order_by = [],
      sa_limit = None, sa_offset = None, sa_within = None, sa_as_of = None, sa_traverse = None,
      sa_trace = None, sa_return = [], sa_recall = None\<rparr>"

definition with_max_depth :: "expr \<Rightarrow> expr trace_causality_clause \<Rightarrow> expr trace_causality_clause" where
  "with_max_depth e c = TraceCausalityClause (tc_from c) (tc_to c) (Some e) (tc_min_strength c) (tc_min_stability c)"

definition with_min_strength :: "expr \<Rightarrow> expr trace_causality_clause \<Rightarrow> expr trace_causality_clause" where
  "with_min_strength e c = TraceCausalityClause (tc_from c) (tc_to c) (tc_max_depth c) (Some e) (tc_min_stability c)"

definition with_min_stability :: "expr \<Rightarrow> expr trace_causality_clause \<Rightarrow> expr trace_causality_clause" where
  "with_min_stability e c = TraceCausalityClause (tc_from c) (tc_to c) (tc_max_depth c) (tc_min_strength c) (Some e)"

text \<open>A limit of an earlier TRACE CAUSALITY clause; without one the loop of clauses ends.\<close>

definition trace_limit ::
    "string \<Rightarrow> (expr \<Rightarrow> expr trace_causality_clause \<Rightarrow> expr trace_causality_clause) \<Rightarrow> expr parser \<Rightarrow>
     select_acc \<Rightarrow> select_acc option parser \<Rightarrow> select_acc option parser" where
  "trace_limit k upd pe a q =
     branch (kw k)
       (case sa_trace a of
          Some tc \<Rightarrow> took (kw k) (again (mapp (\<lambda>e. a\<lparr>sa_trace := Some (upd e tc)\<rparr>) pe)) leave
        | None \<Rightarrow> leave) q"

definition select_clause ::
    "expr parser \<Rightarrow> expr parser \<Rightarrow> expr select_stmt parser \<Rightarrow> select_acc \<Rightarrow> select_acc option parser" where
  "select_clause pe pp ps a =
     branch is_join_token (again (mapp (\<lambda>j. a\<lparr>sa_joins := sa_joins a @ [j]\<rparr>) (parse_join pe ps)))
    (branch (kw ''Traverse'') (again (mapp (\<lambda>t. a\<lparr>sa_traverse := Some t\<rparr>) (parse_traverse_clause pp)))
    (branch (kw ''Trace'') (again (mapp (\<lambda>t. a\<lparr>sa_trace := Some t\<rparr>) (parse_trace_causality_clause pe pp)))
    (took (kw ''Where'') (again (mapp (\<lambda>e. a\<lparr>sa_where := Some e\<rparr>) pe))
    (branch (kw ''Recall'') (again (mapp (\<lambda>r. a\<lparr>sa_recall := Some r\<rparr>) (parse_recall_by_clause pp)))
    (took (kw ''Group'')
       (thenp (expect (TkKeyword ''By'')) (again (mapp (\<lambda>es. a\<lparr>sa_group_by := es\<rparr>) (parse_expr_list pe))))
    (took (kw ''Having'') (again (mapp (\<lambda>e. a\<lparr>sa_having := Some e\<rparr>) pe))
    (took (kw ''Order'')
       (thenp (expect (TkKeyword ''By'')) (again (mapp (\<lambda>es. a\<lparr>sa_order_by := es\<rparr>) (parse_order_by_list pe))))
    (took (kw ''Limit'') (again (mapp (\<lambda>e. a\<lparr>sa_limit := Some e\<rparr>) pe))
    (took (kw ''Offset'') (again (mapp (\<lambda>e. a\<lparr>sa_offset := Some e\<rparr>) pe))
    (branch (kw ''Within'') (again (mapp (\<lambda>c. a\<lparr>sa_within := Some c\<rparr>) (parse_within_context pe)))
    (took (kw ''AsOf'') (again (mapp (\<lambda>c. a\<lparr>sa_as_of := Some c\<rparr>) (parse_as_of_body pp)))
    (branch (kw ''As'')
       (bindp of_follows (\<lambda>ofs.
          if ofs then took (kw ''As'') (thenp next_tok
                 (again (mapp (\<lambda>c. a\<lparr>sa_as_of := Some c\<rparr>) (parse_as_of_body pp)))) leave
          else leave))
    (took (kw ''Return'') (again (mapp (\<lambda>xs. a\<lparr>sa_return := xs\<rparr>) (parse_projection_list pe)))
    (trace_limit ''MaxDepth'' with_max_depth pe a
    (trace_limit ''MinStrength'' with_min_strength pe a
    (trace_limit ''MinStability'' with_min_stability pe a
      leave))))))))))))))))"

definition finish_select ::
    "expr parser \<Rightarrow> expr parser \<Rightarrow> expr select_stmt parser \<Rightarrow>
     bool \<Rightarrow> expr select_item list \<Rightarrow> table_ref option \<Rightarrow> expr select_stmt parser" where
  "finish_select pe pp ps dist projections from =
     mapp (\<lambda>a. SelectStmt dist projections from (sa_joins a) (sa_where a) (sa_group_by a)
                 (sa_having a) (sa_order_by a) (sa_limit a) (sa_offset a) (sa_within a) (sa_as_of a)
                 (sa_traverse a) (sa_trace a) (sa_return a) (sa_recall a))
       (loop (select_clause pe pp ps) select_start)"

definition parse_select_inner_body ::
    "expr parser \<Rightarrow> expr parser \<Rightarrow> expr select_stmt parser \<Rightarrow> expr select_stmt parser" where
  "parse_select_inner_body pe pp ps =
     thenp (expect (TkKeyword ''Select''))
      (bindp (eat (TkKeyword ''Distinct'')) (\<lambda>dist.
       bindp (parse_projection_list pe) (\<lambda>projections.
       bindp (optional (TkKeyword ''From'') (parse_table_ref ps)) (\<lambda>from.
       finish_select pe pp ps dist projections from))))"

text \<open>
  \<open>parse_expr\<close>, \<open>parse_primary_expr\<close> and \<open>parse_select_inner\<close> at a nesting depth. Every call they make to
  one another comes after a consumed token, except that of \<open>parse_expr\<close> to \<open>parse_primary_expr\<close>.
\<close>

primrec knot :: "nat \<Rightarrow> expr parser \<times> expr parser \<times> expr select_stmt parser" where
  "knot 0 = (\<lambda>ts. OutOfFuel, \<lambda>ts. OutOfFuel, \<lambda>ts. OutOfFuel)"
| "knot (Suc n) =
     (case knot n of (pe, pp, ps) \<Rightarrow>
        (parse_or_expr pe (parse_primary_body pe pp ps),
         parse_primary_body pe pp ps,
         parse_select_inner_body pe pp ps))"

definition parse_expr :: "nat \<Rightarrow> expr parser" where
  "parse_expr n = fst (knot n)"

definition parse_primary_expr :: "nat \<Rightarrow> expr parser" where
  "parse_primary_expr n = fst (snd (knot n))"

definition parse_select_inner :: "nat \<Rightarrow> expr select_stmt parser" where
  "parse_select_inner n = snd (snd (knot n))"

lemma knot_0:
  "parse_expr 0 = (\<lambda>ts. OutOfFuel)" "parse_primary_expr 0 = (\<lambda>ts. OutOfFuel)"
  "parse_select_inner 0 = (\<lambda>ts. OutOfFuel)"
  by (simp_all add: parse_expr_def parse_primary_expr_def parse_select_inner_def)

lemma knot_Suc:
  "parse_expr (Suc n) = parse_or_expr (parse_expr n) (parse_primary_expr (Suc n))"
  "parse_primary_expr (Suc n) = parse_primary_body (parse_expr n) (parse_primary_expr n) (parse_select_inner n)"
  "parse_select_inner (Suc n) = parse_select_inner_body (parse_expr n) (parse_primary_expr n) (parse_select_inner n)"
  by (simp_all add: parse_expr_def parse_primary_expr_def parse_select_inner_def split_beta)

end
