(* ===== verification/Parser_Statements.thy ===== *)
theory Parser_Statements
  imports Parser_Select
begin

text \<open>
  The remaining statements of FunQL and the entry points, \<open>crates/fundb-sql/src/parser.rs\<close> and \<open>parse\<close>
  of \<open>lib.rs\<close>, which runs the lexer and the parser.
\<close>

subsection \<open>Insert, update, delete, create\<close>

definition parse_assignment :: "expr parser \<Rightarrow> (ustring \<times> expr) parser" where
  "parse_assignment pe = bindp expect_ident (\<lambda>name.
     bindp (eat TkAssign) (\<lambda>a. thenp (if a then ret True else eat TkEq) (mapp (Pair name) pe)))"

definition parse_assignment_list :: "expr parser \<Rightarrow> (ustring \<times> expr) list parser" where
  "parse_assignment_list pe = separated TkComma (parse_assignment pe)"

text \<open>\<open>key = value\<close> where either equality sign, or both, or none may stand.\<close>

definition parse_pair :: "expr parser \<Rightarrow> (ustring \<times> expr) parser" where
  "parse_pair pe = bindp expect_ident (\<lambda>k.
     thenp (eat TkAssign) (thenp (eat TkEq) (mapp (Pair k) pe)))"

definition parse_row :: "expr parser \<Rightarrow> expr list parser" where
  "parse_row pe = thenp (expect TkLParen) (bindp (separated TkComma pe) (\<lambda>row.
     thenp (expect TkRParen) (ret row)))"

definition parse_insert :: "expr parser \<Rightarrow> expr insert_stmt parser" where
  "parse_insert pe =
     thenp (expect (TkKeyword ''Insert'')) (thenp (expect (TkKeyword ''Into''))
      (bindp parse_qualified_name (\<lambda>table.
       bindp (took (\<lambda>t. t = TkLParen)
         (bindp (separated TkComma expect_ident) (\<lambda>cs. thenp (expect TkRParen) (ret cs)))
         (ret [])) (\<lambda>columns.
       thenp (expect (TkKeyword ''Values''))
         (mapp (InsertStmt table columns) (separated TkComma (parse_row pe)))))))"

definition parse_update :: "expr parser \<Rightarrow> expr update_stmt parser" where
  "parse_update pe =
     thenp (expect (TkKeyword ''Update'')) (bindp parse_qualified_name (\<lambda>table.
       bindp (optional (TkKeyword ''As'') expect_ident) (\<lambda>alias.
       thenp (expect (TkKeyword ''Set'')) (bindp (parse_assignment_list pe) (\<lambda>assignments.
       mapp (UpdateStmt table alias assignments) (optional (TkKeyword ''Where'') pe))))))"

definition parse_delete :: "expr parser \<Rightarrow> expr delete_stmt parser" where
  "parse_delete pe =
     thenp (expect (TkKeyword ''Delete'')) (thenp (expect (TkKeyword ''From''))
       (bindp parse_qualified_name (\<lambda>table.
        mapp (DeleteStmt table) (optional (TkKeyword ''Where'') pe))))"

definition parse_column :: "column_def parser" where
  "parse_column = bindp expect_ident (\<lambda>col_name. bindp expect_ident (\<lambda>ty.
     took (kw ''Not'') (thenp (expect (TkKeyword ''Null'')) (ret (ColumnDef col_name ty False)))
       (ret (ColumnDef col_name ty True))))"

definition parse_create_table_body :: "create_collection_stmt parser" where
  "parse_create_table_body = bindp expect_ident (\<lambda>name.
     mapp (CreateCollectionStmt name False)
       (took (\<lambda>t. t = TkLParen)
         (bindp (loop (\<lambda>cs. branch (\<lambda>t. t = TkRParen \<or> t = TkEof) leave
            (bindp parse_column (\<lambda>c. thenp (eat TkComma) (ret (Some (cs @ [c])))))) []) (\<lambda>cs.
          thenp (expect TkRParen) (ret cs)))
         (ret [])))"

definition parse_create_index_body :: "create_index_stmt parser" where
  "parse_create_index_body = bindp expect_ident (\<lambda>name.
     thenp (expect (TkKeyword ''On'')) (bindp expect_ident (\<lambda>table.
     thenp (expect TkLParen) (bindp (separated TkComma expect_ident) (\<lambda>cols.
     thenp (expect TkRParen) (ret (CreateIndexStmt name table cols False)))))))"

definition section_of :: "token \<Rightarrow> string option" where
  "section_of t =
     (if t = TkKeyword ''Variables'' \<or> ident_is ''variables'' t then Some ''variables''
      else if t = TkKeyword ''Structure'' \<or> ident_is ''structure'' t then Some ''structure''
      else if t = TkKeyword ''Equations'' \<or> ident_is ''equations'' t then Some ''equations''
      else None)"

definition is_next_section_or_end :: "token \<Rightarrow> bool" where
  "is_next_section_or_end t \<longleftrightarrow> section_of t \<noteq> None \<or> t = TkRParen \<or> t = TkEof"

definition parse_equation :: "expr parser \<Rightarrow> expr causal_equation parser" where
  "parse_equation pp = bindp expect_ident (\<lambda>vname.
     thenp (eat TkAssign) (thenp (eat TkEq) (bindp pp (\<lambda>rhs.
     mapp (CausalEquation vname rhs)
       (took (ident_is ''learn'')
         (thenp (took (\<lambda>t. t = TkKeyword ''From'' \<or> ident_is ''from'' t) (ret True) (ret False))
           (mapp Some expect_ident))
         (ret None))))))"

text \<open>The entries of a section, each followed by an optional comma.\<close>

definition section_entries :: "'a parser \<Rightarrow> 'a list \<Rightarrow> 'a list parser" where
  "section_entries p = loop (\<lambda>xs. branch is_next_section_or_end leave
     (bindp p (\<lambda>x. thenp (eat TkComma) (ret (Some (xs @ [x]))))))"

record model_acc =
  ma_variables :: "causal_variable list"
  ma_structure :: "(ustring \<times> ustring) list"
  ma_equations :: "expr causal_equation list"

definition model_section :: "expr parser \<Rightarrow> string \<Rightarrow> model_acc \<Rightarrow> model_acc parser" where
  "model_section pp sec a =
     (if sec = ''variables'' then
        mapp (\<lambda>vs. a\<lparr>ma_variables := vs\<rparr>) (section_entries
          (bindp expect_ident (\<lambda>v. mapp (CausalVariable v) expect_ident)) (ma_variables a))
      else if sec = ''structure'' then
        mapp (\<lambda>es. a\<lparr>ma_structure := es\<rparr>) (section_entries
          (bindp expect_ident (\<lambda>from. thenp (expect TkArrow) (mapp (Pair from) expect_ident)))
          (ma_structure a))
      else mapp (\<lambda>es. a\<lparr>ma_equations := es\<rparr>) (section_entries (parse_equation pp) (ma_equations a)))"

definition parse_create_causal_model_body :: "expr parser \<Rightarrow> expr create_causal_model_stmt parser" where
  "parse_create_causal_model_body pp = bindp expect_ident (\<lambda>name.
     bindp (took (kw ''ModeEquilibrium'') (ret ModelEquilibrium) (ret ModelStandard)) (\<lambda>mode.
     thenp (eat (TkKeyword ''As'')) (thenp (expect TkLParen)
     (bindp (loop (\<lambda>a. branch (\<lambda>t. t = TkRParen \<or> t = TkEof) leave
        (bindp next_tok (\<lambda>t.
           case section_of t of
             None \<Rightarrow> ret (Some a)
           | Some sec \<Rightarrow> thenp (eat TkColon) (again (model_section pp sec a)))))
        \<lparr>ma_variables = [], ma_structure = [], ma_equations = []\<rparr>) (\<lambda>a.
      thenp (expect TkRParen)
        (ret (CreateCausalModelStmt name mode (ma_variables a) (ma_structure a) (ma_equations a))))))))"

definition parse_create :: "expr parser \<Rightarrow> expr statement parser" where
  "parse_create pp = thenp (expect (TkKeyword ''Create'')) (bindp peek (\<lambda>t.
     if t = TkKeyword ''Table'' \<or> t = TkKeyword ''Collection'' then
       thenp next_tok (mapp CreateCollection parse_create_table_body)
     else if t = TkKeyword ''Index'' then thenp next_tok (mapp CreateIndex parse_create_index_body)
     else if ident_is ''causal'' t then
       thenp next_tok (thenp (eat_keyword_or_ident ''model'')
         (mapp CreateCausalModel (parse_create_causal_model_body pp)))
     else fail (MessageToken ''unexpected CREATE target:'' t)))"

subsection \<open>Tracing, interventions, counterfactuals, discovery\<close>

definition parse_endpoint :: "expr parser \<Rightarrow> expr parser \<Rightarrow> expr parser" where
  "parse_endpoint pe pp = bindp pp (\<lambda>base.
     took (kw ''Where'') (mapp (BinaryOp OpAnd base) pe) (ret base))"

definition parse_trace_causality_top :: "expr parser \<Rightarrow> expr parser \<Rightarrow> expr trace_causality_stmt parser" where
  "parse_trace_causality_top pe pp =
     thenp (expect (TkKeyword ''Trace'')) (thenp (expect (TkKeyword ''Causality''))
      (bindp (loop (\<lambda>a.
         took (kw ''From'') (again (mapp (\<lambda>e. a\<lparr>ta_from := Some e\<rparr>) (parse_endpoint pe pp)))
        (took (ident_is ''to'') (again (mapp (\<lambda>e. a\<lparr>ta_to := Some e\<rparr>) (parse_endpoint pe pp)))
        (trace_limits pe a
        (took (kw ''Return'') (again (mapp (\<lambda>xs. a\<lparr>ta_return := xs\<rparr>) (parse_projection_list pe)))
        (took (kw ''Order'')
           (thenp (expect (TkKeyword ''By'')) (again (mapp (\<lambda>_. a) (parse_order_by_list pe))))
         leave))))) trace_start) (\<lambda>a.
       case ta_from a of
         None \<Rightarrow> fail (Message ''TRACE CAUSALITY requires FROM <expr>'')
       | Some from_e \<Rightarrow>
           (case ta_to a of
              None \<Rightarrow> fail (Message ''TRACE CAUSALITY requires TO <expr>'')
            | Some to_e \<Rightarrow> ret (TraceCausalityStmt [] from_e to_e (ta_max_depth a)
                (ta_min_strength a) (ta_min_stability a) (ta_return a))))))"

text \<open>Joins that are parsed and dropped.\<close>

definition skip_joins :: "expr parser \<Rightarrow> expr select_stmt parser \<Rightarrow> unit parser" where
  "skip_joins pe ps = loop (\<lambda>_. branch is_join_token (again (mapp (\<lambda>_. ()) (parse_join pe ps))) leave) ()"

definition parse_estimate_effect_natural ::
    "expr parser \<Rightarrow> expr select_stmt parser \<Rightarrow> expr estimate_effect_stmt parser" where
  "parse_estimate_effect_natural pe ps =
     thenp next_tok (thenp (eat_keyword_or_ident ''effect'') (thenp (eat_keyword_or_ident ''of'')
      (bindp expect_ident (\<lambda>treatment. thenp (expect (TkKeyword ''On'')) (bindp expect_ident (\<lambda>outcome.
       mapp (\<lambda>model. EstimateEffectStmt [Wildcard] model [(treatment, Literal (LInt 1))] outcome None)
         (took (kw ''From'')
           (bindp (parse_table_ref ps) (\<lambda>table. thenp (skip_joins pe ps)
             (thenp (optional (TkKeyword ''Where'') pe) (ret (tr_name table)))))
           (ret []))))))))"

definition parse_intervene_after_from ::
    "expr parser \<Rightarrow> expr select_item list \<Rightarrow> expr estimate_effect_stmt parser" where
  "parse_intervene_after_from pe projections =
     thenp (expect (TkKeyword ''Intervene'')) (thenp (expect (TkKeyword ''On''))
      (bindp expect_ident (\<lambda>model. thenp (expect (TkKeyword ''Set''))
      (bindp (parse_assignment_list pe) (\<lambda>set_vars. thenp (expect (TkKeyword ''Predict''))
      (mapp (\<lambda>predict. EstimateEffectStmt projections model set_vars predict None) expect_ident))))))"

definition parse_intervene :: "expr parser \<Rightarrow> expr estimate_effect_stmt parser" where
  "parse_intervene pe = parse_intervene_after_from pe [Wildcard]"

definition parse_counterfactual_with_select ::
    "expr parser \<Rightarrow> expr select_stmt parser \<Rightarrow> (expr, expr statement) counterfactual_stmt parser" where
  "parse_counterfactual_with_select pe ps =
     thenp (expect (TkKeyword ''Counterfactual'')) (bindp ps (\<lambda>sub.
      mapp (\<lambda>had. CounterfactualStmt (s_projections sub) [] (Some (GivenSubquery (Select sub))) had [])
        (took (kw ''Intervene'') (thenp (expect (TkKeyword ''Set'')) (parse_assignment_list pe)) (ret []))))"

record counterfactual_acc =
  fa_given :: "(expr, expr statement) counterfactual_given option"
  fa_had :: "(ustring \<times> expr) list"
  fa_predict :: ustring

definition parse_given :: "expr parser \<Rightarrow> expr select_stmt parser \<Rightarrow> (expr, expr statement) counterfactual_given parser" where
  "parse_given pe ps = bindp expect_ident (\<lambda>key. thenp (eat TkAssign) (thenp (eat TkEq)
     (took (\<lambda>t. t = TkLParen)
       (bindp ps (\<lambda>sub. thenp (expect TkRParen) (ret (GivenSubquery (Select sub)))))
       (bindp pe (\<lambda>val. mapp GivenPairs (more_items TkComma (parse_pair pe) [(key, val)]))))))"

definition parse_counterfactual_body ::
    "expr parser \<Rightarrow> expr select_stmt parser \<Rightarrow> expr select_item list \<Rightarrow> (expr, expr statement) counterfactual_stmt parser" where
  "parse_counterfactual_body pe ps projections =
     thenp (expect (TkKeyword ''Counterfactual'')) (thenp (expect (TkKeyword ''On''))
      (bindp expect_ident (\<lambda>model.
       mapp (\<lambda>a. CounterfactualStmt projections model (fa_given a) (fa_had a) (fa_predict a))
        (loop (\<lambda>a.
           took (kw ''Given'') (again (mapp (\<lambda>g. a\<lparr>fa_given := Some g\<rparr>) (parse_given pe ps)))
          (took (kw ''Had'') (bindp (parse_pair pe) (\<lambda>kv.
              again (mapp (\<lambda>kvs. a\<lparr>fa_had := kvs\<rparr>) (more_items TkComma (parse_pair pe) (fa_had a @ [kv])))))
          (took (kw ''Predict'') (again (mapp (\<lambda>p. a\<lparr>fa_predict := p\<rparr>) expect_ident)) leave)))
         \<lparr>fa_given = None, fa_had = [], fa_predict = []\<rparr>))))"

definition parse_counterfactual_dispatch ::
    "expr parser \<Rightarrow> expr select_stmt parser \<Rightarrow> expr statement parser" where
  "parse_counterfactual_dispatch pe ps = bindp peek2 (\<lambda>t2.
     mapp Counterfactual
       (if t2 = Some (TkKeyword ''Select'') then parse_counterfactual_with_select pe ps
        else parse_counterfactual_body pe ps [Wildcard]))"

record discover_acc =
  da_algorithm :: "ustring option"
  da_min_confidence :: "expr option"
  da_store_as :: "ustring option"
  da_variables :: "ustring list"

text \<open>A keyword that may also come as an identifier; it is consumed when it is there.\<close>

definition eat_either :: "token \<Rightarrow> string \<Rightarrow> bool parser" where
  "eat_either tok k = took (\<lambda>t. t = tok \<or> ident_is k t) (ret True) (ret False)"

definition discover_option :: "expr parser \<Rightarrow> discover_acc \<Rightarrow> discover_acc option parser" where
  "discover_option pe a =
     took (\<lambda>t. t = TkKeyword ''Variables'' \<or> ident_is ''variables'' t)
       (bindp expect_ident (\<lambda>v. again (mapp (\<lambda>vs. a\<lparr>da_variables := vs\<rparr>)
          (more_items TkComma expect_ident (da_variables a @ [v])))))
    (took (kw ''Algorithm'') (again (mapp (\<lambda>s. a\<lparr>da_algorithm := Some s\<rparr>) expect_string_or_ident))
    (took (\<lambda>t. t = TkKeyword ''MinConfidence'' \<or> ident_is ''min_confidence'' t)
       (again (mapp (\<lambda>e. a\<lparr>da_min_confidence := Some e\<rparr>) pe))
    (took (\<lambda>t. t = TkKeyword ''Store'' \<or> ident_is ''store'' t)
       (thenp (eat_either (TkKeyword ''As'') ''as'')
         (again (mapp (\<lambda>s. a\<lparr>da_store_as := Some s\<rparr>) expect_string_or_ident)))
     leave)))"

definition parse_discover_causal ::
    "expr parser \<Rightarrow> expr select_stmt parser \<Rightarrow> expr discover_causal_stmt parser" where
  "parse_discover_causal pe ps =
     thenp (expect (TkKeyword ''Discover'')) (thenp (eat_either (TkKeyword ''Causality'') ''causal'')
      (thenp (eat_either (TkKeyword ''Structure'') ''structure'')
      (bindp (took (kw ''In'') (thenp (eat_either (TkKeyword ''Collection'') ''collection'') expect_ident)
             (took (kw ''From'')
               (bindp (parse_table_ref ps) (\<lambda>table. thenp (skip_joins pe ps) (ret (tr_name table))))
               (fail (Message ''expected IN or FROM after DISCOVER CAUSAL STRUCTURE'')))) (\<lambda>collection.
       mapp (\<lambda>a. DiscoverCausalStmt collection (da_algorithm a) (da_min_confidence a) (da_store_as a)
                   (da_variables a))
         (loop (discover_option pe)
           \<lparr>da_algorithm = None, da_min_confidence = None, da_store_as = None, da_variables = []\<rparr>)))))"

subsection \<open>Understand, remember, recall, forget\<close>

definition expect_string :: "string \<Rightarrow> ustring parser" where
  "expect_string msg = bindp peek (\<lambda>t.
     case t of TkStringLiteral s \<Rightarrow> thenp next_tok (ret s) | _ \<Rightarrow> fail (MessageToken msg t))"

definition int_text :: "int \<Rightarrow> ustring" where
  "int_text n = text_of (if n < 0 then ''-'' @ dec_digits (nat (- n)) else dec_digits (nat n))"

text \<open>The words behind WITHIN, up to the first token that is no word.\<close>

definition within_word :: "token \<Rightarrow> ustring option" where
  "within_word t =
     (case t of TkIdent s \<Rightarrow> Some s | TkIntLiteral n \<Rightarrow> Some (int_text n) | TkStringLiteral s \<Rightarrow> Some s
      | _ \<Rightarrow> None)"

definition within_parts :: "ustring list parser" where
  "within_parts = loop (\<lambda>parts. bindp peek (\<lambda>t.
     case within_word t of
       None \<Rightarrow> leave
     | Some s \<Rightarrow> thenp next_tok (ret (Some (parts @ [s]))))) []"

primrec join_words :: "ustring list \<Rightarrow> ustring" where
  "join_words [] = []"
| "join_words (w # ws) = (if ws = [] then w else w @ 32 # join_words ws)"

definition understand_key :: "ustring parser" where
  "understand_key = bindp peek (\<lambda>t.
     case t of
       TkIdent s \<Rightarrow> ret (map ascii_lower s)
     | _ \<Rightarrow>
         if t = TkKeyword ''Confidence'' then ret (text_of ''confidence'')
         else if t = TkKeyword ''MinConfidence'' then ret (text_of ''min_confidence'')
         else fail (MessageToken ''expected option name after WITH in UNDERSTAND, found'' t))"

definition understand_with :: "expr parser \<Rightarrow> expr understand_option parser" where
  "understand_with pe = bindp understand_key (\<lambda>key.
     if key = text_of ''confidence'' then mapp UnderstandConfidence pe
     else if key = text_of ''min_similarity'' then thenp next_tok (mapp UnderstandMinSimilarity pe)
     else fail (MessageText ''unknown UNDERSTAND WITH option:'' key))"

definition understand_option ::
    "expr parser \<Rightarrow> expr understand_option list \<Rightarrow> expr understand_option list option parser" where
  "understand_option pe os =
    (let push = (\<lambda>p. again (mapp (\<lambda>x. os @ [x]) p)) in
     took (kw ''With'') (push (understand_with pe))
    (took (kw ''Within'') (push (mapp (\<lambda>ws. UnderstandWithin (join_words ws)) within_parts))
    (took (kw ''Depth'') (push (mapp UnderstandDepth pe))
    (took (kw ''In'')
       (thenp (eat_either (TkKeyword ''Collection'') ''collection'') (push (mapp UnderstandInCollection expect_ident)))
    (took (ident_is ''using'')
       (thenp (eat_either (TkKeyword ''Vector'') ''vector'')
         (push (mapp UnderstandUsingVector expect_string_or_ident)))
     leave)))))"

definition parse_understand :: "expr parser \<Rightarrow> expr understand_stmt parser" where
  "parse_understand pe =
     thenp (expect (TkKeyword ''Understand''))
      (bindp (expect_string ''UNDERSTAND expects a string literal, found'') (\<lambda>intent.
       mapp (UnderstandStmt intent) (loop (understand_option pe) [])))"

text \<open>\<open>FOR AGENT e\<close> or \<open>WITHIN CONTEXT e\<close>.\<close>

definition parse_agent :: "string \<Rightarrow> expr parser \<Rightarrow> expr parser" where
  "parse_agent msg pp =
     took (kw ''For'') (thenp (expect (TkKeyword ''Agent'')) pp)
    (took (kw ''Within'') (thenp (expect (TkKeyword ''Context'')) pp)
      (fail (Message msg)))"

definition remember_option ::
    "expr parser \<Rightarrow> expr option \<times> ustring option \<Rightarrow> (expr option \<times> ustring option) option parser" where
  "remember_option pp a =
     took (kw ''With'') (bindp expect_ident (\<lambda>key.
       if map ascii_lower key = text_of ''importance'' then again (mapp (\<lambda>e. (Some e, snd a)) pp)
       else if map ascii_lower key = text_of ''_confidence'' then
         thenp (eat TkAssign) (thenp (eat TkEq) (again (mapp (\<lambda>e. (Some e, snd a)) pp)))
       else fail (MessageText ''unknown REMEMBER WITH option:'' (map ascii_lower key))))
    (took (kw ''Importance'') (again (mapp (\<lambda>e. (Some e, snd a)) pp))
    (took (kw ''As'') (again (mapp (\<lambda>ty. (fst a, Some ty)) expect_ident))
     leave))"

definition parse_remember :: "expr parser \<Rightarrow> expr remember_stmt parser" where
  "parse_remember pp =
     thenp (expect (TkKeyword ''Remember''))
      (bindp (expect_string ''REMEMBER expects a string literal, found'') (\<lambda>content.
       bindp (parse_agent ''expected FOR AGENT or WITHIN CONTEXT after REMEMBER string'' pp) (\<lambda>agent_id.
       mapp (\<lambda>(importance, memory_type). RememberStmt content agent_id importance memory_type)
         (loop (remember_option pp) (None, None)))))"

definition parse_recall_by :: "expr parser \<Rightarrow> expr parser \<Rightarrow> expr recall_by_stmt parser" where
  "parse_recall_by pe pp =
     thenp (expect (TkKeyword ''Recall'')) (thenp (expect (TkKeyword ''By''))
      (bindp (branch (\<lambda>t. case t of TkStringLiteral _ \<Rightarrow> True | _ \<Rightarrow> False)
                (mapp (\<lambda>query. [SemanticSimilarity query None]) pp) (parse_recall_weights pp)) (\<lambda>weights.
       bindp (parse_agent ''expected FOR AGENT or WITHIN CONTEXT after RECALL BY weights'' pp) (\<lambda>agent_id.
       mapp (RecallByStmt weights agent_id)
         (loop (\<lambda>limit.
            took (kw ''Where'') (again (mapp (\<lambda>_. limit) pe))
           (took (kw ''Order'')
              (thenp (expect (TkKeyword ''By'')) (again (mapp (\<lambda>_. limit) (parse_order_by_list pe))))
           (took (kw ''Limit'') (again (mapp Some pe)) leave))) None)))))"

definition parse_forget :: "expr parser \<Rightarrow> expr parser \<Rightarrow> expr forget_stmt parser" where
  "parse_forget pe pp =
     thenp (expect (TkKeyword ''Forget''))
      (bindp (parse_agent ''expected FOR AGENT or WITHIN CONTEXT after FORGET'' pp) (\<lambda>agent_id.
       mapp (ForgetStmt agent_id) (optional (TkKeyword ''Where'') pe)))"

subsection \<open>SELECT and TRAVERSE as statements, the dispatch, and the entry point\<close>

definition with_traverse :: "expr traverse_clause \<Rightarrow> expr select_stmt \<Rightarrow> expr select_stmt" where
  "with_traverse tv s =
     SelectStmt (s_distinct s) (s_projections s) (s_from s) (s_joins s) (s_where s) (s_group_by s)
       (s_having s) (s_order_by s) (s_limit s) (s_offset s) (s_within_context s) (s_as_of s) (Some tv)
       (s_trace_causality s) (s_return_items s) (s_recall_by s)"

definition parse_select_stmt ::
    "expr parser \<Rightarrow> expr parser \<Rightarrow> expr select_stmt parser \<Rightarrow> expr statement parser" where
  "parse_select_stmt pe pp ps =
     thenp (expect (TkKeyword ''Select'')) (bindp (eat (TkKeyword ''Distinct'')) (\<lambda>dist.
      bindp (parse_projection_list pe) (\<lambda>projections.
      took (kw ''From'')
        (branch (kw ''Intervene'') (mapp EstimateEffect (parse_intervene_after_from pe projections))
        (branch (kw ''Counterfactual'') (mapp Counterfactual (parse_counterfactual_body pe ps projections))
        (took (kw ''Traverse'')
          (bindp expect_ident (\<lambda>first. bindp (chain_from first) (\<lambda>chain.
           bindp (optional (TkKeyword ''As'') expect_ident) (\<lambda>target_alias.
           mapp (\<lambda>s. Select (with_traverse (TraverseClause first chain None None target_alias) s))
             (finish_select pe pp ps dist projections None)))))
          (bindp (parse_table_ref ps) (\<lambda>from.
           mapp Select (finish_select pe pp ps dist projections (Some from)))))))
        (mapp Select (finish_select pe pp ps dist projections None)))))"

record traverse_acc =
  va_where :: "expr option"
  va_limit :: "expr option"
  va_order_by :: "expr order_by_item list"

definition parse_traverse_stmt :: "expr parser \<Rightarrow> expr select_stmt parser" where
  "parse_traverse_stmt pe =
     thenp (expect (TkKeyword ''Traverse'')) (bindp expect_ident (\<lambda>first. bindp (chain_from first) (\<lambda>chain.
      mapp (\<lambda>a. SelectStmt False [Wildcard] None [] (va_where a) [] None (va_order_by a) (va_limit a) None
                  None None (Some (TraverseClause first chain None None None)) None [] None)
        (loop (\<lambda>a.
           took (kw ''Where'') (again (mapp (\<lambda>e. a\<lparr>va_where := Some e\<rparr>) pe))
          (took (kw ''Limit'') (again (mapp (\<lambda>e. a\<lparr>va_limit := Some e\<rparr>) pe))
          (took (kw ''Order'')
             (thenp (expect (TkKeyword ''By'')) (again (mapp (\<lambda>es. a\<lparr>va_order_by := es\<rparr>) (parse_order_by_list pe))))
          (case va_where a of
             Some w \<Rightarrow> took (kw ''And'') (again (mapp (\<lambda>e. a\<lparr>va_where := Some (BinaryOp OpAnd w e)\<rparr>) pe)) leave
           | None \<Rightarrow> leave))))
         \<lparr>va_where = None, va_limit = None, va_order_by = []\<rparr>))))"

definition skip_semicolons :: "unit parser" where
  "skip_semicolons = loop (\<lambda>_. took (\<lambda>t. t = TkSemicolon) (ret (Some ())) leave) ()"

definition statement_dispatch ::
    "expr parser \<Rightarrow> expr parser \<Rightarrow> expr select_stmt parser \<Rightarrow> token \<Rightarrow> expr statement parser" where
  "statement_dispatch pe pp ps t =
     (if t = TkKeyword ''Select'' then parse_select_stmt pe pp ps
      else if t = TkKeyword ''Insert'' then mapp Insert (parse_insert pe)
      else if t = TkKeyword ''Update'' then mapp Update (parse_update pe)
      else if t = TkKeyword ''Delete'' then mapp Delete (parse_delete pe)
      else if t = TkKeyword ''Create'' then parse_create pp
      else if t = TkKeyword ''Understand'' then mapp Understand (parse_understand pe)
      else if t = TkKeyword ''Remember'' then mapp Remember (parse_remember pp)
      else if t = TkKeyword ''Recall'' then mapp RecallBy (parse_recall_by pe pp)
      else if t = TkKeyword ''Forget'' then mapp Forget (parse_forget pe pp)
      else if t = TkKeyword ''Discover'' then mapp DiscoverCausal (parse_discover_causal pe ps)
      else if t = TkKeyword ''Trace'' then mapp TraceCausality (parse_trace_causality_top pe pp)
      else if t = TkKeyword ''Intervene'' then mapp EstimateEffect (parse_intervene pe)
      else if t = TkKeyword ''Counterfactual'' then parse_counterfactual_dispatch pe ps
      else if t = TkKeyword ''Traverse'' then mapp Select (parse_traverse_stmt pe)
      else if ident_is ''estimate'' t then mapp EstimateEffect (parse_estimate_effect_natural pe ps)
      else if t = TkEof then fail (Message ''unexpected end of input'')
      else fail (MessageToken ''unexpected token'' t))"

definition parse_statement_at :: "nat \<Rightarrow> expr statement parser" where
  "parse_statement_at n =
     thenp skip_semicolons (bindp peek (\<lambda>t.
     bindp (statement_dispatch (parse_expr n) (parse_primary_expr n) (parse_select_inner n) t) (\<lambda>stmt.
     thenp (eat TkSemicolon) (ret stmt))))"

text \<open>The nesting depth is bounded by the number of tokens.\<close>

definition parse_statement :: "expr statement parser" where
  "parse_statement ts = parse_statement_at (length ts) ts"

text \<open>The result of \<open>parse\<close>: a lexer error keeps its message and position.\<close>

datatype parse_result =
  Statement "expr statement" | LexerError lex_error | ParserError parse_error | Panic | Diverges

definition parse :: "unicode \<Rightarrow> ustring \<Rightarrow> parse_result" where
  "parse U input =
     (case tokenize U (lexer_new input) of
        Inl (LexFail e) \<Rightarrow> LexerError e
      | Inl LexPanic \<Rightarrow> Panic
      | Inr (ts, _) \<Rightarrow>
          (case parse_statement ts of
             Parsed stmt _ \<Rightarrow> Statement stmt
           | Failed e \<Rightarrow> ParserError e
           | Panicked \<Rightarrow> Panic
           | OutOfFuel \<Rightarrow> Diverges))"

end
