(* ===== verification/Lexer_Facts.thy ===== *)
theory Lexer_Facts
  imports Lexer "HOL-Library.Sublist"
begin

text \<open>
  Facts on the lexer: every routine moves forward over the input and keeps its byte position, the
  tokens it yields, and the reading of string literals.
\<close>

text \<open>\<open>ahead l l'\<close>: the state \<open>l'\<close> lies at or behind \<open>l\<close>, with the byte position moved accordingly.\<close>

definition ahead :: "lexer \<Rightarrow> lexer \<Rightarrow> bool" where
  "ahead l l' \<longleftrightarrow> suffix (lx_rest l') (lx_rest l) \<and>
     lx_pos l' + byte_len (lx_rest l') = lx_pos l + byte_len (lx_rest l)"

named_theorems ahead

lemma ahead_refl [ahead]: "ahead l l"
  by (simp add: ahead_def)

lemma ahead_trans [trans]: "ahead a b \<Longrightarrow> ahead b c \<Longrightarrow> ahead a c"
  by (auto simp: ahead_def intro: suffix_order.trans)

lemma byte_len_simps [simp]: "byte_len [] = 0" "byte_len (c # s) = len_utf8 c + byte_len s"
  "byte_len (s @ t) = byte_len s + byte_len t"
  by (simp_all add: byte_len_def)

lemma ahead_advance [ahead]: "advance l = Some (c, l') \<Longrightarrow> ahead l l'"
  by (auto simp: advance_def ahead_def split: list.splits intro: suffix_ConsI)

lemma ahead_skip1 [ahead]: "ahead l (skip1 l)"
  by (auto simp: skip1_def intro: ahead split: option.splits)

lemma ahead_skip_while [ahead]: "ahead l (skip_while P l)"
proof (induction P l rule: skip_while.induct)
  case (1 P l)
  then show ?case
    by (subst skip_while.simps) (auto intro: ahead ahead_trans split: option.splits)
qed

lemma ahead_skip_line [ahead]: "ahead l (skip_line l)"
proof (induction l rule: skip_line.induct)
  case (1 l)
  then show ?case
    by (subst skip_line.simps) (auto intro: ahead ahead_trans split: option.splits)
qed

lemma ahead_skip_block: "skip_block l = Inr l' \<Longrightarrow> ahead l l'"
proof (induction l rule: skip_block.induct)
  case (1 l)
  obtain c l1 where a: "advance l = Some (c, l1)"
    using "1.prems" by (subst (asm) skip_block.simps) (auto split: option.splits)
  have "l' = skip1 l1 \<or> ahead l1 l'"
    using "1.prems" "1.IH" [OF a refl] by (subst (asm) skip_block.simps) (auto simp: a split: if_splits)
  then show ?case using ahead_advance [OF a] ahead_skip1 [of l1] ahead_trans by blast
qed

lemma ahead_number_loop: "ahead l (snd (number_loop d l))"
proof (induction d l rule: number_loop.induct)
  case (1 d l)
  then show ?case
    by (subst number_loop.simps) (auto intro: ahead ahead_trans split: option.splits)
qed

lemma ahead_string_loop: "string_loop s l = Some (s', l') \<Longrightarrow> ahead l l'"
proof (induction s l rule: string_loop.induct)
  case (1 s l)
  obtain c l1 where a: "advance l = Some (c, l1)"
    using "1.prems" by (subst (asm) string_loop.simps) (auto split: option.splits)
  consider "c = 39" "current_char l1 = Some 39" "string_loop (s @ [39]) (skip1 l1) = Some (s', l')"
    | "l' = l1" | "c \<noteq> 39" "string_loop (s @ [c]) l1 = Some (s', l')"
    using "1.prems" by (subst (asm) string_loop.simps) (auto simp: a split: if_splits)
  then show ?case
  proof cases
    case 1
    then show ?thesis
      using "1.IH"(1) [OF a refl 1(1,2,3)] ahead_skip1 [of l1] ahead_advance [OF a] ahead_trans by blast
  next
    case 2
    then show ?thesis using ahead_advance [OF a] by simp
  next
    case 3
    then show ?thesis using "1.IH"(2) [OF a refl 3(1,2)] ahead_advance [OF a] ahead_trans by blast
  qed
qed

lemma ahead_skip_whitespace: "skip_whitespace_and_comments l = Inr l' \<Longrightarrow> ahead l l'"
proof (induction l rule: skip_whitespace_and_comments.induct)
  case (1 l)
  let ?l1 = "skip_while whitespace l"
  have base: "ahead l ?l1" by (rule ahead)
  consider "l' = ?l1"
    | "2 \<le> byte_len (lx_rest ?l1)" "slice2 (lx_rest ?l1) = Some [45, 45]"
      "skip_whitespace_and_comments (skip_line ?l1) = Inr l'"
    | l2 where "2 \<le> byte_len (lx_rest ?l1)" "slice2 (lx_rest ?l1) = Some [47, 42]"
      "skip_block (skip1 (skip1 ?l1)) = Inr l2" "skip_whitespace_and_comments l2 = Inr l'"
    using "1.prems" by (subst (asm) skip_whitespace_and_comments.simps)
      (auto simp: Let_def split: if_splits option.splits sum.splits)
  then show ?case
  proof cases
    case 1
    then show ?thesis using base by simp
  next
    case 2
    have "ahead ?l1 (skip_line ?l1)" by (rule ahead)
    then show ?thesis using "1.IH"(1) [OF refl 2(1,2) refl 2(3)] base ahead_trans by blast
  next
    case 3
    then have "ahead l2 l'" using "1.IH"(2) [OF refl 3(1,2) _ refl 3(3,4)] by simp
    moreover have "ahead ?l1 l2"
      using ahead_skip_block [OF 3(3)] ahead_skip1 [of "skip1 ?l1"] ahead_skip1 [of ?l1] ahead_trans by blast
    ultimately show ?thesis using base ahead_trans by blast
  qed
qed

text \<open>A token carries its length in bytes, and is neither the end mark nor a newline.\<close>

definition token_step :: "lexer \<Rightarrow> token \<times> span \<Rightarrow> lexer \<Rightarrow> bool" where
  "token_step l ts l' \<longleftrightarrow> ahead l l' \<and> snd ts = span_from l l' \<and> fst ts \<noteq> TkEof \<and> fst ts \<noteq> TkNewline"

lemma token_step_I:
  "ahead l l' \<Longrightarrow> t \<noteq> TkEof \<Longrightarrow> t \<noteq> TkNewline \<Longrightarrow> token_step l (t, span_from l l') l'"
  by (simp add: token_step_def)

lemma ahead_skip2 [ahead]: "ahead l (skip1 (skip1 l))"
  by (meson ahead_skip1 ahead_trans)

lemma ahead_skip3 [ahead]: "ahead l (skip1 (skip1 (skip1 l)))"
  by (meson ahead_skip1 ahead_trans)

lemma keyword_not_eof: "keyword s = Some t \<Longrightarrow> t \<noteq> TkEof \<and> t \<noteq> TkNewline"
  by (auto simp: keyword_def)

lemma simple_token_not_eof: "simple_token c = Some t \<Longrightarrow> t \<noteq> TkEof \<and> t \<noteq> TkNewline"
  by (auto simp: simple_token_def split: if_splits)

lemma lex_operator_step: "lex_operator ch l (skip1 l) = Inr (ts, l') \<Longrightarrow> token_step l ts l'"
  by (auto simp: lex_operator_def emit_def dest: simple_token_not_eof intro!: token_step_I ahead
      split: option.splits if_splits)

lemma next_token_step:
  assumes "next_token U l = Inr (ts, l')" and ne: "lx_rest l \<noteq> []"
  shows "token_step l ts l'"
proof -
  obtain c where c: "current_char l = Some c" using ne current_char_Some by blast
  consider "lex_number U l = Inr (ts, l')"
    | "lex_word U l = (ts, l')" | "lex_string l = Inr (ts, l')" | "lex_param U l = (ts, l')"
    | "emit TkColon l (skip1 l) = Inr (ts, l')" | "lex_operator c l (skip1 l) = Inr (ts, l')"
    using assms(1) c by (auto simp: next_token_def split: if_splits)
  then show ?thesis
  proof cases
    case 1
    obtain d l1 where n: "(if current_char l = Some 46 then number_loop True (skip1 l)
                           else number_loop False l) = (d, l1)" by (metis surj_pair)
    have "ahead l l1"
      using n ahead_number_loop [of l False] ahead_trans [OF ahead_skip1 ahead_number_loop, of l True]
      by (auto split: if_splits)
    then show ?thesis using 1 n
      by (auto simp: lex_number_def Let_def intro!: token_step_I split: option.splits if_splits)
  next
    case 2
    then show ?thesis
      by (auto simp: lex_word_def Let_def dest: keyword_not_eof intro!: token_step_I ahead split: option.splits)
  next
    case 3
    then show ?thesis
      using ahead_trans [OF ahead_skip1 ahead_string_loop]
      by (fastforce simp: lex_string_def intro!: token_step_I split: option.splits)
  next
    case 4
    have "ahead l (skip_while (word_char U) (skip1 l))" by (meson ahead ahead_trans)
    then show ?thesis using 4 by (auto simp: lex_param_def Let_def intro!: token_step_I)
  next
    case 5
    then show ?thesis by (auto simp: emit_def intro!: token_step_I ahead)
  next
    case 6
    then show ?thesis by (rule lex_operator_step)
  qed
qed

lemma len_utf8_pos: "0 < len_utf8 c"
  by (simp add: len_utf8_def)

lemma ahead_shorter:
  assumes "ahead l l'" and "length (lx_rest l') < length (lx_rest l)"
  shows "lx_pos l < lx_pos l'"
proof -
  obtain p where p: "lx_rest l = p @ lx_rest l'" using assms(1) by (auto simp: ahead_def suffix_def)
  then have "p \<noteq> []" using assms(2) by auto
  then have "0 < byte_len p" using len_utf8_pos by (cases p) auto
  then show ?thesis using assms(1) p by (simp add: ahead_def)
qed

text \<open>Eof ends the tokens and occurs nowhere else.\<close>

definition eof_ended :: "(token \<times> span) list \<Rightarrow> bool" where
  "eof_ended ts \<longleftrightarrow> ts \<noteq> [] \<and> fst (last ts) = TkEof \<and> TkEof \<notin> fst ` set (butlast ts)"

lemma eof_ended_Cons:
  "eof_ended (p # ts) \<longleftrightarrow> (if ts = [] then fst p = TkEof else fst p \<noteq> TkEof \<and> eof_ended ts)"
  by (auto simp: eof_ended_def)

lemma tokenize_shape:
  assumes "tokenize U l = Inr (ts, l')"
  shows "eof_ended ts \<and> TkNewline \<notin> fst ` set ts \<and> lx_rest l' = [] \<and> ahead l l' \<and>
         (\<forall>p\<in>set (butlast ts). 0 < sp_len (snd p)) \<and>
         lx_pos l + sum_list (map (sp_len \<circ> snd) ts) \<le> lx_pos l'"
  using assms
proof (induction U l arbitrary: ts l' rule: tokenize.induct)
  case (1 U l)
  obtain l1 where l1: "skip_whitespace_and_comments l = Inr l1"
    using "1.prems" by (subst (asm) tokenize.simps) (auto split: sum.splits)
  note ah = ahead_skip_whitespace [OF l1]
  have pos1: "lx_pos l \<le> lx_pos l1"
    using ah by (auto simp: ahead_def suffix_def)
  show ?case
  proof (cases "lx_rest l1 = []")
    case True
    then have "ts = [(TkEof, span_from l1 l1)] \<and> l' = l1"
      using "1.prems" l1 by (subst (asm) tokenize.simps) auto
    then show ?thesis using ah True pos1 by (auto simp: eof_ended_def span_from_def)
  next
    case False
    obtain tok sp l2 where n: "next_token U l1 = Inr ((tok, sp), l2)"
      using "1.prems" l1 False by (subst (asm) tokenize.simps) (auto split: sum.splits)
    note st = next_token_step [OF n False]
    then have tok: "tok \<noteq> TkEof" "tok \<noteq> TkNewline" "sp = span_from l1 l2" "ahead l1 l2"
      by (auto simp: token_step_def)
    obtain ts2 where ts2: "tokenize U l2 = Inr (ts2, l')" "ts = (tok, sp) # ts2"
      using "1.prems" l1 False n tok(2) by (subst (asm) tokenize.simps) (auto split: sum.splits)
    have IH: "eof_ended ts2 \<and> TkNewline \<notin> fst ` set ts2 \<and> lx_rest l' = [] \<and> ahead l2 l' \<and>
         (\<forall>p\<in>set (butlast ts2). 0 < sp_len (snd p)) \<and>
         lx_pos l2 + sum_list (map (sp_len \<circ> snd) ts2) \<le> lx_pos l'"
      by (rule "1.IH" [OF l1 False n refl refl ts2(1)])
    have lt: "lx_pos l1 < lx_pos l2"
      using ahead_shorter [OF tok(4) next_token_progress [OF n False]] .
    have ne: "ts2 \<noteq> []" using IH by (simp add: eof_ended_def)
    show ?thesis
      using IH ts2(2) tok lt pos1 ne ahead_trans [OF ah ahead_trans [OF tok(4)]]
      by (auto simp: eof_ended_Cons span_from_def comp_def)
  qed
qed

text \<open>On ASCII input the slice of two bytes never splits a character.\<close>

definition ascii :: "ustring \<Rightarrow> bool" where
  "ascii s \<longleftrightarrow> (\<forall>c\<in>set s. c < 0x80)"

lemma ascii_ahead: "ascii (lx_rest l) \<Longrightarrow> ahead l l' \<Longrightarrow> ascii (lx_rest l')"
  by (auto simp: ascii_def ahead_def suffix_def)

lemma slice2_ascii: "ascii s \<Longrightarrow> 2 \<le> byte_len s \<Longrightarrow> slice2 s \<noteq> None"
  by (auto simp: slice2_def ascii_def len_utf8_def split: list.splits)

lemma skip_block_no_panic: "skip_block l \<noteq> Inl LexPanic"
proof (induction l rule: skip_block.induct)
  case (1 l)
  then show ?case
    by (subst skip_block.simps) (auto simp: lex_error_def split: option.splits)
qed

lemma skip_whitespace_no_panic:
  "ascii (lx_rest l) \<Longrightarrow> skip_whitespace_and_comments l \<noteq> Inl LexPanic"
proof (induction l rule: skip_whitespace_and_comments.induct)
  case (1 l)
  let ?l1 = "skip_while whitespace l"
  have a1: "ascii (lx_rest ?l1)" by (rule ascii_ahead [OF "1.prems"]) (rule ahead)
  show ?case
  proof (cases "2 \<le> byte_len (lx_rest ?l1)")
    case False
    then show ?thesis by (subst skip_whitespace_and_comments.simps) simp
  next
    case True
    then obtain s where s: "slice2 (lx_rest ?l1) = Some s" using slice2_ascii [OF a1] by auto
    have line: "s = [45, 45] \<Longrightarrow> skip_whitespace_and_comments (skip_line ?l1) \<noteq> Inl LexPanic"
      using "1.IH"(1) [OF refl True s] ascii_ahead [OF a1 ahead_skip_line] by blast
    have block: "skip_whitespace_and_comments l2 \<noteq> Inl LexPanic"
      if "s = [47, 42]" "skip_block (skip1 (skip1 ?l1)) = Inr l2" for l2
    proof -
      have "ascii (lx_rest l2)"
        by (rule ascii_ahead [OF a1 ahead_trans [OF ahead_skip2 ahead_skip_block [OF that(2)]]])
      then show ?thesis using "1.IH"(2) [OF refl True s _ that] that(1) by simp
    qed
    show ?thesis
      using True s line block skip_block_no_panic
      by (subst skip_whitespace_and_comments.simps) (auto simp: Let_def split: sum.splits)
  qed
qed

lemma lex_number_no_panic: "lex_number U l \<noteq> Inl LexPanic"
  by (simp add: lex_number_def lex_error_def Let_def split_beta split: option.split)

lemma lex_operator_no_panic: "lex_operator c l l1 \<noteq> Inl LexPanic"
  by (simp add: lex_operator_def emit_def lex_error_def split: option.split)

lemma lex_string_no_panic: "lex_string l \<noteq> Inl LexPanic"
  by (simp add: lex_string_def lex_error_def split: option.split)

lemma next_token_no_panic: "next_token U l \<noteq> Inl LexPanic"
  by (simp add: next_token_def emit_def lex_number_no_panic lex_operator_no_panic lex_string_no_panic
      split: option.split)

lemma tokenize_no_panic: "ascii (lx_rest l) \<Longrightarrow> tokenize U l \<noteq> Inl LexPanic"
proof (induction U l rule: tokenize.induct)
  case (1 U l)
  show ?case
  proof (cases "skip_whitespace_and_comments l")
    case (Inl e)
    then show ?thesis using skip_whitespace_no_panic [OF "1.prems"] by (subst tokenize.simps) auto
  next
    case (Inr l1)
    have a1: "ascii (lx_rest l1)" by (rule ascii_ahead [OF "1.prems" ahead_skip_whitespace [OF Inr]])
    have IH: "tokenize U l2 \<noteq> Inl LexPanic"
      if "lx_rest l1 \<noteq> []" "next_token U l1 = Inr ((tok, sp), l2)" for tok sp l2
    proof -
      have "ahead l1 l2" using next_token_step [OF that(2,1)] by (simp add: token_step_def)
      then show ?thesis using "1.IH" [OF Inr that refl refl] ascii_ahead [OF a1] by blast
    qed
    show ?thesis
      using Inr IH next_token_no_panic by (subst tokenize.simps) (auto split: sum.splits)
  qed
qed

text \<open>String literals: the text with its quotes doubled, between quotes.\<close>

definition quoted :: "ustring \<Rightarrow> ustring" where
  "quoted s = 39 # concat (map (\<lambda>c. if c = 39 then [39, 39] else [c]) s) @ [39]"

lemma advance_Cons:
  "lx_rest l = c # cs \<Longrightarrow> \<exists>l'. advance l = Some (c, l') \<and> lx_rest l' = cs \<and> skip1 l = l'"
  by (auto simp: advance_def skip1_def)

lemma string_loop_quoted:
  assumes "lx_rest l = concat (map (\<lambda>c. if c = 39 then [39, 39] else [c]) s) @ 39 # r"
    and "r = [] \<or> hd r \<noteq> 39"
  shows "\<exists>l'. string_loop acc l = Some (acc @ s, l') \<and> lx_rest l' = r"
  using assms(1)
proof (induction s arbitrary: acc l)
  case Nil
  then obtain l' where "advance l = Some (39, l')" "lx_rest l' = r" using advance_Cons [of l 39 r] by auto
  then show ?case using assms(2)
    by (subst string_loop.simps) (auto simp: current_char_def split: list.splits)
next
  case (Cons c s)
  let ?q = "concat (map (\<lambda>c. if c = 39 then [39, 39] else [c]) s) @ 39 # r"
  show ?case
  proof (cases "c = 39")
    case True
    then obtain l1 where l1: "advance l = Some (39, l1)" "lx_rest l1 = 39 # ?q"
      using advance_Cons [of l 39 "39 # ?q"] Cons.prems by auto
    then have "lx_rest (skip1 l1) = ?q" using advance_Cons [of l1 39 ?q] by auto
    then obtain l' where "string_loop (acc @ [39]) (skip1 l1) = Some (acc @ c # s, l')" "lx_rest l' = r"
      using Cons.IH [of "skip1 l1" "acc @ [39]"] True by auto
    then show ?thesis using l1 by (subst string_loop.simps) (auto simp: current_char_def)
  next
    case False
    then obtain l1 where l1: "advance l = Some (c, l1)" "lx_rest l1 = ?q"
      using advance_Cons [of l c ?q] Cons.prems by auto
    then obtain l' where "string_loop (acc @ [c]) l1 = Some (acc @ c # s, l')" "lx_rest l' = r"
      using Cons.IH [of l1 "acc @ [c]"] by auto
    then show ?thesis using l1 False by (subst string_loop.simps) auto
  qed
qed

lemma skip_while_stop: "lx_rest l = c # cs \<Longrightarrow> \<not> P c \<Longrightarrow> skip_while P l = l"
  using advance_Cons [of l c cs] by (subst skip_while.simps) auto

lemma skip_while_all:
  "lx_rest l = ws @ c # cs \<Longrightarrow> \<forall>w\<in>set ws. P w \<Longrightarrow> \<not> P c \<Longrightarrow> lx_rest (skip_while P l) = c # cs"
proof (induction ws arbitrary: l)
  case Nil
  then show ?case using skip_while_stop by simp
next
  case (Cons w ws)
  then obtain l1 where l1: "advance l = Some (w, l1)" "lx_rest l1 = ws @ c # cs"
    using advance_Cons [of l w "ws @ c # cs"] by auto
  then show ?case using Cons by (subst skip_while.simps) simp
qed

lemma whitespace_stays:
  assumes "lx_rest l = c # d # cs" "\<not> whitespace c" "len_utf8 c = 1" "len_utf8 d = 1"
    and "[c, d] \<noteq> [45, 45]" "[c, d] \<noteq> [47, 42]"
  shows "skip_whitespace_and_comments l = Inr l"
  using assms skip_while_stop [OF assms(1), of whitespace]
  by (subst skip_whitespace_and_comments.simps) (auto simp: Let_def slice2_def)

end
