(* ===== verification/Parser_Facts.thy ===== *)
theory Parser_Facts
  imports Parser_Statements Lexer_Facts
begin

text \<open>
  Every parser is safe: on tokens that end with the only Eof it returns a result with a suffix of
  the tokens that again ends so, or an error at the position of one of the tokens; it never panics
  and never runs out of rounds. A parser that moreover consumes a token \<open>eats\<close>, and the body of a
  loop \<open>steps\<close> when it does so whenever it continues.
\<close>

definition located :: "tokens \<Rightarrow> parse_error \<Rightarrow> bool" where
  "located ts e \<longleftrightarrow> (\<exists>p\<in>set ts. pe_line e = sp_line (snd p) \<and> pe_col e = sp_col (snd p))"

text \<open>
  \<open>sound S H n p\<close>: on at most \<open>n\<close> such tokens whose first satisfies \<open>H\<close>; a result in \<open>S\<close> has consumed
  a token.
\<close>

definition sound :: "('a \<Rightarrow> bool) \<Rightarrow> (token \<Rightarrow> bool) \<Rightarrow> nat \<Rightarrow> 'a parser \<Rightarrow> bool" where
  "sound S H n p \<longleftrightarrow>
     (\<forall>ts. eof_ended ts \<longrightarrow> length ts \<le> n \<longrightarrow> H (fst (hd ts)) \<longrightarrow>
       (case p ts of
          Parsed x ts' \<Rightarrow> eof_ended ts' \<and> suffix ts' ts \<and> (S x \<longrightarrow> length ts' < length ts)
        | Failed e \<Rightarrow> located ts e
        | _ \<Rightarrow> False))"

abbreviation safe :: "nat \<Rightarrow> 'a parser \<Rightarrow> bool" where
  "safe \<equiv> sound (\<lambda>_. False) (\<lambda>_. True)"

abbreviation eats :: "nat \<Rightarrow> 'a parser \<Rightarrow> bool" where
  "eats \<equiv> sound (\<lambda>_. True) (\<lambda>_. True)"

abbreviation steps :: "nat \<Rightarrow> 's option parser \<Rightarrow> bool" where
  "steps \<equiv> sound (\<lambda>r. r \<noteq> None) (\<lambda>_. True)"

abbreviation eats_on :: "token \<Rightarrow> nat \<Rightarrow> 'a parser \<Rightarrow> bool" where
  "eats_on t \<equiv> sound (\<lambda>_. True) (\<lambda>u. u = t)"

lemma soundI:
  assumes "\<And>ts. eof_ended ts \<Longrightarrow> length ts \<le> n \<Longrightarrow> H (fst (hd ts)) \<Longrightarrow>
    (case p ts of
       Parsed x ts' \<Rightarrow> eof_ended ts' \<and> suffix ts' ts \<and> (S x \<longrightarrow> length ts' < length ts)
     | Failed e \<Rightarrow> located ts e
     | _ \<Rightarrow> False)"
  shows "sound S H n p"
  using assms by (simp add: sound_def)

lemma soundE:
  assumes "sound S H n p" "eof_ended ts" "length ts \<le> n" "H (fst (hd ts))"
  obtains x ts' where "p ts = Parsed x ts'" "eof_ended ts'" "suffix ts' ts"
      "length ts' \<le> length ts" "S x \<Longrightarrow> length ts' < length ts"
    | e where "p ts = Failed e" "located ts e"
proof -
  have c: "case p ts of
      Parsed x ts' \<Rightarrow> eof_ended ts' \<and> suffix ts' ts \<and> (S x \<longrightarrow> length ts' < length ts)
    | Failed e \<Rightarrow> located ts e | _ \<Rightarrow> False"
    using assms by (simp add: sound_def)
  show thesis
  proof (cases "p ts")
    case (Parsed x ts')
    then show thesis using c that(1) [of x ts'] suffix_length_le [of ts' ts] by simp
  qed (use c that(2) in simp_all)
qed

lemma located_suffix: "located ts' e \<Longrightarrow> suffix ts' ts \<Longrightarrow> located ts e"
  by (auto simp: located_def suffix_def)

lemma sound_weaken:
  assumes "sound S H n p" and T: "\<And>x. T x \<Longrightarrow> S x" and G: "\<And>t. G t \<Longrightarrow> H t" and mn: "m \<le> n"
  shows "sound T G m p"
proof (rule soundI)
  fix ts assume "eof_ended ts" "length ts \<le> m" "G (fst (hd ts))"
  then have "eof_ended ts" "length ts \<le> n" "H (fst (hd ts))" using G mn by auto
  with assms(1) show "case p ts of
      Parsed x ts' \<Rightarrow> eof_ended ts' \<and> suffix ts' ts \<and> (T x \<longrightarrow> length ts' < length ts)
    | Failed e \<Rightarrow> located ts e | _ \<Rightarrow> False"
    by (rule soundE) (auto dest: T)
qed

lemma eats_sound: "eats n p \<Longrightarrow> sound S H n p"
  by (erule sound_weaken) auto

lemma eats_pred: "eats (Suc n) p \<Longrightarrow> eats n p"
  by (erule sound_weaken) auto

text \<open>Sequencing. After a token has been consumed one token less is left.\<close>

lemma sound_bind:
  assumes p: "sound S H (Suc n) p"
    and f: "\<And>x. S x \<Longrightarrow> safe n (f x)" "\<And>x. \<not> S x \<Longrightarrow> sound T (\<lambda>_. True) (Suc n) (f x)"
  shows "sound T H (Suc n) (bindp p f)"
proof (rule soundI)
  fix ts assume ts: "eof_ended ts" "length ts \<le> Suc n" "H (fst (hd ts))"
  show "case bindp p f ts of
      Parsed x ts' \<Rightarrow> eof_ended ts' \<and> suffix ts' ts \<and> (T x \<longrightarrow> length ts' < length ts)
    | Failed e \<Rightarrow> located ts e | _ \<Rightarrow> False"
  proof (rule soundE [OF p ts])
    fix x ts1 assume r: "p ts = Parsed x ts1" "eof_ended ts1" "suffix ts1 ts" "length ts1 \<le> length ts"
      and s: "S x \<Longrightarrow> length ts1 < length ts"
    show ?thesis
    proof (cases "S x")
      case True
      then have l: "length ts1 \<le> n" using s ts(2) by simp
      show ?thesis
        by (rule soundE [OF f(1) [OF True] r(2) l]; use r s True in
            \<open>auto simp: bindp_def intro: located_suffix suffix_order.trans\<close>)
    next
      case False
      show ?thesis
        by (rule soundE [OF f(2) [OF False] r(2)]; use r ts in
            \<open>auto simp: bindp_def intro: located_suffix suffix_order.trans\<close>)
    qed
  next
    fix e assume "p ts = Failed e" "located ts e"
    then show ?thesis by (simp add: bindp_def)
  qed
qed

lemma eof_ended_length: "eof_ended ts \<Longrightarrow> \<not> length ts \<le> 0"
  by (simp add: eof_ended_def)

lemma sound_0: "sound S H 0 p"
  using eof_ended_length by (auto simp: sound_def)

lemma safe_bind: "safe n p \<Longrightarrow> (\<And>x. safe n (f x)) \<Longrightarrow> safe n (bindp p f)"
  by (cases n) (auto simp: sound_0 intro: sound_bind)

lemma later_bind: "safe n p \<Longrightarrow> (\<And>x. sound S (\<lambda>_. True) n (f x)) \<Longrightarrow> sound S (\<lambda>_. True) n (bindp p f)"
  by (cases n) (auto simp: sound_0 intro: sound_bind)

lemma eats_bind_pred: "eats (Suc n) p \<Longrightarrow> (\<And>x. safe n (f x)) \<Longrightarrow> eats (Suc n) (bindp p f)"
  by (rule sound_bind) auto

lemma eats_bind: "eats n p \<Longrightarrow> (\<And>x. safe n (f x)) \<Longrightarrow> sound S (\<lambda>_. True) n (bindp p f)"
proof (cases n)
  case (Suc m)
  assume p: "eats n p" and f: "\<And>x. safe n (f x)"
  have "safe m (f x)" for x by (rule sound_weaken [OF f]) (auto simp: Suc)
  then have "eats (Suc m) (bindp p f)" using p Suc by (intro eats_bind_pred) auto
  then show ?thesis using Suc eats_sound by blast
qed (simp add: sound_0)

subsection \<open>The rules, by the head of the parser\<close>

named_theorems parser_rule

lemma safe_ret [parser_rule]: "safe n (ret x)"
  by (rule soundI) (simp add: ret_def)

lemma steps_leave [parser_rule]: "steps n leave"
  by (rule soundI) (simp add: ret_def)

lemma sound_fail [parser_rule]: "sound S H n (fail msg)"
  by (rule soundI) (auto simp: fail_def eof_ended_def located_def split: list.splits)

lemma safe_peek [parser_rule]: "safe n peek"
  by (rule soundI) (auto simp: peek_def eof_ended_def split: list.splits)

lemma safe_peek2 [parser_rule]: "safe n peek2"
  by (rule soundI) (auto simp: peek2_def eof_ended_def)

lemma eof_ended_cases:
  assumes "eof_ended ts"
  obtains sp where "ts = [(TkEof, sp)]" | t sp ts' where "ts = (t, sp) # ts'" "t \<noteq> TkEof" "eof_ended ts'"
proof (cases ts)
  case (Cons p ts')
  then show ?thesis using assms that by (cases p) (auto simp: eof_ended_Cons split: if_splits)
qed (use assms in \<open>simp add: eof_ended_def\<close>)

lemma eof_ended_single: "eof_ended [(TkEof, sp)]"
  by (simp add: eof_ended_Cons)

lemma eof_ended_not_Nil: "\<not> eof_ended []"
  by (simp add: eof_ended_def)

lemma safe_next [parser_rule]: "safe n next_tok"
proof (rule soundI, goal_cases)
  case (1 ts)
  from 1(1) show ?case
    by (cases rule: eof_ended_cases)
      (auto simp: next_tok_def eof_ended_single eof_ended_not_Nil suffix_ConsI)
qed

lemma eats_on_next: "t \<noteq> TkEof \<Longrightarrow> eats_on t n next_tok"
proof (rule soundI, goal_cases)
  case (1 ts)
  from 1(2) show ?case
    by (cases rule: eof_ended_cases)
      (use 1 in \<open>auto simp: next_tok_def eof_ended_not_Nil suffix_ConsI\<close>)
qed

lemmas safe_binds [parser_rule] = safe_bind

lemma safe_then [parser_rule]: "safe n p \<Longrightarrow> safe n q \<Longrightarrow> safe n (thenp p q)"
  by (simp add: thenp_def safe_bind)

lemma safe_map [parser_rule]: "safe n p \<Longrightarrow> safe n (mapp f p)"
  by (simp add: mapp_def safe_bind safe_ret)

lemmas eats_binds [parser_rule] = eats_bind [where S = "\<lambda>_. True"]

lemma eats_then [parser_rule]: "eats n p \<Longrightarrow> safe n q \<Longrightarrow> eats n (thenp p q)"
  by (simp add: thenp_def eats_bind)

lemma eats_map [parser_rule]: "eats n p \<Longrightarrow> eats n (mapp f p)"
  by (simp add: mapp_def eats_bind safe_ret)

lemma steps_again [parser_rule]: "eats n p \<Longrightarrow> steps n (again p)"
  by (rule eats_sound) (rule eats_map)

lemma sound_branch [parser_rule]:
  assumes "sound S (\<lambda>_. True) n p" "sound S (\<lambda>_. True) n q"
  shows "sound S (\<lambda>_. True) n (branch P p q)"
  unfolding branch_def by (rule later_bind [OF safe_peek]) (simp add: assms)

text \<open>Consuming arms: what follows needs not consume again.\<close>

lemma eats_on_then: "t \<noteq> TkEof \<Longrightarrow> safe n q \<Longrightarrow> sound S (\<lambda>u. u = t) n (thenp next_tok q)"
proof (cases n)
  case (Suc m)
  assume t: "t \<noteq> TkEof" and q: "safe n q"
  have "safe m q" by (rule sound_weaken [OF q]) (auto simp: Suc)
  then show ?thesis
    unfolding thenp_def Suc by (intro sound_bind [OF eats_on_next [OF t]]) auto
qed (simp add: sound_0)

lemma eats_on_then_pred: "t \<noteq> TkEof \<Longrightarrow> safe n q \<Longrightarrow> sound S (\<lambda>u. u = t) (Suc n) (thenp next_tok q)"
  unfolding thenp_def by (intro sound_bind [OF eats_on_next]) auto

lemma sound_peek:
  assumes "\<And>t. sound S (\<lambda>u. u = t) n (f t)"
  shows "sound S (\<lambda>_. True) n (bindp peek f)"
proof (rule soundI)
  fix ts assume ts: "eof_ended ts" "length ts \<le> n"
  obtain t sp ts' where c: "ts = (t, sp) # ts'" using ts(1) by (cases rule: eof_ended_cases) auto
  have "peek ts = Parsed t ts" by (simp add: peek_def c)
  then show "case bindp peek f ts of
      Parsed x ts' \<Rightarrow> eof_ended ts' \<and> suffix ts' ts \<and> (S x \<longrightarrow> length ts' < length ts)
    | Failed e \<Rightarrow> located ts e | _ \<Rightarrow> False"
    using assms [of t, unfolded sound_def, rule_format, of ts] ts by (simp add: bindp_def c)
qed

lemma sound_took:
  assumes "\<And>t. P t \<Longrightarrow> t \<noteq> TkEof" and "safe n p" and "sound S (\<lambda>_. True) n q"
  shows "sound S (\<lambda>_. True) n (took P p q)"
  unfolding took_def branch_def
proof (rule sound_peek)
  fix t
  show "sound S (\<lambda>u. u = t) n (if P t then thenp next_tok p else q)"
  proof (cases "P t")
    case True
    then show ?thesis using eats_on_then [OF assms(1) [OF True] assms(2)] by simp
  next
    case False
    have "sound S (\<lambda>u. u = t) n q" by (rule sound_weaken [OF assms(3)]) simp_all
    then show ?thesis using False by simp
  qed
qed

text \<open>The tests that the arms use are false on Eof.\<close>

lemma took_eq [parser_rule]:
  "tok \<noteq> TkEof \<Longrightarrow> safe n p \<Longrightarrow> sound S (\<lambda>_. True) n q \<Longrightarrow> sound S (\<lambda>_. True) n (took (\<lambda>t. t = tok) p q)"
  by (rule sound_took) auto

lemma took_ident [parser_rule]:
  "safe n p \<Longrightarrow> sound S (\<lambda>_. True) n q \<Longrightarrow> sound S (\<lambda>_. True) n (took (ident_is k) p q)"
  by (rule sound_took) (auto simp: ident_is_def)

lemma took_either [parser_rule]:
  "tok \<noteq> TkEof \<Longrightarrow> safe n p \<Longrightarrow> sound S (\<lambda>_. True) n q \<Longrightarrow>
     sound S (\<lambda>_. True) n (took (\<lambda>t. t = tok \<or> ident_is k t) p q)"
  by (rule sound_took) (auto simp: ident_is_def)

lemma if_sound [parser_rule]:
  "(b \<Longrightarrow> sound S H n p) \<Longrightarrow> (\<not> b \<Longrightarrow> sound S H n q) \<Longrightarrow> sound S H n (if b then p else q)"
  by simp

lemma option_sound [parser_rule]:
  "(x = None \<Longrightarrow> sound S H n p) \<Longrightarrow> (\<And>y. x = Some y \<Longrightarrow> sound S H n (f y)) \<Longrightarrow>
     sound S H n (case x of None \<Rightarrow> p | Some y \<Rightarrow> f y)"
  by (cases x) simp_all

lemma prod_sound [parser_rule]:
  "(\<And>a b. x = (a, b) \<Longrightarrow> sound S H n (f a b)) \<Longrightarrow> sound S H n (case x of (a, b) \<Rightarrow> f a b)"
  by (cases x) simp

text \<open>Loops.\<close>

lemma ploop_sound:
  assumes body: "\<And>s. steps n (body s)"
  shows "eof_ended ts \<Longrightarrow> length ts \<le> n \<Longrightarrow> length ts < m \<Longrightarrow>
     (case ploop m body s ts of
        Parsed x ts' \<Rightarrow> eof_ended ts' \<and> suffix ts' ts
      | Failed e \<Rightarrow> located ts e
      | _ \<Rightarrow> False)"
proof (induction m arbitrary: s ts)
  case (Suc m)
  show ?case
  proof (rule soundE [OF body [of s] Suc.prems(1,2) TrueI])
    fix r ts1 assume r: "body s ts = Parsed r ts1" "eof_ended ts1" "suffix ts1 ts"
      "length ts1 \<le> length ts" and lt: "r \<noteq> None \<Longrightarrow> length ts1 < length ts"
    show ?thesis
    proof (cases r)
      case None
      then show ?thesis using r by (simp add: bindp_def ret_def)
    next
      case (Some s')
      have *: "length ts1 \<le> n" "length ts1 < m" using lt Some Suc.prems by auto
      show ?thesis
        using Suc.IH [OF r(2) *, of s'] r Some
        by (auto simp: bindp_def intro: located_suffix suffix_order.trans split: presult.splits)
    qed
  qed (simp add: bindp_def)
qed simp

lemma safe_loop [parser_rule]: "(\<And>s. steps n (body s)) \<Longrightarrow> safe n (loop body s)"
proof (rule soundI)
  fix ts assume b: "\<And>s'. steps n (body s')" and ts: "eof_ended ts" "length ts \<le> n"
  have "case loop body s ts of
      Parsed x ts' \<Rightarrow> eof_ended ts' \<and> suffix ts' ts | Failed e \<Rightarrow> located ts e | _ \<Rightarrow> False"
    unfolding loop_def by (rule ploop_sound [OF b ts lessI])
  then show "case loop body s ts of
      Parsed x ts' \<Rightarrow> eof_ended ts' \<and> suffix ts' ts \<and> (False \<longrightarrow> length ts' < length ts)
    | Failed e \<Rightarrow> located ts e | _ \<Rightarrow> False"
    by (cases "loop body s ts") simp_all
qed

lemma steps_eats_bind [parser_rule]:
  "eats n p \<Longrightarrow> (\<And>x. safe n (f x)) \<Longrightarrow> steps n (bindp p f)"
  by (rule eats_bind)

lemma steps_eats_then [parser_rule]: "eats n p \<Longrightarrow> safe n q \<Longrightarrow> steps n (thenp p q)"
  by (simp add: thenp_def eats_bind)

end
