(* ===== verification/Parser_Safety.thy ===== *)
theory Parser_Safety
  imports Parser_Facts
begin

text \<open>
  Safety of every parser of the FunQL parser, bottom up, from the token navigation to the entry
  point. Each fact is about \<open>sound S H n\<close> for any \<open>S\<close> and \<open>H\<close> when the parser always consumes a token, and
  about \<open>safe n\<close> otherwise.
\<close>

subsection \<open>Navigation\<close>

lemma eat_safe [parser_rule]: "tok \<noteq> TkEof \<Longrightarrow> safe n (eat tok)"
  unfolding eat_def by (intro parser_rule)

lemma expect_sound [parser_rule]: "tok \<noteq> TkEof \<Longrightarrow> sound S H n (expect tok)"
  by (rule eats_sound) (auto simp: expect_def intro!: sound_peek eats_on_then safe_ret sound_fail)

lemma expect_ident_sound [parser_rule]: "sound S H n expect_ident"
  by (rule eats_sound)
    (auto simp: expect_ident_def keyword_as_ident_def intro!: sound_peek eats_on_then safe_ret sound_fail
      split: token.split option.split)

lemma eat_keyword_or_ident_safe [parser_rule]: "safe n (eat_keyword_or_ident k)"
  unfolding eat_keyword_or_ident_def by (intro parser_rule)

lemma eat_either_safe [parser_rule]: "tok \<noteq> TkEof \<Longrightarrow> safe n (eat_either tok k)"
  unfolding eat_either_def by (intro parser_rule)

lemma expect_ident_on: "sound S (\<lambda>u. u = t) n expect_ident"
  by (rule expect_ident_sound)

lemma expect_string_or_ident_sound [parser_rule]: "sound S H n expect_string_or_ident"
  by (rule eats_sound)
    (auto simp: expect_string_or_ident_def intro!: sound_peek eats_on_then safe_ret expect_ident_on
      split: token.split)

lemma optional_safe [parser_rule]: "tok \<noteq> TkEof \<Longrightarrow> safe n p \<Longrightarrow> safe n (optional tok p)"
  unfolding optional_def by (intro parser_rule)

lemma more_items_safe [parser_rule]: "tok \<noteq> TkEof \<Longrightarrow> safe n p \<Longrightarrow> safe n (more_items tok p xs)"
  unfolding more_items_def by (intro parser_rule)

lemma more_until_safe [parser_rule]: "tok \<noteq> TkEof \<Longrightarrow> safe n p \<Longrightarrow> safe n (more_until tok stop p xs)"
  unfolding more_until_def by (intro parser_rule)

lemma separated_sound [parser_rule]: "tok \<noteq> TkEof \<Longrightarrow> eats n p \<Longrightarrow> sound S H n (separated tok p)"
  by (rule eats_sound, unfold separated_def) (intro parser_rule; simp add: eats_sound)

subsection \<open>Operators\<close>

lemma left_assoc_sound:
  assumes p: "eats n p" and ops: "ops TkEof = None"
  shows "sound S H n (left_assoc ops p)"
proof (rule eats_sound, unfold left_assoc_def, rule eats_bind [OF p], rule safe_loop)
  fix x and s :: expr
  show "steps n (bindp peek (\<lambda>t. case ops t of None \<Rightarrow> leave
      | Some op \<Rightarrow> thenp next_tok (again (mapp (BinaryOp op s) p))))"
  proof (rule sound_peek)
    fix t
    show "sound (\<lambda>r. r \<noteq> None) (\<lambda>u. u = t) n (case ops t of None \<Rightarrow> leave
        | Some op \<Rightarrow> thenp next_tok (again (mapp (BinaryOp op s) p)))"
    proof (cases "ops t")
      case None
      have "sound (\<lambda>r. r \<noteq> None) (\<lambda>u. u = t) n (leave :: expr option parser)"
        by (rule sound_weaken [OF steps_leave [of n]]) simp_all
      then show ?thesis using None by simp
    next
      case (Some op)
      then have "t \<noteq> TkEof" using ops by auto
      then show ?thesis using Some by (auto intro!: eats_on_then safe_map p [THEN eats_sound])
    qed
  qed
qed

lemma parse_unary_sound:
  assumes pp: "eats n pp" shows "sound S H n (parse_unary_expr pp)"
  by (rule eats_sound, unfold parse_unary_expr_def) (intro parser_rule pp [THEN eats_sound]; simp)

lemma parse_vector_dist_sound:
  assumes pp: "eats n pp" shows "sound S H n (parse_vector_dist_expr pp)"
  by (rule eats_sound, unfold parse_vector_dist_expr_def)
    (intro parser_rule parse_unary_sound pp [THEN eats_sound]; simp)

lemma parse_multiplicative_sound:
  assumes pp: "eats n pp" shows "sound S H n (parse_multiplicative_expr pp)"
  unfolding parse_multiplicative_expr_def
  by (rule left_assoc_sound) (auto simp: mul_op_def intro: parse_vector_dist_sound pp)

lemma parse_additive_sound:
  assumes pp: "eats n pp" shows "sound S H n (parse_additive_expr pp)"
  unfolding parse_additive_expr_def
  by (rule left_assoc_sound) (auto simp: add_op_def intro: parse_multiplicative_sound pp)

lemma parse_in_list_sound:
  assumes pe: "eats n pe" shows "sound S H n (parse_in_list pe)"
  by (rule eats_sound, unfold parse_in_list_def) (intro parser_rule pe [THEN eats_sound]; simp)

lemma cmp_op_Eof: "cmp_op TkEof = None"
  by (simp add: cmp_op_def)

lemma comparison_tail_safe:
  assumes pp: "eats n pp" and pe: "eats n pe"
  shows "safe n (comparison_tail pe pp left)"
  unfolding comparison_tail_def
  by (intro parser_rule parse_in_list_sound parse_additive_sound pp pe; simp)

lemma parse_comparison_sound:
  assumes pp: "eats (Suc n) pp" and pe: "eats n pe"
  shows "sound S H (Suc n) (parse_comparison_expr pe pp)"
  by (rule eats_sound, unfold parse_comparison_expr_def,
      rule eats_bind_pred [OF parse_additive_sound [OF pp] comparison_tail_safe [OF eats_pred [OF pp] pe]])

lemma not_loop_sound:
  assumes p: "eats (Suc n) p"
  shows "eof_ended ts \<Longrightarrow> length ts \<le> Suc n \<Longrightarrow> length ts < m \<Longrightarrow>
     (case not_loop m p ts of
        Parsed x ts' \<Rightarrow> eof_ended ts' \<and> suffix ts' ts \<and> length ts' < length ts
      | Failed e \<Rightarrow> located ts e
      | _ \<Rightarrow> False)"
proof (induction m arbitrary: ts)
  case (Suc m)
  have "case p ts of Parsed x ts' \<Rightarrow> eof_ended ts' \<and> suffix ts' ts \<and> (True \<longrightarrow> length ts' < length ts)
      | Failed e \<Rightarrow> located ts e | _ \<Rightarrow> False"
    using p [unfolded sound_def, rule_format, of ts] Suc.prems by simp
  then have pc: "case p ts of Parsed x ts' \<Rightarrow> eof_ended ts' \<and> suffix ts' ts \<and> length ts' < length ts
      | Failed e \<Rightarrow> located ts e | _ \<Rightarrow> False"
    by (cases "p ts") simp_all
  from Suc.prems(1) show ?case
  proof (cases rule: eof_ended_cases)
    case (1 sp)
    then have "not_loop (Suc m) p ts = p ts"
      by (simp add: took_def branch_def peek_def bindp_def)
    then show ?thesis using pc by simp
  next
    case (2 t sp ts')
    show ?thesis
    proof (cases "t = TkKeyword ''Not''")
      case True
      have "ts' \<noteq> []" using 2(3) eof_ended_not_Nil by auto
      then have "not_loop (Suc m) p ts = mapp Not (not_loop m p) ts'"
        by (simp add: 2(1) True took_def branch_def peek_def bindp_def thenp_def next_tok_def)
      then show ?thesis
        using Suc.IH [OF 2(3)] Suc.prems 2(1)
        by (auto simp: mapp_def bindp_def ret_def located_def intro: suffix_ConsI split: presult.splits)
    next
      case False
      then have "not_loop (Suc m) p ts = p ts"
        by (simp add: 2(1) took_def branch_def peek_def bindp_def)
      then show ?thesis using pc by simp
    qed
  qed
qed simp

lemma parse_not_sound:
  assumes pp: "eats (Suc n) pp" and pe: "eats n pe"
  shows "sound S H (Suc n) (parse_not_expr pe pp)"
proof (rule eats_sound, rule soundI)
  fix ts assume ts: "eof_ended ts" "length ts \<le> Suc n"
  have "case parse_not_expr pe pp ts of
        Parsed x ts' \<Rightarrow> eof_ended ts' \<and> suffix ts' ts \<and> length ts' < length ts
      | Failed e \<Rightarrow> located ts e | _ \<Rightarrow> False"
    unfolding parse_not_expr_def
    by (rule not_loop_sound [OF parse_comparison_sound [OF pp pe] ts lessI])
  then show "case parse_not_expr pe pp ts of
        Parsed x ts' \<Rightarrow> eof_ended ts' \<and> suffix ts' ts \<and> (True \<longrightarrow> length ts' < length ts)
      | Failed e \<Rightarrow> located ts e | _ \<Rightarrow> False"
    by (cases "parse_not_expr pe pp ts") simp_all
qed

lemma parse_or_sound:
  assumes pp: "eats (Suc n) pp" and pe: "eats n pe"
  shows "sound S H (Suc n) (parse_or_expr pe pp)"
  unfolding parse_or_expr_def parse_and_expr_def
  by (intro left_assoc_sound parse_not_sound pp pe) (simp_all add: or_op_def and_op_def)

subsection \<open>Primary expressions\<close>

lemma vector_tail_safe [parser_rule]:
  assumes pp: "eats n pp" shows "safe n (vector_tail pp)"
  unfolding vector_tail_def by (intro parser_rule pp [THEN eats_sound]; simp)

lemma call_argument_safe [parser_rule]:
  assumes pe: "eats n pe" shows "safe n (call_argument named pe)"
  unfolding call_argument_def by (intro parser_rule pe [THEN eats_sound]; simp)

lemma call_args_safe [parser_rule]:
  assumes pe: "eats n pe" shows "safe n (call_args named pe)"
  unfolding call_args_def by (intro parser_rule pe [THEN eats_sound]; simp)

lemma parse_name_safe [parser_rule]:
  assumes pp: "eats n pp" and pe: "eats n pe" shows "safe n (parse_name_expr pe pp name)"
  unfolding parse_name_expr_def by (intro parser_rule pp [THEN eats_sound] pe [THEN eats_sound]; simp)

lemma parse_case_sound:
  assumes pe: "eats n pe" shows "sound S H (Suc n) (parse_case_expr pe)"
proof (rule eats_sound, unfold parse_case_expr_def, subst thenp_def, rule eats_bind_pred)
  show "eats (Suc n) (expect (TkKeyword ''Case''))" by (rule expect_sound) simp
qed (intro parser_rule pe [THEN eats_sound]; simp)

lemma array_safe [parser_rule]:
  assumes pe: "eats n pe" shows "safe n (array_expr pe)"
  unfolding array_expr_def by (intro parser_rule pe [THEN eats_sound]; simp)

lemma safe_of_on: "(\<And>t. sound (\<lambda>_. False) (\<lambda>u. u = t) n (f t)) \<Longrightarrow> safe n (bindp peek f)"
  by (rule sound_peek)

lemma safe_on_then: "safe n q \<Longrightarrow> safe n (thenp next_tok q)"
  by (intro parser_rule)

lemma interval_safe [parser_rule]: "safe n interval_expr"
  unfolding interval_expr_def
  by (rule safe_bind [OF safe_peek]) (auto split: token.split intro!: safe_on_then safe_ret)

lemma parse_primary_sound:
  assumes pe: "eats n pe" and pp: "eats n pp" and ps: "eats n ps"
  shows "sound S H (Suc n) (parse_primary_body pe pp ps)"
proof (rule eats_sound, unfold parse_primary_body_def, rule sound_peek)
  fix tok
  note cs = pe [THEN eats_sound] pp [THEN eats_sound] ps [THEN eats_sound]
  have paren: "safe n (branch (kw ''Select'')
           (bindp ps (\<lambda>sub. thenp (expect TkRParen) (ret (Subquery (Select sub)))))
           (bindp pe (\<lambda>e. thenp (expect TkRParen) (ret e))))"
    by (intro parser_rule cs; simp)
  have ex: "safe n (thenp (expect TkLParen)
                (bindp ps (\<lambda>sub. thenp (expect TkRParen) (ret (Subquery (Select sub))))))"
    by (intro parser_rule cs; simp)
  note intros = eats_on_then_pred paren ex safe_ret array_safe vector_tail_safe interval_safe
    parse_name_safe parse_case_sound sound_fail pe pp
  show "eats_on tok (Suc n) (case tok of
       TkIntLiteral n \<Rightarrow> thenp next_tok (ret (Literal (LInt n)))
     | TkFloatLiteral f \<Rightarrow> thenp next_tok (ret (Literal (LFloat f)))
     | TkStringLiteral s \<Rightarrow> thenp next_tok (ret (Literal (LString s)))
     | TkParam name \<Rightarrow> thenp next_tok (ret (Param name))
     | TkStar \<Rightarrow> thenp next_tok (ret Star)
     | TkLParen \<Rightarrow> thenp next_tok
         (branch (kw ''Select'')
           (bindp ps (\<lambda>sub. thenp (expect TkRParen) (ret (Subquery (Select sub)))))
           (bindp pe (\<lambda>e. thenp (expect TkRParen) (ret e))))
     | TkLBracket \<Rightarrow> thenp next_tok (array_expr pe)
     | _ \<Rightarrow>
         if tok = TkKeyword ''True'' then thenp next_tok (ret (Literal (LBool True)))
         else if tok = TkKeyword ''False'' then thenp next_tok (ret (Literal (LBool False)))
         else if tok = TkKeyword ''Null'' then thenp next_tok (ret (Literal LNull))
         else if tok = TkKeyword ''Vector'' then thenp next_tok (vector_tail pp)
         else if tok = TkKeyword ''Exists'' then thenp next_tok (thenp (expect TkLParen)
                (bindp ps (\<lambda>sub. thenp (expect TkRParen) (ret (Subquery (Select sub))))))
         else if tok = TkKeyword ''Case'' then parse_case_expr pe
         else if tok = TkKeyword ''Interval'' then thenp next_tok interval_expr
         else
           (case keyword_as_ident tok of
              Some name \<Rightarrow> thenp next_tok (parse_name_expr pe pp name)
            | None \<Rightarrow> fail (MessageToken ''unexpected token in expression:'' tok)))"
  proof (cases tok)
    case (TkKeyword k)
    show ?thesis
      unfolding TkKeyword token.case by (intro if_sound option_sound intros; simp)
  next
    case (TkIdent s)
    then show ?thesis by (auto simp: keyword_as_ident_def intro!: intros)
  qed (auto simp: keyword_as_ident_def intro!: intros)
qed


subsection \<open>The clauses of SELECT\<close>

lemma parse_order_by_item_sound [parser_rule]:
  assumes pe: "eats n pe" shows "sound S H n (parse_order_by_item pe)"
  by (rule eats_sound, unfold parse_order_by_item_def) (intro parser_rule pe [THEN eats_sound] ; simp)

lemma parse_order_by_list_sound [parser_rule]:
  assumes pe: "eats n pe" shows "sound S H n (parse_order_by_list pe)"
  by (rule eats_sound, unfold parse_order_by_list_def) (intro parser_rule pe [THEN eats_sound] ; simp)

lemma parse_expr_list_sound [parser_rule]:
  assumes pe: "eats n pe" shows "sound S H n (parse_expr_list pe)"
  by (rule eats_sound, unfold parse_expr_list_def) (intro parser_rule pe [THEN eats_sound] ; simp)

lemma parse_alias_safe [parser_rule]:
  "safe n parse_alias"
  unfolding parse_alias_def by (intro parser_rule  ; simp)

lemma parse_select_item_sound [parser_rule]:
  assumes pe: "eats n pe" shows "sound S H n (parse_select_item pe)"
  by (rule eats_sound, unfold parse_select_item_def) (intro parser_rule pe [THEN eats_sound] ; simp)

lemma parse_projection_list_sound [parser_rule]:
  assumes pe: "eats n pe" shows "sound S H n (parse_projection_list pe)"
  by (rule eats_sound, unfold parse_projection_list_def) (intro parser_rule pe [THEN eats_sound] ; simp)

lemma parse_qualified_name_sound [parser_rule]:
  "sound S H n parse_qualified_name"
  by (rule eats_sound, unfold parse_qualified_name_def) (intro parser_rule  ; simp)

lemma of_follows_safe [parser_rule]:
  "safe n of_follows"
  unfolding of_follows_def by (intro parser_rule  ; simp)

lemma parse_table_alias_safe [parser_rule]:
  "safe n parse_table_alias"
  unfolding parse_table_alias_def by (intro parser_rule  ; simp)

lemma parse_table_ref_sound [parser_rule]:
  assumes ps: "eats n ps" shows "sound S H n (parse_table_ref ps)"
  by (rule eats_sound, unfold parse_table_ref_def) (intro parser_rule ps [THEN eats_sound] ; simp)

lemma join_kind_sound [parser_rule]: "sound S H n join_kind"
  by (rule eats_sound, unfold join_kind_def, rule sound_peek)
    (intro if_sound eats_on_then safe_then safe_ret eat_safe sound_fail; simp)

lemma parse_join_sound [parser_rule]:
  assumes pe: "eats n pe" and ps: "eats n ps" shows "sound S H n (parse_join pe ps)"
  by (rule eats_sound, unfold parse_join_def) (intro parser_rule pe [THEN eats_sound] ps [THEN eats_sound] ; simp)

lemma chain_from_safe [parser_rule]:
  "safe n (chain_from x)"
  unfolding chain_from_def by (intro parser_rule  ; simp)

lemma parse_traverse_clause_sound [parser_rule]:
  assumes pp: "eats n pp" shows "sound S H n (parse_traverse_clause pp)"
  by (rule eats_sound, unfold parse_traverse_clause_def) (intro parser_rule pp [THEN eats_sound] ; simp)

lemma trace_limits_steps [parser_rule]:
  assumes pe: "eats n pe" and q: "steps n q" shows "steps n (trace_limits pe a q)"
  unfolding trace_limits_def by (intro parser_rule pe [THEN eats_sound] q; simp)
lemma parse_trace_causality_clause_sound [parser_rule]:
  assumes pe: "eats n pe" and pp: "eats n pp" shows "sound S H n (parse_trace_causality_clause pe pp)"
  by (rule eats_sound, unfold parse_trace_causality_clause_def) (intro parser_rule pe [THEN eats_sound] pp [THEN eats_sound] ; simp)

lemma parse_context_option_safe [parser_rule]:
  assumes pe: "eats n pe" shows "safe n (parse_context_option pe key c)"
  unfolding parse_context_option_def by (intro parser_rule pe [THEN eats_sound] ; simp)

lemma parse_within_context_sound [parser_rule]:
  assumes pe: "eats n pe" shows "sound S H n (parse_within_context pe)"
  by (rule eats_sound, unfold parse_within_context_def) (intro parser_rule pe [THEN eats_sound] ; simp)

lemma valid_time_body_safe [parser_rule]:
  assumes pp: "eats n pp" shows "safe n (valid_time_body pp)"
  unfolding valid_time_body_def by (intro parser_rule pp [THEN eats_sound] ; simp)

lemma parse_as_of_body_sound [parser_rule]:
  assumes pp: "eats n pp" shows "sound S H n (parse_as_of_body pp)"
  by (rule eats_sound, unfold parse_as_of_body_def, rule sound_peek)
    (intro if_sound eats_on_then safe_then safe_map valid_time_body_safe eat_keyword_or_ident_safe
      sound_fail pp pp [THEN eats_sound]; auto simp: ident_is_def)

lemma recency_params_safe [parser_rule]:
  assumes pp: "eats n pp" shows "safe n (recency_params pp)"
  unfolding recency_params_def by (intro parser_rule pp [THEN eats_sound] ; simp)

lemma weight_param_sound [parser_rule]:
  assumes pp: "eats n pp" shows "sound S H n (weight_param pp)"
  by (rule eats_sound, unfold weight_param_def) (intro parser_rule pp [THEN eats_sound] ; simp)

lemma parse_recall_weight_sound [parser_rule]:
  assumes pp: "eats n pp" shows "sound S H n (parse_recall_weight pp)"
  by (rule eats_sound, unfold parse_recall_weight_def) (intro parser_rule pp [THEN eats_sound] ; simp)

lemma parse_recall_weights_sound [parser_rule]:
  assumes pp: "eats n pp" shows "sound S H n (parse_recall_weights pp)"
  by (rule eats_sound, unfold parse_recall_weights_def) (intro parser_rule pp [THEN eats_sound] ; simp)

lemma parse_recall_by_clause_sound [parser_rule]:
  assumes pp: "eats n pp" shows "sound S H n (parse_recall_by_clause pp)"
  by (rule eats_sound, unfold parse_recall_by_clause_def) (intro parser_rule pp [THEN eats_sound] ; simp)

lemma trace_limit_steps [parser_rule]:
  assumes pe: "eats n pe" and q: "steps n q" shows "steps n (trace_limit k upd pe a q)"
  unfolding trace_limit_def by (intro parser_rule pe [THEN eats_sound] q; simp)

lemma as_of_steps:
  assumes p: "safe n p"
  shows "steps n (bindp of_follows (\<lambda>ofs.
          if ofs then took (kw ''As'') (thenp next_tok (again p)) leave else leave))"
  by (rule later_bind [OF of_follows_safe]) (intro parser_rule p; simp)

lemma select_clause_steps [parser_rule]:
  assumes pe: "eats n pe" and pp: "eats n pp" and ps: "eats n ps"
  shows "steps n (select_clause pe pp ps a)"
  unfolding select_clause_def
  by (intro as_of_steps parser_rule pe [THEN eats_sound] pp [THEN eats_sound] ps [THEN eats_sound]; simp)

lemma finish_select_safe [parser_rule]:
  assumes pe: "eats n pe" and pp: "eats n pp" and ps: "eats n ps" shows "safe n (finish_select pe pp ps d p f)"
  unfolding finish_select_def by (intro parser_rule pe [THEN eats_sound] pp [THEN eats_sound] ps [THEN eats_sound] ; simp)

lemma parse_select_inner_body_sound:
  assumes pe: "eats n pe" and pp: "eats n pp" and ps: "eats n ps"
  shows "sound S H (Suc n) (parse_select_inner_body pe pp ps)"
proof (rule eats_sound, unfold parse_select_inner_body_def, subst thenp_def, rule eats_bind_pred)
  show "eats (Suc n) (expect (TkKeyword ''Select''))" by (rule expect_sound) simp
qed (intro parser_rule pe [THEN eats_sound] pp [THEN eats_sound] ps [THEN eats_sound]; simp)

text \<open>The knot: a depth of at least the number of tokens suffices.\<close>

lemma knot_sound: "eats n (parse_expr n) \<and> eats n (parse_primary_expr n) \<and> eats n (parse_select_inner n)"
proof (induction n)
  case (Suc n)
  then show ?case
    by (simp add: knot_Suc parse_or_sound parse_primary_sound parse_select_inner_body_sound)
qed (simp add: sound_0)

subsection \<open>Statements\<close>

lemma parse_assignment_sound [parser_rule]:
  assumes pe: "eats n pe" shows "sound S H n (parse_assignment pe)"
  by (rule eats_sound, unfold parse_assignment_def) (intro parser_rule pe [THEN eats_sound] ; simp)

lemma parse_assignment_list_sound [parser_rule]:
  assumes pe: "eats n pe" shows "sound S H n (parse_assignment_list pe)"
  by (rule eats_sound, unfold parse_assignment_list_def) (intro parser_rule pe [THEN eats_sound] ; simp)

lemma parse_pair_sound [parser_rule]:
  assumes pe: "eats n pe" shows "sound S H n (parse_pair pe)"
  by (rule eats_sound, unfold parse_pair_def) (intro parser_rule pe [THEN eats_sound] ; simp)

lemma parse_row_sound [parser_rule]:
  assumes pe: "eats n pe" shows "sound S H n (parse_row pe)"
  by (rule eats_sound, unfold parse_row_def) (intro parser_rule pe [THEN eats_sound] ; simp)

lemma parse_insert_sound [parser_rule]:
  assumes pe: "eats n pe" shows "sound S H n (parse_insert pe)"
  by (rule eats_sound, unfold parse_insert_def) (intro parser_rule pe [THEN eats_sound] ; simp)

lemma parse_update_sound [parser_rule]:
  assumes pe: "eats n pe" shows "sound S H n (parse_update pe)"
  by (rule eats_sound, unfold parse_update_def) (intro parser_rule pe [THEN eats_sound] ; simp)

lemma parse_delete_sound [parser_rule]:
  assumes pe: "eats n pe" shows "sound S H n (parse_delete pe)"
  by (rule eats_sound, unfold parse_delete_def) (intro parser_rule pe [THEN eats_sound] ; simp)

lemma parse_column_sound [parser_rule]:
  "sound S H n parse_column"
  by (rule eats_sound, unfold parse_column_def) (intro parser_rule  ; simp)

lemma parse_create_table_body_safe [parser_rule]:
  "safe n parse_create_table_body"
  unfolding parse_create_table_body_def by (intro parser_rule  ; simp)

lemma parse_create_index_body_safe [parser_rule]:
  "safe n parse_create_index_body"
  unfolding parse_create_index_body_def by (intro parser_rule  ; simp)

lemma parse_equation_sound [parser_rule]:
  assumes pp: "eats n pp" shows "sound S H n (parse_equation pp)"
  by (rule eats_sound, unfold parse_equation_def) (intro parser_rule pp [THEN eats_sound] ; simp)

lemma section_entries_safe [parser_rule]:
  assumes p: "eats n p" shows "safe n (section_entries p xs)"
  unfolding section_entries_def by (intro parser_rule p [THEN eats_sound] ; simp)

lemma model_section_safe [parser_rule]:
  assumes pp: "eats n pp" shows "safe n (model_section pp sec a)"
  unfolding model_section_def by (intro parser_rule pp [THEN eats_sound] ; simp)
lemma steps_next_until:
  assumes f: "\<And>t. safe n (f t)"
  shows "steps n (branch (\<lambda>t. t = tok \<or> t = TkEof) leave (bindp next_tok f))"
  unfolding branch_def
proof (rule sound_peek)
  fix t
  show "sound (\<lambda>r. r \<noteq> None) (\<lambda>u. u = t) n (if t = tok \<or> t = TkEof then leave else bindp next_tok f)"
  proof (cases "t = tok \<or> t = TkEof")
    case True
    have "sound (\<lambda>r. r \<noteq> None) (\<lambda>u. u = t) n (leave :: 'a option parser)"
      by (rule sound_weaken [OF steps_leave [of n]]) simp_all
    then show ?thesis using True by simp
  next
    case False
    have "sound (\<lambda>r. r \<noteq> None) (\<lambda>u. u = t) n (bindp next_tok f)"
    proof (cases n)
      case (Suc m)
      have "safe m (f x)" for x by (rule sound_weaken [OF f]) (auto simp: Suc)
      then show ?thesis using False unfolding Suc by (intro sound_bind [OF eats_on_next]) auto
    qed (simp add: sound_0)
    then show ?thesis using False by simp
  qed
qed

lemma parse_create_causal_model_body_safe [parser_rule]:
  assumes pp: "eats n pp" shows "safe n (parse_create_causal_model_body pp)"
  unfolding parse_create_causal_model_body_def
  by (intro steps_next_until parser_rule pp; simp)

lemma parse_create_sound [parser_rule]:
  assumes pp: "eats n pp" shows "sound S H n (parse_create pp)"
  by (rule eats_sound, unfold parse_create_def) (intro parser_rule pp; simp)

lemma parse_endpoint_sound [parser_rule]:
  assumes pe: "eats n pe" and pp: "eats n pp" shows "sound S H n (parse_endpoint pe pp)"
  by (rule eats_sound, unfold parse_endpoint_def) (intro parser_rule pe [THEN eats_sound] pp [THEN eats_sound] ; simp)

lemma parse_trace_causality_top_sound [parser_rule]:
  assumes pe: "eats n pe" and pp: "eats n pp" shows "sound S H n (parse_trace_causality_top pe pp)"
  by (rule eats_sound, unfold parse_trace_causality_top_def) (intro parser_rule pe [THEN eats_sound] pp [THEN eats_sound] ; simp)

lemma skip_joins_safe [parser_rule]:
  assumes pe: "eats n pe" and ps: "eats n ps" shows "safe n (skip_joins pe ps)"
  unfolding skip_joins_def by (intro parser_rule pe [THEN eats_sound] ps [THEN eats_sound] ; simp)

lemma parse_estimate_effect_natural_safe [parser_rule]:
  assumes pe: "eats n pe" and ps: "eats n ps" shows "safe n (parse_estimate_effect_natural pe ps)"
  unfolding parse_estimate_effect_natural_def by (intro parser_rule pe [THEN eats_sound] ps [THEN eats_sound] ; simp)

lemma parse_intervene_after_from_sound [parser_rule]:
  assumes pe: "eats n pe" shows "sound S H n (parse_intervene_after_from pe xs)"
  by (rule eats_sound, unfold parse_intervene_after_from_def) (intro parser_rule pe [THEN eats_sound] ; simp)

lemma parse_intervene_sound [parser_rule]:
  assumes pe: "eats n pe" shows "sound S H n (parse_intervene pe)"
  by (rule eats_sound, unfold parse_intervene_def) (intro parser_rule pe [THEN eats_sound] ; simp)

lemma parse_counterfactual_with_select_sound [parser_rule]:
  assumes pe: "eats n pe" and ps: "eats n ps" shows "sound S H n (parse_counterfactual_with_select pe ps)"
  by (rule eats_sound, unfold parse_counterfactual_with_select_def) (intro parser_rule pe [THEN eats_sound] ps [THEN eats_sound] ; simp)

lemma parse_given_sound [parser_rule]:
  assumes pe: "eats n pe" and ps: "eats n ps" shows "sound S H n (parse_given pe ps)"
  by (rule eats_sound, unfold parse_given_def) (intro parser_rule pe [THEN eats_sound] ps [THEN eats_sound] ; simp)

lemma parse_counterfactual_body_sound [parser_rule]:
  assumes pe: "eats n pe" and ps: "eats n ps" shows "sound S H n (parse_counterfactual_body pe ps xs)"
  by (rule eats_sound, unfold parse_counterfactual_body_def) (intro parser_rule pe [THEN eats_sound] ps [THEN eats_sound] ; simp)

lemma parse_counterfactual_dispatch_safe [parser_rule]:
  assumes pe: "eats n pe" and ps: "eats n ps" shows "safe n (parse_counterfactual_dispatch pe ps)"
  unfolding parse_counterfactual_dispatch_def by (intro parser_rule pe [THEN eats_sound] ps [THEN eats_sound] ; simp)

lemma discover_option_steps [parser_rule]:
  assumes pe: "eats n pe" shows "steps n (discover_option pe a)"
  unfolding discover_option_def by (intro parser_rule pe [THEN eats_sound] ; simp)

lemma parse_discover_causal_sound [parser_rule]:
  assumes pe: "eats n pe" and ps: "eats n ps" shows "sound S H n (parse_discover_causal pe ps)"
  by (rule eats_sound, unfold parse_discover_causal_def) (intro parser_rule pe [THEN eats_sound] ps [THEN eats_sound] ; simp)

lemma expect_string_sound [parser_rule]: "sound S H n (expect_string msg)"
  by (rule eats_sound, unfold expect_string_def, rule sound_peek)
    (auto intro!: eats_on_then safe_ret sound_fail split: token.split)

lemma within_word_Eof: "within_word TkEof = None"
  by (simp add: within_word_def)

lemma within_parts_safe [parser_rule]: "safe n within_parts"
  unfolding within_parts_def
proof (rule safe_loop, rule sound_peek)
  fix xs and t :: token
  have "sound (\<lambda>r. r \<noteq> None) (\<lambda>u. u = t) n (leave :: ustring list option parser)"
    by (rule sound_weaken [OF steps_leave [of n]]) simp_all
  moreover have "within_word t = Some s \<Longrightarrow> t \<noteq> TkEof" for s using within_word_Eof by auto
  ultimately show "sound (\<lambda>r. r \<noteq> None) (\<lambda>u. u = t) n
      (case within_word t of None \<Rightarrow> leave | Some s \<Rightarrow> thenp next_tok (ret (Some (xs @ [s]))))"
    by (auto intro!: eats_on_then safe_ret split: option.split)
qed

lemma understand_key_safe [parser_rule]: "safe n understand_key"
  unfolding understand_key_def
  by (rule safe_bind [OF safe_peek]) (auto intro!: safe_ret sound_fail split: token.split)

lemma understand_with_safe [parser_rule]:
  assumes pe: "eats n pe" shows "safe n (understand_with pe)"
  unfolding understand_with_def by (intro parser_rule pe [THEN eats_sound] ; simp)

lemma understand_option_steps [parser_rule]:
  assumes pe: "eats n pe" shows "steps n (understand_option pe os)"
  unfolding understand_option_def Let_def by (intro parser_rule pe [THEN eats_sound] pe; simp)

lemma parse_understand_sound [parser_rule]:
  assumes pe: "eats n pe" shows "sound S H n (parse_understand pe)"
  by (rule eats_sound, unfold parse_understand_def) (intro parser_rule pe [THEN eats_sound] ; simp)

lemma parse_agent_sound [parser_rule]:
  assumes pp: "eats n pp" shows "sound S H n (parse_agent msg pp)"
  by (rule eats_sound, unfold parse_agent_def) (intro parser_rule pp [THEN eats_sound] ; simp)

lemma remember_option_steps [parser_rule]:
  assumes pp: "eats n pp" shows "steps n (remember_option pp a)"
  unfolding remember_option_def by (intro parser_rule pp [THEN eats_sound] ; simp)

lemma parse_remember_sound [parser_rule]:
  assumes pp: "eats n pp" shows "sound S H n (parse_remember pp)"
  by (rule eats_sound, unfold parse_remember_def) (intro parser_rule pp [THEN eats_sound] ; simp)

lemma parse_recall_by_sound [parser_rule]:
  assumes pe: "eats n pe" and pp: "eats n pp" shows "sound S H n (parse_recall_by pe pp)"
  by (rule eats_sound, unfold parse_recall_by_def) (intro parser_rule pe [THEN eats_sound] pp [THEN eats_sound] ; simp)

lemma parse_forget_sound [parser_rule]:
  assumes pe: "eats n pe" and pp: "eats n pp" shows "sound S H n (parse_forget pe pp)"
  by (rule eats_sound, unfold parse_forget_def) (intro parser_rule pe [THEN eats_sound] pp [THEN eats_sound] ; simp)

lemma parse_select_stmt_sound [parser_rule]:
  assumes pe: "eats n pe" and pp: "eats n pp" and ps: "eats n ps" shows "sound S H n (parse_select_stmt pe pp ps)"
  by (rule eats_sound, unfold parse_select_stmt_def) (intro parser_rule pe [THEN eats_sound] pp [THEN eats_sound] ps [THEN eats_sound] ; simp)

lemma parse_traverse_stmt_sound [parser_rule]:
  assumes pe: "eats n pe" shows "sound S H n (parse_traverse_stmt pe)"
  by (rule eats_sound, unfold parse_traverse_stmt_def) (intro parser_rule pe [THEN eats_sound] ; simp)

lemma skip_semicolons_safe [parser_rule]: "safe n skip_semicolons"
proof -
  have "steps n (took (\<lambda>t. t = TkSemicolon) (ret (Some ())) leave)"
    by (intro parser_rule) simp
  then show ?thesis unfolding skip_semicolons_def by (intro safe_loop)
qed

lemma statement_dispatch_safe [parser_rule]:
  assumes pe: "eats n pe" and pp: "eats n pp" and ps: "eats n ps" shows "safe n (statement_dispatch pe pp ps t)"
  unfolding statement_dispatch_def by (intro parser_rule pe [THEN eats_sound] pp [THEN eats_sound] ps [THEN eats_sound] ; simp)

lemma parse_statement_safe: "safe n (parse_statement_at n)"
proof -
  note k = knot_sound [of n]
  show ?thesis
    unfolding parse_statement_at_def
    by (intro parser_rule k [THEN conjunct1] k [THEN conjunct2, THEN conjunct1]
        k [THEN conjunct2, THEN conjunct2]) simp
qed

end
