(* ===== verification/Parser_Grammar.thy ===== *)
theory Parser_Grammar
  imports Parser_Safety
begin

text \<open>
  The grammar of FunQL expressions as an inductive relation, with the precedence of the operators and
  their associativity, and the proof that the parser reads every derivation as its tree. The
  grammar covers all expressions but subqueries, vector fields and interval literals.
\<close>

subsection \<open>The grammar\<close>

datatype level = LvOr | LvAnd | LvNot | LvCmp | LvAdd | LvMul | LvDist | LvUnary | LvPrimary

fun tighter :: "level \<Rightarrow> level" where
  "tighter LvOr = LvAnd"
| "tighter LvAnd = LvNot"
| "tighter LvNot = LvCmp"
| "tighter LvCmp = LvAdd"
| "tighter LvAdd = LvMul"
| "tighter LvMul = LvDist"
| "tighter LvDist = LvUnary"
| "tighter LvUnary = LvPrimary"
| "tighter LvPrimary = LvPrimary"

text \<open>Words separated by commas.\<close>

fun commas :: "token list list \<Rightarrow> token list" where
  "commas [] = []"
| "commas (w # ws) = w @ concat (map ((#) TkComma) ws)"

definition whens :: "(token list \<times> token list) list \<Rightarrow> token list" where
  "whens ws = concat (map (\<lambda>(u, v). TkKeyword ''When'' # u @ TkKeyword ''Then'' # v) ws)"

text \<open>Tokens that name something, except those with a meaning of their own in an expression.\<close>

definition name_token :: "token \<Rightarrow> ustring \<Rightarrow> bool" where
  "name_token t x \<longleftrightarrow> keyword_as_ident t = Some x \<and> t \<noteq> TkKeyword ''Vector'' \<and> t \<noteq> TkKeyword ''Interval''"

definition literal_of :: "token \<Rightarrow> expr option" where
  "literal_of t =
     (case t of
        TkIntLiteral n \<Rightarrow> Some (Literal (LInt n))
      | TkFloatLiteral f \<Rightarrow> Some (Literal (LFloat f))
      | TkStringLiteral s \<Rightarrow> Some (Literal (LString s))
      | TkParam p \<Rightarrow> Some (Param p)
      | TkStar \<Rightarrow> Some Star
      | TkKeyword k \<Rightarrow>
          if k = ''True'' then Some (Literal (LBool True))
          else if k = ''False'' then Some (Literal (LBool False))
          else if k = ''Null'' then Some (Literal LNull) else None
      | _ \<Rightarrow> None)"

inductive derives :: "level \<Rightarrow> expr \<Rightarrow> token list \<Rightarrow> bool" where
  lift: "derives (tighter k) e w \<Longrightarrow> derives k e w"
| disj: "derives LvOr a u \<Longrightarrow> derives LvAnd b v \<Longrightarrow> or_op t = Some op \<Longrightarrow>
    derives LvOr (BinaryOp op a b) (u @ t # v)"
| conj: "derives LvAnd a u \<Longrightarrow> derives LvNot b v \<Longrightarrow> and_op t = Some op \<Longrightarrow>
    derives LvAnd (BinaryOp op a b) (u @ t # v)"
| negation: "derives LvNot e w \<Longrightarrow> derives LvNot (Not e) (TkKeyword ''Not'' # w)"
| compare: "derives LvAdd a u \<Longrightarrow> derives LvAdd b v \<Longrightarrow> cmp_op t = Some op \<Longrightarrow>
    derives LvCmp (BinaryOp op a b) (u @ t # v)"
| not_like: "derives LvAdd a u \<Longrightarrow> derives LvAdd b v \<Longrightarrow>
    derives LvCmp (BinaryOp OpNotLike a b) (u @ TkKeyword ''Not'' # TkKeyword ''Like'' # v)"
| is_null: "derives LvAdd a u \<Longrightarrow> derives LvCmp (IsNull a) (u @ [TkKeyword ''Is'', TkKeyword ''Null''])"
| is_not_null: "derives LvAdd a u \<Longrightarrow>
    derives LvCmp (IsNotNull a) (u @ [TkKeyword ''Is'', TkKeyword ''Not'', TkKeyword ''Null''])"
| in_list: "derives LvAdd a u \<Longrightarrow> list_all2 (derives LvOr) es ws \<Longrightarrow> ws \<noteq> [] \<Longrightarrow>
    derives LvCmp (InList a es) (u @ TkKeyword ''In'' # TkLParen # commas ws @ [TkRParen])"
| between: "derives LvAdd a u \<Longrightarrow> derives LvAdd b v \<Longrightarrow> derives LvAdd c w \<Longrightarrow>
    derives LvCmp (Between a b c) (u @ TkKeyword ''Between'' # v @ TkKeyword ''And'' # w)"
| additive: "derives LvAdd a u \<Longrightarrow> derives LvMul b v \<Longrightarrow> add_op t = Some op \<Longrightarrow>
    derives LvAdd (BinaryOp op a b) (u @ t # v)"
| mul: "derives LvMul a u \<Longrightarrow> derives LvDist b v \<Longrightarrow> mul_op t = Some op \<Longrightarrow>
    derives LvMul (BinaryOp op a b) (u @ t # v)"
| distance: "derives LvUnary a u \<Longrightarrow> derives LvUnary b v \<Longrightarrow>
    derives LvDist (BinaryOp OpArrow a b) (u @ TkVectorDist # v)"
| neg: "derives LvPrimary e w \<Longrightarrow> derives LvUnary (UnaryOp UNeg e) (TkMinus # w)"
| lit: "literal_of t = Some e \<Longrightarrow> derives LvPrimary e [t]"
| ident: "name_token t x \<Longrightarrow> derives LvPrimary (Ident x) [t]"
| field: "name_token t x \<Longrightarrow> name_token t' f \<Longrightarrow> derives LvPrimary (Qualified x f) [t, TkDot, t']"
| all_fields: "name_token t x \<Longrightarrow> derives LvPrimary (Qualified x (text_of ''*'')) [t, TkDot, TkStar]"
| call: "name_token t x \<Longrightarrow> list_all2 (derives LvOr) es ws \<Longrightarrow>
    derives LvPrimary (FunctionCall x es) (t # TkLParen # commas ws @ [TkRParen])"
| paren: "derives LvOr e w \<Longrightarrow> derives LvPrimary e (TkLParen # w @ [TkRParen])"
| array: "list_all2 (derives LvOr) es ws \<Longrightarrow>
    derives LvPrimary (Array es) (TkLBracket # commas ws @ [TkRBracket])"
| case_of: "operand = None \<and> ow = [] \<or> (\<exists>e. operand = Some e \<and> derives LvOr e ow) \<Longrightarrow>
    list_all2 (\<lambda>p q. derives LvOr (fst p) (fst q) \<and> derives LvOr (snd p) (snd q)) cs ws \<Longrightarrow>
    ws \<noteq> [] \<Longrightarrow>
    dflt = None \<and> dw = [] \<or> (\<exists>e v. dflt = Some e \<and> dw = TkKeyword ''Else'' # v \<and> derives LvOr e v) \<Longrightarrow>
    derives LvPrimary (Case operand cs dflt)
      (TkKeyword ''Case'' # ow @ whens ws @ dw @ [TkKeyword ''End''])"

subsection \<open>Which tokens start an expression, and which stop one\<close>

definition starter :: "token \<Rightarrow> bool" where
  "starter t \<longleftrightarrow> t \<notin> {TkKeyword ''Select'', TkKeyword ''When'', TkKeyword ''Else'', TkKeyword ''End'',
     TkRParen, TkRBracket, TkColon, TkEof}"

fun may_start :: "level \<Rightarrow> token \<Rightarrow> bool" where
  "may_start LvPrimary t \<longleftrightarrow> t \<noteq> TkMinus \<and> t \<noteq> TkKeyword ''Not''"
| "may_start LvOr t \<longleftrightarrow> True"
| "may_start LvAnd t \<longleftrightarrow> True"
| "may_start LvNot t \<longleftrightarrow> True"
| "may_start _ t \<longleftrightarrow> t \<noteq> TkKeyword ''Not''"

lemma may_start_tighter: "may_start (tighter k) t \<Longrightarrow> may_start k t"
  by (cases k) auto

lemma name_token_starter: "name_token t x \<Longrightarrow> starter t"
  by (auto simp: name_token_def keyword_as_ident_def starter_def ident_keywords_def
      split: token.splits if_splits)

lemma name_token_not:
  "name_token t x \<Longrightarrow> t \<noteq> TkMinus \<and> t \<noteq> TkKeyword ''Not'' \<and> t \<noteq> TkColon"
  by (auto simp: name_token_def keyword_as_ident_def ident_keywords_def split: token.splits if_splits)

lemma may_start_other: "t \<noteq> TkMinus \<Longrightarrow> t \<noteq> TkKeyword ''Not'' \<Longrightarrow> may_start k t"
  by (cases k) simp_all

lemma name_token_start:
  "name_token t x \<Longrightarrow> starter t \<and> may_start k t \<and> t \<noteq> TkColon"
  by (simp add: name_token_starter name_token_not may_start_other)

lemma literal_start: "literal_of t = Some e \<Longrightarrow> starter t \<and> may_start k t"
  by (cases k) (auto simp: literal_of_def starter_def split: token.splits if_splits)

lemma no_name:
  "\<not> name_token TkMinus x" "\<not> name_token (TkKeyword ''Not'') x"
  "literal_of TkMinus = None" "literal_of (TkKeyword ''Not'') = None"
  by (auto simp: name_token_def keyword_as_ident_def ident_keywords_def literal_of_def)

lemma derives_start:
  "derives k e w \<Longrightarrow> \<exists>t v. w = t # v \<and> starter t \<and> may_start k t"
proof (induction rule: derives.induct)
  case (lift k e w)
  then show ?case using may_start_tighter by blast
qed (auto simp: starter_def no_name dest: name_token_start literal_start)

definition plain :: "token list \<Rightarrow> bool" where
  "plain w \<longleftrightarrow> TkColon \<notin> set w \<and> TkEof \<notin> set w"

lemma plain_simps [simp]:
  "plain []" "plain (t # w) \<longleftrightarrow> t \<noteq> TkColon \<and> t \<noteq> TkEof \<and> plain w"
  "plain (u @ v) \<longleftrightarrow> plain u \<and> plain v"
  by (auto simp: plain_def)

lemma plain_commas: "list_all2 (\<lambda>e w. derives k e w \<and> plain w) es ws \<Longrightarrow> plain (commas ws)"
proof -
  assume "list_all2 (\<lambda>e w. derives k e w \<and> plain w) es ws"
  then have "\<forall>w\<in>set ws. plain w" by (induction rule: list_all2_induct) auto
  then show ?thesis by (cases ws) (auto simp: plain_def)
qed

lemma plain_ops:
  "or_op t = Some op \<Longrightarrow> t \<noteq> TkColon \<and> t \<noteq> TkEof" "and_op t = Some op \<Longrightarrow> t \<noteq> TkColon \<and> t \<noteq> TkEof"
  "add_op t = Some op \<Longrightarrow> t \<noteq> TkColon \<and> t \<noteq> TkEof" "mul_op t = Some op \<Longrightarrow> t \<noteq> TkColon \<and> t \<noteq> TkEof"
  "cmp_op t = Some op \<Longrightarrow> t \<noteq> TkColon \<and> t \<noteq> TkEof" "literal_of t = Some e \<Longrightarrow> t \<noteq> TkColon \<and> t \<noteq> TkEof"
  "name_token t x \<Longrightarrow> t \<noteq> TkColon \<and> t \<noteq> TkEof"
  by (auto simp: or_op_def and_op_def add_op_def mul_op_def cmp_op_def literal_of_def name_token_def
      keyword_as_ident_def)

lemma plain_whens:
  "list_all2 (\<lambda>p q. (derives k (fst p) (fst q) \<and> plain (fst q)) \<and> derives k (snd p) (snd q) \<and> plain (snd q)) cs ws \<Longrightarrow>
     plain (whens ws)"
  by (induction rule: list_all2_induct) (auto simp: whens_def)

lemma derives_plain: "derives k e w \<Longrightarrow> plain w"
proof (induction rule: derives.induct)
  case (case_of operand ow cs ws dflt dw)
  then show ?case using plain_whens [OF case_of(2)] by auto
qed (auto dest: plain_ops plain_commas)

definition stop_primary :: "token \<Rightarrow> bool" where
  [simp]: "stop_primary t \<longleftrightarrow> t \<noteq> TkLParen \<and> t \<noteq> TkDot"

definition stop_dist :: "token \<Rightarrow> bool" where
  [simp]: "stop_dist t \<longleftrightarrow> stop_primary t \<and> t \<noteq> TkVectorDist"

definition stop_mul :: "token \<Rightarrow> bool" where
  [simp]: "stop_mul t \<longleftrightarrow> stop_dist t \<and> mul_op t = None"

definition stop_add :: "token \<Rightarrow> bool" where
  [simp]: "stop_add t \<longleftrightarrow> stop_mul t \<and> add_op t = None"

definition stop_cmp :: "token \<Rightarrow> bool" where
  [simp]: "stop_cmp t \<longleftrightarrow> stop_add t \<and> cmp_op t = None \<and>
     t \<notin> TkKeyword ` {''Not'', ''Is'', ''In'', ''Between''}"

definition stop_and :: "token \<Rightarrow> bool" where
  [simp]: "stop_and t \<longleftrightarrow> stop_cmp t \<and> and_op t = None"

primrec stop :: "level \<Rightarrow> token \<Rightarrow> bool" where
  "stop LvPrimary t \<longleftrightarrow> stop_primary t"
| "stop LvUnary t \<longleftrightarrow> stop_primary t"
| "stop LvDist t \<longleftrightarrow> stop_dist t"
| "stop LvMul t \<longleftrightarrow> stop_mul t"
| "stop LvAdd t \<longleftrightarrow> stop_add t"
| "stop LvCmp t \<longleftrightarrow> stop_cmp t"
| "stop LvNot t \<longleftrightarrow> stop_cmp t"
| "stop LvAnd t \<longleftrightarrow> stop_and t"
| "stop LvOr t \<longleftrightarrow> stop_and t \<and> or_op t = None"

lemma stop_tighter: "stop k t \<Longrightarrow> stop (tighter k) t"
  by (cases k) auto

lemma stop_ops:
  "or_op t = Some op \<Longrightarrow> stop LvAnd t" "and_op t = Some op \<Longrightarrow> stop LvNot t"
  "add_op t = Some op \<Longrightarrow> stop LvMul t" "mul_op t = Some op \<Longrightarrow> stop LvDist t"
  "cmp_op t = Some op \<Longrightarrow> stop LvAdd t"
  by (auto simp: or_op_def and_op_def add_op_def mul_op_def cmp_op_def split: token.splits if_splits)

lemma stop_fixed:
  "stop k TkComma" "stop k TkRParen" "stop k TkRBracket" "stop k (TkKeyword ''When'')"
  "stop k (TkKeyword ''Then'')" "stop k (TkKeyword ''Else'')" "stop k (TkKeyword ''End'')"
  by (cases k; simp add: or_op_def and_op_def add_op_def mul_op_def cmp_op_def)+

end
