(* ===== verification/Parser_Reads.thy ===== *)
theory Parser_Reads
  imports Parser_Grammar
begin

text \<open>
  The parser reads every word of the expression grammar as its tree: an induction on derivations, in
  which a level with a left-associative operator is described by the state of its loop.
\<close>

subsection \<open>Running a parser on known tokens\<close>

named_theorems run

lemma run_peek [run]: "peek (x # ts) = Parsed (fst x) (x # ts)"
  by (simp add: peek_def split: prod.splits)

lemma run_next [run]: "ts \<noteq> [] \<Longrightarrow> next_tok (x # ts) = Parsed (fst x) ts"
  by (cases x) (simp add: next_tok_def)

lemma run_bind [run]: "p ts = Parsed x ts' \<Longrightarrow> bindp p f ts = f x ts'"
  by (simp add: bindp_def)

lemma run_then [run]: "p ts = Parsed x ts' \<Longrightarrow> thenp p q ts = q ts'"
  by (simp add: thenp_def bindp_def)

lemma run_map [run]: "p ts = Parsed x ts' \<Longrightarrow> mapp f p ts = Parsed (f x) ts'"
  by (simp add: mapp_def bindp_def ret_def)

lemma run_ret [run]: "ret x (y # ts) = Parsed x (y # ts)"
  by (simp add: ret_def)

lemma run_branch [run]:
  "P (fst x) \<Longrightarrow> branch P p q (x # ts) = p (x # ts)"
  "\<not> P (fst x) \<Longrightarrow> branch P p q (x # ts) = q (x # ts)"
  by (simp_all add: branch_def run)

lemma run_took [run]:
  "P (fst x) \<Longrightarrow> ts \<noteq> [] \<Longrightarrow> took P p q (x # ts) = p ts"
  "\<not> P (fst x) \<Longrightarrow> took P p q (x # ts) = q (x # ts)"
  by (simp_all add: took_def run)

lemma run_expect [run]: "fst x = tok \<Longrightarrow> ts \<noteq> [] \<Longrightarrow> expect tok (x # ts) = Parsed () ts"
  by (cases ts) (simp_all add: expect_def run)

text \<open>\<open>reads F p x w\<close>: on the tokens \<open>w\<close> and a rest whose first satisfies \<open>F\<close>, \<open>p\<close> returns \<open>x\<close> and the rest.\<close>

definition reads :: "(token \<Rightarrow> bool) \<Rightarrow> 'a parser \<Rightarrow> 'a \<Rightarrow> token list \<Rightarrow> bool" where
  "reads F p x w \<longleftrightarrow>
     (\<forall>us rest. map fst us = w \<longrightarrow> rest \<noteq> [] \<longrightarrow> F (fst (hd rest)) \<longrightarrow> p (us @ rest) = Parsed x rest)"

lemma readsD:
  "reads F p x w \<Longrightarrow> map fst us = w \<Longrightarrow> rest \<noteq> [] \<Longrightarrow> F (fst (hd rest)) \<Longrightarrow> p (us @ rest) = Parsed x rest"
  by (simp add: reads_def)

lemma readsI:
  "(\<And>us r rest. map fst us = w \<Longrightarrow> F (fst r) \<Longrightarrow> p (us @ r # rest) = Parsed x (r # rest)) \<Longrightarrow> reads F p x w"
  unfolding reads_def by (metis list.exhaust_sel)

lemma reads_weaken: "reads F p x w \<Longrightarrow> (\<And>t. G t \<Longrightarrow> F t) \<Longrightarrow> reads G p x w"
  by (simp add: reads_def)

subsection \<open>Levels with a left-associative operator\<close>

abbreviation op_body :: "(token \<Rightarrow> binary_op option) \<Rightarrow> expr parser \<Rightarrow> expr \<Rightarrow> expr option parser" where
  "op_body ops p left \<equiv> bindp peek (\<lambda>t.
     case ops t of
       None \<Rightarrow> leave
     | Some op \<Rightarrow> thenp next_tok (again (mapp (BinaryOp op left) p)))"

text \<open>The loop of the level has read \<open>e\<close> from \<open>w\<close>, with rounds to spare.\<close>

definition loops :: "(token \<Rightarrow> binary_op option) \<Rightarrow> expr parser \<Rightarrow> (token \<Rightarrow> bool) \<Rightarrow> expr \<Rightarrow> token list \<Rightarrow> bool" where
  "loops ops p F e w \<longleftrightarrow>
     (\<forall>us rest. map fst us = w \<longrightarrow> rest \<noteq> [] \<longrightarrow> F (fst (hd rest)) \<longrightarrow>
        (\<exists>m > length rest. left_assoc ops p (us @ rest) = ploop m (op_body ops p) e rest))"

lemma loops_first: "reads F p e w \<Longrightarrow> loops ops p F e w"
  unfolding loops_def
proof (intro allI impI exI conjI)
  fix us rest :: tokens
  assume "reads F p e w" "map fst us = w" "rest \<noteq> []" "F (fst (hd rest))"
  then show "left_assoc ops p (us @ rest) = ploop (Suc (length rest)) (op_body ops p) e rest"
    by (simp add: left_assoc_def run readsD loop_def del: ploop.simps)
qed simp

lemma loops_step:
  assumes a: "loops ops p F a u" and b: "reads F p b v" and t: "ops t = Some op" "F t"
  shows "loops ops p F (BinaryOp op a b) (u @ t # v)"
  unfolding loops_def
proof (intro allI impI)
  fix us rest :: tokens
  assume w: "map fst us = u @ t # v" and r: "rest \<noteq> []" "F (fst (hd rest))"
  then obtain us1 x us2 where us: "us = us1 @ x # us2" "map fst us1 = u" "fst x = t" "map fst us2 = v"
    by (auto simp: map_eq_append_conv map_eq_Cons_conv)
  obtain m where m: "m > length (x # us2 @ rest)"
    "left_assoc ops p (us1 @ x # us2 @ rest) = ploop m (op_body ops p) a (x # us2 @ rest)"
    using a us t(2) unfolding loops_def by (metis list.distinct(1) list.sel(1))
  obtain m' where m': "m = Suc m'" using m(1) by (cases m) auto
  have "op_body ops p a (x # us2 @ rest) = Parsed (Some (BinaryOp op a b)) rest"
    using readsD [OF b us(4) r] r(1) by (cases rest) (simp_all add: run us(3) t(1))
  then have "ploop m (op_body ops p) a (x # us2 @ rest) = ploop m' (op_body ops p) (BinaryOp op a b) rest"
    by (simp add: m' run)
  then show "\<exists>m > length rest. left_assoc ops p (us @ rest) = ploop m (op_body ops p) (BinaryOp op a b) rest"
    using m m' us(1) by (intro exI [of _ m']) simp
qed

lemma loops_reads:
  assumes l: "loops ops p F e w"
  shows "reads (\<lambda>t. F t \<and> ops t = None) (left_assoc ops p) e w"
proof (rule readsI)
  fix us rest :: tokens and r :: "token \<times> span"
  assume "map fst us = w" "F (fst r) \<and> ops (fst r) = None"
  then obtain m where "m > length (r # rest)"
    "left_assoc ops p (us @ r # rest) = ploop m (op_body ops p) e (r # rest)"
    using l unfolding loops_def by (metis list.distinct(1) list.sel(1))
  then show "left_assoc ops p (us @ r # rest) = Parsed e (r # rest)"
    using \<open>F (fst r) \<and> ops (fst r) = None\<close> by (cases m) (simp_all add: run)
qed

subsection \<open>Lists and the arms of CASE\<close>

text \<open>A loop over commas whose body reads one element.\<close>

lemma comma_loop:
  fixes us :: tokens and r :: "token \<times> span"
  assumes "list_all2 (\<lambda>e w. \<forall>xs. reads (\<lambda>t. t = TkComma \<or> t = close) (B xs) (Some (xs @ [e])) w) es ws"
    and "close \<noteq> TkComma"
  shows "map fst us = concat (map ((#) TkComma) ws) \<Longrightarrow> fst r = close \<Longrightarrow> length us < m \<Longrightarrow>
     ploop m (\<lambda>xs. took (\<lambda>t. t = TkComma) (B xs) leave) acc (us @ r # rest) = Parsed (acc @ es) (r # rest)"
  using assms(1)
proof (induction es ws arbitrary: us m acc rule: list_all2_induct)
  case Nil
  then obtain m' where "m = Suc m'" by (cases m) auto
  then show ?case using Nil assms(2) by (simp add: run)
next
  case (Cons e es w ws)
  obtain c us1 us2 where us: "us = c # us1 @ us2" "fst c = TkComma" "map fst us1 = w"
    "map fst us2 = concat (map ((#) TkComma) ws)"
    using Cons.prems(1) by (auto simp: map_eq_append_conv map_eq_Cons_conv)
  obtain m' where m: "m = Suc m'" using Cons.prems(3) by (cases m) auto
  have "fst (hd (us2 @ r # rest)) = TkComma \<or> fst (hd (us2 @ r # rest)) = close"
    using us(4) Cons.prems(2) by (cases ws; cases us2) auto
  then have "B acc (us1 @ us2 @ r # rest) = Parsed (Some (acc @ [e])) (us2 @ r # rest)"
    using Cons.hyps(1) us(3) by (auto intro: readsD)
  moreover have "ploop m' (\<lambda>xs. took (\<lambda>t. t = TkComma) (B xs) leave) (acc @ [e]) (us2 @ r # rest) =
      Parsed ((acc @ [e]) @ es) (r # rest)"
    using Cons.IH [OF us(4) Cons.prems(2), of m' "acc @ [e]"] Cons.prems(3) m us(1) by simp
  ultimately show ?case using us by (simp add: m run)
qed

lemma fits:
  "list_all2 (\<lambda>e w. derives LvOr e w \<and> P e w) es ws \<Longrightarrow> list_all2 P es ws"
  by (auto elim: list_all2_mono)

text \<open>The elements of a non-empty list; \<open>pe\<close> reads each, and what follows it is a comma or \<open>close\<close>.\<close>

lemma separated_reads:
  assumes es: "list_all2 (reads (stop LvOr) pe) es ws" and ne: "ws \<noteq> []"
    and close: "close \<noteq> TkComma" "stop LvOr close"
  shows "reads (\<lambda>t. t = close) (separated TkComma pe) es (commas ws)"
proof (rule readsI)
  fix us rest :: tokens and r :: "token \<times> span"
  assume w: "map fst us = commas ws" and r: "fst r = close"
  obtain e es' v ws' where c: "es = e # es'" "ws = v # ws'" using es ne by (cases es; cases ws) auto
  obtain us1 us2 where us: "us = us1 @ us2" "map fst us1 = v" "map fst us2 = concat (map ((#) TkComma) ws')"
    using w c by (auto simp: map_eq_append_conv)
  have "stop LvOr (fst (hd (us2 @ r # rest)))"
    using us(3) r close(2) stop_fixed(1) by (cases ws'; cases us2) auto
  then have 1: "pe (us1 @ us2 @ r # rest) = Parsed e (us2 @ r # rest)"
    using es c us(2) by (auto intro: readsD)
  have "list_all2 (\<lambda>e w. \<forall>xs. reads (\<lambda>t. t = TkComma \<or> t = close) (again (mapp (\<lambda>x. xs @ [x]) pe))
      (Some (xs @ [e])) w) es' ws'"
    using es c close(2) stop_fixed(1)
    by (auto elim!: list_all2_mono intro!: readsI simp: run readsD)
  from comma_loop [OF this close(1) us(3) r, of "Suc (length (us2 @ r # rest))" "[e]" rest]
  have "more_items TkComma pe [e] (us2 @ r # rest) = Parsed (e # es') (r # rest)"
    by (simp add: more_items_def loop_def del: ploop.simps)
  then show "separated TkComma pe (us @ r # rest) = Parsed es (r # rest)"
    using 1 c us(1) by (simp add: separated_def run)
qed

lemma in_list_reads:
  assumes es: "list_all2 (reads (stop LvOr) pe) es ws" and ne: "ws \<noteq> []"
  shows "reads (\<lambda>_. True) (parse_in_list pe) es (TkLParen # commas ws @ [TkRParen])"
proof (rule readsI)
  fix us rest :: tokens and r :: "token \<times> span"
  assume "map fst us = TkLParen # commas ws @ [TkRParen]"
  then obtain x us1 y where us: "us = x # us1 @ [y]" "fst x = TkLParen" "map fst us1 = commas ws" "fst y = TkRParen"
    by (auto simp: map_eq_append_conv map_eq_Cons_conv)
  have "separated TkComma pe (us1 @ y # r # rest) = Parsed es (y # r # rest)"
    by (rule readsD [OF separated_reads [OF es ne, of TkRParen] us(3)]) (simp_all add: us(4) stop_fixed)
  then show "parse_in_list pe (us @ r # rest) = Parsed es (r # rest)"
    by (simp add: us parse_in_list_def run)
qed

subsection \<open>The parsers of the levels\<close>

fun lv :: "level \<Rightarrow> nat \<Rightarrow> expr parser" where
  "lv LvPrimary n = parse_primary_expr (Suc n)"
| "lv LvUnary n = parse_unary_expr (parse_primary_expr (Suc n))"
| "lv LvDist n = parse_vector_dist_expr (parse_primary_expr (Suc n))"
| "lv LvMul n = parse_multiplicative_expr (parse_primary_expr (Suc n))"
| "lv LvAdd n = parse_additive_expr (parse_primary_expr (Suc n))"
| "lv LvCmp n = parse_comparison_expr (parse_expr n) (parse_primary_expr (Suc n))"
| "lv LvNot n = parse_not_expr (parse_expr n) (parse_primary_expr (Suc n))"
| "lv LvAnd n = parse_and_expr (parse_expr n) (parse_primary_expr (Suc n))"
| "lv LvOr n = parse_or_expr (parse_expr n) (parse_primary_expr (Suc n))"

lemma lv_assoc:
  "lv LvOr n = left_assoc or_op (lv LvAnd n)" "lv LvAnd n = left_assoc and_op (lv LvNot n)"
  "lv LvAdd n = left_assoc add_op (lv LvMul n)" "lv LvMul n = left_assoc mul_op (lv LvDist n)"
  by (simp_all add: parse_or_expr_def parse_and_expr_def parse_additive_expr_def parse_multiplicative_expr_def)

lemma lv_expr: "lv LvOr n = parse_expr (Suc n)"
  by (simp add: knot_Suc)

text \<open>What the induction shows of a derivation, at a depth \<open>n\<close>.\<close>

fun read_by :: "level \<Rightarrow> nat \<Rightarrow> expr \<Rightarrow> token list \<Rightarrow> bool" where
  "read_by LvOr n e w = loops or_op (lv LvAnd n) (stop LvAnd) e w"
| "read_by LvAnd n e w = loops and_op (lv LvNot n) (stop LvNot) e w"
| "read_by LvNot n e w = (\<forall>m > length w. reads (stop LvNot) (not_loop m (lv LvCmp n)) e w)"
| "read_by LvAdd n e w = loops add_op (lv LvMul n) (stop LvMul) e w"
| "read_by LvMul n e w = loops mul_op (lv LvDist n) (stop LvDist) e w"
| "read_by LvCmp n e w = reads (stop LvCmp) (lv LvCmp n) e w"
| "read_by LvDist n e w = reads (stop LvDist) (lv LvDist n) e w"
| "read_by LvUnary n e w = reads (stop LvUnary) (lv LvUnary n) e w"
| "read_by LvPrimary n e w = reads (stop LvPrimary) (lv LvPrimary n) e w"

lemma not_reads:
  assumes "\<forall>m > length w. reads (stop LvNot) (not_loop m (lv LvCmp n)) e w"
  shows "reads (stop LvNot) (lv LvNot n) e w"
proof (rule readsI)
  fix us rest :: tokens and r :: "token \<times> span"
  assume w: "map fst us = w" and r: "stop LvNot (fst r)"
  have "length w < Suc (length (us @ r # rest))" unfolding w [symmetric] by simp
  then have "reads (stop LvNot) (not_loop (Suc (length (us @ r # rest))) (lv LvCmp n)) e w" using assms by blast
  then have "not_loop (Suc (length (us @ r # rest))) (lv LvCmp n) (us @ r # rest) = Parsed e (r # rest)"
    by (rule readsD) (simp_all only: w list.sel list.distinct r not_False_eq_True)
  then show "lv LvNot n (us @ r # rest) = Parsed e (r # rest)"
    by (simp only: lv.simps parse_not_expr_def)
qed

lemma stop_assoc:
  "stop LvOr = (\<lambda>t. stop LvAnd t \<and> or_op t = None)" "stop LvAnd = (\<lambda>t. stop LvNot t \<and> and_op t = None)"
  "stop LvAdd = (\<lambda>t. stop LvMul t \<and> add_op t = None)" "stop LvMul = (\<lambda>t. stop LvDist t \<and> mul_op t = None)"
  by (auto simp: fun_eq_iff)

lemma stop_eq: "stop LvPrimary = stop_primary" "stop LvUnary = stop_primary"
  by (auto simp: fun_eq_iff)

lemma read_by_reads: "read_by k n e w \<Longrightarrow> reads (stop k) (lv k n) e w"
proof (cases k)
  case LvOr
  assume "read_by k n e w"
  then show ?thesis unfolding LvOr read_by.simps stop_assoc(1) lv_assoc(1) by (rule loops_reads)
next
  case LvAnd
  assume "read_by k n e w"
  then show ?thesis unfolding LvAnd read_by.simps stop_assoc(2) lv_assoc(2) by (rule loops_reads)
next
  case LvNot
  assume "read_by k n e w"
  then show ?thesis using not_reads unfolding LvNot read_by.simps by blast
next
  case LvAdd
  assume "read_by k n e w"
  then show ?thesis unfolding LvAdd read_by.simps stop_assoc(3) lv_assoc(3) by (rule loops_reads)
next
  case LvMul
  assume "read_by k n e w"
  then show ?thesis unfolding LvMul read_by.simps stop_assoc(4) lv_assoc(4) by (rule loops_reads)
qed simp_all

lemma reads_took_no:
  assumes r: "reads F p e w" and w: "w = t # v" "\<not> P t"
  shows "reads F (took P q p) e w"
proof (rule readsI)
  fix us rest :: tokens and r' :: "token \<times> span"
  assume us: "map fst us = w" and f: "F (fst r')"
  then obtain x us' where "us = x # us'" "fst x = t" using w(1) by (auto simp: map_eq_Cons_conv)
  then show "took P q p (us @ r' # rest) = Parsed e (r' # rest)"
    using readsD [OF r us, of "r' # rest"] f w(2) by (simp add: run)
qed

lemma cmp_lift:
  assumes r: "reads (stop LvAdd) (lv LvAdd n) e w"
  shows "reads (stop LvCmp) (lv LvCmp n) e w"
proof (rule readsI)
  fix us rest :: tokens and r' :: "token \<times> span"
  assume us: "map fst us = w" and f: "stop LvCmp (fst r')"
  then have "lv LvAdd n (us @ r' # rest) = Parsed e (r' # rest)"
    using readsD [OF r us, of "r' # rest"] by simp
  then show "lv LvCmp n (us @ r' # rest) = Parsed e (r' # rest)"
    using f by (simp add: parse_comparison_expr_def comparison_tail_def run)
qed

lemma dist_lift:
  assumes r: "reads (stop LvUnary) (lv LvUnary n) e w"
  shows "reads (stop LvDist) (lv LvDist n) e w"
proof (rule readsI)
  fix us rest :: tokens and r' :: "token \<times> span"
  assume us: "map fst us = w" and f: "stop LvDist (fst r')"
  then have "lv LvUnary n (us @ r' # rest) = Parsed e (r' # rest)"
    using readsD [OF r us, of "r' # rest"] by simp
  then show "lv LvDist n (us @ r' # rest) = Parsed e (r' # rest)"
    using f by (simp add: parse_vector_dist_expr_def run)
qed

lemma read_by_lift:
  assumes d: "w = t # v" "may_start (tighter k) t" and q: "read_by (tighter k) n e w"
  shows "read_by k n e w"
proof (cases k)
  case LvNot
  have r: "reads (stop LvNot) (lv LvCmp n) e w"
    using read_by_reads [OF q] by (simp add: LvNot reads_def del: lv.simps)
  have w: "w = t # v" "t \<noteq> TkKeyword ''Not''" using d by (auto simp: LvNot)
  have "reads (stop LvNot) (not_loop m (lv LvCmp n)) e w" if "m > length w" for m
    using that reads_took_no [OF r w(1), of "kw ''Not''"] w(2) by (cases m) (simp_all del: lv.simps stop.simps)
  then show ?thesis by (simp add: LvNot del: lv.simps stop.simps)
next
  case LvUnary
  have w: "w = t # v" "t \<noteq> TkMinus" using d by (auto simp: LvUnary)
  show ?thesis
    using q reads_took_no [OF _ w(1), of "stop_primary" "parse_primary_expr (Suc n)" e "\<lambda>t. t = TkMinus"] w(2)
    by (simp add: LvUnary parse_unary_expr_def stop_eq)
next
  case LvCmp
  then show ?thesis using cmp_lift read_by_reads [OF q] by (simp del: lv.simps stop.simps)
next
  case LvDist
  then show ?thesis using dist_lift read_by_reads [OF q] by (simp del: lv.simps stop.simps)
next
  case LvPrimary
  then show ?thesis using q by simp
qed (use read_by_reads [OF q] in \<open>simp_all add: loops_first del: lv.simps stop.simps\<close>)

subsection \<open>Operators between operands of a level\<close>

text \<open>A comparison: the left operand has been read, \<open>x\<close> is the token behind it.\<close>

lemma cmp_reads:
  assumes a: "reads (stop LvAdd) (lv LvAdd n) a u" and t: "stop LvAdd t"
    and tail: "\<And>x us2 r rest. fst x = t \<Longrightarrow> map fst us2 = v \<Longrightarrow> stop LvCmp (fst r) \<Longrightarrow>
      comparison_tail (parse_expr n) (parse_primary_expr (Suc n)) a (x # us2 @ r # rest) = Parsed e (r # rest)"
  shows "reads (stop LvCmp) (lv LvCmp n) e (u @ t # v)"
proof (rule readsI)
  fix us rest :: tokens and r :: "token \<times> span"
  assume us: "map fst us = u @ t # v" and f: "stop LvCmp (fst r)"
  obtain us1 x us2 where us: "us = us1 @ x # us2" "map fst us1 = u" "fst x = t" "map fst us2 = v"
    using us by (auto simp: map_eq_append_conv map_eq_Cons_conv)
  have "lv LvAdd n (us1 @ x # us2 @ r # rest) = Parsed a (x # us2 @ r # rest)"
    by (rule readsD [OF a us(2)]) (simp_all add: us(3) t del: stop.simps)
  then show "lv LvCmp n (us @ r # rest) = Parsed e (r # rest)"
    using tail [OF us(3,4) f] us(1) by (simp add: parse_comparison_expr_def run)
qed

lemma stop_cmp_add: "stop LvCmp t \<Longrightarrow> stop LvAdd t"
  by simp

lemma cmp_keywords:
  "stop LvAdd (TkKeyword ''Is'')" "stop LvAdd (TkKeyword ''Not'')" "stop LvAdd (TkKeyword ''In'')"
  "stop LvAdd (TkKeyword ''Between'')" "stop LvAdd (TkKeyword ''And'')"
  "cmp_op (TkKeyword ''Is'') = None" "cmp_op (TkKeyword ''Not'') = None" "cmp_op (TkKeyword ''In'') = None"
  "cmp_op (TkKeyword ''Between'') = None"
  by (simp_all add: mul_op_def add_op_def cmp_op_def)

lemma compare_reads:
  assumes a: "reads (stop LvAdd) (lv LvAdd n) a u" and b: "reads (stop LvAdd) (lv LvAdd n) b v"
    and t: "cmp_op t = Some op"
  shows "reads (stop LvCmp) (lv LvCmp n) (BinaryOp op a b) (u @ t # v)"
proof (rule cmp_reads [OF a stop_ops(5) [OF t]])
  fix x r :: "token \<times> span" and us2 rest :: tokens assume x: "fst x = t" and us: "map fst us2 = v" and r: "stop LvCmp (fst r)"
  have "parse_additive_expr (parse_primary_expr (Suc n)) (us2 @ r # rest) = Parsed b (r # rest)"
    using readsD [OF b us, of "r # rest"] stop_cmp_add [OF r] by (simp del: stop.simps)
  then show "comparison_tail (parse_expr n) (parse_primary_expr (Suc n)) a (x # us2 @ r # rest) =
      Parsed (BinaryOp op a b) (r # rest)"
    using x t by (simp add: comparison_tail_def run)
qed

lemma not_like_reads:
  assumes a: "reads (stop LvAdd) (lv LvAdd n) a u" and b: "reads (stop LvAdd) (lv LvAdd n) b v"
  shows "reads (stop LvCmp) (lv LvCmp n) (BinaryOp OpNotLike a b) (u @ TkKeyword ''Not'' # TkKeyword ''Like'' # v)"
proof (rule cmp_reads [OF a cmp_keywords(2)])
  fix x r :: "token \<times> span" and us2 rest :: tokens
  assume x: "fst x = TkKeyword ''Not''" and us2: "map fst us2 = TkKeyword ''Like'' # v" and r: "stop LvCmp (fst r)"
  then obtain y us3 where us: "us2 = y # us3" "fst y = TkKeyword ''Like''" "map fst us3 = v"
    by (auto simp: map_eq_Cons_conv)
  have "parse_additive_expr (parse_primary_expr (Suc n)) (us3 @ r # rest) = Parsed b (r # rest)"
    using readsD [OF b us(3), of "r # rest"] stop_cmp_add [OF r] by (simp del: stop.simps)
  then show "comparison_tail (parse_expr n) (parse_primary_expr (Suc n)) a (x # us2 @ r # rest) =
      Parsed (BinaryOp OpNotLike a b) (r # rest)"
    using x us by (simp add: comparison_tail_def cmp_keywords run)
qed

lemma is_null_reads:
  assumes a: "reads (stop LvAdd) (lv LvAdd n) a u"
  shows "reads (stop LvCmp) (lv LvCmp n) (IsNull a) (u @ [TkKeyword ''Is'', TkKeyword ''Null''])"
    and "reads (stop LvCmp) (lv LvCmp n) (IsNotNull a) (u @ [TkKeyword ''Is'', TkKeyword ''Not'', TkKeyword ''Null''])"
  by (rule cmp_reads [OF a cmp_keywords(1)];
      auto simp: map_eq_Cons_conv comparison_tail_def cmp_keywords run)+

lemma in_reads:
  assumes a: "reads (stop LvAdd) (lv LvAdd n) a u"
    and es: "list_all2 (reads (stop LvOr) (parse_expr n)) es ws" "ws \<noteq> []"
  shows "reads (stop LvCmp) (lv LvCmp n) (InList a es) (u @ TkKeyword ''In'' # TkLParen # commas ws @ [TkRParen])"
proof (rule cmp_reads [OF a cmp_keywords(3)])
  fix x r :: "token \<times> span" and us2 rest :: tokens
  assume x: "fst x = TkKeyword ''In''" and us: "map fst us2 = TkLParen # commas ws @ [TkRParen]"
  have "parse_in_list (parse_expr n) (us2 @ r # rest) = Parsed es (r # rest)"
    by (rule readsD [OF in_list_reads [OF es] us]) simp_all
  then show "comparison_tail (parse_expr n) (parse_primary_expr (Suc n)) a (x # us2 @ r # rest) =
      Parsed (InList a es) (r # rest)"
    using x by (simp add: comparison_tail_def cmp_keywords run)
qed

lemma between_reads:
  assumes a: "reads (stop LvAdd) (lv LvAdd n) a u" and b: "reads (stop LvAdd) (lv LvAdd n) b v"
    and c: "reads (stop LvAdd) (lv LvAdd n) c w"
  shows "reads (stop LvCmp) (lv LvCmp n) (Between a b c) (u @ TkKeyword ''Between'' # v @ TkKeyword ''And'' # w)"
proof (rule cmp_reads [OF a cmp_keywords(4)])
  fix x r :: "token \<times> span" and us2 rest :: tokens
  assume x: "fst x = TkKeyword ''Between''" and us2: "map fst us2 = v @ TkKeyword ''And'' # w"
    and r: "stop LvCmp (fst r)"
  then obtain us3 y us4 where us: "us2 = us3 @ y # us4" "map fst us3 = v" "fst y = TkKeyword ''And''" "map fst us4 = w"
    by (auto simp: map_eq_append_conv map_eq_Cons_conv)
  have 1: "parse_additive_expr (parse_primary_expr (Suc n)) (us3 @ y # us4 @ r # rest) = Parsed b (y # us4 @ r # rest)"
    using readsD [OF b us(2), of "y # us4 @ r # rest"] cmp_keywords(5) by (simp add: us(3) del: stop.simps)
  have 2: "parse_additive_expr (parse_primary_expr (Suc n)) (us4 @ r # rest) = Parsed c (r # rest)"
    using readsD [OF c us(4), of "r # rest"] stop_cmp_add [OF r] by (simp del: stop.simps)
  show "comparison_tail (parse_expr n) (parse_primary_expr (Suc n)) a (x # us2 @ r # rest) =
      Parsed (Between a b c) (r # rest)"
    using x us(1,3) 1 2 by (simp add: comparison_tail_def cmp_keywords run)
qed

lemma dist_reads:
  assumes a: "reads (stop LvUnary) (lv LvUnary n) a u" and b: "reads (stop LvUnary) (lv LvUnary n) b v"
  shows "reads (stop LvDist) (lv LvDist n) (BinaryOp OpArrow a b) (u @ TkVectorDist # v)"
proof (rule readsI)
  fix us rest :: tokens and r :: "token \<times> span"
  assume us: "map fst us = u @ TkVectorDist # v" and f: "stop LvDist (fst r)"
  obtain us1 x us2 where us: "us = us1 @ x # us2" "map fst us1 = u" "fst x = TkVectorDist" "map fst us2 = v"
    using us by (auto simp: map_eq_append_conv map_eq_Cons_conv)
  have "lv LvUnary n (us1 @ x # us2 @ r # rest) = Parsed a (x # us2 @ r # rest)"
    by (rule readsD [OF a us(2)]) (simp_all add: us(3))
  moreover have "lv LvUnary n (us2 @ r # rest) = Parsed b (r # rest)"
    by (rule readsD [OF b us(4)]) (use f in simp_all)
  ultimately show "lv LvDist n (us @ r # rest) = Parsed (BinaryOp OpArrow a b) (r # rest)"
    using us by (simp add: parse_vector_dist_expr_def run)
qed

lemma neg_reads:
  assumes a: "reads (stop LvPrimary) (lv LvPrimary n) e w"
  shows "reads (stop LvUnary) (lv LvUnary n) (UnaryOp UNeg e) (TkMinus # w)"
proof (rule readsI)
  fix us rest :: tokens and r :: "token \<times> span"
  assume us: "map fst us = TkMinus # w" and f: "stop LvUnary (fst r)"
  then obtain x us1 where us: "us = x # us1" "fst x = TkMinus" "map fst us1 = w" by (auto simp: map_eq_Cons_conv)
  have "lv LvPrimary n (us1 @ r # rest) = Parsed e (r # rest)"
    by (rule readsD [OF a us(3)]) (use f in simp_all)
  then show "lv LvUnary n (us @ r # rest) = Parsed (UnaryOp UNeg e) (r # rest)"
    using us by (simp add: parse_unary_expr_def run)
qed

lemma not_read_by:
  assumes a: "read_by LvNot n e w"
  shows "read_by LvNot n (Not e) (TkKeyword ''Not'' # w)"
  unfolding read_by.simps
proof (intro allI impI, rule readsI)
  fix m and us rest :: tokens and r :: "token \<times> span"
  assume m: "m > length (TkKeyword ''Not'' # w)" and us: "map fst us = TkKeyword ''Not'' # w"
    and f: "stop LvNot (fst r)"
  obtain m' where m': "m = Suc m'" "m' > length w" using m by (cases m) auto
  obtain x us1 where us: "us = x # us1" "fst x = TkKeyword ''Not''" "map fst us1 = w"
    using us by (auto simp: map_eq_Cons_conv)
  have "reads (stop LvNot) (not_loop m' (lv LvCmp n)) e w" using a m'(2) by (simp del: lv.simps stop.simps)
  then have "not_loop m' (lv LvCmp n) (us1 @ r # rest) = Parsed e (r # rest)"
    by (rule readsD [OF _ us(3)]) (use f in simp_all)
  then show "not_loop m (lv LvCmp n) (us @ r # rest) = Parsed (Not e) (r # rest)"
    using us m'(1) by (simp add: run del: lv.simps)
qed

subsection \<open>Primary expressions\<close>

lemma literal_run:
  "literal_of (fst x) = Some e \<Longrightarrow> ts \<noteq> [] \<Longrightarrow> parse_primary_body pe pp ps (x # ts) = Parsed e ts"
  by (cases ts) (auto simp: literal_of_def parse_primary_body_def run split: token.splits if_splits)

lemma name_not_special:
  assumes "keyword_as_ident t = Some n"
  shows "t \<notin> TkKeyword ` {''True'', ''False'', ''Null'', ''Exists'', ''Case''}"
  using assms by (auto simp: keyword_as_ident_def ident_keywords_def)

lemma name_run:
  assumes n: "name_token (fst x) n" and ts: "ts \<noteq> []"
  shows "parse_primary_body pe pp ps (x # ts) = parse_name_expr pe pp n ts"
proof -
  have k: "keyword_as_ident (fst x) = Some n" "fst x \<noteq> TkKeyword ''Vector''" "fst x \<noteq> TkKeyword ''Interval''"
    using n by (auto simp: name_token_def)
  consider s where "fst x = TkIdent s" | k where "fst x = TkKeyword k"
    using k(1) by (auto simp: keyword_as_ident_def split: token.splits)
  then show ?thesis
  proof cases
    case 1
    then show ?thesis using k ts by (simp add: parse_primary_body_def run)
  next
    case 2
    then show ?thesis using k ts name_not_special [OF k(1)] by (simp add: parse_primary_body_def run)
  qed
qed

lemma lit_reads: "literal_of t = Some e \<Longrightarrow> reads (stop LvPrimary) (lv LvPrimary n) e [t]"
  by (rule readsI) (auto simp: map_eq_Cons_conv knot_Suc literal_run)

lemma ident_reads: "name_token t x \<Longrightarrow> reads (stop LvPrimary) (lv LvPrimary n) (Ident x) [t]"
  by (rule readsI) (auto simp: map_eq_Cons_conv knot_Suc name_run parse_name_expr_def run)

lemma expect_ident_run:
  "keyword_as_ident (fst x) = Some n \<Longrightarrow> ts \<noteq> [] \<Longrightarrow> expect_ident (x # ts) = Parsed n ts"
  by (cases ts) (auto simp: expect_ident_def keyword_as_ident_def run split: token.splits)

lemma field_reads:
  assumes "name_token t x" and "name_token t' f"
  shows "reads (stop LvPrimary) (lv LvPrimary n) (Qualified x f) [t, TkDot, t']"
proof (rule readsI)
  fix us rest :: tokens and r :: "token \<times> span"
  assume "map fst us = [t, TkDot, t']" and f: "stop LvPrimary (fst r)"
  then obtain a b c where us: "us = [a, b, c]" "fst a = t" "fst b = TkDot" "fst c = t'"
    by (auto simp: map_eq_Cons_conv)
  have "t' \<noteq> TkKeyword ''Vector''" "t' \<noteq> TkStar" "keyword_as_ident t' = Some f"
    using assms(2) by (auto simp: name_token_def keyword_as_ident_def)
  then show "lv LvPrimary n (us @ r # rest) = Parsed (Qualified x f) (r # rest)"
    using us assms(1) f by (simp add: knot_Suc name_run parse_name_expr_def run expect_ident_run)
qed

lemma all_fields_reads:
  "name_token t x \<Longrightarrow> reads (stop LvPrimary) (lv LvPrimary n) (Qualified x (text_of ''*'')) [t, TkDot, TkStar]"
  by (rule readsI) (auto simp: map_eq_Cons_conv knot_Suc name_run parse_name_expr_def run)

lemma paren_reads:
  assumes e: "reads (stop LvOr) (parse_expr n) e w" and w: "w = t # v" "starter t"
  shows "reads (stop LvPrimary) (lv LvPrimary n) e (TkLParen # w @ [TkRParen])"
proof (rule readsI)
  fix us rest :: tokens and r :: "token \<times> span"
  assume "map fst us = TkLParen # w @ [TkRParen]"
  then obtain a us1 b where us: "us = a # us1 @ [b]" "fst a = TkLParen" "map fst us1 = w" "fst b = TkRParen"
    by (auto simp: map_eq_append_conv map_eq_Cons_conv)
  obtain c us2 where c: "us1 = c # us2" "fst c = t" using us(3) w(1) by (auto simp: map_eq_Cons_conv)
  have "parse_expr n (us1 @ b # r # rest) = Parsed e (b # r # rest)"
    by (rule readsD [OF e us(3)]) (use us(4) stop_fixed in \<open>simp_all del: stop.simps\<close>)
  then show "lv LvPrimary n (us @ r # rest) = Parsed e (r # rest)"
    using us c w(2) by (simp add: knot_Suc parse_primary_body_def run starter_def)
qed

text \<open>The elements of a list that may be empty, where a comma before \<open>close\<close> would be accepted.\<close>

definition list_elements :: "expr parser \<Rightarrow> token \<Rightarrow> expr \<Rightarrow> expr list parser" where
  "list_elements q close x = loop (\<lambda>xs.
     took (\<lambda>t. t = TkComma) (branch (\<lambda>t. t = close) leave (again (mapp (\<lambda>x. xs @ [x]) q))) leave) [x]"

lemma elements_read:
  fixes us rest :: tokens and r :: "token \<times> span"
  assumes es: "list_all2 (\<lambda>e w. reads (\<lambda>t. t = TkComma \<or> t = close) pe e w \<and>
        reads (\<lambda>t. t = TkComma \<or> t = close) q e w \<and> (\<exists>t v. w = t # v \<and> t \<noteq> close)) es ws"
    and c: "es = e # es'" "ws = w # ws'" and us: "us = us1 @ us2" "map fst us1 = w"
      "map fst us2 = concat (map ((#) TkComma) ws')"
    and close: "close \<noteq> TkComma" "fst r = close"
  shows "pe (us @ r # rest) = Parsed e (us2 @ r # rest)"
    and "list_elements q close e (us2 @ r # rest) = Parsed es (r # rest)"
proof -
  have "fst (hd (us2 @ r # rest)) = TkComma \<or> fst (hd (us2 @ r # rest)) = close"
    using us(3) close(2) by (cases ws'; cases us2) auto
  then show "pe (us @ r # rest) = Parsed e (us2 @ r # rest)"
    using es c us(1,2) by (auto intro: readsD)
  have body: "reads (\<lambda>t. t = TkComma \<or> t = close)
      (branch (\<lambda>t. t = close) leave (again (mapp (\<lambda>x. xs @ [x]) q))) (Some (xs @ [a])) v"
    if "reads (\<lambda>t. t = TkComma \<or> t = close) q a v" "v = t # v'" "t \<noteq> close" for a v t v' xs
  proof (rule readsI)
    fix vs rest' :: tokens and y :: "token \<times> span"
    assume vs: "map fst vs = v" and y: "fst y = TkComma \<or> fst y = close"
    note w = \<open>v = t # v'\<close>
    obtain z vs' where "vs = z # vs'" "fst z = t" using vs w by (auto simp: map_eq_Cons_conv)
    moreover have "q (vs @ y # rest') = Parsed a (y # rest')" by (rule readsD [OF that(1) vs]) (simp_all add: y)
    ultimately show "branch (\<lambda>t. t = close) leave (again (mapp (\<lambda>x. xs @ [x]) q)) (vs @ y # rest') =
        Parsed (Some (xs @ [a])) (y # rest')"
      using that(3) by (simp add: run)
  qed
  have "list_all2 (\<lambda>e w. \<forall>xs. reads (\<lambda>t. t = TkComma \<or> t = close)
      (branch (\<lambda>t. t = close) leave (again (mapp (\<lambda>x. xs @ [x]) q))) (Some (xs @ [e])) w) es' ws'"
    using es c body by (auto elim!: list_all2_mono)
  from comma_loop [OF this close(1) us(3) close(2), of "Suc (length (us2 @ r # rest))" "[e]" rest]
  show "list_elements q close e (us2 @ r # rest) = Parsed es (r # rest)"
    by (simp add: list_elements_def loop_def c(1) del: ploop.simps)
qed

lemma array_reads:
  assumes es: "list_all2 (\<lambda>e w. reads (stop LvOr) (parse_expr n) e w \<and> (\<exists>t v. w = t # v \<and> starter t)) es ws"
  shows "reads (stop LvPrimary) (lv LvPrimary n) (Array es) (TkLBracket # commas ws @ [TkRBracket])"
proof (rule readsI)
  fix us rest :: tokens and r :: "token \<times> span"
  assume "map fst us = TkLBracket # commas ws @ [TkRBracket]"
  then obtain a us1 b where us: "us = a # us1 @ [b]" "fst a = TkLBracket" "map fst us1 = commas ws" "fst b = TkRBracket"
    by (auto simp: map_eq_append_conv map_eq_Cons_conv)
  have el: "list_all2 (\<lambda>e w. reads (\<lambda>t. t = TkComma \<or> t = TkRBracket) (parse_expr n) e w \<and>
      reads (\<lambda>t. t = TkComma \<or> t = TkRBracket) (parse_expr n) e w \<and> (\<exists>t v. w = t # v \<and> t \<noteq> TkRBracket)) es ws"
    using es stop_fixed(1,3) by (auto elim!: list_all2_mono reads_weaken simp: starter_def simp del: stop.simps)
  have "array_expr (parse_expr n) (us1 @ b # r # rest) = Parsed (Array es) (r # rest)"
  proof (cases ws)
    case Nil
    then show ?thesis using es us by (simp add: array_expr_def run)
  next
    case (Cons w ws')
    then obtain e es' where c: "es = e # es'" using es by (cases es) auto
    obtain v1 v2 where v: "us1 = v1 @ v2" "map fst v1 = w" "map fst v2 = concat (map ((#) TkComma) ws')"
      using us(3) Cons by (auto simp: map_eq_append_conv)
    obtain t w' where "w = t # w'" "t \<noteq> TkRBracket" using el Cons c by auto
    then obtain x v1' where "v1 = x # v1'" "fst x \<noteq> TkRBracket" using v(2) by (auto simp: map_eq_Cons_conv)
    moreover note elements_read [OF el c Cons v, of b "r # rest"]
    ultimately show ?thesis
      using us(4) c v(1) by (simp add: array_expr_def run more_until_def list_elements_def)
  qed
  then show "lv LvPrimary n (us @ r # rest) = Parsed (Array es) (r # rest)"
    using us by (simp add: knot_Suc parse_primary_body_def run)
qed

lemma call_argument_reads:
  assumes r: "reads F pe e w" and w: "plain w" "w = t # v" and F: "\<not> F TkColon"
  shows "reads F (call_argument named pe) e w"
proof (rule readsI)
  fix us rest :: tokens and r' :: "token \<times> span"
  assume us: "map fst us = w" and f: "F (fst r')"
  obtain x us' where x: "us = x # us'" using us w(2) by (auto simp: map_eq_Cons_conv)
  have "peek2 (us @ r' # rest) = Parsed (Some (fst (hd (us' @ r' # rest)))) (us @ r' # rest)"
    by (cases us') (auto simp: peek2_def x split: prod.splits)
  moreover have "fst (hd (us' @ r' # rest)) \<noteq> TkColon"
    using w(1) us x f F by (cases us') (auto simp: plain_def)
  moreover have "pe (us @ r' # rest) = Parsed e (r' # rest)" by (rule readsD [OF r us]) (simp_all add: f)
  ultimately show "call_argument named pe (us @ r' # rest) = Parsed e (r' # rest)"
    by (simp add: call_argument_def run x)
qed

lemma call_reads:
  assumes t: "name_token t x"
    and es: "list_all2 (\<lambda>e w. reads (stop LvOr) (parse_expr n) e w \<and> plain w \<and> (\<exists>t v. w = t # v \<and> starter t)) es ws"
  shows "reads (stop LvPrimary) (lv LvPrimary n) (FunctionCall x es) (t # TkLParen # commas ws @ [TkRParen])"
proof (rule readsI)
  fix us rest :: tokens and r :: "token \<times> span"
  assume "map fst us = t # TkLParen # commas ws @ [TkRParen]"
  then obtain a a' us1 b where us: "us = a # a' # us1 @ [b]" "fst a = t" "fst a' = TkLParen"
    "map fst us1 = commas ws" "fst b = TkRParen"
    by (auto simp: map_eq_append_conv map_eq_Cons_conv)
  let ?F = "\<lambda>t. t = TkComma \<or> t = TkRParen"
  have "list_all2 (\<lambda>e w. reads ?F (parse_expr n) e w \<and> plain w \<and> (\<exists>t v. w = t # v \<and> starter t)) es ws"
    using es stop_fixed(1,2) by (auto elim!: list_all2_mono reads_weaken simp del: stop.simps)
  then have el: "list_all2 (\<lambda>e w. reads ?F (parse_expr n) e w \<and>
      reads ?F (call_argument True (parse_expr n)) e w \<and> (\<exists>t v. w = t # v \<and> t \<noteq> TkRParen)) es ws"
    by (rule list_all2_mono) (auto simp: starter_def intro: call_argument_reads)
  have "call_args True (parse_expr n) (us1 @ b # r # rest) = Parsed es (r # rest)"
  proof (cases ws)
    case Nil
    then show ?thesis using es us by (simp add: call_args_def run)
  next
    case (Cons w ws')
    then obtain e es' where c: "es = e # es'" using es by (cases es) auto
    obtain v1 v2 where v: "us1 = v1 @ v2" "map fst v1 = w" "map fst v2 = concat (map ((#) TkComma) ws')"
      using us(4) Cons by (auto simp: map_eq_append_conv)
    obtain t w' where "w = t # w'" "t \<noteq> TkRParen" using el Cons c by auto
    then obtain x v1' where x: "v1 = x # v1'" "fst x \<noteq> TkRParen" using v(2) by (auto simp: map_eq_Cons_conv)
    note er = elements_read [OF el c Cons v, of b "r # rest"]
    show ?thesis
      using er us(5) c v(1) x by (simp add: call_args_def run list_elements_def)
  qed
  then show "lv LvPrimary n (us @ r # rest) = Parsed (FunctionCall x es) (r # rest)"
    using us t by (simp add: knot_Suc name_run parse_name_expr_def run)
qed

text \<open>The arms of CASE, its operand and its default.\<close>

abbreviation when_body :: "expr parser \<Rightarrow> (expr \<times> expr) list \<Rightarrow> (expr \<times> expr) list option parser" where
  "when_body pe ws \<equiv> took (kw ''When'')
     (bindp pe (\<lambda>cond. thenp (expect (TkKeyword ''Then''))
        (again (mapp (\<lambda>result. ws @ [(cond, result)]) pe)))) leave"

lemma whens_loop:
  fixes us rest :: tokens and r :: "token \<times> span"
  assumes "list_all2 (\<lambda>p q. reads (stop LvOr) pe (fst p) (fst q) \<and> reads (stop LvOr) pe (snd p) (snd q)) cs ws"
    and r: "fst r \<noteq> TkKeyword ''When''" "stop LvOr (fst r)"
  shows "map fst us = whens ws \<Longrightarrow> length us < m \<Longrightarrow>
     ploop m (when_body pe) acc (us @ r # rest) = Parsed (acc @ cs) (r # rest)"
  using assms(1)
proof (induction cs ws arbitrary: us m acc rule: list_all2_induct)
  case Nil
  then obtain m' where "m = Suc m'" by (cases m) auto
  then show ?case using Nil r(1) by (simp add: run whens_def)
next
  case (Cons p cs q ws)
  obtain a us1 b us2 us3 where us: "us = a # us1 @ b # us2 @ us3" "fst a = TkKeyword ''When''"
    "map fst us1 = fst q" "fst b = TkKeyword ''Then''" "map fst us2 = snd q" "map fst us3 = whens ws"
    using Cons.prems(1) by (cases q) (auto simp: whens_def map_eq_append_conv map_eq_Cons_conv append_eq_map_conv Cons_eq_map_conv)
  obtain m' where m: "m = Suc m'" using Cons.prems(2) by (cases m) auto
  have "stop LvOr (fst (hd (us3 @ r # rest)))"
    using us(6) r(2) stop_fixed(4) by (cases ws; cases us3) (auto simp: whens_def simp del: stop.simps)
  then have 2: "pe (us2 @ us3 @ r # rest) = Parsed (snd p) (us3 @ r # rest)"
    using Cons.hyps(1) us(5) by (auto intro: readsD)
  have 1: "pe (us1 @ b # us2 @ us3 @ r # rest) = Parsed (fst p) (b # us2 @ us3 @ r # rest)"
    using Cons.hyps(1) us(3,4) stop_fixed(5) by (auto intro!: readsD simp del: stop.simps)
  have "ploop m' (when_body pe) (acc @ [p]) (us3 @ r # rest) = Parsed ((acc @ [p]) @ cs) (r # rest)"
    using Cons.IH [OF us(6), of m' "acc @ [p]"] Cons.prems(2) m us(1) by simp
  moreover have "when_body pe acc (us @ r # rest) = Parsed (Some (acc @ [p])) (us3 @ r # rest)"
    using us(1,2,4) 1 2 by (simp add: run)
  ultimately show ?case by (simp add: m run)
qed

lemma case_reads:
  fixes pe :: "expr parser"
  assumes op: "operand = None \<and> ow = [] \<or>
      (\<exists>e. operand = Some e \<and> reads (stop LvOr) pe e ow \<and> (\<exists>t v. ow = t # v \<and> starter t))"
    and cs: "list_all2 (\<lambda>p q. reads (stop LvOr) pe (fst p) (fst q) \<and> reads (stop LvOr) pe (snd p) (snd q)) cs ws"
    and df: "dflt = None \<and> dw = [] \<or> (\<exists>e v. dflt = Some e \<and> dw = TkKeyword ''Else'' # v \<and> reads (stop LvOr) pe e v)"
    and nonempty: "ws \<noteq> []"
  shows "reads (\<lambda>_. True) (parse_case_expr pe) (Case operand cs dflt)
    (TkKeyword ''Case'' # ow @ whens ws @ dw @ [TkKeyword ''End''])"
proof (rule readsI)
  fix us rest :: tokens and r :: "token \<times> span"
  assume "map fst us = TkKeyword ''Case'' # ow @ whens ws @ dw @ [TkKeyword ''End'']"
  then obtain a us1 us2 us3 b where us: "us = a # us1 @ us2 @ us3 @ [b]" "fst a = TkKeyword ''Case''"
    "map fst us1 = ow" "map fst us2 = whens ws" "map fst us3 = dw" "fst b = TkKeyword ''End''"
    by (auto simp: map_eq_append_conv map_eq_Cons_conv append_eq_map_conv Cons_eq_map_conv)
  let ?r3 = "us3 @ b # r # rest" and ?r2 = "us2 @ us3 @ b # r # rest"
  have h3: "fst (hd ?r3) \<in> TkKeyword ` {''Else'', ''End''}"
    using df us(5,6) by (cases us3) auto
  have h2: "fst (hd ?r2) \<in> TkKeyword ` {''When'', ''Else'', ''End''}"
    using h3 us(4) by (cases ws; cases us2) (auto simp: whens_def)
  have s2: "stop LvOr (fst (hd ?r2))" using h2 stop_fixed(4,6,7) by (auto simp del: stop.simps)
  have s3: "stop LvOr (fst (hd ?r3))" "fst (hd ?r3) \<noteq> TkKeyword ''When''" using h3 stop_fixed(6,7) by (auto simp del: stop.simps)
  have 1: "branch (kw ''When'') (ret None) (mapp Some pe) (us1 @ ?r2) = Parsed operand ?r2"
    using op
  proof
    assume n: "operand = None \<and> ow = []"
    then obtain x us2' where "us2 = x # us2'" "fst x = TkKeyword ''When''"
      using us(4) nonempty by (cases ws) (auto simp: whens_def map_eq_Cons_conv)
    then show ?thesis using n us(3) by (simp add: run)
  next
    assume "\<exists>e. operand = Some e \<and> reads (stop LvOr) pe e ow \<and> (\<exists>t v. ow = t # v \<and> starter t)"
    then obtain e t v where e: "operand = Some e" "reads (stop LvOr) pe e ow" "ow = t # v" "starter t" by blast
    obtain x us1' where x: "us1 = x # us1'" "fst x = t" using us(3) e(3) by (auto simp: map_eq_Cons_conv)
    have "pe (us1 @ ?r2) = Parsed e ?r2" by (rule readsD [OF e(2) us(3)]) (use s2 in simp_all)
    then show ?thesis using e(1,4) x by (simp add: run starter_def)
  qed
  obtain r3 rest3 where r3: "?r3 = r3 # rest3" by (cases ?r3) auto
  have 2: "loop (when_body pe) [] ?r2 = Parsed cs ?r3"
    using whens_loop [OF cs _ _ us(4), of r3 "Suc (length ?r2)" "[]" rest3] s3 r3
    by (simp add: loop_def del: ploop.simps stop.simps)
  have 3: "optional (TkKeyword ''Else'') pe ?r3 = Parsed dflt (b # r # rest)"
    using df
  proof
    assume "dflt = None \<and> dw = []"
    then have n: "dflt = None" "us3 = []" using us(5) by simp_all
    have e: "eat (TkKeyword ''Else'') (b # r # rest) = Parsed False (b # r # rest)"
      using us(6) by (simp add: eat_def run)
    show ?thesis using n by (simp add: optional_def bindp_def e run)
  next
    assume "\<exists>e v. dflt = Some e \<and> dw = TkKeyword ''Else'' # v \<and> reads (stop LvOr) pe e v"
    then obtain e v where e: "dflt = Some e" "dw = TkKeyword ''Else'' # v" "reads (stop LvOr) pe e v" by blast
    obtain x us3' where x: "us3 = x # us3'" "fst x = TkKeyword ''Else''" "map fst us3' = v"
      using us(5) e(2) by (auto simp: map_eq_Cons_conv)
    have "pe (us3' @ b # r # rest) = Parsed e (b # r # rest)"
      by (rule readsD [OF e(3) x(3)]) (use us(6) stop_fixed(7) in \<open>simp_all del: stop.simps\<close>)
    moreover have "eat (TkKeyword ''Else'') ?r3 = Parsed True (us3' @ b # r # rest)"
      using x by (cases us3') (simp_all add: eat_def run)
    ultimately show ?thesis using e(1) by (simp add: optional_def run)
  qed
  show "parse_case_expr pe (us @ r # rest) = Parsed (Case operand cs dflt) (r # rest)"
    using us(1,2,6) 1 2 3 by (simp add: parse_case_expr_def run)
qed

subsection \<open>The induction\<close>

lemma case_primary:
  "reads (\<lambda>_. True) (parse_case_expr (parse_expr n)) e w \<Longrightarrow> w = TkKeyword ''Case'' # v \<Longrightarrow>
     reads (stop LvPrimary) (lv LvPrimary n) e w"
proof (rule readsI)
  fix us rest :: tokens and r :: "token \<times> span"
  assume a: "reads (\<lambda>_. True) (parse_case_expr (parse_expr n)) e w" and w: "w = TkKeyword ''Case'' # v"
    and us: "map fst us = w"
  obtain x us1 where "us = x # us1" "fst x = TkKeyword ''Case''" using us w by (auto simp: map_eq_Cons_conv)
  then show "lv LvPrimary n (us @ r # rest) = Parsed e (r # rest)"
    using readsD [OF a us, of "r # rest"] by (simp add: knot_Suc parse_primary_body_def run)
qed

text \<open>An expression inside a longer derivation is read at the depth below.\<close>

abbreviation inner :: "expr \<Rightarrow> token list \<Rightarrow> bool" where
  "inner e w \<equiv> derives LvOr e w \<and> (\<forall>n. length w \<le> Suc n \<longrightarrow> read_by LvOr n e w)"

lemma inner_reads: "inner e w \<Longrightarrow> length w \<le> n \<Longrightarrow> reads (stop LvOr) (parse_expr n) e w"
proof -
  assume i: "inner e w" and n: "length w \<le> n"
  obtain t v where "w = t # v" using derives_start i by blast
  then obtain m where m: "n = Suc m" using n by (cases n) auto
  have "read_by LvOr m e w" using i n m by blast
  from read_by_reads [OF this] show ?thesis by (simp only: lv_expr m)
qed

lemma length_commas: "w \<in> set ws \<Longrightarrow> length w \<le> length (commas ws)"
proof (cases ws)
  case (Cons v vs)
  assume "w \<in> set ws"
  then consider "w = v" | "w \<in> set vs" using Cons by auto
  then show ?thesis
  proof cases
    case 2
    then have "length w \<le> length (concat (map ((#) TkComma) vs))" by (induction vs) auto
    then show ?thesis using Cons by simp
  qed (simp add: Cons)
qed simp

lemma inner_list:
  assumes "list_all2 inner es ws" and "length (commas ws) \<le> n"
  shows "list_all2 (\<lambda>e w. reads (stop LvOr) (parse_expr n) e w \<and> plain w \<and> (\<exists>t v. w = t # v \<and> starter t)) es ws"
proof -
  have "reads (stop LvOr) (parse_expr n) e w \<and> plain w \<and> (\<exists>t v. w = t # v \<and> starter t)"
    if "(e, w) \<in> set (zip es ws)" for e w
  proof -
    have i: "inner e w" using assms(1) that by (auto simp: list_all2_iff)
    have "w \<in> set ws" using that by (rule set_zip_rightD)
    then have "length w \<le> n" using length_commas assms(2) le_trans by blast
    then show ?thesis using inner_reads [OF i] derives_plain derives_start i by blast
  qed
  then show ?thesis using assms(1) by (auto simp: list_all2_iff)
qed

lemma length_whens: "(u, v) \<in> set ws \<Longrightarrow> length u \<le> length (whens ws) \<and> length v \<le> length (whens ws)"
  by (induction ws) (auto simp: whens_def)

lemma inner_whens:
  assumes "list_all2 (\<lambda>p q. inner (fst p) (fst q) \<and> inner (snd p) (snd q)) cs ws" and "length (whens ws) \<le> n"
  shows "list_all2 (\<lambda>p q. reads (stop LvOr) (parse_expr n) (fst p) (fst q) \<and>
    reads (stop LvOr) (parse_expr n) (snd p) (snd q)) cs ws"
proof -
  have "reads (stop LvOr) (parse_expr n) (fst p) (fst q) \<and> reads (stop LvOr) (parse_expr n) (snd p) (snd q)"
    if "(p, q) \<in> set (zip cs ws)" for p q
  proof -
    have i: "inner (fst p) (fst q)" "inner (snd p) (snd q)" using assms(1) that by (auto simp: list_all2_iff)
    have "(fst q, snd q) \<in> set ws" using that by (simp add: set_zip_rightD)
    then have "length (fst q) \<le> n" "length (snd q) \<le> n" using length_whens assms(2) le_trans by blast+
    then show ?thesis using inner_reads [OF i(1)] inner_reads [OF i(2)] by blast
  qed
  then show ?thesis using assms(1) by (auto simp: list_all2_iff)
qed

lemma derives_read_by: "derives k e w \<Longrightarrow> length w \<le> Suc n \<Longrightarrow> read_by k n e w"
proof (induction arbitrary: n rule: derives.induct)
  case (lift k e w)
  then show ?case using derives_start [OF lift.hyps] read_by_lift by blast
next
  case (disj a u b v t op)
  then show ?case
    using loops_step [of or_op "lv LvAnd n" "stop LvAnd" a u b v t op] read_by_reads [of LvAnd n b v]
      stop_ops(1) by (simp del: lv.simps stop.simps)
next
  case (conj a u b v t op)
  then show ?case
    using loops_step [of and_op "lv LvNot n" "stop LvNot" a u b v t op] read_by_reads [of LvNot n b v]
      stop_ops(2) by (simp del: lv.simps stop.simps)
next
  case (additive a u b v t op)
  then show ?case
    using loops_step [of add_op "lv LvMul n" "stop LvMul" a u b v t op] read_by_reads [of LvMul n b v]
      stop_ops(3) by (simp del: lv.simps stop.simps)
next
  case (mul a u b v t op)
  then show ?case
    using loops_step [of mul_op "lv LvDist n" "stop LvDist" a u b v t op] read_by_reads [of LvDist n b v]
      stop_ops(4) by (simp del: lv.simps stop.simps)
next
  case (negation e w)
  then show ?case by (intro not_read_by) simp
next
  case (compare a u b v t op)
  then show ?case
    using compare_reads [of n a u b v t op] read_by_reads [of LvAdd n] by (simp del: lv.simps stop.simps)
next
  case (not_like a u b v)
  then show ?case
    using not_like_reads [of n a u b v] read_by_reads [of LvAdd n] by (simp del: lv.simps stop.simps)
next
  case (is_null a u)
  then show ?case
    using is_null_reads(1) [of n a u] read_by_reads [of LvAdd n] by (simp del: lv.simps stop.simps)
next
  case (is_not_null a u)
  then show ?case
    using is_null_reads(2) [of n a u] read_by_reads [of LvAdd n] by (simp del: lv.simps stop.simps)
next
  case (in_list a u es ws)
  have "reads (stop LvAdd) (lv LvAdd n) a u"
    using in_list.IH in_list.prems by (intro read_by_reads) simp
  moreover have "list_all2 (reads (stop LvOr) (parse_expr n)) es ws"
    using inner_list [of es ws n] in_list.hyps(2) in_list.IH in_list.prems
    by (auto elim: list_all2_mono simp del: stop.simps)
  ultimately show ?case using in_reads in_list.hyps by (simp del: lv.simps stop.simps)
next
  case (between a u b v c w)
  then show ?case
    using between_reads [of n a u b v c w] read_by_reads [of LvAdd n] by (simp del: lv.simps stop.simps)
next
  case (distance a u b v)
  then show ?case
    using dist_reads [of n a u b v] by (simp del: lv.simps stop.simps)
next
  case (neg e w)
  then show ?case using neg_reads [of n e w] by (simp del: lv.simps stop.simps)
next
  case (lit t e)
  then show ?case using lit_reads by simp
next
  case (ident t x)
  then show ?case using ident_reads by simp
next
  case (field t x t' f)
  then show ?case using field_reads by simp
next
  case (all_fields t x)
  then show ?case using all_fields_reads by simp
next
  case (call t x es ws)
  then show ?case
    using call_reads [OF call.hyps(1) inner_list [of es ws n]] by (simp del: lv.simps stop.simps)
next
  case (paren e w)
  obtain t v where w: "w = t # v" "starter t" using derives_start [OF paren.hyps] by blast
  have "reads (stop LvOr) (parse_expr n) e w"
    using paren by (intro inner_reads) simp_all
  then show ?case using paren_reads [OF _ w] by (simp del: lv.simps stop.simps)
next
  case (array es ws)
  have "list_all2 (\<lambda>e w. reads (stop LvOr) (parse_expr n) e w \<and> (\<exists>t v. w = t # v \<and> starter t)) es ws"
    using inner_list [of es ws n] array by (auto elim: list_all2_mono simp del: stop.simps)
  from array_reads [OF this] show ?case by simp
next
  case (case_of operand ow cs ws dflt dw)
  have op: "operand = None \<and> ow = [] \<or>
      (\<exists>e. operand = Some e \<and> reads (stop LvOr) (parse_expr n) e ow \<and> (\<exists>t v. ow = t # v \<and> starter t))"
  proof -
    have "inner e ow \<Longrightarrow> reads (stop LvOr) (parse_expr n) e ow \<and> (\<exists>t v. ow = t # v \<and> starter t)" for e
      using inner_reads [of e ow n] derives_start [of LvOr e ow] case_of.prems by auto
    then show ?thesis using case_of(1) by blast
  qed
  have arms: "list_all2 (\<lambda>p q. reads (stop LvOr) (parse_expr n) (fst p) (fst q) \<and>
      reads (stop LvOr) (parse_expr n) (snd p) (snd q)) cs ws"
    using case_of.prems by (intro inner_whens [OF case_of(2)]) simp
  have df: "dflt = None \<and> dw = [] \<or>
      (\<exists>e v. dflt = Some e \<and> dw = TkKeyword ''Else'' # v \<and> reads (stop LvOr) (parse_expr n) e v)"
  proof -
    have "dw = TkKeyword ''Else'' # v \<Longrightarrow> inner e v \<Longrightarrow> reads (stop LvOr) (parse_expr n) e v" for e v
      using inner_reads [of e v n] case_of.prems by simp
    then show ?thesis using case_of.IH(3) by blast
  qed
  show ?case
    using case_primary [OF case_reads [OF op arms df]] case_of.hyps by simp
qed

text \<open>From a comparison up to a whole expression.\<close>

lemma cmp_expr:
  assumes "reads (stop LvCmp) (lv LvCmp n) e w" and w: "w = t # v" "t \<noteq> TkKeyword ''Not''"
  shows "reads (stop LvOr) (parse_expr (Suc n)) e w"
proof -
  have "read_by LvNot n e w"
    by (rule read_by_lift [OF w(1)]) (use assms(1) w(2) in \<open>simp_all del: lv.simps stop.simps\<close>)
  then have "read_by LvAnd n e w" by - (rule read_by_lift [OF w(1)], simp_all del: lv.simps stop.simps read_by.simps)
  then have "read_by LvOr n e w" by - (rule read_by_lift [OF w(1)], simp_all del: lv.simps stop.simps read_by.simps)
  from read_by_reads [OF this] show ?thesis by (simp only: lv_expr)
qed

lemma inner_all: "derives LvOr e w \<Longrightarrow> inner e w"
  by (intro conjI allI impI derives_read_by)

lemma expr_reads: "derives LvOr e w \<Longrightarrow> length w \<le> n \<Longrightarrow> reads (stop LvOr) (parse_expr n) e w"
  by (rule inner_reads [OF inner_all])

end
