(* ===== verification/Lexer_Properties.thy ===== *)
theory Lexer_Properties
  imports Lexer_Facts
begin

text \<open>
  The properties of the FunQL lexer: the shape of its output on every input it accepts, the reading
  of string literals, and the inputs on which it panics.
\<close>

definition sample_unicode :: unicode where
  "sample_unicode = \<lparr>alphabetic = (\<lambda>c. 0xC0 \<le> c \<and> c < 0x250), numeric = (\<lambda>_. False), parse_f64 = (\<lambda>_. None)\<rparr>"

text \<open>
  The lexer is total on ASCII and its output is well formed. It returns for every input. An ASCII
  input yields an error with a position or tokens, never a panic; the tokens of any accepted input
  end with the only Eof and contain no newline, every other token covers at least one byte, the
  lengths together do not exceed the input, and the whole input has been read.
\<close>

theorem tokenize_total:
  shows "case tokenize U (lexer_new input) of
           Inl f \<Rightarrow> ascii input \<longrightarrow> f \<noteq> LexPanic
         | Inr (ts, l) \<Rightarrow>
             eof_ended ts \<and> TkNewline \<notin> fst ` set ts \<and>
             (\<forall>p\<in>set (butlast ts). 0 < sp_len (snd p)) \<and>
             sum_list (map (sp_len \<circ> snd) ts) \<le> byte_len input \<and>
             lx_rest l = [] \<and> lx_pos l = byte_len input"
proof (cases "tokenize U (lexer_new input)")
  case (Inl f)
  then show ?thesis using tokenize_no_panic [of "lexer_new input" U] by (auto simp: lexer_new_def)
next
  case (Inr p)
  then obtain ts l where r: "tokenize U (lexer_new input) = Inr (ts, l)" by (cases p) auto
  show ?thesis
    using tokenize_shape [OF r] unfolding r by (auto simp: ahead_def lexer_new_def)
qed

theorem tokenize_total_witness:
  "case tokenize sample_unicode (lexer_new (text_of ''a<->1 --x'')) of
     Inl f \<Rightarrow> f \<noteq> LexPanic
   | Inr (ts, l) \<Rightarrow> eof_ended ts \<and> lx_pos l = 9"
proof -
  have "ascii (text_of ''a<->1 --x'')" by (simp add: ascii_def text_of_def)
  moreover have "byte_len (text_of ''a<->1 --x'') = 9" by (simp add: text_of_def len_utf8_def)
  ultimately show ?thesis
    using tokenize_total [of "text_of ''a<->1 --x''" sample_unicode] by (auto split: sum.splits simp del: byte_len_simps)
qed

text \<open>
  The lexer panics on text outside ASCII. When a token starts with a character of three or four
  bytes, or with an ASCII character directly before a character outside ASCII, the two-byte slice of
  the comment check ends inside a character and panics, although words and string literals accept
  such characters.
\<close>

theorem lexer_panics_on_multibyte:
  assumes "lx_rest l = ws @ c # cs" and "\<forall>w\<in>set ws. whitespace w" and "\<not> whitespace c"
    and "0x800 \<le> c \<or> c < 0x80 \<and> cs \<noteq> [] \<and> 0x80 \<le> hd cs"
  shows "tokenize U l = Inl LexPanic"
proof -
  have r: "lx_rest (skip_while whitespace l) = c # cs" by (rule skip_while_all [OF assms(1-3)])
  have "2 \<le> byte_len (c # cs)" "slice2 (c # cs) = None"
    using assms(4) len_utf8_pos [of "hd cs"] by (cases cs; auto simp: len_utf8_def slice2_def)+
  then have "skip_whitespace_and_comments l = Inl LexPanic"
    using r by (subst skip_whitespace_and_comments.simps) (simp add: Let_def)
  then show ?thesis by (subst tokenize.simps) simp
qed

text \<open>A quoted e with an acute accent, after a blank.\<close>

theorem lexer_panics_on_multibyte_witness:
  "tokenize sample_unicode (lexer_new [32, 39, 0xE9, 39]) = Inl LexPanic \<and> is_alphabetic sample_unicode 0xE9"
  using lexer_panics_on_multibyte [of "lexer_new [32, 39, 0xE9, 39]" "[32]" 39 "[0xE9, 39]" sample_unicode]
  by (simp add: lexer_new_def whitespace_def is_alphabetic_def sample_unicode_def)

text \<open>
  C25: String literals read back. A text written between quotes with its quotes doubled is read as one
  string literal of exactly that text, wherever it starts, and lexing continues with what follows the
  literal, if the text is empty or its first character is ASCII, whatever the others are. If the first
  character is not ASCII, the lexer panics.
\<close>

theorem string_literal_roundtrip:
  assumes "lx_rest l = quoted s @ r" and "r = [] \<or> hd r \<noteq> 39"
  shows "if s = [] \<or> hd s < 0x80
         then \<exists>l'. lx_rest l' = r \<and>
           tokenize U l =
             (case tokenize U l' of
                Inl e \<Rightarrow> Inl e
              | Inr (ts, l2) \<Rightarrow> Inr ((TkStringLiteral s, span_from l l') # ts, l2))
         else tokenize U l = Inl LexPanic"
proof (cases "s = [] \<or> hd s < 0x80")
  case True
  let ?q = "concat (map (\<lambda>c. if c = 39 then [39, 39] else [c]) s) @ 39 # r"
  have l: "lx_rest l = 39 # ?q" using assms(1) by (simp add: quoted_def)
  then obtain l1 where l1: "skip1 l = l1" "lx_rest l1 = ?q" using advance_Cons by blast
  obtain l' where l': "string_loop [] l1 = Some (s, l')" "lx_rest l' = r"
    using string_loop_quoted [OF l1(2) assms(2), of "[]"] by auto
  obtain d ds where d: "?q = d # ds" "len_utf8 d = 1"
  proof (cases s)
    case Nil
    show thesis by (rule that [of 39 r]) (simp_all add: Nil len_utf8_def)
  next
    case (Cons c s')
    then show thesis using True that by (cases "c = 39") (auto simp: len_utf8_def)
  qed
  have "skip_whitespace_and_comments l = Inr l"
    using d by (intro whitespace_stays [of l 39 d ds]) (auto simp: l whitespace_def len_utf8_def)
  moreover have "next_token U l = Inr ((TkStringLiteral s, span_from l l'), l')"
    using l l1 l' by (simp add: next_token_def current_char_def ascii_digit_def is_alphabetic_def lex_string_def)
  ultimately have "tokenize U l =
             (case tokenize U l' of
                Inl e \<Rightarrow> Inl e
              | Inr (ts, l2) \<Rightarrow> Inr ((TkStringLiteral s, span_from l l') # ts, l2))"
    using l by (subst tokenize.simps) (simp split: sum.split)
  then show ?thesis using True l'(2) by auto
next
  case False
  then obtain c s' where s: "s = c # s'" "0x80 \<le> c" by (cases s) auto
  then have "c \<noteq> 39" by auto
  then have "lx_rest l = [] @ 39 # c # concat (map (\<lambda>c. if c = 39 then [39, 39] else [c]) s') @ 39 # r"
    using assms(1) s by (simp add: quoted_def)
  then have "tokenize U l = Inl LexPanic"
    by (rule lexer_panics_on_multibyte) (use s in \<open>simp_all add: whitespace_def\<close>)
  then show ?thesis using False by simp
qed

theorem string_literal_roundtrip_witness:
  "(\<exists>l'. lx_rest l' = text_of '';'' \<and>
     tokenize sample_unicode (lexer_new (quoted (text_of [CHR ''a'', CHR 0x27]) @ text_of '';'')) =
       (case tokenize sample_unicode l' of
          Inl e \<Rightarrow> Inl e
        | Inr (ts, l2) \<Rightarrow>
            Inr ((TkStringLiteral (text_of [CHR ''a'', CHR 0x27]),
                  span_from (lexer_new (quoted (text_of [CHR ''a'', CHR 0x27]) @ text_of '';'')) l') # ts, l2))) \<and>
   tokenize sample_unicode (lexer_new (quoted [0xE9] @ text_of '';'')) = Inl LexPanic"
proof
  have l: "lx_rest (lexer_new cs) = cs" for cs by (simp add: lexer_new_def)
  have r: "text_of '';'' = [] \<or> hd (text_of '';'') \<noteq> 39" by (simp add: text_of_def)
  have "text_of [CHR ''a'', CHR 0x27] = [] \<or> hd (text_of [CHR ''a'', CHR 0x27]) < 0x80"
    by (simp add: text_of_def)
  then show "\<exists>l'. lx_rest l' = text_of '';'' \<and>
     tokenize sample_unicode (lexer_new (quoted (text_of [CHR ''a'', CHR 0x27]) @ text_of '';'')) =
       (case tokenize sample_unicode l' of
          Inl e \<Rightarrow> Inl e
        | Inr (ts, l2) \<Rightarrow>
            Inr ((TkStringLiteral (text_of [CHR ''a'', CHR 0x27]),
                  span_from (lexer_new (quoted (text_of [CHR ''a'', CHR 0x27]) @ text_of '';'')) l') # ts, l2))"
    using string_literal_roundtrip [OF l r, of "text_of [CHR ''a'', CHR 0x27]" sample_unicode] by (simp only: if_True)
  have "\<not> ([0xE9] = ([] :: ustring) \<or> hd [0xE9] < (0x80 :: nat))" by simp
  then show "tokenize sample_unicode (lexer_new (quoted [0xE9] @ text_of '';'')) = Inl LexPanic"
    using string_literal_roundtrip [OF l r, of "[0xE9]" sample_unicode] by (simp only: if_False)
qed

end
