(* ===== verification/Parser_Properties.thy ===== *)
theory Parser_Properties
  imports Parser_Reads Lexer_Properties
begin

text \<open>
  The properties of the FunQL front end: totality and located errors, the expression grammar, and two
  inputs it misreads.
\<close>

text \<open>
  C24: Parsing always ends, and never panics on ASCII. Lexer and parser together return a statement or
  an error for every input; the depth and the rounds allowed are never exhausted; a parse error
  carries the position of a token of the input; a panic can only come from the lexer, on text
  outside ASCII.
\<close>

theorem parse_total:
  "case parse U input of
     Statement stmt \<Rightarrow> True
   | LexerError e \<Rightarrow> tokenize U (lexer_new input) = Inl (LexFail e)
   | ParserError e \<Rightarrow>
       (\<exists>ts l. tokenize U (lexer_new input) = Inr (ts, l) \<and> (\<exists>p\<in>set ts. pe_line e = sp_line (snd p) \<and> pe_col e = sp_col (snd p)))
   | Panic \<Rightarrow> tokenize U (lexer_new input) = Inl LexPanic \<and> \<not> ascii input
   | Diverges \<Rightarrow> False"
proof (cases "tokenize U (lexer_new input)")
  case (Inl f)
  then show ?thesis
    using tokenize_no_panic [of "lexer_new input" U] by (cases f) (auto simp: parse_def lexer_new_def)
next
  case (Inr r)
  then obtain ts l where r: "tokenize U (lexer_new input) = Inr (ts, l)" by (cases r) auto
  have "eof_ended ts" using tokenize_shape [OF r] by simp
  then have "case parse_statement ts of
      Parsed x ts' \<Rightarrow> eof_ended ts' \<and> suffix ts' ts \<and> (False \<longrightarrow> length ts' < length ts)
    | Failed e \<Rightarrow> located ts e | _ \<Rightarrow> False"
    using parse_statement_safe [of "length ts"] by (simp add: sound_def parse_statement_def)
  then show ?thesis
    using r by (auto simp: parse_def located_def split: presult.splits)
qed

text \<open>
  C9: Expressions are parsed by their grammar. Every word that the expression grammar derives, followed
  by a token that cannot continue it, is read as exactly the derived tree: OR binds weaker than AND,
  NOT, comparisons, sums, products, vector distance and sign, binary operators associate to the
  left, parentheses and lists nest. So the grammar is unambiguous.
\<close>

theorem expression_grammar:
  assumes d: "derives LvOr e w" and us: "map fst us = w" and r: "stop LvOr (fst r)" and n: "length w \<le> n"
  shows "parse_expr n (us @ r # rest) = Parsed e (r # rest) \<and> (\<forall>e'. derives LvOr e' w \<longrightarrow> e' = e)"
proof (intro conjI allI impI)
  show 1: "parse_expr n (us @ r # rest) = Parsed e (r # rest)"
    by (rule readsD [OF expr_reads [OF d n] us]) (simp_all add: r del: stop.simps)
  fix e' assume d': "derives LvOr e' w"
  have "parse_expr n (us @ r # rest) = Parsed e' (r # rest)"
    by (rule readsD [OF expr_reads [OF d' n] us]) (simp_all add: r del: stop.simps)
  then show "e' = e" using 1 by simp
qed

definition at :: "nat \<Rightarrow> span" where
  "at c = \<lparr>sp_line = 1, sp_col = c, sp_len = 1\<rparr>"

definition sample_word :: "token list" where
  "sample_word = [TkIntLiteral 1, TkMinus, TkIntLiteral 2, TkMinus, TkIntLiteral 3, TkStar, TkIdent [97]]"

definition sample_tree :: expr where
  "sample_tree =
     BinaryOp OpSub (BinaryOp OpSub (Literal (LInt 1)) (Literal (LInt 2)))
       (BinaryOp OpMul (Literal (LInt 3)) (Ident [97]))"

lemma sample_derivation: "derives LvOr sample_tree sample_word"
proof -
  have l: "derives LvPrimary (Literal (LInt i)) [TkIntLiteral i]" for i
    by (rule lit) (simp add: literal_of_def)
  have a: "derives LvPrimary (Ident [97]) [TkIdent [97]]"
    by (rule ident) (simp add: name_token_def keyword_as_ident_def)
  have d: "derives LvDist (Literal (LInt i)) [TkIntLiteral i]" "derives LvDist (Ident [97]) [TkIdent [97]]" for i
    using l [of i] a by (auto intro!: lift [where k = LvDist] lift [where k = LvUnary])
  have m: "derives LvMul (Literal (LInt i)) [TkIntLiteral i]" for i
    using d(1) [of i] by (auto intro!: lift [where k = LvMul])
  have s: "derives LvAdd (Literal (LInt i)) [TkIntLiteral i]" for i
    using m [of i] by (auto intro!: lift [where k = LvAdd])
  have p: "derives LvMul (BinaryOp OpMul (Literal (LInt 3)) (Ident [97])) [TkIntLiteral 3, TkStar, TkIdent [97]]"
    using mul [OF m [of 3] d(2), of TkStar OpMul] by (simp add: mul_op_def)
  have q: "derives LvAdd (BinaryOp OpSub (Literal (LInt 1)) (Literal (LInt 2))) [TkIntLiteral 1, TkMinus, TkIntLiteral 2]"
    using additive [OF s [of 1] m [of 2], of TkMinus OpSub] by (simp add: add_op_def)
  have t: "derives LvAdd sample_tree sample_word"
    using additive [OF q p, of TkMinus OpSub] by (simp add: sample_tree_def sample_word_def add_op_def)
  then have "derives LvCmp sample_tree sample_word" by (intro lift [where k = LvCmp]) simp
  then have "derives LvNot sample_tree sample_word" by (intro lift [where k = LvNot]) simp
  then have "derives LvAnd sample_tree sample_word" by (intro lift [where k = LvAnd]) simp
  then show ?thesis by (intro lift [where k = LvOr]) simp
qed

theorem expression_grammar_witness:
  "parse_expr 7 (map (\<lambda>t. (t, at 0)) sample_word @ [(TkEof, at 9)]) = Parsed sample_tree [(TkEof, at 9)]"
  using expression_grammar [OF sample_derivation, of "map (\<lambda>t. (t, at 0)) sample_word" "(TkEof, at 9)" 7 "[]"]
  by (simp add: sample_word_def comp_def mul_op_def add_op_def cmp_op_def and_op_def or_op_def)

text \<open>
  NOT IN is read as IN. An expression followed by NOT IN and a list is parsed to the very tree of
  IN with the same list; the negation is lost and a filter keeps exactly the rows it should drop.
\<close>

theorem not_in_parsed_as_in:
  assumes a: "derives LvAdd a u" and es: "list_all2 (derives LvOr) es ws" "ws \<noteq> []"
    and us: "map fst us = u @ TkKeyword ''Not'' # TkKeyword ''In'' # TkLParen # commas ws @ [TkRParen]"
    and r: "stop LvOr (fst r)" and n: "length us \<le> n"
  shows "parse_expr n (us @ r # rest) = Parsed (InList a es) (r # rest) \<and>
         derives LvCmp (InList a es) (u @ TkKeyword ''In'' # TkLParen # commas ws @ [TkRParen])"
proof (rule conjI)
  show "derives LvCmp (InList a es) (u @ TkKeyword ''In'' # TkLParen # commas ws @ [TkRParen])"
    by (rule in_list [OF a es])
  have len: "length u + length (commas ws) + 4 \<le> n" using n arg_cong [OF us, of length] by simp
  obtain t v where t: "u = t # v" "t \<noteq> TkKeyword ''Not''" using derives_start [OF a] by auto
  obtain m where m: "n = Suc m" using len by (cases n) auto
  have ra: "reads (stop LvAdd) (lv LvAdd m) a u"
    using len m by (intro read_by_reads derives_read_by [OF a]) simp
  have il: "list_all2 inner es ws" by (rule list_all2_mono [OF es(1) inner_all])
  have rl: "list_all2 (reads (stop LvOr) (parse_expr m)) es ws"
  proof (rule list_all2_mono [OF inner_list [OF il, of m]])
    show "length (commas ws) \<le> m" using len m by simp
  qed blast
  have "reads (stop LvCmp) (lv LvCmp m) (InList a es)
      (u @ TkKeyword ''Not'' # TkKeyword ''In'' # TkLParen # commas ws @ [TkRParen])"
  proof (rule cmp_reads [OF ra cmp_keywords(2)])
    fix x r :: "token \<times> span" and us2 rest :: tokens
    assume x: "fst x = TkKeyword ''Not''" and us2: "map fst us2 = TkKeyword ''In'' # TkLParen # commas ws @ [TkRParen]"
    then obtain y us3 where y: "us2 = y # us3" "fst y = TkKeyword ''In''" "map fst us3 = TkLParen # commas ws @ [TkRParen]"
      by (auto simp: map_eq_Cons_conv)
    have "parse_in_list (parse_expr m) (us3 @ r # rest) = Parsed es (r # rest)"
      by (rule readsD [OF in_list_reads [OF rl es(2)] y(3)]) simp_all
    then show "comparison_tail (parse_expr m) (parse_primary_expr (Suc m)) a (x # us2 @ r # rest) =
        Parsed (InList a es) (r # rest)"
      using x y by (simp add: comparison_tail_def cmp_keywords run)
  qed
  from cmp_expr [OF this, of t] have "reads (stop LvOr) (parse_expr n) (InList a es)
      (u @ TkKeyword ''Not'' # TkKeyword ''In'' # TkLParen # commas ws @ [TkRParen])"
    using t m by simp
  then show "parse_expr n (us @ r # rest) = Parsed (InList a es) (r # rest)"
    by (rule readsD [OF _ us]) (simp_all add: r del: stop.simps)
qed

lemma sample_ident: "derives LvAdd (Ident [97]) [TkIdent [97]]"
proof -
  have "derives LvPrimary (Ident [97]) [TkIdent [97]]"
    by (rule ident) (simp add: name_token_def keyword_as_ident_def)
  then have "derives LvDist (Ident [97]) [TkIdent [97]]"
    by (auto intro!: lift [where k = LvDist] lift [where k = LvUnary])
  then have "derives LvMul (Ident [97]) [TkIdent [97]]" by (intro lift [where k = LvMul]) simp
  then show ?thesis by (intro lift [where k = LvAdd]) simp
qed

theorem not_in_parsed_as_in_witness:
  "parse_expr 20 (map (\<lambda>t. (t, at 0)) ([TkIdent [97], TkKeyword ''Not'', TkKeyword ''In'', TkLParen] @ sample_word @ [TkRParen]) @
       [(TkEof, at 9)]) = Parsed (InList (Ident [97]) [sample_tree]) [(TkEof, at 9)]"
proof -
  let ?us = "map (\<lambda>t. (t, at 0)) ([TkIdent [97], TkKeyword ''Not'', TkKeyword ''In'', TkLParen] @ sample_word @ [TkRParen])"
  have l: "list_all2 (derives LvOr) [sample_tree] [sample_word]" by (simp add: sample_derivation)
  have "parse_expr 20 (?us @ (TkEof, at 9) # []) = Parsed (InList (Ident [97]) [sample_tree]) ((TkEof, at 9) # [])"
    by (rule not_in_parsed_as_in [OF sample_ident l, THEN conjunct1])
      (simp_all add: comp_def sample_word_def mul_op_def add_op_def cmp_op_def and_op_def or_op_def)
  then show ?thesis by simp
qed

text \<open>
  Text behind a statement is ignored. The statement parser does not ask for the end of the input:
  DELETE FROM and a table name, followed by anything but a dot, WHERE or a semicolon, is a delete of
  the whole table. A misspelt WHERE is not reported: the statement read is the one without a condition.
\<close>

theorem delete_ignores_rest:
  assumes "fst a = TkKeyword ''Delete''" and "fst b = TkKeyword ''From''"
    and "keyword_as_ident (fst c) = Some x"
    and "fst d \<notin> {TkDot, TkKeyword ''Where'', TkSemicolon}"
  shows "parse_statement (a # b # c # d # rest) = Parsed (Delete (DeleteStmt x None)) (d # rest)"
proof -
  have s: "skip_semicolons (a # ts) = Parsed () (a # ts)" for ts
    using assms(1) by (simp add: skip_semicolons_def loop_def run)
  have "parse_qualified_name (c # d # rest) = Parsed x (d # rest)"
    using assms(3,4) by (simp add: parse_qualified_name_def run expect_ident_run)
  moreover have "optional (TkKeyword ''Where'') p (d # rest) = Parsed None (d # rest)" for p :: "expr parser"
  proof -
    have e: "eat (TkKeyword ''Where'') (d # rest) = Parsed False (d # rest)"
      using assms(4) by (simp add: eat_def run)
    show ?thesis by (simp add: optional_def bindp_def e run)
  qed
  ultimately have "parse_delete pe (a # b # c # d # rest) = Parsed (DeleteStmt x None) (d # rest)" for pe
    using assms(1,2) by (simp add: parse_delete_def run)
  moreover have "eat TkSemicolon (d # rest) = Parsed False (d # rest)"
    using assms(4) by (simp add: eat_def run)
  ultimately show ?thesis
    using assms(1) by (simp add: parse_statement_def parse_statement_at_def statement_dispatch_def s run thenp_def bindp_def)
qed

theorem delete_ignores_rest_witness:
  "parse_statement [(TkKeyword ''Delete'', at 1), (TkKeyword ''From'', at 8), (TkIdent (text_of ''t''), at 13),
     (TkIdent (text_of ''whre''), at 15), (TkIdent (text_of ''x''), at 20), (TkAssign, at 22), (TkIntLiteral 1, at 24), (TkEof, at 25)] =
   Parsed (Delete (DeleteStmt (text_of ''t'') None))
     [(TkIdent (text_of ''whre''), at 15), (TkIdent (text_of ''x''), at 20), (TkAssign, at 22), (TkIntLiteral 1, at 24), (TkEof, at 25)]"
  by (rule delete_ignores_rest) (simp_all add: keyword_as_ident_def)

end
