(* ===== verification/Logical_Plan.thy ===== *)
theory Logical_Plan
  imports Ast Ordered_Map
begin

text \<open>
  The typed logical plans of \<open>crates/fundb-sql/src/logical_plan.rs\<close>, the output of the binder. A
  constructor whose name the syntax trees already use has a suffix or a prefix here. A hash map
  from variable names to numbers is kept in the order of its keys.
\<close>

datatype plan_literal =
    PInt int | PFloat f64 | PString ustring | PBool bool | PNull | PVector "f32 list"

datatype plan_op =
    EqOp | NeOp | LtOp | LeOp | GtOp | GeOp | AndOp | OrOp | AddOp | SubOp | MulOp | DivOp
  | VectorDistOp

datatype plan_unary = NotOp | NegOp

datatype plan_expr =
    Column ustring
  | Lit plan_literal
  | Binary plan_op plan_expr plan_expr
  | Unary plan_unary plan_expr
  | Call ustring "plan_expr list"
  | ParamRef ustring
  | VectorRef ustring
  | StarExpr

datatype sort_expr = SortExpr (se_expr: plan_expr) (se_asc: bool)

datatype agg_func = AggCount | AggSum | AggAvg | AggMin | AggMax

datatype agg_expr =
  AggExpr (agg_func: agg_func) (agg_arg: plan_expr) (agg_alias: "ustring option")

datatype plan_context_options =
  PlanContextOptions (pc_max_tokens: "u32 option") (pc_coherence: "f32 option")
    (pc_diversity: "f32 option") (pc_include_contradictions: "bool option")

datatype understand_options =
  UnderstandOptions (uo_min_confidence: "f32 option") (uo_within_days: "u32 option")
    (uo_depth: "u32 option") (uo_collection: "ustring option") (uo_vector_field: "ustring option")
    (uo_min_similarity: "f32 option")

datatype logical_plan =
    Scan ustring "plan_expr option" "plan_expr list"
  | VectorScan ustring ustring "f32 list" f32
  | GraphTraverse plan_expr ustring u32 u32
  | CausalTrace plan_expr plan_expr u32 f32 "f32 option"
  | Filter logical_plan plan_expr
  | Project logical_plan "plan_expr list"
  | Join logical_plan logical_plan plan_expr
  | Aggregate logical_plan "plan_expr list" "agg_expr list"
  | Sort logical_plan "sort_expr list"
  | Limit logical_plan nat
  | ContextOptimize logical_plan plan_context_options
  | UnderstandPlan ustring understand_options
  | EstimateEffectPlan ustring "(ustring, f64) btree_map" ustring
  | CounterfactualPlan ustring "(ustring, f64) btree_map" "(ustring, f64) btree_map" ustring
  | InsertPlan ustring "ustring list" "plan_expr list list"
  | Empty

end
