(* ===== verification/Text.thy ===== *)
theory Text
  imports Lexer
begin

text \<open>
  The operations of Rust's \<open>str\<close> that the binder and the query handler use, on code points, and
  the UTF-8 encoding in which the storage engine sees a string. Upper and lower case are fixed on
  ASCII; the standard library's tables beyond it come with the argument \<open>T\<close>.
\<close>

record casing =
  lower_table :: "ustring \<Rightarrow> ustring"
  upper_table :: "ustring \<Rightarrow> ustring"

definition all_ascii :: "ustring \<Rightarrow> bool" where
  "all_ascii s \<longleftrightarrow> (\<forall>c\<in>set s. c < 0x80)"

definition ascii_upper :: "nat \<Rightarrow> nat" where
  "ascii_upper c = (if 97 \<le> c \<and> c \<le> 122 then c - 32 else c)"

definition to_lowercase :: "casing \<Rightarrow> ustring \<Rightarrow> ustring" where
  "to_lowercase T s = (if all_ascii s then map ascii_lower s else lower_table T s)"

definition to_uppercase :: "casing \<Rightarrow> ustring \<Rightarrow> ustring" where
  "to_uppercase T s = (if all_ascii s then map ascii_upper s else upper_table T s)"

text \<open>\<open>char::is_whitespace\<close>: the code points with the property White_Space.\<close>

definition is_white :: "nat \<Rightarrow> bool" where
  "is_white c \<longleftrightarrow> 9 \<le> c \<and> c \<le> 13 \<or> c \<in> {0x20, 0x85, 0xA0, 0x1680, 0x2028, 0x2029, 0x202F, 0x205F, 0x3000} \<or>
     0x2000 \<le> c \<and> c \<le> 0x200A"

definition trim :: "ustring \<Rightarrow> ustring" where
  "trim s = rev (dropWhile is_white (rev (dropWhile is_white s)))"

fun split_on :: "(nat \<Rightarrow> bool) \<Rightarrow> ustring \<Rightarrow> ustring list" where
  "split_on P [] = [[]]"
| "split_on P (c # cs) =
     (if P c then [] # split_on P cs
      else (case split_on P cs of [] \<Rightarrow> [[c]] | w # ws \<Rightarrow> (c # w) # ws))"

definition split_whitespace :: "ustring \<Rightarrow> ustring list" where
  "split_whitespace s = filter (\<lambda>w. w \<noteq> []) (split_on is_white s)"

definition starts_with :: "ustring \<Rightarrow> ustring \<Rightarrow> bool" where
  "starts_with p s \<longleftrightarrow> take (length p) s = p"

text \<open>The number of characters before the first occurrence of \<open>p\<close>.\<close>

fun find_text :: "ustring \<Rightarrow> ustring \<Rightarrow> nat option" where
  "find_text p [] = (if p = [] then Some 0 else None)"
| "find_text p (c # cs) =
     (if starts_with p (c # cs) then Some 0 else map_option Suc (find_text p cs))"

definition contains_text :: "ustring \<Rightarrow> ustring \<Rightarrow> bool" where
  "contains_text p s \<longleftrightarrow> find_text p s \<noteq> None"

text \<open>\<open>str::parse\<close> of an integer type with values from \<open>lo\<close> to \<open>hi\<close>: an optional sign and digits.\<close>

definition digits_value :: "ustring \<Rightarrow> int" where
  "digits_value ds = foldl (\<lambda>v d. 10 * v + (int d - 48)) 0 ds"

definition parse_int :: "int \<Rightarrow> int \<Rightarrow> ustring \<Rightarrow> int option" where
  "parse_int lo hi s =
     (let (neg, ds) = (case s of
            c # cs \<Rightarrow> if c = 43 then (False, cs) else if c = 45 \<and> lo < 0 then (True, cs) else (False, s)
          | [] \<Rightarrow> (False, []));
          v = (if neg then - digits_value ds else digits_value ds)
      in if ds = [] \<or> \<not> list_all ascii_digit ds \<or> v < lo \<or> hi < v then None else Some v)"

subsection \<open>UTF-8\<close>

definition utf8_char :: "nat \<Rightarrow> nat list" where
  "utf8_char c =
     (if c < 0x80 then [c]
      else if c < 0x800 then [0xC0 + c div 64, 0x80 + c mod 64]
      else if c < 0x10000 then [0xE0 + c div 4096, 0x80 + c div 64 mod 64, 0x80 + c mod 64]
      else [0xF0 + c div 262144, 0x80 + c div 4096 mod 64, 0x80 + c div 64 mod 64, 0x80 + c mod 64])"

definition utf8 :: "ustring \<Rightarrow> string" where
  "utf8 s = map char_of (concat (map utf8_char s))"

lemma length_utf8_char [simp]: "length (utf8_char c) = len_utf8 c"
  by (simp add: utf8_char_def len_utf8_def)

lemma length_utf8: "length (utf8 s) = byte_len s"
  by (simp add: utf8_def byte_len_def length_concat comp_def)

lemma utf8_text_of [simp]: "list_all (\<lambda>c. of_char c < (128::nat)) s \<Longrightarrow> utf8 (text_of s) = s"
  by (induction s) (auto simp: utf8_def text_of_def utf8_char_def)

end
