(* ===== verification/Binder.thy ===== *)
theory Binder
  imports Logical_Plan Text Ieee
begin

text \<open>
  The semantic binder of \<open>crates/fundb-sql/src/binder.rs\<close>: from a statement to a logical plan. A
  \<open>Result\<close> is a sum with the error on the left; the operator \<open>?\<close> is \<open>and_then\<close>. Numbers are
  converted with the casts of the language: truncating at 32 bits from i64, saturating from floats.
\<close>

subsection \<open>Results\<close>

fun and_then :: "'e + 'a \<Rightarrow> ('a \<Rightarrow> 'e + 'b) \<Rightarrow> 'e + 'b" where
  "and_then (Inl e) f = Inl e"
| "and_then (Inr x) f = f x"

text \<open>\<open>collect\<close> into a \<open>Result\<close> of a vector: the first error, or all values.\<close>

fun collect :: "('e + 'a) list \<Rightarrow> 'e + 'a list" where
  "collect [] = Inr []"
| "collect (r # rs) = and_then r (\<lambda>x. and_then (collect rs) (\<lambda>xs. Inr (x # xs)))"

lemma collect_Inr [simp]: "collect (map Inr xs) = Inr xs"
  by (induction xs) auto

lemma and_then_cong [fundef_cong]:
  "r = r' \<Longrightarrow> (\<And>x. r' = Inr x \<Longrightarrow> f x = f' x) \<Longrightarrow> and_then r f = and_then r' f'"
  by (cases r') auto

subsection \<open>The catalog\<close>

record catalog =
  collections :: "ustring set"

definition catalog_new :: catalog where
  "catalog_new = \<lparr>collections = {}\<rparr>"

definition add_collection :: "ustring \<Rightarrow> catalog \<Rightarrow> catalog" where
  "add_collection name c = c\<lparr>collections := insert name (collections c)\<rparr>"

definition has_collection :: "catalog \<Rightarrow> ustring \<Rightarrow> bool" where
  "has_collection c name \<longleftrightarrow> name \<in> collections c"

definition list_collections :: "catalog \<Rightarrow> ustring list" where
  "list_collections c = sorted_list_of_set (collections c)"

definition catalog_open :: catalog where
  "catalog_open =
     fold (add_collection \<circ> text_of)
       [''knowledge_base'', ''documents'', ''users'', ''metrics'', ''events'', ''entities'',
        ''research_papers'', ''agent_memory''] catalog_new"

datatype bind_error = UnknownCollection ustring | TypeMismatch ustring expr | OtherBindError string

subsection \<open>Literals and numbers\<close>

fun bind_literal :: "literal \<Rightarrow> plan_literal" where
  "bind_literal (LInt i) = PInt i"
| "bind_literal (LFloat f) = PFloat f"
| "bind_literal (LString s) = PString s"
| "bind_literal (LBool b) = PBool b"
| "bind_literal LNull = PNull"

fun expr_to_f32 :: "expr \<Rightarrow> f32 option" where
  "expr_to_f32 (Literal (LFloat f)) = Some (f64_as_f32 f)"
| "expr_to_f32 (Literal (LInt i)) = Some (int_as_f32 i)"
| "expr_to_f32 _ = None"

fun expr_to_u32 :: "expr \<Rightarrow> u32 option" where
  "expr_to_u32 (Literal (LInt i)) = (if 0 \<le> i then Some (word_of_int i) else None)"
| "expr_to_u32 (Literal (LFloat f)) =
     (if f64_le 0 f then Some (word_of_nat (f64_as_nat (2 ^ 32 - 1) f)) else None)"
| "expr_to_u32 _ = None"

fun expr_to_usize :: "expr \<Rightarrow> nat option" where
  "expr_to_usize (Literal (LInt i)) = (if 0 \<le> i then Some (nat i) else None)"
| "expr_to_usize (Literal (LFloat f)) =
     (if f64_le 0 f then Some (f64_as_nat (2 ^ 64 - 1) f) else None)"
| "expr_to_usize _ = None"

fun expr_rhs_float :: "expr \<Rightarrow> f32 option" where
  "expr_rhs_float (BinaryOp _ _ right) = expr_to_f32 right"
| "expr_rhs_float e = expr_to_f32 e"

text \<open>The number of days of a WITHIN text: the first number, times the unit after it, at 32 bits.\<close>

definition unit_days :: "ustring \<Rightarrow> nat \<Rightarrow> nat" where
  "unit_days unit n =
     (if starts_with (text_of ''year'') unit then n * 365
      else if starts_with (text_of ''month'') unit then n * 30
      else if starts_with (text_of ''week'') unit then n * 7
      else n)"

fun first_days :: "ustring list \<Rightarrow> u32 option" where
  "first_days [] = None"
| "first_days (p # ps) =
     (case parse_int 0 (2 ^ 32 - 1) p of
        Some n \<Rightarrow>
          Some (word_of_nat (unit_days (case ps of [] \<Rightarrow> text_of ''days'' | u # _ \<Rightarrow> u) (nat n)))
      | None \<Rightarrow> first_days ps)"

definition parse_within_days :: "casing \<Rightarrow> ustring \<Rightarrow> u32 option" where
  "parse_within_days T s = first_days (split_whitespace (to_lowercase T s))"

subsection \<open>Expressions\<close>

fun bind_binary_op :: "binary_op \<Rightarrow> plan_op" where
  "bind_binary_op OpEq = EqOp"
| "bind_binary_op OpNotEq = NeOp"
| "bind_binary_op OpLt = LtOp"
| "bind_binary_op OpLtEq = LeOp"
| "bind_binary_op OpGt = GtOp"
| "bind_binary_op OpGtEq = GeOp"
| "bind_binary_op OpAnd = AndOp"
| "bind_binary_op OpOr = OrOp"
| "bind_binary_op OpAdd = AddOp"
| "bind_binary_op OpSub = SubOp"
| "bind_binary_op OpMul = MulOp"
| "bind_binary_op OpDiv = DivOp"
| "bind_binary_op OpMod = DivOp"
| "bind_binary_op OpLike = EqOp"
| "bind_binary_op OpNotLike = EqOp"
| "bind_binary_op OpIn = EqOp"
| "bind_binary_op OpNotIn = EqOp"
| "bind_binary_op OpBetween = AndOp"
| "bind_binary_op OpArrow = EqOp"

fun array_float :: "expr \<Rightarrow> f32 option" where
  "array_float (Literal (LFloat f)) = Some (f64_as_f32 f)"
| "array_float (Literal (LInt i)) = Some (int_as_f32 i)"
| "array_float _ = None"

definition array_floats :: "expr list \<Rightarrow> f32 list" where
  "array_floats es = List.map_filter array_float es"

fun bind_unary_op :: "unary_op \<Rightarrow> plan_unary" where
  "bind_unary_op UNeg = NegOp"
| "bind_unary_op UNot = NotOp"
| "bind_unary_op UIsNull = NotOp"
| "bind_unary_op UIsNotNull = NotOp"

fun bind_expr :: "expr \<Rightarrow> bind_error + plan_expr" where
  "bind_expr (Literal l) = Inr (Lit (bind_literal l))"
| "bind_expr (Ident n) = Inr (Column n)"
| "bind_expr (Param n) = Inr (ParamRef n)"
| "bind_expr Star = Inr StarExpr"
| "bind_expr (BinaryOp op a b) =
     and_then (bind_expr a) (\<lambda>l. and_then (bind_expr b) (\<lambda>r. Inr (Binary (bind_binary_op op) l r)))"
| "bind_expr (UnaryOp op e) = and_then (bind_expr e) (\<lambda>p. Inr (Unary (bind_unary_op op) p))"
| "bind_expr (Not e) = and_then (bind_expr e) (\<lambda>p. Inr (Unary NotOp p))"
| "bind_expr (FunctionCall n args) =
     and_then (collect (map bind_expr args)) (\<lambda>ps. Inr (Call n ps))"
| "bind_expr (VectorDist field v) =
     and_then (bind_expr v) (\<lambda>p. Inr (Binary VectorDistOp (VectorRef field) p))"
| "bind_expr (Qualified table field) = Inr (Column (table @ text_of ''.'' @ field))"
| "bind_expr (InList e es) =
     and_then (bind_expr e) (\<lambda>p. and_then (collect (map bind_expr es)) (\<lambda>ps.
       Inr (Call (text_of ''in_list'') (p # ps))))"
| "bind_expr (IsNull e) = and_then (bind_expr e) (\<lambda>p. Inr (Call (text_of ''is_null'') [p]))"
| "bind_expr (IsNotNull e) = and_then (bind_expr e) (\<lambda>p. Inr (Call (text_of ''is_not_null'') [p]))"
| "bind_expr (Between e lo hi) =
     and_then (bind_expr e) (\<lambda>x. and_then (bind_expr lo) (\<lambda>l. and_then (bind_expr hi) (\<lambda>h.
       Inr (Binary AndOp (Binary GeOp x l) (Binary LeOp x h)))))"
| "bind_expr (Array es) =
     (if length (array_floats es) = length es then Inr (Lit (PVector (array_floats es)))
      else and_then (collect (map bind_expr es)) (\<lambda>ps. Inr (Call (text_of ''array'') ps)))"
| "bind_expr (Case operand whens els) =
     and_then (case operand of None \<Rightarrow> Inr [] | Some e \<Rightarrow> and_then (bind_expr e) (\<lambda>p. Inr [p])) (\<lambda>ps.
     and_then (collect (map (\<lambda>(c, t). and_then (bind_expr c) (\<lambda>p. and_then (bind_expr t) (\<lambda>q.
       Inr [p, q]))) whens)) (\<lambda>qs.
     and_then (case els of None \<Rightarrow> Inr [] | Some e \<Rightarrow> and_then (bind_expr e) (\<lambda>p. Inr [p])) (\<lambda>rs.
       Inr (Call (text_of ''case'') (ps @ concat qs @ rs)))))"
| "bind_expr (Cast e ty) = and_then (bind_expr e) (\<lambda>p. Inr (Call (text_of ''cast::'' @ ty) [p]))"
| "bind_expr (Subquery _) = Inr (Call (text_of ''subquery'') [])"

text \<open>Binding an expression never fails.\<close>

lemma collect_total: "\<forall>r\<in>set rs. \<exists>x. r = Inr x \<Longrightarrow> \<exists>xs. collect rs = Inr xs"
  by (induction rs) fastforce+

lemma bind_optional_total:
  assumes "\<And>e. x = Some e \<Longrightarrow> \<exists>p. bind_expr e = Inr p"
  shows "\<exists>ps. (case x of None \<Rightarrow> Inr [] | Some e \<Rightarrow> and_then (bind_expr e) (\<lambda>p. Inr [p])) = Inr ps"
  using assms by (cases x) fastforce+

lemma bind_expr_total: "\<exists>p. bind_expr e = Inr p"
proof (induction e rule: expr.induct)
  case (FunctionCall n args)
  then show ?case using collect_total [of "map bind_expr args"] by fastforce
next
  case (InList e es)
  then show ?case using collect_total [of "map bind_expr es"] by fastforce
next
  case (Array es)
  then show ?case using collect_total [of "map bind_expr es"] by fastforce
next
  case (Case operand whens els)
  have "\<exists>ps. (case operand of None \<Rightarrow> Inr [] | Some e \<Rightarrow> and_then (bind_expr e) (\<lambda>p. Inr [p])) = Inr ps"
    by (rule bind_optional_total) (use Case in simp)
  moreover have "\<exists>qs. collect (map (\<lambda>(c, t). and_then (bind_expr c) (\<lambda>p. and_then (bind_expr t) (\<lambda>q.
      Inr [p, q]))) whens) = Inr qs"
  proof (rule collect_total, clarsimp)
    fix c t assume m: "(c, t) \<in> set whens"
    obtain p q where "bind_expr c = Inr p" "bind_expr t = Inr q"
      using Case(2) [OF m, of c] Case(3) [OF m, of t] by auto
    then show "\<exists>xs. and_then (bind_expr c) (\<lambda>p. and_then (bind_expr t) (\<lambda>q. Inr [p, q])) = Inr xs"
      by simp
  qed
  moreover have "\<exists>rs. (case els of None \<Rightarrow> Inr [] | Some e \<Rightarrow> and_then (bind_expr e) (\<lambda>p. Inr [p])) = Inr rs"
    by (rule bind_optional_total) (use Case in simp)
  ultimately show ?case by fastforce
qed fastforce+

subsection \<open>Queries\<close>

fun bind_select_item :: "expr select_item \<Rightarrow> bind_error + plan_expr" where
  "bind_select_item Wildcard = Inr StarExpr"
| "bind_select_item (SelectExpr e _) = bind_expr e"

fun extract_vector_floats :: "expr \<Rightarrow> f32 list option" where
  "extract_vector_floats (Array es) =
     (if length (array_floats es) = length es then Some (array_floats es) else None)"
| "extract_vector_floats (Param _) = Some []"
| "extract_vector_floats _ = None"

text \<open>A condition of the form vector distance below a number becomes a vector scan.\<close>

fun try_build_vector_scan :: "ustring \<Rightarrow> expr \<Rightarrow> logical_plan option" where
  "try_build_vector_scan collection (BinaryOp op (VectorDist field v) (Literal t)) =
     (if op = OpLt \<or> op = OpLtEq then
        (case expr_to_f32 (Literal t) of
           None \<Rightarrow> None
         | Some threshold \<Rightarrow>
             map_option (\<lambda>q. VectorScan collection field q threshold) (extract_vector_floats v))
      else None)"
| "try_build_vector_scan _ _ = None"

definition agg_of_name :: "casing \<Rightarrow> ustring \<Rightarrow> agg_func option" where
  "agg_of_name T n =
     (let l = to_lowercase T n
      in if l = text_of ''count'' then Some AggCount
         else if l = text_of ''sum'' then Some AggSum
         else if l = text_of ''avg'' \<or> l = text_of ''average'' then Some AggAvg
         else if l = text_of ''min'' then Some AggMin
         else if l = text_of ''max'' then Some AggMax
         else None)"

fun try_extract_agg :: "casing \<Rightarrow> expr \<Rightarrow> ustring option \<Rightarrow> bind_error + agg_expr option" where
  "try_extract_agg T (FunctionCall n args) alias =
     (case agg_of_name T n of
        None \<Rightarrow> Inr None
      | Some f \<Rightarrow>
          (case args of
             [] \<Rightarrow> Inr (Some (AggExpr f StarExpr alias))
           | a # _ \<Rightarrow> and_then (bind_expr a) (\<lambda>p. Inr (Some (AggExpr f p alias)))))"
| "try_extract_agg T _ _ = Inr None"

fun extract_aggregates :: "casing \<Rightarrow> expr select_item list \<Rightarrow> bind_error + agg_expr list" where
  "extract_aggregates T [] = Inr []"
| "extract_aggregates T (Wildcard # is) = extract_aggregates T is"
| "extract_aggregates T (SelectExpr e alias # is) =
     and_then (try_extract_agg T e alias) (\<lambda>a. and_then (extract_aggregates T is) (\<lambda>as.
       Inr (case a of None \<Rightarrow> as | Some x \<Rightarrow> x # as)))"

definition bind_context_options :: "expr context_options \<Rightarrow> plan_context_options" where
  "bind_context_options c =
     PlanContextOptions (Option.bind (co_max_tokens c) expr_to_u32)
       (Option.bind (co_coherence c) expr_to_f32) (Option.bind (co_diversity c) expr_to_f32)
       (co_include_contradictions c)"

definition bind_optional :: "expr option \<Rightarrow> bind_error + plan_expr" where
  "bind_optional x = (case x of Some e \<Rightarrow> bind_expr e | None \<Rightarrow> Inr (Lit PNull))"

definition or_default :: "'a \<Rightarrow> 'a option \<Rightarrow> 'a" where
  "or_default d x = (case x of None \<Rightarrow> d | Some v \<Rightarrow> v)"

definition bind_trace :: "expr trace_causality_clause \<Rightarrow> bind_error + logical_plan" where
  "bind_trace tc =
     and_then (bind_optional (tc_from tc)) (\<lambda>from.
     and_then (bind_optional (tc_to tc)) (\<lambda>to.
       Inr (CausalTrace from to (or_default 10 (Option.bind (tc_max_depth tc) expr_to_u32))
              (or_default f32_zero (Option.bind (tc_min_strength tc) expr_to_f32))
              (Option.bind (tc_min_stability tc) expr_to_f32))))"

definition bind_traverse :: "ustring \<Rightarrow> expr traverse_clause \<Rightarrow> logical_plan" where
  "bind_traverse collection tv =
     (let lo = or_default 1 (Option.bind (tv_depth_min tv) expr_to_u32)
      in GraphTraverse (Column collection) (tv_relation tv) lo
           (or_default lo (Option.bind (tv_depth_max tv) expr_to_u32)))"

definition bind_source :: "ustring \<Rightarrow> plan_expr list \<Rightarrow> expr option \<Rightarrow> bind_error + logical_plan" where
  "bind_source collection projections w =
     (case w of
        None \<Rightarrow> Inr (Scan collection None projections)
      | Some e \<Rightarrow>
          (case try_build_vector_scan collection e of
             Some p \<Rightarrow> Inr p
           | None \<Rightarrow>
               and_then (bind_expr e) (\<lambda>p. Inr (Filter (Scan collection None projections) p))))"

fun bind_order_item :: "expr order_by_item \<Rightarrow> bind_error + sort_expr" where
  "bind_order_item (OrderByItem e asc) = and_then (bind_expr e) (\<lambda>p. Inr (SortExpr p asc))"

definition bind_select :: "casing \<Rightarrow> expr select_stmt \<Rightarrow> catalog \<Rightarrow> bind_error + logical_plan" where
  "bind_select T s cat =
     (let collection = (case s_from s of None \<Rightarrow> [] | Some t \<Rightarrow> tr_name t)
      in if collection \<noteq> [] \<and> \<not> has_collection cat collection
         then Inl (UnknownCollection collection)
         else
           and_then (collect (map bind_select_item (s_projections s))) (\<lambda>projections.
           and_then (bind_source collection projections (s_where s)) (\<lambda>p0.
           and_then (case s_trace_causality s of None \<Rightarrow> Inr p0 | Some tc \<Rightarrow> bind_trace tc) (\<lambda>p1.
           let p2 = (case s_traverse s of None \<Rightarrow> p1 | Some tv \<Rightarrow> bind_traverse collection tv);
               p3 = (case s_within_context s of
                       None \<Rightarrow> p2 | Some c \<Rightarrow> ContextOptimize p2 (bind_context_options c))
           in and_then (if s_group_by s = [] then Inr p3
                else and_then (collect (map bind_expr (s_group_by s))) (\<lambda>g.
                  and_then (extract_aggregates T (s_projections s)) (\<lambda>a. Inr (Aggregate p3 g a)))) (\<lambda>p4.
              and_then (if s_order_by s = [] then Inr p4
                else and_then (collect (map bind_order_item (s_order_by s))) (\<lambda>o'. Inr (Sort p4 o'))) (\<lambda>p5.
              Inr (case s_limit s of
                     None \<Rightarrow> p5 | Some l \<Rightarrow> Limit p5 (or_default 0 (expr_to_usize l)))))))))"

subsection \<open>Other statements\<close>

fun set_option :: "casing \<Rightarrow> expr understand_option \<Rightarrow> understand_options \<Rightarrow> understand_options" where
  "set_option T (UnderstandConfidence e) (UnderstandOptions a b c d f g) =
     UnderstandOptions (case expr_rhs_float e of None \<Rightarrow> a | Some v \<Rightarrow> Some v) b c d f g"
| "set_option T (UnderstandWithin s) (UnderstandOptions a b c d f g) =
     UnderstandOptions a (parse_within_days T s) c d f g"
| "set_option T (UnderstandDepth e) (UnderstandOptions a b c d f g) =
     UnderstandOptions a b (expr_to_u32 e) d f g"
| "set_option T (UnderstandInCollection n) (UnderstandOptions a b c d f g) =
     UnderstandOptions a b c (Some n) f g"
| "set_option T (UnderstandUsingVector n) (UnderstandOptions a b c d f g) =
     UnderstandOptions a b c d (Some n) g"
| "set_option T (UnderstandMinSimilarity e) (UnderstandOptions a b c d f g) =
     UnderstandOptions a b c d f (or_else (expr_to_f32 e) (expr_rhs_float e))"

definition bind_understand_options :: "casing \<Rightarrow> expr understand_option list \<Rightarrow> understand_options" where
  "bind_understand_options T opts =
     fold (set_option T) opts (UnderstandOptions None None None None None None)"

fun bind_number :: "expr \<Rightarrow> f64 option" where
  "bind_number (Literal (LFloat f)) = Some f"
| "bind_number (Literal (LInt i)) = Some (int_as_f64 i)"
| "bind_number _ = None"

fun bind_kv_pairs :: "(ustring \<times> expr) list \<Rightarrow> (ustring, f64) btree_map \<Rightarrow>
    bind_error + (ustring, f64) btree_map" where
  "bind_kv_pairs [] m = Inr m"
| "bind_kv_pairs ((k, v) # ps) m =
     (case bind_number v of
        None \<Rightarrow> Inl (TypeMismatch k v)
      | Some x \<Rightarrow> bind_kv_pairs ps (bt_insert k x m))"

definition bind_insert :: "expr insert_stmt \<Rightarrow> bind_error + logical_plan" where
  "bind_insert ins =
     and_then (collect (map (\<lambda>row. collect (map bind_expr row)) (in_values ins))) (\<lambda>rows.
       Inr (InsertPlan (in_table ins) (in_columns ins) rows))"

definition given_pairs :: "(expr, expr statement) counterfactual_given option \<Rightarrow> (ustring \<times> expr) list" where
  "given_pairs g = (case g of Some (GivenPairs ps) \<Rightarrow> ps | _ \<Rightarrow> [])"

fun bind :: "casing \<Rightarrow> expr statement \<Rightarrow> catalog \<Rightarrow> bind_error + logical_plan" where
  "bind T (Select s) cat = bind_select T s cat"
| "bind T (Understand u) cat =
     Inr (UnderstandPlan (us_intent u) (bind_understand_options T (us_options u)))"
| "bind T (EstimateEffect e) cat =
     and_then (bind_kv_pairs (ee_set_vars e) []) (\<lambda>m.
       Inr (EstimateEffectPlan (ee_model e) m (ee_predict e)))"
| "bind T (Counterfactual c) cat =
     and_then (bind_kv_pairs (given_pairs (cf_given c)) []) (\<lambda>observed.
     and_then (bind_kv_pairs (cf_had c) []) (\<lambda>had.
       Inr (CounterfactualPlan (cf_model c) observed had (cf_predict c))))"
| "bind T (Insert i) cat = bind_insert i"
| "bind T (Update _) cat = Inr Empty"
| "bind T (Delete _) cat = Inr Empty"
| "bind T (Remember _) cat = Inr Empty"
| "bind T (RecallBy _) cat = Inr Empty"
| "bind T (Forget _) cat = Inr Empty"
| "bind T (DiscoverCausal _) cat = Inr Empty"
| "bind T (CreateCausalModel _) cat = Inr Empty"
| "bind T (CreateCollection _) cat = Inr Empty"
| "bind T (CreateIndex _) cat = Inr Empty"
| "bind T (TraceCausality _) cat = Inr Empty"

end
