(* ===== verification/Optimizer.thy ===== *)
theory Optimizer
  imports Logical_Plan
begin

text \<open>
  The rewriting rules of \<open>crates/fundb-optimizer/src/rules.rs\<close> and the fixed-point loop of
  \<open>lib.rs\<close>. Each rule recurses into every child of a plan. The loop compares the printed forms of two
  plans, which is equality of plans here.
\<close>

subsection \<open>Rules\<close>

fun predicate_pushdown :: "logical_plan \<Rightarrow> logical_plan" where
  "predicate_pushdown (Filter (Project child es) p) =
     Project (Filter (predicate_pushdown child) p) es"
| "predicate_pushdown (Filter input p) = Filter (predicate_pushdown input) p"
| "predicate_pushdown (Project input es) = Project (predicate_pushdown input) es"
| "predicate_pushdown (Join l r c) = Join (predicate_pushdown l) (predicate_pushdown r) c"
| "predicate_pushdown (Aggregate input g a) = Aggregate (predicate_pushdown input) g a"
| "predicate_pushdown (Sort input ob) = Sort (predicate_pushdown input) ob"
| "predicate_pushdown (Limit input n) = Limit (predicate_pushdown input) n"
| "predicate_pushdown (ContextOptimize input opts) = ContextOptimize (predicate_pushdown input) opts"
| "predicate_pushdown leaf = leaf"

fun limit_pushdown :: "logical_plan \<Rightarrow> logical_plan" where
  "limit_pushdown (Limit (Project child es) n) = Project (Limit (limit_pushdown child) n) es"
| "limit_pushdown (Limit input n) = Limit (limit_pushdown input) n"
| "limit_pushdown (Filter input p) = Filter (limit_pushdown input) p"
| "limit_pushdown (Project input es) = Project (limit_pushdown input) es"
| "limit_pushdown (Join l r c) = Join (limit_pushdown l) (limit_pushdown r) c"
| "limit_pushdown (Aggregate input g a) = Aggregate (limit_pushdown input) g a"
| "limit_pushdown (Sort input ob) = Sort (limit_pushdown input) ob"
| "limit_pushdown (ContextOptimize input opts) = ContextOptimize (limit_pushdown input) opts"
| "limit_pushdown leaf = leaf"

fun eliminate_redundant_project :: "logical_plan \<Rightarrow> logical_plan" where
  "eliminate_redundant_project (Project input es) =
     (if es = [StarExpr] then eliminate_redundant_project input
      else Project (eliminate_redundant_project input) es)"
| "eliminate_redundant_project (Filter input p) = Filter (eliminate_redundant_project input) p"
| "eliminate_redundant_project (Join l r c) =
     Join (eliminate_redundant_project l) (eliminate_redundant_project r) c"
| "eliminate_redundant_project (Aggregate input g a) =
     Aggregate (eliminate_redundant_project input) g a"
| "eliminate_redundant_project (Sort input ob) = Sort (eliminate_redundant_project input) ob"
| "eliminate_redundant_project (Limit input n) = Limit (eliminate_redundant_project input) n"
| "eliminate_redundant_project (ContextOptimize input opts) =
     ContextOptimize (eliminate_redundant_project input) opts"
| "eliminate_redundant_project leaf = leaf"

text \<open>The folding of \<open>true AND e\<close> and \<open>false OR e\<close>, after the operands.\<close>

definition fold_binary :: "plan_op \<Rightarrow> plan_expr \<Rightarrow> plan_expr \<Rightarrow> plan_expr" where
  "fold_binary op l r =
     (if op = AndOp then
        (if l = Lit (PBool True) then r else if r = Lit (PBool True) then l else Binary op l r)
      else if op = OrOp then
        (if l = Lit (PBool False) then r else if r = Lit (PBool False) then l else Binary op l r)
      else Binary op l r)"

fun fold_expr :: "plan_expr \<Rightarrow> plan_expr" where
  "fold_expr (Binary op l r) = fold_binary op (fold_expr l) (fold_expr r)"
| "fold_expr (Unary op e) = Unary op (fold_expr e)"
| "fold_expr (Call n args) = Call n (map fold_expr args)"
| "fold_expr e = e"

definition fold_agg :: "agg_expr \<Rightarrow> agg_expr" where
  "fold_agg a = AggExpr (agg_func a) (fold_expr (agg_arg a)) (agg_alias a)"

definition fold_sort :: "sort_expr \<Rightarrow> sort_expr" where
  "fold_sort x = SortExpr (fold_expr (se_expr x)) (se_asc x)"

fun constant_fold :: "logical_plan \<Rightarrow> logical_plan" where
  "constant_fold (Filter input p) = Filter (constant_fold input) (fold_expr p)"
| "constant_fold (Project input es) = Project (constant_fold input) (map fold_expr es)"
| "constant_fold (Join l r c) = Join (constant_fold l) (constant_fold r) (fold_expr c)"
| "constant_fold (Aggregate input g a) =
     Aggregate (constant_fold input) (map fold_expr g) (map fold_agg a)"
| "constant_fold (Sort input ob) = Sort (constant_fold input) (map fold_sort ob)"
| "constant_fold (Limit input n) = Limit (constant_fold input) n"
| "constant_fold (ContextOptimize input opts) = ContextOptimize (constant_fold input) opts"
| "constant_fold (Scan c p es) = Scan c (map_option fold_expr p) (map fold_expr es)"
| "constant_fold leaf = leaf"

fun is_vector_dist_predicate :: "plan_expr \<Rightarrow> bool" where
  "is_vector_dist_predicate (Binary op _ _) \<longleftrightarrow> op = VectorDistOp \<or> op = LtOp \<or> op = LeOp"
| "is_vector_dist_predicate _ \<longleftrightarrow> False"

fun is_vector_scan :: "logical_plan \<Rightarrow> bool" where
  "is_vector_scan (VectorScan _ _ _ _) \<longleftrightarrow> True"
| "is_vector_scan _ \<longleftrightarrow> False"

fun vector_scan_elide_filter :: "logical_plan \<Rightarrow> logical_plan" where
  "vector_scan_elide_filter (Filter input p) =
     (if is_vector_scan input \<and> is_vector_dist_predicate p then input
      else Filter (vector_scan_elide_filter input) p)"
| "vector_scan_elide_filter (Project input es) = Project (vector_scan_elide_filter input) es"
| "vector_scan_elide_filter (Join l r c) =
     Join (vector_scan_elide_filter l) (vector_scan_elide_filter r) c"
| "vector_scan_elide_filter (Aggregate input g a) =
     Aggregate (vector_scan_elide_filter input) g a"
| "vector_scan_elide_filter (Sort input ob) = Sort (vector_scan_elide_filter input) ob"
| "vector_scan_elide_filter (Limit input n) = Limit (vector_scan_elide_filter input) n"
| "vector_scan_elide_filter (ContextOptimize input opts) =
     ContextOptimize (vector_scan_elide_filter input) opts"
| "vector_scan_elide_filter leaf = leaf"

subsection \<open>The loop\<close>

definition apply_all_rules :: "logical_plan \<Rightarrow> logical_plan" where
  "apply_all_rules p =
     vector_scan_elide_filter
       (constant_fold (eliminate_redundant_project (limit_pushdown (predicate_pushdown p))))"

text \<open>At most \<open>n\<close> passes; a pass that changes nothing ends the loop.\<close>

fun optimize_loop :: "nat \<Rightarrow> logical_plan \<Rightarrow> logical_plan" where
  "optimize_loop 0 p = p"
| "optimize_loop (Suc n) p =
     (let next = apply_all_rules p in if next = p then p else optimize_loop n next)"

definition optimize :: "logical_plan \<Rightarrow> logical_plan" where
  "optimize p = optimize_loop 8 p"

end
