(* ===== verification/Sorting.thy ===== *)
theory Sorting
  imports Ieee "HOL-Library.Multiset"
begin

text \<open>
  The stable sort of the standard library and the comparisons that are passed to it. The contract of a
  comparison function is a locale over the elements it is used on; its correctness theorems are
  interpreted for the descending order of f32 and f64 scores, and a sort that is cut to its best
  elements is shown to distribute over the parts of a list.
\<close>

datatype ordering = OLess | OEqual | OGreater

fun reverse_ord :: "ordering \<Rightarrow> ordering" where
  "reverse_ord OLess = OGreater"
| "reverse_ord OEqual = OEqual"
| "reverse_ord OGreater = OLess"

text \<open>
  The stable sort of the standard library, for a comparison that orders the elements: the only
  stable permutation that is sorted.
\<close>

fun insert_by :: "('a \<Rightarrow> 'a \<Rightarrow> ordering) \<Rightarrow> 'a \<Rightarrow> 'a list \<Rightarrow> 'a list" where
  "insert_by c x [] = [x]"
| "insert_by c x (y # ys) = (if c x y = OGreater then y # insert_by c x ys else x # y # ys)"

definition sort_by :: "('a \<Rightarrow> 'a \<Rightarrow> ordering) \<Rightarrow> 'a list \<Rightarrow> 'a list" where
  "sort_by c xs = foldr (insert_by c) xs []"

lemma mset_insert_by [simp]: "mset (insert_by c x xs) = add_mset x (mset xs)"
  by (induction xs) auto

lemma mset_sort_by [simp]: "mset (sort_by c xs) = mset xs"
  by (induction xs) (auto simp: sort_by_def)

lemma set_insert_by [simp]: "set (insert_by c x xs) = insert x (set xs)"
  by (induction xs) auto

lemma sort_by_Nil [simp]: "sort_by c [] = []"
  by (simp add: sort_by_def)

lemma sort_by_Cons [simp]: "sort_by c (x # xs) = insert_by c x (sort_by c xs)"
  by (simp add: sort_by_def)

lemma set_sort_by [simp]: "set (sort_by c xs) = set xs"
  by (induction xs) auto

lemma length_sort_by [simp]: "length (sort_by c xs) = length xs"
  by (metis mset_sort_by size_mset)

lemma map_insert_by:
  "map f (insert_by (\<lambda>x y. c (f x) (f y)) x xs) = insert_by c (f x) (map f xs)"
  by (induction xs) auto

lemma map_sort_by: "map f (sort_by (\<lambda>x y. c (f x) (f y)) xs) = sort_by c (map f xs)"
  by (induction xs) (auto simp: map_insert_by)

lemma sort_by_cong:
  assumes "\<And>x y. x \<in> set xs \<Longrightarrow> y \<in> set xs \<Longrightarrow> c x y = d x y"
  shows "sort_by c xs = sort_by d xs"
proof -
  have ins: "insert_by c x ys = insert_by d x ys" if "x \<in> set xs" "set ys \<subseteq> set xs" for x ys
    using that assms by (induction ys) auto
  have "sort_by c ys = sort_by d ys" if "set ys \<subseteq> set xs" for ys
    using that by (induction ys) (auto simp: ins)
  then show ?thesis by blast
qed

lemma reverse_ord_twice [simp]: "reverse_ord (reverse_ord c) = c"
  by (cases c) auto

lemma reverse_ord_inject [simp]: "reverse_ord c = reverse_ord d \<longleftrightarrow> c = d"
  by (cases c; cases d) auto

lemma reverse_ord_eq [simp]: "reverse_ord c = OEqual \<longleftrightarrow> c = OEqual"
  "reverse_ord c = OLess \<longleftrightarrow> c = OGreater" "reverse_ord c = OGreater \<longleftrightarrow> c = OLess"
  by (cases c; simp)+

locale comparator =
  fixes cmp :: "'a \<Rightarrow> 'a \<Rightarrow> ordering" and ok :: "'a \<Rightarrow> bool"
  assumes rev: "ok x \<Longrightarrow> ok y \<Longrightarrow> cmp y x = reverse_ord (cmp x y)"
    and trans: "ok x \<Longrightarrow> ok y \<Longrightarrow> ok z \<Longrightarrow> cmp x y \<noteq> OGreater \<Longrightarrow> cmp y z \<noteq> OGreater \<Longrightarrow>
      cmp x z \<noteq> OGreater"
begin

lemma eq_cong: "ok x \<Longrightarrow> ok y \<Longrightarrow> ok z \<Longrightarrow> cmp x y = OEqual \<Longrightarrow> cmp x z = cmp y z"
  using trans [of x y z] trans [of y x z] trans [of z x y] trans [of z y x]
    rev [of x y] rev [of x z] rev [of y z]
  by (cases "cmp x z"; cases "cmp y z") auto

lemma eq_cong_right: "ok x \<Longrightarrow> ok y \<Longrightarrow> ok z \<Longrightarrow> cmp y z = OEqual \<Longrightarrow> cmp x z = cmp x y"
  using eq_cong [of y z x] rev [of x y] rev [of x z] by simp

lemma strict_trans:
  "ok x \<Longrightarrow> ok y \<Longrightarrow> ok z \<Longrightarrow> cmp x y = c \<Longrightarrow> cmp y z = c \<Longrightarrow> cmp x z = c"
  using trans [of x y z] trans [of z y x] rev [of x y] rev [of y z] rev [of x z]
    eq_cong [of x y z] eq_cong [of x z y]
  by (cases c; cases "cmp x z") auto

lemma sorted_insert_by:
  "ok x \<Longrightarrow> \<forall>y\<in>set xs. ok y \<Longrightarrow> sorted_wrt (\<lambda>a b. cmp a b \<noteq> OGreater) xs \<Longrightarrow>
     sorted_wrt (\<lambda>a b. cmp a b \<noteq> OGreater) (insert_by cmp x xs)"
proof (induction xs)
  case (Cons y ys)
  show ?case
  proof (cases "cmp x y = OGreater")
    case True
    then have "cmp y x \<noteq> OGreater" using rev [of x y] Cons.prems by simp
    with True Cons show ?thesis by auto
  next
    case False
    with Cons.prems show ?thesis using trans [of x y] by auto
  qed
qed simp

lemma sorted_sort_by:
  "\<forall>x\<in>set xs. ok x \<Longrightarrow> sorted_wrt (\<lambda>a b. cmp a b \<noteq> OGreater) (sort_by cmp xs)"
  by (induction xs) (auto simp: sorted_insert_by)

lemma filter_insert_by:
  "ok x \<Longrightarrow> ok z \<Longrightarrow> \<forall>y\<in>set xs. ok y \<Longrightarrow>
     filter (\<lambda>y. cmp z y = OEqual) (insert_by cmp x xs) = filter (\<lambda>y. cmp z y = OEqual) (x # xs)"
proof (induction xs)
  case (Cons y ys)
  have "cmp x y \<noteq> OGreater" if "cmp z x = OEqual" "cmp z y = OEqual"
    using that Cons.prems eq_cong [of z x y] by simp
  with Cons show ?case by auto
qed simp

lemma stable_sort_by:
  "ok z \<Longrightarrow> \<forall>x\<in>set xs. ok x \<Longrightarrow>
     filter (\<lambda>y. cmp z y = OEqual) (sort_by cmp xs) = filter (\<lambda>y. cmp z y = OEqual) xs"
proof (induction xs)
  case (Cons x xs)
  then show ?case using filter_insert_by [of x z "sort_by cmp xs"] by simp
qed simp

end

subsection \<open>Descending scores\<close>

text \<open>\<open>b.partial_cmp(&a).unwrap_or(Equal)\<close>: a NaN compares equal to everything.\<close>

definition desc_f32 :: "f32 \<Rightarrow> f32 \<Rightarrow> ordering" where
  "desc_f32 a b = (if f32_lt b a then OLess else if f32_lt a b then OGreater else OEqual)"

definition desc_f64 :: "f64 \<Rightarrow> f64 \<Rightarrow> ordering" where
  "desc_f64 a b = (if f64_lt b a then OLess else if f64_lt a b then OGreater else OEqual)"

definition f32_key :: "f32 \<Rightarrow> int" where
  "f32_key a = order_key Binary32 (unat a)"

definition f64_key :: "f64 \<Rightarrow> int" where
  "f64_key a = order_key Binary64 (unat a)"

lemma f32_lt_key: "\<not> f32_is_nan a \<Longrightarrow> \<not> f32_is_nan b \<Longrightarrow> f32_lt a b \<longleftrightarrow> f32_key a < f32_key b"
  by (simp add: f32_lt_def f32_is_nan_def fp_lt_def f32_key_def)

lemma f64_lt_key': "\<not> f64_is_nan a \<Longrightarrow> \<not> f64_is_nan b \<Longrightarrow> f64_lt a b \<longleftrightarrow> f64_key a < f64_key b"
  by (simp add: f64_lt_def f64_is_nan_def fp_lt_def f64_key_def)

interpretation score32: comparator "\<lambda>x y. desc_f32 (f x) (f y)" "\<lambda>x. \<not> f32_is_nan (f x)" for f
  by unfold_locales (auto simp: desc_f32_def f32_lt_key split: if_splits)

interpretation score64: comparator "\<lambda>x y. desc_f64 (f x) (f y)" "\<lambda>x. \<not> f64_is_nan (f x)" for f
  by unfold_locales (auto simp: desc_f64_def f64_lt_key' split: if_splits)

text \<open>On scores that are numbers, the sort is the library's sort by the negated key.\<close>

lemma insert_by_insort:
  assumes "\<forall>y\<in>set ys. c x y = OGreater \<longleftrightarrow> k y < k x"
  shows "insert_by c x ys = insort_key k x ys"
  using assms by (induction ys) auto

lemma sort_by_sort_key:
  assumes "\<forall>x\<in>set xs. \<forall>y\<in>set xs. c x y = OGreater \<longleftrightarrow> k y < k x"
  shows "sort_by c xs = sort_key k xs"
  using assms
proof (induction xs)
  case (Cons x xs)
  have "insert_by c x (sort_key k xs) = insort_key k x (sort_key k xs)"
    using Cons.prems by (intro insert_by_insort) simp
  with Cons show ?case by simp
qed simp

lemma sort_desc_f32:
  "\<forall>x\<in>set xs. \<not> f32_is_nan (f x) \<Longrightarrow>
     sort_by (\<lambda>x y. desc_f32 (f x) (f y)) xs = sort_key (\<lambda>x. - f32_key (f x)) xs"
  by (rule sort_by_sort_key) (auto simp: desc_f32_def f32_lt_key)

lemma sort_desc_f64:
  "\<forall>x\<in>set xs. \<not> f64_is_nan (f x) \<Longrightarrow>
     sort_by (\<lambda>x y. desc_f64 (f x) (f y)) xs = sort_key (\<lambda>x. - f64_key (f x)) xs"
  by (rule sort_by_sort_key) (auto simp: desc_f64_def f64_lt_key')

subsection \<open>The best elements of a list that is kept in parts\<close>

fun merge_by :: "('a \<Rightarrow> 'k::linorder) \<Rightarrow> 'a list \<Rightarrow> 'a list \<Rightarrow> 'a list" where
  "merge_by k [] ys = ys"
| "merge_by k xs [] = xs"
| "merge_by k (x # xs) (y # ys) =
     (if k y < k x then y # merge_by k (x # xs) ys else x # merge_by k xs (y # ys))"

lemma merge_by_Nil2 [simp]: "merge_by k xs [] = xs"
  by (cases xs) simp_all

lemma mset_merge_by [simp]: "mset (merge_by k xs ys) = mset xs + mset ys"
  by (induction k xs ys rule: merge_by.induct) auto

lemma set_merge_by [simp]: "set (merge_by k xs ys) = set xs \<union> set ys"
  by (induction k xs ys rule: merge_by.induct) auto

lemma sorted_merge_by:
  "sorted (map k xs) \<Longrightarrow> sorted (map k ys) \<Longrightarrow> sorted (map k (merge_by k xs ys))"
  by (induction k xs ys rule: merge_by.induct) (auto simp: le_less_trans less_imp_le)

lemma filter_merge_by:
  "sorted (map k xs) \<Longrightarrow> sorted (map k ys) \<Longrightarrow>
     filter (\<lambda>x. k x = v) (merge_by k xs ys) = filter (\<lambda>x. k x = v) xs @ filter (\<lambda>x. k x = v) ys"
proof (induction k xs ys rule: merge_by.induct)
  case (3 k x xs y ys)
  have "filter (\<lambda>x. k x = v) (x # xs) = []" if "k y < k x" "k y = v"
    using that "3.prems"(1) by (auto simp: filter_empty_conv)
  with 3 show ?case by auto
qed simp_all

lemma sort_key_append: "sort_key k (xs @ ys) = merge_by k (sort_key k xs) (sort_key k ys)"
proof (rule properties_for_sort_key)
  fix v
  show "filter (\<lambda>x. k v = k x) (merge_by k (sort_key k xs) (sort_key k ys)) = filter (\<lambda>x. k v = k x) (xs @ ys)"
    using filter_merge_by [of k "sort_key k xs" "sort_key k ys" "k v"]
    by (simp add: eq_commute [of "k v"] sort_key_stable)
qed (simp_all add: sorted_merge_by)

lemma take_merge_by:
  "n \<le> i \<Longrightarrow> n \<le> j \<Longrightarrow> take n (merge_by k (take i xs) (take j ys)) = take n (merge_by k xs ys)"
proof (induction k xs ys arbitrary: n i j rule: merge_by.induct)
  case (3 k x xs y ys)
  show ?case
  proof (cases n)
    case (Suc m)
    then obtain i' j' where i: "i = Suc i'" and j: "j = Suc j'"
      using "3.prems" by (metis Suc_le_D)
    show ?thesis
    proof (cases "k y < k x")
      case True
      with "3.IH"(1) [of m i j'] "3.prems" Suc i j show ?thesis by simp
    next
      case False
      with "3.IH"(2) [of m i' j] "3.prems" Suc i j show ?thesis by simp
    qed
  qed simp
qed simp_all

text \<open>
  The best \<open>n\<close> elements of a concatenation are found among the best \<open>m \<ge> n\<close> elements of each part.
\<close>

theorem take_sort_concat:
  assumes "n \<le> m"
  shows "take n (sort_key k (concat (map (\<lambda>xs. take m (sort_key k xs)) xss))) = take n (sort_key k (concat xss))"
proof (induction xss)
  case (Cons xs xss)
  have part: "sort_key k (take m (sort_key k xs)) = take m (sort_key k xs)"
    by (rule sort_key_id_if_sorted) (metis sorted_sort_key sorted_wrt_take take_map)
  have "take n (sort_key k (concat (map (\<lambda>xs. take m (sort_key k xs)) (xs # xss)))) =
      take n (merge_by k (take m (sort_key k xs)) (sort_key k (concat (map (\<lambda>xs. take m (sort_key k xs)) xss))))"
    by (simp add: sort_key_append part)
  also have "\<dots> = take n (merge_by k (take n (take m (sort_key k xs)))
      (take n (sort_key k (concat (map (\<lambda>xs. take m (sort_key k xs)) xss)))))"
    by (rule take_merge_by [symmetric]) simp_all
  also have "\<dots> = take n (merge_by k (take n (sort_key k xs)) (take n (sort_key k (concat xss))))"
    using assms Cons.IH by (simp add: min_absorb1)
  also have "\<dots> = take n (sort_key k (concat (xs # xss)))"
    by (simp add: sort_key_append take_merge_by)
  finally show ?case .
qed simp

end
