(* ===== verification/Executor.thy ===== *)
theory Executor
  imports Binder Optimizer Lsm Sorting
begin

text \<open>
  The query executor, \<open>crates/fundb-executor\<close>: record batches (\<open>batch.rs\<close>), the physical operators
  (\<open>operators/\<close>) and the dispatch over plans (\<open>lib.rs\<close>), run on the storage engine. The MessagePack
  form of a record's user data is other crates' code: its decoder and encoder are the fields of \<open>D\<close>. A
  row to insert receives its id, its clock readings and its file-name time stamps from \<open>E\<close>, by its position.
\<close>

subsection \<open>Batches\<close>

record record_batch =
  rb_keys :: "record_key list"
  rb_records :: "fun_record list"

definition batch_new :: record_batch where
  "batch_new = \<lparr>rb_keys = [], rb_records = []\<rparr>"

definition batch_push :: "record_key \<Rightarrow> fun_record \<Rightarrow> record_batch \<Rightarrow> record_batch" where
  "batch_push k r b = b\<lparr>rb_keys := rb_keys b @ [k], rb_records := rb_records b @ [r]\<rparr>"

definition batch_len :: "record_batch \<Rightarrow> nat" where
  "batch_len b = length (rb_keys b)"

definition batch_is_empty :: "record_batch \<Rightarrow> bool" where
  "batch_is_empty b \<longleftrightarrow> rb_keys b = []"

definition batch_extend :: "(record_key \<times> fun_record) list \<Rightarrow> record_batch \<Rightarrow> record_batch" where
  "batch_extend ps b = fold (\<lambda>(k, r). batch_push k r) ps b"

definition batch_merge :: "record_batch \<Rightarrow> record_batch \<Rightarrow> record_batch" where
  "batch_merge a b = \<lparr>rb_keys = rb_keys a @ rb_keys b, rb_records = rb_records a @ rb_records b\<rparr>"

definition batch_truncate :: "nat \<Rightarrow> record_batch \<Rightarrow> record_batch" where
  "batch_truncate n b = \<lparr>rb_keys = take n (rb_keys b), rb_records = take n (rb_records b)\<rparr>"

definition batch_rows :: "record_batch \<Rightarrow> (record_key \<times> fun_record) list" where
  "batch_rows b = zip (rb_keys b) (rb_records b)"

subsection \<open>User data\<close>

datatype data_value = DBool bool | DInt int | DFloat f64 | DStr string | DNull

datatype msg_value =
  MStr ustring | MInt int | MFloat f64 | MBool bool | MNull | MArray "f64 list"

record data_codec =
  data_dec :: "bytes \<Rightarrow> (string \<Rightarrow> data_value option) option"
  data_enc :: "(ustring, msg_value) btree_map \<Rightarrow> bytes option"

subsection \<open>Filter\<close>

fun extract_float :: "plan_expr \<Rightarrow> f64 option" where
  "extract_float (Lit (PFloat f)) = Some f"
| "extract_float (Lit (PInt i)) = Some (int_as_f64 i)"
| "extract_float _ = None"

definition f32_epsilon :: f32 where
  "f32_epsilon = 0x34000000"

definition f64_epsilon :: f64 where
  "f64_epsilon = 0x3CB0000000000000"

fun compare_f32 :: "f32 \<Rightarrow> plan_op \<Rightarrow> f32 \<Rightarrow> bool" where
  "compare_f32 a EqOp b = f32_lt (f32_abs (f32_sub a b)) f32_epsilon"
| "compare_f32 a NeOp b = f32_le f32_epsilon (f32_abs (f32_sub a b))"
| "compare_f32 a LtOp b = f32_lt a b"
| "compare_f32 a LeOp b = f32_le a b"
| "compare_f32 a GtOp b = f32_lt b a"
| "compare_f32 a GeOp b = f32_le b a"
| "compare_f32 a _ b = True"

fun compare_f64 :: "f64 \<Rightarrow> plan_op \<Rightarrow> f64 \<Rightarrow> bool" where
  "compare_f64 a EqOp b = f64_lt (f64_abs (f64_sub a b)) f64_epsilon"
| "compare_f64 a NeOp b = f64_le f64_epsilon (f64_abs (f64_sub a b))"
| "compare_f64 a LtOp b = f64_lt a b"
| "compare_f64 a LeOp b = f64_le a b"
| "compare_f64 a GtOp b = f64_lt b a"
| "compare_f64 a GeOp b = f64_le b a"
| "compare_f64 a _ b = True"

fun compare_str :: "string \<Rightarrow> plan_op \<Rightarrow> string \<Rightarrow> bool" where
  "compare_str a EqOp b \<longleftrightarrow> a = b"
| "compare_str a NeOp b \<longleftrightarrow> a \<noteq> b"
| "compare_str a LtOp b \<longleftrightarrow> a < b"
| "compare_str a LeOp b \<longleftrightarrow> a \<le> b"
| "compare_str a GtOp b \<longleftrightarrow> b < a"
| "compare_str a GeOp b \<longleftrightarrow> b \<le> a"
| "compare_str a _ b \<longleftrightarrow> True"

fun flip_op :: "plan_op \<Rightarrow> plan_op" where
  "flip_op LtOp = GtOp"
| "flip_op LeOp = GeOp"
| "flip_op GtOp = LtOp"
| "flip_op GeOp = LeOp"
| "flip_op other = other"

definition compare_bool :: "bool \<Rightarrow> plan_op \<Rightarrow> bool \<Rightarrow> bool" where
  "compare_bool a op b = (if op = EqOp then a = b else if op = NeOp then a \<noteq> b else True)"

text \<open>The value of a data field against an expression; anything but two values of one type fails.\<close>

definition eval_field :: "data_value \<Rightarrow> plan_op \<Rightarrow> plan_expr \<Rightarrow> bool" where
  "eval_field v op e =
     (case (v, extract_float e) of
        (DInt i, Some f) \<Rightarrow> compare_f64 (int_as_f64 i) op f
      | (DFloat x, Some f) \<Rightarrow> compare_f64 x op f
      | _ \<Rightarrow>
          (case (v, e) of
             (DStr x, Lit (PString s)) \<Rightarrow> compare_str x op (utf8 s)
           | (DBool x, Lit (PBool b)) \<Rightarrow> compare_bool x op b
           | _ \<Rightarrow> False))"

definition eval_column_vs_literal ::
  "data_codec \<Rightarrow> ustring \<Rightarrow> plan_op \<Rightarrow> plan_expr \<Rightarrow> fun_record \<Rightarrow> bool" where
  "eval_column_vs_literal D col op e r =
     (if col = text_of ''_collection'' then
        (case e of Lit (PString s) \<Rightarrow> compare_str (rec_collection r) op (utf8 s) | _ \<Rightarrow> True)
      else if col = text_of ''_tenant'' then
        (case extract_float e of
           Some f \<Rightarrow> compare_f64 (int_as_f64 (uint (rec_tenant r))) op f | None \<Rightarrow> True)
      else if col = text_of ''_confidence'' then
        (case extract_float e of
           Some f \<Rightarrow> compare_f32 (rec_confidence r) op (f64_as_f32 f) | None \<Rightarrow> True)
      else
        (case data_dec D (rec_data r) of
           None \<Rightarrow> True
         | Some m \<Rightarrow>
             (case m (utf8 col) of None \<Rightarrow> False | Some v \<Rightarrow> eval_field v op e)))"

fun is_column :: "plan_expr \<Rightarrow> ustring option" where
  "is_column (Column c) = Some c"
| "is_column _ = None"

definition confidence_column :: "plan_expr \<Rightarrow> bool" where
  "confidence_column e \<longleftrightarrow> is_column e = Some (text_of ''_confidence'')"

definition eval_binary ::
  "data_codec \<Rightarrow> plan_op \<Rightarrow> plan_expr \<Rightarrow> plan_expr \<Rightarrow> fun_record \<Rightarrow> bool" where
  "eval_binary D op left right r =
     (if confidence_column left \<and> extract_float right \<noteq> None then
        compare_f32 (rec_confidence r) op (f64_as_f32 (the (extract_float right)))
      else if confidence_column right \<and> extract_float left \<noteq> None then
        compare_f32 (f64_as_f32 (the (extract_float left))) (flip_op op) (rec_confidence r)
      else
        (case is_column left of
           Some col \<Rightarrow> eval_column_vs_literal D col op right r
         | None \<Rightarrow>
             (case is_column right of
                Some col \<Rightarrow> eval_column_vs_literal D col (flip_op op) left r
              | None \<Rightarrow> True)))"

fun eval_expr :: "data_codec \<Rightarrow> plan_expr \<Rightarrow> fun_record \<Rightarrow> bool" where
  "eval_expr D (Lit (PBool b)) r = b"
| "eval_expr D (Lit PNull) r = False"
| "eval_expr D (Binary op a b) r =
     (if op = AndOp then eval_expr D a r \<and> eval_expr D b r
      else if op = OrOp then eval_expr D a r \<or> eval_expr D b r
      else eval_binary D op a b r)"
| "eval_expr D (Unary NotOp e) r = (\<not> eval_expr D e r)"
| "eval_expr D _ r = True"

definition filter_op :: "data_codec \<Rightarrow> plan_expr \<Rightarrow> record_batch \<Rightarrow> record_batch" where
  "filter_op D p b =
     fold (\<lambda>(k, r) out. if eval_expr D p r then batch_push k r out else out) (batch_rows b) batch_new"

subsection \<open>Project\<close>

definition project_op :: "plan_expr list \<Rightarrow> record_batch \<Rightarrow> record_batch" where
  "project_op es b = b"

subsection \<open>Sort\<close>

definition cmp_str :: "string \<Rightarrow> string \<Rightarrow> ordering" where
  "cmp_str a b = (if a < b then OLess else if a = b then OEqual else OGreater)"

text \<open>\<open>partial_cmp(..).unwrap_or(Equal)\<close>.\<close>

definition cmp_f64 :: "f64 \<Rightarrow> f64 \<Rightarrow> ordering" where
  "cmp_f64 a b = (if f64_lt a b then OLess else if f64_lt b a then OGreater else OEqual)"

datatype sort_value = SFloat f64 | SStr string | SNull

fun compare_sort_values :: "sort_value \<Rightarrow> sort_value \<Rightarrow> ordering" where
  "compare_sort_values SNull SNull = OEqual"
| "compare_sort_values SNull _ = OGreater"
| "compare_sort_values _ SNull = OLess"
| "compare_sort_values (SFloat a) (SFloat b) = cmp_f64 a b"
| "compare_sort_values (SStr a) (SStr b) = cmp_str a b"
| "compare_sort_values (SFloat _) (SStr _) = OLess"
| "compare_sort_values (SStr _) (SFloat _) = OGreater"

fun sort_value_of :: "data_value option \<Rightarrow> sort_value" where
  "sort_value_of (Some (DInt i)) = SFloat (int_as_f64 i)"
| "sort_value_of (Some (DFloat f)) = SFloat f"
| "sort_value_of (Some (DStr s)) = SStr s"
| "sort_value_of (Some (DBool b)) = SFloat (if b then 0x3FF0000000000000 else 0)"
| "sort_value_of (Some DNull) = SNull"
| "sort_value_of None = SNull"

definition extract_sort_value :: "data_codec \<Rightarrow> fun_record \<Rightarrow> ustring \<Rightarrow> sort_value" where
  "extract_sort_value D r col =
     (if col = text_of ''_confidence'' then SFloat (f32_as_f64 (rec_confidence r))
      else if col = text_of ''_collection'' then SStr (rec_collection r)
      else if col = text_of ''_tenant'' then SFloat (int_as_f64 (uint (rec_tenant r)))
      else
        (case data_dec D (rec_data r) of
           None \<Rightarrow> SNull | Some m \<Rightarrow> sort_value_of (m (utf8 col))))"

fun compare_records :: "data_codec \<Rightarrow> sort_expr list \<Rightarrow> fun_record \<Rightarrow> fun_record \<Rightarrow> ordering" where
  "compare_records D [] a b = OEqual"
| "compare_records D (SortExpr e asc # rest) a b =
     (case is_column e of
        None \<Rightarrow> compare_records D rest a b
      | Some col \<Rightarrow>
          let c = compare_sort_values (extract_sort_value D a col) (extract_sort_value D b col)
          in if c = OEqual then compare_records D rest a b
             else if asc then c else reverse_ord c)"

definition sort_op :: "data_codec \<Rightarrow> sort_expr list \<Rightarrow> record_batch \<Rightarrow> record_batch" where
  "sort_op D order_by b =
     (if order_by = [] \<or> batch_is_empty b then b
      else
        let indices = sort_by (\<lambda>i j. compare_records D order_by (rb_records b ! i) (rb_records b ! j))
              [0..<batch_len b]
        in fold (\<lambda>i. batch_push (rb_keys b ! i) (rb_records b ! i)) indices batch_new)"

subsection \<open>Scans\<close>

definition scan_from :: "ustring \<Rightarrow> record_key" where
  "scan_from c = RecordKey (utf8 c) (replicate 16 0)"

definition scan_to :: "ustring \<Rightarrow> record_key" where
  "scan_to c = RecordKey (utf8 c @ [CHR 0x7F]) (replicate 16 0xFF)"

definition scan_op :: "ext \<Rightarrow> ustring \<Rightarrow> lsm \<Rightarrow> lsm_error + record_batch" where
  "scan_op X c s =
     map_sum id (\<lambda>ps. batch_extend ps batch_new) (lsm_scan X (scan_from c) (scan_to c) s)"

definition f32_dot :: "f32 list \<Rightarrow> f32 list \<Rightarrow> f32" where
  "f32_dot a b = foldl f32_add f32_zero (map2 f32_mul a b)"

definition cosine_distance :: "f32 list \<Rightarrow> f32 list \<Rightarrow> f32" where
  "cosine_distance a b =
     (if length a \<noteq> length b \<or> a = [] then f32_one
      else
        let dot = f32_dot a b; na = f32_sqrt (f32_dot a a); nb = f32_sqrt (f32_dot b b)
        in if f32_eq_zero na \<or> f32_eq_zero nb then f32_one
           else f32_sub f32_one (f32_div dot (f32_mul na nb)))"

definition within_distance :: "ustring \<Rightarrow> f32 list \<Rightarrow> f32 \<Rightarrow> fun_record \<Rightarrow> bool" where
  "within_distance field query threshold r \<longleftrightarrow>
     (case map_of (rec_vectors r) (utf8 field) of
        None \<Rightarrow> False
      | Some v \<Rightarrow> f32_lt (cosine_distance query v) threshold)"

definition vector_scan_op ::
  "ext \<Rightarrow> ustring \<Rightarrow> ustring \<Rightarrow> f32 list \<Rightarrow> f32 \<Rightarrow> lsm \<Rightarrow> lsm_error + record_batch" where
  "vector_scan_op X c field query threshold s =
     map_sum id (\<lambda>b. fold (\<lambda>(k, r) out. if within_distance field query threshold r
                              then batch_push k r out else out) (batch_rows b) batch_new)
       (scan_op X c s)"

subsection \<open>Insert\<close>

fun eval_expr_to_value :: "plan_expr \<Rightarrow> msg_value" where
  "eval_expr_to_value (Lit (PString s)) = MStr s"
| "eval_expr_to_value (Lit (PInt i)) = MInt i"
| "eval_expr_to_value (Lit (PFloat f)) = MFloat f"
| "eval_expr_to_value (Lit (PBool b)) = MBool b"
| "eval_expr_to_value (Lit PNull) = MNull"
| "eval_expr_to_value (Lit (PVector v)) = MArray (map f32_as_f64 v)"
| "eval_expr_to_value _ = MNull"

fun confidence_of :: "msg_value \<Rightarrow> f32 option" where
  "confidence_of (MFloat f) = Some (f64_as_f32 f)"
| "confidence_of (MInt i) = Some (int_as_f32 i)"
| "confidence_of _ = None"

text \<open>The loop over the expressions of a row: it fills the data map and the builder.\<close>

fun row_loop :: "ustring list \<Rightarrow> plan_expr list \<Rightarrow> (ustring, msg_value) btree_map \<Rightarrow> record_builder \<Rightarrow>
    (ustring, msg_value) btree_map \<times> record_builder" where
  "row_loop cols [] m b = (m, b)"
| "row_loop cols (e # es) m b =
     (let (col, cols') = (case cols of [] \<Rightarrow> (text_of ''_unknown'', []) | c # cs \<Rightarrow> (c, cs));
          v = eval_expr_to_value e
      in if col = text_of ''_confidence''
         then row_loop cols' es m
                (case confidence_of v of None \<Rightarrow> b | Some c \<Rightarrow> builder_confidence c b)
         else row_loop cols' es (bt_insert col v m) b)"

record row_env =
  new_id :: uuid
  now_ns :: timestamp
  flush_ts :: nat
  compact_ts :: nat

definition row_record ::
  "data_codec \<Rightarrow> ustring \<Rightarrow> ustring list \<Rightarrow> plan_expr list \<Rightarrow> row_env \<Rightarrow> fun_record" where
  "row_record D c cols row env =
     (let (m, b) = row_loop cols row [] (builder_new (utf8 c));
          bytes = (case data_enc D m of None \<Rightarrow> [] | Some bs \<Rightarrow> bs)
      in builder_build (new_id env) (now_ns env) (builder_data bytes b))"

text \<open>The rows from the \<open>i\<close>-th on.\<close>

fun insert_rows :: "ext \<Rightarrow> data_codec \<Rightarrow> (nat \<Rightarrow> row_env) \<Rightarrow> ustring \<Rightarrow> ustring list \<Rightarrow> nat \<Rightarrow>
    plan_expr list list \<Rightarrow> lsm \<Rightarrow> lsm \<times> lsm_error option" where
  "insert_rows X D E c cols i [] s = (s, None)"
| "insert_rows X D E c cols i (row # rows) s =
     (let r = row_record D c cols row (E i)
      in case lsm_write X (flush_ts (E i)) (compact_ts (E i)) (RecordKey (utf8 c) (rec_id r)) r s of
           (s1, Some e) \<Rightarrow> (s1, Some e)
         | (s1, None) \<Rightarrow> insert_rows X D E c cols (Suc i) rows s1)"

subsection \<open>Plans\<close>

text \<open>Run \<open>f\<close> on the batch of a sub-plan.\<close>

definition on_batch :: "(record_batch \<Rightarrow> record_batch) \<Rightarrow> lsm \<times> (lsm_error + record_batch) \<Rightarrow>
    lsm \<times> (lsm_error + record_batch)" where
  "on_batch f = map_prod id (map_sum id f)"

fun execute_plan :: "ext \<Rightarrow> data_codec \<Rightarrow> (nat \<Rightarrow> row_env) \<Rightarrow> logical_plan \<Rightarrow> lsm \<Rightarrow>
    lsm \<times> (lsm_error + record_batch)" where
  "execute_plan X D E (Scan c p es) s =
     (s, map_sum id (\<lambda>b.
           let b1 = (case p of None \<Rightarrow> b | Some e \<Rightarrow> filter_op D e b)
           in if es = [] then b1 else project_op es b1) (scan_op X c s))"
| "execute_plan X D E (VectorScan c field query threshold) s =
     (s, vector_scan_op X c field query threshold s)"
| "execute_plan X D E (Filter input p) s = on_batch (filter_op D p) (execute_plan X D E input s)"
| "execute_plan X D E (Project input es) s = on_batch (project_op es) (execute_plan X D E input s)"
| "execute_plan X D E (Limit input n) s = on_batch (batch_truncate n) (execute_plan X D E input s)"
| "execute_plan X D E (Sort input ob) s = on_batch (sort_op D ob) (execute_plan X D E input s)"
| "execute_plan X D E (InsertPlan c cols rows) s =
     (case insert_rows X D E c cols 0 rows s of
        (s1, Some e) \<Rightarrow> (s1, Inl e) | (s1, None) \<Rightarrow> (s1, Inr batch_new))"
| "execute_plan X D E _ s = (s, Inr batch_new)"

definition execute :: "ext \<Rightarrow> data_codec \<Rightarrow> (nat \<Rightarrow> row_env) \<Rightarrow> logical_plan \<Rightarrow> lsm \<Rightarrow>
    lsm \<times> (lsm_error + record_batch)" where
  "execute X D E p s = execute_plan X D E (optimize p) s"

end
