(* ===== verification/Comparator.thy ===== *)
theory Comparator
  imports Executor
begin

text \<open>
  The comparison of records by the keys of an ORDER BY clause, as an interpretation of the locale of
  comparison functions, and the order it stands for.
\<close>

subsection \<open>The comparison of records\<close>

text \<open>A key that a float comparison can order: anything but a NaN.\<close>

fun orderable :: "sort_value \<Rightarrow> bool" where
  "orderable (SFloat f) \<longleftrightarrow> \<not> f64_is_nan f"
| "orderable _ \<longleftrightarrow> True"

text \<open>The records whose keys of an ORDER BY clause are all orderable.\<close>

fun comparable :: "data_codec \<Rightarrow> sort_expr list \<Rightarrow> fun_record \<Rightarrow> bool" where
  "comparable D [] r \<longleftrightarrow> True"
| "comparable D (SortExpr e _ # rest) r \<longleftrightarrow>
     (case is_column e of None \<Rightarrow> True | Some col \<Rightarrow> orderable (extract_sort_value D r col)) \<and>
     comparable D rest r"

lemma f64_lt_key:
  "\<not> f64_is_nan a \<Longrightarrow> \<not> f64_is_nan b \<Longrightarrow>
     f64_lt a b \<longleftrightarrow> order_key Binary64 (unat a) < order_key Binary64 (unat b)"
  by (simp add: f64_lt_def f64_is_nan_def fp_lt_def)

interpretation sort_keys: comparator compare_sort_values orderable
proof
  fix x y assume "orderable x" "orderable y"
  then show "compare_sort_values y x = reverse_ord (compare_sort_values x y)"
    by (cases x; cases y) (auto simp: cmp_f64_def cmp_str_def f64_lt_key)
next
  fix x y z
  assume "orderable x" "orderable y" "orderable z"
    "compare_sort_values x y \<noteq> OGreater" "compare_sort_values y z \<noteq> OGreater"
  then show "compare_sort_values x z \<noteq> OGreater"
    by (cases x; cases y; cases z)
      (auto simp: cmp_f64_def cmp_str_def f64_lt_key split: if_splits)
qed

lemma compare_records_rev:
  "comparable D ob x \<Longrightarrow> comparable D ob y \<Longrightarrow>
     compare_records D ob y x = reverse_ord (compare_records D ob x y)"
proof (induction D ob x y rule: compare_records.induct)
  case (2 D e asc rest x y)
  show ?case
  proof (cases "is_column e")
    case None
    with 2 show ?thesis by simp
  next
    case (Some col)
    have r: "compare_sort_values (extract_sort_value D y col) (extract_sort_value D x col) =
        reverse_ord (compare_sort_values (extract_sort_value D x col) (extract_sort_value D y col))"
      using 2(3,4) Some by (intro sort_keys.rev) auto
    with Some 2 show ?thesis by (auto simp: Let_def)
  qed
qed simp

lemma compare_records_trans:
  "comparable D ob x \<Longrightarrow> comparable D ob y \<Longrightarrow> comparable D ob z \<Longrightarrow>
     compare_records D ob x y \<noteq> OGreater \<Longrightarrow> compare_records D ob y z \<noteq> OGreater \<Longrightarrow>
     compare_records D ob x z \<noteq> OGreater"
proof (induction ob)
  case (Cons a ob)
  obtain e asc where a: "a = SortExpr e asc" by (cases a)
  show ?case
  proof (cases "is_column e")
    case None
    with Cons a show ?thesis by simp
  next
    case (Some col)
    let ?v = "\<lambda>r. extract_sort_value D r col"
    have o: "orderable (?v x)" "orderable (?v y)" "orderable (?v z)" using Cons.prems a Some by auto
    note t = sort_keys.eq_cong [OF o] sort_keys.eq_cong_right [OF o]
      sort_keys.strict_trans [OF o refl]
    show ?thesis
      using Cons.prems Cons.IH a Some t
      by (cases "compare_sort_values (?v x) (?v y)"; cases "compare_sort_values (?v y) (?v z)")
        (auto simp: Let_def split: if_splits)
  qed
qed simp

interpretation order_by: comparator "compare_records D ob" "comparable D ob" for D ob
  by unfold_locales (rule compare_records_rev, assumption+, rule compare_records_trans)

subsection \<open>What an ORDER BY clause asks for\<close>

text \<open>
  Stated apart from the comparison functions: numbers come in ascending order of their values, then
  strings in the order of their bytes, then nulls. Two values are tied if neither goes before the other.
\<close>

fun goes_before :: "sort_value \<Rightarrow> sort_value \<Rightarrow> bool" where
  "goes_before (SFloat a) (SFloat b) \<longleftrightarrow> f64_lt a b"
| "goes_before (SStr a) (SStr b) \<longleftrightarrow> a < b"
| "goes_before (SFloat _) (SStr _) \<longleftrightarrow> True"
| "goes_before (SFloat _) SNull \<longleftrightarrow> True"
| "goes_before (SStr _) SNull \<longleftrightarrow> True"
| "goes_before _ _ \<longleftrightarrow> False"

definition tied :: "sort_value \<Rightarrow> sort_value \<Rightarrow> bool" where
  "tied x y \<longleftrightarrow> \<not> goes_before x y \<and> \<not> goes_before y x"

text \<open>The keys of the clause that count: its columns, each with whether it is ascending.\<close>

definition order_columns :: "sort_expr list \<Rightarrow> (ustring \<times> bool) list" where
  "order_columns ob =
     List.map_filter (\<lambda>k. case k of SortExpr (Column c) asc \<Rightarrow> Some (c, asc) | _ \<Rightarrow> None) ob"

definition key_precedes :: "data_codec \<Rightarrow> ustring \<times> bool \<Rightarrow> fun_record \<Rightarrow> fun_record \<Rightarrow> bool" where
  "key_precedes D k r q \<longleftrightarrow>
     (if snd k then goes_before (extract_sort_value D r (fst k)) (extract_sort_value D q (fst k))
      else goes_before (extract_sort_value D q (fst k)) (extract_sort_value D r (fst k)))"

definition key_tied :: "data_codec \<Rightarrow> ustring \<times> bool \<Rightarrow> fun_record \<Rightarrow> fun_record \<Rightarrow> bool" where
  "key_tied D k r q \<longleftrightarrow> tied (extract_sort_value D r (fst k)) (extract_sort_value D q (fst k))"

text \<open>The first key in which two records differ decides; a descending key turns the order around.\<close>

definition precedes :: "data_codec \<Rightarrow> (ustring \<times> bool) list \<Rightarrow> fun_record \<Rightarrow> fun_record \<Rightarrow> bool" where
  "precedes D ks r q \<longleftrightarrow>
     (\<exists>i<length ks. (\<forall>j<i. key_tied D (ks ! j) r q) \<and> key_precedes D (ks ! i) r q)"

definition same_keys :: "data_codec \<Rightarrow> (ustring \<times> bool) list \<Rightarrow> fun_record \<Rightarrow> fun_record \<Rightarrow> bool" where
  "same_keys D ks r q \<longleftrightarrow> (\<forall>k\<in>set ks. key_tied D k r q)"

lemma precedes_Cons:
  "precedes D (k # ks) r q \<longleftrightarrow> key_precedes D k r q \<or> key_tied D k r q \<and> precedes D ks r q"
  by (auto simp: precedes_def Ex_less_Suc2 All_less_Suc2)

lemma precedes_Nil [simp]: "\<not> precedes D [] r q"
  by (simp add: precedes_def)

lemma compare_goes_before:
  assumes "orderable x" and "orderable y"
  shows "compare_sort_values x y = OLess \<longleftrightarrow> goes_before x y"
    and "compare_sort_values x y = OGreater \<longleftrightarrow> goes_before y x"
    and "compare_sort_values x y = OEqual \<longleftrightarrow> tied x y"
    and "\<not> (goes_before x y \<and> goes_before y x)"
  using assms by (cases x; cases y; auto simp: cmp_f64_def cmp_str_def tied_def f64_lt_key)+

lemma compare_records_precedes:
  "comparable D ob r \<Longrightarrow> comparable D ob q \<Longrightarrow>
     (compare_records D ob r q = OLess \<longleftrightarrow> precedes D (order_columns ob) r q) \<and>
     (compare_records D ob r q = OEqual \<longleftrightarrow> same_keys D (order_columns ob) r q)"
proof (induction D ob r q rule: compare_records.induct)
  case (1 D r q)
  show ?case by (simp add: order_columns_def same_keys_def map_filter_simps)
next
  case (2 D e asc rest r q)
  show ?case
  proof (cases "is_column e")
    case None
    then have "order_columns (SortExpr e asc # rest) = order_columns rest"
      by (cases e) (simp_all add: order_columns_def map_filter_simps)
    with None 2 show ?thesis by simp
  next
    case (Some c)
    then have cols: "order_columns (SortExpr e asc # rest) = (c, asc) # order_columns rest"
      by (cases e) (simp_all add: order_columns_def map_filter_simps)
    have "orderable (extract_sort_value D r c)" "orderable (extract_sort_value D q c)"
      using 2(3,4) Some by auto
    note v = compare_goes_before [OF this]
    show ?thesis
    proof (cases "compare_sort_values (extract_sort_value D r c) (extract_sort_value D q c)")
      case OEqual
      then have "tied (extract_sort_value D r c) (extract_sort_value D q c)" using v(3) by simp
      then show ?thesis
        using 2 Some OEqual by (auto simp: cols precedes_Cons same_keys_def key_tied_def key_precedes_def tied_def Let_def)
    next
      case OLess
      then have "goes_before (extract_sort_value D r c) (extract_sort_value D q c)" using v(1) by simp
      then show ?thesis
        using v(4) Some OLess by (auto simp: cols precedes_Cons same_keys_def key_tied_def key_precedes_def tied_def Let_def)
    next
      case OGreater
      then have "goes_before (extract_sort_value D q c) (extract_sort_value D r c)" using v(2) by simp
      then show ?thesis
        using v(4) Some OGreater by (auto simp: cols precedes_Cons same_keys_def key_tied_def key_precedes_def tied_def Let_def)
    qed
  qed
qed

text \<open>A descending key puts the nulls first.\<close>

theorem nulls_first_descending:
  assumes "extract_sort_value D r c = SNull" and "extract_sort_value D q c \<noteq> SNull"
  shows "compare_records D [SortExpr (Column c) False] r q = OLess"
  using assms by (cases "extract_sort_value D q c") (simp_all add: Let_def)

end
