(* ===== verification/Query_Facts.thy ===== *)
theory Query_Facts
  imports Comparator Lsm_Facts
begin

text \<open>
  Batches as lists of rows, what each operator does to the rows, and the rewriting rules of the
  optimizer shown to keep the result of a plan.
\<close>

subsection \<open>Rows\<close>

definition batch_wf :: "record_batch \<Rightarrow> bool" where
  "batch_wf b \<longleftrightarrow> length (rb_keys b) = length (rb_records b)"

definition of_rows :: "(record_key \<times> fun_record) list \<Rightarrow> record_batch" where
  "of_rows ps = \<lparr>rb_keys = map fst ps, rb_records = map snd ps\<rparr>"

lemma batch_wf_of_rows [simp]: "batch_wf (of_rows ps)"
  by (simp add: batch_wf_def of_rows_def)

lemma batch_rows_of_rows [simp]: "batch_rows (of_rows ps) = ps"
  by (simp add: batch_rows_def of_rows_def zip_map_fst_snd)

lemma of_rows_batch_rows [simp]: "batch_wf b \<Longrightarrow> of_rows (batch_rows b) = b"
  by (simp add: batch_wf_def of_rows_def batch_rows_def)

lemma batch_new_rows: "batch_new = of_rows []"
  by (simp add: batch_new_def of_rows_def)

lemma batch_push_rows [simp]: "batch_push k r (of_rows ps) = of_rows (ps @ [(k, r)])"
  by (simp add: batch_push_def of_rows_def)

lemma batch_extend_rows [simp]: "batch_extend ps (of_rows qs) = of_rows (qs @ ps)"
  unfolding batch_extend_def by (induction ps arbitrary: qs) auto

lemma batch_truncate_rows [simp]: "batch_truncate n (of_rows ps) = of_rows (take n ps)"
  by (simp add: batch_truncate_def of_rows_def take_map)

lemma filter_loop_rows:
  "fold (\<lambda>(k, r) out. if P r then batch_push k r out else out) ps (of_rows qs) =
     of_rows (qs @ filter (\<lambda>(k, r). P r) ps)"
  by (induction ps arbitrary: qs) auto

lemma filter_op_rows [simp]:
  "filter_op D p (of_rows ps) = of_rows (filter (\<lambda>(k, r). eval_expr D p r) ps)"
  by (simp add: filter_op_def batch_new_rows filter_loop_rows)

lemma push_loop_rows:
  "fold (\<lambda>i. batch_push (fst (ps ! i)) (snd (ps ! i))) is (of_rows qs) =
     of_rows (qs @ map (\<lambda>i. ps ! i) is)"
  by (induction "is" arbitrary: qs) auto

lemma sort_op_rows [simp]:
  "sort_op D ob (of_rows ps) = of_rows (sort_by (\<lambda>p q. compare_records D ob (snd p) (snd q)) ps)"
proof (cases "ob = [] \<or> ps = []")
  case True
  moreover have "sort_by (\<lambda>p q. OEqual) ps = ps" for ps :: "(record_key \<times> fun_record) list"
  proof (induction ps)
    case (Cons p ps)
    then show ?case by (cases ps) auto
  qed simp
  ultimately show ?thesis by (auto simp: sort_op_def batch_is_empty_def of_rows_def)
next
  case False
  let ?c = "\<lambda>p q. compare_records D ob (snd p) (snd q)"
  let ?is = "sort_by (\<lambda>i j. compare_records D ob (map snd ps ! i) (map snd ps ! j)) [0..<length ps]"
  have is_eq: "?is = sort_by (\<lambda>i j. ?c (ps ! i) (ps ! j)) [0..<length ps]"
    by (rule sort_by_cong) simp
  have "set ?is = {..<length ps}" by auto
  then have "fold (\<lambda>i. batch_push (map fst ps ! i) (map snd ps ! i)) ?is (of_rows []) =
      fold (\<lambda>i. batch_push (fst (ps ! i)) (snd (ps ! i))) ?is (of_rows [])"
    by (intro fold_cong) auto
  also have "\<dots> = of_rows (map (\<lambda>i. ps ! i) ?is)" by (simp add: push_loop_rows)
  also have "map (\<lambda>i. ps ! i) ?is = sort_by ?c ps"
    unfolding is_eq using map_sort_by [of "\<lambda>i. ps ! i" ?c "[0..<length ps]"] by (simp add: map_nth)
  finally show ?thesis
    using False
    by (simp add: sort_op_def batch_is_empty_def batch_len_def batch_new_rows) (simp add: of_rows_def)
qed

lemma scan_op_rows:
  "scan_op X c s = map_sum id of_rows (lsm_scan X (scan_from c) (scan_to c) s)"
  by (cases "lsm_scan X (scan_from c) (scan_to c) s") (auto simp: scan_op_def batch_new_rows)

subsection \<open>Constant folding\<close>

text \<open>
  Folding keeps the truth of a condition as long as no operand of a comparison is itself a
  connective that folds: the executor treats a comparison with such an operand as always true, but
  compares once it has been folded to a literal.
\<close>

fun comparisons_plain :: "plan_expr \<Rightarrow> bool" where
  "comparisons_plain (Binary op a b) \<longleftrightarrow>
     (if op = AndOp \<or> op = OrOp then comparisons_plain a \<and> comparisons_plain b
      else fold_expr a = a \<and> fold_expr b = b)"
| "comparisons_plain (Unary _ e) \<longleftrightarrow> comparisons_plain e"
| "comparisons_plain _ \<longleftrightarrow> True"

lemma eval_fold_binary [simp]:
  "eval_expr D (fold_binary op a b) r = eval_expr D (Binary op a b) r"
  by (auto simp: fold_binary_def)

lemma eval_fold_expr [simp]:
  "comparisons_plain e \<Longrightarrow> eval_expr D (fold_expr e) r = eval_expr D e r"
proof (induction e rule: comparisons_plain.induct)
  case (1 op a b)
  then show ?case by (auto simp: fold_binary_def)
next
  case (2 op e)
  then show ?case by (cases op) auto
qed auto

lemma fold_expr_idem [simp]: "fold_expr (fold_expr e) = fold_expr e"
  by (induction e rule: fold_expr.induct) (auto simp: fold_binary_def)

lemma comparisons_plain_fold [simp]: "comparisons_plain e \<Longrightarrow> comparisons_plain (fold_expr e)"
  by (induction e rule: comparisons_plain.induct) (auto simp: fold_binary_def)

subsection \<open>The rules keep the result of a plan\<close>

text \<open>The plan under any projections.\<close>

fun unprojected :: "logical_plan \<Rightarrow> logical_plan" where
  "unprojected (Project input _) = unprojected input"
| "unprojected p = p"

text \<open>
  The plans on which the rules are sound: plain conditions, sort keys whose column does not depend
  on folding, and no condition on the rows of a vector scan, which the last rule would drop.
\<close>

fun plan_ok :: "logical_plan \<Rightarrow> bool" where
  "plan_ok (Scan _ p _) \<longleftrightarrow> pred_option comparisons_plain p"
| "plan_ok (Filter input p) \<longleftrightarrow>
     plan_ok input \<and> comparisons_plain p \<and> \<not> is_vector_scan (unprojected input)"
| "plan_ok (Project input _) \<longleftrightarrow> plan_ok input"
| "plan_ok (Limit input _) \<longleftrightarrow> plan_ok input"
| "plan_ok (Sort input ob) \<longleftrightarrow>
     plan_ok input \<and> (\<forall>x\<in>set ob. is_column (fold_expr (se_expr x)) = is_column (se_expr x))"
| "plan_ok _ \<longleftrightarrow> True"

lemma project_op_same [simp]: "project_op es b = b"
  by (simp add: project_op_def)

lemma on_batch_project [simp]: "on_batch (project_op es) r = r"
proof -
  have "project_op es = id" by (simp add: fun_eq_iff)
  then show ?thesis by (simp add: on_batch_def map_sum.id prod.map_id0)
qed

lemma execute_predicate_pushdown [simp]:
  "execute_plan X D E (predicate_pushdown p) s = execute_plan X D E p s"
  by (induction p rule: predicate_pushdown.induct) auto

lemma execute_limit_pushdown [simp]:
  "execute_plan X D E (limit_pushdown p) s = execute_plan X D E p s"
  by (induction p rule: limit_pushdown.induct) auto

lemma execute_eliminate [simp]:
  "execute_plan X D E (eliminate_redundant_project p) s = execute_plan X D E p s"
  by (induction p rule: eliminate_redundant_project.induct) auto

lemma filter_op_fold [simp]: "comparisons_plain p \<Longrightarrow> filter_op D (fold_expr p) = filter_op D p"
  by (simp add: filter_op_def fun_eq_iff)

lemma compare_records_fold:
  "\<forall>x\<in>set ob. is_column (fold_expr (se_expr x)) = is_column (se_expr x) \<Longrightarrow>
     compare_records D (map fold_sort ob) a b = compare_records D ob a b"
proof (induction ob)
  case (Cons x ob)
  then show ?case by (cases x) (auto simp: fold_sort_def Let_def split: option.splits)
qed simp

lemma execute_constant_fold:
  "plan_ok p \<Longrightarrow> execute_plan X D E (constant_fold p) s = execute_plan X D E p s"
proof (induction p rule: constant_fold.induct)
  case (5 input ob)
  then have "sort_op D (map fold_sort ob) = sort_op D ob"
    by (auto simp: sort_op_def fun_eq_iff compare_records_fold)
  with 5 show ?case by simp
next
  case (8 c p es)
  then show ?case by (cases p) (auto simp: Let_def cong: if_cong)
qed auto

lemma execute_elide:
  "plan_ok p \<Longrightarrow> execute_plan X D E (vector_scan_elide_filter p) s = execute_plan X D E p s"
  by (induction p rule: vector_scan_elide_filter.induct) (auto elim: is_vector_scan.elims)

lemma vector_scan_pushdown [simp]:
  "is_vector_scan (unprojected (predicate_pushdown p)) = is_vector_scan (unprojected p)"
  by (induction p rule: predicate_pushdown.induct) auto

lemma vector_scan_limit [simp]:
  "is_vector_scan (unprojected (limit_pushdown p)) = is_vector_scan (unprojected p)"
  by (induction p rule: limit_pushdown.induct) auto

lemma vector_scan_eliminate [simp]:
  "is_vector_scan (unprojected (eliminate_redundant_project p)) = is_vector_scan (unprojected p)"
  by (induction p rule: eliminate_redundant_project.induct) auto

lemma vector_scan_fold [simp]:
  "is_vector_scan (unprojected (constant_fold p)) = is_vector_scan (unprojected p)"
  by (induction p rule: constant_fold.induct) auto

lemma vector_scan_elide [simp]:
  "plan_ok p \<Longrightarrow>
     is_vector_scan (unprojected (vector_scan_elide_filter p)) = is_vector_scan (unprojected p)"
  by (induction p rule: vector_scan_elide_filter.induct) (auto elim: is_vector_scan.elims)

lemma plan_ok_pushdown [simp]: "plan_ok p \<Longrightarrow> plan_ok (predicate_pushdown p)"
  by (induction p rule: predicate_pushdown.induct) auto

lemma plan_ok_limit [simp]: "plan_ok p \<Longrightarrow> plan_ok (limit_pushdown p)"
  by (induction p rule: limit_pushdown.induct) auto

lemma plan_ok_eliminate [simp]: "plan_ok p \<Longrightarrow> plan_ok (eliminate_redundant_project p)"
  by (induction p rule: eliminate_redundant_project.induct) auto

lemma plan_ok_fold [simp]: "plan_ok p \<Longrightarrow> plan_ok (constant_fold p)"
  by (induction p rule: constant_fold.induct)
    (auto simp: fold_sort_def option.pred_map comp_def elim!: option.pred_mono_strong)

lemma plan_ok_elide [simp]: "plan_ok p \<Longrightarrow> plan_ok (vector_scan_elide_filter p)"
  by (induction p rule: vector_scan_elide_filter.induct) auto

lemma apply_all_rules_keeps:
  assumes "plan_ok p"
  shows "execute_plan X D E (apply_all_rules p) s = execute_plan X D E p s"
    and "plan_ok (apply_all_rules p)"
  using assms by (simp_all add: apply_all_rules_def execute_constant_fold execute_elide)

lemma execute_optimize_loop:
  "plan_ok p \<Longrightarrow> execute_plan X D E (optimize_loop n p) s = execute_plan X D E p s"
  by (induction n p rule: optimize_loop.induct) (auto simp: Let_def apply_all_rules_keeps)

lemma execute_optimized: "plan_ok p \<Longrightarrow> execute X D E p s = execute_plan X D E p s"
  by (simp add: execute_def optimize_def execute_optimize_loop)

end
