(* ===== verification/Utf8.thy ===== *)
theory Utf8
  imports Text
begin

text \<open>
  UTF-8 both ways: the decoder of \<open>std::str::from_utf8\<close>, which accepts exactly the shortest encodings of
  Unicode scalar values, and that it inverts the encoder of theory Text.
\<close>

definition is_scalar :: "nat \<Rightarrow> bool" where
  "is_scalar c \<longleftrightarrow> c < 0xD800 \<or> 0xE000 \<le> c \<and> c \<le> 0x10FFFF"

definition is_cont :: "nat \<Rightarrow> bool" where
  "is_cont b \<longleftrightarrow> 0x80 \<le> b \<and> b < 0xC0"

definition cont_bits :: "nat \<Rightarrow> nat" where
  "cont_bits b = b - 0x80"

fun decode_utf8 :: "nat list \<Rightarrow> ustring option" where
  "decode_utf8 [] = Some []"
| "decode_utf8 (a # bs) =
     (if a < 0x80 then map_option ((#) a) (decode_utf8 bs)
      else if 0xC2 \<le> a \<and> a < 0xE0 then
        (case bs of
           b # cs \<Rightarrow>
             if is_cont b then map_option ((#) ((a - 0xC0) * 64 + cont_bits b)) (decode_utf8 cs) else None
         | _ \<Rightarrow> None)
      else if 0xE0 \<le> a \<and> a < 0xF0 then
        (case bs of
           b # c # cs \<Rightarrow>
             let v = (a - 0xE0) * 4096 + cont_bits b * 64 + cont_bits c
             in if is_cont b \<and> is_cont c \<and> 0x800 \<le> v \<and> is_scalar v
                then map_option ((#) v) (decode_utf8 cs) else None
         | _ \<Rightarrow> None)
      else if 0xF0 \<le> a \<and> a < 0xF5 then
        (case bs of
           b # c # d # cs \<Rightarrow>
             let v = (a - 0xF0) * 262144 + cont_bits b * 4096 + cont_bits c * 64 + cont_bits d
             in if is_cont b \<and> is_cont c \<and> is_cont d \<and> 0x10000 \<le> v \<and> v \<le> 0x10FFFF
                then map_option ((#) v) (decode_utf8 cs) else None
         | _ \<Rightarrow> None)
      else None)"

declare decode_utf8.simps [simp del]

text \<open>The bytes of a Rust string are a valid encoding.\<close>

definition utf8_ok :: "bytes \<Rightarrow> bool" where
  "utf8_ok bs \<longleftrightarrow> decode_utf8 (map unat bs) \<noteq> None"

definition text_bytes :: "ustring \<Rightarrow> bytes" where
  "text_bytes s = map word_of_nat (concat (map utf8_char s))"

text \<open>\<open>from_utf8_lossy\<close>: what it substitutes in an invalid text is the argument \<open>L\<close>.\<close>

definition from_utf8_lossy :: "(bytes \<Rightarrow> ustring) \<Rightarrow> bytes \<Rightarrow> ustring" where
  "from_utf8_lossy L bs = (case decode_utf8 (map unat bs) of Some s \<Rightarrow> s | None \<Rightarrow> L bs)"

lemma utf8_char_small: "is_scalar c \<Longrightarrow> b \<in> set (utf8_char c) \<Longrightarrow> b < 256"
  by (auto simp: utf8_char_def is_scalar_def split: if_splits)

lemma div_mod_64: "64 * (c div 64) + c mod 64 = (c :: nat)"
  by simp

lemma recompose3: "c div 4096 * 4096 + c div 64 mod 64 * 64 + c mod 64 = (c :: nat)"
proof -
  have "c div 4096 = c div 64 div 64" by (simp add: div_mult2_eq [symmetric])
  then show ?thesis
    using div_mult_mod_eq [of "c div 64" 64] div_mult_mod_eq [of c 64] by linarith
qed

lemma recompose4:
  "c div 262144 * 262144 + c div 4096 mod 64 * 4096 + c div 64 mod 64 * 64 + c mod 64 = (c :: nat)"
proof -
  have "c div 262144 = c div 4096 div 64" by (simp add: div_mult2_eq [symmetric])
  then show ?thesis
    using div_mult_mod_eq [of "c div 4096" 64] recompose3 [of c] by linarith
qed

lemma decode_three:
  assumes "x < 16" and "y < 64" and "z < 64" and "0x800 \<le> x * 4096 + y * 64 + z" and "is_scalar (x * 4096 + y * 64 + z)"
  shows "decode_utf8 ((0xE0 + x) # (0x80 + y) # (0x80 + z) # bs) =
    map_option ((#) (x * 4096 + y * 64 + z)) (decode_utf8 bs)"
  using assms by (simp add: decode_utf8.simps(2) is_cont_def cont_bits_def)

lemma decode_four:
  assumes "x < 5" and "y < 64" and "z < 64" and "w < 64"
    and "0x10000 \<le> x * 262144 + y * 4096 + z * 64 + w" and "x * 262144 + y * 4096 + z * 64 + w \<le> 0x10FFFF"
  shows "decode_utf8 ((0xF0 + x) # (0x80 + y) # (0x80 + z) # (0x80 + w) # bs) =
    map_option ((#) (x * 262144 + y * 4096 + z * 64 + w)) (decode_utf8 bs)"
  using assms by (simp add: decode_utf8.simps(2) is_cont_def cont_bits_def)

lemma decode_utf8_char:
  assumes "is_scalar c"
  shows "decode_utf8 (utf8_char c @ bs) = map_option ((#) c) (decode_utf8 bs)"
proof -
  consider "c < 0x80" | "0x80 \<le> c" "c < 0x800" | "0x800 \<le> c" "c < 0x10000" | "0x10000 \<le> c" "c \<le> 0x10FFFF"
    using assms by (fastforce simp: is_scalar_def)
  then show ?thesis
  proof cases
    case 1
    then show ?thesis by (simp add: utf8_char_def decode_utf8.simps)
  next
    case 2
    then have "2 \<le> c div 64" "c div 64 < 32" by simp_all
    with 2 show ?thesis by (simp add: utf8_char_def decode_utf8.simps is_cont_def cont_bits_def)
  next
    case 3
    have "c div 4096 < 16" using 3 by simp
    from decode_three [OF this, of "c div 64 mod 64" "c mod 64" bs] 3 assms show ?thesis
      unfolding recompose3 by (simp add: utf8_char_def)
  next
    case 4
    have "c div 262144 < 5" using 4 by simp
    from decode_four [OF this, of "c div 4096 mod 64" "c div 64 mod 64" "c mod 64" bs] 4 show ?thesis
      unfolding recompose4 by (simp add: utf8_char_def)
  qed
qed

lemma decode_encode: "list_all is_scalar s \<Longrightarrow> decode_utf8 (concat (map utf8_char s)) = Some s"
  by (induction s) (simp_all add: decode_utf8_char decode_utf8.simps(1))

lemma unat_text_bytes:
  assumes "list_all is_scalar s"
  shows "map unat (text_bytes s) = concat (map utf8_char s)"
proof -
  have "\<forall>b\<in>set (concat (map utf8_char s)). b < 256"
    using assms utf8_char_small by (auto simp: list_all_iff)
  then show ?thesis
    by (auto simp: text_bytes_def unat_of_nat intro!: map_idI)
qed

lemma lossy_text_bytes [simp]: "list_all is_scalar s \<Longrightarrow> from_utf8_lossy L (text_bytes s) = s"
  by (simp add: from_utf8_lossy_def unat_text_bytes decode_encode)

lemma utf8_ok_text_bytes [simp]: "list_all is_scalar s \<Longrightarrow> utf8_ok (text_bytes s)"
  by (simp add: utf8_ok_def unat_text_bytes decode_encode)

end
