(* ===== verification/Pg_Wire.thy ===== *)
theory Pg_Wire
  imports Utf8
begin

text \<open>
  The PostgreSQL wire protocol of the server, \<open>crates/fundb-protocol/src/pg_wire.rs\<close>: messages and their
  encoding, the startup phase and the query loop. A connection's input is the list of all bytes the
  client ever sends; reading past it is the end of the stream. Strings that the server sends are their
  bytes, strings that it reads are decoded. Writes to the socket succeed. The query handler, a trait in
  the code, is an argument: a function from the query, the connection's context and a state to a new
  state and a reply.
\<close>

subsection \<open>Big-endian integers and byte strings\<close>

type_synonym u16 = "16 word"

definition be16 :: "u16 \<Rightarrow> bytes" where
  "be16 w = [ucast (drop_bit 8 w), ucast w]"

fun be16_of :: "bytes \<Rightarrow> u16" where
  "be16_of [a, b] = push_bit 8 (ucast a) OR ucast b"
| "be16_of _ = 0"

definition be32 :: "u32 \<Rightarrow> bytes" where
  "be32 w = rev (u32_to_le w)"

definition be32_of :: "bytes \<Rightarrow> u32" where
  "be32_of bs = u32_from_le (rev bs)"

definition as_u16 :: "nat \<Rightarrow> u16" where
  "as_u16 n = word_of_nat n"

definition octets :: "string \<Rightarrow> bytes" where
  "octets s = map (\<lambda>c. word_of_nat (of_char c)) s"

definition chars :: "bytes \<Rightarrow> string" where
  "chars bs = map (\<lambda>b. char_of (unat b)) bs"

definition byte :: "string \<Rightarrow> u8" where
  "byte s = hd (octets s)"

lemma length_be16 [simp]: "length (be16 w) = 2"
  by (simp add: be16_def)

lemma length_be32 [simp]: "length (be32 w) = 4"
  by (simp add: be32_def)

lemma length_octets [simp]: "length (octets s) = length s"
  by (simp add: octets_def)

lemma length_chars [simp]: "length (chars s) = length s"
  by (simp add: chars_def)

lemma chars_octets [simp]: "chars (octets s) = s"
  by (simp add: chars_def octets_def comp_def unat_of_nat take_bit_eq_mod map_idI)

lemma be32_of_be32 [simp]: "be32_of (be32 w) = w"
  by (simp add: be32_of_def be32_def)

lemma be16_of_be16 [simp]: "be16_of (be16 w) = w"
  unfolding be16_def be16_of.simps
proof (rule bit_word_eqI)
  fix n assume n: "n < LENGTH(16)"
  then consider "n < 8" | "8 \<le> n" by linarith
  then show "bit (push_bit 8 (ucast (ucast (drop_bit 8 w) :: u8)) OR ucast (ucast w :: u8) :: u16) n = bit w n"
    using n by cases (auto simp: bit_simps)
qed

lemma unat_as_u16: "n < 2 ^ 16 \<Longrightarrow> unat (as_u16 n) = n"
  by (simp add: as_u16_def unat_of_nat take_bit_eq_mod)

text \<open>The value of a length below \<open>2 ^ 31\<close> written as an i32.\<close>

lemma sint_as_u32: "n < 2 ^ 31 \<Longrightarrow> sint (as_u32 n) = int n"
  by (simp add: as_u32_def signed_of_nat signed_take_bit_int_eq_self)

subsection \<open>Messages\<close>

record field_description =
  fd_name :: string
  fd_type_oid :: u32

record query_result =
  qr_columns :: "field_description list"
  qr_rows :: "string option list list"
  qr_tag :: string

record wire_error =
  we_code :: string
  we_message :: string

record conn_context =
  cx_user :: ustring
  cx_database :: ustring
  cx_tenant_id :: u32
  cx_agent_id :: "ustring option"

datatype frontend_message =
    FStartup u32 "ustring \<rightharpoonup> ustring"
  | FQuery ustring
  | FTerminate

datatype backend_message =
    AuthenticationOk
  | BackendKeyData u32 u32
  | ReadyForQuery u8
  | RowDescription "field_description list"
  | DataRow "string option list"
  | CommandComplete string
  | ErrorResponse string string string
  | EmptyQueryResponse

subsection \<open>Encoding\<close>

definition field_body :: "field_description \<Rightarrow> bytes" where
  "field_body f =
     octets (fd_name f) @ [0] @ be32 0 @ be16 0 @ be32 (fd_type_oid f) @ be16 (- 1) @ be32 (- 1) @ be16 0"

definition row_description_body :: "field_description list \<Rightarrow> bytes" where
  "row_description_body fs = be16 (as_u16 (length fs)) @ concat (map field_body fs)"

fun value_body :: "string option \<Rightarrow> bytes" where
  "value_body None = be32 (- 1)"
| "value_body (Some s) = be32 (as_u32 (length s)) @ octets s"

definition data_row_body :: "string option list \<Rightarrow> bytes" where
  "data_row_body vs = be16 (as_u16 (length vs)) @ concat (map value_body vs)"

definition error_body :: "string \<Rightarrow> string \<Rightarrow> string \<Rightarrow> bytes" where
  "error_body severity code message =
     [byte ''S''] @ octets severity @ [0] @ [byte ''C''] @ octets code @ [0] @ [byte ''M''] @ octets message @ [0] @ [0]"

text \<open>A message that carries a body: its type, its length with the length field, the body.\<close>

definition framed :: "string \<Rightarrow> bytes \<Rightarrow> bytes" where
  "framed t body = octets t @ be32 (4 + as_u32 (length body)) @ body"

fun encode_backend :: "backend_message \<Rightarrow> bytes" where
  "encode_backend AuthenticationOk = octets ''R'' @ be32 8 @ be32 0"
| "encode_backend (BackendKeyData pid key) = octets ''K'' @ be32 12 @ be32 pid @ be32 key"
| "encode_backend (ReadyForQuery status) = octets ''Z'' @ be32 5 @ [status]"
| "encode_backend (RowDescription fs) = framed ''T'' (row_description_body fs)"
| "encode_backend (DataRow vs) = framed ''D'' (data_row_body vs)"
| "encode_backend (CommandComplete tag) = octets ''C'' @ be32 (4 + as_u32 (length tag) + 1) @ octets tag @ [0]"
| "encode_backend (ErrorResponse severity code message) = framed ''E'' (error_body severity code message)"
| "encode_backend EmptyQueryResponse = octets ''I'' @ be32 4"

definition encode_all :: "backend_message list \<Rightarrow> bytes" where
  "encode_all ms = concat (map encode_backend ms)"

subsection \<open>Parsing\<close>

text \<open>The text up to the next NUL byte and the bytes after it.\<close>

definition cut_nul :: "bytes \<Rightarrow> (bytes \<times> bytes) option" where
  "cut_nul bs = (case dropWhile (\<lambda>b. b \<noteq> 0) bs of [] \<Rightarrow> None | _ # rest \<Rightarrow> Some (takeWhile (\<lambda>b. b \<noteq> 0) bs, rest))"

definition read_cstring :: "(bytes \<Rightarrow> ustring) \<Rightarrow> bytes \<Rightarrow> (ustring \<times> bytes) option" where
  "read_cstring L bs = map_option (\<lambda>(s, rest). (from_utf8_lossy L s, rest)) (cut_nul bs)"

lemma cut_nul_shorter: "cut_nul bs = Some (s, rest) \<Longrightarrow> length rest < length bs"
  using length_dropWhile_le [of "\<lambda>b. b \<noteq> 0" bs] by (auto simp: cut_nul_def split: list.splits)

lemma read_cstring_shorter: "read_cstring L bs = Some (s, rest) \<Longrightarrow> length rest < length bs"
  by (auto simp: read_cstring_def dest: cut_nul_shorter)

function startup_params :: "(bytes \<Rightarrow> ustring) \<Rightarrow> bytes \<Rightarrow> (ustring \<rightharpoonup> ustring) \<Rightarrow> (ustring \<rightharpoonup> ustring)" where
  "startup_params L src params =
     (case read_cstring L src of
        None \<Rightarrow> params
      | Some (key, src') \<Rightarrow>
          if key = [] then params
          else (case read_cstring L src' of
                  None \<Rightarrow> params
                | Some (v, src'') \<Rightarrow> startup_params L src'' (params(key \<mapsto> v))))"
  by pat_completeness auto

termination startup_params
  by (relation "measure (\<lambda>(L, src, params). length src)") (auto dest!: read_cstring_shorter)

declare startup_params.simps [simp del]

definition parse_startup_params :: "(bytes \<Rightarrow> ustring) \<Rightarrow> bytes \<Rightarrow> (ustring \<rightharpoonup> ustring)" where
  "parse_startup_params L body = startup_params L body Map.empty"

subsection \<open>The startup phase\<close>

datatype wire_fault =
    StreamEnd | InvalidStartupLength int | StartupTooShort nat | InvalidMessageLength int | UnsupportedMessage u8

definition ssl_request_code :: u32 where
  "ssl_request_code = 80877103"

text \<open>The startup phase returns the bytes sent, and the parameters with the rest of the input or a fault.\<close>

function startup :: "(bytes \<Rightarrow> ustring) \<Rightarrow> bytes \<Rightarrow> bytes \<times> (wire_fault + (ustring \<rightharpoonup> ustring) \<times> bytes)" where
  "startup L inp =
     (case read_exact 4 inp of
        None \<Rightarrow> ([], Inl StreamEnd)
      | Some (len_bytes, rest) \<Rightarrow>
          let total_len = sint (be32_of len_bytes)
          in if total_len < 4 then ([], Inl (InvalidStartupLength total_len))
             else (case read_exact (nat (total_len - 4)) rest of
                     None \<Rightarrow> ([], Inl StreamEnd)
                   | Some (payload, rest') \<Rightarrow>
                       if length payload < 4 then ([], Inl (StartupTooShort (length payload)))
                       else if be32_of (take 4 payload) = ssl_request_code then
                         (let (out, r) = startup L rest' in (octets ''N'' @ out, r))
                       else ([], Inr (parse_startup_params L (drop 4 payload), rest'))))"
  by pat_completeness auto

termination startup
  by (relation "measure (\<lambda>(L, inp). length inp)") (auto dest!: read_exact_SomeD)

declare startup.simps [simp del]

subsection \<open>The query loop\<close>

definition read_frontend_message ::
  "(bytes \<Rightarrow> ustring) \<Rightarrow> bytes \<Rightarrow> wire_fault + frontend_message \<times> bytes" where
  "read_frontend_message L inp =
     (case read_exact 1 inp of
        None \<Rightarrow> Inl StreamEnd
      | Some (t, rest) \<Rightarrow>
          (case read_exact 4 rest of
             None \<Rightarrow> Inl StreamEnd
           | Some (len_bytes, rest') \<Rightarrow>
               let total_len = sint (be32_of len_bytes)
               in if total_len < 4 then Inl (InvalidMessageLength total_len)
                  else (case read_exact (nat (total_len - 4)) rest' of
                          None \<Rightarrow> Inl StreamEnd
                        | Some (body, rest'') \<Rightarrow>
                            if t = octets ''Q'' then
                              Inr (FQuery (if body \<noteq> [] \<and> last body = 0 then from_utf8_lossy L (butlast body)
                                           else from_utf8_lossy L body), rest'')
                            else if t = octets ''X'' then Inr (FTerminate, rest'')
                            else Inl (UnsupportedMessage (hd t)))))"

datatype handler_reply = HOk query_result | HErr wire_error | HPanic

type_synonym 's handler = "ustring \<Rightarrow> conn_context \<Rightarrow> 's \<Rightarrow> 's \<times> handler_reply"

text \<open>The messages that answer a query; \<open>None\<close> when the handler panics, which ends the connection's task.\<close>

definition answer :: "handler_reply \<Rightarrow> backend_message list option" where
  "answer r =
     (case r of
        HOk result \<Rightarrow>
          Some ((if qr_columns result \<noteq> [] then RowDescription (qr_columns result) # map DataRow (qr_rows result) else []) @
            [CommandComplete (qr_tag result)])
      | HErr e \<Rightarrow> Some [ErrorResponse ''ERROR'' (we_code e) (we_message e)]
      | HPanic \<Rightarrow> None)"

definition respond :: "'s handler \<Rightarrow> conn_context \<Rightarrow> ustring \<Rightarrow> 's \<Rightarrow> 's \<times> backend_message list option" where
  "respond h cx query st =
     (let trimmed = trim query
      in if trimmed = [] then (st, Some [EmptyQueryResponse, ReadyForQuery (byte ''I'')])
         else (let (st', r) = h trimmed cx st
               in (st', map_option (\<lambda>ms. ms @ [ReadyForQuery (byte ''I'')]) (answer r))))"

lemma read_frontend_message_shorter:
  "read_frontend_message L inp = Inr (m, rest) \<Longrightarrow> length rest < length inp"
  by (auto simp: read_frontend_message_def Let_def split: option.splits if_splits prod.splits
      dest!: read_exact_SomeD)

text \<open>The loop: the state after it, and the messages sent.\<close>

function query_loop ::
  "(bytes \<Rightarrow> ustring) \<Rightarrow> 's handler \<Rightarrow> conn_context \<Rightarrow> bytes \<Rightarrow> 's \<Rightarrow> 's \<times> backend_message list" where
  "query_loop L h cx inp st =
     (case read_frontend_message L inp of
        Inl e \<Rightarrow> (st, [])
      | Inr (m, rest) \<Rightarrow>
          (case m of
             FTerminate \<Rightarrow> (st, [])
           | FQuery q \<Rightarrow>
               (let (st', r) = respond h cx q st
                in case r of
                     None \<Rightarrow> (st', [])
                   | Some ms \<Rightarrow> let (st'', out) = query_loop L h cx rest st' in (st'', ms @ out))
           | FStartup v ps \<Rightarrow> query_loop L h cx rest st))"
  by pat_completeness auto

termination query_loop
  by (relation "measure (\<lambda>(L, h, cx, inp, st). length inp)") (auto dest!: read_frontend_message_shorter)

declare query_loop.simps [simp del]

definition handshake :: "backend_message list" where
  "handshake = [AuthenticationOk, BackendKeyData 1 0, ReadyForQuery (byte ''I'')]"

definition or_empty :: "ustring option \<Rightarrow> ustring" where
  "or_empty v = (case v of None \<Rightarrow> [] | Some s \<Rightarrow> s)"

definition context_of :: "(ustring \<rightharpoonup> ustring) \<Rightarrow> conn_context" where
  "context_of params =
     \<lparr>cx_user = or_empty (params (text_of ''user'')), cx_database = or_empty (params (text_of ''database'')),
      cx_tenant_id = 0, cx_agent_id = None\<rparr>"

text \<open>A connection: the bytes sent to the client, and the state after it.\<close>

definition run_connection :: "(bytes \<Rightarrow> ustring) \<Rightarrow> 's handler \<Rightarrow> bytes \<Rightarrow> 's \<Rightarrow> bytes \<times> 's" where
  "run_connection L h inp st =
     (case startup L inp of
        (out, Inl e) \<Rightarrow> (out, st)
      | (out, Inr (params, rest)) \<Rightarrow>
          let (st', ms) = query_loop L h (context_of params) rest st
          in (out @ encode_all (handshake @ ms), st'))"

end
