(* ===== verification/Handler.thy ===== *)
theory Handler
  imports Executor Parser_Statements Pg_Wire
begin

text \<open>
  The query handler of the server, \<open>crates/fundb-server/src/handler.rs\<close>: shortcuts recognised in the
  text of a query, then parse, bind and execute, and the conversion of a batch to the rows of the
  wire protocol. Its state is the catalog and the storage engine. Rust slices a string by bytes: a
  slice that is not on a character boundary panics. The printed form of a float, of a confidence with
  two decimals and of an id, and the decoder of the user data are arguments.
\<close>

subsection \<open>Slices\<close>

text \<open>\<open>&s[n..]\<close>.\<close>

fun slice_from :: "nat \<Rightarrow> ustring \<Rightarrow> ustring option" where
  "slice_from n [] = (if n = 0 then Some [] else None)"
| "slice_from n (c # cs) =
     (if n = 0 then Some (c # cs)
      else if len_utf8 c \<le> n then slice_from (n - len_utf8 c) cs else None)"

text \<open>\<open>str::find\<close> gives a byte position.\<close>

definition find_bytes :: "ustring \<Rightarrow> ustring \<Rightarrow> nat option" where
  "find_bytes p s = map_option (\<lambda>n. byte_len (take n s)) (find_text p s)"

subsection \<open>Values and results\<close>

datatype cell_value =
    CBool bool | CInt int | CFloat f64 | CStr string | CArray "cell_value list" | CNull

record printing =
  show_f64 :: "f64 \<Rightarrow> string"
  show_confidence :: "f32 \<Rightarrow> string"
  show_id :: "uuid \<Rightarrow> string"
  cells_dec :: "bytes \<Rightarrow> (string, cell_value) btree_map option"

definition show_int :: "int \<Rightarrow> string" where
  "show_int i = (if i < 0 then ''-'' @ dec_digits (nat (- i)) else dec_digits (nat i))"

fun intercalate :: "string \<Rightarrow> string list \<Rightarrow> string" where
  "intercalate sep [] = []"
| "intercalate sep [x] = x"
| "intercalate sep (x # xs) = x @ sep @ intercalate sep xs"

fun show_cell :: "printing \<Rightarrow> cell_value \<Rightarrow> string" where
  "show_cell F (CBool b) = (if b then ''true'' else ''false'')"
| "show_cell F (CInt i) = show_int i"
| "show_cell F (CFloat f) = show_f64 F f"
| "show_cell F (CStr s) = s"
| "show_cell F (CArray vs) = ''['' @ intercalate '','' (map (show_cell F) vs) @ '']''"
| "show_cell F CNull = ''''"

datatype query_cause =
    SyntaxError parse_result | BindFailed bind_error | SchemaScanFailed lsm_error
  | ExecutionFailed lsm_error

record query_error =
  qe_code :: string
  qe_cause :: query_cause

datatype reply = Reply query_result | ReplyError query_error | HandlerPanic

record server =
  sv_catalog :: catalog
  sv_lsm :: lsm

definition text_field :: "string \<Rightarrow> field_description" where
  "text_field n = \<lparr>fd_name = n, fd_type_oid = 25\<rparr>"

definition select_tag :: "nat \<Rightarrow> string" where
  "select_tag n = ''SELECT '' @ dec_digits n"

definition one_column :: "string \<Rightarrow> string list \<Rightarrow> query_result" where
  "one_column name vs =
     \<lparr>qr_columns = [text_field name], qr_rows = map (\<lambda>v. [Some v]) vs,
      qr_tag = select_tag (length vs)\<rparr>"

definition user_columns :: "printing \<Rightarrow> bytes \<Rightarrow> string list" where
  "user_columns F d =
     (if d = [] then []
      else case cells_dec F d of None \<Rightarrow> [] | Some m \<Rightarrow> map fst m)"

definition row_cells :: "printing \<Rightarrow> string list \<Rightarrow> fun_record \<Rightarrow> string option list" where
  "row_cells F cols r =
     (let m = (if rec_data r = [] then []
               else case cells_dec F (rec_data r) of None \<Rightarrow> [] | Some m \<Rightarrow> m)
      in [Some (show_id F (rec_id r))] @
         map (\<lambda>c. case bt_get m c of
                     None \<Rightarrow> None
                   | Some v \<Rightarrow> if v = CNull then None else Some (show_cell F v)) cols @
         [Some (show_confidence F (rec_confidence r))])"

definition batch_to_query_result :: "printing \<Rightarrow> record_batch \<Rightarrow> query_result" where
  "batch_to_query_result F b =
     (if batch_is_empty b then \<lparr>qr_columns = [], qr_rows = [], qr_tag = ''SELECT 0''\<rparr>
      else
        let cols = user_columns F (rec_data (rb_records b ! 0))
        in \<lparr>qr_columns = map text_field ([''_id''] @ cols @ [''_confidence'']),
            qr_rows = map (row_cells F cols) (rb_records b),
            qr_tag = select_tag (batch_len b)\<rparr>)"

subsection \<open>Text shortcuts\<close>

text \<open>
  The first single quote, or the first double quote when there is none, up to its partner. \<open>None\<close> is a
  panic: the position was found in the lower-case text.
\<close>

definition quoted_text :: "nat \<Rightarrow> ustring \<Rightarrow> ustring option" where
  "quoted_text quote rest =
     (case dropWhile (\<lambda>c. c \<noteq> quote) rest of
        [] \<Rightarrow> None
      | _ # after \<Rightarrow> if quote \<in> set after then Some (takeWhile (\<lambda>c. c \<noteq> quote) after) else None)"

definition extract_schema_collection :: "casing \<Rightarrow> ustring \<Rightarrow> ustring option option" where
  "extract_schema_collection T q =
     (case find_bytes (text_of ''collection'') (to_lowercase T q) of
        None \<Rightarrow> Some None
      | Some pos \<Rightarrow>
          map_option (\<lambda>rest. if 39 \<in> set rest then quoted_text 39 rest else quoted_text 34 rest)
            (slice_from pos q))"

fun count_parens :: "ustring \<Rightarrow> nat \<Rightarrow> int \<Rightarrow> nat" where
  "count_parens [] n depth = n"
| "count_parens (c # cs) n depth =
     (if c = 40 \<and> depth = 0 then count_parens cs (n + 1) (depth + 1)
      else if c = 40 then count_parens cs n (depth + 1)
      else if c = 41 then count_parens cs n (depth - 1)
      else count_parens cs n depth)"

definition count_values_in_query :: "casing \<Rightarrow> ustring \<Rightarrow> nat option" where
  "count_values_in_query T q =
     (case find_bytes (text_of ''VALUES'') (to_uppercase T q) of
        None \<Rightarrow> Some 1
      | Some pos \<Rightarrow> map_option (\<lambda>r. max 1 (count_parens r 0 0)) (slice_from (pos + 6) q))"

text \<open>\<open>SELECT n\<close> without FROM: the outer \<open>None\<close> is a panic, the inner one no match.\<close>

definition trim_end_semicolons :: "ustring \<Rightarrow> ustring" where
  "trim_end_semicolons s = rev (dropWhile (\<lambda>c. c = 59) (rev s))"

definition select_literal :: "ustring \<Rightarrow> ustring \<Rightarrow> int option option" where
  "select_literal upper q =
     (if starts_with (text_of ''SELECT '') upper \<and> \<not> contains_text (text_of ''FROM'') upper
      then map_option (\<lambda>r. parse_int (- (2 ^ 63)) (2 ^ 63 - 1) (trim (trim_end_semicolons (trim r))))
             (slice_from 7 q)
      else Some None)"

definition asks_version :: "ustring \<Rightarrow> bool" where
  "asks_version upper \<longleftrightarrow>
     contains_text (text_of ''VERSION()'') upper \<or> contains_text (text_of ''VERSION ()'') upper"

subsection \<open>The pipeline\<close>

record environment =
  en_unicode :: unicode
  en_casing :: casing
  en_ext :: ext
  en_data :: data_codec
  en_rows :: "nat \<Rightarrow> row_env"
  en_print :: printing

fun insert_table :: "expr statement \<Rightarrow> ustring option" where
  "insert_table (Insert i) = Some (in_table i)"
| "insert_table _ = None"

fun created_collection :: "expr statement \<Rightarrow> ustring option" where
  "created_collection (CreateCollection c) = Some (cc_name c)"
| "created_collection _ = None"

definition register :: "ustring option \<Rightarrow> catalog \<Rightarrow> catalog" where
  "register name c = (case name of None \<Rightarrow> c | Some n \<Rightarrow> add_collection n c)"

text \<open>Bind and execute a parsed statement, and print its result.\<close>

definition run_statement ::
  "environment \<Rightarrow> ustring \<Rightarrow> expr statement \<Rightarrow> server \<Rightarrow> server \<times> reply" where
  "run_statement V q stmt sv =
     (let c1 = register (created_collection stmt) (sv_catalog sv)
      in case bind (en_casing V) stmt c1 of
           Inl e \<Rightarrow> (sv\<lparr>sv_catalog := c1\<rparr>, ReplyError \<lparr>qe_code = ''42P01'', qe_cause = BindFailed e\<rparr>)
         | Inr plan \<Rightarrow>
             let c2 = register (insert_table stmt) c1;
                 (l, r) = execute (en_ext V) (en_data V) (en_rows V) plan (sv_lsm sv);
                 sv1 = \<lparr>sv_catalog = c2, sv_lsm = l\<rparr>
             in case r of
                  Inl e \<Rightarrow> (sv1, ReplyError \<lparr>qe_code = ''XX000'', qe_cause = ExecutionFailed e\<rparr>)
                | Inr b \<Rightarrow>
                    (sv1,
                     if insert_table stmt = None then Reply (batch_to_query_result (en_print V) b)
                     else (case count_values_in_query (en_casing V) q of
                             None \<Rightarrow> HandlerPanic
                           | Some n \<Rightarrow>
                               Reply \<lparr>qr_columns = [], qr_rows = [],
                                      qr_tag = ''INSERT 0 '' @ dec_digits n\<rparr>)))"

definition schema_reply :: "environment \<Rightarrow> ustring \<Rightarrow> server \<Rightarrow> server \<times> reply" where
  "schema_reply V col sv =
     (let (l, r) = execute (en_ext V) (en_data V) (en_rows V)
                     (Limit (Scan col None [StarExpr]) 1) (sv_lsm sv);
          sv1 = sv\<lparr>sv_lsm := l\<rparr>
      in case r of
           Inl e \<Rightarrow> (sv1, ReplyError \<lparr>qe_code = ''XX000'', qe_cause = SchemaScanFailed e\<rparr>)
         | Inr b \<Rightarrow>
             let cols = (if batch_is_empty b then []
                         else user_columns (en_print V) (rec_data (rb_records b ! 0)))
             in (sv1, Reply (one_column ''column_name'' ([''_id''] @ cols @ [''_confidence'']))))"

definition parse_and_run :: "environment \<Rightarrow> ustring \<Rightarrow> server \<Rightarrow> server \<times> reply" where
  "parse_and_run V q sv =
     (case parse (en_unicode V) q of
        Statement stmt \<Rightarrow> run_statement V q stmt sv
      | Panic \<Rightarrow> (sv, HandlerPanic)
      | e \<Rightarrow> (sv, ReplyError \<lparr>qe_code = ''42601'', qe_cause = SyntaxError e\<rparr>))"

definition after_schema :: "environment \<Rightarrow> ustring \<Rightarrow> ustring \<Rightarrow> server \<Rightarrow> server \<times> reply" where
  "after_schema V upper q sv =
     (if contains_text (text_of ''FROM _COLLECTIONS'') upper
      then (sv, Reply (one_column ''name'' (map utf8 (list_collections (sv_catalog sv)))))
      else parse_and_run V q sv)"

definition handle_query :: "environment \<Rightarrow> ustring \<Rightarrow> server \<Rightarrow> server \<times> reply" where
  "handle_query V query sv =
     (let q = trim query; upper = to_uppercase (en_casing V) q
      in if q = [] then (sv, Reply \<lparr>qr_columns = [], qr_rows = [], qr_tag = ''''\<rparr>)
         else case select_literal upper q of
           None \<Rightarrow> (sv, HandlerPanic)
         | Some (Some n) \<Rightarrow>
             (sv, Reply \<lparr>qr_columns = [\<lparr>fd_name = ''?column?'', fd_type_oid = 23\<rparr>],
                         qr_rows = [[Some (show_int n)]], qr_tag = ''SELECT 1''\<rparr>)
         | Some None \<Rightarrow>
             if asks_version upper
             then (sv, Reply (one_column ''version'' [''FunDB 0.1.0'']))
             else if contains_text (text_of ''FROM _SCHEMA'') upper
             then (case extract_schema_collection (en_casing V) q of
                     None \<Rightarrow> (sv, HandlerPanic)
                   | Some (Some col) \<Rightarrow> schema_reply V col sv
                   | Some None \<Rightarrow> after_schema V upper q sv)
             else after_schema V upper q sv)"

end
