(* ===== verification/Ieee_Facts.thy ===== *)
theory Ieee_Facts
  imports Ieee
begin

text \<open>
  Integers below \<open>2 ^ 53\<close> in magnitude are exact in an f64: converting them, subtracting them as long
  as the difference stays in range, and comparing them agrees with the integers.
\<close>

subsection \<open>Bit lengths\<close>

lemma bitlen_0 [simp]: "bitlen 0 = 0"
  by (simp add: bitlen.simps)

lemma bitlen_pos: "0 < n \<Longrightarrow> bitlen n = Suc (bitlen (n div 2))"
  by (subst bitlen.simps) simp

lemma bitlen_1 [simp]: "bitlen (Suc 0) = 1"
  by (simp add: bitlen_pos)

lemma bitlen_bounds: "0 < n \<Longrightarrow> 2 ^ (bitlen n - 1) \<le> n \<and> n < 2 ^ bitlen n"
proof (induction n rule: bitlen.induct)
  case (1 n)
  show ?case
  proof (cases "n div 2 = 0")
    case True
    then have "n = 1" using "1.prems" by linarith
    then show ?thesis by simp
  next
    case False
    then have IH: "2 ^ (bitlen (n div 2) - 1) \<le> n div 2" "n div 2 < 2 ^ bitlen (n div 2)"
      using "1.IH" "1.prems" by auto
    have b: "bitlen n = Suc (bitlen (n div 2))" "bitlen (n div 2) = Suc (bitlen (n div 2) - 1)"
      using "1.prems" False bitlen_pos [of "n div 2"] by (auto simp: bitlen_pos)
    have "2 ^ bitlen (n div 2) = 2 * (2 ^ (bitlen (n div 2) - 1) :: nat)"
      by (subst b(2)) simp
    moreover have "n = 2 * (n div 2) + n mod 2" "n mod 2 < 2" by simp_all
    ultimately have "2 ^ bitlen (n div 2) \<le> n" "n < 2 * 2 ^ bitlen (n div 2)"
      using IH by linarith+
    with b(1) show ?thesis by simp
  qed
qed

lemma bitlen_le: "n < 2 ^ p \<Longrightarrow> bitlen n \<le> p"
proof (cases "n = 0")
  case False
  assume "n < 2 ^ p"
  then have "(2::nat) ^ (bitlen n - 1) < 2 ^ p" using bitlen_bounds [of n] False by linarith
  then show ?thesis by simp
qed simp

lemma bitlen_mono: "0 < m \<Longrightarrow> m \<le> n \<Longrightarrow> bitlen m \<le> bitlen n"
  using bitlen_bounds [of n] by (intro bitlen_le) simp

lemma bitlen_shift: "0 < d \<Longrightarrow> bitlen (d * 2 ^ m) = bitlen d + m"
  by (induction m) (simp_all add: bitlen_pos mult.assoc [symmetric])

text \<open>The mantissa of a positive integer, with its leading bit at position 52.\<close>

definition mantissa :: "nat \<Rightarrow> nat" where
  "mantissa d = d * 2 ^ (53 - bitlen d)"

lemma mantissa_bounds:
  assumes "0 < d" and "d < 2 ^ 53"
  shows "2 ^ 52 \<le> mantissa d" and "mantissa d < 2 ^ 53"
proof -
  have k: "bitlen d \<le> 53" "1 \<le> bitlen d" using assms bitlen_le by (auto simp: bitlen_pos)
  have b: "2 ^ (bitlen d - 1) \<le> d" "d < 2 ^ bitlen d" using bitlen_bounds assms(1) by auto
  have "(2::nat) ^ 52 = 2 ^ (bitlen d - 1) * 2 ^ (53 - bitlen d)"
    using k by (simp add: power_add [symmetric])
  also have "\<dots> \<le> mantissa d" unfolding mantissa_def by (rule mult_le_mono1 [OF b(1)])
  finally show "2 ^ 52 \<le> mantissa d" .
  have "(2::nat) ^ 53 = 2 ^ bitlen d * 2 ^ (53 - bitlen d)"
    using k by (simp add: power_add [symmetric])
  moreover have "mantissa d < 2 ^ bitlen d * 2 ^ (53 - bitlen d)"
    unfolding mantissa_def by (rule mult_less_mono1 [OF b(2)]) simp
  ultimately show "mantissa d < 2 ^ 53" by linarith
qed

subsection \<open>Rounding an integer is exact\<close>

lemma nearest_even_exact:
  "nearest_even (scale (d * 2 ^ m) 1 (int c - int m)) = d * 2 ^ c"
  "fst (scale (d * 2 ^ m) 1 (int c - int m)) div snd (scale (d * 2 ^ m) 1 (int c - int m)) = d * 2 ^ c"
proof -
  have "nearest_even (scale (d * 2 ^ m) 1 (int c - int m)) = d * 2 ^ c \<and>
    fst (scale (d * 2 ^ m) 1 (int c - int m)) div snd (scale (d * 2 ^ m) 1 (int c - int m)) = d * 2 ^ c"
  proof (cases "m \<le> c")
    case True
    then have "d * 2 ^ m * 2 ^ (c - m) = d * 2 ^ c"
      by (simp only: mult.assoc power_add [symmetric] le_add_diff_inverse)
    with True have "scale (d * 2 ^ m) 1 (int c - int m) = (d * 2 ^ c, 1)"
      by (simp add: scale_def nat_diff_distrib)
    then show ?thesis by (simp add: nearest_even_def)
  next
    case False
    then have "d * 2 ^ m = d * 2 ^ c * 2 ^ (m - c)"
      by (simp only: mult.assoc power_add [symmetric]) simp
    with False have "scale (d * 2 ^ m) 1 (int c - int m) = (d * 2 ^ c * 2 ^ (m - c), 2 ^ (m - c))"
      by (simp add: scale_def nat_diff_distrib)
    then show ?thesis by (simp add: nearest_even_def)
  qed
  then show "nearest_even (scale (d * 2 ^ m) 1 (int c - int m)) = d * 2 ^ c"
    "fst (scale (d * 2 ^ m) 1 (int c - int m)) div snd (scale (d * 2 ^ m) 1 (int c - int m)) = d * 2 ^ c"
    by blast+
qed

lemma round_ratio_exact:
  assumes "0 < d" and "d < 2 ^ 53" and "m \<le> 1074"
  shows "round_ratio Binary64 s (d * 2 ^ m) 1 (- int m) =
    FFin s (mantissa d) (int (bitlen d) - 53)"
proof -
  have k: "bitlen d \<le> 53" using assms bitlen_le by auto
  define t where "t = int (bitlen (d * 2 ^ m)) - int (bitlen 1) + - int m - int (prec Binary64)"
  have t: "t = int (bitlen d) - 54" using assms(1) by (simp add: t_def bitlen_shift)
  have t1: "- int m - t = int (54 - bitlen d) - int m" using k t by simp
  have t2: "- int m - (t + 1) = int (53 - bitlen d) - int m" using k t by simp
  have "(2::nat) ^ 53 \<le> d * 2 ^ (54 - bitlen d)"
  proof -
    have "d * 2 ^ (54 - bitlen d) = 2 * mantissa d"
    proof -
      have "54 - bitlen d = Suc (53 - bitlen d)" using k by linarith
      then show ?thesis by (simp add: mantissa_def)
    qed
    then show ?thesis using mantissa_bounds(1) [OF assms(1,2)] by simp
  qed
  then have big: "2 ^ prec Binary64 \<le> fst (scale (d * 2 ^ m) 1 (- int m - t)) div
      snd (scale (d * 2 ^ m) 1 (- int m - t))"
    unfolding t1 nearest_even_exact(2) by simp
  have e: "max (emin Binary64) (t + 1) = t + 1" using t by simp
  have q: "nearest_even (scale (d * 2 ^ m) 1 (- int m - (t + 1))) = mantissa d"
    unfolding t2 nearest_even_exact(1) by (simp add: mantissa_def)
  have "mantissa d \<noteq> 2 ^ prec Binary64" using mantissa_bounds(2) [OF assms(1,2)] by simp
  moreover have "t + 1 \<le> emax Binary64" using k t by simp
  ultimately show ?thesis
    using big e q assms(1) t
    unfolding round_ratio_def Let_def t_def [symmetric]
    by (simp add: case_prod_beta)
qed

subsection \<open>Bit patterns of normal numbers\<close>

definition pattern :: "bool \<Rightarrow> nat \<Rightarrow> int \<Rightarrow> nat" where
  "pattern s m e = (if s then 2 ^ 63 else 0) + (nat (e + 1075) * 2 ^ 52 + (m - 2 ^ 52))"

lemma encode_normal:
  "2 ^ 52 \<le> m \<Longrightarrow> encode Binary64 (FFin s m e) = pattern s m e"
  by (simp add: encode_def pattern_def add.commute)

lemma pattern_fields:
  assumes "2 ^ 52 \<le> m" "m < 2 ^ 53" "- 1074 \<le> e" "e \<le> 971"
  shows "pattern s m e < 2 ^ 64" and "decode Binary64 (pattern s m e) = FFin s m e"
    and "magnitude Binary64 (pattern s m e) = nat (e + 1075) * 2 ^ 52 + (m - 2 ^ 52)"
    and "order_key Binary64 (pattern s m e) = signed s (nat (e + 1075) * 2 ^ 52 + (m - 2 ^ 52))"
    and "\<not> is_nan Binary64 (pattern s m e)"
proof -
  define E where "E = nat (e + 1075)"
  define f where "f = m - 2 ^ 52"
  have E: "1 \<le> E" "E \<le> 2046" "e = int E - 1075" using assms by (auto simp: E_def)
  have f: "f < 2 ^ 52" "m = f + 2 ^ 52" using assms by (auto simp: f_def)
  have n: "pattern s m e = (if s then 2 ^ 63 else 0) + (E * 2 ^ 52 + f)"
    by (simp add: pattern_def E_def f_def)
  then have n': "pattern s m e = ((if s then 2048 else 0) + E) * 2 ^ 52 + f"
    by (cases s) simp_all
  have lt: "E * 2 ^ 52 + f < 2 ^ 63" using E(2) f(1) by simp
  show b: "pattern s m e < 2 ^ 64" using n lt by simp
  have md: "pattern s m e mod 2 ^ 52 = f"
    unfolding n' mod_mult_self3 using f(1) by simp
  have dv: "pattern s m e div 2 ^ 52 = (if s then 2048 else 0) + E"
    unfolding n' using f(1) by (subst div_mult_self3) simp_all
  have ex: "pattern s m e div 2 ^ 52 mod 2048 = E"
    unfolding dv using E(2) by (cases s) simp_all
  have sg: "2 ^ 63 \<le> pattern s m e \<longleftrightarrow> s" using n lt by simp
  show "decode Binary64 (pattern s m e) = FFin s m e"
    using md ex sg E f(2) by (simp add: decode_def Let_def)
  show mg: "magnitude Binary64 (pattern s m e) = nat (e + 1075) * 2 ^ 52 + (m - 2 ^ 52)"
    unfolding magnitude_def n E_def [symmetric] f_def [symmetric] using lt by (cases s) simp_all
  show "order_key Binary64 (pattern s m e) = signed s (nat (e + 1075) * 2 ^ 52 + (m - 2 ^ 52))"
    unfolding order_key_def mg using sg by simp
  show "\<not> is_nan Binary64 (pattern s m e)"
    unfolding is_nan_def mg E_def [symmetric] f_def [symmetric] using E(2) f(1) by simp
qed

subsection \<open>Integers\<close>

definition int_float :: "int \<Rightarrow> ieee" where
  "int_float i =
     (if i = 0 then FFin False 0 (- 1074)
      else FFin (i < 0) (mantissa (nat \<bar>i\<bar>)) (int (bitlen (nat \<bar>i\<bar>)) - 53))"

lemma round_int_exact:
  assumes "\<bar>i\<bar> < 2 ^ 53" and "m \<le> 1074" and "i = 0 \<Longrightarrow> \<not> s"
  shows "round_int Binary64 s (i * 2 ^ m) (- int m) = int_float i"
proof (cases "i = 0")
  case True
  with assms(3) show ?thesis by (simp add: round_int_def round_ratio_def int_float_def)
next
  case False
  have "nat \<bar>i * 2 ^ m\<bar> = nat \<bar>i\<bar> * 2 ^ m" by (simp add: abs_mult nat_mult_distrib nat_power_eq)
  moreover have "nat \<bar>i\<bar> < 2 ^ 53" using assms(1) by simp
  ultimately show ?thesis
    using False round_ratio_exact [of "nat \<bar>i\<bar>" m "i < 0"] assms(2)
    by (simp add: round_int_def int_float_def mult_less_0_iff)
qed

lemma int_bits:
  assumes "\<bar>i\<bar> < 2 ^ 53" and "i \<noteq> 0"
  defines "d \<equiv> nat \<bar>i\<bar>"
  shows "encode Binary64 (int_float i) = pattern (i < 0) (mantissa d) (int (bitlen d) - 53)"
    and "2 ^ 52 \<le> mantissa d" "mantissa d < 2 ^ 53"
    and "- 1074 \<le> int (bitlen d) - 53" "int (bitlen d) - 53 \<le> 971"
proof -
  have d: "0 < d" "d < 2 ^ 53" using assms by auto
  note mantissa_bounds [OF d]
  then show "2 ^ 52 \<le> mantissa d" "mantissa d < 2 ^ 53" by simp_all
  then show "encode Binary64 (int_float i) = pattern (i < 0) (mantissa d) (int (bitlen d) - 53)"
    using assms(2) by (simp add: int_float_def d_def [symmetric] encode_normal)
  show "- 1074 \<le> int (bitlen d) - 53" "int (bitlen d) - 53 \<le> 971"
    using bitlen_le [OF d(2)] by simp_all
qed

lemma encode_zero: "encode Binary64 (int_float 0) = 0"
  by (simp add: encode_def int_float_def)

lemma unat_int_as_f64:
  assumes "\<bar>i\<bar> < 2 ^ 53"
  shows "unat (int_as_f64 i) = encode Binary64 (int_float i)"
proof -
  have "encode Binary64 (int_float i) < 2 ^ 64"
  proof (cases "i = 0")
    case True
    then show ?thesis by (simp add: encode_zero)
  next
    case False
    note b = int_bits [OF assms False]
    show ?thesis unfolding b(1) by (rule pattern_fields(1) [OF b(2-5)])
  qed
  then show ?thesis
    using round_int_exact [of i 0 False] assms
    by (simp add: int_as_f64_def f64_bits_def unat_of_nat)
qed

lemma unat_zero_f64: "unat (int_as_f64 0) = 0"
  using unat_int_as_f64 [of 0] encode_zero by simp

lemma f64_val_int:
  assumes "\<bar>i\<bar> < 2 ^ 53"
  shows "f64_val (int_as_f64 i) = int_float i"
proof (cases "i = 0")
  case True
  then show ?thesis by (simp add: f64_val_def unat_zero_f64 decode_def int_float_def)
next
  case False
  note b = int_bits [OF assms False]
  show ?thesis
    unfolding f64_val_def unat_int_as_f64 [OF assms] b(1) pattern_fields(2) [OF b(2-5)]
    using False by (simp add: int_float_def)
qed

subsection \<open>Order\<close>

definition int_key :: "int \<Rightarrow> int" where
  "int_key i = order_key Binary64 (unat (int_as_f64 i))"

lemma int_key_zero [simp]: "int_key 0 = 0"
  by (simp add: int_key_def unat_zero_f64 order_key_def magnitude_def signed_def)

definition pos_key :: "nat \<Rightarrow> nat" where
  "pos_key d = nat (int (bitlen d) + 1022) * 2 ^ 52 + (mantissa d - 2 ^ 52)"

lemma int_key_nonzero:
  assumes "\<bar>i\<bar> < 2 ^ 53" and "i \<noteq> 0"
  shows "int_key i = signed (i < 0) (pos_key (nat \<bar>i\<bar>))"
  unfolding int_key_def unat_int_as_f64 [OF assms(1)] int_bits(1) [OF assms]
    pattern_fields(4) [OF int_bits(2-5) [OF assms]] pos_key_def by (simp add: add.commute)

lemma int_not_nan:
  assumes "\<bar>i\<bar> < 2 ^ 53"
  shows "\<not> is_nan Binary64 (unat (int_as_f64 i))"
proof (cases "i = 0")
  case True
  then show ?thesis by (simp add: unat_zero_f64 is_nan_def magnitude_def)
next
  case False
  show ?thesis
    unfolding unat_int_as_f64 [OF assms] int_bits(1) [OF assms False]
    by (rule pattern_fields(5) [OF int_bits(2-5) [OF assms False]])
qed

lemma pos_key_pos: "0 < d \<Longrightarrow> 1023 * 2 ^ 52 \<le> pos_key d"
  by (simp add: pos_key_def bitlen_pos)

lemma pos_key_mono:
  assumes "0 < d" "d < e" "e < 2 ^ 53"
  shows "pos_key d < pos_key e"
proof -
  have le: "bitlen d \<le> bitlen e" using assms bitlen_mono by simp
  have d: "2 ^ 52 \<le> mantissa d" "mantissa d < 2 ^ 53" using assms mantissa_bounds by simp_all
  have e: "2 ^ 52 \<le> mantissa e" "mantissa e < 2 ^ 53" using assms mantissa_bounds by simp_all
  show ?thesis
  proof (cases "bitlen d = bitlen e")
    case True
    have "mantissa d < mantissa e"
      unfolding mantissa_def True by (rule mult_less_mono1) (use assms in simp_all)
    with True d e show ?thesis by (simp add: pos_key_def)
  next
    case False
    have "(nat (int (bitlen d) + 1022) + 1) * 2 ^ 52 \<le> nat (int (bitlen e) + 1022) * (2 ^ 52 :: nat)"
      using le False by (intro mult_le_mono1) linarith
    with d e show ?thesis by (simp add: pos_key_def)
  qed
qed

lemma int_key_less:
  assumes "\<bar>i\<bar> < 2 ^ 53" "\<bar>j\<bar> < 2 ^ 53" "i < j"
  shows "int_key i < int_key j"
proof -
  consider "i = 0" | "j = 0" | "0 < i" | "j < 0" | "i < 0" "0 < j" using assms(3) by linarith
  then show ?thesis
  proof cases
    case 1
    then show ?thesis using assms int_key_nonzero [of j] pos_key_pos [of "nat j"] by (simp add: signed_def)
  next
    case 2
    then show ?thesis
      using assms int_key_nonzero [of i] pos_key_pos [of "nat (- i)"] by (simp add: signed_def)
  next
    case 3
    then show ?thesis
      using assms int_key_nonzero [of i] int_key_nonzero [of j] pos_key_mono [of "nat i" "nat j"]
      by (simp add: signed_def)
  next
    case 4
    then show ?thesis
      using assms int_key_nonzero [of i] int_key_nonzero [of j] pos_key_mono [of "nat (- j)" "nat (- i)"]
      by (simp add: signed_def)
  next
    case 5
    then show ?thesis
      using assms int_key_nonzero [of i] int_key_nonzero [of j] pos_key_pos [of "nat j"]
      by (simp add: signed_def)
  qed
qed

lemma int_key_iff:
  assumes "\<bar>i\<bar> < 2 ^ 53" "\<bar>j\<bar> < 2 ^ 53"
  shows "int_key i < int_key j \<longleftrightarrow> i < j" "int_key i \<le> int_key j \<longleftrightarrow> i \<le> j"
  using int_key_less [of i j] int_key_less [of j i] assms
  by (cases i j rule: linorder_cases; simp)+

theorem f64_compare_ints:
  assumes "\<bar>i\<bar> < 2 ^ 53" "\<bar>j\<bar> < 2 ^ 53"
  shows "f64_lt (int_as_f64 i) (int_as_f64 j) \<longleftrightarrow> i < j"
    and "f64_le (int_as_f64 i) (int_as_f64 j) \<longleftrightarrow> i \<le> j"
  using int_not_nan assms int_key_iff [OF assms]
  by (simp_all add: f64_lt_def f64_le_def fp_lt_def fp_le_def int_key_def)

subsection \<open>Differences\<close>

text \<open>A term of a sum, aligned to the exponent \<open>- M\<close>.\<close>

lemma aligned:
  assumes "int_float i = FFin s m e" and "\<bar>i\<bar> < 2 ^ 53" and "- int M \<le> e"
  shows "signed s (m * 2 ^ nat (e + int M)) = i * 2 ^ M"
proof (cases "i = 0")
  case True
  with assms(1) show ?thesis by (simp add: int_float_def signed_def)
next
  case False
  let ?k = "bitlen (nat \<bar>i\<bar>)"
  have k: "?k \<le> 53" using bitlen_le [of "nat \<bar>i\<bar>" 53] assms(2) by simp
  have v: "s = (i < 0)" "m = nat \<bar>i\<bar> * 2 ^ (53 - ?k)" "e = int ?k - 53"
    using assms(1) False by (auto simp: int_float_def mantissa_def)
  have "53 - ?k \<le> M" "nat (e + int M) = M - (53 - ?k)" using assms(3) k v(3) by linarith+
  then have "m * 2 ^ nat (e + int M) = nat \<bar>i\<bar> * 2 ^ M"
    unfolding v(2) by (simp only: mult.assoc power_add [symmetric]) simp
  then show ?thesis using v(1) by (auto simp: signed_def)
qed

lemma int_float_exp: "int_float i = FFin s m e \<Longrightarrow> \<bar>i\<bar> < 2 ^ 53 \<Longrightarrow> - 1074 \<le> e \<and> e \<le> 0"
  using bitlen_le [of "nat \<bar>i\<bar>" 53] by (auto simp: int_float_def split: if_splits)

theorem f64_sub_ints:
  assumes i: "\<bar>i\<bar> < 2 ^ 53" and j: "\<bar>j\<bar> < 2 ^ 53" and d: "\<bar>i - j\<bar> < 2 ^ 53"
  shows "f64_sub (int_as_f64 i) (int_as_f64 j) = int_as_f64 (i - j)"
proof -
  obtain s m e where fi: "int_float i = FFin s m e" by (cases "i = 0") (auto simp: int_float_def)
  obtain s' m' e' where fj: "int_float j = FFin s' m' e'"
    by (cases "j = 0") (auto simp: int_float_def)
  define M where "M = nat (- min e e')"
  have b: "- 1074 \<le> e" "e \<le> 0" "- 1074 \<le> e'" "e' \<le> 0"
    using int_float_exp [OF fi i] int_float_exp [OF fj j] by auto
  then have M: "min e e' = - int M" "M \<le> 1074" "- int M \<le> e" "- int M \<le> e'" by (auto simp: M_def)
  have neg: "signed (\<not> s') x = - signed s' x" for x by (simp add: signed_def)
  have sum: "signed s (m * 2 ^ nat (e + int M)) + signed (\<not> s') (m' * 2 ^ nat (e' + int M)) =
      (i - j) * 2 ^ M"
    unfolding neg aligned [OF fi i M(3)] aligned [OF fj j M(4)] by (simp add: left_diff_distrib)
  have sg: "i - j = 0 \<Longrightarrow> \<not> (s \<and> \<not> s')" using fi fj by (auto simp: int_float_def split: if_splits)
  have "ieee_add Binary64 (int_float i) (ieee_neg (int_float j)) = int_float (i - j)"
    unfolding fi fj using round_int_exact [OF d M(2) sg] sum by (simp add: Let_def M(1))
  moreover have "int_as_f64 (i - j) = f64_bits (int_float (i - j))"
    using round_int_exact [OF d, of 0 False] by (simp add: int_as_f64_def)
  ultimately show ?thesis
    using f64_val_int [OF i] f64_val_int [OF j] by (simp add: f64_sub_def)
qed

theorem f64_abs_int:
  assumes "\<bar>i\<bar> < 2 ^ 53"
  shows "f64_abs (int_as_f64 i) = int_as_f64 \<bar>i\<bar>"
proof -
  have "ieee_abs (int_float i) = int_float \<bar>i\<bar>" by (simp add: int_float_def)
  moreover have "int_as_f64 \<bar>i\<bar> = f64_bits (int_float \<bar>i\<bar>)"
    using round_int_exact [of "\<bar>i\<bar>" 0 False] assms by (simp add: int_as_f64_def)
  ultimately show ?thesis using f64_val_int [OF assms] by (simp add: f64_abs_def)
qed

subsection \<open>Evaluation of f32 on numerals\<close>

lemmas f32_eval = f32_mul_def f32_le_def f32_lt_def fp_le_def fp_lt_def is_nan_def order_key_def
  magnitude_def signed_def f32_val_def f32_bits_def decode_def encode_def round_ratio_def scale_def
  nearest_even_def Let_def

definition f32_half :: f32 where
  "f32_half = 0x3F000000"

lemma f32_mul_one_half [simp]: "f32_mul f32_one f32_half = f32_half"
  by (simp add: f32_eval f32_one_def f32_half_def bitlen.simps)

lemma f32_mul_half_one [simp]: "f32_mul f32_half f32_one = f32_half"
  by (simp add: f32_eval f32_one_def f32_half_def bitlen.simps)

lemma f32_mul_one_one [simp]: "f32_mul f32_one f32_one = f32_one"
  by (simp add: f32_eval f32_one_def bitlen.simps)

lemma f32_unit_order [simp]:
  "f32_le f32_zero f32_one" "f32_le f32_zero f32_half" "f32_le f32_half f32_one" "f32_le f32_one f32_one" "f32_le f32_half f32_half"
  "f32_lt f32_half f32_one" "\<not> f32_lt f32_one f32_half" "\<not> f32_lt f32_one f32_one"
  by (simp_all add: f32_eval f32_one_def f32_zero_def f32_half_def)

end
