(* ===== verification/Query_Properties.thy ===== *)
theory Query_Properties
  imports Query_Facts Handler Storage_Properties Ieee_Facts Lexer_Properties
begin

text \<open>
  The properties of the query path: what a SELECT returns, that the optimizer keeps it, what ORDER BY
  and INSERT do, and the statements and texts that the server acknowledges without executing them.
\<close>

subsection \<open>Plain queries\<close>

definition bound :: "expr \<Rightarrow> plan_expr" where
  "bound e = (case bind_expr e of Inr p \<Rightarrow> p | Inl _ \<Rightarrow> StarExpr)"

lemma bind_expr_bound: "bind_expr e = Inr (bound e)"
  using bind_expr_total [of e] by (auto simp: bound_def)

lemma collect_bound: "collect (map bind_expr es) = Inr (map bound es)"
  by (induction es) (simp_all add: bind_expr_bound)

definition table_of :: "expr select_stmt \<Rightarrow> ustring" where
  "table_of q = (case s_from q of None \<Rightarrow> [] | Some t \<Rightarrow> tr_name t)"

definition order_keys :: "expr select_stmt \<Rightarrow> sort_expr list" where
  "order_keys q = map (\<lambda>i. SortExpr (bound (ob_expr i)) (ob_asc i)) (s_order_by q)"

text \<open>SELECT .. FROM .. WHERE .. ORDER BY .. LIMIT, without the clauses of other engines.\<close>

definition plain_select :: "expr select_stmt \<Rightarrow> bool" where
  "plain_select q \<longleftrightarrow>
     s_trace_causality q = None \<and> s_traverse q = None \<and> s_within_context q = None \<and>
     s_group_by q = [] \<and>
     (case s_where q of None \<Rightarrow> True | Some e \<Rightarrow> try_build_vector_scan (table_of q) e = None)"

text \<open>Conditions and sort keys on which the rewriting rules are sound.\<close>

definition query_ok :: "expr select_stmt \<Rightarrow> bool" where
  "query_ok q \<longleftrightarrow>
     pred_option (comparisons_plain \<circ> bound) (s_where q) \<and>
     (\<forall>x\<in>set (order_keys q). is_column (fold_expr (se_expr x)) = is_column (se_expr x))"

definition limited :: "expr option \<Rightarrow> 'a list \<Rightarrow> 'a list" where
  "limited l xs = (case l of None \<Rightarrow> xs | Some e \<Rightarrow> take (or_default 0 (expr_to_usize e)) xs)"

definition selected :: "data_codec \<Rightarrow> expr option \<Rightarrow> fun_record \<Rightarrow> bool" where
  "selected D w r \<longleftrightarrow> (case w of None \<Rightarrow> True | Some e \<Rightarrow> eval_expr D (bound e) r)"

text \<open>The rows of a query over the live records of its key range.\<close>

definition query_rows ::
  "data_codec \<Rightarrow> expr select_stmt \<Rightarrow> (record_key \<times> fun_record) list \<Rightarrow> (record_key \<times> fun_record) list"
  where
  "query_rows D q ps =
     limited (s_limit q)
       (sort_by (\<lambda>a b. compare_records D (order_keys q) (snd a) (snd b))
         (filter (\<lambda>(k, r). selected D (s_where q) r) ps))"

definition plan_of :: "expr select_stmt \<Rightarrow> plan_expr list \<Rightarrow> logical_plan" where
  "plan_of q projections =
     (let p = Scan (table_of q) None projections;
          p1 = (case s_where q of None \<Rightarrow> p | Some e \<Rightarrow> Filter p (bound e));
          p2 = (if s_order_by q = [] then p1 else Sort p1 (order_keys q))
      in case s_limit q of None \<Rightarrow> p2 | Some l \<Rightarrow> Limit p2 (or_default 0 (expr_to_usize l)))"

lemma collect_items: "\<exists>ps. collect (map bind_select_item items) = Inr ps"
proof (rule collect_total, clarsimp)
  fix i :: "expr select_item"
  show "\<exists>x. bind_select_item i = Inr x" by (cases i) (auto simp: bind_expr_bound)
qed

lemma collect_order: "collect (map bind_order_item (s_order_by q)) = Inr (order_keys q)"
proof -
  have "collect (map bind_order_item is) = Inr (map (\<lambda>i. SortExpr (bound (ob_expr i)) (ob_asc i)) is)"
    for "is" :: "expr order_by_item list"
  proof (induction "is")
    case (Cons i "is")
    then show ?case by (cases i) (simp add: bind_expr_bound)
  qed simp
  then show ?thesis by (simp add: order_keys_def)
qed

lemma bind_source_plain:
  "plain_select q \<Longrightarrow> bind_source (table_of q) es (s_where q) =
     Inr (case s_where q of None \<Rightarrow> Scan (table_of q) None es
          | Some e \<Rightarrow> Filter (Scan (table_of q) None es) (bound e))"
  by (auto simp: bind_source_def plain_select_def bind_expr_bound split: option.splits)

lemma bind_plain_select:
  assumes "plain_select q" and "table_of q = [] \<or> has_collection cat (table_of q)"
  obtains es where "bind T (Select q) cat = Inr (plan_of q es)"
proof -
  obtain es where es: "collect (map bind_select_item (s_projections q)) = Inr es"
    using collect_items by blast
  have "bind T (Select q) cat = Inr (plan_of q es)"
    using assms bind_source_plain [OF assms(1), of es]
    by (auto simp: bind_select_def table_of_def [symmetric] es plan_of_def collect_order Let_def
        plain_select_def)
  then show thesis by (rule that)
qed

lemma plan_ok_plan_of: "query_ok q \<Longrightarrow> plan_ok (plan_of q es)"
  by (auto simp: query_ok_def plan_of_def Let_def split: option.splits)

lemma list_less_append: "xs < xs @ y # (ys :: 'a::linorder list)"
  by (induction xs) simp_all

lemma scan_from_le: "scan_from c \<le> scan_to c"
  by (simp add: scan_from_def scan_to_def list_less_append)

lemma execute_plan_of:
  assumes "lsm_scan X (scan_from (table_of q)) (scan_to (table_of q)) s = Inr ps"
  shows "execute_plan X D E (plan_of q es) s = (s, Inr (of_rows (query_rows D q ps)))"
proof -
  have s0: "sort_by (\<lambda>p q. OEqual) ps = ps" for ps :: "(record_key \<times> fun_record) list"
  proof (induction ps)
    case (Cons p ps)
    then show ?case by (cases ps) auto
  qed simp
  have "order_keys q = [] \<longleftrightarrow> s_order_by q = []" by (simp add: order_keys_def)
  then show ?thesis
    using assms
    by (auto simp: plan_of_def Let_def scan_op_rows on_batch_def query_rows_def selected_def
        limited_def s0 split: option.splits)
qed

lemma select_rows:
  assumes "lsm_wf X s" and "plain_select q" and "query_ok q"
    and "table_of q = [] \<or> has_collection cat (table_of q)"
  obtains p ps where "bind T (Select q) cat = Inr p"
    and "execute X D E p s = (s, Inr (of_rows (query_rows D q ps)))" and "bt_inv ps"
    and "\<And>k. map_of ps k =
           (if scan_from (table_of q) \<le> k \<and> k \<le> scan_to (table_of q) then view X s k else None)"
proof -
  obtain es where p: "bind T (Select q) cat = Inr (plan_of q es)"
    using bind_plain_select [OF assms(2,4)] by blast
  obtain ps where ps: "lsm_scan X (scan_from (table_of q)) (scan_to (table_of q)) s = Inr ps"
    "bt_inv ps" "\<And>k. map_of ps k =
      (if scan_from (table_of q) \<le> k \<and> k \<le> scan_to (table_of q) then view X s k else None)"
    using lsm_scan_view [OF assms(1) scan_from_le, of "table_of q"] by blast
  have e: "execute X D E (plan_of q es) s = (s, Inr (of_rows (query_rows D q ps)))"
    by (simp add: execute_optimized plan_ok_plan_of assms(3) execute_plan_of [OF ps(1)])
  show thesis using p e ps(2,3) by (rule that)
qed

text \<open>
  C2: A SELECT returns what it says. For a query with a table, a condition, sort keys and a limit, bound
  and optimized, the executor leaves the store as it is and returns exactly the live records of the
  key range of the table that satisfy the condition, in the order of the sort keys and otherwise of
  their record keys, cut at the limit.
\<close>

theorem select_correct:
  assumes "lsm_wf X s" and "plain_select q" and "query_ok q"
    and "table_of q = [] \<or> has_collection cat (table_of q)"
  shows "\<exists>p ps. bind T (Select q) cat = Inr p \<and>
           execute X D E p s = (s, Inr (of_rows (query_rows D q ps))) \<and>
           sorted_wrt (<) (map fst ps) \<and>
           (\<forall>k. map_of ps k =
              (if scan_from (table_of q) \<le> k \<and> k \<le> scan_to (table_of q) then view X s k else None))"
proof -
  obtain p ps where "bind T (Select q) cat = Inr p"
    "execute X D E p s = (s, Inr (of_rows (query_rows D q ps)))" "bt_inv ps"
    "\<And>k. map_of ps k =
       (if scan_from (table_of q) \<le> k \<and> k \<le> scan_to (table_of q) then view X s k else None)"
    using select_rows [OF assms] by metis
  then show ?thesis by (auto simp: bt_inv_def strict_sorted_iff)
qed

text \<open>A query over the collection \<open>c\<close>, and a store that holds two records of it.\<close>

definition sample_query :: "expr option \<Rightarrow> (expr \<times> bool) list \<Rightarrow> expr option \<Rightarrow> expr select_stmt" where
  "sample_query w ob l =
     SelectStmt False [Wildcard] (Some (TableRef (text_of ''c'') None False)) [] w [] None
       (map (\<lambda>(e, a). OrderByItem e a) ob) l None None None None None [] None"

definition sample_casing :: casing where
  "sample_casing = \<lparr>lower_table = id, upper_table = id\<rparr>"

text \<open>User data without fields, and rows whose ids count from one.\<close>

definition sample_data :: data_codec where
  "sample_data = \<lparr>data_dec = (\<lambda>_. Some (\<lambda>_. None)), data_enc = (\<lambda>_. Some [])\<rparr>"

definition sample_rows :: "nat \<Rightarrow> row_env" where
  "sample_rows i = \<lparr>new_id = [word_of_nat (i + 1)], now_ns = 0, flush_ts = i, compact_ts = i\<rparr>"

abbreviation empty_tree :: lsm where
  "empty_tree \<equiv> lsm_open plain_ext ''dir'' [] None 100"

lemma table_of_sample [simp]: "table_of (sample_query w ob l) = text_of ''c''"
  by (simp add: table_of_def sample_query_def)

lemma plain_sample [simp]:
  "plain_select (sample_query None ob l)"
  "plain_select (sample_query (Some (BinaryOp op (Ident n) (Literal x))) ob l)"
  by (simp_all add: plain_select_def sample_query_def)

lemma utf8_c [simp]: "utf8 (text_of ''c'') = ''c''"
  by (simp add: utf8_text_of)

definition sample_select :: "expr select_stmt" where
  "sample_select =
     sample_query (Some (BinaryOp OpGtEq (Ident (text_of ''_tenant'')) (Literal (LInt 0))))
       [(Ident (text_of ''_confidence''), False)] (Some (Literal (LInt 5)))"

theorem select_correct_witness:
  "\<exists>p ps. bind sample_casing (Select sample_select) \<lparr>collections = {text_of ''c''}\<rparr> = Inr p \<and>
     execute plain_ext sample_data sample_rows p empty_tree =
       (empty_tree, Inr (of_rows (query_rows sample_data sample_select ps))) \<and>
     sorted_wrt (<) (map fst ps) \<and>
     (\<forall>k. map_of ps k =
        (if scan_from (text_of ''c'') \<le> k \<and> k \<le> scan_to (text_of ''c'')
         then view plain_ext empty_tree k else None))"
proof -
  have "query_ok sample_select"
    by (simp add: query_ok_def sample_select_def sample_query_def bound_def order_keys_def)
  moreover have "lsm_wf plain_ext empty_tree" using quiet_sample_open by (simp add: quiet_def)
  moreover have "plain_select sample_select" "table_of sample_select = text_of ''c''"
    by (simp_all add: sample_select_def)
  ultimately show ?thesis
    using select_correct [of plain_ext empty_tree sample_select
        "\<lparr>collections = {text_of ''c''}\<rparr>" sample_casing sample_data sample_rows]
    by (simp add: has_collection_def)
qed

subsection \<open>The optimizer\<close>

text \<open>
  C3: The optimizer keeps the result of a plan: rows, errors and the state of the store are the same
  with and without rewriting, for every plan whose comparisons have no foldable connective as an
  operand, whose sort keys do not depend on folding, and that puts no condition directly on the rows
  of a vector scan.
\<close>

theorem optimizer_preserves:
  assumes "plan_ok p"
  shows "execute X D E p s = execute_plan X D E p s"
  using assms by (rule execute_optimized)

definition sample_plan :: logical_plan where
  "sample_plan =
     Limit (Filter (Project (Scan (text_of ''c'') None []) [StarExpr])
       (Binary AndOp (Lit (PBool True))
         (Binary LtOp (Column (text_of ''_tenant'')) (Lit (PInt 7))))) 3"

theorem optimizer_preserves_witness:
  "optimize sample_plan \<noteq> sample_plan \<and>
   execute plain_ext sample_data sample_rows sample_plan empty_tree =
     execute_plan plain_ext sample_data sample_rows sample_plan empty_tree"
proof
  show "optimize sample_plan \<noteq> sample_plan"
    by (simp add: sample_plan_def optimize_def eval_nat_numeral apply_all_rules_def fold_binary_def)
  show "execute plain_ext sample_data sample_rows sample_plan empty_tree =
      execute_plan plain_ext sample_data sample_rows sample_plan empty_tree"
    by (rule optimizer_preserves) (simp add: sample_plan_def)
qed

text \<open>
  The optimizer drops conditions on vector scans. A filter over a vector scan whose condition is
  any comparison with \<open><\<close> or \<open><=\<close>, on whatever column, is removed: all rows of the scan are returned.
\<close>

theorem optimizer_drops_vector_filter:
  assumes "op = LtOp \<or> op = LeOp"
  shows "execute X D E (Filter (VectorScan c f v t) (Binary op a b)) s =
           execute_plan X D E (VectorScan c f v t) s"
proof -
  have "apply_all_rules (Filter (VectorScan c f v t) (Binary op a b)) = VectorScan c f v t"
    using assms by (auto simp: apply_all_rules_def fold_binary_def)
  moreover have "apply_all_rules (VectorScan c f v t) = VectorScan c f v t"
    by (simp add: apply_all_rules_def)
  ultimately have "optimize (Filter (VectorScan c f v t) (Binary op a b)) = VectorScan c f v t"
    by (simp add: optimize_def eval_nat_numeral)
  then show ?thesis by (simp add: execute_def)
qed

theorem optimizer_drops_vector_filter_witness:
  "execute plain_ext sample_data sample_rows
     (Filter (VectorScan (text_of ''c'') (text_of ''v'') [] f32_one)
       (Binary LtOp (Column (text_of ''_confidence'')) (Lit (PFloat 0)))) empty_tree =
   execute_plan plain_ext sample_data sample_rows (VectorScan (text_of ''c'') (text_of ''v'') [] f32_one)
     empty_tree"
  by (rule optimizer_drops_vector_filter) simp

subsection \<open>Sorting\<close>

interpretation rows: comparator "\<lambda>p q. compare_records D ob (snd p) (snd q)"
    "\<lambda>p. comparable D ob (snd p)" for D ob
proof
  fix x y z
  assume ok: "comparable D ob (snd x)" "comparable D ob (snd y)"
  then show "compare_records D ob (snd y) (snd x) = reverse_ord (compare_records D ob (snd x) (snd y))"
    by (rule order_by.rev)
  assume "comparable D ob (snd z)" "compare_records D ob (snd x) (snd y) \<noteq> OGreater"
    "compare_records D ob (snd y) (snd z) \<noteq> OGreater"
  with ok show "compare_records D ob (snd x) (snd z) \<noteq> OGreater" by (rule order_by.trans)
qed

text \<open>
  C7: ORDER BY sorts. For records without NaN among their sort keys, the result has the same rows; no row
  comes before one that precedes it by the clause: the first column in which they differ decides, in
  which numbers come before strings and strings before nulls, numbers compare as f64, strings by their
  bytes, and a descending column turns the whole order around, so that its nulls come first. Rows that
  are tied in every column stay in their order. Keys that are not columns do not count.
\<close>

theorem order_by_sorts:
  assumes "\<forall>p\<in>set ps. comparable D ob (snd p)"
  defines "out \<equiv> batch_rows (sort_op D ob (of_rows ps))" and "ks \<equiv> order_columns ob"
  shows "mset out = mset ps \<and>
         sorted_wrt (\<lambda>p q. \<not> precedes D ks (snd q) (snd p)) out \<and>
         (\<forall>z\<in>set ps. filter (\<lambda>p. same_keys D ks (snd z) (snd p)) out =
                     filter (\<lambda>p. same_keys D ks (snd z) (snd p)) ps)"
proof -
  have out: "out = sort_by (\<lambda>p q. compare_records D ob (snd p) (snd q)) ps" by (simp add: out_def)
  then have "mset out = mset ps" and set: "set out = set ps" by simp_all
  have later: "\<not> precedes D ks (snd q) (snd p)"
    if "p \<in> set out" "q \<in> set out" "compare_records D ob (snd p) (snd q) \<noteq> OGreater" for p q
    using that assms(1) set order_by.rev [of D ob "snd p" "snd q"]
      compare_records_precedes [of D ob "snd q" "snd p"] by (simp add: ks_def)
  have sorted: "sorted_wrt (\<lambda>p q. \<not> precedes D ks (snd q) (snd p)) out"
    using rows.sorted_sort_by [of ps D ob] assms(1)
    by (intro sorted_wrt_mono_rel [of out _ "\<lambda>p q. \<not> precedes D ks (snd q) (snd p)", OF later])
      (simp_all add: out)
  have same: "compare_records D ob (snd z) (snd p) = OEqual \<longleftrightarrow> same_keys D ks (snd z) (snd p)"
    if "z \<in> set ps" "p \<in> set ps" for z p
    using that assms(1) compare_records_precedes [of D ob "snd z" "snd p"] by (simp add: ks_def)
  have "filter (\<lambda>p. same_keys D ks (snd z) (snd p)) out = filter (\<lambda>p. same_keys D ks (snd z) (snd p)) ps"
    if z: "z \<in> set ps" for z
  proof -
    have eq: "filter (\<lambda>p. same_keys D ks (snd z) (snd p)) xs =
        filter (\<lambda>p. compare_records D ob (snd z) (snd p) = OEqual) xs" if "set xs = set ps" for xs
      using same [OF z] that by (intro filter_cong refl) blast
    have "filter (\<lambda>p. compare_records D ob (snd z) (snd p) = OEqual) out =
        filter (\<lambda>p. compare_records D ob (snd z) (snd p) = OEqual) ps"
      unfolding out using rows.stable_sort_by [of D ob z ps] z assms(1) by blast
    then show ?thesis by (simp only: eq [OF set] eq [OF refl])
  qed
  then show ?thesis using \<open>mset out = mset ps\<close> sorted by blast
qed

theorem order_by_sorts_witness:
  "let ps = [(sample_key 1, sample_rec 1), (sample_key 2, (sample_rec 2)\<lparr>rec_collection := ''b''\<rparr>)];
       ob = [SortExpr (Column (text_of ''_tenant'')) False, SortExpr (Column (text_of ''_collection'')) True];
       out = batch_rows (sort_op sample_data ob (of_rows ps))
   in mset out = mset ps \<and>
      sorted_wrt (\<lambda>p q. \<not> precedes sample_data (order_columns ob) (snd q) (snd p)) out"
proof -
  let ?ps = "[(sample_key 1, sample_rec 1), (sample_key 2, (sample_rec 2)\<lparr>rec_collection := ''b''\<rparr>)]"
  let ?ob = "[SortExpr (Column (text_of ''_tenant'')) False, SortExpr (Column (text_of ''_collection'')) True]"
  have "\<forall>p\<in>set ?ps. comparable sample_data ?ob (snd p)"
    by (simp add: extract_sort_value_def text_of_def f64_is_nan_def is_nan_def magnitude_def
        sample_rec_def builder_build_def builder_new_def int_as_f64_def f64_bits_def round_int_def round_ratio_def
        encode_def)
  then show ?thesis using order_by_sorts [of ?ps sample_data ?ob] by (simp add: Let_def)
qed

subsection \<open>Key ranges and collections\<close>

lemma prefix_less: "c @ x < c @ (y :: 'a::linorder list) \<longleftrightarrow> x < y"
  by (induction c) auto

lemma prefix_le: "c @ x \<le> c @ (y :: 'a::linorder list) \<longleftrightarrow> x \<le> y"
  by (auto simp: le_less prefix_less)

lemma less_Single: "(d :: 'a::linorder list) < [y] \<longleftrightarrow> d = [] \<or> hd d < y"
  by (cases d) auto

lemma interval_prefix:
  "(c :: 'a::linorder list) \<le> x \<Longrightarrow> x \<le> c @ [y] \<Longrightarrow> \<exists>d. x = c @ d"
proof (induction c arbitrary: x)
  case (Cons a c)
  then show ?case by (cases x) auto
qed simp

text \<open>The collections whose records a scan of \<open>c\<close> reads, besides \<open>c\<close> itself.\<close>

definition scanned_with :: "string \<Rightarrow> string \<Rightarrow> bool" where
  "scanned_with c name \<longleftrightarrow>
     (let d = drop (length c) name
      in take (length c) name = c \<and> (d = [] \<or> hd d < CHR 0x7F \<or> d = [CHR 0x7F]))"

lemma ex_append: "(\<exists>d. n = c @ d \<and> P d) \<longleftrightarrow> take (length c) n = c \<and> P (drop (length c) n)"
  by (metis append_eq_conv_conj append_take_drop_id)

lemma replicate_le_max: "length (i :: bytes) = n \<Longrightarrow> i \<le> replicate n 0xFF"
proof (induction n arbitrary: i)
  case (Suc n)
  then obtain x xs where i: "i = x # xs" "length xs = n" by (cases i) auto
  have "x \<le> 0xFF" using unsigned_less [of x, where ?'a = nat] by (simp add: word_le_nat_alt)
  with i Suc.IH [of xs] show ?case by (auto simp: le_less)
qed simp

lemma zeros_le: "length (i :: bytes) = n \<Longrightarrow> replicate n 0 \<le> i"
proof (induction n arbitrary: i)
  case (Suc n)
  then obtain x xs where i: "i = x # xs" "length xs = n" by (cases i) auto
  have "x = 0 \<or> 0 < x" by (auto simp: word_gt_0)
  with i Suc.IH [of xs] show ?case by auto
qed simp

lemma in_scan_range:
  assumes "length (key_id k) = 16"
  shows "scan_from c \<le> k \<and> k \<le> scan_to c \<longleftrightarrow> scanned_with (utf8 c) (key_collection k)"
proof -
  obtain n i where k: "k = RecordKey n i" by (cases k)
  let ?c = "utf8 c"
  have i: "replicate 16 0 \<le> i" "i \<le> replicate 16 0xFF"
    using zeros_le [of i 16] replicate_le_max [of i 16] assms k by simp_all
  have "scan_from c \<le> k \<and> k \<le> scan_to c \<longleftrightarrow> ?c \<le> n \<and> n \<le> ?c @ [CHR 0x7F]"
    using i by (auto simp: k scan_from_def scan_to_def le_less)
  also have "\<dots> \<longleftrightarrow> (\<exists>d. n = ?c @ d \<and> (d = [] \<or> hd d < CHR 0x7F \<or> d = [CHR 0x7F]))"
  proof
    assume r: "?c \<le> n \<and> n \<le> ?c @ [CHR 0x7F]"
    then obtain d where "n = ?c @ d" using interval_prefix by blast
    with r show "\<exists>d. n = ?c @ d \<and> (d = [] \<or> hd d < CHR 0x7F \<or> d = [CHR 0x7F])"
      by (auto simp: prefix_le le_less [of d] less_Single)
  next
    assume "\<exists>d. n = ?c @ d \<and> (d = [] \<or> hd d < CHR 0x7F \<or> d = [CHR 0x7F])"
    then obtain d where d: "n = ?c @ d" "d = [] \<or> hd d < CHR 0x7F \<or> d = [CHR 0x7F]" by blast
    have "?c @ [] \<le> ?c @ d" by (simp only: prefix_le) simp
    moreover have "d \<le> [CHR 0x7F]" using d(2) less_Single [of d "CHR 0x7F"] by (auto simp: le_less)
    ultimately show "?c \<le> n \<and> n \<le> ?c @ [CHR 0x7F]" by (simp add: d(1) prefix_le)
  qed
  also have "\<dots> \<longleftrightarrow> scanned_with ?c n" by (simp only: ex_append scanned_with_def Let_def)
  finally show ?thesis by (simp add: k)
qed

text \<open>
  A query also reads the collections whose names extend the name of its own. SELECT * FROM a table
  returns the live record under a key with a 16-byte id exactly when the collection of the key is the
  table or continues its name with a character below DEL, as \<open>users_archive\<close> does for \<open>users\<close>: the
  collection of a record is never compared with the table.
\<close>

theorem select_reads_prefixed_collections:
  assumes "lsm_wf X s" and "q = SelectStmt d [Wildcard] (Some (TableRef c al am)) js None [] h [] None off
      None asof None None rets recall" and "has_collection cat c" and "length (key_id k) = 16"
  shows "\<exists>p b. bind T (Select q) cat = Inr p \<and> execute X D E p s = (s, Inr b) \<and>
           ((k, r) \<in> set (batch_rows b) \<longleftrightarrow>
              view X s k = Some r \<and> scanned_with (utf8 c) (key_collection k))"
proof -
  have t: "table_of q = c" by (simp add: assms(2) table_of_def)
  have "plain_select q" "query_ok q"
    by (simp_all add: assms(2) plain_select_def query_ok_def order_keys_def)
  moreover have "table_of q = [] \<or> has_collection cat (table_of q)" by (simp add: t assms(3))
  ultimately obtain p ps where p: "bind T (Select q) cat = Inr p"
    "execute X D E p s = (s, Inr (of_rows (query_rows D q ps)))" "bt_inv ps"
    "\<And>k. map_of ps k = (if scan_from c \<le> k \<and> k \<le> scan_to c then view X s k else None)"
    using select_rows [OF assms(1), of q cat T D E] unfolding t by metis
  have "set (query_rows D q ps) = set ps"
    by (auto simp: query_rows_def assms(2) limited_def selected_def)
  moreover have "(k, r) \<in> set ps \<longleftrightarrow> map_of ps k = Some r"
    using p(3) by (simp add: bt_inv_def strict_sorted_iff)
  ultimately have "(k, r) \<in> set (batch_rows (of_rows (query_rows D q ps))) \<longleftrightarrow>
      view X s k = Some r \<and> scanned_with (utf8 c) (key_collection k)"
    by (auto simp: p(4) in_scan_range [OF assms(4), symmetric])
  with p(1,2) show ?thesis by blast
qed

definition sample_other_key :: record_key where
  "sample_other_key = RecordKey ''cd'' (replicate 16 7)"

definition other_tree :: lsm where
  "other_tree =
     empty_tree\<lparr>active := mt_insert plain_ext sample_other_key (sample_rec 1) (active empty_tree)\<rparr>"

theorem select_reads_prefixed_collections_witness:
  "let q = SelectStmt False [Wildcard] (Some (TableRef (text_of ''c'') None False)) [] None [] None []
         None None None None None None [] None
   in \<exists>p b. bind sample_casing (Select q) \<lparr>collections = {text_of ''c''}\<rparr> = Inr p \<and>
        execute plain_ext sample_data sample_rows p other_tree = (other_tree, Inr b) \<and>
        (sample_other_key, sample_rec 1) \<in> set (batch_rows b)"
proof -
  have w: "scanned_with ''c'' ''cd''" by (simp add: scanned_with_def less_char_def)
  have "lsm_wf plain_ext other_tree"
    using quiet_sample_open by (simp add: quiet_def lsm_wf_def other_tree_def)
  moreover have "view plain_ext other_tree sample_other_key = Some (sample_rec 1)"
    by (simp add: other_tree_def view_def raw_def)
  ultimately show ?thesis
    using select_reads_prefixed_collections [OF _ refl, where X = plain_ext and s = other_tree
        and c = "text_of ''c''" and cat = "\<lparr>collections = {text_of ''c''}\<rparr>" and k = sample_other_key
        and T = sample_casing and D = sample_data and E = sample_rows and r = "sample_rec 1"
        and d = False and al = None and am = False and js = "[]" and h = None and off = None
        and asof = None and rets = "[]" and recall = None] w
    by (simp add: has_collection_def sample_other_key_def Let_def)
qed

subsection \<open>Inserts\<close>

text \<open>The writes of an insert, as operations on the tree.\<close>

fun row_ops :: "data_codec \<Rightarrow> (nat \<Rightarrow> row_env) \<Rightarrow> ustring \<Rightarrow> ustring list \<Rightarrow> nat \<Rightarrow>
    plan_expr list list \<Rightarrow> lsm_op list" where
  "row_ops D E c cols i [] = []"
| "row_ops D E c cols i (row # rows) =
     (let r = row_record D c cols row (E i)
      in Put (flush_ts (E i)) (compact_ts (E i)) (RecordKey (utf8 c) (rec_id r)) r) #
     row_ops D E c cols (Suc i) rows"

lemma insert_rows_run:
  "quiet X s \<Longrightarrow> \<forall>p\<in>set (row_ops D E c cols i rows). op_ok X p \<Longrightarrow>
     insert_rows X D E c cols i rows s = (fold (run_op X) (row_ops D E c cols i rows) s, None)"
proof (induction rows arbitrary: i s)
  case (Cons row rows)
  let ?r = "row_record D c cols row (E i)"
  let ?k = "RecordKey (utf8 c) (rec_id ?r)"
  let ?w = "lsm_write X (flush_ts (E i)) (compact_ts (E i)) ?k ?r s"
  have ok: "op_ok X (Put (flush_ts (E i)) (compact_ts (E i)) ?k ?r)"
    using Cons.prems(2) by (simp add: Let_def)
  then have "snd ?w = None" using Cons.prems(1) lsm_write_raw(2) by (simp add: quiet_def)
  then obtain s1 where w: "?w = (s1, None)" by (cases ?w) simp
  moreover have "quiet X s1" using run_op_quiet [OF Cons.prems(1) ok] w by simp
  ultimately show ?case using Cons by (simp add: Let_def)
qed simp

lemma rec_id_row [simp]: "rec_id (row_record D c cols row e) = new_id e"
  by (simp add: row_record_def builder_build_def Let_def split: prod.splits)

lemma row_ops_upd:
  "fold spec_op (row_ops D E c cols i rows) m k =
     (case map_of (rev (map (\<lambda>j. (RecordKey (utf8 c) (new_id (E (i + j))),
                                  filter_tombstone (row_record D c cols (rows ! j) (E (i + j)))))
                      [0..<length rows])) k of
        None \<Rightarrow> m k | Some v \<Rightarrow> v)"
proof (induction rows arbitrary: i m)
  case (Cons row rows)
  have shift: "[0..<length (row # rows)] = 0 # map Suc [0..<length rows]"
    by (simp add: map_Suc_upt upt_conv_Cons del: upt_Suc)
  show ?case
    unfolding shift
    by (simp add: Cons.IH Let_def comp_def map_add_def split: option.splits del: upt_Suc)
qed simp

text \<open>
  What an INSERT promises to store, stated apart from its loop. The cells of a row are its values with
  their columns; surplus values belong to \<open>_unknown\<close>. The confidence is the last number given for
  \<open>_confidence\<close>, by default one. The data are the other cells by column, the last one for a column.
\<close>

definition cells_of_row :: "ustring list \<Rightarrow> plan_expr list \<Rightarrow> (ustring \<times> plan_expr) list" where
  "cells_of_row cols row =
     map (\<lambda>i. (if i < length cols then cols ! i else text_of ''_unknown'', row ! i)) [0..<length row]"

definition given_confidences :: "(ustring \<times> plan_expr) list \<Rightarrow> f32 list" where
  "given_confidences cells =
     List.map_filter (\<lambda>(c, e). if c = text_of ''_confidence'' then confidence_of (eval_expr_to_value e) else None)
       cells"

definition stored_confidence :: "(ustring \<times> plan_expr) list \<Rightarrow> f32" where
  "stored_confidence cells =
     (if given_confidences cells = [] then f32_one else last (given_confidences cells))"

definition stored_columns :: "(ustring \<times> plan_expr) list \<Rightarrow> (ustring, msg_value) btree_map" where
  "stored_columns cells =
     fold (\<lambda>(c, e). bt_insert c (eval_expr_to_value e)) (filter (\<lambda>(c, _). c \<noteq> text_of ''_confidence'') cells) []"

text \<open>A fresh record of the collection, with these data and this confidence.\<close>

definition inserted_record :: "data_codec \<Rightarrow> ustring \<Rightarrow> (ustring \<times> plan_expr) list \<Rightarrow> row_env \<Rightarrow> fun_record" where
  "inserted_record D c cells env =
     (builder_build (new_id env) (now_ns env) (builder_new (utf8 c)))
       \<lparr>rec_data := (case data_enc D (stored_columns cells) of None \<Rightarrow> [] | Some bs \<Rightarrow> bs),
        rec_confidence := stored_confidence cells\<rparr>"

lemma cells_of_row_Cons:
  "cells_of_row cols (e # es) =
     (case cols of [] \<Rightarrow> (text_of ''_unknown'', e) # cells_of_row [] es
                 | c # cs \<Rightarrow> (c, e) # cells_of_row cs es)"
proof -
  have "[0..<length (e # es)] = 0 # map Suc [0..<length es]"
    by (simp add: map_Suc_upt upt_conv_Cons del: upt_Suc)
  then show ?thesis by (cases cols) (simp_all add: cells_of_row_def comp_def)
qed

lemma row_loop_cells:
  "row_loop cols es m b =
     (fold (\<lambda>(c, e). bt_insert c (eval_expr_to_value e))
        (filter (\<lambda>(c, _). c \<noteq> text_of ''_confidence'') (cells_of_row cols es)) m,
      fold builder_confidence (given_confidences (cells_of_row cols es)) b)"
proof (induction cols es m b rule: row_loop.induct)
  case (1 cols m b)
  show ?case by (simp add: cells_of_row_def given_confidences_def map_filter_simps)
next
  case (2 cols e es m b)
  then show ?case
    by (cases cols)
      (auto simp: cells_of_row_Cons given_confidences_def map_filter_simps Let_def split: option.splits)
qed

lemma fold_builder_confidence:
  "fold builder_confidence cs b = (if cs = [] then b else builder_confidence (last cs) b)"
  by (induction cs arbitrary: b) (auto simp: builder_confidence_def)

lemma row_record_cells: "row_record D c cols row env = inserted_record D c (cells_of_row cols row) env"
  by (simp add: row_record_def row_loop_cells fold_builder_confidence inserted_record_def
      stored_columns_def stored_confidence_def builder_build_def builder_data_def builder_confidence_def
      builder_new_def Let_def)

lemma set_row_ops:
  "(\<forall>p\<in>set (row_ops D E c cols i rows). op_ok X p) \<longleftrightarrow>
     (\<forall>j<length rows. writable X (WalWrite 0 (RecordKey (utf8 c) (new_id (E (i + j))))
        (row_record D c cols (rows ! j) (E (i + j)))))"
  by (induction rows arbitrary: i) (simp_all add: Let_def All_less_Suc2)

text \<open>
  C6: An INSERT is seen by every later read. On a well-formed tree that is not about to compact, whose log
  can encode the records, and with an id of its own for every row, the insert succeeds and keeps the tree
  so. Each row is then found under its id in the map that lookups and scans return, with its columns as
  data and the confidence that was given, by default one; no other key changes. The exception is a row of
  confidence zero, which is not found: it counts as deleted.
\<close>

theorem insert_visible:
  fixes c :: ustring and cols :: "ustring list" and rows :: "plan_expr list list" and E :: "nat \<Rightarrow> row_env"
  defines "key \<equiv> \<lambda>j. RecordKey (utf8 c) (new_id (E j))" and "cells \<equiv> \<lambda>j. cells_of_row cols (rows ! j)"
  assumes "quiet X s"
    and "\<forall>j<length rows. writable X (WalWrite 0 (key j) (inserted_record D c (cells j) (E j)))"
    and "distinct (map (\<lambda>j. new_id (E j)) [0..<length rows])"
  shows "\<exists>s'. execute X D E (InsertPlan c cols rows) s = (s', Inr batch_new) \<and> quiet X s' \<and>
           (\<forall>j<length rows. view X s' (key j) =
              (if f32_eq_zero (stored_confidence (cells j)) then None
               else Some (inserted_record D c (cells j) (E j)))) \<and>
           (\<forall>k. (\<forall>j<length rows. k \<noteq> key j) \<longrightarrow> view X s' k = view X s k)"
proof -
  let ?ops = "row_ops D E c cols 0 rows" and ?s' = "fold (run_op X) (row_ops D E c cols 0 rows) s"
  let ?ps = "map (\<lambda>j. (RecordKey (utf8 c) (new_id (E j)),
      filter_tombstone (row_record D c cols (rows ! j) (E j)))) [0..<length rows]"
  have ok: "\<forall>p\<in>set ?ops. op_ok X p"
    using assms(4) by (simp add: set_row_ops row_record_cells key_def cells_def)
  have v: "view X ?s' k = (case map_of (rev ?ps) k of None \<Rightarrow> view X s k | Some v \<Rightarrow> v)" for k
    using run_ops [OF assms(3) ok] row_ops_upd [of D E c cols 0 rows "view X s" k] by simp
  have "optimize (InsertPlan c cols rows) = InsertPlan c cols rows"
    by (simp add: optimize_def eval_nat_numeral apply_all_rules_def)
  then have e: "execute X D E (InsertPlan c cols rows) s = (?s', Inr batch_new)"
    using insert_rows_run [OF assms(3) ok] by (simp add: execute_def)
  have "distinct (map fst ?ps)"
    using assms(5) by (simp add: comp_def distinct_map inj_on_def)
  then have m: "map_of (rev ?ps) = map_of ?ps" by (rule map_of_distinct_rev)
  have "map_of ?ps (key j) = Some (filter_tombstone (row_record D c cols (rows ! j) (E j)))"
    if "j < length rows" for j
    using that \<open>distinct (map fst ?ps)\<close> unfolding key_def by (intro map_of_is_SomeI) auto
  moreover have "filter_tombstone (row_record D c cols (rows ! j) (E j)) =
      (if f32_eq_zero (stored_confidence (cells j)) then None else Some (inserted_record D c (cells j) (E j)))" for j
    by (simp add: row_record_cells filter_tombstone_def is_tombstone_def inserted_record_def cells_def)
  moreover have "map_of ?ps k = None"
    if "\<forall>j<length rows. k \<noteq> key j" for k
    using that by (auto simp: map_of_eq_None_iff key_def)
  ultimately show ?thesis using e v m run_ops [OF assms(3) ok] by (intro exI [of _ ?s']) simp
qed

lemma sample_row: "inserted_record sample_data (text_of ''c'') (cells_of_row [text_of ''x''] [Lit (PInt v)]) (sample_rows i) =
    sample_rec (word_of_nat (i + 1))"
proof -
  have "text_of ''x'' \<noteq> text_of ''_confidence''" by (simp add: text_of_def)
  then show ?thesis
    by (simp add: row_record_cells [symmetric] row_record_def sample_data_def sample_rows_def sample_rec_def
        builder_data_def builder_new_def builder_build_def)
qed

lemma sample_stored_confidence: "stored_confidence (cells_of_row [text_of ''x''] [Lit (PInt v)]) = f32_one"
proof -
  have "text_of ''x'' \<noteq> text_of ''_confidence''" by (simp add: text_of_def)
  then show ?thesis
    by (simp add: stored_confidence_def given_confidences_def cells_of_row_Cons map_filter_simps)
      (simp add: cells_of_row_def map_filter_simps)
qed

theorem insert_visible_witness:
  "\<exists>s'. execute plain_ext sample_data sample_rows
           (InsertPlan (text_of ''c'') [text_of ''x''] [[Lit (PInt 7)], [Lit (PInt 8)]]) empty_tree =
         (s', Inr batch_new) \<and> quiet plain_ext s' \<and>
       view plain_ext s' (sample_key 1) = Some (sample_rec 1) \<and>
       view plain_ext s' (sample_key 2) = Some (sample_rec 2)"
proof -
  let ?rows = "[[Lit (PInt 7)], [Lit (PInt 8)]]"
  have r: "RecordKey (utf8 (text_of ''c'')) (new_id (sample_rows j)) = sample_key (word_of_nat (j + 1))" for j
    by (simp add: sample_key_def sample_rows_def)
  have e: "\<forall>j<length ?rows. writable plain_ext (WalWrite 0 (RecordKey (utf8 (text_of ''c'')) (new_id (sample_rows j)))
      (inserted_record sample_data (text_of ''c'') (cells_of_row [text_of ''x''] (?rows ! j)) (sample_rows j)))"
    unfolding r by (simp add: All_less_Suc2 sample_row)
  have d: "distinct (map (\<lambda>j. new_id (sample_rows j)) [0..<length ?rows])"
    by (simp add: sample_rows_def)
  from insert_visible [OF quiet_sample_open [of plain_ext "''dir''" None 100] e d, unfolded r]
  show ?thesis
    by (auto simp: sample_row sample_stored_confidence f32_eq_zero_def f32_one_def All_less_Suc2)
qed

lemma row_loop_confidence:
  "text_of ''_confidence'' \<notin> set cols \<Longrightarrow> snd (row_loop cols es m b) = b"
proof (induction cols es m b rule: row_loop.induct)
  case (2 cols e es m b)
  have "text_of ''_unknown'' \<noteq> text_of ''_confidence''" by (simp add: text_of_def)
  with 2 show ?case by (cases cols) (auto simp: Let_def)
qed simp

text \<open>
  C40: A row inserted with confidence zero is lost. The insert is acknowledged, but zero confidence is how
  the storage engine marks a deletion: the row is not found, and a record that the key had before is
  hidden.
\<close>

theorem insert_zero_confidence_lost:
  assumes "quiet X s" and "e = Lit (PInt 0) \<or> e = Lit (PFloat 0)"
    and "text_of ''_confidence'' \<notin> set cols"
    and "op_ok X (Put (flush_ts (E 0)) (compact_ts (E 0)) (RecordKey (utf8 c) (new_id (E 0)))
           (row_record D c (text_of ''_confidence'' # cols) (e # es) (E 0)))"
  shows "\<exists>s'. execute X D E (InsertPlan c (text_of ''_confidence'' # cols) [e # es]) s = (s', Inr batch_new) \<and>
           view X s' (RecordKey (utf8 c) (new_id (E 0))) = None"
proof -
  let ?cols = "text_of ''_confidence'' # cols"
  let ?r = "row_record D c ?cols (e # es) (E 0)"
  have z: "int_as_f32 0 = 0" "f64_as_f32 0 = 0"
    by (simp_all add: int_as_f32_def f32_bits_def round_int_def round_ratio_def encode_def
        f64_as_f32_def f64_val_def decode_def)
  have "snd (row_loop ?cols (e # es) m b) = builder_confidence 0 b" for m b
    using assms(2) row_loop_confidence [OF assms(3)] z by (auto simp: Let_def)
  then have "rec_confidence ?r = 0"
    by (simp add: row_record_def Let_def builder_build_def builder_data_def builder_confidence_def
        split_beta del: row_loop.simps)
  then have t: "filter_tombstone ?r = None"
    by (simp add: filter_tombstone_def is_tombstone_def f32_eq_zero_def)
  have ok: "\<forall>p\<in>set (row_ops D E c ?cols 0 [e # es]). op_ok X p"
    using assms(4) by (simp add: Let_def)
  have "optimize (InsertPlan c ?cols [e # es]) = InsertPlan c ?cols [e # es]"
    by (simp add: optimize_def eval_nat_numeral apply_all_rules_def)
  moreover have "view X (fold (run_op X) (row_ops D E c ?cols 0 [e # es]) s)
      (RecordKey (utf8 c) (new_id (E 0))) = None"
    using run_ops [OF assms(1) ok] t by (simp add: Let_def)
  ultimately show ?thesis using insert_rows_run [OF assms(1) ok] by (simp add: execute_def)
qed

lemma sample_zero_record:
  "rec_id (row_record sample_data c cols es (sample_rows i)) = [word_of_nat (i + 1)]"
  by (simp add: sample_rows_def)

text \<open>External functions that can store any single entry of one collection.\<close>

definition one_entry_ext :: "wal_entry \<Rightarrow> ext" where
  "one_entry_ext e =
     plain_ext\<lparr>entry_codec := \<lparr>enc = (\<lambda>x. if x = e then Some [9] else None), dec = (\<lambda>_. Some e)\<rparr>\<rparr>"

theorem insert_zero_confidence_lost_witness:
  "let r = row_record sample_data (text_of ''c'') [text_of ''_confidence''] [Lit (PInt 0)] (sample_rows 0);
       X = one_entry_ext (WalWrite 0 (sample_key 1) r)
   in \<exists>s'. execute X sample_data sample_rows
             (InsertPlan (text_of ''c'') [text_of ''_confidence''] [[Lit (PInt 0)]])
             (lsm_open X ''dir'' [] None 100) = (s', Inr batch_new) \<and>
           view X s' (sample_key 1) = None"
proof -
  let ?r = "row_record sample_data (text_of ''c'') [text_of ''_confidence''] [Lit (PInt 0)] (sample_rows 0)"
  let ?X = "one_entry_ext (WalWrite 0 (sample_key 1) ?r)"
  have k: "RecordKey (utf8 (text_of ''c'')) (new_id (sample_rows 0)) = sample_key 1"
    by (simp add: sample_key_def sample_rows_def)
  have "writable ?X (WalWrite 0 (sample_key 1) ?r)"
    by (simp add: roundtrips_def one_entry_ext_def)
  then have "op_ok ?X (Put (flush_ts (sample_rows 0)) (compact_ts (sample_rows 0))
      (RecordKey (utf8 (text_of ''c'')) (new_id (sample_rows 0))) ?r)"
    unfolding k by simp
  from insert_zero_confidence_lost [where X = ?X and D = sample_data and E = sample_rows
      and s = "lsm_open ?X ''dir'' [] None 100" and c = "text_of ''c''" and e = "Lit (PInt 0)"
      and es = "[]" and cols = "[]", OF quiet_sample_open _ _ this] k
  show ?thesis by (simp add: Let_def)
qed

subsection \<open>Statements and texts that are not executed\<close>

text \<open>The reply to a statement without result rows.\<close>

abbreviation empty_reply :: reply where
  "empty_reply \<equiv> Reply \<lparr>qr_columns = [], qr_rows = [], qr_tag = ''SELECT 0''\<rparr>"

lemma run_empty_plan:
  "bind (en_casing V) stmt (sv_catalog sv) = Inr Empty \<Longrightarrow> insert_table stmt = None \<Longrightarrow>
     created_collection stmt = None \<Longrightarrow> run_statement V q stmt sv = (sv, empty_reply)"
  by (simp add: run_statement_def register_def execute_def optimize_def eval_nat_numeral
      apply_all_rules_def batch_to_query_result_def batch_is_empty_def batch_new_def)

text \<open>
  Deletes, updates and memory statements are acknowledged and not executed. The server answers each
  of them with an empty result, whatever table, condition or content they name, and neither the
  catalog nor the store changes.
\<close>

theorem modifications_not_executed:
  "run_statement V q (Delete d) sv = (sv, empty_reply) \<and>
   run_statement V q (Update u) sv = (sv, empty_reply) \<and>
   run_statement V q (Remember r) sv = (sv, empty_reply) \<and>
   run_statement V q (Forget f) sv = (sv, empty_reply)"
  by (simp add: run_empty_plan)

text \<open>
  A text that mentions VERSION() anywhere, inside a string literal too, is answered with the version
  of the server: an INSERT that contains it is acknowledged but never stored.
\<close>

theorem version_text_not_executed:
  assumes "q = trim query" and "\<not> starts_with (text_of ''SELECT '') (to_uppercase (en_casing V) q)"
    and "contains_text (text_of ''VERSION()'') (to_uppercase (en_casing V) q)"
  shows "handle_query V query sv = (sv, Reply (one_column ''version'' [''FunDB 0.1.0'']))"
proof -
  have "q \<noteq> []"
  proof
    assume "q = []"
    then have "\<not> contains_text (text_of ''VERSION()'') (to_uppercase (en_casing V) q) \<or>
        to_uppercase (en_casing V) [] \<noteq> []"
      by (auto simp: contains_text_def text_of_def)
    with \<open>q = []\<close> assms(3) show False by (simp add: to_uppercase_def all_ascii_def)
  qed
  with assms show ?thesis
    by (simp add: handle_query_def Let_def select_literal_def asks_version_def)
qed

text \<open>
  Clauses that are parsed and dropped. DISTINCT, the joins, HAVING, OFFSET, AS OF, RETURN and RECALL
  BY have no influence on the plan of a SELECT.
\<close>

theorem select_ignores_clauses:
  "bind T (Select (SelectStmt d items from js w g h ob l off ctx asof tv tc rets rcl)) cat =
   bind T (Select (SelectStmt d' items from js' w g h' ob l off' ctx asof' tv tc rets' rcl')) cat"
  unfolding bind.simps bind_select_def select_stmt.sel by (rule refl)

text \<open>
  A query fails to bind exactly when it names a table that the catalog does not know.
\<close>

theorem select_binds_unless_unknown:
  "(\<exists>e. bind T (Select q) cat = Inl e) \<longleftrightarrow> table_of q \<noteq> [] \<and> \<not> has_collection cat (table_of q)"
proof -
  have ag: "\<exists>as. extract_aggregates T items = Inr as" for items
  proof (induction items rule: extract_aggregates.induct)
    case (3 T e al rest)
    have "\<exists>a. try_extract_agg T e al = Inr a"
      by (induction T e al rule: try_extract_agg.induct)
        (auto simp: bind_expr_bound split: option.splits list.splits)
    with 3 show ?case by fastforce
  qed auto
  have "\<exists>p. bind T (Select q) cat = Inr p" if t: "table_of q = [] \<or> has_collection cat (table_of q)"
  proof -
    obtain es where es: "collect (map bind_select_item (s_projections q)) = Inr es"
      using collect_items by blast
    have "\<exists>p. bind_source c es w = Inr p" for c w
      by (auto simp: bind_source_def bind_expr_bound split: option.splits)
    then obtain p0 where p0: "bind_source (table_of q) es (s_where q) = Inr p0" by blast
    have "\<exists>p. bind_trace tc = Inr p" for tc
      by (auto simp: bind_trace_def bind_optional_def bind_expr_bound split: option.splits)
    then obtain p1 where p1: "(case s_trace_causality q of None \<Rightarrow> Inr p0 | Some tc \<Rightarrow> bind_trace tc) = Inr p1"
      by (cases "s_trace_causality q") auto
    obtain as where as: "extract_aggregates T (s_projections q) = Inr as" using ag by blast
    show ?thesis
      using t by (cases "s_group_by q = []"; cases "s_order_by q = []")
        (simp_all add: bind_select_def table_of_def [symmetric] collect_order collect_bound Let_def
          es p0 p1 as)
  qed
  then show ?thesis by (force simp: bind_select_def table_of_def [symmetric] Let_def)
qed

text \<open>An environment for the examples.\<close>

definition sample_environment :: environment where
  "sample_environment =
     \<lparr>en_unicode = sample_unicode, en_casing = sample_casing, en_ext = plain_ext, en_data = sample_data,
      en_rows = sample_rows,
      en_print = \<lparr>show_f64 = (\<lambda>_. []), show_confidence = (\<lambda>_. []), show_id = (\<lambda>_. []),
                  cells_dec = (\<lambda>_. None)\<rparr>\<rparr>"

definition version_insert :: ustring where
  "version_insert = text_of ''INSERT INTO c (x) VALUES ('' @ [39] @ text_of ''version()'' @ [39, 41]"

theorem version_text_not_executed_witness:
  "handle_query sample_environment version_insert \<lparr>sv_catalog = catalog_open, sv_lsm = empty_tree\<rparr> =
     (\<lparr>sv_catalog = catalog_open, sv_lsm = empty_tree\<rparr>,
      Reply (one_column ''version'' [''FunDB 0.1.0'']))"
  by (rule version_text_not_executed [OF refl])
    (simp_all add: version_insert_def text_of_def trim_def is_white_def to_uppercase_def all_ascii_def
      ascii_upper_def starts_with_def contains_text_def)

text \<open>
  A string literal that starts outside ASCII makes the handler panic: it asks for one accented letter.
\<close>

definition accented_query :: ustring where
  "accented_query = text_of ''SELECT '' @ [39, 0xE9, 39]"

theorem accented_literal_panics:
  "handle_query sample_environment accented_query sv = (sv, HandlerPanic)"
proof -
  let ?l = "lexer_new accented_query" and ?l2 = "skip_while (word_char sample_unicode) (lexer_new accented_query)"
  have l: "lx_rest ?l = text_of ''SELECT'' @ 32 # [39, 0xE9, 39]"
    by (simp add: accented_query_def lexer_new_def text_of_def)
  then have "skip_whitespace_and_comments ?l = Inr ?l"
    by (intro whitespace_stays [of ?l 83 69 "text_of ''LECT'' @ 32 # [39, 0xE9, 39]"])
      (simp_all add: text_of_def whitespace_def len_utf8_def)
  moreover obtain t sp where "next_token sample_unicode ?l = Inr ((t, sp), ?l2)"
    using l by (simp add: next_token_def current_char_def text_of_def ascii_digit_def is_alphabetic_def
        lex_word_def Let_def)
  moreover have "tokenize sample_unicode ?l2 = Inl LexPanic"
  proof (rule lexer_panics_on_multibyte)
    show "lx_rest ?l2 = [32] @ 39 # [0xE9, 39]"
      using skip_while_all [OF l, of "word_char sample_unicode"]
      by (simp add: text_of_def word_char_def is_alphabetic_def is_numeric_def ascii_digit_def)
  qed (simp_all add: whitespace_def)
  ultimately have "tokenize sample_unicode ?l = Inl LexPanic"
    using l by (subst tokenize.simps) (simp add: text_of_def)
  then have p: "parse sample_unicode accented_query = Panic" by (simp add: parse_def)
  have q: "trim accented_query = accented_query" "accented_query \<noteq> []"
    by (simp_all add: accented_query_def text_of_def trim_def is_white_def)
  have u: "to_uppercase sample_casing accented_query = accented_query"
    by (simp add: to_uppercase_def accented_query_def text_of_def all_ascii_def sample_casing_def)
  have "select_literal accented_query accented_query = Some None"
    by (simp add: select_literal_def accented_query_def text_of_def starts_with_def contains_text_def trim_def
        is_white_def trim_end_semicolons_def parse_int_def len_utf8_def ascii_digit_def Let_def)
  moreover have "\<not> asks_version accented_query" "\<not> contains_text (text_of ''FROM _SCHEMA'') accented_query"
    "\<not> contains_text (text_of ''FROM _COLLECTIONS'') accented_query"
    by (simp_all add: asks_version_def contains_text_def accented_query_def text_of_def starts_with_def)
  ultimately show ?thesis
    by (simp add: handle_query_def q u sample_environment_def after_schema_def parse_and_run_def p Let_def)
qed

subsection \<open>Numbers in conditions\<close>

fun int_compare :: "int \<Rightarrow> plan_op \<Rightarrow> int \<Rightarrow> bool" where
  "int_compare a EqOp b \<longleftrightarrow> a = b"
| "int_compare a NeOp b \<longleftrightarrow> a \<noteq> b"
| "int_compare a LtOp b \<longleftrightarrow> a < b"
| "int_compare a LeOp b \<longleftrightarrow> a \<le> b"
| "int_compare a GtOp b \<longleftrightarrow> b < a"
| "int_compare a GeOp b \<longleftrightarrow> b \<le> a"
| "int_compare a _ b \<longleftrightarrow> True"

lemma epsilon_key: "order_key Binary64 (unat f64_epsilon) = 4372995238176751616"
  "\<not> is_nan Binary64 (unat f64_epsilon)"
  by (simp_all add: f64_epsilon_def order_key_def magnitude_def signed_def is_nan_def)

lemma int_vs_epsilon:
  assumes "\<bar>d\<bar> < 2 ^ 53"
  shows "f64_lt (int_as_f64 \<bar>d\<bar>) f64_epsilon \<longleftrightarrow> d = 0"
    and "f64_le f64_epsilon (int_as_f64 \<bar>d\<bar>) \<longleftrightarrow> d \<noteq> 0"
proof -
  have "int_key \<bar>d\<bar> < order_key Binary64 (unat f64_epsilon) \<longleftrightarrow> d = 0"
  proof (cases "d = 0")
    case False
    then have "1023 * 2 ^ 52 \<le> pos_key (nat \<bar>d\<bar>)" by (intro pos_key_pos) simp
    with False assms show ?thesis
      by (simp add: int_key_nonzero signed_def epsilon_key)
  qed (simp add: epsilon_key)
  moreover have "\<not> is_nan Binary64 (unat (int_as_f64 \<bar>d\<bar>))" using assms by (simp add: int_not_nan)
  ultimately show "f64_lt (int_as_f64 \<bar>d\<bar>) f64_epsilon \<longleftrightarrow> d = 0"
    "f64_le f64_epsilon (int_as_f64 \<bar>d\<bar>) \<longleftrightarrow> d \<noteq> 0"
    by (auto simp: f64_lt_def f64_le_def fp_lt_def fp_le_def int_key_def epsilon_key(2))
qed

lemma compare_f64_ints:
  assumes "\<bar>i\<bar> < 2 ^ 52" "\<bar>j\<bar> < 2 ^ 52"
  shows "compare_f64 (int_as_f64 i) op (int_as_f64 j) \<longleftrightarrow> int_compare i op j"
proof -
  have b: "\<bar>i\<bar> < 2 ^ 53" "\<bar>j\<bar> < 2 ^ 53" "\<bar>i - j\<bar> < 2 ^ 53" using assms by simp_all
  note s = f64_sub_ints [OF b] f64_abs_int [OF b(3)] int_vs_epsilon [OF b(3)]
    f64_compare_ints [OF b(1,2)] f64_compare_ints [OF b(2,1)]
  show ?thesis by (cases op) (simp_all add: s)
qed

text \<open>
  C26: Integer conditions are exact below \<open>2 ^ 52\<close>. Although the filter compares an integer field with an
  integer literal as floats and calls two floats equal when they differ by less than the machine
  epsilon, the comparison is that of the integers, on either side of the operator.
\<close>

theorem integer_conditions_exact:
  assumes "\<bar>i\<bar> < 2 ^ 52" and "\<bar>j\<bar> < 2 ^ 52"
    and "data_dec D (rec_data r) = Some m" and "m (utf8 col) = Some (DInt i)"
    and "col \<notin> {text_of ''_collection'', text_of ''_tenant'', text_of ''_confidence''}"
    and "op \<in> {EqOp, NeOp, LtOp, LeOp, GtOp, GeOp}"
  shows "eval_expr D (Binary op (Column col) (Lit (PInt j))) r = int_compare i op j \<and>
         eval_expr D (Binary op (Lit (PInt j)) (Column col)) r = int_compare j op i"
proof -
  have f: "int_compare i (flip_op op) j = int_compare j op i" by (cases op) auto
  have "op \<noteq> AndOp" "op \<noteq> OrOp" using assms(6) by auto
  then show ?thesis
    using assms(3-5) compare_f64_ints [OF assms(1,2)]
    by (simp add: eval_binary_def confidence_column_def eval_column_vs_literal_def eval_field_def f)
qed

theorem integer_conditions_exact_witness:
  "eval_expr \<lparr>data_dec = (\<lambda>_. Some (\<lambda>_. Some (DInt 5))), data_enc = (\<lambda>_. None)\<rparr>
     (Binary GtOp (Column (text_of ''x'')) (Lit (PInt 4))) (sample_rec 1) \<and>
   \<not> eval_expr \<lparr>data_dec = (\<lambda>_. Some (\<lambda>_. Some (DInt 5))), data_enc = (\<lambda>_. None)\<rparr>
     (Binary GtOp (Lit (PInt 4)) (Column (text_of ''x''))) (sample_rec 1)"
  using integer_conditions_exact [of 5 4
      "\<lparr>data_dec = (\<lambda>_. Some (\<lambda>_. Some (DInt 5))), data_enc = (\<lambda>_. None)\<rparr>" "sample_rec 1"
      "\<lambda>_. Some (DInt 5)" "text_of ''x''" GtOp]
  by (simp add: text_of_def)

end
