(* ===== verification/Adjacency.thy ===== *)
theory Adjacency
  imports Ordered_Map
begin

text \<open>
  Edge tables \<open>HashMap<Uuid, Vec<Edge>>\<close>, shared by the graph index and the causal DAG index of
  \<open>crates/fundb-indexes\<close>. The map is kept in key order, which the operations do not show. The locale
  \<open>two_way_index\<close> is the contract of an index that files every edge under both of its ends; walks
  and distances over a list of edges are what the traversals are measured by.
\<close>

type_synonym ('n, 'e) adjacency = "('n, 'e list) btree_map"

definition adj_get :: "('n, 'e) adjacency \<Rightarrow> 'n \<Rightarrow> 'e list" where
  "adj_get t n = (case bt_get t n of None \<Rightarrow> [] | Some es \<Rightarrow> es)"

definition adj_push :: "'n::linorder \<Rightarrow> 'e \<Rightarrow> ('n, 'e) adjacency \<Rightarrow> ('n, 'e) adjacency" where
  "adj_push n e t = bt_insert n (adj_get t n @ [e]) t"

definition adj_retain ::
  "'n::linorder \<Rightarrow> ('e \<Rightarrow> bool) \<Rightarrow> ('n, 'e) adjacency \<Rightarrow> ('n, 'e) adjacency" where
  "adj_retain n P t = (case bt_get t n of None \<Rightarrow> t | Some es \<Rightarrow> bt_insert n (filter P es) t)"

definition adj_count :: "('n, 'e) adjacency \<Rightarrow> nat" where
  "adj_count t = sum_list (map (\<lambda>(_, es). length es) t)"

lemma adj_get_Nil [simp]: "adj_get [] n = []"
  by (simp add: adj_get_def)

lemma adj_count_Nil [simp]: "adj_count [] = 0"
  by (simp add: adj_count_def)

lemma adj_get_push: "adj_get (adj_push n e t) k = (if k = n then adj_get t n @ [e] else adj_get t k)"
  by (simp add: adj_get_def adj_push_def bt_get_insert)

lemma adj_get_retain: "adj_get (adj_retain n P t) k = (if k = n then filter P (adj_get t n) else adj_get t k)"
  by (simp add: adj_get_def adj_retain_def bt_get_insert split: option.splits)

lemma bt_inv_push: "bt_inv t \<Longrightarrow> bt_inv (adj_push n e t)"
  by (simp add: adj_push_def bt_inv_insert)

lemma bt_inv_retain: "bt_inv t \<Longrightarrow> bt_inv (adj_retain n P t)"
  by (simp add: adj_retain_def bt_inv_insert split: option.splits)

lemma adj_get_in_range: "adj_get t n \<noteq> [] \<Longrightarrow> n \<in> fst ` set t"
  unfolding adj_get_def bt_get_def by (force split: option.splits dest: map_of_SomeD)

lemma adj_get_entry:
  assumes "e \<in> set (adj_get t n)"
  shows "e \<in> (\<Union>es\<in>snd ` set t. set es)"
proof (cases "map_of t n")
  case (Some es)
  with assms have "(n, es) \<in> set t" "e \<in> set es"
    by (simp_all add: adj_get_def bt_get_def map_of_SomeD)
  then show ?thesis by force
qed (use assms in \<open>simp add: adj_get_def bt_get_def\<close>)

text \<open>Counting the entries counts the edges filed under any key.\<close>

lemma adj_count_insert:
  "bt_inv t \<Longrightarrow> adj_count (bt_insert n es t) + length (adj_get t n) = adj_count t + length es"
proof (induction n es t rule: bt_insert.induct)
  case (2 k v l w m)
  then have m: "bt_inv m" by (simp add: bt_inv_def)
  consider "k < l" | "k = l" | "l < k" by fastforce
  then show ?case
  proof cases
    assume kl: "k < l"
    with "2.prems" have "map_of ((l, w) # m) k = None"
      by (force simp: bt_inv_def map_of_eq_None_iff)
    with kl show ?thesis by (simp add: adj_count_def adj_get_def bt_get_def)
  next
    assume "k = l"
    then show ?thesis by (simp add: adj_count_def adj_get_def bt_get_def)
  next
    assume kl: "l < k"
    then have "\<not> k < l" "k \<noteq> l" by auto
    with "2.IH" m show ?thesis by (simp add: adj_count_def adj_get_def bt_get_def)
  qed
qed (simp add: adj_count_def)

lemma adj_count_push: "bt_inv t \<Longrightarrow> adj_count (adj_push n e t) = Suc (adj_count t)"
  using adj_count_insert [of t n "adj_get t n @ [e]"] by (simp add: adj_push_def)

lemma adj_count_retain:
  assumes "bt_inv t"
  shows "adj_count (adj_retain n P t) + length (filter (\<lambda>e. \<not> P e) (adj_get t n)) = adj_count t"
proof (cases "bt_get t n")
  case (Some es)
  then show ?thesis
    using adj_count_insert [OF assms, of n "filter P es"] sum_length_filter_compl [of P es]
    by (simp add: adj_retain_def adj_get_def)
qed (simp add: adj_retain_def adj_get_def)

subsection \<open>An index of the edges by both ends\<close>

text \<open>
  The contract: an edge is filed behind the edges that share its source, and behind those that
  share its target; nothing else moves.
\<close>

locale two_way_index =
  fixes empty :: "'i"
    and insert :: "'e \<Rightarrow> 'i \<Rightarrow> 'i"
    and forward :: "'i \<Rightarrow> 'n \<Rightarrow> 'e list"
    and backward :: "'i \<Rightarrow> 'n \<Rightarrow> 'e list"
    and count :: "'i \<Rightarrow> nat"
    and src :: "'e \<Rightarrow> 'n"
    and tgt :: "'e \<Rightarrow> 'n"
    and wf :: "'i \<Rightarrow> bool"
  assumes wf_empty: "wf empty"
    and wf_insert: "wf i \<Longrightarrow> wf (insert e i)"
    and forward_empty: "forward empty n = []"
    and backward_empty: "backward empty n = []"
    and count_empty: "count empty = 0"
    and forward_insert: "wf i \<Longrightarrow> forward (insert e i) n = forward i n @ (if n = src e then [e] else [])"
    and backward_insert: "wf i \<Longrightarrow> backward (insert e i) n = backward i n @ (if n = tgt e then [e] else [])"
    and count_insert: "wf i \<Longrightarrow> count (insert e i) = Suc (count i)"
begin

text \<open>The abstract edge set: a list of edges in the order of their insertion.\<close>

definition represents :: "'i \<Rightarrow> 'e list \<Rightarrow> bool" where
  "represents i es \<longleftrightarrow> wf i \<and> (\<forall>n. forward i n = filter (\<lambda>e. src e = n) es) \<and>
     (\<forall>n. backward i n = filter (\<lambda>e. tgt e = n) es) \<and> count i = length es"

lemma represents_empty: "represents empty []"
  by (simp add: represents_def wf_empty forward_empty backward_empty count_empty)

lemma represents_insert: "represents i es \<Longrightarrow> represents (insert e i) (es @ [e])"
  by (auto simp: represents_def wf_insert forward_insert backward_insert count_insert)

text \<open>Both directions hold the same edges.\<close>

lemma mirrored: "represents i es \<Longrightarrow> e \<in> set (forward i (src e)) \<longleftrightarrow> e \<in> set (backward i (tgt e))"
  by (simp add: represents_def)

lemma forward_src: "represents i es \<Longrightarrow> e \<in> set (forward i n) \<Longrightarrow> src e = n"
  by (simp add: represents_def)

lemma backward_tgt: "represents i es \<Longrightarrow> e \<in> set (backward i n) \<Longrightarrow> tgt e = n"
  by (simp add: represents_def)

end

subsection \<open>Walks and distances\<close>

text \<open>
  A graph is given by the edges that leave each node, and an edge by the node it leads to. A walk
  is the list of its edges.
\<close>

fun walk :: "('n \<Rightarrow> 'e list) \<Rightarrow> ('e \<Rightarrow> 'n) \<Rightarrow> 'n \<Rightarrow> 'e list \<Rightarrow> 'n \<Rightarrow> bool" where
  "walk out tip a [] b \<longleftrightarrow> a = b"
| "walk out tip a (e # es) b \<longleftrightarrow> e \<in> set (out a) \<and> walk out tip (tip e) es b"

lemma walk_append: "walk out tip a (es @ fs) c \<longleftrightarrow> (\<exists>b. walk out tip a es b \<and> walk out tip b fs c)"
  by (induction es arbitrary: a) auto

lemma walk_snoc:
  "walk out tip a (es @ [e]) c \<longleftrightarrow> (\<exists>b. walk out tip a es b \<and> e \<in> set (out b) \<and> tip e = c)"
  by (auto simp: walk_append)

definition dist :: "('n \<Rightarrow> 'e list) \<Rightarrow> ('e \<Rightarrow> 'n) \<Rightarrow> 'n \<Rightarrow> 'n \<Rightarrow> nat \<Rightarrow> bool" where
  "dist out tip a b d \<longleftrightarrow> (\<exists>es. walk out tip a es b \<and> length es = d) \<and>
     (\<forall>es. walk out tip a es b \<longrightarrow> d \<le> length es)"

lemma dist_self: "dist out tip a a 0"
  unfolding dist_def by (rule conjI, rule exI [of _ "[]"]) simp_all

lemma dist_unique: "dist out tip a b d \<Longrightarrow> dist out tip a b d' \<Longrightarrow> d = d'"
  unfolding dist_def by (metis le_antisym)

text \<open>A shortest walk is shortest up to each of its nodes.\<close>

lemma dist_prefix:
  assumes "dist out tip a c (Suc d)"
  obtains b e where "dist out tip a b d" and "e \<in> set (out b)" and "tip e = c"
proof -
  obtain es where w: "walk out tip a es c" "length es = Suc d"
    and least: "\<And>fs. walk out tip a fs c \<Longrightarrow> Suc d \<le> length fs"
    using assms by (auto simp: dist_def)
  then obtain fs e where es: "es = fs @ [e]" "length fs = d"
    by (metis length_Suc_conv_rev)
  then obtain b where b: "walk out tip a fs b" "e \<in> set (out b)" "tip e = c"
    using w(1) by (auto simp: walk_snoc)
  have "d \<le> length gs" if "walk out tip a gs b" for gs
  proof -
    have "walk out tip a (gs @ [e]) c" using that b(2,3) by (auto simp: walk_snoc)
    from least [OF this] show ?thesis by simp
  qed
  then have "dist out tip a b d" using b(1) es(2) by (auto simp: dist_def)
  then show ?thesis using b(2,3) that by blast
qed

lemma dist_le_walk: "dist out tip a b d \<Longrightarrow> walk out tip a es b \<Longrightarrow> d \<le> length es"
  by (simp add: dist_def)

lemma walk_dist:
  assumes "walk out tip a es b"
  obtains d where "dist out tip a b d" and "d \<le> length es"
proof -
  define d where "d = (LEAST k. \<exists>es. walk out tip a es b \<and> length es = k)"
  have "\<exists>k. \<exists>es. walk out tip a es b \<and> length es = k" using assms by blast
  then have "\<exists>es. walk out tip a es b \<and> length es = d" unfolding d_def by (rule LeastI_ex)
  moreover have "d \<le> length fs" if "walk out tip a fs b" for fs
    unfolding d_def by (rule Least_le) (use that in blast)
  ultimately show ?thesis using that assms by (auto simp: dist_def)
qed

text \<open>Following the edges one by one is the reflexive transitive closure of the edge relation.\<close>

definition edge_rel :: "('n \<Rightarrow> 'e list) \<Rightarrow> ('e \<Rightarrow> 'n) \<Rightarrow> ('n \<times> 'n) set" where
  "edge_rel out tip = {(a, b). \<exists>e\<in>set (out a). tip e = b}"

lemma walk_rtrancl: "(\<exists>es. walk out tip a es b) \<longleftrightarrow> (a, b) \<in> (edge_rel out tip)\<^sup>*"
proof
  assume "\<exists>es. walk out tip a es b"
  then obtain es where "walk out tip a es b" ..
  then show "(a, b) \<in> (edge_rel out tip)\<^sup>*"
    by (induction es arbitrary: a) (auto simp: edge_rel_def intro: converse_rtrancl_into_rtrancl)
next
  assume "(a, b) \<in> (edge_rel out tip)\<^sup>*"
  then show "\<exists>es. walk out tip a es b"
  proof (induction rule: converse_rtrancl_induct)
    case base
    show ?case by (rule exI [of _ "[]"]) simp
  next
    case (step x y)
    then obtain e es where "e \<in> set (out x)" "tip e = y" "walk out tip y es b"
      by (auto simp: edge_rel_def)
    then show ?case by (intro exI [of _ "e # es"]) simp
  qed
qed

end
