(* ===== verification/Graph_Index.thy ===== *)
theory Graph_Index
  imports Adjacency Record_Types Ieee
begin

text \<open>
  The subject-predicate-object index, \<open>crates/fundb-indexes/src/graph.rs\<close>: two edge tables, the
  breadth-first traversal \<open>bfs\<close> and the enumeration of simple paths \<open>path\<close>. The \<open>Result\<close> of the
  updates is always \<open>Ok\<close>. Depths are u32 and stay below \<open>max_depth\<close>, so they are natural numbers.
\<close>

record graph_edge =
  subject :: uuid
  predicate :: string
  object :: uuid
  ge_confidence :: f32
  ge_props :: bytes

record graph_index =
  outgoing_edges :: "(uuid, graph_edge) adjacency"
  incoming_edges :: "(uuid, graph_edge) adjacency"

definition graph_new :: graph_index where
  "graph_new = \<lparr>outgoing_edges = [], incoming_edges = []\<rparr>"

definition file_edge :: "graph_edge \<Rightarrow> graph_index \<Rightarrow> graph_index" where
  "file_edge e g =
     g\<lparr>outgoing_edges := adj_push (subject e) e (outgoing_edges g),
       incoming_edges := adj_push (object e) e (incoming_edges g)\<rparr>"

definition graph_insert_edge ::
  "uuid \<Rightarrow> string \<Rightarrow> uuid \<Rightarrow> f32 \<Rightarrow> bytes \<Rightarrow> graph_index \<Rightarrow> graph_index" where
  "graph_insert_edge s p obj conf props g =
     file_edge \<lparr>subject = s, predicate = p, object = obj, ge_confidence = conf, ge_props = props\<rparr> g"

definition same_triple :: "uuid \<Rightarrow> string \<Rightarrow> uuid \<Rightarrow> graph_edge \<Rightarrow> bool" where
  "same_triple s p obj e \<longleftrightarrow> subject e = s \<and> predicate e = p \<and> object e = obj"

definition graph_delete_edge :: "uuid \<Rightarrow> string \<Rightarrow> uuid \<Rightarrow> graph_index \<Rightarrow> graph_index" where
  "graph_delete_edge s p obj g =
     g\<lparr>outgoing_edges := adj_retain s (\<lambda>e. \<not> same_triple s p obj e) (outgoing_edges g),
       incoming_edges := adj_retain obj (\<lambda>e. \<not> same_triple s p obj e) (incoming_edges g)\<rparr>"

definition with_predicate :: "string option \<Rightarrow> graph_edge list \<Rightarrow> graph_edge list" where
  "with_predicate p es = (case p of None \<Rightarrow> es | Some q \<Rightarrow> filter (\<lambda>e. predicate e = q) es)"

definition graph_outgoing :: "graph_index \<Rightarrow> uuid \<Rightarrow> string option \<Rightarrow> graph_edge list" where
  "graph_outgoing g s p =
     (case bt_get (outgoing_edges g) s of None \<Rightarrow> [] | Some es \<Rightarrow> with_predicate p es)"

definition graph_incoming :: "graph_index \<Rightarrow> uuid \<Rightarrow> string option \<Rightarrow> graph_edge list" where
  "graph_incoming g obj p =
     (case bt_get (incoming_edges g) obj of None \<Rightarrow> [] | Some es \<Rightarrow> with_predicate p es)"

definition edge_count :: "graph_index \<Rightarrow> nat" where
  "edge_count g = adj_count (outgoing_edges g)"

subsection \<open>Breadth-first traversal\<close>

text \<open>
  The loop of \<open>bfs\<close>. Every round takes an entry from the queue; a node that was not visited before
  is one node of the table or of the queue less, which bounds the number of rounds.
\<close>

definition bfs_push ::
  "string \<Rightarrow> uuid set \<Rightarrow> nat \<Rightarrow> f32 \<Rightarrow> graph_edge list \<Rightarrow> (uuid \<times> nat \<times> f32) list" where
  "bfs_push p visited depth str es =
     map (\<lambda>e. (object e, depth + 1, f32_mul str (ge_confidence e)))
       (filter (\<lambda>e. predicate e = p \<and> object e \<notin> visited) es)"

definition nodes_left :: "(uuid, graph_edge) adjacency \<Rightarrow> uuid set \<Rightarrow> (uuid \<times> nat \<times> f32) list \<Rightarrow> uuid set"
  where "nodes_left t visited queue =
     ((\<Union>es\<in>snd ` set t. object ` set es) \<union> fst ` set queue) - visited"

lemma finite_nodes_left [simp]: "finite (nodes_left t visited queue)"
  by (simp add: nodes_left_def)

function bfs_loop ::
  "(uuid, graph_edge) adjacency \<Rightarrow> string \<Rightarrow> nat \<Rightarrow> uuid \<Rightarrow> uuid set \<Rightarrow>
     (uuid \<times> nat \<times> f32) list \<Rightarrow> (uuid \<times> nat \<times> f32) list \<Rightarrow> (uuid \<times> nat \<times> f32) list" where
  "bfs_loop t p max_depth start visited [] result = result"
| "bfs_loop t p max_depth start visited ((node, depth, str) # queue) result =
     (if node \<in> visited then bfs_loop t p max_depth start visited queue result
      else
        bfs_loop t p max_depth start (insert node visited)
          (if depth < max_depth
           then queue @ bfs_push p (insert node visited) depth str (adj_get t node)
           else queue)
          (if node \<noteq> start then result @ [(node, depth, str)] else result))"
  by pat_completeness auto

lemma nodes_left_visit:
  assumes "node \<notin> visited"
  shows "nodes_left t (insert node visited) (queue @ bfs_push p v depth str (adj_get t node))
    \<subset> nodes_left t visited ((node, d, s) # queue)"
proof -
  have "object ` set (adj_get t node) \<subseteq> (\<Union>es\<in>snd ` set t. object ` set es)"
    using adj_get_entry [of _ t node] by blast
  moreover have "fst ` set (bfs_push p v depth str (adj_get t node)) \<subseteq> object ` set (adj_get t node)"
    by (auto simp: bfs_push_def)
  ultimately have "fst ` set (bfs_push p v depth str (adj_get t node)) \<subseteq> (\<Union>es\<in>snd ` set t. object ` set es)"
    by (rule order_trans [rotated])
  then have "nodes_left t (insert node visited) (queue @ bfs_push p v depth str (adj_get t node))
    \<subseteq> nodes_left t visited ((node, d, s) # queue) - {node}"
    unfolding nodes_left_def set_append image_Un by (auto simp del: image_insert)
  moreover have "node \<in> nodes_left t visited ((node, d, s) # queue)"
    using assms by (simp add: nodes_left_def)
  ultimately show ?thesis by blast
qed

termination bfs_loop
proof (relation "measures [\<lambda>(t, p, m, start, visited, queue, result). card (nodes_left t visited queue),
    \<lambda>(t, p, m, start, visited, queue, result). length queue]", goal_cases)
  case (2 t p m start visited node depth str queue result)
  have "nodes_left t visited queue \<subseteq> nodes_left t visited ((node, depth, str) # queue)"
    by (auto simp: nodes_left_def)
  then have "card (nodes_left t visited queue) \<le> card (nodes_left t visited ((node, depth, str) # queue))"
    by (rule card_mono [rotated]) simp
  then show ?case by (auto simp: le_less)
next
  case (3 t p m start visited node depth str queue result)
  have sub: "nodes_left t (insert node visited) queue \<subseteq>
      nodes_left t (insert node visited) (queue @ bfs_push p (insert node visited) depth str (adj_get t node))"
    by (auto simp: nodes_left_def)
  note less = nodes_left_visit [OF 3, of t queue p "insert node visited" depth str depth str]
  have "card (nodes_left t (insert node visited)
      (if depth < m then queue @ bfs_push p (insert node visited) depth str (adj_get t node) else queue))
    < card (nodes_left t visited ((node, depth, str) # queue))"
    by (rule psubset_card_mono) (use sub less in auto)
  then show ?case by simp
qed simp

definition graph_bfs :: "graph_index \<Rightarrow> uuid \<Rightarrow> string \<Rightarrow> nat \<Rightarrow> (uuid \<times> nat \<times> f32) list" where
  "graph_bfs g start p max_depth =
     bfs_loop (outgoing_edges g) p max_depth start {} [(start, 0, f32_one)] []"

subsection \<open>Simple paths\<close>

text \<open>
  \<open>dfs\<close> returns the paths that the code appends to \<open>results\<close>; the path and the visited set are
  restored by the code after each edge.
\<close>

function graph_dfs ::
  "(uuid, graph_edge) adjacency \<Rightarrow> uuid \<Rightarrow> nat \<Rightarrow> uuid \<Rightarrow> uuid list \<Rightarrow> uuid set \<Rightarrow> nat \<Rightarrow> uuid list list" where
  "graph_dfs t goal max_depth current path visited depth =
     (if current = goal then [path]
      else if depth \<ge> max_depth then []
      else concat (map
        (\<lambda>e. if object e \<notin> visited
             then graph_dfs t goal max_depth (object e) (path @ [object e]) (insert (object e) visited) (depth + 1)
             else [])
        (adj_get t current)))"
  by pat_completeness auto

termination graph_dfs
  by (relation "measure (\<lambda>(t, goal, m, current, path, visited, depth). m - depth)") auto

declare graph_dfs.simps [simp del]

definition graph_path :: "graph_index \<Rightarrow> uuid \<Rightarrow> uuid \<Rightarrow> nat \<Rightarrow> uuid list list" where
  "graph_path g from to max_depth = graph_dfs (outgoing_edges g) to max_depth from [from] {from} 0"

subsection \<open>The edges as a list\<close>

definition graph_wf :: "graph_index \<Rightarrow> bool" where
  "graph_wf g \<longleftrightarrow> bt_inv (outgoing_edges g) \<and> bt_inv (incoming_edges g)"

interpretation graph: two_way_index graph_new file_edge
  "\<lambda>g. adj_get (outgoing_edges g)" "\<lambda>g. adj_get (incoming_edges g)" edge_count subject object graph_wf
  by unfold_locales
    (auto simp: graph_wf_def graph_new_def file_edge_def edge_count_def bt_inv_push adj_get_push
      adj_count_push)

lemma graph_outgoing_get: "graph_outgoing g s p = with_predicate p (adj_get (outgoing_edges g) s)"
  by (simp add: graph_outgoing_def adj_get_def with_predicate_def split: option.splits)

lemma graph_incoming_get: "graph_incoming g obj p = with_predicate p (adj_get (incoming_edges g) obj)"
  by (simp add: graph_incoming_def adj_get_def with_predicate_def split: option.splits)

end
