(* ===== verification/Graph_Facts.thy ===== *)
theory Graph_Facts
  imports Graph_Index
begin

text \<open>
  Facts about the graph index: deletions on the represented edges, the invariant of the
  breadth-first loop, and the paths that the depth-first search enumerates.
\<close>

subsection \<open>Deletion\<close>

lemma represents_delete:
  assumes "graph.represents g es"
  shows "graph.represents (graph_delete_edge s p obj g) (filter (\<lambda>e. \<not> same_triple s p obj e) es)"
proof -
  have wf: "graph_wf g" and fwd: "\<And>n. adj_get (outgoing_edges g) n = filter (\<lambda>e. subject e = n) es"
    and bwd: "\<And>n. adj_get (incoming_edges g) n = filter (\<lambda>e. object e = n) es"
    and cnt: "edge_count g = length es"
    using assms by (auto simp: graph.represents_def)
  have "filter (\<lambda>e. \<not> \<not> same_triple s p obj e) (filter (\<lambda>e. subject e = s) es) =
      filter (\<lambda>e. \<not> \<not> same_triple s p obj e) es"
    by (auto simp: same_triple_def intro: filter_cong)
  then have "edge_count (graph_delete_edge s p obj g) + length (filter (\<lambda>e. \<not> \<not> same_triple s p obj e) es) = length es"
    using adj_count_retain [of "outgoing_edges g" s "\<lambda>e. \<not> same_triple s p obj e"] wf cnt
    by (simp add: edge_count_def graph_delete_edge_def graph_wf_def fwd)
  moreover have "length (filter (\<lambda>e. \<not> same_triple s p obj e) es) +
      length (filter (\<lambda>e. \<not> \<not> same_triple s p obj e) es) = length es"
    by (rule sum_length_filter_compl)
  ultimately have "edge_count (graph_delete_edge s p obj g) = length (filter (\<lambda>e. \<not> same_triple s p obj e) es)"
    by linarith
  moreover have "graph_wf (graph_delete_edge s p obj g)"
    using wf by (simp add: graph_wf_def graph_delete_edge_def bt_inv_retain)
  ultimately show ?thesis
    by (auto simp: graph.represents_def graph_delete_edge_def adj_get_retain fwd bwd same_triple_def
        conj_commute intro!: filter_cong)
qed

subsection \<open>The breadth-first loop\<close>

text \<open>The edges that the traversal follows, and the strength of a walk.\<close>

definition labelled :: "graph_index \<Rightarrow> string \<Rightarrow> uuid \<Rightarrow> graph_edge list" where
  "labelled g p n = graph_outgoing g n (Some p)"

definition walk_strength :: "graph_edge list \<Rightarrow> f32" where
  "walk_strength es = foldl (\<lambda>s e. f32_mul s (ge_confidence e)) f32_one es"

lemma labelled_get: "labelled g p n = filter (\<lambda>e. predicate e = p) (adj_get (outgoing_edges g) n)"
  by (simp add: labelled_def graph_outgoing_get with_predicate_def)

lemma walk_strength_snoc: "walk_strength (es @ [e]) = f32_mul (walk_strength es) (ge_confidence e)"
  by (simp add: walk_strength_def)

text \<open>An entry of the queue or of the result is a walk of its depth and strength.\<close>

definition entry_ok :: "graph_index \<Rightarrow> string \<Rightarrow> uuid \<Rightarrow> uuid \<times> nat \<times> f32 \<Rightarrow> bool" where
  "entry_ok g p start x \<longleftrightarrow>
     (\<exists>es. walk (labelled g p) object start es (fst x) \<and> length es = fst (snd x) \<and>
       walk_strength es = snd (snd x))"

text \<open>The queue holds at most two consecutive depths, the smaller one first.\<close>

definition queue_ok :: "nat \<Rightarrow> (uuid \<times> nat \<times> f32) list \<Rightarrow> bool" where
  "queue_ok max_depth queue \<longleftrightarrow> sorted (map (fst \<circ> snd) queue) \<and>
     (\<forall>x\<in>set queue. fst (snd x) \<le> max_depth \<and> fst (snd x) \<le> Suc (fst (snd (hd queue))))"

abbreviation gdist :: "graph_index \<Rightarrow> string \<Rightarrow> uuid \<Rightarrow> uuid \<Rightarrow> nat \<Rightarrow> bool" where
  "gdist g p \<equiv> dist (labelled g p) object"

text \<open>A visited node has its distance, and its successors are visited or wait in the queue.\<close>

definition settled ::
  "graph_index \<Rightarrow> string \<Rightarrow> nat \<Rightarrow> uuid \<Rightarrow> uuid set \<Rightarrow> (uuid \<times> nat \<times> f32) list \<Rightarrow> uuid \<Rightarrow> nat \<Rightarrow> bool" where
  "settled g p m start visited queue v d \<longleftrightarrow>
     d \<le> m \<and> gdist g p start v d \<and> (\<forall>x\<in>set queue. d \<le> fst (snd x)) \<and>
     (d < m \<longrightarrow> (\<forall>e\<in>set (labelled g p v). object e \<in> visited \<or>
        (\<exists>x\<in>set queue. fst x = object e \<and> fst (snd x) = Suc d)))"

definition bfs_inv ::
  "graph_index \<Rightarrow> string \<Rightarrow> nat \<Rightarrow> uuid \<Rightarrow> uuid set \<Rightarrow> (uuid \<times> nat \<times> f32) list \<Rightarrow>
     (uuid \<times> nat \<times> f32) list \<Rightarrow> bool" where
  "bfs_inv g p m start visited queue result \<longleftrightarrow>
     queue_ok m queue \<and> (\<forall>x\<in>set queue. entry_ok g p start x) \<and>
     (\<forall>x\<in>set result. entry_ok g p start x \<and> gdist g p start (fst x) (fst (snd x)) \<and> fst (snd x) \<le> m) \<and>
     distinct (map fst result) \<and> fst ` set result = visited - {start} \<and>
     (\<forall>v\<in>visited. \<exists>d. settled g p m start visited queue v d) \<and>
     (start \<in> visited \<or> (\<exists>s. queue = [(start, 0, s)]) \<and> visited = {})"

text \<open>A node that is not visited lies behind the depth at the head of the queue.\<close>

lemma unvisited_behind:
  assumes inv: "bfs_inv g p m start visited queue result" and v: "start \<in> visited"
    and d: "gdist g p start n d" and n: "n \<notin> visited" and m: "d \<le> m"
  shows "\<exists>x\<in>set queue. fst (snd x) \<le> d"
  using d n m
proof (induction d arbitrary: n)
  case 0
  then have "n = start" by (auto simp: dist_def)
  with v 0 show ?case by simp
next
  case (Suc d)
  obtain b e where b: "gdist g p start b d" "e \<in> set (labelled g p b)" "object e = n"
    using dist_prefix [OF Suc.prems(1)] by blast
  show ?case
  proof (cases "b \<in> visited")
    case True
    with inv obtain d' where d': "settled g p m start visited queue b d'"
      unfolding bfs_inv_def by blast
    then have "d' = d" using b(1) dist_unique unfolding settled_def by metis
    with d' have "d < m \<longrightarrow> (\<forall>e\<in>set (labelled g p b). object e \<in> visited \<or>
         (\<exists>x\<in>set queue. fst x = object e \<and> fst (snd x) = Suc d))"
      unfolding settled_def by blast
    with b Suc.prems show ?thesis by (metis Suc_le_lessD le_refl)
  next
    case False
    with Suc.IH [OF b(1)] Suc.prems show ?thesis by (meson le_SucI Suc_leD)
  qed
qed

lemma head_distance:
  assumes inv: "bfs_inv g p m start visited ((n, d, s) # queue) result" and n: "n \<notin> visited"
  shows "gdist g p start n d"
proof -
  have q: "queue_ok m ((n, d, s) # queue)" and ok: "entry_ok g p start (n, d, s)"
    using inv by (auto simp: bfs_inv_def)
  then obtain es where es: "walk (labelled g p) object start es n" "length es = d"
    by (auto simp: entry_ok_def)
  obtain k where k: "gdist g p start n k" "k \<le> d"
    using walk_dist [OF es(1)] es(2) by metis
  show ?thesis
  proof (cases "start \<in> visited")
    case True
    have "d \<le> m" using q by (simp add: queue_ok_def)
    then obtain x where "x \<in> set ((n, d, s) # queue)" "fst (snd x) \<le> k"
      using unvisited_behind [OF inv True k(1) n] k(2) by force
    then have "d \<le> k" using q by (auto simp: queue_ok_def)
    with k show ?thesis by simp
  next
    case False
    with inv have "n = start" "d = 0" by (auto simp: bfs_inv_def)
    then show ?thesis by (simp add: dist_self)
  qed
qed

lemma queue_ok_tl: "queue_ok m (x # queue) \<Longrightarrow> queue_ok m queue"
  by (cases queue) (auto simp: queue_ok_def)

lemma queue_ok_push:
  assumes "queue_ok m ((n, d, s) # queue)" and "d < m"
    and "\<forall>x\<in>set new. fst (snd x) = Suc d"
  shows "queue_ok m (queue @ new)"
proof -
  have s: "sorted (map (fst \<circ> snd) queue)" and b: "\<forall>x\<in>set queue. d \<le> fst (snd x) \<and> fst (snd x) \<le> m \<and> fst (snd x) \<le> Suc d"
    using assms(1) by (auto simp: queue_ok_def)
  have "sorted (map (fst \<circ> snd) new)"
    using assms(3) by (auto simp: sorted_wrt_map sorted_wrt_iff_nth_less)
  then have "sorted (map (fst \<circ> snd) (queue @ new))"
    using s b assms(3) by (auto simp: sorted_append)
  moreover have "fst (snd x) \<le> m \<and> fst (snd x) \<le> Suc (fst (snd (hd (queue @ new))))"
    if "x \<in> set (queue @ new)" for x
  proof -
    have "hd (queue @ new) \<in> set (queue @ new)" using that by (cases "queue @ new") auto
    then have "d \<le> fst (snd (hd (queue @ new)))" using b assms(3) by auto
    with that b assms(2,3) show ?thesis by fastforce
  qed
  ultimately show ?thesis by (simp add: queue_ok_def)
qed

text \<open>The three kinds of rounds of the loop.\<close>

lemma settled_skip:
  assumes "settled g p m start visited ((n, d, s) # queue) v k" and "n \<in> visited"
  shows "settled g p m start visited queue v k"
  using assms by (auto simp: settled_def)

lemma settled_visit:
  assumes "settled g p m start visited ((n, d, s) # queue) v k"
    and "\<forall>x\<in>set new. fst (snd x) = Suc d"
  shows "settled g p m start (insert n visited) (queue @ new) v k"
  using assms by (auto simp: settled_def)

lemma bfs_skip:
  assumes inv: "bfs_inv g p m start visited ((n, d, s) # queue) result" and n: "n \<in> visited"
  shows "bfs_inv g p m start visited queue result"
proof -
  have "queue_ok m queue" using inv queue_ok_tl unfolding bfs_inv_def by blast
  moreover have "\<forall>v\<in>visited. \<exists>d. settled g p m start visited queue v d"
    using inv settled_skip n unfolding bfs_inv_def by meson
  moreover have "start \<in> visited" using inv n by (auto simp: bfs_inv_def)
  ultimately show ?thesis using inv unfolding bfs_inv_def by simp
qed

lemma bfs_visit:
  assumes inv: "bfs_inv g p m start visited ((n, d, s) # queue) result" and n: "n \<notin> visited"
  defines "new \<equiv> if d < m then bfs_push p (insert n visited) d s (adj_get (outgoing_edges g) n) else []"
  shows "bfs_inv g p m start (insert n visited) (queue @ new)
    (if n \<noteq> start then result @ [(n, d, s)] else result)"
proof -
  have q: "queue_ok m ((n, d, s) # queue)" and ok: "entry_ok g p start (n, d, s)"
    and dm: "d \<le> m" and least: "\<forall>x\<in>set queue. d \<le> fst (snd x)"
    using inv by (auto simp: bfs_inv_def queue_ok_def)
  note nd = head_distance [OF inv n]
  have new_depth: "\<forall>x\<in>set new. fst (snd x) = Suc d"
    by (auto simp: new_def bfs_push_def)
  obtain es where es: "walk (labelled g p) object start es n" "length es = d" "walk_strength es = s"
    using ok by (auto simp: entry_ok_def)
  have new_ok: "\<forall>x\<in>set new. entry_ok g p start x"
  proof
    fix x assume "x \<in> set new"
    then obtain e where e: "e \<in> set (labelled g p n)" "x = (object e, Suc d, f32_mul s (ge_confidence e))"
      by (auto simp: new_def bfs_push_def labelled_get split: if_splits)
    with es have "walk (labelled g p) object start (es @ [e]) (object e)"
      "walk_strength (es @ [e]) = f32_mul s (ge_confidence e)"
      by (auto simp: walk_snoc walk_strength_snoc)
    with e(2) es(2) show "entry_ok g p start x"
      unfolding entry_ok_def by (intro exI [of _ "es @ [e]"]) simp
  qed
  have queue: "queue_ok m (queue @ new)"
  proof (cases "d < m")
    case True
    from queue_ok_push [OF q True new_depth] show ?thesis .
  next
    case False
    with queue_ok_tl [OF q] show ?thesis by (simp add: new_def)
  qed
  have this_node: "settled g p m start (insert n visited) (queue @ new) n d"
    unfolding settled_def
  proof (intro conjI impI ballI)
    show "d \<le> fst (snd x)" if "x \<in> set (queue @ new)" for x
      using that least new_depth by fastforce
    fix e assume "d < m" "e \<in> set (labelled g p n)"
    then show "object e \<in> insert n visited \<or>
        (\<exists>x\<in>set (queue @ new). fst x = object e \<and> fst (snd x) = Suc d)"
      by (cases "object e \<in> insert n visited")
        (auto simp: new_def bfs_push_def labelled_get intro!: bexI [of _ "(object e, Suc d, f32_mul s (ge_confidence e))"])
  qed (use dm nd in auto)
  have all_settled: "\<forall>v\<in>insert n visited. \<exists>d. settled g p m start (insert n visited) (queue @ new) v d"
    using inv settled_visit [OF _ new_depth] this_node unfolding bfs_inv_def by (metis insert_iff)
  have res: "\<forall>x\<in>set (if n \<noteq> start then result @ [(n, d, s)] else result).
      entry_ok g p start x \<and> gdist g p start (fst x) (fst (snd x)) \<and> fst (snd x) \<le> m"
    using inv ok nd dm by (auto simp: bfs_inv_def)
  have fresh: "n \<notin> fst ` set result" using inv n by (auto simp: bfs_inv_def)
  have "distinct (map fst (if n \<noteq> start then result @ [(n, d, s)] else result))"
    using inv fresh n by (simp add: bfs_inv_def)
  moreover have "fst ` set (if n \<noteq> start then result @ [(n, d, s)] else result) = insert n visited - {start}"
    using inv by (auto simp: bfs_inv_def)
  moreover have "start \<in> insert n visited" using inv by (auto simp: bfs_inv_def)
  moreover have "\<forall>x\<in>set (queue @ new). entry_ok g p start x"
    using inv new_ok by (auto simp: bfs_inv_def)
  ultimately show ?thesis
    unfolding bfs_inv_def using queue res all_settled by simp
qed

lemma bfs_loop_inv:
  "bfs_inv g p m start visited queue result \<Longrightarrow>
     \<exists>visited'. bfs_inv g p m start visited' [] (bfs_loop (outgoing_edges g) p m start visited queue result)"
proof (induction "outgoing_edges g" p m start visited queue result rule: bfs_loop.induct)
  case (2 p m start visited n d s queue result)
  show ?case
  proof (cases "n \<in> visited")
    case True
    with 2(1) bfs_skip [OF 2(3) True] show ?thesis by simp
  next
    case False
    have "(if d < m then queue @ bfs_push p (insert n visited) d s (adj_get (outgoing_edges g) n) else queue) =
        queue @ (if d < m then bfs_push p (insert n visited) d s (adj_get (outgoing_edges g) n) else [])"
      by simp
    with False 2(2) [OF False] bfs_visit [OF 2(3) False] show ?thesis by simp
  qed
qed auto

lemma bfs_inv_start: "bfs_inv g p m start {} [(start, 0, f32_one)] []"
proof -
  have "entry_ok g p start (start, 0, f32_one)"
    unfolding entry_ok_def by (rule exI [of _ "[]"]) (simp add: walk_strength_def)
  then show ?thesis by (simp add: bfs_inv_def queue_ok_def)
qed

lemma bfs_finished:
  obtains visited where "bfs_inv g p m start visited [] (graph_bfs g start p m)"
  using bfs_loop_inv [OF bfs_inv_start] unfolding graph_bfs_def by blast

subsection \<open>Simple paths\<close>

text \<open>A path is given by its nodes, any two neighbours of which are joined by an edge.\<close>

fun chain :: "graph_index \<Rightarrow> uuid list \<Rightarrow> bool" where
  "chain g (a # b # ns) \<longleftrightarrow> (\<exists>e\<in>set (graph_outgoing g a None). object e = b) \<and> chain g (b # ns)"
| "chain g _ \<longleftrightarrow> True"

lemma chain_step: "ns \<noteq> [] \<Longrightarrow>
  chain g (a # ns) \<longleftrightarrow> (\<exists>e\<in>set (adj_get (outgoing_edges g) a). object e = hd ns) \<and> chain g ns"
  by (cases ns) (auto simp: graph_outgoing_get with_predicate_def)

text \<open>The continuations of a path that the search below a node finds.\<close>

definition goes_on :: "graph_index \<Rightarrow> uuid \<Rightarrow> nat \<Rightarrow> uuid \<Rightarrow> uuid set \<Rightarrow> nat \<Rightarrow> uuid list \<Rightarrow> bool" where
  "goes_on g goal m current visited depth ns \<longleftrightarrow>
     chain g (current # ns) \<and> last (current # ns) = goal \<and> distinct (current # ns) \<and>
     set ns \<inter> visited = {} \<and> length ns + depth \<le> m"

lemma goes_on_goal: "depth \<le> m \<Longrightarrow> goes_on g goal m goal visited depth ns \<longleftrightarrow> ns = []"
  by (cases ns rule: rev_cases) (auto simp: goes_on_def)

lemma goes_on_step:
  assumes "current \<noteq> goal" and "current \<in> visited"
  shows "goes_on g goal m current visited depth ns \<longleftrightarrow> depth < m \<and>
    (\<exists>e\<in>set (adj_get (outgoing_edges g) current). object e \<notin> visited \<and>
      (\<exists>ms. ns = object e # ms \<and> goes_on g goal m (object e) (insert (object e) visited) (depth + 1) ms))"
proof (cases ns)
  case Nil
  with assms show ?thesis by (simp add: goes_on_def)
next
  case (Cons b bs)
  have "goes_on g goal m current visited depth (b # bs) \<longleftrightarrow> depth < m \<and>
      (\<exists>e\<in>set (adj_get (outgoing_edges g) current). object e = b) \<and> b \<notin> visited \<and>
      goes_on g goal m b (insert b visited) (depth + 1) bs"
    using assms unfolding goes_on_def by (auto simp: chain_step graph_outgoing_get with_predicate_def)
  with Cons show ?thesis by auto
qed

lemma graph_dfs_paths:
  assumes "current \<in> visited" and "depth \<le> m"
  shows "x \<in> set (graph_dfs (outgoing_edges g) goal m current path visited depth) \<longleftrightarrow>
    (\<exists>ns. x = path @ ns \<and> goes_on g goal m current visited depth ns)"
  using assms
proof (induction "outgoing_edges g" goal m current path visited depth rule: graph_dfs.induct)
  case (1 goal m current path visited depth)
  note eq = graph_dfs.simps [of "outgoing_edges g" goal m current path visited depth]
  consider "current = goal" | "current \<noteq> goal" "depth = m" | "current \<noteq> goal" "depth < m"
    using "1.prems" by linarith
  then show ?case
  proof cases
    case 1
    then show ?thesis using "1.prems" by (subst eq) (simp add: goes_on_goal)
  next
    case 2
    then show ?thesis using "1.prems" by (subst eq) (simp add: goes_on_step)
  next
    case 3
    have "x \<in> set (graph_dfs (outgoing_edges g) goal m (object e) (path @ [object e]) (insert (object e) visited) (depth + 1))
        \<longleftrightarrow> (\<exists>ms. x = (path @ [object e]) @ ms \<and> goes_on g goal m (object e) (insert (object e) visited) (depth + 1) ms)"
      if "e \<in> set (adj_get (outgoing_edges g) current)" "object e \<notin> visited" for e
      by (rule "1.hyps") (use 3 that in auto)
    then have "x \<in> set (graph_dfs (outgoing_edges g) goal m current path visited depth) \<longleftrightarrow>
      (\<exists>e\<in>set (adj_get (outgoing_edges g) current). object e \<notin> visited \<and>
        (\<exists>ms. x = path @ object e # ms \<and> goes_on g goal m (object e) (insert (object e) visited) (depth + 1) ms))"
      using 3 by (subst eq) auto
    also have "\<dots> \<longleftrightarrow> (\<exists>ns. x = path @ ns \<and> goes_on g goal m current visited depth ns)"
      using 3(2) unfolding goes_on_step [OF 3(1) "1.prems"(1)] by blast
    finally show ?thesis .
  qed
qed

end
