(* ===== verification/Causal_Dag.thy ===== *)
theory Causal_Dag
  imports Adjacency Record_Types Ieee "HOL-Library.Multiset"
begin

text \<open>
  The causal DAG index, \<open>crates/fundb-indexes/src/causal_dag.rs\<close>. The recursive \<open>can_reach\<close> runs on
  fuel (\<open>None\<close> when it is used up, which Causal_Dag_Facts excludes); the other searches end because
  the depth is bounded. The order in which \<open>effects\<close> and \<open>causes\<close> list the nodes is left open by the
  code; here it is that of the node ids.
\<close>

record causal_path =
  cp_nodes :: "uuid list"
  cp_edges :: "causal_edge list"
  total_strength :: f32

datatype causal_error = Cycle (detected_at: uuid) | InvalidStrength

record dag_index =
  dag_adjacency :: "(uuid, causal_edge) adjacency"
  dag_reverse :: "(uuid, causal_edge) adjacency"
  closure_cache :: "(uuid \<times> uuid, causal_path list) btree_map"

definition dag_new :: dag_index where
  "dag_new = \<lparr>dag_adjacency = [], dag_reverse = [], closure_cache = []\<rparr>"

subsection \<open>Insertion\<close>

fun can_reach ::
    "nat \<Rightarrow> (uuid, causal_edge) adjacency \<Rightarrow> uuid \<Rightarrow> uuid set \<Rightarrow> uuid \<Rightarrow> (bool \<times> uuid set) option"
  and can_reach_any ::
    "nat \<Rightarrow> (uuid, causal_edge) adjacency \<Rightarrow> uuid \<Rightarrow> uuid set \<Rightarrow> causal_edge list \<Rightarrow> (bool \<times> uuid set) option"
where
  "can_reach 0 adj goal visited from = None"
| "can_reach (Suc fuel) adj goal visited from =
     (if from = goal then Some (True, visited)
      else if from \<in> visited then Some (False, visited)
      else can_reach_any fuel adj goal (insert from visited) (adj_get adj from))"
| "can_reach_any fuel adj goal visited [] = Some (False, visited)"
| "can_reach_any fuel adj goal visited (e # es) =
     (case can_reach fuel adj goal visited (target_id e) of
        None \<Rightarrow> None
      | Some (True, visited') \<Rightarrow> Some (True, visited')
      | Some (False, visited') \<Rightarrow> can_reach_any fuel adj goal visited' es)"

text \<open>Every call that goes deeper visits one more node of the table, so this much fuel is enough.\<close>

definition reach_fuel :: "(uuid, causal_edge) adjacency \<Rightarrow> nat" where
  "reach_fuel adj = length adj + 2"

definition valid_strength :: "f32 \<Rightarrow> bool" where
  "valid_strength x \<longleftrightarrow> f32_le f32_zero x \<and> f32_le x f32_one"

definition dag_file :: "causal_edge \<Rightarrow> dag_index \<Rightarrow> dag_index" where
  "dag_file e d =
     d\<lparr>dag_adjacency := adj_push (source_id e) e (dag_adjacency d),
       dag_reverse := adj_push (target_id e) e (dag_reverse d)\<rparr>"

definition dag_insert_edge :: "causal_edge \<Rightarrow> dag_index \<Rightarrow> (causal_error + dag_index) option" where
  "dag_insert_edge e d =
     (if \<not> valid_strength (strength e) then Some (Inl InvalidStrength)
      else case can_reach (reach_fuel (dag_adjacency d)) (dag_adjacency d) (source_id e) {} (target_id e) of
        None \<Rightarrow> None
      | Some (True, _) \<Rightarrow> Some (Inl (Cycle (target_id e)))
      | Some (False, _) \<Rightarrow> Some (Inr (dag_file e d)))"

definition dag_len :: "dag_index \<Rightarrow> nat" where
  "dag_len d = adj_count (dag_adjacency d)"

definition dag_is_empty :: "dag_index \<Rightarrow> bool" where
  "dag_is_empty d \<longleftrightarrow> dag_adjacency d = []"

subsection \<open>Paths\<close>

function dfs_paths ::
  "(uuid, causal_edge) adjacency \<Rightarrow> uuid \<Rightarrow> nat \<Rightarrow> f32 \<Rightarrow> uuid \<Rightarrow> uuid list \<Rightarrow> causal_edge list \<Rightarrow>
     f32 \<Rightarrow> nat \<Rightarrow> causal_path list" where
  "dfs_paths adj goal max_depth min_strength current nodes edges str depth =
     (if current = goal \<and> depth > 0 then
        [\<lparr>cp_nodes = nodes, cp_edges = edges, total_strength = str\<rparr>]
      else if depth \<ge> max_depth then []
      else concat (map
        (\<lambda>e. if f32_le min_strength (f32_mul str (strength e)) \<and> target_id e \<notin> set nodes
             then dfs_paths adj goal max_depth min_strength (target_id e) (nodes @ [target_id e])
               (edges @ [e]) (f32_mul str (strength e)) (depth + 1)
             else [])
        (adj_get adj current)))"
  by pat_completeness auto

termination dfs_paths
  by (relation "measure (\<lambda>(adj, goal, m, ms, current, nodes, edges, str, depth). m - depth)") auto

declare dfs_paths.simps [simp del]

definition search_paths :: "dag_index \<Rightarrow> uuid \<Rightarrow> uuid \<Rightarrow> nat \<Rightarrow> f32 \<Rightarrow> causal_path list" where
  "search_paths d from to max_depth min_strength =
     dfs_paths (dag_adjacency d) to max_depth min_strength from [from] [] f32_one 0"

definition dag_paths :: "dag_index \<Rightarrow> uuid \<Rightarrow> uuid \<Rightarrow> nat \<Rightarrow> f32 \<Rightarrow> causal_path list" where
  "dag_paths d from to max_depth min_strength =
     (case bt_get (closure_cache d) (from, to) of
        Some cached \<Rightarrow> filter (\<lambda>p. f32_le min_strength (total_strength p)) cached
      | None \<Rightarrow> search_paths d from to max_depth min_strength)"

definition materialize_closure :: "uuid \<Rightarrow> uuid \<Rightarrow> dag_index \<Rightarrow> dag_index" where
  "materialize_closure from to d =
     d\<lparr>closure_cache := bt_insert (from, to) (search_paths d from to 10 f32_zero) (closure_cache d)\<rparr>"

subsection \<open>Effects and causes\<close>

definition f32_neg_infinity :: f32 where
  "f32_neg_infinity = 0xFF800000"

type_synonym reach_state = "(uuid, f32) btree_map \<times> (uuid \<times> nat \<times> f32) list"

text \<open>One edge of the loop body; the top of the stack is the head of the list.\<close>

definition relax :: "bool \<Rightarrow> nat \<Rightarrow> f32 \<Rightarrow> causal_edge \<Rightarrow> reach_state \<Rightarrow> reach_state" where
  "relax forward depth str e st =
     (let neighbour = (if forward then target_id e else source_id e);
          new_strength = f32_mul str (strength e);
          entry = (case bt_get (fst st) neighbour of Some x \<Rightarrow> x | None \<Rightarrow> f32_neg_infinity)
      in if f32_lt entry new_strength
         then (bt_insert neighbour new_strength (fst st), (neighbour, depth + 1, new_strength) # snd st)
         else (bt_insert neighbour entry (fst st), snd st))"

lemma relax_cases:
  "snd (relax forward depth str e st) = snd st \<or>
   (\<exists>n s. snd (relax forward depth str e st) = (n, depth + 1, s) # snd st)"
  by (simp add: relax_def Let_def)

lemma relax_stack:
  "\<exists>new. snd (fold (relax forward depth str) es st) = new @ snd st \<and> (\<forall>x\<in>set new. fst (snd x) = depth + 1)"
proof (induction es arbitrary: st)
  case (Cons e es)
  obtain new where new: "snd (fold (relax forward depth str) es (relax forward depth str e st)) =
      new @ snd (relax forward depth str e st)" "\<forall>x\<in>set new. fst (snd x) = depth + 1"
    using Cons.IH by blast
  moreover obtain top where "snd (relax forward depth str e st) = top @ snd st" "\<forall>x\<in>set top. fst (snd x) = depth + 1"
    using relax_cases [of forward depth str e st] by (metis append_Cons append_Nil empty_iff fst_conv
        list.set(1) set_ConsD snd_conv)
  ultimately show ?case by (intro exI [of _ "new @ top"]) auto
qed simp

function traverse_loop ::
  "(uuid, causal_edge) adjacency \<Rightarrow> bool \<Rightarrow> nat \<Rightarrow> (uuid, f32) btree_map \<Rightarrow> (uuid \<times> nat \<times> f32) list \<Rightarrow>
     (uuid, f32) btree_map" where
  "traverse_loop adj forward max_depth best [] = best"
| "traverse_loop adj forward max_depth best ((node, depth, str) # stack) =
     (if depth \<ge> max_depth then traverse_loop adj forward max_depth best stack
      else traverse_loop adj forward max_depth
        (fst (fold (relax forward depth str) (adj_get adj node) (best, stack)))
        (snd (fold (relax forward depth str) (adj_get adj node) (best, stack))))"
  by pat_completeness auto

definition levels :: "nat \<Rightarrow> (uuid \<times> nat \<times> f32) list \<Rightarrow> nat multiset" where
  "levels m stack = mset (map (\<lambda>x. m - fst (snd x)) stack)"

text \<open>An entry of the stack is replaced by entries that are one level deeper.\<close>

termination traverse_loop
proof (relation "inv_image (mult less_than) (\<lambda>(adj, forward, m, best, stack). levels m stack)", goal_cases)
  case 1
  show ?case by (intro wf_inv_image wf_mult) simp
next
  case (2 adj forward m best node depth str stack)
  have "(levels m stack + {#}, levels m stack + {#m - depth#}) \<in> mult less_than"
    by (rule one_step_implies_mult) simp_all
  then show ?case by (simp add: levels_def)
next
  case (3 adj forward m best node depth str stack)
  obtain new where new: "snd (fold (relax forward depth str) (adj_get adj node) (best, stack)) = new @ stack"
    "\<forall>x\<in>set new. fst (snd x) = depth + 1"
    using relax_stack [of forward depth str "adj_get adj node" "(best, stack)"] by auto
  have "\<forall>k\<in>set_mset (levels m new). \<exists>j\<in>set_mset {#m - depth#}. (k, j) \<in> less_than"
    using new(2) 3 by (auto simp: levels_def)
  then have "(levels m stack + levels m new, levels m stack + {#m - depth#}) \<in> mult less_than"
    by (intro one_step_implies_mult) simp_all
  then show ?case using new(1) by (simp add: levels_def add.commute)
qed

definition traverse_reachable ::
  "uuid \<Rightarrow> nat \<Rightarrow> (uuid, causal_edge) adjacency \<Rightarrow> bool \<Rightarrow> (uuid \<times> f32) list" where
  "traverse_reachable start max_depth adj forward =
     traverse_loop adj forward max_depth [] [(start, 0, f32_one)]"

definition dag_effects :: "dag_index \<Rightarrow> uuid \<Rightarrow> nat \<Rightarrow> (uuid \<times> f32) list" where
  "dag_effects d from max_depth = traverse_reachable from max_depth (dag_adjacency d) True"

definition dag_causes :: "dag_index \<Rightarrow> uuid \<Rightarrow> nat \<Rightarrow> (uuid \<times> f32) list" where
  "dag_causes d node max_depth = traverse_reachable node max_depth (dag_reverse d) False"

subsection \<open>The edges as a list\<close>

definition dag_wf :: "dag_index \<Rightarrow> bool" where
  "dag_wf d \<longleftrightarrow> bt_inv (dag_adjacency d) \<and> bt_inv (dag_reverse d)"

interpretation dag: two_way_index dag_new dag_file
  "\<lambda>d. adj_get (dag_adjacency d)" "\<lambda>d. adj_get (dag_reverse d)" dag_len source_id target_id dag_wf
  by unfold_locales
    (auto simp: dag_wf_def dag_new_def dag_file_def dag_len_def bt_inv_push adj_get_push adj_count_push)

end
