(* ===== verification/Causal_Dag_Facts.thy ===== *)
theory Causal_Dag_Facts
  imports Causal_Dag
begin

text \<open>
  Facts about the causal DAG index: the reachability test decides reachability, insertion keeps the
  graph acyclic, and the path search enumerates the strong simple paths.
\<close>

abbreviation dwalk :: "(uuid, causal_edge) adjacency \<Rightarrow> uuid \<Rightarrow> causal_edge list \<Rightarrow> uuid \<Rightarrow> bool" where
  "dwalk adj \<equiv> walk (adj_get adj) target_id"

subsection \<open>The reachability test\<close>

lemma can_reach_True:
  "can_reach fuel adj goal visited from = Some (True, visited') \<Longrightarrow> \<exists>es. dwalk adj from es goal"
  "can_reach_any fuel adj goal visited es = Some (True, visited') \<Longrightarrow>
     \<exists>e\<in>set es. \<exists>fs. dwalk adj (target_id e) fs goal"
proof (induction fuel adj goal visited "from" and fuel adj goal visited es arbitrary: visited' and visited'
    rule: can_reach_can_reach_any.induct)
  case (2 fuel adj goal visited a)
  show ?case
  proof (cases "a = goal")
    case True
    then show ?thesis by (intro exI [of _ "[]"]) simp
  next
    case False
    with 2 obtain e fs where "e \<in> set (adj_get adj a)" "dwalk adj (target_id e) fs goal"
      by (auto split: if_splits)
    then show ?thesis by (intro exI [of _ "e # fs"]) simp
  qed
next
  case (4 fuel adj goal visited e es)
  then show ?case by (fastforce split: option.splits bool.splits)
qed auto

text \<open>A search without success leaves a set that no edge leaves, apart from what was visited before.\<close>

definition closed_from :: "(uuid, causal_edge) adjacency \<Rightarrow> uuid \<Rightarrow> uuid set \<Rightarrow> uuid set \<Rightarrow> bool" where
  "closed_from adj goal visited visited' \<longleftrightarrow> visited \<subseteq> visited' \<and>
     (\<forall>n\<in>visited' - visited. n \<noteq> goal \<and> (\<forall>e\<in>set (adj_get adj n). target_id e \<in> visited'))"

lemma closed_from_trans:
  "closed_from adj goal v1 v2 \<Longrightarrow> closed_from adj goal v2 v3 \<Longrightarrow> closed_from adj goal v1 v3"
  unfolding closed_from_def by blast

lemma can_reach_False:
  "can_reach fuel adj goal visited from = Some (False, visited') \<Longrightarrow>
     closed_from adj goal visited visited' \<and> from \<in> visited'"
  "can_reach_any fuel adj goal visited es = Some (False, visited') \<Longrightarrow>
     closed_from adj goal visited visited' \<and> (\<forall>e\<in>set es. target_id e \<in> visited')"
proof (induction fuel adj goal visited "from" and fuel adj goal visited es arbitrary: visited' and visited'
    rule: can_reach_can_reach_any.induct)
  case (2 fuel adj goal visited a)
  show ?case
  proof (cases "a \<in> visited")
    case True
    with "2.prems" show ?thesis by (auto simp: closed_from_def split: if_splits)
  next
    case False
    with "2.prems" have ne: "a \<noteq> goal" by auto
    with False 2 have "closed_from adj goal (insert a visited) visited'"
      "\<forall>e\<in>set (adj_get adj a). target_id e \<in> visited'"
      by auto
    with ne show ?thesis by (auto simp: closed_from_def)
  qed
next
  case (4 fuel adj goal visited e es)
  from "4.prems" obtain v where v: "can_reach fuel adj goal visited (target_id e) = Some (False, v)"
    "can_reach_any fuel adj goal v es = Some (False, visited')"
    by (auto split: option.splits bool.splits)
  have 1: "closed_from adj goal visited v" "target_id e \<in> v" using "4.IH"(1) [OF v(1)] by auto
  have 2: "closed_from adj goal v visited'" "\<forall>e\<in>set es. target_id e \<in> visited'"
    using "4.IH"(2) [OF v(1) _ _ v(2)] by auto
  have "v \<subseteq> visited'" using 2(1) by (simp add: closed_from_def)
  then show ?case using 1 2 closed_from_trans [OF 1(1) 2(1)] by auto
qed (auto simp: closed_from_def)

lemma closed_walk:
  assumes "closed_from adj goal {} visited" and "from \<in> visited" and "dwalk adj from es to"
  shows "to \<in> visited"
  using assms(3,2)
  by (induction es arbitrary: "from") (use assms(1) in \<open>auto simp: closed_from_def\<close>)

lemma can_reach_fuel:
  "card (fst ` set adj - visited) + 2 \<le> fuel \<Longrightarrow> can_reach fuel adj goal visited from \<noteq> None"
  "es = [] \<or> card (fst ` set adj - visited) + 2 \<le> fuel \<Longrightarrow> can_reach_any fuel adj goal visited es \<noteq> None"
proof (induction fuel adj goal visited "from" and fuel adj goal visited es rule: can_reach_can_reach_any.induct)
  case (2 fuel adj goal visited a)
  show ?case
  proof (cases "a = goal \<or> a \<in> visited")
    case False
    then have ne: "a \<noteq> goal" "a \<notin> visited" by simp_all
    have "adj_get adj a = [] \<or> card (fst ` set adj - insert a visited) + 2 \<le> fuel"
    proof (cases "a \<in> fst ` set adj")
      case True
      then have "card (fst ` set adj - insert a visited) < card (fst ` set adj - visited)"
        using False by (intro psubset_card_mono) auto
      with "2.prems" show ?thesis by simp
    next
      case False
      with adj_get_in_range [of adj a] have "adj_get adj a = []" by metis
      then show ?thesis ..
    qed
    then have "can_reach_any fuel adj goal (insert a visited) (adj_get adj a) \<noteq> None"
      by (rule "2.IH" [OF ne])
    then show ?thesis unfolding can_reach.simps using ne by simp
  qed auto
next
  case (4 fuel adj goal visited e es)
  then have need: "card (fst ` set adj - visited) + 2 \<le> fuel" by simp
  with 4 obtain b v where v: "can_reach fuel adj goal visited (target_id e) = Some (b, v)" by fastforce
  show ?case
  proof (cases b)
    case False
    with v have "visited \<subseteq> v" using can_reach_False(1) by (fastforce simp: closed_from_def)
    then have "card (fst ` set adj - v) \<le> card (fst ` set adj - visited)"
      by (intro card_mono) auto
    with need False v "4.IH"(2) [OF v, of False] show ?thesis by simp
  qed (use v in simp)
qed simp_all

text \<open>With the fuel of the model the test returns, and returns whether there is a walk.\<close>

lemma can_reach_correct:
  obtains visited where
    "can_reach (reach_fuel adj) adj goal {} from = Some (\<exists>es. dwalk adj from es goal, visited)"
proof -
  have "card (fst ` set adj) \<le> length adj"
    by (metis card_length image_set length_map)
  then have "can_reach (reach_fuel adj) adj goal {} from \<noteq> None"
    by (intro can_reach_fuel) (simp add: reach_fuel_def)
  then obtain b v where v: "can_reach (reach_fuel adj) adj goal {} from = Some (b, v)" by auto
  have "b = (\<exists>es. dwalk adj from es goal)"
  proof (cases b)
    case True
    with v have "can_reach (reach_fuel adj) adj goal {} from = Some (True, v)" by simp
    from can_reach_True(1) [OF this] True show ?thesis by simp
  next
    case False
    with v have "can_reach (reach_fuel adj) adj goal {} from = Some (False, v)" by simp
    from can_reach_False(1) [OF this] have c: "closed_from adj goal {} v" "from \<in> v" by simp_all
    have "goal \<notin> v" using c(1) by (auto simp: closed_from_def)
    with False closed_walk [OF c] show ?thesis by blast
  qed
  with v that show ?thesis by blast
qed

lemma dag_insert_edge_eq:
  "dag_insert_edge e d = Some
     (if \<not> valid_strength (strength e) then Inl InvalidStrength
      else if \<exists>es. dwalk (dag_adjacency d) (target_id e) es (source_id e) then Inl (Cycle (target_id e))
      else Inr (dag_file e d))"
proof -
  obtain v where "can_reach (reach_fuel (dag_adjacency d)) (dag_adjacency d) (source_id e) {} (target_id e) =
      Some (\<exists>es. dwalk (dag_adjacency d) (target_id e) es (source_id e), v)"
    by (rule can_reach_correct)
  then show ?thesis by (auto simp: dag_insert_edge_def)
qed

subsection \<open>Runs of the index\<close>

text \<open>The operations that change the index; a refused insertion leaves it as it is.\<close>

datatype dag_op = InsertEdge causal_edge | Materialize uuid uuid

fun dag_apply :: "dag_op \<Rightarrow> dag_index \<Rightarrow> dag_index" where
  "dag_apply (InsertEdge e) d = (case dag_insert_edge e d of Some (Inr d') \<Rightarrow> d' | _ \<Rightarrow> d)"
| "dag_apply (Materialize from to) d = materialize_closure from to d"

definition dag_run :: "dag_op list \<Rightarrow> dag_index \<Rightarrow> dag_index" where
  "dag_run ops d = fold dag_apply ops d"

abbreviation causal_rel :: "dag_index \<Rightarrow> (uuid \<times> uuid) set" where
  "causal_rel d \<equiv> edge_rel (adj_get (dag_adjacency d)) target_id"

definition dag_inv :: "dag_index \<Rightarrow> bool" where
  "dag_inv d \<longleftrightarrow> acyclic (causal_rel d) \<and>
     (\<exists>es. dag.represents d es \<and> (\<forall>e\<in>set es. valid_strength (strength e)))"

lemma causal_rel_file:
  "dag_wf d \<Longrightarrow> causal_rel (dag_file e d) = insert (source_id e, target_id e) (causal_rel d)"
  unfolding edge_rel_def by (auto simp: dag.forward_insert split: if_splits)

lemma dag_inv_new: "dag_inv dag_new"
proof -
  have "acyclic (causal_rel dag_new)" by (simp add: edge_rel_def dag_new_def acyclic_def)
  with dag.represents_empty show ?thesis by (auto simp: dag_inv_def)
qed

lemma dag_inv_insert:
  assumes "dag_inv d" and "dag_insert_edge e d = Some (Inr d')"
  shows "dag_inv d'"
proof -
  from assms(2) have d': "d' = dag_file e d" "valid_strength (strength e)"
    and "\<nexists>es. dwalk (dag_adjacency d) (target_id e) es (source_id e)"
    by (auto simp: dag_insert_edge_eq split: if_splits)
  then have "(target_id e, source_id e) \<notin> (causal_rel d)\<^sup>*" by (simp add: walk_rtrancl)
  moreover obtain es where es: "dag.represents d es" "\<forall>e\<in>set es. valid_strength (strength e)"
    using assms(1) by (auto simp: dag_inv_def)
  ultimately have "acyclic (causal_rel d')"
    using assms(1) d'(1) by (simp add: dag_inv_def causal_rel_file dag.represents_def acyclic_insert)
  moreover have "dag.represents d' (es @ [e])" using dag.represents_insert [OF es(1)] d'(1) by simp
  moreover have "\<forall>f\<in>set (es @ [e]). valid_strength (strength f)" using es(2) d'(2) by simp
  ultimately show ?thesis unfolding dag_inv_def by blast
qed

lemma dag_inv_materialize: "dag_inv d \<Longrightarrow> dag_inv (materialize_closure from to d)"
  by (simp add: dag_inv_def dag.represents_def materialize_closure_def dag_wf_def dag_len_def)

lemma dag_inv_apply: "dag_inv d \<Longrightarrow> dag_inv (dag_apply op d)"
  by (cases op) (auto simp: dag_inv_materialize dag_inv_insert split: option.splits sum.splits)

lemma dag_inv_run: "dag_inv d \<Longrightarrow> dag_inv (dag_run ops d)"
  unfolding dag_run_def by (induction ops arbitrary: d) (simp_all add: dag_inv_apply)

subsection \<open>The path search\<close>

definition path_strength :: "f32 \<Rightarrow> causal_edge list \<Rightarrow> f32" where
  "path_strength str es = foldl (\<lambda>s e. f32_mul s (strength e)) str es"

fun stays_strong :: "f32 \<Rightarrow> f32 \<Rightarrow> causal_edge list \<Rightarrow> bool" where
  "stays_strong lo str [] \<longleftrightarrow> True"
| "stays_strong lo str (e # es) \<longleftrightarrow>
     f32_le lo (f32_mul str (strength e)) \<and> stays_strong lo (f32_mul str (strength e)) es"

definition continues ::
  "(uuid, causal_edge) adjacency \<Rightarrow> uuid \<Rightarrow> nat \<Rightarrow> f32 \<Rightarrow> uuid \<Rightarrow> uuid list \<Rightarrow> f32 \<Rightarrow> nat \<Rightarrow> causal_edge list \<Rightarrow> bool"
where
  "continues adj goal m lo current nodes str depth es \<longleftrightarrow>
     dwalk adj current es goal \<and> distinct (map target_id es) \<and> target_id ` set es \<inter> set nodes = {} \<and>
     length es + depth \<le> m \<and> stays_strong lo str es \<and> (es = [] \<longrightarrow> 0 < depth)"

lemma path_strength_simps [simp]:
  "path_strength str [] = str"
  "path_strength str (e # es) = path_strength (f32_mul str (strength e)) es"
  by (simp_all add: path_strength_def)

lemma continues_goal:
  assumes "current \<in> set nodes" and "depth \<le> m" and "0 < depth" and "current = goal"
  shows "continues adj goal m lo current nodes str depth es \<longleftrightarrow> es = []"
proof -
  have "goal \<in> target_id ` set es" if "dwalk adj a es goal" "es \<noteq> []" for a
    using that by (induction es arbitrary: a) (auto, metis walk.simps(1))
  with assms show ?thesis by (auto simp: continues_def)
qed

lemma continues_step:
  assumes "\<not> (current = goal \<and> 0 < depth)"
  shows "continues adj goal m lo current nodes str depth es \<longleftrightarrow> depth < m \<and>
    (\<exists>e\<in>set (adj_get adj current). f32_le lo (f32_mul str (strength e)) \<and> target_id e \<notin> set nodes \<and>
      (\<exists>fs. es = e # fs \<and> continues adj goal m lo (target_id e) (nodes @ [target_id e])
         (f32_mul str (strength e)) (depth + 1) fs))"
  using assms by (cases es) (auto simp: continues_def)

lemma dfs_paths_correct:
  assumes "current \<in> set nodes" and "depth \<le> m"
  shows "p \<in> set (dfs_paths adj goal m lo current nodes edges str depth) \<longleftrightarrow>
    (\<exists>es. p = \<lparr>cp_nodes = nodes @ map target_id es, cp_edges = edges @ es, total_strength = path_strength str es\<rparr> \<and>
      continues adj goal m lo current nodes str depth es)"
  using assms
proof (induction adj goal m lo current nodes edges str depth rule: dfs_paths.induct)
  case (1 adj goal m lo current nodes edges str depth)
  note eq = dfs_paths.simps [of adj goal m lo current nodes edges str depth]
  consider "current = goal" "0 < depth" | "\<not> (current = goal \<and> 0 < depth)" "depth = m"
    | "\<not> (current = goal \<and> 0 < depth)" "depth < m"
    using "1.prems" by linarith
  then show ?case
  proof cases
    case 1
    then show ?thesis using "1.prems" by (subst eq) (simp add: continues_goal)
  next
    case 2
    then have "dfs_paths adj goal m lo current nodes edges str depth = []" by (subst eq) simp
    with 2 show ?thesis by (simp add: continues_step)
  next
    case 3
    let ?s = "\<lambda>e. f32_mul str (strength e)"
    have "p \<in> set (dfs_paths adj goal m lo (target_id e) (nodes @ [target_id e]) (edges @ [e]) (?s e) (depth + 1))
        \<longleftrightarrow> (\<exists>fs. p = \<lparr>cp_nodes = (nodes @ [target_id e]) @ map target_id fs, cp_edges = (edges @ [e]) @ fs,
              total_strength = path_strength (?s e) fs\<rparr> \<and>
            continues adj goal m lo (target_id e) (nodes @ [target_id e]) (?s e) (depth + 1) fs)"
      if "e \<in> set (adj_get adj current)" "f32_le lo (?s e) \<and> target_id e \<notin> set nodes" for e
      by (rule "1.IH") (use 3 that in auto)
    then have "p \<in> set (dfs_paths adj goal m lo current nodes edges str depth) \<longleftrightarrow>
      (\<exists>e\<in>set (adj_get adj current). (f32_le lo (?s e) \<and> target_id e \<notin> set nodes) \<and>
        (\<exists>fs. p = \<lparr>cp_nodes = nodes @ map target_id (e # fs), cp_edges = edges @ e # fs,
              total_strength = path_strength str (e # fs)\<rparr> \<and>
            continues adj goal m lo (target_id e) (nodes @ [target_id e]) (?s e) (depth + 1) fs))"
      using 3 by (subst eq) auto
    also have "\<dots> \<longleftrightarrow> (\<exists>es. p = \<lparr>cp_nodes = nodes @ map target_id es, cp_edges = edges @ es,
          total_strength = path_strength str es\<rparr> \<and> continues adj goal m lo current nodes str depth es)"
      using 3(2) unfolding continues_step [OF 3(1)] by blast
    finally show ?thesis .
  qed
qed

end
