(* ===== verification/Graph_Properties.thy ===== *)
theory Graph_Properties
  imports Graph_Facts Causal_Dag_Facts Ieee_Facts
begin

text \<open>
  The properties of the graph index and of the causal DAG index.
\<close>

subsection \<open>The graph index keeps a list of edges\<close>

datatype graph_op = GraphInsert uuid string uuid f32 bytes | GraphDelete uuid string uuid

fun graph_apply :: "graph_op \<Rightarrow> graph_index \<Rightarrow> graph_index" where
  "graph_apply (GraphInsert s p obj conf props) g = graph_insert_edge s p obj conf props g"
| "graph_apply (GraphDelete s p obj) g = graph_delete_edge s p obj g"

text \<open>The specification: a list of edges, appended to and filtered.\<close>

fun edges_apply :: "graph_op \<Rightarrow> graph_edge list \<Rightarrow> graph_edge list" where
  "edges_apply (GraphInsert s p obj conf props) es =
     es @ [\<lparr>subject = s, predicate = p, object = obj, ge_confidence = conf, ge_props = props\<rparr>]"
| "edges_apply (GraphDelete s p obj) es = filter (\<lambda>e. \<not> same_triple s p obj e) es"

lemma represents_apply: "graph.represents g es \<Longrightarrow> graph.represents (graph_apply op g) (edges_apply op es)"
  by (cases op) (simp_all add: graph_insert_edge_def graph.represents_insert represents_delete)

lemma represents_run: "graph.represents g es \<Longrightarrow> graph.represents (fold graph_apply ops g) (fold edges_apply ops es)"
  by (induction ops arbitrary: g es) (simp_all add: represents_apply)

text \<open>
  The two edge tables implement one list of edges: after any insertions and deletions, the outgoing
  edges of a node are the edges of the list with this subject, the incoming ones those with this
  object, restricted to the predicate that is asked for, and the count is the length of the list.
\<close>

theorem graph_refines_edge_list:
  "graph_outgoing (fold graph_apply ops graph_new) n q =
     with_predicate q (filter (\<lambda>e. subject e = n) (fold edges_apply ops [])) \<and>
   graph_incoming (fold graph_apply ops graph_new) n q =
     with_predicate q (filter (\<lambda>e. object e = n) (fold edges_apply ops [])) \<and>
   edge_count (fold graph_apply ops graph_new) = length (fold edges_apply ops [])"
  using represents_run [OF graph.represents_empty, of ops]
  by (simp add: graph_outgoing_get graph_incoming_get graph.represents_def)

text \<open>
  C15: The breadth-first traversal lists every node once, with its distance from the start along the
  edges of the predicate: exactly the nodes at a distance of one up to the maximal depth. The
  strength that is listed with a node is that of a shortest walk to it.
\<close>

theorem bfs_shortest:
  "((\<exists>s. (n, d, s) \<in> set (graph_bfs g start p m)) \<longleftrightarrow> n \<noteq> start \<and> d \<le> m \<and> gdist g p start n d) \<and>
   distinct (map fst (graph_bfs g start p m)) \<and>
   list_all (\<lambda>(n, d, s). \<exists>es. walk (labelled g p) object start es n \<and> length es = d \<and> walk_strength es = s)
     (graph_bfs g start p m)"
proof (intro conjI)
  obtain visited where inv: "bfs_inv g p m start visited [] (graph_bfs g start p m)"
    by (rule bfs_finished)
  then have start: "start \<in> visited" by (auto simp: bfs_inv_def)
  have listed: "n \<in> visited - {start} \<longleftrightarrow> (\<exists>k s. (n, k, s) \<in> set (graph_bfs g start p m))" for n
    using inv unfolding bfs_inv_def by (metis (no_types, lifting) fst_conv imageE image_eqI prod.collapse)
  show "(\<exists>s. (n, d, s) \<in> set (graph_bfs g start p m)) \<longleftrightarrow> n \<noteq> start \<and> d \<le> m \<and> gdist g p start n d"
  proof
    assume "\<exists>s. (n, d, s) \<in> set (graph_bfs g start p m)"
    with inv listed show "n \<noteq> start \<and> d \<le> m \<and> gdist g p start n d"
      by (fastforce simp: bfs_inv_def)
  next
    assume n: "n \<noteq> start \<and> d \<le> m \<and> gdist g p start n d"
    then have "n \<in> visited" using unvisited_behind [OF inv start] by fastforce
    with n listed obtain k s where ks: "(n, k, s) \<in> set (graph_bfs g start p m)" by blast
    with inv have "gdist g p start n k" by (fastforce simp: bfs_inv_def)
    with n have "k = d" using dist_unique by metis
    with ks show "\<exists>s. (n, d, s) \<in> set (graph_bfs g start p m)" by blast
  qed
  show "distinct (map fst (graph_bfs g start p m))" using inv by (simp add: bfs_inv_def)
  show "list_all (\<lambda>(n, d, s). \<exists>es. walk (labelled g p) object start es n \<and> length es = d \<and> walk_strength es = s)
      (graph_bfs g start p m)"
    using inv by (fastforce simp: bfs_inv_def entry_ok_def list_all_iff)
qed

text \<open>
  The path search finds exactly the simple paths between two nodes that have at most the maximal
  number of edges.
\<close>

theorem graph_path_exact:
  "ns \<in> set (graph_path g a b m) \<longleftrightarrow>
     ns \<noteq> [] \<and> hd ns = a \<and> last ns = b \<and> distinct ns \<and> chain g ns \<and> length ns \<le> Suc m"
proof -
  have "ns \<in> set (graph_path g a b m) \<longleftrightarrow> (\<exists>ms. ns = [a] @ ms \<and> goes_on g b m a {a} 0 ms)"
    unfolding graph_path_def by (rule graph_dfs_paths) simp_all
  also have "\<dots> \<longleftrightarrow> ns \<noteq> [] \<and> hd ns = a \<and> last ns = b \<and> distinct ns \<and> chain g ns \<and> length ns \<le> Suc m"
    by (cases ns) (auto simp: goes_on_def)
  finally show ?thesis .
qed

subsection \<open>The causal DAG index\<close>

text \<open>Sample edges for the witnesses.\<close>

definition sample_cause :: "nat \<Rightarrow> nat \<Rightarrow> f32 \<Rightarrow> causal_edge" where
  "sample_cause a b s =
     \<lparr>source_id = [word_of_nat a], target_id = [word_of_nat b], relation = Caused, strength = s, mechanism = None,
      ce_origin = UserDeclared, ce_confidence = f32_one, stability_score = None,
      ce_stability_status = Stable, ce_direction_status = Confirmed, discovery_algo = None\<rparr>"

lemma sample_cause_sel [simp]:
  "source_id (sample_cause a b s) = [word_of_nat a]" "target_id (sample_cause a b s) = [word_of_nat b]"
  "strength (sample_cause a b s) = s"
  by (simp_all add: sample_cause_def)

text \<open>
  C14: However edges are offered and closures materialized, the causal graph has no cycle, all strengths
  lie between zero and one, and the two directions of the index hold the same edges.
\<close>

theorem dag_stays_acyclic:
  "acyclic (causal_rel (dag_run ops dag_new)) \<and>
   list_all (\<lambda>e. valid_strength (strength e) \<and> source_id e = n) (adj_get (dag_adjacency (dag_run ops dag_new)) n) \<and>
   (e \<in> set (adj_get (dag_adjacency (dag_run ops dag_new)) (source_id e)) \<longleftrightarrow>
    e \<in> set (adj_get (dag_reverse (dag_run ops dag_new)) (target_id e)))"
proof -
  have inv: "dag_inv (dag_run ops dag_new)" by (rule dag_inv_run [OF dag_inv_new])
  then obtain es where es: "dag.represents (dag_run ops dag_new) es" "\<forall>e\<in>set es. valid_strength (strength e)"
    by (auto simp: dag_inv_def)
  have "list_all (\<lambda>e. valid_strength (strength e) \<and> source_id e = n) (adj_get (dag_adjacency (dag_run ops dag_new)) n)"
    using es by (auto simp: dag.represents_def list_all_iff)
  with inv dag.mirrored [OF es(1)] show ?thesis by (simp add: dag_inv_def)
qed

text \<open>
  An insertion always returns. It is refused for a strength outside the unit interval, and else
  exactly when the edge would close a cycle; an accepted edge is one more edge of the graph.
\<close>

theorem dag_insert_decides:
  "let d = dag_run ops dag_new in
     dag_insert_edge e d = Some
       (if \<not> valid_strength (strength e) then Inl InvalidStrength
        else if acyclic (insert (source_id e, target_id e) (causal_rel d)) then Inr (dag_file e d)
        else Inl (Cycle (target_id e))) \<and>
     causal_rel (dag_file e d) = insert (source_id e, target_id e) (causal_rel d) \<and>
     dag_len (dag_file e d) = Suc (dag_len d)"
proof -
  have inv: "dag_inv (dag_run ops dag_new)" by (rule dag_inv_run [OF dag_inv_new])
  then have wf: "dag_wf (dag_run ops dag_new)" by (auto simp: dag_inv_def dag.represents_def)
  show ?thesis
    using inv causal_rel_file [OF wf, of e] dag.count_insert [OF wf, of e]
    by (auto simp: Let_def dag_insert_edge_eq walk_rtrancl acyclic_insert dag_inv_def)
qed

text \<open>
  C16: While no closure of a pair of nodes is cached, the paths from the one to the other are exactly the
  simple paths of at least one and at most the maximal number of edges whose strength never falls below
  the minimum; each is listed with its nodes, its edges and the product of the strengths. Once a closure
  of the pair is cached, the answer is that of the cache, cut at the minimal strength only.
\<close>

theorem dag_paths_exact:
  "p \<in> set (dag_paths d a b m lo) \<longleftrightarrow>
    (case bt_get (closure_cache d) (a, b) of
       None \<Rightarrow>
         \<exists>es. p = \<lparr>cp_nodes = a # map target_id es, cp_edges = es, total_strength = path_strength f32_one es\<rparr> \<and>
           es \<noteq> [] \<and> length es \<le> m \<and> dwalk (dag_adjacency d) a es b \<and> distinct (a # map target_id es) \<and>
           stays_strong lo f32_one es
     | Some cached \<Rightarrow> p \<in> set cached \<and> f32_le lo (total_strength p))"
proof (cases "bt_get (closure_cache d) (a, b)")
  case None
  then show ?thesis
    using dfs_paths_correct [of a "[a]" 0 m p "dag_adjacency d" b lo "[]" f32_one]
    by (auto simp: dag_paths_def search_paths_def continues_def)
next
  case (Some cached)
  then show ?thesis by (auto simp: dag_paths_def)
qed

theorem dag_paths_exact_witness:
  "\<lparr>cp_nodes = [[0], [1]], cp_edges = [sample_cause 0 1 f32_half], total_strength = f32_half\<rparr>
     \<in> set (dag_paths (dag_file (sample_cause 0 1 f32_half) dag_new) [0] [1] 3 f32_half)"
proof -
  let ?e = "sample_cause 0 1 f32_half" and ?d = "dag_file (sample_cause 0 1 f32_half) dag_new"
  have none: "bt_get (closure_cache ?d) ([0], [1]) = None" by (simp add: dag_file_def dag_new_def)
  have "dwalk (dag_adjacency ?d) [0] [?e] [1]" by (simp add: dag_file_def dag_new_def adj_get_push)
  then show ?thesis
    unfolding dag_paths_exact none option.case
    by (intro exI [of _ "[?e]"]) (simp_all add: path_strength_def)
qed

text \<open>
  A cached closure is never refreshed. Once the paths between two nodes are materialized, every later
  query returns the paths of that moment, of up to ten edges: edges inserted since are not seen and
  the maximal depth of the query is ignored.
\<close>

theorem dag_cache_stale:
  assumes "Materialize a b \<notin> set ops"
  shows "dag_paths (dag_run ops (materialize_closure a b d)) a b m lo =
    filter (\<lambda>p. f32_le lo (total_strength p)) (search_paths d a b 10 f32_zero)"
proof -
  have "bt_get (closure_cache (dag_run ops d')) (a, b) = bt_get (closure_cache d') (a, b)" for d'
    using assms unfolding dag_run_def
  proof (induction ops arbitrary: d')
    case (Cons op ops)
    have "bt_get (closure_cache (dag_apply op d')) (a, b) = bt_get (closure_cache d') (a, b)"
      using Cons.prems
      by (cases op) (auto simp: dag_insert_edge_eq dag_file_def materialize_closure_def bt_get_insert)
    with Cons show ?case by simp
  qed simp
  then show ?thesis by (simp add: dag_paths_def materialize_closure_def bt_get_insert)
qed

theorem dag_cache_stale_witness:
  "dag_paths (dag_run [InsertEdge (sample_cause 0 1 f32_one)] (materialize_closure [0] [1] dag_new)) [0] [1] 5 f32_zero = []"
  by (subst dag_cache_stale) (simp_all add: search_paths_def dfs_paths.simps dag_new_def)

subsection \<open>Effects\<close>

text \<open>
  What the traversal keeps: an entry of the stack is a walk with its depth and strength; a node has an
  entry in \<open>best\<close> only when a walk of at most the maximal depth leads to it, whose strength is the
  entry unless no product compared above \<open>- \<infinity>\<close>.
\<close>

definition hop :: "bool \<Rightarrow> causal_edge \<Rightarrow> uuid" where
  "hop forward e = (if forward then target_id e else source_id e)"

definition stacked ::
  "(uuid, causal_edge) adjacency \<Rightarrow> bool \<Rightarrow> uuid \<Rightarrow> uuid \<times> nat \<times> f32 \<Rightarrow> bool" where
  "stacked adj forward start x \<longleftrightarrow>
     (\<exists>es. walk (adj_get adj) (hop forward) start es (fst x) \<and> length es = fst (snd x) \<and>
       path_strength f32_one es = snd (snd x))"

definition reported ::
  "(uuid, causal_edge) adjacency \<Rightarrow> bool \<Rightarrow> uuid \<Rightarrow> nat \<Rightarrow> uuid \<times> f32 \<Rightarrow> bool" where
  "reported adj forward start m x \<longleftrightarrow>
     (\<exists>es. walk (adj_get adj) (hop forward) start es (fst x) \<and> es \<noteq> [] \<and> length es \<le> m \<and>
       (path_strength f32_one es = snd x \<or> snd x = f32_neg_infinity))"

lemma path_strength_snoc: "path_strength str (es @ [e]) = f32_mul (path_strength str es) (strength e)"
  by (simp add: path_strength_def)

lemma set_bt_insert: "set (bt_insert k v t) \<subseteq> insert (k, v) (set t)"
  by (induction k v t rule: bt_insert.induct) auto

definition traversal_ok ::
  "(uuid, causal_edge) adjacency \<Rightarrow> bool \<Rightarrow> uuid \<Rightarrow> nat \<Rightarrow> reach_state \<Rightarrow> bool" where
  "traversal_ok adj forward start m st \<longleftrightarrow>
     (\<forall>x\<in>set (fst st). reported adj forward start m x) \<and> (\<forall>x\<in>set (snd st). stacked adj forward start x)"

lemma relax_ok:
  assumes ok: "traversal_ok adj forward start m st" and e: "e \<in> set (adj_get adj n)"
    and n: "stacked adj forward start (n, k, str)" and k: "k < m"
  shows "traversal_ok adj forward start m (relax forward k str e st)"
proof -
  obtain es where es: "walk (adj_get adj) (hop forward) start es n" "length es = k" "path_strength f32_one es = str"
    using n by (auto simp: stacked_def)
  with e have w: "walk (adj_get adj) (hop forward) start (es @ [e]) (hop forward e)"
    and st: "path_strength f32_one (es @ [e]) = f32_mul str (strength e)"
    by (auto simp: walk_snoc path_strength_snoc)
  have "stacked adj forward start (hop forward e, k + 1, f32_mul str (strength e))"
    unfolding stacked_def using w st es(2) by (intro exI [of _ "es @ [e]"]) simp
  moreover have "reported adj forward start m (hop forward e, f32_mul str (strength e))"
    "reported adj forward start m (hop forward e, f32_neg_infinity)"
    unfolding reported_def using w st es(2) k by (auto intro!: exI [of _ "es @ [e]"])
  moreover have "reported adj forward start m (hop forward e, x)" if "bt_get (fst st) (hop forward e) = Some x" for x
    using ok that unfolding traversal_ok_def bt_get_def by (metis map_of_SomeD)
  ultimately show ?thesis
    using ok unfolding traversal_ok_def relax_def Let_def hop_def [symmetric]
    by (auto dest!: subsetD [OF set_bt_insert] split: option.splits)
qed

lemma relax_all_ok:
  assumes "traversal_ok adj forward start m st" and "set es \<subseteq> set (adj_get adj n)"
    and "stacked adj forward start (n, k, str)" and "k < m"
  shows "traversal_ok adj forward start m (fold (relax forward k str) es st)"
  using assms(1,2)
proof (induction es arbitrary: st)
  case (Cons e es)
  then have "traversal_ok adj forward start m (relax forward k str e st)"
    using relax_ok [OF _ _ assms(3,4)] by simp
  with Cons show ?case by simp
qed simp

lemma traverse_loop_ok:
  "traversal_ok adj forward start m (best, stack) \<Longrightarrow>
     \<forall>x\<in>set (traverse_loop adj forward m best stack). reported adj forward start m x"
proof (induction adj forward m best stack rule: traverse_loop.induct)
  case (2 adj forward m best n k str stack)
  have rest: "traversal_ok adj forward start m (best, stack)" and n: "stacked adj forward start (n, k, str)"
    using "2.prems" by (simp_all add: traversal_ok_def)
  show ?case
  proof (cases "m \<le> k")
    case True
    with "2.IH"(1) rest show ?thesis by simp
  next
    case False
    then have "traversal_ok adj forward start m (fold (relax forward k str) (adj_get adj n) (best, stack))"
      using relax_all_ok [OF rest _ n] by simp
    with False "2.IH"(2) show ?thesis by simp
  qed
qed (simp add: traversal_ok_def)

text \<open>
  What \<open>effects\<close> and \<open>causes\<close> list can be reached: along the edges, or against them, in at least one
  and at most \<open>max_depth\<close> steps, with the listed strength as the product along such a walk.
\<close>

theorem effects_sound:
  "list_all (reported (dag_adjacency d) True n m) (dag_effects d n m) \<and>
   list_all (reported (dag_reverse d) False n m) (dag_causes d n m)"
proof -
  have "traversal_ok adj forward n m ([], [(n, 0, f32_one)])" for adj forward
    unfolding traversal_ok_def stacked_def by (auto intro!: exI [of _ "[]"])
  then show ?thesis
    using traverse_loop_ok unfolding list_all_iff dag_effects_def dag_causes_def traverse_reachable_def by blast
qed

text \<open>
  The converse fails: a node that is first reached by a longer but stronger walk is not expanded again
  from a shorter one. Here node 5 is three steps from node 0, and \<open>effects\<close> with depth three omits it.
\<close>

definition detour :: dag_index where
  "detour = dag_run (map InsertEdge
     [sample_cause 0 1 f32_one, sample_cause 0 3 f32_one, sample_cause 1 2 f32_half, sample_cause 3 4 f32_one,
      sample_cause 4 2 f32_one, sample_cause 2 5 f32_one]) dag_new"

lemma valid_samples [simp]: "valid_strength f32_one" "valid_strength f32_half"
  by (simp_all add: valid_strength_def)

lemma can_reach_numeral:
  "can_reach (numeral k) adj goal visited from =
     (if from = goal then Some (True, visited)
      else if from \<in> visited then Some (False, visited)
      else can_reach_any (pred_numeral k) adj goal (insert from visited) (adj_get adj from))"
  by (simp add: numeral_eq_Suc)

lemma detour_adjacency:
  "dag_adjacency detour =
     [([0], [sample_cause 0 1 f32_one, sample_cause 0 3 f32_one]), ([1], [sample_cause 1 2 f32_half]),
      ([2], [sample_cause 2 5 f32_one]), ([3], [sample_cause 3 4 f32_one]), ([4], [sample_cause 4 2 f32_one])]"
  by (simp add: detour_def dag_run_def dag_insert_edge_def reach_fuel_def dag_file_def dag_new_def
      adj_push_def adj_get_def bt_get_def can_reach_numeral)

lemma neg_infinity_less [simp]: "f32_lt f32_neg_infinity f32_one" "f32_lt f32_neg_infinity f32_half"
  by (simp_all add: f32_eval f32_one_def f32_half_def f32_neg_infinity_def)

lemma detour_effects: "dag_effects detour [0] 3 =
    [([1], f32_one), ([2], f32_one), ([3], f32_one), ([4], f32_one)]"
  unfolding dag_effects_def traverse_reachable_def detour_adjacency
  by (simp add: adj_get_def bt_get_def relax_def Let_def)

theorem effects_incomplete:
  "dwalk (dag_adjacency detour) [0] [sample_cause 0 1 f32_one, sample_cause 1 2 f32_half, sample_cause 2 5 f32_one] [5] \<and>
   [5] \<notin> fst ` set (dag_effects detour [0] 3)"
  by (simp add: detour_adjacency detour_effects adj_get_def bt_get_def)

end
