(* ===== verification/Dist_Query.thy ===== *)
theory Dist_Query
  imports Sharding Sorting Record_Types
begin

text \<open>
  The scatter/gather coordinator, \<open>crates/fundb-cluster/src/dist_query.rs\<close>, with the in-process shard
  executor. Shards answer in windows of \<open>max_concurrent_shards\<close>; a window size of zero panics
  (\<open>None\<close>). Which shards miss their deadline is the argument \<open>late\<close>, clock readings are arguments. Sums
  of floats start from \<open>0.0\<close>.
\<close>

record dist_config =
  oversample_factor :: nat
  timeout_ms :: nat
  max_concurrent_shards :: nat

definition dist_config_default :: dist_config where
  "dist_config_default = \<lparr>oversample_factor = 3, timeout_ms = 5000, max_concurrent_shards = 16\<rparr>"

datatype dist_error = ShardTimeout shard_id | ShardFailed shard_id string | NoShards | MergeError string

fun dist_error_text :: "dist_error \<Rightarrow> string" where
  "dist_error_text (ShardTimeout i) =
     ''shard '' @ dec_digits i @ '' timed out. Check shard health and network connectivity between nodes''"
| "dist_error_text (ShardFailed i reason) = ''shard '' @ dec_digits i @ '' failed: '' @ reason"
| "dist_error_text NoShards =
     ''no shards found for the requested collection. The collection may not exist or the cluster has no available nodes''"
| "dist_error_text (MergeError msg) = ''failed to merge results from shards: '' @ msg"

datatype agg_op = AggCount | AggSum | AggAvg | AggMin | AggMax

datatype dist_query =
    DistScan (scan_filter: "string option") (scan_limit: "nat option")
  | DistVectorScan (query_vector: "f32 list") (vs_top_k: nat) (index_name: string)
  | DistPointLookup (record_id: uuid)
  | DistAggregate (agg: agg_op) (agg_field: string) (agg_filter: "string option")

record shard_record =
  sr_id :: uuid
  sr_confidence :: f64
  sr_score :: f32
  sr_payload :: bytes

record shard_result =
  res_shard :: shard_id
  res_node :: shard_node
  res_records :: "shard_record list"
  partial_count :: "u64 option"
  partial_sum :: "f64 option"
  elapsed_ms :: nat

record merged_result =
  mr_records :: "shard_record list"
  total_count :: "u64 option"
  aggregate_value :: "f64 option"
  shards_queried :: nat
  shards_failed :: nat
  total_elapsed_ms :: nat

subsection \<open>The in-process executor\<close>

type_synonym mock_executor = "(shard_id, shard_record list) btree_map"

definition seed_shard :: "shard_id \<Rightarrow> shard_record list \<Rightarrow> mock_executor \<Rightarrow> mock_executor" where
  "seed_shard shard rs m = bt_insert shard rs m"

definition shard_data :: "mock_executor \<Rightarrow> shard_id \<Rightarrow> shard_record list" where
  "shard_data m shard = (case bt_get m shard of None \<Rightarrow> [] | Some rs \<Rightarrow> rs)"

definition truncate_opt :: "nat option \<Rightarrow> 'a list \<Rightarrow> 'a list" where
  "truncate_opt limit xs = (case limit of None \<Rightarrow> xs | Some n \<Rightarrow> take n xs)"

text \<open>\<open>1e-9\<close> and \<open>255.0\<close> as f32.\<close>

definition f32_1e_9 :: f32 where
  "f32_1e_9 = 0x3089705F"

definition f32_255 :: f32 where
  "f32_255 = int_as_f32 255"

definition query_magnitude :: "f32 list \<Rightarrow> f32" where
  "query_magnitude v = f32_max (f32_sqrt (f32_sum (map (\<lambda>x. f32_mul x x) v))) f32_1e_9"

definition score_record :: "f32 \<Rightarrow> shard_record \<Rightarrow> shard_record" where
  "score_record q_mag r =
     r\<lparr>sr_score := f32_div (f32_sum (map (\<lambda>b. f32_div (int_as_f32 (uint b)) f32_255) (take 4 (sr_payload r)))) q_mag\<rparr>"

definition by_score :: "shard_record list \<Rightarrow> shard_record list" where
  "by_score = sort_by (\<lambda>a b. desc_f32 (sr_score a) (sr_score b))"

definition by_confidence :: "shard_record list \<Rightarrow> shard_record list" where
  "by_confidence = sort_by (\<lambda>a b. desc_f64 (sr_confidence a) (sr_confidence b))"

text \<open>The minimum and maximum of floats, with 0 for none.\<close>

definition finite_or_zero :: "f64 \<Rightarrow> f64" where
  "finite_or_zero x = (if f64_is_infinite x then 0 else x)"

definition min_of :: "f64 list \<Rightarrow> f64" where
  "min_of xs = finite_or_zero (foldl f64_min (f64_infinity False) xs)"

definition max_of :: "f64 list \<Rightarrow> f64" where
  "max_of xs = finite_or_zero (foldl f64_max (f64_infinity True) xs)"

fun partials :: "agg_op \<Rightarrow> shard_record list \<Rightarrow> u64 option \<times> f64 option" where
  "partials AggCount rs = (Some (word_of_nat (length rs)), None)"
| "partials AggSum rs = (None, Some (f64_sum (map sr_confidence rs)))"
| "partials AggAvg rs = (Some (word_of_nat (length rs)), Some (f64_sum (map sr_confidence rs)))"
| "partials AggMin rs = (None, Some (min_of (map sr_confidence rs)))"
| "partials AggMax rs = (None, Some (max_of (map sr_confidence rs)))"

fun shard_answer :: "dist_query \<Rightarrow> shard_record list \<Rightarrow> shard_record list \<times> u64 option \<times> f64 option" where
  "shard_answer (DistScan _ limit) rs = (truncate_opt limit rs, None, None)"
| "shard_answer (DistVectorScan v top_k _) rs =
     (take top_k (by_score (map (score_record (query_magnitude v)) rs)), None, None)"
| "shard_answer (DistPointLookup i) rs = (filter (\<lambda>r. sr_id r = i) rs, None, None)"
| "shard_answer (DistAggregate op _ _) rs = ([], partials op rs)"

definition mock_execute :: "(shard_id \<Rightarrow> nat) \<Rightarrow> mock_executor \<Rightarrow> shard_id \<Rightarrow> dist_query \<Rightarrow> shard_result" where
  "mock_execute elapsed m shard q =
     (let (rs, c, s) = shard_answer q (shard_data m shard)
      in \<lparr>res_shard = shard, res_node = shard, res_records = rs, partial_count = c, partial_sum = s,
          elapsed_ms = elapsed shard\<rparr>)"

subsection \<open>Scatter\<close>

record coordinator =
  co_map :: shard_map
  co_config :: dist_config
  co_mock :: "mock_executor option"

definition execute_on_shard ::
  "(shard_id \<Rightarrow> nat) \<Rightarrow> mock_executor option \<Rightarrow> dist_query \<Rightarrow> shard_id \<Rightarrow> dist_error + shard_result" where
  "execute_on_shard elapsed mock q shard =
     (case mock of
        Some m \<Rightarrow> Inr (mock_execute elapsed m shard q)
      | None \<Rightarrow> Inl (ShardFailed shard ''real network RPC not yet implemented''))"

function chunks :: "nat \<Rightarrow> 'a list \<Rightarrow> 'a list list" where
  "chunks n xs = (if n = 0 \<or> xs = [] then [] else take n xs # chunks n (drop n xs))"
  by pat_completeness auto

termination chunks
  by (relation "measure (\<lambda>(n, xs). length xs)") auto

declare chunks.simps [simp del]

definition scatter ::
  "(shard_id \<Rightarrow> bool) \<Rightarrow> (shard_id \<Rightarrow> nat) \<Rightarrow> coordinator \<Rightarrow> shard_id list \<Rightarrow> dist_query \<Rightarrow>
     (dist_error + shard_result) list option" where
  "scatter late elapsed co shards q =
     (if max_concurrent_shards (co_config co) = 0 then None
      else Some (concat (map
        (map (\<lambda>shard. if late shard then Inl (ShardTimeout shard)
                      else execute_on_shard elapsed (co_mock co) q shard))
        (chunks (max_concurrent_shards (co_config co)) shards))))"

subsection \<open>Gather and merge\<close>

definition confidence_floor :: "shard_result \<Rightarrow> f64" where
  "confidence_floor _ = f64_one"

definition floored :: "shard_result \<Rightarrow> shard_record list" where
  "floored sr = map (\<lambda>r. r\<lparr>sr_confidence := f64_min (sr_confidence r) (confidence_floor sr)\<rparr>) (res_records sr)"

definition merged :: "nat \<Rightarrow> nat \<Rightarrow> shard_record list \<Rightarrow> u64 option \<Rightarrow> f64 option \<Rightarrow> merged_result" where
  "merged queried failures rs c v =
     \<lparr>mr_records = rs, total_count = c, aggregate_value = v, shards_queried = queried,
      shards_failed = failures, total_elapsed_ms = 0\<rparr>"

definition counts :: "shard_result list \<Rightarrow> u64" where
  "counts srs = sum_list (List.map_filter partial_count srs)"

definition sums :: "shard_result list \<Rightarrow> f64 list" where
  "sums srs = List.map_filter partial_sum srs"

fun merge_aggregate :: "agg_op \<Rightarrow> shard_result list \<Rightarrow> u64 option \<times> f64 option" where
  "merge_aggregate AggCount srs = (Some (counts srs), None)"
| "merge_aggregate AggSum srs = (None, Some (f64_sum (sums srs)))"
| "merge_aggregate AggAvg srs =
     (None, Some (if counts srs = 0 then 0 else f64_div (f64_sum (sums srs)) (int_as_f64 (uint (counts srs)))))"
| "merge_aggregate AggMin srs = (None, Some (min_of (sums srs)))"
| "merge_aggregate AggMax srs = (None, Some (max_of (sums srs)))"

fun merge_results :: "dist_query \<Rightarrow> shard_result list \<Rightarrow> nat \<Rightarrow> merged_result" where
  "merge_results (DistScan _ limit) srs failures =
     merged (length srs + failures) failures
       (truncate_opt limit (by_confidence (concat (map floored srs)))) None None"
| "merge_results (DistVectorScan _ top_k _) srs failures =
     merged (length srs + failures) failures (take top_k (by_score (concat (map floored srs)))) None None"
| "merge_results (DistPointLookup _) srs failures =
     merged (length srs + failures) failures (take 1 (concat (map res_records srs))) None None"
| "merge_results (DistAggregate op _ _) srs failures =
     (let (c, v) = merge_aggregate op srs in merged (length srs + failures) failures [] c v)"

subsection \<open>Execution\<close>

definition u64_from_le :: "bytes \<Rightarrow> u64" where
  "u64_from_le bs = foldr (\<lambda>b acc. acc * 256 + ucast b) bs 0"

definition route_write :: "coordinator \<Rightarrow> string \<Rightarrow> uuid \<Rightarrow> shard_id" where
  "route_write co collection i =
     (let shards = shards_for_collection (co_map co) collection
      in if shards = [] then 0
         else
           let uuid_hash = u64_from_le (take 8 i) XOR u64_from_le (take 8 (drop 8 i));
               combined = uuid_hash XOR fnv1a_64 (as_bytes collection)
           in shards ! (unat combined mod length shards))"

fun scattered :: "dist_config \<Rightarrow> dist_query \<Rightarrow> dist_query" where
  "scattered cfg (DistVectorScan v top_k ix) =
     DistVectorScan v (min (top_k * oversample_factor cfg) u64_max) ix"
| "scattered cfg q = q"

fun target_shards :: "coordinator \<Rightarrow> string \<Rightarrow> dist_query \<Rightarrow> shard_id list \<Rightarrow> shard_id list" where
  "target_shards co collection (DistPointLookup i) shards = [route_write co collection i]"
| "target_shards co collection q shards = shards"

definition successes :: "(dist_error + shard_result) list \<Rightarrow> shard_result list" where
  "successes os = List.map_filter (\<lambda>x. case x of Inr r \<Rightarrow> Some r | Inl _ \<Rightarrow> None) os"

definition dist_execute ::
  "(shard_id \<Rightarrow> bool) \<Rightarrow> (shard_id \<Rightarrow> nat) \<Rightarrow> nat \<Rightarrow> coordinator \<Rightarrow> string \<Rightarrow> dist_query \<Rightarrow>
     (dist_error + merged_result) option" where
  "dist_execute late elapsed ms co collection q =
     (let shards = shards_for_collection (co_map co) collection
      in if shards = [] then Some (Inl NoShards)
         else case scatter late elapsed co (target_shards co collection q shards) (scattered (co_config co) q) of
                None \<Rightarrow> None
              | Some outcomes \<Rightarrow>
                  let ok = successes outcomes
                  in Some (Inr ((merge_results q ok (length outcomes - length ok))\<lparr>total_elapsed_ms := ms\<rparr>)))"

end
