(* ===== verification/Dist_Properties.thy ===== *)
theory Dist_Properties
  imports Dist_Query Ieee_Facts
begin

text \<open>
  The properties of distributed queries: how the parts of the coordinator compose when shards answer
  and when they fail, and what each kind of query returns.
\<close>

subsection \<open>Scatter and gather\<close>

lemma concat_chunks: "0 < n \<Longrightarrow> concat (chunks n xs) = xs"
proof (induction n xs rule: chunks.induct)
  case (1 n xs)
  then show ?case by (cases "xs = []") (simp_all add: chunks.simps [of n xs] chunks.simps [of n "[]"])
qed

lemma scatter_map:
  "0 < max_concurrent_shards (co_config co) \<Longrightarrow> scatter late elapsed co shards q = Some
     (map (\<lambda>shard. if late shard then Inl (ShardTimeout shard) else execute_on_shard elapsed (co_mock co) q shard) shards)"
  by (simp add: scatter_def map_concat [symmetric] concat_chunks)

lemma successes_simps [simp]:
  "successes [] = []" "successes (Inl e # os) = successes os" "successes (Inr r # os) = r # successes os"
  by (simp_all add: successes_def List.map_filter_simps)

text \<open>The shards that answer in time are those that contribute to the result.\<close>

lemma successes_mock:
  "successes (map (\<lambda>s. if late s then Inl (ShardTimeout s) else execute_on_shard elapsed (Some m) q s) shards) =
     map (\<lambda>s. mock_execute elapsed m s q) (filter (\<lambda>s. \<not> late s) shards)"
  by (induction shards) (simp_all add: execute_on_shard_def)

lemma successes_none:
  "successes (map (\<lambda>s. if late s then Inl (ShardTimeout s) else execute_on_shard elapsed None q s) shards) = []"
  by (induction shards) (simp_all add: execute_on_shard_def)

text \<open>A coordinator over the in-process executor that can run queries on a collection.\<close>

definition ready :: "coordinator \<Rightarrow> mock_executor \<Rightarrow> string \<Rightarrow> shard_id list \<Rightarrow> bool" where
  "ready co m collection shards \<longleftrightarrow>
     0 < max_concurrent_shards (co_config co) \<and> co_mock co = Some m \<and>
     shards_for_collection (co_map co) collection = shards \<and> shards \<noteq> []"

lemma dist_execute_ready:
  assumes "ready co m collection shards"
  shows "dist_execute late elapsed ms co collection q =
    (let targets = target_shards co collection q shards; answering = filter (\<lambda>s. \<not> late s) targets in
     Some (Inr ((merge_results q (map (\<lambda>s. mock_execute elapsed m s (scattered (co_config co) q)) answering)
       (length targets - length answering))\<lparr>total_elapsed_ms := ms\<rparr>)))"
proof -
  from assms have "co_mock co = Some m" by (simp add: ready_def)
  note mock = successes_mock [of late elapsed m, folded this]
  from assms show ?thesis by (simp add: dist_execute_def ready_def scatter_map mock Let_def)
qed

subsection \<open>Vector search\<close>

definition capped :: "shard_record \<Rightarrow> shard_record" where
  "capped r = r\<lparr>sr_confidence := f64_min (sr_confidence r) f64_one\<rparr>"

lemma floored_mock: "floored (mock_execute elapsed m s q) = map capped (fst (shard_answer q (shard_data m s)))"
  by (simp add: floored_def mock_execute_def capped_def confidence_floor_def split_beta)

lemma by_score_capped: "by_score (map capped rs) = map capped (by_score rs)"
  unfolding by_score_def using map_sort_by [of capped "\<lambda>a b. desc_f32 (sr_score a) (sr_score b)" rs]
  by (simp add: capped_def)

lemma set_by_score [simp]: "set (by_score rs) = set rs"
  by (simp add: by_score_def)

definition scores_ok :: "shard_record list \<Rightarrow> bool" where
  "scores_ok rs \<longleftrightarrow> (\<forall>r\<in>set rs. \<not> f32_is_nan (sr_score r))"

lemma by_score_key: "scores_ok rs \<Longrightarrow> by_score rs = sort_key (\<lambda>r. - f32_key (sr_score r)) rs"
  unfolding by_score_def scores_ok_def by (rule sort_desc_f32)

lemma take_by_score_parts:
  assumes "\<forall>rs\<in>set rss. scores_ok rs" and "n \<le> m"
  shows "take n (by_score (concat (map (\<lambda>rs. take m (by_score rs)) rss))) = take n (by_score (concat rss))"
proof -
  have parts: "map (\<lambda>rs. take m (by_score rs)) rss = map (\<lambda>rs. take m (sort_key (\<lambda>r. - f32_key (sr_score r)) rs)) rss"
    using assms(1) by (simp add: by_score_key)
  have "scores_ok (concat rss)" "scores_ok (concat (map (\<lambda>rs. take m (by_score rs)) rss))"
    using assms(1) by (auto simp: scores_ok_def dest: in_set_takeD)
  then show ?thesis
    unfolding by_score_key [OF \<open>scores_ok (concat rss)\<close>] parts
    using by_score_key [of "concat (map (\<lambda>rs. take m (by_score rs)) rss)"]
    by (simp add: parts take_sort_concat [OF assms(2)])
qed

text \<open>
  C17: A distributed vector search is the search over all records. When every shard answers and returns at
  least \<open>top_k\<close> candidates, the merged result is the best \<open>top_k\<close> records of the whole collection, in
  the order of their scores, as if they had been ranked in one place; confidences are cut at one.
\<close>

theorem dist_vector_top_k:
  assumes ready: "ready co m collection shards" and all: "\<forall>s\<in>set shards. \<not> late s"
    and over: "0 < oversample_factor (co_config co)" and k: "k \<le> u64_max"
    and scores: "\<forall>s\<in>set shards. scores_ok (map (score_record (query_magnitude v)) (shard_data m s))"
  shows "dist_execute late elapsed ms co collection (DistVectorScan v k ix) = Some (Inr
     \<lparr>mr_records = map capped (take k (by_score (map (score_record (query_magnitude v))
        (concat (map (shard_data m) shards))))),
      total_count = None, aggregate_value = None, shards_queried = length shards, shards_failed = 0,
      total_elapsed_ms = ms\<rparr>)"
proof -
  define n where "n = min (k * oversample_factor (co_config co)) u64_max"
  have kn: "k \<le> n" using over k by (cases "oversample_factor (co_config co)") (simp_all add: n_def)
  let ?scored = "\<lambda>s. map (score_record (query_magnitude v)) (shard_data m s)"
  have "take k (by_score (concat (map (\<lambda>s. map capped (take n (by_score (?scored s)))) shards))) =
      map capped (take k (by_score (concat (map (\<lambda>s. take n (by_score (?scored s))) shards))))"
    using by_score_capped [of "concat (map (\<lambda>s. take n (by_score (?scored s))) shards)"]
    by (simp add: map_concat comp_def take_map)
  also have "take k (by_score (concat (map (\<lambda>s. take n (by_score (?scored s))) shards))) =
      take k (by_score (concat (map ?scored shards)))"
    using take_by_score_parts [of "map ?scored shards" k n] scores kn by (simp add: comp_def)
  finally have "take k (by_score (concat (map (\<lambda>s. map capped (take n (by_score (?scored s)))) shards))) =
      map capped (take k (by_score (map (score_record (query_magnitude v)) (concat (map (shard_data m) shards)))))"
    by (simp add: map_concat comp_def)
  moreover have "filter (\<lambda>s. \<not> late s) shards = shards" using all by (simp add: filter_id_conv)
  ultimately show ?thesis
    using dist_execute_ready [OF ready, of late elapsed ms "DistVectorScan v k ix"]
    by (simp add: Let_def comp_def floored_mock merged_def n_def)
qed

subsection \<open>Scans\<close>

text \<open>
  A scan without limit returns every record of the shards that answer exactly once, with its confidence
  cut at one, in the order of descending confidence; the shards that do not answer are only counted.
\<close>

theorem dist_scan_complete:
  assumes "ready co m collection shards"
    and "\<forall>s\<in>set shards. \<forall>r\<in>set (shard_data m s). \<not> f64_is_nan (f64_min (sr_confidence r) f64_one)"
  shows "\<exists>res. dist_execute late elapsed ms co collection (DistScan flt None) = Some (Inr res) \<and>
    mset (mr_records res) = mset (map capped (concat (map (shard_data m) (filter (\<lambda>s. \<not> late s) shards)))) \<and>
    sorted_wrt (\<lambda>a b. \<not> f64_lt (sr_confidence a) (sr_confidence b)) (mr_records res) \<and>
    shards_failed res + length (filter (\<lambda>s. \<not> late s) shards) = shards_queried res \<and>
    shards_queried res = length shards"
proof -
  let ?ss = "filter (\<lambda>s. \<not> late s) shards"
  let ?rs = "map capped (concat (map (shard_data m) ?ss))"
  have "concat (map floored (map (\<lambda>s. mock_execute elapsed m s (DistScan flt None)) ?ss)) = ?rs"
    by (simp add: comp_def floored_mock truncate_opt_def map_concat)
  then have ex: "dist_execute late elapsed ms co collection (DistScan flt None) = Some (Inr
      ((merged (length ?ss + (length shards - length ?ss)) (length shards - length ?ss) (by_confidence ?rs) None None)
        \<lparr>total_elapsed_ms := ms\<rparr>))"
    using dist_execute_ready [OF assms(1), of late elapsed ms "DistScan flt None"]
    by (simp add: Let_def truncate_opt_def)
  have "\<forall>r\<in>set ?rs. \<not> f64_is_nan (sr_confidence r)" using assms(2) by (auto simp: capped_def)
  then have "sorted_wrt (\<lambda>a b. desc_f64 (sr_confidence a) (sr_confidence b) \<noteq> OGreater) (by_confidence ?rs)"
    unfolding by_confidence_def by (rule score64.sorted_sort_by)
  then have "sorted_wrt (\<lambda>a b. \<not> f64_lt (sr_confidence a) (sr_confidence b)) (by_confidence ?rs)"
    by (rule sorted_wrt_mono_rel [rotated]) (auto simp: desc_f64_def f64_lt_def fp_lt_def split: if_splits)
  moreover have "mset (by_confidence ?rs) = mset ?rs" by (simp add: by_confidence_def)
  ultimately show ?thesis unfolding ex by (simp add: merged_def)
qed

subsection \<open>Aggregates\<close>

lemma counts_mock:
  "counts (map (\<lambda>s. mock_execute elapsed m s (DistAggregate AggCount f flt)) ss) =
     word_of_nat (length (concat (map (shard_data m) ss)))"
  by (induction ss) (simp_all add: counts_def mock_execute_def List.map_filter_simps)

text \<open>
  COUNT adds up the sizes of the shards that answer, modulo \<open>2 ^ 64\<close>, and reports how many do not.
\<close>

theorem dist_count_exact:
  assumes "ready co m collection shards"
  shows "dist_execute late elapsed ms co collection (DistAggregate AggCount f flt) = Some (Inr
     \<lparr>mr_records = [],
      total_count = Some (word_of_nat (length (concat (map (shard_data m) (filter (\<lambda>s. \<not> late s) shards))))),
      aggregate_value = None, shards_queried = length shards, shards_failed = length (filter late shards),
      total_elapsed_ms = ms\<rparr>)"
proof -
  have "length (filter late shards) + length (filter (\<lambda>s. \<not> late s) shards) = length shards"
    by (rule sum_length_filter_compl)
  then have "length shards - length (filter (\<lambda>s. \<not> late s) shards) = length (filter late shards)"
    "length (filter (\<lambda>s. \<not> late s) shards) + (length shards - length (filter (\<lambda>s. \<not> late s) shards)) = length shards"
    by linarith+
  then show ?thesis
    using dist_execute_ready [OF assms, of late elapsed ms "DistAggregate AggCount f flt"]
    by (simp add: Let_def counts_mock merged_def)
qed

text \<open>
  Failures are not errors. When no shard answers, because all are late or because the coordinator has no
  executor, every count still succeeds and reports zero rows.
\<close>

theorem dist_failures_silent:
  assumes "0 < max_concurrent_shards (co_config co)"
    and "shards_for_collection (co_map co) collection = shards" and "shards \<noteq> []"
    and "co_mock co = None \<or> (\<forall>s\<in>set shards. late s)"
  shows "dist_execute late elapsed ms co collection (DistAggregate AggCount f flt) = Some (Inr
     \<lparr>mr_records = [], total_count = Some 0, aggregate_value = None, shards_queried = length shards,
      shards_failed = length shards, total_elapsed_ms = ms\<rparr>)"
proof -
  let ?out = "map (\<lambda>s. if late s then Inl (ShardTimeout s)
    else execute_on_shard elapsed (co_mock co) (DistAggregate AggCount f flt) s) shards"
  have "successes ?out = []"
  proof (cases "co_mock co")
    case (Some m)
    with assms(4) have "filter (\<lambda>s. \<not> late s) shards = []" by (simp add: filter_empty_conv)
    then show ?thesis unfolding Some successes_mock by simp
  next
    case None
    show ?thesis unfolding None by (rule successes_none)
  qed
  with assms show ?thesis
    by (simp add: dist_execute_def scatter_map merged_def counts_def List.map_filter_simps)
qed

text \<open>The least of floats that are zero or positive, zero being among them, is zero.\<close>

definition positive :: "f64 \<Rightarrow> bool" where
  "positive x \<longleftrightarrow> f64_lt 0 x"

lemma positive_not_nan: "positive x \<Longrightarrow> \<not> f64_is_nan x"
  by (simp add: positive_def f64_lt_def fp_lt_def f64_is_nan_def)

lemma zero_not_nan [simp]: "\<not> f64_is_nan 0"
  by (simp add: f64_is_nan_def is_nan_def magnitude_def)

lemma zero_not_less [simp]: "\<not> f64_lt 0 0"
  by (simp add: f64_lt_def fp_lt_def)

lemma positive_not_less [simp]: "positive x \<Longrightarrow> \<not> f64_lt x 0"
  by (auto simp: positive_def f64_lt_def fp_lt_def)

lemma f64_min_nonneg:
  assumes "a = 0 \<or> positive a" and "b = 0 \<or> positive b"
  shows "f64_min a b = 0 \<or> positive (f64_min a b)" and "a = 0 \<or> b = 0 \<Longrightarrow> f64_min a b = 0"
  using assms positive_not_nan by (auto simp: f64_min_def) (auto simp: positive_def)

lemma foldl_min_nonneg:
  assumes "\<forall>x\<in>set xs. x = 0 \<or> positive x" and "a = 0 \<or> positive a"
  shows "foldl f64_min a xs = 0 \<or> positive (foldl f64_min a xs)"
    and "a = 0 \<or> 0 \<in> set xs \<Longrightarrow> foldl f64_min a xs = 0"
proof -
  have "(foldl f64_min a xs = 0 \<or> positive (foldl f64_min a xs)) \<and>
      (a = 0 \<or> 0 \<in> set xs \<longrightarrow> foldl f64_min a xs = 0)"
    using assms
  proof (induction xs arbitrary: a)
    case (Cons x xs)
    then have "f64_min a x = 0 \<or> positive (f64_min a x)" "a = 0 \<or> x = 0 \<longrightarrow> f64_min a x = 0"
      using f64_min_nonneg [of a x] by auto
    with Cons show ?case by auto
  qed auto
  then show "foldl f64_min a xs = 0 \<or> positive (foldl f64_min a xs)"
    and "a = 0 \<or> 0 \<in> set xs \<Longrightarrow> foldl f64_min a xs = 0" by blast+
qed

lemma positive_infinity [simp]: "positive (f64_infinity False)"
  by (simp add: positive_def f64_lt_def fp_lt_def is_nan_def magnitude_def order_key_def signed_def
      f64_infinity_def f64_bits_def encode_def)

lemma zero_finite [simp]: "finite_or_zero 0 = 0"
  by (simp add: finite_or_zero_def)

lemma min_of_nonneg:
  "\<forall>x\<in>set xs. x = 0 \<or> positive x \<Longrightarrow> min_of xs = 0 \<or> positive (min_of xs)"
  "\<forall>x\<in>set xs. x = 0 \<or> positive x \<Longrightarrow> 0 \<in> set xs \<Longrightarrow> min_of xs = 0"
  using foldl_min_nonneg [of xs "f64_infinity False"] by (auto simp: min_of_def finite_or_zero_def)

lemma abs_infinity [simp]: "f64_is_infinite (f64_infinity False)"
  by (simp add: f64_is_infinite_def f64_abs_def f64_infinity_def f64_bits_def f64_val_def encode_def decode_def)

lemma min_of_Nil [simp]: "min_of [] = 0"
  by (simp add: min_of_def finite_or_zero_def)

lemma sums_min_mock:
  "sums (map (\<lambda>s. mock_execute elapsed m s (DistAggregate AggMin f flt)) ss) =
     map (\<lambda>s. min_of (map sr_confidence (shard_data m s))) ss"
  by (induction ss) (simp_all add: sums_def mock_execute_def List.map_filter_simps)

text \<open>
  An empty shard spoils MIN. It answers with zero instead of nothing, so the minimum of positive
  confidences over a collection with an empty shard is zero.
\<close>

theorem dist_min_empty_shard:
  assumes ready: "ready co m collection shards" and empty: "s \<in> set shards" "\<not> late s" "shard_data m s = []"
    and pos: "\<forall>t\<in>set shards. \<forall>r\<in>set (shard_data m t). positive (sr_confidence r)"
  shows "\<exists>res. dist_execute late elapsed ms co collection (DistAggregate AggMin f flt) = Some (Inr res) \<and>
    aggregate_value res = Some 0"
proof -
  let ?mins = "map (\<lambda>s. min_of (map sr_confidence (shard_data m s))) (filter (\<lambda>s. \<not> late s) shards)"
  have "\<forall>x\<in>set ?mins. x = 0 \<or> positive x" using pos by (auto intro!: min_of_nonneg(1))
  moreover have "0 \<in> set ?mins" using empty by force
  ultimately have "min_of ?mins = 0" by (rule min_of_nonneg(2))
  then show ?thesis
    using dist_execute_ready [OF ready, of late elapsed ms "DistAggregate AggMin f flt"]
    by (simp add: Let_def sums_min_mock merged_def)
qed

subsection \<open>Point lookups\<close>

text \<open>
  A point lookup asks one shard of the collection, that of \<open>route_write\<close>, and returns the first record
  with the id there.
\<close>

theorem dist_point_lookup:
  assumes "ready co m collection shards" and "\<not> late (route_write co collection i)"
  shows "route_write co collection i \<in> set shards \<and>
    (\<exists>res. dist_execute late elapsed ms co collection (DistPointLookup i) = Some (Inr res) \<and>
      mr_records res = take 1 (filter (\<lambda>r. sr_id r = i) (shard_data m (route_write co collection i))) \<and>
      shards_queried res = 1 \<and> shards_failed res = 0)"
proof -
  have "route_write co collection i \<in> set shards"
    using assms(1) by (auto simp: route_write_def ready_def Let_def)
  then show ?thesis
    using dist_execute_ready [OF assms(1), of late elapsed ms "DistPointLookup i"] assms(2)
    by (simp add: Let_def mock_execute_def merged_def)
qed

text \<open>
  The shard that a lookup asks is not the shard on which the shard map places the record: the two use
  different hashes. For every collection and id there is a shard map with two shards that places the
  record on one of them while the lookup asks the other.
\<close>

theorem lookup_misses_placed_record:
  "\<exists>s placed s'. shard_for collection i s = Some (placed, s') \<and> shards_for_collection s' collection = [0, 1] \<and>
     route_write \<lparr>co_map = s', co_config = dist_config_default, co_mock = None\<rparr> collection i \<notin> {placed}"
proof -
  define h where "h = (u64_from_le (take 8 i) XOR u64_from_le (take 8 (drop 8 i))) XOR fnv1a_64 (as_bytes collection)"
  define a where "a = (if unat h mod 2 = 0 then 1 else 0 :: nat)"
  define r where "r = [\<lparr>re_hash = - 1, re_node = 1, re_shard = a\<rparr>, \<lparr>re_hash = - 1, re_node = 2, re_shard = 1 - a\<rparr>]"
  define s where "s = (sm_new 1)\<lparr>ring := r, collection_shards := [(collection, [0, 1])]\<rparr>"
  have "takeWhile (\<lambda>e. re_hash e < k) r = []" for k
    by (simp add: r_def)
  then have "successor_shard s k = Some a" for k
    by (simp add: successor_shard_def successor_entry_def partition_point_def s_def r_def)
  then have placed: "shard_for collection i s = Some (a, s)"
    by (simp add: shard_for_def Let_def s_def r_def bt_get_def a_def)
  have shards: "shards_for_collection s collection = [0, 1]"
    by (simp add: shards_for_collection_def s_def bt_get_def sort_key_def)
  have "route_write \<lparr>co_map = s, co_config = dist_config_default, co_mock = None\<rparr> collection i = [0, 1] ! (unat h mod 2)"
    by (simp add: route_write_def shards h_def Let_def numeral_2_eq_2)
  also have "\<dots> \<noteq> a" by (auto simp: a_def)
  finally show ?thesis using placed shards by blast
qed

subsection \<open>Samples\<close>

definition sample_map :: shard_map where
  "sample_map = (sm_new 1)\<lparr>collection_shards := [(''c'', [1, 0])]\<rparr>"

definition sample_shard_record :: shard_record where
  "sample_shard_record = \<lparr>sr_id = [7], sr_confidence = 0x3FE0000000000000, sr_score = f32_one, sr_payload = []\<rparr>"

definition sample_mock :: mock_executor where
  "sample_mock = seed_shard 0 [sample_shard_record] []"

definition sample_coordinator :: coordinator where
  "sample_coordinator = \<lparr>co_map = sample_map, co_config = dist_config_default, co_mock = Some sample_mock\<rparr>"

lemma sample_data [simp]: "shard_data sample_mock 0 = [sample_shard_record]" "shard_data sample_mock (Suc 0) = []"
  by (simp_all add: shard_data_def sample_mock_def seed_shard_def bt_get_def)

lemma sample_shards: "shards_for_collection sample_map ''c'' = [0, 1]"
  by (simp add: shards_for_collection_def sample_map_def bt_get_def sort_key_def)

lemma sample_ready: "ready sample_coordinator sample_mock ''c'' [0, 1]"
  by (simp add: ready_def sample_coordinator_def dist_config_default_def sample_shards)

lemma sample_magnitude: "query_magnitude [] = f32_1e_9"
  by (simp add: query_magnitude_def f32_sum_def f32_sqrt_def f32_max_def f32_is_nan_def f32_eval f32_zero_def
      f32_1e_9_def)

lemma sample_score: "score_record f32_1e_9 sample_shard_record = sample_shard_record\<lparr>sr_score := f32_zero\<rparr>"
  by (simp add: score_record_def sample_shard_record_def f32_sum_def f32_div_def f32_eval f32_zero_def f32_1e_9_def)

lemma capped_sample: "capped (sample_shard_record\<lparr>sr_score := x\<rparr>) =
    sample_shard_record\<lparr>sr_score := x, sr_confidence := f64_min 0x3FE0000000000000 f64_one\<rparr>"
  by (simp add: capped_def sample_shard_record_def)

lemma sample_factor: "oversample_factor (co_config sample_coordinator) = 3"
  by (simp add: sample_coordinator_def dist_config_default_def)

lemma sample_scores_ok: "scores_ok [sample_shard_record\<lparr>sr_score := f32_zero\<rparr>]"
  by (simp add: scores_ok_def f32_is_nan_def is_nan_def magnitude_def f32_zero_def)

theorem dist_vector_top_k_witness:
  "dist_execute (\<lambda>_. False) (\<lambda>_. 1) 2 sample_coordinator ''c'' (DistVectorScan [] 5 ''ix'') = Some (Inr
     \<lparr>mr_records = [sample_shard_record\<lparr>sr_score := f32_zero, sr_confidence := f64_min 0x3FE0000000000000 f64_one\<rparr>],
      total_count = None, aggregate_value = None, shards_queried = 2, shards_failed = 0, total_elapsed_ms = 2\<rparr>)"
proof -
  have "\<forall>s\<in>set [0, 1]. scores_ok (map (score_record (query_magnitude [])) (shard_data sample_mock s))"
    by (simp add: sample_magnitude sample_score sample_scores_ok) (simp add: scores_ok_def)
  from dist_vector_top_k [OF sample_ready _ _ _ this, of "\<lambda>_. False" 5 "\<lambda>_. 1" 2 "''ix''"] show ?thesis
    by (simp add: sample_magnitude sample_score u64_max_def by_score_def sample_factor capped_sample)
qed

lemma sample_capped_ok: "\<not> f64_is_nan (f64_min (sr_confidence sample_shard_record) f64_one)"
  by (simp add: sample_shard_record_def f64_min_def f64_is_nan_def is_nan_def magnitude_def f64_one_def)

theorem dist_scan_complete_witness:
  "\<exists>res. dist_execute (\<lambda>s. s = 1) (\<lambda>_. 1) 2 sample_coordinator ''c'' (DistScan None None) = Some (Inr res) \<and>
    mset (mr_records res) = {#capped sample_shard_record#} \<and> shards_failed res = 1"
proof -
  have "\<forall>s\<in>set [0, 1]. \<forall>r\<in>set (shard_data sample_mock s). \<not> f64_is_nan (f64_min (sr_confidence r) f64_one)"
    by (simp add: sample_capped_ok)
  from dist_scan_complete [OF sample_ready this, of "\<lambda>s. s = 1" "\<lambda>_. 1" 2 None] show ?thesis by auto
qed

theorem dist_count_exact_witness:
  "dist_execute (\<lambda>s. s = 1) (\<lambda>_. 1) 2 sample_coordinator ''c'' (DistAggregate AggCount ''f'' None) = Some (Inr
     \<lparr>mr_records = [], total_count = Some 1, aggregate_value = None, shards_queried = 2, shards_failed = 1,
      total_elapsed_ms = 2\<rparr>)"
  using dist_count_exact [OF sample_ready, of "\<lambda>s. s = 1" "\<lambda>_. 1" 2 "''f''" None] by simp

theorem dist_failures_silent_witness:
  "dist_execute (\<lambda>s. True) (\<lambda>_. 1) 2 sample_coordinator ''c'' (DistAggregate AggCount ''f'' None) = Some (Inr
     \<lparr>mr_records = [], total_count = Some 0, aggregate_value = None, shards_queried = 2, shards_failed = 2,
      total_elapsed_ms = 2\<rparr>)"
  using dist_failures_silent [of sample_coordinator "''c''" "[0, 1]" "\<lambda>s. True" "\<lambda>_. 1" 2 "''f''" None] sample_ready
  by (simp add: ready_def)

theorem dist_min_empty_shard_witness:
  "\<exists>res. dist_execute (\<lambda>s. False) (\<lambda>_. 1) 2 sample_coordinator ''c'' (DistAggregate AggMin ''f'' None) = Some (Inr res) \<and>
    aggregate_value res = Some 0"
proof -
  have "\<forall>t\<in>set [0, 1]. \<forall>r\<in>set (shard_data sample_mock t). positive (sr_confidence r)"
    by (simp add: sample_shard_record_def positive_def f64_lt_def fp_lt_def is_nan_def magnitude_def order_key_def signed_def)
  from dist_min_empty_shard [OF sample_ready _ _ _ this, of 1 "\<lambda>s. False"] show ?thesis by simp
qed

theorem dist_point_lookup_witness:
  "route_write sample_coordinator ''c'' [7] \<in> set [0, 1]"
  using dist_point_lookup [OF sample_ready, of "\<lambda>s. False" "[7]" "\<lambda>_. 1" 2] by simp

end
