(* ===== verification/Security.thy ===== *)
theory Security
  imports Text Record_Types
begin

text \<open>
  The security module, \<open>crates/fundb-server/src/security.rs\<close>: roles and grants, the scoping of query
  texts, the ownership of records, the audit log and the TLS settings. The text of a UUID and the debug
  form of an optional path come with the argument \<open>F\<close>. Hash sets are sets.
\<close>

type_synonym tenant_id = uuid
type_synonym agent_id = uuid

datatype role = RoleAdmin | ReadWrite | ReadOnly | CustomRole ustring

datatype permission = PermRead | PermWrite | PermDelete | PermGrant | PermAdmin

record tenant_context =
  tc_tenant :: tenant_id
  tc_agent :: agent_id
  tc_roles :: "role list"

datatype security_error =
    PermissionDenied tenant_id permission ustring
  | TenantIsolationViolation (record_tenant: tenant_id) (context_tenant: tenant_id)
  | InvalidQuery ustring
  | TlsConfigError ustring
  | Unauthenticated

record formats =
  show_uuid :: "uuid \<Rightarrow> ustring"
  debug_path :: "ustring option \<Rightarrow> ustring"

subsection \<open>Roles and grants\<close>

type_synonym grants = "ustring \<Rightarrow> (role \<Rightarrow> permission set option) option"

definition wildcard :: ustring where
  "wildcard = text_of ''*''"

definition grant :: "ustring \<Rightarrow> role \<Rightarrow> permission \<Rightarrow> grants \<Rightarrow> grants" where
  "grant collection r p g =
     (let role_map = (case g collection of None \<Rightarrow> Map.empty | Some m \<Rightarrow> m);
          perms = (case role_map r of None \<Rightarrow> {} | Some s \<Rightarrow> s)
      in g(collection \<mapsto> role_map(r \<mapsto> insert p perms)))"

definition revoke :: "ustring \<Rightarrow> role \<Rightarrow> permission \<Rightarrow> grants \<Rightarrow> grants" where
  "revoke collection r p g =
     (case g collection of
        None \<Rightarrow> g
      | Some role_map \<Rightarrow>
          (case role_map r of
             None \<Rightarrow> g
           | Some perms \<Rightarrow> g(collection \<mapsto> role_map(r \<mapsto> perms - {p}))))"

definition rbac_new :: grants where
  "rbac_new =
     (let admin = fold (grant wildcard RoleAdmin) [PermRead, PermWrite, PermDelete, PermGrant, PermAdmin] Map.empty
      in grant wildcard ReadOnly PermRead
           (grant wildcard ReadWrite PermWrite (grant wildcard ReadWrite PermRead admin)))"

definition role_permissions_on :: "grants \<Rightarrow> role \<Rightarrow> ustring \<Rightarrow> permission set option" where
  "role_permissions_on g r collection =
     (case g collection of None \<Rightarrow> None | Some role_map \<Rightarrow> role_map r)"

definition role_has_permission_on :: "grants \<Rightarrow> role \<Rightarrow> ustring \<Rightarrow> permission \<Rightarrow> bool" where
  "role_has_permission_on g r collection p =
     (case role_permissions_on g r collection of None \<Rightarrow> False | Some perms \<Rightarrow> p \<in> perms)"

fun check_roles :: "grants \<Rightarrow> role list \<Rightarrow> ustring \<Rightarrow> permission \<Rightarrow> bool" where
  "check_roles g [] collection p = False"
| "check_roles g (r # rs) collection p =
     (if role_has_permission_on g r collection p then True
      else if role_has_permission_on g r wildcard p then True
      else check_roles g rs collection p)"

definition rbac_check :: "grants \<Rightarrow> tenant_context \<Rightarrow> ustring \<Rightarrow> permission \<Rightarrow> bool" where
  "rbac_check g ctx collection p = check_roles g (tc_roles ctx) collection p"

definition perms_or_none :: "permission set option \<Rightarrow> permission set" where
  "perms_or_none x = (case x of None \<Rightarrow> {} | Some s \<Rightarrow> s)"

definition permissions_for :: "grants \<Rightarrow> tenant_context \<Rightarrow> ustring \<Rightarrow> permission set" where
  "permissions_for g ctx collection =
     fold (\<lambda>r acc. acc \<union> perms_or_none (role_permissions_on g r collection) \<union>
         perms_or_none (role_permissions_on g r wildcard)) (tc_roles ctx) {}"

subsection \<open>Tenant isolation\<close>

definition trim_end :: "ustring \<Rightarrow> ustring" where
  "trim_end s = rev (dropWhile is_white (rev s))"

definition scope_query :: "formats \<Rightarrow> ustring \<Rightarrow> tenant_context \<Rightarrow> security_error + ustring" where
  "scope_query F query ctx =
     (let tenant_str = show_uuid F (tc_tenant ctx)
      in if contains_text (text_of ''tenant_id'') query then
           (if contains_text tenant_str query then Inr query
            else Inl (InvalidQuery
              (text_of ''query references a tenant_id that does not match the current context ('' @ tenant_str @ text_of '')'')))
         else Inr (trim_end query @ text_of '' AND _tenant_id = '' @ [39] @ tenant_str @ [39]))"

definition validate_record_ownership :: "tenant_id \<Rightarrow> tenant_context \<Rightarrow> security_error + unit" where
  "validate_record_ownership t ctx =
     (if t = tc_tenant ctx then Inr () else Inl (TenantIsolationViolation t (tc_tenant ctx)))"

subsection \<open>Audit log\<close>

datatype audit_action = AuditQuery | AuditWrite | AuditDelete | AuditGrant | AuditRevoke | AuditConnect | AuditDisconnect

datatype audit_outcome = Allowed | Denied

record audit_entry =
  ae_id :: uuid
  ae_timestamp :: int
  ae_tenant :: tenant_id
  ae_agent :: agent_id
  ae_action :: audit_action
  ae_collection :: "ustring option"
  ae_outcome :: audit_outcome
  ae_detail :: ustring

record audit_log =
  al_entries :: "audit_entry list"
  al_max_size :: nat

definition audit_new :: "nat \<Rightarrow> audit_log" where
  "audit_new n = \<lparr>al_entries = [], al_max_size = n\<rparr>"

definition audit_record :: "audit_entry \<Rightarrow> audit_log \<Rightarrow> audit_log" where
  "audit_record e l =
     (let es = (if al_max_size l > 0 \<and> length (al_entries l) \<ge> al_max_size l then drop 1 (al_entries l)
                else al_entries l)
      in l\<lparr>al_entries := es @ [e]\<rparr>)"

definition entries_for_tenant :: "tenant_id \<Rightarrow> audit_log \<Rightarrow> audit_entry list" where
  "entries_for_tenant t l = filter (\<lambda>e. ae_tenant e = t) (al_entries l)"

definition recent :: "nat \<Rightarrow> audit_log \<Rightarrow> audit_entry list" where
  "recent n l = drop (length (al_entries l) - n) (al_entries l)"

definition audit_len :: "audit_log \<Rightarrow> nat" where
  "audit_len l = length (al_entries l)"

definition audit_is_empty :: "audit_log \<Rightarrow> bool" where
  "audit_is_empty l \<longleftrightarrow> audit_len l = 0"

subsection \<open>TLS settings\<close>

datatype tls_version = Tls12 | Tls13

record tls_config =
  cert_path :: ustring
  key_path :: ustring
  ca_cert_path :: "ustring option"
  min_version :: tls_version
  require_client_cert :: bool

record tls_acceptor_stub =
  ts_config :: tls_config
  ts_description :: ustring

definition tls_new :: "ustring \<Rightarrow> ustring \<Rightarrow> tls_config" where
  "tls_new cert key = \<lparr>cert_path = cert, key_path = key, ca_cert_path = None, min_version = Tls13,
     require_client_cert = False\<rparr>"

definition tls_validate :: "tls_config \<Rightarrow> security_error + unit" where
  "tls_validate c = Inr ()"

definition is_tls13_only :: "tls_config \<Rightarrow> bool" where
  "is_tls13_only c \<longleftrightarrow> min_version c = Tls13"

definition build_tls_acceptor_config :: "formats \<Rightarrow> tls_config \<Rightarrow> security_error + tls_acceptor_stub" where
  "build_tls_acceptor_config F c =
     (case tls_validate c of
        Inl e \<Rightarrow> Inl e
      | Inr _ \<Rightarrow>
          let min_ver = (case min_version c of Tls12 \<Rightarrow> text_of ''TLSv1.2'' | Tls13 \<Rightarrow> text_of ''TLSv1.3'');
              flag = (if require_client_cert c then text_of ''true'' else text_of ''false'')
          in Inr \<lparr>ts_config = c, ts_description =
               text_of ''TlsAcceptor { cert='' @ cert_path c @ text_of '', key='' @ key_path c @
               text_of '', ca='' @ debug_path F (ca_cert_path c) @ text_of '', min_version='' @ min_ver @
               text_of '', client_auth='' @ flag @ text_of '' }''\<rparr>)"

end
