(* ===== verification/Security_Properties.thy ===== *)
theory Security_Properties
  imports Security
begin

text \<open>
  The properties of the security module: grants as a set of triples, what scoping a query text does and
  does not check, and the window of the audit log.
\<close>

subsection \<open>Grants as a set of triples\<close>

datatype rbac_op = GrantOp ustring role permission | RevokeOp ustring role permission

fun rbac_apply :: "rbac_op \<Rightarrow> grants \<Rightarrow> grants" where
  "rbac_apply (GrantOp c r p) g = grant c r p g"
| "rbac_apply (RevokeOp c r p) g = revoke c r p g"

fun triples_apply :: "rbac_op \<Rightarrow> (ustring \<times> role \<times> permission) set \<Rightarrow> (ustring \<times> role \<times> permission) set" where
  "triples_apply (GrantOp c r p) S = insert (c, r, p) S"
| "triples_apply (RevokeOp c r p) S = S - {(c, r, p)}"

definition built_in :: "(ustring \<times> role \<times> permission) set" where
  "built_in = {(wildcard, RoleAdmin, PermRead), (wildcard, RoleAdmin, PermWrite), (wildcard, RoleAdmin, PermDelete),
     (wildcard, RoleAdmin, PermGrant), (wildcard, RoleAdmin, PermAdmin), (wildcard, ReadWrite, PermRead),
     (wildcard, ReadWrite, PermWrite), (wildcard, ReadOnly, PermRead)}"

definition granted :: "grants \<Rightarrow> (ustring \<times> role \<times> permission) set" where
  "granted g = {(c, r, p). role_has_permission_on g r c p}"

lemma granted_iff: "(c, r, p) \<in> granted g \<longleftrightarrow> role_has_permission_on g r c p"
  by (simp add: granted_def)

lemma granted_grant: "granted (grant c r p g) = insert (c, r, p) (granted g)"
  by (auto simp: granted_def grant_def role_has_permission_on_def role_permissions_on_def Let_def
      split: option.splits if_splits)

lemma granted_revoke: "granted (revoke c r p g) = granted g - {(c, r, p)}"
  by (auto simp: granted_def revoke_def role_has_permission_on_def role_permissions_on_def
      split: option.splits if_splits)

lemma granted_new: "granted rbac_new = built_in"
proof -
  have "granted Map.empty = {}"
    by (auto simp: granted_def role_has_permission_on_def role_permissions_on_def)
  then show ?thesis by (auto simp: rbac_new_def Let_def granted_grant built_in_def)
qed

lemma granted_run: "granted (fold rbac_apply ops g) = fold triples_apply ops (granted g)"
proof (induction ops arbitrary: g)
  case (Cons op ops)
  have "granted (rbac_apply op g) = triples_apply op (granted g)"
    by (cases op) (simp_all add: granted_grant granted_revoke)
  with Cons show ?case by simp
qed simp

lemma check_roles_iff:
  "check_roles g rs c p \<longleftrightarrow> (\<exists>r\<in>set rs. (c, r, p) \<in> granted g \<or> (wildcard, r, p) \<in> granted g)"
  by (induction rs) (auto simp: granted_iff)

lemma permissions_for_iff:
  "p \<in> permissions_for g ctx c \<longleftrightarrow>
     (\<exists>r\<in>set (tc_roles ctx). (c, r, p) \<in> granted g \<or> (wildcard, r, p) \<in> granted g)"
proof -
  have "p \<in> fold (\<lambda>r acc. acc \<union> perms_or_none (role_permissions_on g r c) \<union>
      perms_or_none (role_permissions_on g r wildcard)) rs acc \<longleftrightarrow>
      p \<in> acc \<or> (\<exists>r\<in>set rs. (c, r, p) \<in> granted g \<or> (wildcard, r, p) \<in> granted g)" for rs acc
    by (induction rs arbitrary: acc)
      (auto simp: granted_iff role_has_permission_on_def perms_or_none_def split: option.splits)
  then show ?thesis by (simp add: permissions_for_def)
qed

text \<open>
  C31: The nested maps of the engine implement a set of triples that starts from the built-in rules, gains a
  triple with each grant and loses it with each revocation. A context holds a permission exactly when one
  of its roles has it on the collection or on the wildcard, and \<open>permissions_for\<close> lists exactly those.
\<close>

theorem rbac_refines_triples:
  "rbac_check (fold rbac_apply ops rbac_new) ctx c p =
     (\<exists>r\<in>set (tc_roles ctx). {(c, r, p), (wildcard, r, p)} \<inter> fold triples_apply ops built_in \<noteq> {}) \<and>
   (p \<in> permissions_for (fold rbac_apply ops rbac_new) ctx c) =
     rbac_check (fold rbac_apply ops rbac_new) ctx c p"
  using granted_run [of ops rbac_new]
  by (auto simp: rbac_check_def check_roles_iff permissions_for_iff granted_new)

text \<open>
  A revocation on a collection does not reach a permission that the wildcard gives: revoking it from a
  built-in role on a named collection leaves the check as it was.
\<close>

theorem revoke_keeps_wildcard:
  assumes "r \<in> set (tc_roles ctx)" and "(wildcard, r, p) \<in> built_in" and "c \<noteq> wildcard"
  shows "rbac_check (revoke c r p rbac_new) ctx c p"
proof -
  have "(wildcard, r, p) \<in> granted (revoke c r p rbac_new)"
    using assms(2,3) by (auto simp: granted_revoke granted_new)
  with assms(1) show ?thesis unfolding rbac_check_def check_roles_iff by blast
qed

theorem revoke_keeps_wildcard_witness:
  "rbac_check (revoke (text_of ''events'') ReadOnly PermRead rbac_new)
     \<lparr>tc_tenant = [1], tc_agent = [2], tc_roles = [ReadOnly]\<rparr> (text_of ''events'') PermRead"
  by (rule revoke_keeps_wildcard) (simp_all add: built_in_def wildcard_def text_of_def)

subsection \<open>Scoping query texts\<close>

lemma find_text_append: "find_text p s \<noteq> None \<Longrightarrow> find_text p (r @ s) \<noteq> None"
  by (induction r) auto

lemma find_text_prefix: "find_text p (p @ s) \<noteq> None"
  by (metis append_eq_conv_conj find_text.elims option.distinct(1) starts_with_def append_is_Nil_conv)

lemma contains_middle: "contains_text p (r @ p @ s)"
  unfolding contains_text_def by (rule find_text_append [OF find_text_prefix])

text \<open>
  Scoping is a search for two words. A query that mentions \<open>tenant_id\<close> and, anywhere behind it, the text
  of the caller's tenant passes unchanged, whatever else it says: also one that asks for the rows of
  another tenant and names the caller in a string or a comment.
\<close>

theorem scope_query_any_mention:
  "scope_query F (a @ text_of ''tenant_id'' @ b @ show_uuid F (tc_tenant ctx) @ c) ctx =
     Inr (a @ text_of ''tenant_id'' @ b @ show_uuid F (tc_tenant ctx) @ c)"
proof -
  have "contains_text (text_of ''tenant_id'') (a @ text_of ''tenant_id'' @ b @ show_uuid F (tc_tenant ctx) @ c)"
    by (rule contains_middle)
  moreover have "contains_text (show_uuid F (tc_tenant ctx)) ((a @ text_of ''tenant_id'' @ b) @ show_uuid F (tc_tenant ctx) @ c)"
    by (rule contains_middle)
  ultimately show ?thesis by (simp add: scope_query_def Let_def)
qed

text \<open>
  What scoping guarantees: an accepted query either is the text that was given, which mentions the
  caller's tenant, or ends in a conjunct that restricts it to the caller's tenant.
\<close>

theorem scope_query_accepts:
  assumes "scope_query F q ctx = Inr q'"
  shows "q' = q \<and> contains_text (text_of ''tenant_id'') q \<and> contains_text (show_uuid F (tc_tenant ctx)) q \<or>
    q' = trim_end q @ text_of '' AND _tenant_id = '' @ [39] @ show_uuid F (tc_tenant ctx) @ [39]"
  using assms by (auto simp: scope_query_def Let_def split: if_splits)

subsection \<open>The audit log\<close>

lemma audit_records:
  "al_max_size (fold audit_record es l) = al_max_size l \<and>
   (length (al_entries l) \<le> al_max_size l \<or> al_max_size l = 0 \<longrightarrow>
    al_entries (fold audit_record es l) =
      (if al_max_size l = 0 then al_entries l @ es
       else drop (length (al_entries l @ es) - al_max_size l) (al_entries l @ es)))"
proof (induction es arbitrary: l)
  case (Cons e es)
  let ?l = "audit_record e l"
  have m: "al_max_size ?l = al_max_size l" by (simp add: audit_record_def Let_def)
  consider "al_max_size l = 0" | "0 < al_max_size l" "length (al_entries l) < al_max_size l"
    | "0 < al_max_size l" "length (al_entries l) = al_max_size l" | "0 < al_max_size l" "al_max_size l < length (al_entries l)"
    by linarith
  then show ?case
  proof cases
    case 3
    then have e: "al_entries ?l = drop 1 (al_entries l) @ [e]" by (simp add: audit_record_def)
    from 3 obtain x xs where "al_entries l = x # xs" by (cases "al_entries l") auto
    with 3 e m Cons [of ?l] show ?thesis by (simp add: Suc_diff_le)
  qed (use m Cons [of ?l] in \<open>auto simp: audit_record_def Let_def\<close>)
qed simp

text \<open>
  The audit log keeps the latest entries: after any recording, a log with a positive capacity holds the
  last entries up to the capacity in their order, and an unbounded one holds all of them.
\<close>

theorem audit_keeps_latest:
  "al_entries (fold audit_record es (audit_new n)) = (if n = 0 then es else drop (length es - n) es) \<and>
   recent k (fold audit_record es (audit_new n)) = drop (length es - (if n = 0 then k else min k n)) es"
proof -
  have "al_entries (fold audit_record es (audit_new n)) = (if n = 0 then es else drop (length es - n) es)"
    using audit_records [of es "audit_new n"] by (simp add: audit_new_def)
  moreover have "k \<le> n \<Longrightarrow> length es - (length es - n + k) + (length es - n) = length es - k"
    by linarith
  ultimately show ?thesis by (auto simp: recent_def min_def)
qed

text \<open>Samples for the witnesses.\<close>

definition sample_formats :: formats where
  "sample_formats = \<lparr>show_uuid = (\<lambda>u. map unat u), debug_path = (\<lambda>_. [])\<rparr>"

theorem scope_query_accepts_witness:
  "scope_query sample_formats (text_of ''x'') \<lparr>tc_tenant = [55], tc_agent = [2], tc_roles = []\<rparr> =
     Inr (text_of ''x'' @ text_of '' AND _tenant_id = '' @ [39, 55, 39])"
proof -
  let ?c = "\<lparr>tc_tenant = [55], tc_agent = [2], tc_roles = []\<rparr>"
  obtain q' where q': "scope_query sample_formats (text_of ''x'') ?c = Inr q'"
    by (simp add: scope_query_def Let_def contains_text_def starts_with_def text_of_def)
  from scope_query_accepts [OF q'] q' show ?thesis
    by (simp add: contains_text_def starts_with_def text_of_def trim_end_def is_white_def sample_formats_def)
qed

end
