(* ===== verification/Vectors.thy ===== *)
theory Vectors
  imports Ieee Sorting
begin

text \<open>
  The float vectors that the cognitive layer compares: dot product, norm and cosine, as sums of f32 from
  zero in the order of the components.
\<close>

definition dot32 :: "f32 list \<Rightarrow> f32 list \<Rightarrow> f32" where
  "dot32 a b = f32_sum (map2 f32_mul a b)"

definition norm32 :: "f32 list \<Rightarrow> f32" where
  "norm32 v = f32_sqrt (f32_sum (map (\<lambda>x. f32_mul x x) v))"

definition f32_minus_one :: f32 where
  "f32_minus_one = 0xBF800000"

text \<open>\<open>partial_cmp\<close> in descending order on a list of scored elements.\<close>

definition by_desc :: "('a \<Rightarrow> f32) \<Rightarrow> 'a list \<Rightarrow> 'a list" where
  "by_desc f = sort_by (\<lambda>x y. desc_f32 (f x) (f y))"

lemma mset_by_desc [simp]: "mset (by_desc f xs) = mset xs"
  by (simp add: by_desc_def)

lemma set_by_desc [simp]: "set (by_desc f xs) = set xs"
  by (simp add: by_desc_def)

lemma length_by_desc [simp]: "length (by_desc f xs) = length xs"
  by (simp add: by_desc_def)

lemma sorted_by_desc:
  assumes "\<forall>x\<in>set xs. \<not> f32_is_nan (f x)"
  shows "sorted_wrt (\<lambda>x y. \<not> f32_lt (f x) (f y)) (by_desc f xs)"
proof -
  have "sorted_wrt (\<lambda>x y. desc_f32 (f x) (f y) \<noteq> OGreater) (by_desc f xs)"
    unfolding by_desc_def by (rule score32.sorted_sort_by) (rule assms)
  then show ?thesis
    by (rule sorted_wrt_mono_rel [rotated]) (auto simp: desc_f32_def f32_lt_def fp_lt_def split: if_splits)
qed

end
