(* ===== verification/Agent_Memory.thy ===== *)
theory Agent_Memory
  imports Text Vectors Record_Types
begin

text \<open>
  The memories of agents, \<open>crates/fundb-cognitive/src/memory.rs\<close>. New ids are arguments; case beyond
  ASCII comes with \<open>T\<close>. The clock is an i64 that wraps.
\<close>

datatype mem_kind = SemanticMemory | EpisodicMemory | ProceduralMemory

record remember_options =
  ro_importance :: f32
  ro_type :: mem_kind
  ro_decay_rate :: f32

record recall_weights =
  w_semantic :: f32
  w_recency :: f32
  w_importance :: f32

record recall_components =
  semantic_score :: f32
  recency_score :: f32
  importance_score :: f32

record memory_result =
  memory_id :: uuid
  res_content :: ustring
  res_score :: f32
  res_components :: recall_components

record memory_entry =
  me_id :: uuid
  me_agent :: ustring
  me_content :: ustring
  me_embedding :: "f32 list"
  me_importance :: f32
  me_type :: mem_kind
  me_decay_rate :: f32
  me_created_at :: int
  me_last_accessed :: int
  me_access_count :: u32
  me_confidence :: f32
  me_tombstone :: bool

record agent_memory =
  am_entries :: "memory_entry list"
  am_clock :: int

subsection \<open>Embeddings\<close>

definition djb2_hash :: "ustring \<Rightarrow> u64" where
  "djb2_hash word = fold (\<lambda>b acc. acc * 33 + word_of_nat (of_char b)) (utf8 word) 5381"

definition ascii_punctuation :: "nat \<Rightarrow> bool" where
  "ascii_punctuation c \<longleftrightarrow> 33 \<le> c \<and> c \<le> 47 \<or> 58 \<le> c \<and> c \<le> 64 \<or> 91 \<le> c \<and> c \<le> 96 \<or> 123 \<le> c \<and> c \<le> 126"

definition mem_tokenize :: "casing \<Rightarrow> ustring \<Rightarrow> ustring list" where
  "mem_tokenize T text = map (to_lowercase T)
     (filter (\<lambda>s. s \<noteq> []) (split_on (\<lambda>c. is_white c \<or> ascii_punctuation c) text))"

definition count_word :: "ustring \<Rightarrow> f32 list \<Rightarrow> f32 list" where
  "count_word word vec =
     (let bucket = unat (djb2_hash word) mod 64 in vec[bucket := f32_add (vec ! bucket) f32_one])"

definition bag_of_words_embed :: "casing \<Rightarrow> ustring \<Rightarrow> f32 list" where
  "bag_of_words_embed T text =
     (let vec = fold count_word (mem_tokenize T text) (replicate 64 f32_zero); norm = norm32 vec
      in if f32_lt f32_zero norm then map (\<lambda>v. f32_div v norm) vec else vec)"

definition padded :: "f32 list \<Rightarrow> nat \<Rightarrow> f32" where
  "padded v i = (if i < length v then v ! i else f32_zero)"

definition mem_cosine_sim :: "f32 list \<Rightarrow> f32 list \<Rightarrow> f32" where
  "mem_cosine_sim a b =
     (let len = max (length a) (length b);
          dot = f32_sum (map (\<lambda>i. f32_mul (padded a i) (padded b i)) [0..<len]);
          na = norm32 a; nb = norm32 b
      in if f32_eq_zero na \<or> f32_eq_zero nb then f32_zero
         else f32_clamp f32_minus_one f32_one (f32_div dot (f32_mul na nb)))"

subsection \<open>Operations\<close>

definition i64_wrap :: "int \<Rightarrow> int" where
  "i64_wrap x = (x + 2 ^ 63) mod 2 ^ 64 - 2 ^ 63"

definition am_new :: agent_memory where
  "am_new = \<lparr>am_entries = [], am_clock = 0\<rparr>"

definition remember ::
  "casing \<Rightarrow> uuid \<Rightarrow> ustring \<Rightarrow> ustring \<Rightarrow> remember_options \<Rightarrow> agent_memory \<Rightarrow> uuid \<times> agent_memory" where
  "remember T new_id agent content opts m =
     (let now = am_clock m;
          entry = \<lparr>me_id = new_id, me_agent = agent, me_content = content,
            me_embedding = bag_of_words_embed T content, me_importance = ro_importance opts,
            me_type = ro_type opts, me_decay_rate = ro_decay_rate opts, me_created_at = now,
            me_last_accessed = now, me_access_count = 0,
            me_confidence = f32_min (ro_importance opts) f32_one, me_tombstone = False\<rparr>
      in (new_id, m\<lparr>am_entries := am_entries m @ [entry], am_clock := i64_wrap (now + 1)\<rparr>))"

definition live_of :: "ustring \<Rightarrow> memory_entry \<Rightarrow> bool" where
  "live_of agent e \<longleftrightarrow> \<not> me_tombstone e \<and> me_agent e = agent"

definition recall_scores :: "int \<Rightarrow> f32 list \<Rightarrow> memory_entry \<Rightarrow> recall_components" where
  "recall_scores clock query_embedding e =
     \<lparr>semantic_score = mem_cosine_sim query_embedding (me_embedding e),
      recency_score = f32_div f32_one (f32_add f32_one (int_as_f32 (i64_wrap (clock - me_created_at e)))),
      importance_score = me_importance e\<rparr>"

definition total_score :: "recall_weights \<Rightarrow> recall_components \<Rightarrow> f32" where
  "total_score w c =
     f32_add (f32_add (f32_mul (w_semantic w) (semantic_score c)) (f32_mul (w_recency w) (recency_score c)))
       (f32_mul (w_importance w) (importance_score c))"

definition score_entry ::
  "agent_memory \<Rightarrow> f32 list \<Rightarrow> recall_weights \<Rightarrow> nat \<Rightarrow> nat \<times> f32 \<times> recall_components" where
  "score_entry m qe w idx =
     (let c = recall_scores (am_clock m) qe (am_entries m ! idx) in (idx, total_score w c, c))"

definition live_indices :: "ustring \<Rightarrow> agent_memory \<Rightarrow> nat list" where
  "live_indices agent m = filter (\<lambda>i. live_of agent (am_entries m ! i)) [0..<length (am_entries m)]"

definition recall :: "casing \<Rightarrow> ustring \<Rightarrow> ustring \<Rightarrow> recall_weights \<Rightarrow> nat \<Rightarrow> agent_memory \<Rightarrow> memory_result list" where
  "recall T agent query w top_k m =
     (let scored = map (score_entry m (bag_of_words_embed T query) w) (live_indices agent m)
      in map (\<lambda>(idx, score, c). \<lparr>memory_id = me_id (am_entries m ! idx), res_content = me_content (am_entries m ! idx),
            res_score = score, res_components = c\<rparr>)
          (take top_k (by_desc (\<lambda>x. fst (snd x)) scored)))"

fun bury_first :: "uuid \<Rightarrow> memory_entry list \<Rightarrow> memory_entry list option" where
  "bury_first i [] = None"
| "bury_first i (e # es) =
     (if me_id e = i then Some (e\<lparr>me_tombstone := True\<rparr> # es)
      else map_option (\<lambda>es'. e # es') (bury_first i es))"

text \<open>\<open>None\<close> is the error that the memory is not found.\<close>

definition forget :: "uuid \<Rightarrow> agent_memory \<Rightarrow> agent_memory option" where
  "forget i m = map_option (\<lambda>es. m\<lparr>am_entries := es\<rparr>) (bury_first i (am_entries m))"

definition f32_0_9 :: f32 where
  "f32_0_9 = 0x3F666666"

definition similar :: "memory_entry \<Rightarrow> memory_entry \<Rightarrow> bool" where
  "similar a b \<longleftrightarrow> f32_lt f32_0_9 (mem_cosine_sim (me_embedding a) (me_embedding b))"

definition consolidate_pair :: "nat \<times> nat \<Rightarrow> memory_entry list \<times> u32 \<Rightarrow> memory_entry list \<times> u32" where
  "consolidate_pair p st =
     (let (es, n) = st; (a, b) = p
      in if me_tombstone (es ! a) \<or> me_tombstone (es ! b) then st
         else if similar (es ! a) (es ! b) then
           let keep_a = f32_le (me_importance (es ! b)) (me_importance (es ! a));
               dropped = (if keep_a then b else a)
           in (es[dropped := (es ! dropped)\<lparr>me_tombstone := True\<rparr>], n + 1)
         else st)"

fun index_pairs :: "nat list \<Rightarrow> (nat \<times> nat) list" where
  "index_pairs [] = []"
| "index_pairs (i # is) = map (\<lambda>j. (i, j)) is @ index_pairs is"

definition consolidate :: "ustring \<Rightarrow> agent_memory \<Rightarrow> u32 \<times> agent_memory" where
  "consolidate agent m =
     (let (es, n) = fold consolidate_pair (index_pairs (live_indices agent m)) (am_entries m, 0)
      in (n, m\<lparr>am_entries := es\<rparr>))"

definition f32_0_01 :: f32 where
  "f32_0_01 = 0x3C23D70A"

definition decay_all :: "agent_memory \<Rightarrow> agent_memory" where
  "decay_all m = m\<lparr>am_entries := map (\<lambda>e. if me_tombstone e then e
     else e\<lparr>me_confidence := f32_max (f32_sub (me_confidence e) (f32_mul (me_decay_rate e) f32_0_01)) f32_zero\<rparr>)
       (am_entries m)\<rparr>"

end
