(* ===== verification/Memory_Properties.thy ===== *)
theory Memory_Properties
  imports Agent_Memory
begin

text \<open>
  The properties of agent memories: what a recall returns, that a forgotten memory stays forgotten, and
  what a consolidation leaves.
\<close>

subsection \<open>Recall\<close>

lemma set_live_indices: "i \<in> set (live_indices agent m) \<longleftrightarrow> i < length (am_entries m) \<and> live_of agent (am_entries m ! i)"
  by (auto simp: live_indices_def)

lemma live_indices_entries:
  "map (\<lambda>i. am_entries m ! i) (live_indices agent m) = filter (live_of agent) (am_entries m)"
  unfolding live_indices_def
  by (metis (mono_tags, lifting) filter_cong filter_map map_nth o_apply)

text \<open>
  C36: A recall returns memories of its own agent only, none that was forgotten, at most \<open>top_k\<close> of them and
  all of them when there are not more; where no score is a NaN they come in descending order of score.
\<close>

theorem recall_correct:
  "length (recall T agent query w k m) = min k (length (filter (live_of agent) (am_entries m))) \<and>
   list_all (\<lambda>r. \<exists>e\<in>set (am_entries m). live_of agent e \<and> memory_id r = me_id e \<and> res_content r = me_content e \<and>
      res_components r = recall_scores (am_clock m) (bag_of_words_embed T query) e \<and>
      res_score r = total_score w (res_components r)) (recall T agent query w k m) \<and>
   (length (filter (live_of agent) (am_entries m)) \<le> k \<longrightarrow>
     mset (map memory_id (recall T agent query w k m)) = mset (map me_id (filter (live_of agent) (am_entries m)))) \<and>
   (list_all (\<lambda>e. \<not> f32_is_nan (total_score w (recall_scores (am_clock m) (bag_of_words_embed T query) e)))
      (filter (live_of agent) (am_entries m)) \<longrightarrow>
     sorted_wrt (\<lambda>a b. \<not> f32_lt (res_score a) (res_score b)) (recall T agent query w k m))"
proof -
  let ?qe = "bag_of_words_embed T query" and ?live = "live_indices agent m"
  let ?scored = "map (score_entry m ?qe w) ?live"
  let ?sorted = "by_desc (\<lambda>x. fst (snd x)) ?scored"
  let ?show = "\<lambda>(idx, score, c). \<lparr>memory_id = me_id (am_entries m ! idx), res_content = me_content (am_entries m ! idx),
            res_score = score, res_components = c\<rparr>"
  have r: "recall T agent query w k m = map ?show (take k ?sorted)" by (simp add: recall_def)
  have len: "length ?live = length (filter (live_of agent) (am_entries m))"
    using live_indices_entries [of m agent] by (metis length_map)
  have el: "\<exists>i\<in>set ?live. x = score_entry m ?qe w i" if "x \<in> set (take k ?sorted)" for x
    using in_set_takeD [OF that] by auto
  have "list_all (\<lambda>r. \<exists>e\<in>set (am_entries m). live_of agent e \<and> memory_id r = me_id e \<and> res_content r = me_content e \<and>
      res_components r = recall_scores (am_clock m) ?qe e \<and> res_score r = total_score w (res_components r))
      (recall T agent query w k m)"
    unfolding r list_all_iff
  proof
    fix x assume "x \<in> set (map ?show (take k ?sorted))"
    then obtain y where y: "y \<in> set (take k ?sorted)" "x = ?show y" by (metis (no_types, lifting) imageE set_map)
    from el [OF y(1)] y(2) obtain i where i: "i \<in> set ?live" "x = ?show (score_entry m ?qe w i)" by blast
    then show "\<exists>e\<in>set (am_entries m). live_of agent e \<and> memory_id x = me_id e \<and> res_content x = me_content e \<and>
      res_components x = recall_scores (am_clock m) ?qe e \<and> res_score x = total_score w (res_components x)"
      by (intro bexI [of _ "am_entries m ! i"]) (auto simp: set_live_indices score_entry_def Let_def)
  qed
  moreover have "mset (map memory_id (recall T agent query w k m)) = mset (map me_id (filter (live_of agent) (am_entries m)))"
    if "length (filter (live_of agent) (am_entries m)) \<le> k"
  proof -
    have "mset (map memory_id (recall T agent query w k m)) = image_mset (memory_id \<circ> ?show) (mset ?sorted)"
      unfolding r using that len by (simp add: image_mset.compositionality comp_def)
    also have "\<dots> = mset (map (\<lambda>i. me_id (am_entries m ! i)) ?live)"
      by (simp add: score_entry_def Let_def comp_def image_mset.compositionality)
    also have "map (\<lambda>i. me_id (am_entries m ! i)) ?live = map me_id (filter (live_of agent) (am_entries m))"
      unfolding live_indices_entries [symmetric] by simp
    finally show ?thesis .
  qed
  moreover have "sorted_wrt (\<lambda>a b. \<not> f32_lt (res_score a) (res_score b)) (recall T agent query w k m)"
    if "list_all (\<lambda>e. \<not> f32_is_nan (total_score w (recall_scores (am_clock m) ?qe e))) (filter (live_of agent) (am_entries m))"
  proof -
    have "\<forall>x\<in>set ?scored. \<not> f32_is_nan (fst (snd x))"
      using that by (auto simp: list_all_iff score_entry_def Let_def set_live_indices)
    from sorted_by_desc [OF this] have "sorted_wrt (\<lambda>x y. \<not> f32_lt (fst (snd x)) (fst (snd y))) (take k ?sorted)"
      by (rule sorted_wrt_take)
    then show ?thesis unfolding r sorted_wrt_map
      by (rule sorted_wrt_mono_rel [rotated]) (simp add: split_beta)
  qed
  moreover have "length (recall T agent query w k m) = min k (length (filter (live_of agent) (am_entries m)))"
    unfolding r using len by simp
  ultimately show ?thesis by blast
qed

subsection \<open>Consolidation\<close>

text \<open>What a pair step keeps: everything but the tombstone of one entry.\<close>

definition buried_from :: "memory_entry list \<Rightarrow> memory_entry list \<Rightarrow> bool" where
  "buried_from es fs \<longleftrightarrow> length fs = length es \<and>
     (\<forall>i<length es. fs ! i = (es ! i)\<lparr>me_tombstone := me_tombstone (fs ! i)\<rparr> \<and>
       (me_tombstone (es ! i) \<longrightarrow> me_tombstone (fs ! i)))"

lemma buried_from_refl [simp]: "buried_from es es"
  by (simp add: buried_from_def)

lemma buried_from_trans: "buried_from es fs \<Longrightarrow> buried_from fs gs \<Longrightarrow> buried_from es gs"
  unfolding buried_from_def by (auto, metis memory_entry.surjective memory_entry.update_convs(12))

lemma buried_from_update:
  "buried_from es (es[i := (es ! i)\<lparr>me_tombstone := True\<rparr>])"
  by (cases "i < length es") (auto simp: buried_from_def nth_list_update)

lemma buried_embedding: "buried_from es fs \<Longrightarrow> i < length es \<Longrightarrow>
    me_embedding (fs ! i) = me_embedding (es ! i) \<and> me_agent (fs ! i) = me_agent (es ! i) \<and> me_id (fs ! i) = me_id (es ! i)"
  unfolding buried_from_def by (metis memory_entry.select_convs(1,2,4) memory_entry.surjective memory_entry.update_convs(12))

lemma consolidate_pair_buried: "buried_from (fst st) (fst (consolidate_pair p st))"
  by (cases st; cases p) (auto simp: consolidate_pair_def Let_def buried_from_update)

lemma consolidate_fold_buried: "buried_from (fst st) (fst (fold consolidate_pair ps st))"
proof (induction ps arbitrary: st)
  case (Cons p ps)
  show ?case using buried_from_trans [OF consolidate_pair_buried Cons.IH] by simp
qed simp

text \<open>A pair that was looked at is not both live and similar afterwards, also after later steps.\<close>

definition apart :: "memory_entry list \<Rightarrow> nat \<Rightarrow> nat \<Rightarrow> bool" where
  "apart es a b \<longleftrightarrow> me_tombstone (es ! a) \<or> me_tombstone (es ! b) \<or> \<not> similar (es ! a) (es ! b)"

lemma apart_pair: "a < length (fst st) \<Longrightarrow> b < length (fst st) \<Longrightarrow> apart (fst (consolidate_pair (a, b) st)) a b"
  by (cases st) (auto simp: consolidate_pair_def Let_def apart_def)

lemma apart_buried: "buried_from es fs \<Longrightarrow> a < length es \<Longrightarrow> b < length es \<Longrightarrow> apart es a b \<Longrightarrow> apart fs a b"
  using buried_embedding [of es fs a] buried_embedding [of es fs b]
  by (auto simp: apart_def similar_def buried_from_def)

lemma consolidate_fold_apart:
  assumes "\<forall>(a, b)\<in>set ps. a < length (fst st) \<and> b < length (fst st)" and "(a, b) \<in> set ps"
  shows "apart (fst (fold consolidate_pair ps st)) a b"
  using assms
proof (induction ps arbitrary: st)
  case (Cons p ps)
  have len: "length (fst (consolidate_pair p st)) = length (fst st)"
    using consolidate_pair_buried [of st p] by (simp add: buried_from_def)
  show ?case
  proof (cases "(a, b) = p")
    case True
    with Cons.prems(1) have "apart (fst (consolidate_pair p st)) a b" by (auto intro: apart_pair)
    then show ?thesis
      using apart_buried [OF consolidate_fold_buried [of "consolidate_pair p st" ps], of a b] Cons.prems(1) True len
      by auto
  next
    case False
    with Cons.prems len have "\<forall>(a, b)\<in>set ps. a < length (fst (consolidate_pair p st)) \<and> b < length (fst (consolidate_pair p st))"
      "(a, b) \<in> set ps" by auto
    from Cons.IH [OF this] show ?thesis by simp
  qed
qed simp

lemma index_pairs_sorted:
  "sorted_wrt (<) is \<Longrightarrow> (a, b) \<in> set (index_pairs is) \<longleftrightarrow> a \<in> set is \<and> b \<in> set is \<and> a < (b::nat)"
  by (induction "is" rule: index_pairs.induct) auto

lemma sorted_live_indices: "sorted_wrt (<) (live_indices agent m)"
  unfolding live_indices_def by (intro sorted_wrt_filter) (simp add: strict_sorted_iff)

text \<open>
  Every pair step buries only an entry of the agent, and never the last one that is live: of the two live
  entries of a pair one survives.
\<close>

definition keeps_one :: "nat set \<Rightarrow> memory_entry list \<Rightarrow> bool" where
  "keeps_one I es \<longleftrightarrow> (\<exists>i\<in>I. i < length es \<and> \<not> me_tombstone (es ! i))"

lemma consolidate_pair_one:
  assumes "a \<in> I" and "b \<in> I" and "a \<noteq> b" and "keeps_one I (fst st)"
    and "a < length (fst st)" and "b < length (fst st)"
  shows "keeps_one I (fst (consolidate_pair (a, b) st)) \<and>
    (\<forall>i<length (fst st). i \<notin> I \<longrightarrow> fst (consolidate_pair (a, b) st) ! i = fst st ! i)"
  using assms by (cases st) (auto simp: consolidate_pair_def Let_def keeps_one_def nth_list_update)

lemma consolidate_fold_one:
  assumes "\<forall>(a, b)\<in>set ps. a \<in> I \<and> b \<in> I \<and> a \<noteq> b \<and> a < length (fst st) \<and> b < length (fst st)"
    and "keeps_one I (fst st)"
  shows "keeps_one I (fst (fold consolidate_pair ps st)) \<and>
    (\<forall>i<length (fst st). i \<notin> I \<longrightarrow> fst (fold consolidate_pair ps st) ! i = fst st ! i)"
  using assms
proof (induction ps arbitrary: st)
  case (Cons p ps)
  obtain a b where p: "p = (a, b)" by (cases p)
  have len: "length (fst (consolidate_pair p st)) = length (fst st)"
    using consolidate_pair_buried [of st p] by (simp add: buried_from_def)
  have one: "keeps_one I (fst (consolidate_pair p st)) \<and>
      (\<forall>i<length (fst st). i \<notin> I \<longrightarrow> fst (consolidate_pair p st) ! i = fst st ! i)"
    using consolidate_pair_one [of a I b st] Cons.prems p by auto
  have "\<forall>(a, b)\<in>set ps. a \<in> I \<and> b \<in> I \<and> a \<noteq> b \<and> a < length (fst (consolidate_pair p st)) \<and> b < length (fst (consolidate_pair p st))"
    using Cons.prems(1) len by auto
  from Cons.IH [OF this] one len show ?case by simp
qed simp

text \<open>
  C35: After a consolidation no two live memories of the agent are similar; the agent keeps at least one
  memory if it had one; memories of other agents and forgotten ones are as before, and of the agent's own
  only tombstones have changed.
\<close>

theorem consolidate_correct:
  assumes "filter (live_of agent) (am_entries m) \<noteq> []"
  shows "let es = am_entries m; fs = am_entries (snd (consolidate agent m)) in
    buried_from es fs \<and> filter (live_of agent) fs \<noteq> [] \<and>
    (\<forall>i<length es. \<not> live_of agent (es ! i) \<longrightarrow> fs ! i = es ! i) \<and>
    (\<forall>a<length es. \<forall>b<length es. a < b \<and> live_of agent (fs ! a) \<and> live_of agent (fs ! b) \<longrightarrow> \<not> similar (fs ! a) (fs ! b))"
proof -
  let ?es = "am_entries m" and ?ps = "index_pairs (live_indices agent m)"
  let ?fs = "fst (fold consolidate_pair ?ps (?es, 0))"
  have fs: "am_entries (snd (consolidate agent m)) = ?fs" by (simp add: consolidate_def split_beta)
  have pairs: "(a, b) \<in> set ?ps \<longleftrightarrow> a \<in> set (live_indices agent m) \<and> b \<in> set (live_indices agent m) \<and> a < b" for a b
    by (rule index_pairs_sorted [OF sorted_live_indices])
  have bur: "buried_from ?es ?fs" using consolidate_fold_buried [of "(?es, 0)" ?ps] by simp
  obtain e where "e \<in> set ?es" "live_of agent e" using assms by (auto simp: filter_empty_conv)
  then obtain i where "i < length ?es" "live_of agent (?es ! i)" by (auto simp: in_set_conv_nth)
  then have "keeps_one (set (live_indices agent m)) ?es"
    by (auto simp: keeps_one_def set_live_indices live_of_def)
  then have one: "keeps_one (set (live_indices agent m)) ?fs \<and>
      (\<forall>i<length ?es. i \<notin> set (live_indices agent m) \<longrightarrow> ?fs ! i = ?es ! i)"
    using consolidate_fold_one [of ?ps "set (live_indices agent m)" "(?es, 0)"] pairs
    by (auto simp: set_live_indices)
  then obtain j where j: "j \<in> set (live_indices agent m)" "j < length ?fs" "\<not> me_tombstone (?fs ! j)"
    by (auto simp: keeps_one_def)
  then have "live_of agent (?fs ! j)"
    using buried_embedding [OF bur, of j] by (auto simp: set_live_indices live_of_def)
  then have "filter (live_of agent) ?fs \<noteq> []" using j(2) by (auto simp: filter_empty_conv)
  moreover have "?fs ! i = ?es ! i" if "i < length ?es" "\<not> live_of agent (?es ! i)" for i
    using one that by (auto simp: set_live_indices)
  moreover have "\<not> similar (?fs ! a) (?fs ! b)"
    if ab: "a < length ?es" "b < length ?es" "a < b" "live_of agent (?fs ! a)" "live_of agent (?fs ! b)" for a b
  proof -
    have "live_of agent (?es ! i)" if "i < length ?es" "live_of agent (?fs ! i)" for i
      using bur that buried_embedding [OF bur that(1)] by (auto simp: live_of_def buried_from_def)
    with ab have "(a, b) \<in> set ?ps" by (simp add: pairs set_live_indices)
    moreover have "\<forall>(a, b)\<in>set ?ps. a < length (fst (?es, 0 :: u32)) \<and> b < length (fst (?es, 0 :: u32))"
      using pairs by (auto simp: set_live_indices)
    ultimately have "apart ?fs a b" using consolidate_fold_apart [of ?ps "(?es, 0)" a b] by simp
    with ab(4,5) show ?thesis by (simp add: apart_def live_of_def)
  qed
  ultimately show ?thesis using bur unfolding Let_def fs by blast
qed

subsection \<open>Forgetting\<close>

datatype mem_op =
    Remember uuid ustring ustring remember_options
  | Forget uuid
  | Consolidate ustring
  | DecayAll

fun mem_apply :: "casing \<Rightarrow> mem_op \<Rightarrow> agent_memory \<Rightarrow> agent_memory" where
  "mem_apply T (Remember i agent content opts) m = snd (remember T i agent content opts m)"
| "mem_apply T (Forget i) m = (case forget i m of None \<Rightarrow> m | Some m' \<Rightarrow> m')"
| "mem_apply T (Consolidate agent) m = snd (consolidate agent m)"
| "mem_apply T DecayAll m = decay_all m"

definition buried_id :: "uuid \<Rightarrow> agent_memory \<Rightarrow> bool" where
  "buried_id i m \<longleftrightarrow> (\<forall>e\<in>set (am_entries m). me_id e = i \<longrightarrow> me_tombstone e)"

lemma bury_first_ids: "bury_first i es = Some fs \<Longrightarrow>
    map me_id fs = map me_id es \<and> (\<forall>e\<in>set fs. e \<in> set es \<or> me_tombstone e)"
  by (induction es arbitrary: fs) (auto split: if_splits)

lemma bury_first_buries: "bury_first i es = Some fs \<Longrightarrow> distinct (map me_id es) \<Longrightarrow>
    \<forall>e\<in>set fs. me_id e = i \<longrightarrow> me_tombstone e"
proof (induction es arbitrary: fs)
  case (Cons e es)
  show ?case
  proof (cases "me_id e = i")
    case True
    with Cons.prems have "fs = e\<lparr>me_tombstone := True\<rparr> # es" "i \<notin> me_id ` set es" by auto
    then show ?thesis by (auto simp: image_iff)
  next
    case False
    with Cons show ?thesis by auto
  qed
qed simp

lemma buried_id_apply:
  assumes "buried_id i m" and "\<And>agent content opts. op \<noteq> Remember i agent content opts"
  shows "buried_id i (mem_apply T op m)"
proof (cases op)
  case (Remember j agent content opts)
  with assms show ?thesis by (auto simp: buried_id_def remember_def Let_def)
next
  case (Forget j)
  then show ?thesis using assms(1) bury_first_ids [of j "am_entries m"]
    by (auto simp: buried_id_def forget_def split: option.splits)
next
  case (Consolidate agent)
  have b: "buried_from (am_entries m) (am_entries (snd (consolidate agent m)))"
    using consolidate_fold_buried [of "(am_entries m, 0)"] by (simp add: consolidate_def split_beta)
  have "me_tombstone e" if "e \<in> set (am_entries (snd (consolidate agent m)))" "me_id e = i" for e
  proof -
    note mem = that(1)
    obtain k where "k < length (am_entries (snd (consolidate agent m)))" and e: "e = am_entries (snd (consolidate agent m)) ! k"
      using mem by (auto simp: in_set_conv_nth)
    then have k: "k < length (am_entries m)" "e = am_entries (snd (consolidate agent m)) ! k"
      using b by (simp_all add: buried_from_def)
    then have "me_id (am_entries m ! k) = i" using that(2) buried_embedding [OF b k(1)] by simp
    with assms(1) k(1) have "me_tombstone (am_entries m ! k)" by (simp add: buried_id_def)
    with b k show ?thesis by (simp add: buried_from_def)
  qed
  with Consolidate show ?thesis by (simp add: buried_id_def)
next
  case DecayAll
  with assms(1) show ?thesis by (auto simp: buried_id_def decay_all_def)
qed

text \<open>
  A forgotten memory stays forgotten: whatever memories are added under other ids, forgotten,
  consolidated or decayed afterwards, no recall returns it.
\<close>

theorem forgotten_never_recalled:
  assumes "forget i m = Some m1" and "distinct (map me_id (am_entries m))"
    and "i \<notin> {j. \<exists>agent content opts. Remember j agent content opts \<in> set ops}"
  shows "i \<notin> memory_id ` set (recall T agent query w k (fold (mem_apply T) ops m1))"
proof -
  have "buried_id i m1"
    using assms(1,2) bury_first_buries by (auto simp: forget_def buried_id_def)
  then have "buried_id i (fold (mem_apply T) ops m1)" using assms(3)
  proof (induction ops arbitrary: m1)
    case (Cons op ops)
    have "buried_id i (mem_apply T op m1)"
      by (rule buried_id_apply) (use Cons.prems in auto)
    moreover have "i \<notin> {j. \<exists>agent content opts. Remember j agent content opts \<in> set ops}" using Cons.prems(2) by auto
    ultimately show ?case using Cons.IH by simp
  qed simp
  then show ?thesis
    using recall_correct [of T agent query w k "fold (mem_apply T) ops m1"]
    unfolding list_all_iff buried_id_def live_of_def by fastforce
qed

subsection \<open>Samples\<close>

definition sample_memory :: agent_memory where
  "sample_memory = \<lparr>am_entries = [\<lparr>me_id = [1], me_agent = [97], me_content = [], me_embedding = [],
     me_importance = f32_one, me_type = SemanticMemory, me_decay_rate = f32_zero, me_created_at = 0,
     me_last_accessed = 0, me_access_count = 0, me_confidence = f32_one, me_tombstone = False\<rparr>], am_clock = 1\<rparr>"

definition sample_casing :: casing where
  "sample_casing = \<lparr>lower_table = id, upper_table = id\<rparr>"

definition sample_weights :: recall_weights where
  "sample_weights = \<lparr>w_semantic = f32_one, w_recency = f32_one, w_importance = f32_one\<rparr>"

theorem recall_correct_witness:
  "length (recall sample_casing [97] [] sample_weights 3 sample_memory) = 1 \<and>
   mset (map memory_id (recall sample_casing [97] [] sample_weights 3 sample_memory)) = {#[1]#}"
  using recall_correct [of sample_casing "[97]" "[]" sample_weights 3 sample_memory]
  by (simp add: sample_memory_def live_of_def)

theorem consolidate_correct_witness:
  "filter (live_of [97]) (am_entries (snd (consolidate [97] sample_memory))) \<noteq> []"
  using consolidate_correct [of "[97]" sample_memory] by (simp add: sample_memory_def live_of_def Let_def)

theorem forgotten_never_recalled_witness:
  "\<exists>m1. forget [1] sample_memory = Some m1 \<and>
     [1] \<notin> memory_id ` set (recall sample_casing [97] [] sample_weights 3 (fold (mem_apply sample_casing) [DecayAll] m1))"
proof -
  obtain m1 where m1: "forget [1] sample_memory = Some m1" by (simp add: forget_def sample_memory_def)
  have "[1] \<notin> memory_id ` set (recall sample_casing [97] [] sample_weights 3 (fold (mem_apply sample_casing) [DecayAll] m1))"
    by (rule forgotten_never_recalled [OF m1]) (simp_all add: sample_memory_def)
  with m1 show ?thesis by blast
qed

end
