(* ===== verification/Contradictions.thy ===== *)
theory Contradictions
  imports Vectors Record_Types "HOL-Library.Sublist"
begin

text \<open>
  The rules for confidences and contradictions of \<open>crates/fundb-cognitive\<close>, \<open>confidence.rs\<close> and
  \<open>contradiction.rs\<close>, and the confidence index of \<open>crates/fundb-indexes/src/confidence.rs\<close>. The clock
  readings of \<open>auto_link\<close> are arguments.
\<close>

subsection \<open>Propagation of confidences (confidence.rs)\<close>

definition f32_0_1 :: f32 where "f32_0_1 = 0x3DCCCCCD"
definition f32_0_2 :: f32 where "f32_0_2 = 0x3E4CCCCD"
definition f32_0_3 :: f32 where "f32_0_3 = 0x3E99999A"
definition f32_0_5 :: f32 where "f32_0_5 = 0x3F000000"
definition f32_0_7 :: f32 where "f32_0_7 = 0x3F333333"

definition propagate_join :: "f32 \<Rightarrow> f32 \<Rightarrow> f32" where
  "propagate_join a b = f32_min a b"

definition propagate_union :: "f32 \<Rightarrow> f32 \<Rightarrow> f32" where
  "propagate_union a b = f32_max a b"

definition propagate_aggregate :: "(f32 \<times> f32) list \<Rightarrow> f32" where
  "propagate_aggregate scores =
     (if scores = [] then f32_zero
      else
        let (weighted_sum, weight_sum) =
              foldl (\<lambda>(ws, wt) (c, w). (f32_add ws (f32_mul c w), f32_add wt w)) (f32_zero, f32_zero) scores
        in if f32_eq_zero weight_sum then f32_zero else f32_div weighted_sum weight_sum)"

definition propagate_graph_path :: "f32 list \<Rightarrow> f32 list \<Rightarrow> f32" where
  "propagate_graph_path nodes edges = foldl f32_mul f32_one (nodes @ edges)"

definition propagate_negation :: "f32 \<Rightarrow> f32" where
  "propagate_negation c = f32_sub f32_one c"

definition confidence_for_n_equal_contradictions :: "u32 \<Rightarrow> f32" where
  "confidence_for_n_equal_contradictions n =
     (if n = 0 then f32_0_5
      else f32_add f32_0_5 (f32_div f32_one (f32_mul (int_as_f32 2) (int_as_f32 (uint n)))))"

definition update_on_corroboration :: "f32 \<Rightarrow> f32" where
  "update_on_corroboration current = f32_min (f32_add current f32_0_1) f32_one"

definition update_on_contradiction :: "f32 \<Rightarrow> f32 \<Rightarrow> f32" where
  "update_on_contradiction current c = f32_max (f32_sub current (f32_mul f32_0_2 c)) f32_zero"

subsection \<open>Contradiction detection (contradiction.rs)\<close>

datatype polarity = Conflicting | Corroborating

record contradiction_candidate =
  existing_id :: uuid
  cc_similarity :: f32
  cc_polarity :: polarity

record contradiction_event =
  record_a_id :: uuid
  record_b_id :: uuid
  ev_strength :: f32
  ev_polarity :: polarity

definition tags_of :: "fun_record \<Rightarrow> string list" where
  "tags_of r = map src_origin (filter (\<lambda>s. \<not> prefix ''contradicts:'' (src_origin s)) (rec_sources r))"

definition tag_similarity :: "string list \<Rightarrow> string list \<Rightarrow> f32" where
  "tag_similarity new_tags cand_tags =
     (let denom = int_as_f32 (int (max (max (length new_tags) (length cand_tags)) 1));
          intersection = int_as_f32 (int (length (filter (\<lambda>t. t \<in> set cand_tags) new_tags)))
      in f32_div intersection denom)"

definition cosine_text_similarity :: "fun_record \<Rightarrow> fun_record \<Rightarrow> f32" where
  "cosine_text_similarity a b =
     (case bt_get (rec_vectors a) ''text'' of
        None \<Rightarrow> f32_zero
      | Some va \<Rightarrow>
          (case bt_get (rec_vectors b) ''text'' of
             None \<Rightarrow> f32_zero
           | Some vb \<Rightarrow>
               let dot = dot32 va vb; na = norm32 va; nb = norm32 vb
               in if f32_eq_zero na \<or> f32_eq_zero nb then f32_zero
                  else f32_clamp f32_minus_one f32_one (f32_div dot (f32_mul na nb))))"

definition is_negation_pair :: "string \<Rightarrow> string \<Rightarrow> bool" where
  "is_negation_pair new_tag candidate_tag =
     (if candidate_tag = ''not_'' @ new_tag then True
      else if prefix ''not_'' candidate_tag \<or> prefix ''no_'' candidate_tag then True
      else if sublist ''anti'' candidate_tag then True
      else suffix ''_false'' candidate_tag)"

definition polarity_with_sim_internal ::
  "string list \<Rightarrow> string list \<Rightarrow> f32 \<Rightarrow> f32 \<Rightarrow> f32 \<Rightarrow> polarity" where
  "polarity_with_sim_internal new_tags cand_tags new_conf cand_conf similarity =
     (if \<exists>t\<in>set new_tags. \<exists>c\<in>set cand_tags. is_negation_pair t c then Conflicting
      else if f32_lt f32_0_7 similarity \<and> f32_lt f32_0_5 (f32_abs (f32_sub new_conf cand_conf)) then Conflicting
      else Corroborating)"

definition polarity_with_sim :: "fun_record \<Rightarrow> fun_record \<Rightarrow> f32 \<Rightarrow> polarity" where
  "polarity_with_sim a b similarity =
     polarity_with_sim_internal (tags_of a) (tags_of b) (rec_confidence a) (rec_confidence b) similarity"

definition record_similarity :: "fun_record \<Rightarrow> fun_record \<Rightarrow> f32" where
  "record_similarity a b = f32_max (tag_similarity (tags_of a) (tags_of b)) (cosine_text_similarity a b)"

definition polarity_of :: "fun_record \<Rightarrow> fun_record \<Rightarrow> polarity" where
  "polarity_of a b = polarity_with_sim a b (record_similarity a b)"

definition check_candidate :: "fun_record \<Rightarrow> fun_record \<Rightarrow> contradiction_candidate option" where
  "check_candidate new candidate =
     (let similarity = record_similarity new candidate
      in if f32_le similarity f32_0_3 then None
         else Some \<lparr>existing_id = rec_id candidate, cc_similarity = similarity,
                cc_polarity = polarity_with_sim new candidate similarity\<rparr>)"

definition check_insert :: "fun_record \<Rightarrow> fun_record list \<Rightarrow> contradiction_candidate list" where
  "check_insert new candidates = by_desc cc_similarity (List.map_filter (check_candidate new) candidates)"

definition contradicts_source :: "uuid \<Rightarrow> timestamp \<Rightarrow> f32 \<Rightarrow> source" where
  "contradicts_source other now strength' =
     \<lparr>src_origin = ''contradicts:'' @ hex_bytes other, src_timestamp = now, src_method = Inference,
      src_confidence = strength'\<rparr>"

definition auto_link ::
  "timestamp \<Rightarrow> timestamp \<Rightarrow> f32 \<Rightarrow> fun_record \<Rightarrow> fun_record \<Rightarrow> fun_record \<times> fun_record" where
  "auto_link now_a now_b strength' a b =
     (let decay = (\<lambda>c. f32_max (f32_sub c (f32_mul f32_0_2 strength')) f32_zero)
      in (a\<lparr>rec_confidence := decay (rec_confidence a),
            rec_sources := rec_sources a @ [contradicts_source (rec_id b) now_a strength']\<rparr>,
          b\<lparr>rec_confidence := decay (rec_confidence b),
            rec_sources := rec_sources b @ [contradicts_source (rec_id a) now_b strength']\<rparr>))"

subsection \<open>The confidence index\<close>

type_synonym confidence_index = "(uuid \<times> f32) list"

definition ci_new :: confidence_index where
  "ci_new = []"

definition ci_insert :: "uuid \<Rightarrow> f32 \<Rightarrow> confidence_index \<Rightarrow> confidence_index" where
  "ci_insert i c ix = ix @ [(i, c)]"

definition ci_range :: "f32 \<Rightarrow> f32 \<Rightarrow> confidence_index \<Rightarrow> uuid list" where
  "ci_range lo hi ix = map fst (filter (\<lambda>(_, c). f32_le lo c \<and> f32_le c hi) ix)"

text \<open>\<open>round\<close>: to the nearest integer, half away from zero; \<open>as usize\<close> is zero below zero and on a NaN.\<close>

fun round_as_usize :: "ieee \<Rightarrow> nat" where
  "round_as_usize FNan = 0"
| "round_as_usize (FInf s) = (if s then 0 else 2 ^ 64 - 1)"
| "round_as_usize (FFin s m e) =
     (if s then 0
      else min (2 ^ 64 - 1) (if 0 \<le> e then m * 2 ^ nat e else (2 * m + 2 ^ nat (- e)) div (2 * 2 ^ nat (- e))))"

definition bucket_of :: "f32 \<Rightarrow> nat" where
  "bucket_of c = min (round_as_usize (f32_val (f32_mul c (int_as_f32 100)))) 99"

definition ci_histogram :: "confidence_index \<Rightarrow> u32 list" where
  "ci_histogram ix = fold (\<lambda>(_, c) b. b[bucket_of c := b ! bucket_of c + 1]) ix (replicate 100 0)"

fun ci_update :: "uuid \<Rightarrow> f32 \<Rightarrow> confidence_index \<Rightarrow> confidence_index" where
  "ci_update i c [] = []"
| "ci_update i c ((j, d) # ix) = (if j = i then (j, c) # ix else (j, d) # ci_update i c ix)"

definition ci_len :: "confidence_index \<Rightarrow> nat" where
  "ci_len ix = length ix"

definition ci_is_empty :: "confidence_index \<Rightarrow> bool" where
  "ci_is_empty ix \<longleftrightarrow> ix = []"

end
