(* ===== verification/Context_Window.thy ===== *)
theory Context_Window
  imports Contradictions
begin

text \<open>
  The selection of records for a context window, \<open>crates/fundb-cognitive/src/context.rs\<close>: maximal marginal
  relevance under a token budget. Token counts are u32 and wrap.
\<close>

datatype sort_by_key = ByConfidence | ByRelevance | ByRecency

record context_options =
  max_tokens :: u32
  coherence :: f32
  diversity :: f32
  include_contradictions :: bool
  priority :: "sort_by_key list"

definition context_options_default :: context_options where
  "context_options_default = \<lparr>max_tokens = 512, coherence = f32_zero, diversity = f32_0_5,
     include_contradictions = False, priority = []\<rparr>"

record context_metadata =
  tokens_used :: u32
  tokens_budget :: u32
  coverage_score :: f32
  coherence_score :: f32
  diversity_score :: f32
  avg_confidence :: f32
  contradictions_found :: u32
  candidates_evaluated :: u32
  candidates_selected :: u32

type_synonym candidate = "fun_record \<times> f32"

definition token_cost :: "fun_record \<Rightarrow> u32" where
  "token_cost r = 50 + sum_list (map (\<lambda>(_, v). as_u32 (length v) * 6) (rec_vectors r)) + 10"

subsection \<open>Similarity\<close>

fun shared_vectors :: "(string \<times> f32 list) list \<Rightarrow> (string, f32 list) btree_map \<Rightarrow> (f32 list \<times> f32 list) option" where
  "shared_vectors [] bv = None"
| "shared_vectors ((k, v) # av) bv =
     (case bt_get bv k of Some w \<Rightarrow> Some (v, w) | None \<Rightarrow> shared_vectors av bv)"

definition vector_pair :: "fun_record \<Rightarrow> fun_record \<Rightarrow> (f32 list \<times> f32 list) option" where
  "vector_pair a b =
     (case shared_vectors (rec_vectors a) (rec_vectors b) of
        Some p \<Rightarrow> Some p
      | None \<Rightarrow>
          (case (rec_vectors a, rec_vectors b) of
             ((_, va) # _, (_, vb) # _) \<Rightarrow> Some (va, vb)
           | _ \<Rightarrow> None))"

definition ctx_cosine_sim :: "fun_record \<Rightarrow> fun_record \<Rightarrow> f32" where
  "ctx_cosine_sim a b =
     (case vector_pair a b of
        None \<Rightarrow> f32_zero
      | Some (va, vb) \<Rightarrow>
          let n = min (length va) (length vb)
          in if n = 0 then f32_zero
             else
               let dot = dot32 (take n va) (take n vb); na = norm32 (take n va); nb = norm32 (take n vb)
               in if f32_eq_zero na \<or> f32_eq_zero nb then f32_zero else f32_div dot (f32_mul na nb))"

fun pairs_of :: "'a list \<Rightarrow> ('a \<times> 'a) list" where
  "pairs_of [] = []"
| "pairs_of (x # xs) = map (\<lambda>y. (x, y)) xs @ pairs_of xs"

definition mean_pairwise_cosine :: "fun_record list \<Rightarrow> f32" where
  "mean_pairwise_cosine rs =
     (if length rs < 2 then f32_zero
      else
        let (sum, n) = foldl (\<lambda>(sum, n :: u32) (a, b). (f32_add sum (ctx_cosine_sim a b), n + 1)) (f32_zero, 0) (pairs_of rs)
        in if n = 0 then f32_zero else f32_div sum (int_as_f32 (uint n)))"

definition max_sim_to_selected :: "fun_record \<Rightarrow> fun_record list \<Rightarrow> f32" where
  "max_sim_to_selected c selected = foldl f32_max f32_zero (map (ctx_cosine_sim c) selected)"

subsection \<open>Selection\<close>

definition cmp_recency :: "candidate \<Rightarrow> candidate \<Rightarrow> ordering" where
  "cmp_recency a b =
     (let x = rec_valid_from (fst a); y = rec_valid_from (fst b)
      in if y < x then OLess else if x < y then OGreater else OEqual)"

definition priority_sort :: "context_options \<Rightarrow> candidate list \<Rightarrow> candidate list" where
  "priority_sort opts cs =
     (case priority opts of
        [] \<Rightarrow> cs
      | ByConfidence # _ \<Rightarrow> by_desc (\<lambda>c. rec_confidence (fst c)) cs
      | ByRelevance # _ \<Rightarrow> by_desc snd cs
      | ByRecency # _ \<Rightarrow> sort_by cmp_recency cs)"

definition low_confidence :: "fun_record \<Rightarrow> bool" where
  "low_confidence r \<longleftrightarrow> f32_lt (rec_confidence r) f32_0_3"

definition contradiction_idx :: "candidate list \<Rightarrow> nat list" where
  "contradiction_idx cs = filter (\<lambda>i. low_confidence (fst (cs ! i))) [0..<length cs]"

text \<open>The state of the selection: the records chosen, the tokens used, the indices not yet chosen.\<close>

type_synonym selection = "fun_record list \<times> u32 \<times> nat list"

definition force_include :: "context_options \<Rightarrow> candidate list \<Rightarrow> selection \<Rightarrow> selection" where
  "force_include opts cs st =
     (case contradiction_idx cs of
        [] \<Rightarrow> st
      | i # _ \<Rightarrow>
          let (selected, used, remaining) = st; r = fst (cs ! i); cost = token_cost r
          in if used + cost \<le> max_tokens opts + cost
             then (selected @ [r], used + cost, filter (\<lambda>j. j \<noteq> i) remaining)
             else st)"

definition skipped :: "context_options \<Rightarrow> fun_record list \<Rightarrow> u32 \<Rightarrow> fun_record \<Rightarrow> bool" where
  "skipped opts selected used r \<longleftrightarrow>
     used + token_cost r > max_tokens opts \<or>
     f32_lt f32_zero (coherence opts) \<and> selected \<noteq> [] \<and> f32_lt (max_sim_to_selected r selected) (coherence opts)"

definition mmr_score :: "context_options \<Rightarrow> fun_record list \<Rightarrow> candidate \<Rightarrow> f32" where
  "mmr_score opts selected c =
     f32_sub (f32_mul (diversity opts) (snd c))
       (f32_mul (f32_sub f32_one (diversity opts)) (max_sim_to_selected (fst c) selected))"

definition ctx_neg_infinity :: f32 where
  "ctx_neg_infinity = 0xFF800000"

fun best_candidate ::
  "context_options \<Rightarrow> candidate list \<Rightarrow> fun_record list \<Rightarrow> u32 \<Rightarrow> nat \<Rightarrow> nat list \<Rightarrow> nat option \<Rightarrow> f32 \<Rightarrow> nat option" where
  "best_candidate opts cs selected used pos [] best best_mmr = best"
| "best_candidate opts cs selected used pos (i # is) best best_mmr =
     (if skipped opts selected used (fst (cs ! i)) then best_candidate opts cs selected used (Suc pos) is best best_mmr
      else if f32_lt best_mmr (mmr_score opts selected (cs ! i))
      then best_candidate opts cs selected used (Suc pos) is (Some pos) (mmr_score opts selected (cs ! i))
      else best_candidate opts cs selected used (Suc pos) is best best_mmr)"

definition pick_best ::
  "context_options \<Rightarrow> candidate list \<Rightarrow> fun_record list \<Rightarrow> u32 \<Rightarrow> nat list \<Rightarrow> nat option" where
  "pick_best opts cs selected used remaining =
     best_candidate opts cs selected used 0 remaining None ctx_neg_infinity"

lemma best_candidate_pos:
  "best_candidate opts cs selected used pos is best m = Some p \<Longrightarrow>
     best = Some p \<or> (pos \<le> p \<and> p < pos + length is \<and> \<not> skipped opts selected used (fst (cs ! (is ! (p - pos)))))"
proof (induction opts cs selected used pos "is" best m rule: best_candidate.induct)
  case (2 opts cs selected used pos i "is" best m)
  have later: "p - pos = Suc (p - Suc pos)" if "Suc pos \<le> p" using that by simp
  show ?case
    using 2 later by (auto split: if_splits)
qed simp

lemma pick_best_Some:
  assumes "pick_best opts cs selected used remaining = Some p"
  shows "p < length remaining" and "\<not> skipped opts selected used (fst (cs ! (remaining ! p)))"
  using best_candidate_pos [OF assms [unfolded pick_best_def]] by auto

definition remove_pos :: "nat \<Rightarrow> 'a list \<Rightarrow> 'a list" where
  "remove_pos p xs = take p xs @ drop (Suc p) xs"

function mmr_loop :: "context_options \<Rightarrow> candidate list \<Rightarrow> selection \<Rightarrow> selection" where
  "mmr_loop opts cs (selected, used, remaining) =
     (case pick_best opts cs selected used remaining of
        None \<Rightarrow> (selected, used, remaining)
      | Some p \<Rightarrow>
          let r = fst (cs ! (remaining ! p))
          in mmr_loop opts cs (selected @ [r], used + token_cost r, remove_pos p remaining))"
  by pat_completeness auto

termination mmr_loop
  by (relation "measure (\<lambda>(opts, cs, selected, used, remaining). length remaining)")
    (auto simp: remove_pos_def dest!: pick_best_Some(1))

declare mmr_loop.simps [simp del]

definition metadata_of :: "context_options \<Rightarrow> nat \<Rightarrow> fun_record list \<Rightarrow> u32 \<Rightarrow> context_metadata" where
  "metadata_of opts candidate_count selected used =
     (let evaluated = as_u32 candidate_count; n = as_u32 (length selected); coh = mean_pairwise_cosine selected
      in \<lparr>tokens_used = used, tokens_budget = max_tokens opts,
          coverage_score = f32_div (int_as_f32 (uint n)) (int_as_f32 (uint (max evaluated 1))),
          coherence_score = coh, diversity_score = f32_sub f32_one coh,
          avg_confidence = (if selected = [] then f32_zero
            else f32_div (f32_sum (map rec_confidence selected)) (int_as_f32 (int (length selected)))),
          contradictions_found = as_u32 (length (filter low_confidence selected)),
          candidates_evaluated = evaluated, candidates_selected = n\<rparr>)"

definition start_selection :: "context_options \<Rightarrow> candidate list \<Rightarrow> selection" where
  "start_selection opts cs =
     (let start = ([], 0, [0..<length cs])
      in if include_contradictions opts then force_include opts cs start else start)"

definition context_select ::
  "candidate list \<Rightarrow> context_options \<Rightarrow> fun_record list \<times> context_metadata" where
  "context_select candidates opts =
     (if candidates = [] then
        ([], \<lparr>tokens_used = 0, tokens_budget = max_tokens opts, coverage_score = f32_zero,
              coherence_score = f32_zero, diversity_score = f32_one, avg_confidence = f32_zero,
              contradictions_found = 0, candidates_evaluated = 0, candidates_selected = 0\<rparr>)
      else
        let cs = priority_sort opts candidates;
            (selected, used, _) = mmr_loop opts cs (start_selection opts cs)
        in (selected, metadata_of opts (length candidates) selected used))"

subsection \<open>The budget\<close>

text \<open>
  What the loop keeps: the chosen records and those still to choose are the candidates, the tokens are
  the sum of the costs.
\<close>

definition selection_ok :: "candidate list \<Rightarrow> selection \<Rightarrow> bool" where
  "selection_ok cs st \<longleftrightarrow> (\<forall>i\<in>set (snd (snd st)). i < length cs) \<and>
     mset (fst st) + mset (map (\<lambda>i. fst (cs ! i)) (snd (snd st))) = mset (map fst cs) \<and>
     fst (snd st) = sum_list (map token_cost (fst st))"

lemma mset_remove_pos: "p < length xs \<Longrightarrow> mset xs = add_mset (xs ! p) (mset (remove_pos p xs))"
  by (metis append_take_drop_id id_take_nth_drop mset.simps(2) mset_append remove_pos_def union_mset_add_mset_right)

lemma mmr_loop_ok:
  "selection_ok cs st \<Longrightarrow> selection_ok cs (mmr_loop opts cs st) \<and>
     (fst (snd st) \<le> max_tokens opts \<longrightarrow> fst (snd (mmr_loop opts cs st)) \<le> max_tokens opts)"
proof (induction opts cs st rule: mmr_loop.induct)
  case (1 opts cs selected used remaining)
  show ?case
  proof (cases "pick_best opts cs selected used remaining")
    case None
    with 1 show ?thesis by (simp add: mmr_loop.simps)
  next
    case (Some p)
    let ?r = "fst (cs ! (remaining ! p))"
    let ?st = "(selected @ [?r], used + token_cost ?r, remove_pos p remaining)"
    have p: "p < length remaining" and fits: "used + token_cost ?r \<le> max_tokens opts"
      using pick_best_Some [OF Some] by (auto simp: skipped_def)
    have m: "mset remaining = add_mset (remaining ! p) (mset (remove_pos p remaining))"
      by (rule mset_remove_pos [OF p])
    then have "mset (map (\<lambda>i. fst (cs ! i)) remaining) =
        add_mset ?r (mset (map (\<lambda>i. fst (cs ! i)) (remove_pos p remaining)))" by simp
    moreover have "set (remove_pos p remaining) \<subseteq> set remaining"
      using m by (metis set_mset_add_mset_insert set_mset_mset subset_insertI)
    ultimately have "selection_ok cs ?st" using "1.prems" by (auto simp: selection_ok_def)
    from "1.IH" [OF Some refl this] fits show ?thesis by (simp add: mmr_loop.simps [of opts cs selected] Some Let_def)
  qed
qed

lemma mset_filter_neq: "distinct xs \<Longrightarrow> i \<in> set xs \<Longrightarrow> mset xs = add_mset i (mset (filter (\<lambda>j. j \<noteq> i) xs))"
proof (induction xs)
  case (Cons x xs)
  show ?case
  proof (cases "i = x")
    case True
    with Cons.prems(1) have "filter (\<lambda>j. j \<noteq> i) xs = xs" by (auto intro: filter_True)
    with True show ?thesis by (simp del: mset_filter)
  qed (use Cons in auto)
qed simp

lemma force_include_ok:
  assumes "selection_ok cs ([], 0, [0..<length cs])"
  shows "selection_ok cs (force_include opts cs ([], 0, [0..<length cs]))"
proof (cases "contradiction_idx cs")
  case (Cons i rest)
  then have i: "i < length cs" by (metis (no_types, lifting) atLeastLessThan_iff contradiction_idx_def
        filter_is_subset in_mono list.set_intros(1) set_upt)
  have "mset [0..<length cs] = add_mset i (mset (filter (\<lambda>j. j \<noteq> i) [0..<length cs]))"
    by (rule mset_filter_neq) (use i in simp_all)
  then have "mset (map (\<lambda>j. fst (cs ! j)) [0..<length cs]) =
      add_mset (fst (cs ! i)) (mset (map (\<lambda>j. fst (cs ! j)) (filter (\<lambda>j. j \<noteq> i) [0..<length cs])))"
    by simp
  with assms Cons show ?thesis by (auto simp: force_include_def selection_ok_def Let_def)
qed (use assms in \<open>simp add: force_include_def\<close>)

text \<open>The loop adds a record only within the budget.\<close>

lemma mmr_loop_fits:
  "fst (snd (mmr_loop opts cs st)) \<le> max_tokens opts \<or> mmr_loop opts cs st = st"
proof (induction opts cs st rule: mmr_loop.induct)
  case (1 opts cs selected used remaining)
  show ?case
  proof (cases "pick_best opts cs selected used remaining")
    case None
    then show ?thesis by (simp add: mmr_loop.simps)
  next
    case (Some p)
    then have "used + token_cost (fst (cs ! (remaining ! p))) \<le> max_tokens opts"
      using pick_best_Some(2) [OF Some] by (auto simp: skipped_def)
    with "1.IH" [OF Some refl] show ?thesis
      by (auto simp: mmr_loop.simps [of opts cs selected used] Some Let_def)
  qed
qed

text \<open>The selection starts empty, or with one record of low confidence where contradictions are wanted.\<close>

lemma start_selection_cases:
  obtains "fst (snd (start_selection opts cs)) = 0"
  | r used remaining where "start_selection opts cs = ([r], used, remaining)"
      "include_contradictions opts" "low_confidence r"
proof (cases "include_contradictions opts \<and> contradiction_idx cs \<noteq> []")
  case True
  then obtain i rest where i: "contradiction_idx cs = i # rest" by (cases "contradiction_idx cs") auto
  then have "i \<in> set (contradiction_idx cs)" by simp
  then have low: "low_confidence (fst (cs ! i))" by (simp add: contradiction_idx_def)
  let ?cost = "token_cost (fst (cs ! i))"
  have "start_selection opts cs =
      (if ?cost \<le> max_tokens opts + ?cost
       then ([fst (cs ! i)], ?cost, filter (\<lambda>j. j \<noteq> i) [0..<length cs]) else ([], 0, [0..<length cs]))"
    using True i by (simp add: start_selection_def force_include_def Let_def)
  then show thesis using True low that by (cases "?cost \<le> max_tokens opts + ?cost") auto
next
  case False
  then show thesis
    by (intro that(1)) (auto simp: start_selection_def force_include_def Let_def split: list.splits)
qed

end
