(* ===== verification/Contradiction_Properties.thy ===== *)
theory Contradiction_Properties
  imports Contradictions Context_Window Ieee_Facts
begin

text \<open>
  The properties of the confidence rules, of contradiction detection, of the confidence index and of the
  selection for a context window.
\<close>

subsection \<open>Confidences\<close>

lemma zero_not_nan32 [simp]: "\<not> f32_is_nan f32_zero"
  by (simp add: f32_is_nan_def is_nan_def magnitude_def f32_zero_def)

lemma one_not_nan32 [simp]: "\<not> f32_is_nan f32_one"
  by (simp add: f32_is_nan_def is_nan_def magnitude_def f32_one_def)

lemma f32_le_key: "f32_le a b \<longleftrightarrow> \<not> f32_is_nan a \<and> \<not> f32_is_nan b \<and> f32_key a \<le> f32_key b"
  by (simp add: f32_le_def fp_le_def f32_is_nan_def f32_key_def)

lemma f32_lt_key': "f32_lt a b \<longleftrightarrow> \<not> f32_is_nan a \<and> \<not> f32_is_nan b \<and> f32_key a < f32_key b"
  by (simp add: f32_lt_def fp_lt_def f32_is_nan_def f32_key_def)

lemma max_ge: "\<not> f32_is_nan b \<Longrightarrow> f32_le b (f32_max a b)"
  by (auto simp: f32_max_def f32_le_key f32_lt_key')

lemma min_le: "\<not> f32_is_nan b \<Longrightarrow> f32_le (f32_min a b) b"
  by (auto simp: f32_min_def f32_le_key f32_lt_key')

text \<open>
  Whatever the inputs are, NaN and out of range included: a corroboration never raises a confidence above
  one, and neither a contradiction nor the linking of two records leaves a confidence below zero.
\<close>

theorem confidence_updates_bounded:
  "f32_le (update_on_corroboration c) f32_one \<and> f32_le f32_zero (update_on_contradiction c d) \<and>
   f32_le f32_zero (rec_confidence (fst (auto_link t u s a b))) \<and>
   f32_le f32_zero (rec_confidence (snd (auto_link t u s a b)))"
  by (simp add: update_on_corroboration_def update_on_contradiction_def auto_link_def Let_def max_ge min_le)

subsection \<open>Contradictions\<close>

lemma set_map_filter: "set (List.map_filter f xs) = {y. \<exists>x\<in>set xs. f x = Some y}"
  by (induction xs) (auto simp: List.map_filter_simps split: option.splits)

lemma map_filter_conv: "List.map_filter f xs = map (the \<circ> f) (filter (\<lambda>x. f x \<noteq> None) xs)"
  by (induction xs) (auto simp: List.map_filter_simps split: option.splits)

text \<open>
  The check of a new record reports exactly the candidates whose similarity is above 0.3, once each, with
  their similarity and polarity, and in descending order of similarity when no similarity is a NaN.
\<close>

theorem check_insert_exact:
  "mset (map existing_id (check_insert new cs)) =
     mset (map rec_id (filter (\<lambda>c. \<not> f32_le (record_similarity new c) f32_0_3) cs)) \<and>
   list_all (\<lambda>x. \<exists>c\<in>set cs. existing_id x = rec_id c \<and> cc_similarity x = record_similarity new c \<and>
      cc_polarity x = polarity_of new c) (check_insert new cs) \<and>
   (list_ex (\<lambda>c. f32_is_nan (record_similarity new c)) cs \<or>
     sorted_wrt (\<lambda>x y. \<not> f32_lt (cc_similarity x) (cc_similarity y)) (check_insert new cs))"
proof -
  let ?found = "List.map_filter (check_candidate new) cs"
  have ids: "map existing_id ?found = map rec_id (filter (\<lambda>c. \<not> f32_le (record_similarity new c) f32_0_3) cs)"
    by (induction cs) (auto simp: List.map_filter_simps check_candidate_def Let_def)
  have found: "\<exists>c\<in>set cs. existing_id x = rec_id c \<and> cc_similarity x = record_similarity new c \<and>
      cc_polarity x = polarity_of new c" if "x \<in> set ?found" for x
    using that by (auto simp: set_map_filter check_candidate_def Let_def polarity_of_def split: if_splits)
  have "sorted_wrt (\<lambda>x y. \<not> f32_lt (cc_similarity x) (cc_similarity y)) (check_insert new cs)"
    if "list_all (\<lambda>c. \<not> f32_is_nan (record_similarity new c)) cs"
    unfolding check_insert_def by (rule sorted_by_desc) (use that found in \<open>force simp: list_all_iff\<close>)
  moreover have "mset (map existing_id (check_insert new cs)) = image_mset existing_id (mset ?found)"
    by (simp add: check_insert_def)
  moreover have "\<dots> = mset (map existing_id ?found)" by simp
  ultimately show ?thesis using found unfolding ids
    by (auto simp: list_all_iff list_ex_iff check_insert_def)
qed

text \<open>
  The negation test looks for the letters \<open>anti\<close> anywhere in a tag. Any tag that contains them, such as
  \<open>quantity\<close>, makes a record conflict with every record that has a tag at all, itself included.
\<close>

theorem anti_tag_conflicts:
  assumes "t \<in> set (tags_of b)" and "sublist ''anti'' t" and "tags_of a \<noteq> []"
  shows "polarity_of a b = Conflicting \<and> polarity_of b b = Conflicting"
proof -
  have "is_negation_pair x t" for x using assms(2) by (simp add: is_negation_pair_def)
  moreover have "set (tags_of a) \<noteq> {}" "set (tags_of b) \<noteq> {}" using assms(1,3) by auto
  ultimately show ?thesis using assms(1)
    unfolding polarity_of_def polarity_with_sim_def polarity_with_sim_internal_def by (metis all_not_in_conv)
qed

definition tagged :: "string \<Rightarrow> fun_record" where
  "tagged t = builder_build [1] 0 (builder_source
     \<lparr>src_origin = t, src_timestamp = 0, src_method = Import, src_confidence = f32_one\<rparr> (builder_new ''c''))"

lemma tags_of_tagged: "\<not> prefix ''contradicts:'' t \<Longrightarrow> tags_of (tagged t) = [t]"
  by (simp add: tagged_def builder_build_def builder_source_def builder_new_def tags_of_def)

theorem anti_tag_conflicts_witness:
  "polarity_of (tagged ''price'') (tagged ''quantity'') = Conflicting \<and>
   polarity_of (tagged ''quantity'') (tagged ''quantity'') = Conflicting"
proof (rule anti_tag_conflicts)
  show "''quantity'' \<in> set (tags_of (tagged ''quantity''))" by (simp add: tags_of_tagged)
  show "sublist ''anti'' ''quantity''" by (simp add: sublist_Cons_right)
  show "tags_of (tagged ''price'') \<noteq> []" by (simp add: tags_of_tagged)
qed

text \<open>
  Linking two records does not change what they are about: their tags stay the same, so their polarity
  before and after differs at most by their confidences.
\<close>

theorem auto_link_keeps_tags:
  "tags_of (fst (auto_link t u s a b)) = tags_of a \<and> tags_of (snd (auto_link t u s a b)) = tags_of b \<and>
   record_similarity (fst (auto_link t u s a b)) (snd (auto_link t u s a b)) = record_similarity a b"
proof -
  have "tags_of (fst (auto_link t u s a b)) = tags_of a" "tags_of (snd (auto_link t u s a b)) = tags_of b"
    by (simp_all add: tags_of_def auto_link_def Let_def contradicts_source_def)
  moreover have v: "rec_vectors (fst (auto_link t u s a b)) = rec_vectors a" "rec_vectors (snd (auto_link t u s a b)) = rec_vectors b"
    by (simp_all add: auto_link_def Let_def)
  have "cosine_text_similarity (fst (auto_link t u s a b)) (snd (auto_link t u s a b)) = cosine_text_similarity a b"
    unfolding cosine_text_similarity_def v ..
  ultimately show ?thesis by (simp add: record_similarity_def)
qed

subsection \<open>The confidence index\<close>

text \<open>
  A range query returns the ids of exactly the entries with a confidence in the closed interval, in the
  order of insertion, duplicates included.
\<close>

theorem confidence_range_exact:
  "ci_range lo hi (fold (\<lambda>(i, c). ci_insert i c) es ci_new) =
     map fst (filter (\<lambda>(_, c). f32_le lo c \<and> f32_le c hi) es)"
proof -
  have "fold (\<lambda>(i, c). ci_insert i c) es ix = ix @ es" for ix
    by (induction es arbitrary: ix) (auto simp: ci_insert_def)
  then show ?thesis by (simp add: ci_range_def ci_new_def)
qed

text \<open>
  The histogram rounds where its documentation takes the integer part: a confidence of one 128th, about
  0.0078, is counted in bucket 1, whose interval starts at 0.01.
\<close>

theorem histogram_rounds: "bucket_of 0x3C000000 = 1"
  by (simp add: bucket_of_def f32_eval int_as_f32_def round_int_def bitlen.simps)

subsection \<open>The context window\<close>

lemma mset_priority_sort: "mset (priority_sort opts cs) = mset cs"
  by (auto simp: priority_sort_def split: list.splits sort_by_key.splits)

lemma selection_start: "selection_ok cs ([], 0, [0..<length cs])"
proof -
  have "map (\<lambda>i. fst (cs ! i)) [0..<length cs] = map fst (map ((!) cs) [0..<length cs])" by simp
  also have "\<dots> = map fst cs" by (simp only: map_nth)
  finally show ?thesis by (simp add: selection_ok_def del: mset_map)
qed

text \<open>
  C33: A selection takes every candidate at most once, accounts for the tokens of what it takes (sums of
  u32), and stays within the token budget. The one exception is a selection of a single record of low
  confidence, forced in because the options want contradictions included.
\<close>

theorem context_within_budget:
  "mset (fst (context_select cs opts)) \<subseteq># mset (map fst cs) \<and>
   tokens_used (snd (context_select cs opts)) = sum_list (map token_cost (fst (context_select cs opts))) \<and>
   (tokens_used (snd (context_select cs opts)) \<le> max_tokens opts \<or>
      include_contradictions opts \<and> (\<exists>r. fst (context_select cs opts) = [r] \<and> low_confidence r)) \<and>
   candidates_selected (snd (context_select cs opts)) = as_u32 (length (fst (context_select cs opts)))"
proof (cases "cs = []")
  case False
  let ?cs = "priority_sort opts cs"
  obtain selected used remaining where run: "mmr_loop opts ?cs (start_selection opts ?cs) = (selected, used, remaining)"
    by (cases "mmr_loop opts ?cs (start_selection opts ?cs)")
  have start: "selection_ok ?cs (start_selection opts ?cs)"
    using selection_start [of ?cs] force_include_ok [OF selection_start, of ?cs opts]
    by (simp add: start_selection_def Let_def)
  have ok: "selection_ok ?cs (selected, used, remaining)" using mmr_loop_ok [OF start, of opts] by (simp add: run)
  have fits: "used \<le> max_tokens opts \<or> include_contradictions opts \<and> (\<exists>r. selected = [r] \<and> low_confidence r)"
  proof (cases "used \<le> max_tokens opts")
    case False
    then have "start_selection opts ?cs = (selected, used, remaining)"
      using mmr_loop_fits [of opts ?cs "start_selection opts ?cs"] by (auto simp: run)
    then show ?thesis using False by (cases rule: start_selection_cases [of opts ?cs]) auto
  qed simp
  have "mset (map fst ?cs) = mset (map fst cs)" by (simp add: mset_priority_sort)
  with ok have "mset (map fst cs) = mset selected + mset (map (\<lambda>i. fst (?cs ! i)) remaining)"
    by (simp add: selection_ok_def)
  then have "mset selected \<subseteq># mset (map fst cs)" by (metis mset_subset_eq_add_left)
  moreover have "used = sum_list (map token_cost selected)" using ok by (simp add: selection_ok_def)
  moreover have "fst (context_select cs opts) = selected \<and> tokens_used (snd (context_select cs opts)) = used \<and>
      candidates_selected (snd (context_select cs opts)) = as_u32 (length selected)"
    using False run by (simp add: context_select_def metadata_of_def Let_def)
  ultimately show ?thesis using fits by auto
qed (simp add: context_select_def as_u32_def)

end
