(* ===== verification/Pg_Client.thy ===== *)
theory Pg_Client
  imports Pg_Wire
begin

text \<open>
  The command line client's connection, \<open>crates/fundb-cli/src/connection.rs\<close>: the messages it builds, the
  reader of backend messages and their parsers, the startup handshake and the simple query. Its input is
  the list of all bytes the server ever sends. The client's strings are kept as their bytes, of which
  \<open>from_utf8\<close> requires that they are UTF-8; its own arguments are the bytes of Rust strings.
\<close>

subsection \<open>Outcomes\<close>

text \<open>\<open>Crash\<close> is a panic of the client.\<close>

datatype client_error =
    ConnectionClosed | BadMessageLength int | NotUtf8 | RowTruncated | ColumnTruncated
  | ShortBuffer nat | IncompleteSalt nat | UnsupportedAuth int | StartupError string | UnexpectedMessage u8

datatype 'a outcome = Fine 'a | Fail client_error | Crash

fun andthen :: "'a outcome \<Rightarrow> ('a \<Rightarrow> 'b outcome) \<Rightarrow> 'b outcome" where
  "andthen (Fine x) f = f x"
| "andthen (Fail e) f = Fail e"
| "andthen Crash f = Crash"

lemma andthen_cong [fundef_cong]:
  "x = y \<Longrightarrow> (\<And>v. y = Fine v \<Longrightarrow> f v = g v) \<Longrightarrow> andthen x f = andthen y g"
  by (cases y) auto

lemma andthen_Fine: "andthen x f = Fine y \<longleftrightarrow> (\<exists>v. x = Fine v \<and> f v = Fine y)"
  by (cases x) auto

subsection \<open>Messages to the server\<close>

definition build_startup :: "bytes \<Rightarrow> bytes \<Rightarrow> bytes" where
  "build_startup user database =
     (let params = octets ''user'' @ [0] @ user @ [0] @ octets ''database'' @ [0] @ database @ [0] @ [0];
          total_len = 4 + 4 + length params
      in be32 (as_u32 total_len) @ be32 196608 @ params)"

definition build_password_message :: "bytes \<Rightarrow> bytes" where
  "build_password_message password = octets ''p'' @ be32 (as_u32 (4 + length password + 1)) @ password @ [0]"

definition build_simple_query :: "bytes \<Rightarrow> bytes" where
  "build_simple_query sql = octets ''Q'' @ be32 (as_u32 (4 + length sql + 1)) @ sql @ [0]"

definition terminate_message :: bytes where
  "terminate_message = octets ''X'' @ be32 4"

subsection \<open>Reading a message\<close>

text \<open>
  \<open>i32 as usize\<close> extends the sign, so a negative length is near \<open>2 ^ 64\<close>; an allocation above
  \<open>isize::MAX\<close> panics.
\<close>

definition i32_as_usize :: "u32 \<Rightarrow> nat" where
  "i32_as_usize w = (let v = sint w in if v < 0 then nat (v + 2 ^ 64) else nat v)"

definition isize_max :: nat where
  "isize_max = 2 ^ 63 - 1"

definition read_message :: "bytes \<Rightarrow> (u8 \<times> bytes \<times> bytes) outcome" where
  "read_message inp =
     (case read_exact 1 inp of
        None \<Rightarrow> Fail ConnectionClosed
      | Some (t, rest) \<Rightarrow>
          (case read_exact 4 rest of
             None \<Rightarrow> Fail ConnectionClosed
           | Some (len_buf, rest') \<Rightarrow>
               let total_len = i32_as_usize (be32_of len_buf)
               in if total_len < 4 then Fail (BadMessageLength (int total_len))
                  else let payload_len = total_len - 4
                       in if isize_max < payload_len then Crash
                          else (case read_exact payload_len rest' of
                                  None \<Rightarrow> Fail ConnectionClosed
                                | Some (payload, rest'') \<Rightarrow> Fine (hd t, payload, rest''))))"

lemma read_message_shorter: "read_message inp = Fine (t, payload, rest) \<Longrightarrow> length rest < length inp"
  by (auto simp: read_message_def Let_def split: option.splits if_splits prod.splits dest!: read_exact_SomeD)

subsection \<open>Payload parsers\<close>

definition from_utf8 :: "bytes \<Rightarrow> string option" where
  "from_utf8 bs = (if utf8_ok bs then Some (chars bs) else None)"

text \<open>A slice that starts behind the end of the buffer panics.\<close>

definition cstring_at :: "bytes \<Rightarrow> nat \<Rightarrow> (string \<times> nat) outcome" where
  "cstring_at buf pos =
     (if length buf < pos then Crash
      else let s = takeWhile (\<lambda>b. b \<noteq> 0) (drop pos buf)
           in (case from_utf8 s of None \<Rightarrow> Fail NotUtf8 | Some t \<Rightarrow> Fine (t, pos + length s + 1)))"

fun field_names :: "bytes \<Rightarrow> nat \<Rightarrow> nat \<Rightarrow> string list outcome" where
  "field_names payload 0 pos = Fine []"
| "field_names payload (Suc n) pos =
     andthen (cstring_at payload pos) (\<lambda>(s, pos').
       andthen (field_names payload n (pos' + 18)) (\<lambda>rest. Fine (s # rest)))"

definition parse_row_description :: "bytes \<Rightarrow> string list outcome" where
  "parse_row_description payload =
     (if length payload < 2 then Fine [] else field_names payload (unat (be16_of (take 2 payload))) 2)"

text \<open>
  A column length below -1 is near \<open>2 ^ 64\<close> as a usize: when its sum with the position wraps around, the
  addition or the slice panics.
\<close>

fun row_values :: "bytes \<Rightarrow> nat \<Rightarrow> nat \<Rightarrow> string list outcome" where
  "row_values payload 0 pos = Fine []"
| "row_values payload (Suc n) pos =
     (if length payload < pos + 4 then Fail RowTruncated
      else
        let col_len = sint (be32_of (take 4 (drop pos payload))); pos' = pos + 4
        in if col_len = - 1 then andthen (row_values payload n pos') (\<lambda>rest. Fine (''NULL'' # rest))
           else if 0 \<le> col_len then
             (if length payload < pos' + nat col_len then Fail ColumnTruncated
              else
                let v = (case from_utf8 (take (nat col_len) (drop pos' payload)) of
                           None \<Rightarrow> ''<binary>'' | Some s \<Rightarrow> s)
                in andthen (row_values payload n (pos' + nat col_len)) (\<lambda>rest. Fine (v # rest)))
           else if 0 \<le> int pos' + col_len then Crash else Fail ColumnTruncated)"

definition parse_data_row :: "bytes \<Rightarrow> string list outcome" where
  "parse_data_row payload =
     (if length payload < 2 then Fine [] else row_values payload (unat (be16_of (take 2 payload))) 2)"

function field_parts :: "u8 list \<Rightarrow> bytes \<Rightarrow> string list" where
  "field_parts wanted [] = []"
| "field_parts wanted (code # rest) =
     (if code = 0 then []
      else
        let v = takeWhile (\<lambda>b. b \<noteq> 0) rest;
            text = (case from_utf8 v of None \<Rightarrow> [] | Some s \<Rightarrow> s);
            more = field_parts wanted (drop (length v + 1) rest)
        in if code \<in> set wanted then text # more else more)"
  by pat_completeness auto

termination field_parts
  by (relation "measure (\<lambda>(w, bs). length bs)") auto

declare field_parts.simps(2) [simp del]

fun join_parts :: "string \<Rightarrow> string list \<Rightarrow> string" where
  "join_parts sep [] = []"
| "join_parts sep [x] = x"
| "join_parts sep (x # xs) = x @ sep @ join_parts sep xs"

text \<open>The separator is a dash (U+2014) between spaces.\<close>

definition dash :: string where
  "dash = utf8 [32, 0x2014, 32]"

definition parse_field_messages :: "u8 list \<Rightarrow> bytes \<Rightarrow> string option" where
  "parse_field_messages wanted payload =
     (let parts = field_parts wanted payload in if parts = [] then None else Some (join_parts dash parts))"

definition parse_error_response :: "bytes \<Rightarrow> string" where
  "parse_error_response payload =
     (case parse_field_messages (octets ''MDH'') payload of None \<Rightarrow> ''Unknown server error'' | Some s \<Rightarrow> s)"

definition parse_notice_response :: "bytes \<Rightarrow> string" where
  "parse_notice_response payload =
     (case parse_field_messages (octets ''M'') payload of None \<Rightarrow> ''Notice'' | Some s \<Rightarrow> s)"

definition parse_cstring :: "bytes \<Rightarrow> string option" where
  "parse_cstring buf = (case cut_nul buf of None \<Rightarrow> None | Some (s, _) \<Rightarrow> from_utf8 s)"

definition read_i32_be :: "bytes \<Rightarrow> nat \<Rightarrow> u32 outcome" where
  "read_i32_be buf offset =
     (if length buf < offset + 4 then Fail (ShortBuffer offset) else Fine (be32_of (take 4 (drop offset buf))))"

subsection \<open>MD5\<close>

definition md5_shifts :: "nat list" where
  "md5_shifts = concat (replicate 4 [7, 12, 17, 22]) @ concat (replicate 4 [5, 9, 14, 20]) @
     concat (replicate 4 [4, 11, 16, 23]) @ concat (replicate 4 [6, 10, 15, 21])"

definition md5_table :: "u32 list" where
  "md5_table =
    [0xd76aa478, 0xe8c7b756, 0x242070db, 0xc1bdceee, 0xf57c0faf, 0x4787c62a, 0xa8304613,
     0xfd469501, 0x698098d8, 0x8b44f7af, 0xffff5bb1, 0x895cd7be, 0x6b901122, 0xfd987193,
     0xa679438e, 0x49b40821, 0xf61e2562, 0xc040b340, 0x265e5a51, 0xe9b6c7aa, 0xd62f105d,
     0x02441453, 0xd8a1e681, 0xe7d3fbc8, 0x21e1cde6, 0xc33707d6, 0xf4d50d87, 0x455a14ed,
     0xa9e3e905, 0xfcefa3f8, 0x676f02d9, 0x8d2a4c8a, 0xfffa3942, 0x8771f681, 0x6d9d6122,
     0xfde5380c, 0xa4beea44, 0x4bdecfa9, 0xf6bb4b60, 0xbebfbc70, 0x289b7ec6, 0xeaa127fa,
     0xd4ef3085, 0x04881d05, 0xd9d4d039, 0xe6db99e5, 0x1fa27cf8, 0xc4ac5665, 0xf4292244,
     0x432aff97, 0xab9423a7, 0xfc93a039, 0x655b59c3, 0x8f0ccc92, 0xffeff47d, 0x85845dd1,
     0x6fa87e4f, 0xfe2ce6e0, 0xa3014314, 0x4e0811a1, 0xf7537e82, 0xbd3af235, 0x2ad7d2bb,
     0xeb86d391]"

definition u64_to_le :: "u64 \<Rightarrow> bytes" where
  "u64_to_le w = u32_to_le (ucast w) @ u32_to_le (ucast (drop_bit 32 w))"

function zero_pad :: "bytes \<Rightarrow> bytes" where
  "zero_pad bs = (if length bs mod 64 \<noteq> 56 then zero_pad (bs @ [0]) else bs)"
  by pat_completeness auto

text \<open>How many bytes are missing.\<close>

definition pad_missing :: "nat \<Rightarrow> nat" where
  "pad_missing r = (if r \<le> 56 then 56 - r else 120 - r)"

lemma pad_missing_less: "n mod 64 \<noteq> 56 \<Longrightarrow> pad_missing (Suc n mod 64) < pad_missing (n mod 64)"
  using mod_less_divisor [of 64 n] by (auto simp: pad_missing_def mod_Suc)

termination zero_pad
  by (relation "measure (\<lambda>bs. pad_missing (length bs mod 64))") (simp_all add: pad_missing_less)

declare zero_pad.simps [simp del]

definition md5_padded :: "bytes \<Rightarrow> bytes" where
  "md5_padded input = zero_pad (input @ [0x80]) @ u64_to_le (word_of_nat (length input) * 8)"

type_synonym md5_state = "u32 \<times> u32 \<times> u32 \<times> u32"

definition md5_step :: "u32 list \<Rightarrow> md5_state \<Rightarrow> nat \<Rightarrow> md5_state" where
  "md5_step m st i =
     (let (a, b, c, d) = st;
          (f, g) =
            (if i < 16 then ((b AND c) OR (NOT b AND d), i)
             else if i < 32 then ((d AND b) OR (NOT d AND c), (5 * i + 1) mod 16)
             else if i < 48 then (b XOR c XOR d, (3 * i + 5) mod 16)
             else (c XOR (b OR NOT d), (7 * i) mod 16))
      in (d, b + word_rotl (md5_shifts ! i) (a + f + md5_table ! i + m ! g), b, c))"

definition md5_chunk :: "md5_state \<Rightarrow> bytes \<Rightarrow> md5_state" where
  "md5_chunk st chunk =
     (let m = map (\<lambda>j. u32_from_le (take 4 (drop (j * 4) chunk))) [0..<16];
          (a0, b0, c0, d0) = st; (a, b, c, d) = foldl (md5_step m) st [0..<64]
      in (a0 + a, b0 + b, c0 + c, d0 + d))"

function blocks64 :: "bytes \<Rightarrow> bytes list" where
  "blocks64 bs = (if bs = [] then [] else take 64 bs # blocks64 (drop 64 bs))"
  by pat_completeness auto

termination blocks64
  by (relation "measure length") auto

declare blocks64.simps [simp del]

definition simple_md5 :: "bytes \<Rightarrow> bytes" where
  "simple_md5 input =
     (let (a, b, c, d) = foldl md5_chunk (0x67452301, 0xefcdab89, 0x98badcfe, 0x10325476) (blocks64 (md5_padded input))
      in u32_to_le a @ u32_to_le b @ u32_to_le c @ u32_to_le d)"

definition hex_digit8 :: "u8 \<Rightarrow> u8" where
  "hex_digit8 d = (if d < 10 then 48 + d else 87 + d)"

definition hex_encode :: "bytes \<Rightarrow> bytes" where
  "hex_encode bs = concat (map (\<lambda>b. [hex_digit8 (b div 16), hex_digit8 (b mod 16)]) bs)"

definition md5_password :: "bytes \<Rightarrow> bytes \<Rightarrow> bytes \<Rightarrow> bytes" where
  "md5_password user password salt =
     (let inner_hex = hex_encode (simple_md5 (password @ user))
      in octets ''md5'' @ hex_encode (simple_md5 (inner_hex @ salt)))"

subsection \<open>The handshake\<close>

text \<open>What an authentication request is answered with: the bytes to send.\<close>

definition auth_reply :: "bytes \<Rightarrow> bytes option \<Rightarrow> bytes \<Rightarrow> bytes outcome" where
  "auth_reply user password payload =
     andthen (read_i32_be payload 0) (\<lambda>auth_type.
       let pw = (case password of None \<Rightarrow> [] | Some p \<Rightarrow> p)
       in if auth_type = 0 then Fine []
          else if auth_type = 3 then Fine (build_password_message pw)
          else if auth_type = 5 then
            (if length payload < 8 then Fail (IncompleteSalt (length payload))
             else Fine (build_password_message (md5_password user pw (take 4 (drop 4 payload)))))
          else Fail (UnsupportedAuth (sint auth_type)))"

text \<open>The rest of the input behind the handshake, and the bytes sent during it.\<close>

function connect_loop :: "bytes \<Rightarrow> bytes option \<Rightarrow> bytes \<Rightarrow> bytes \<Rightarrow> (bytes \<times> bytes) outcome" where
  "connect_loop user password inp sent =
     andthen (read_message inp) (\<lambda>(t, payload, rest).
       if t = byte ''R'' then
         andthen (auth_reply user password payload) (\<lambda>out. connect_loop user password rest (sent @ out))
       else if t = byte ''S'' \<or> t = byte ''K'' \<or> t = byte ''N'' then connect_loop user password rest sent
       else if t = byte ''Z'' then Fine (rest, sent)
       else if t = byte ''E'' then Fail (StartupError (parse_error_response payload))
       else Fail (UnexpectedMessage t))"
  by pat_completeness auto

termination connect_loop
  by (relation "measure (\<lambda>(u, p, inp, sent). length inp)") (auto dest!: read_message_shorter)

declare connect_loop.simps [simp del]

definition connect :: "bytes \<Rightarrow> bytes \<Rightarrow> bytes option \<Rightarrow> bytes \<Rightarrow> (bytes \<times> bytes) outcome" where
  "connect database user password inp = connect_loop user password inp (build_startup user database)"

subsection \<open>The simple query\<close>

record query_response =
  qs_columns :: "string list"
  qs_rows :: "string list list"
  qs_tag :: string
  qs_notice :: "string option"
  qs_error :: "string option"

definition response_default :: query_response where
  "response_default = \<lparr>qs_columns = [], qs_rows = [], qs_tag = [], qs_notice = None, qs_error = None\<rparr>"

definition take_message :: "query_response \<Rightarrow> u8 \<Rightarrow> bytes \<Rightarrow> query_response outcome" where
  "take_message resp t payload =
     (if t = byte ''T'' then
        andthen (parse_row_description payload) (\<lambda>cs. Fine (resp\<lparr>qs_columns := cs\<rparr>))
      else if t = byte ''D'' then
        andthen (parse_data_row payload) (\<lambda>row. Fine (resp\<lparr>qs_rows := qs_rows resp @ [row]\<rparr>))
      else if t = byte ''C'' then
        Fine (resp\<lparr>qs_tag := (case parse_cstring payload of None \<Rightarrow> [] | Some s \<Rightarrow> s)\<rparr>)
      else if t = byte ''E'' then Fine (resp\<lparr>qs_error := Some (parse_error_response payload)\<rparr>)
      else if t = byte ''N'' then Fine (resp\<lparr>qs_notice := Some (parse_notice_response payload)\<rparr>)
      else Fine resp)"

function response_loop :: "query_response \<Rightarrow> bytes \<Rightarrow> (query_response \<times> bytes) outcome" where
  "response_loop resp inp =
     andthen (read_message inp) (\<lambda>(t, payload, rest).
       if t = byte ''Z'' then Fine (resp, rest)
       else andthen (take_message resp t payload) (\<lambda>resp'. response_loop resp' rest))"
  by pat_completeness auto

termination response_loop
  by (relation "measure (\<lambda>(r, inp). length inp)") (auto dest!: read_message_shorter)

declare response_loop.simps [simp del]

text \<open>The bytes to send for a query, and what its response is in the bytes received.\<close>

definition simple_query :: "bytes \<Rightarrow> bytes \<Rightarrow> bytes \<times> (query_response \<times> bytes) outcome" where
  "simple_query sql inp = (build_simple_query sql, response_loop response_default inp)"

end
