(* ===== verification/Pg_Extended.thy ===== *)
theory Pg_Extended
  imports Pg_Wire
begin

text \<open>
  The other messages of \<open>crates/fundb-protocol\<close>: the extended query protocol (\<open>extended.rs\<close>), COPY
  (\<open>copy.rs\<close>) and the framing of SCRAM authentication (\<open>auth.rs\<close>). The server's query loop accepts none
  of them.
\<close>

subsection \<open>Messages of the extended protocol\<close>

datatype describe_kind = DescribeStatement | DescribePortal

datatype extended_message =
    Parse ustring ustring "u32 list"
  | Bind ustring ustring "bytes option list"
  | Describe describe_kind ustring
  | Execute ustring u32
  | Sync
  | Flush

datatype extended_reply =
    ParseComplete | BindComplete | NoData | ParameterDescription "u32 list" | PortalSuspended

fun encode_extended :: "extended_reply \<Rightarrow> bytes" where
  "encode_extended ParseComplete = octets ''1'' @ be32 4"
| "encode_extended BindComplete = octets ''2'' @ be32 4"
| "encode_extended NoData = octets ''n'' @ be32 4"
| "encode_extended (ParameterDescription oids) =
     octets ''t'' @ be32 (4 + 2 + 4 * as_u32 (length oids)) @ be16 (as_u16 (length oids)) @ concat (map be32 oids)"
| "encode_extended PortalSuspended = octets ''s'' @ be32 4"

subsection \<open>Parsing\<close>

datatype extended_error =
    ParseNoName | ParseNoQuery | ParseNoCount | ParseNoOid nat
  | BindNoPortal | BindNoStatement | BindNoFormatCount | BindNoFormat nat | BindNoCount
  | BindNoLength nat | BindBadLength int nat | BindShort nat nat nat
  | DescribeEmpty | DescribeKindUnknown u8 | DescribeNoName
  | ExecuteNoPortal | ExecuteNoMaxRows | ExtendedUnknown u8

text \<open>\<open>ExtPanic\<close>: \<open>Vec::with_capacity\<close> of a negative count, which is near \<open>2 ^ 64\<close> as a usize.\<close>

datatype 'a ext_result = ExtOk 'a | ExtErr extended_error | ExtPanic

fun ext_bind :: "'a ext_result \<Rightarrow> ('a \<Rightarrow> 'b ext_result) \<Rightarrow> 'b ext_result" where
  "ext_bind (ExtOk x) f = f x"
| "ext_bind (ExtErr e) f = ExtErr e"
| "ext_bind ExtPanic f = ExtPanic"

definition ok_or :: "'a option \<Rightarrow> extended_error \<Rightarrow> 'a ext_result" where
  "ok_or x e = (case x of None \<Rightarrow> ExtErr e | Some v \<Rightarrow> ExtOk v)"

definition read_i16 :: "bytes \<Rightarrow> (u16 \<times> bytes) option" where
  "read_i16 src = (if length src < 2 then None else Some (be16_of (take 2 src), drop 2 src))"

definition read_i32 :: "bytes \<Rightarrow> (u32 \<times> bytes) option" where
  "read_i32 src = (if length src < 4 then None else Some (be32_of (take 4 src), drop 4 src))"

text \<open>The loops over \<open>n\<close> items, \<open>i\<close> of them done.\<close>

fun read_oids :: "nat \<Rightarrow> nat \<Rightarrow> bytes \<Rightarrow> (u32 list \<times> bytes) ext_result" where
  "read_oids i 0 src = ExtOk ([], src)"
| "read_oids i (Suc n) src =
     ext_bind (ok_or (read_i32 src) (ParseNoOid i)) (\<lambda>(oid, src').
       ext_bind (read_oids (Suc i) n src') (\<lambda>(oids, rest). ExtOk (oid # oids, rest)))"

fun skip_formats :: "nat \<Rightarrow> nat \<Rightarrow> bytes \<Rightarrow> bytes ext_result" where
  "skip_formats i 0 src = ExtOk src"
| "skip_formats i (Suc n) src =
     ext_bind (ok_or (read_i16 src) (BindNoFormat i)) (\<lambda>(_, src'). skip_formats (Suc i) n src')"

definition read_param :: "nat \<Rightarrow> bytes \<Rightarrow> (bytes option \<times> bytes) ext_result" where
  "read_param i src =
     ext_bind (ok_or (read_i32 src) (BindNoLength i)) (\<lambda>(w, src').
       let len = sint w
       in if len = - 1 then ExtOk (None, src')
          else if len < 0 then ExtErr (BindBadLength len i)
          else if length src' < nat len then ExtErr (BindShort i (nat len) (length src'))
          else ExtOk (Some (take (nat len) src'), drop (nat len) src'))"

fun read_params :: "nat \<Rightarrow> nat \<Rightarrow> bytes \<Rightarrow> (bytes option list \<times> bytes) ext_result" where
  "read_params i 0 src = ExtOk ([], src)"
| "read_params i (Suc n) src =
     ext_bind (read_param i src) (\<lambda>(v, src').
       ext_bind (read_params (Suc i) n src') (\<lambda>(vs, rest). ExtOk (v # vs, rest)))"

definition loop_count :: "u16 \<Rightarrow> nat" where
  "loop_count w = nat (sint w)"

definition parse_parse :: "(bytes \<Rightarrow> ustring) \<Rightarrow> bytes \<Rightarrow> extended_message ext_result" where
  "parse_parse L body =
     ext_bind (ok_or (read_cstring L body) ParseNoName) (\<lambda>(stmt, s1).
     ext_bind (ok_or (read_cstring L s1) ParseNoQuery) (\<lambda>(query, s2).
     ext_bind (ok_or (read_i16 s2) ParseNoCount) (\<lambda>(n, s3).
       if sint n < 0 then ExtPanic
       else ext_bind (read_oids 0 (loop_count n) s3) (\<lambda>(oids, _). ExtOk (Parse stmt query oids)))))"

definition parse_bind :: "(bytes \<Rightarrow> ustring) \<Rightarrow> bytes \<Rightarrow> extended_message ext_result" where
  "parse_bind L body =
     ext_bind (ok_or (read_cstring L body) BindNoPortal) (\<lambda>(portal, s1).
     ext_bind (ok_or (read_cstring L s1) BindNoStatement) (\<lambda>(stmt, s2).
     ext_bind (ok_or (read_i16 s2) BindNoFormatCount) (\<lambda>(fmts, s3).
     ext_bind (skip_formats 0 (loop_count fmts) s3) (\<lambda>s4.
     ext_bind (ok_or (read_i16 s4) BindNoCount) (\<lambda>(n, s5).
       if sint n < 0 then ExtPanic
       else ext_bind (read_params 0 (loop_count n) s5) (\<lambda>(vs, _). ExtOk (Bind portal stmt vs)))))))"

definition parse_describe :: "(bytes \<Rightarrow> ustring) \<Rightarrow> bytes \<Rightarrow> extended_message ext_result" where
  "parse_describe L body =
     (case body of
        [] \<Rightarrow> ExtErr DescribeEmpty
      | k # src \<Rightarrow>
          if k = byte ''S'' then ext_bind (ok_or (read_cstring L src) DescribeNoName) (\<lambda>(x, _). ExtOk (Describe DescribeStatement x))
          else if k = byte ''P'' then ext_bind (ok_or (read_cstring L src) DescribeNoName) (\<lambda>(x, _). ExtOk (Describe DescribePortal x))
          else ExtErr (DescribeKindUnknown k))"

definition parse_execute :: "(bytes \<Rightarrow> ustring) \<Rightarrow> bytes \<Rightarrow> extended_message ext_result" where
  "parse_execute L body =
     ext_bind (ok_or (read_cstring L body) ExecuteNoPortal) (\<lambda>(portal, s1).
     ext_bind (ok_or (read_i32 s1) ExecuteNoMaxRows) (\<lambda>(n, _). ExtOk (Execute portal n)))"

definition parse_extended_message :: "(bytes \<Rightarrow> ustring) \<Rightarrow> u8 \<Rightarrow> bytes \<Rightarrow> extended_message ext_result" where
  "parse_extended_message L t body =
     (if t = byte ''P'' then parse_parse L body
      else if t = byte ''B'' then parse_bind L body
      else if t = byte ''D'' then parse_describe L body
      else if t = byte ''E'' then parse_execute L body
      else if t = byte ''S'' then ExtOk Sync
      else if t = byte ''H'' then ExtOk Flush
      else ExtErr (ExtendedUnknown t))"

subsection \<open>The session\<close>

record prepared_statement =
  ps_name :: ustring
  ps_query :: ustring
  ps_param_types :: "u32 list"

record portal =
  po_name :: ustring
  po_statement :: ustring
  po_params :: "bytes option list"

record session =
  statements :: "ustring \<rightharpoonup> prepared_statement"
  portals :: "ustring \<rightharpoonup> portal"

definition session_new :: session where
  "session_new = \<lparr>statements = Map.empty, portals = Map.empty\<rparr>"

definition handle_parse :: "extended_message \<Rightarrow> session \<Rightarrow> session \<times> extended_reply list" where
  "handle_parse m s =
     (case m of
        Parse x query oids \<Rightarrow>
          (s\<lparr>statements := (statements s)(x \<mapsto> \<lparr>ps_name = x, ps_query = query, ps_param_types = oids\<rparr>)\<rparr>,
           [ParseComplete])
      | _ \<Rightarrow> (s, []))"

definition handle_bind :: "extended_message \<Rightarrow> session \<Rightarrow> session \<times> extended_reply list" where
  "handle_bind m s =
     (case m of
        Bind x stmt vs \<Rightarrow>
          if statements s stmt \<noteq> None then
            (s\<lparr>portals := (portals s)(x \<mapsto> \<lparr>po_name = x, po_statement = stmt, po_params = vs\<rparr>)\<rparr>, [BindComplete])
          else (s, [])
      | _ \<Rightarrow> (s, []))"

definition handle_describe :: "extended_message \<Rightarrow> session \<Rightarrow> session \<times> extended_reply list" where
  "handle_describe m s =
     (s, case m of
           Describe DescribeStatement x \<Rightarrow>
             (case statements s x of
                None \<Rightarrow> [NoData]
              | Some stmt \<Rightarrow> [ParameterDescription (ps_param_types stmt), NoData])
         | Describe DescribePortal x \<Rightarrow> [NoData]
         | _ \<Rightarrow> [])"

definition handle_execute :: "extended_message \<Rightarrow> session \<Rightarrow> ustring option \<times> extended_reply list" where
  "handle_execute m s =
     (case m of
        Execute x _ \<Rightarrow>
          (case portals s x of
             None \<Rightarrow> (None, [])
           | Some p \<Rightarrow>
               (case statements s (po_statement p) of
                  None \<Rightarrow> (None, [])
                | Some stmt \<Rightarrow> (Some (ps_query stmt), [])))
      | _ \<Rightarrow> (None, []))"

subsection \<open>COPY\<close>

definition encode_copy_in_response :: "u16 \<Rightarrow> bytes" where
  "encode_copy_in_response n =
     (let body_len = 1 + 2 + 2 * scast n; len = 4 + body_len :: u32
      in octets ''G'' @ be32 len @ [0] @ be16 n @ concat (replicate (loop_count n) (be16 0)))"

definition encode_copy_done :: bytes where
  "encode_copy_done = octets ''c'' @ be32 4"

definition encode_copy_fail :: "bytes \<Rightarrow> bytes" where
  "encode_copy_fail message = octets ''f'' @ be32 (4 + as_u32 (length message) + 1) @ message @ [0]"

text \<open>92 is the backslash; \<open>n\<close>, \<open>t\<close> and \<open>r\<close> stand for the control characters 10, 9 and 13.\<close>

fun unescape_copy_text :: "ustring \<Rightarrow> ustring" where
  "unescape_copy_text [] = []"
| "unescape_copy_text [c] = [c]"
| "unescape_copy_text (c # d # cs) =
     (if c = 92 then
        (if d = 92 then [92] else if d = 110 then [10] else if d = 116 then [9] else if d = 114 then [13] else [92, d]) @
          unescape_copy_text cs
      else c # unescape_copy_text (d # cs))"

definition parse_copy_text_row :: "ustring \<Rightarrow> ustring option list" where
  "parse_copy_text_row line =
     map (\<lambda>field. if field = [92, 78] then None else Some (unescape_copy_text field)) (split_on (\<lambda>c. c = 9) line)"

datatype copy_client_message = CopyData bytes | CopyDone | CopyFail ustring

definition trim_end_nul :: "ustring \<Rightarrow> ustring" where
  "trim_end_nul s = rev (dropWhile (\<lambda>c. c = 0) (rev s))"

definition parse_copy_client_message :: "(bytes \<Rightarrow> ustring) \<Rightarrow> u8 \<Rightarrow> bytes \<Rightarrow> copy_client_message option" where
  "parse_copy_client_message L t body =
     (if t = byte ''d'' then Some (CopyData body)
      else if t = byte ''c'' then Some CopyDone
      else if t = byte ''f'' then Some (CopyFail (trim_end_nul (from_utf8_lossy L body)))
      else None)"

subsection \<open>SCRAM authentication\<close>

definition sasl_message :: "u32 \<Rightarrow> bytes \<Rightarrow> bytes" where
  "sasl_message kind data = octets ''R'' @ be32 (4 + 4 + as_u32 (length data)) @ be32 kind @ data"

definition encode_authentication_sasl :: bytes where
  "encode_authentication_sasl = sasl_message 10 (octets ''SCRAM-SHA-256'' @ [0, 0])"

definition encode_authentication_sasl_continue :: "bytes \<Rightarrow> bytes" where
  "encode_authentication_sasl_continue server_nonce =
     sasl_message 11 (octets ''r='' @ server_nonce @ octets '',s=AAAAAAAAAAAAAAAA,i=4096'')"

definition encode_authentication_sasl_final :: "bytes \<Rightarrow> bytes" where
  "encode_authentication_sasl_final verifier = sasl_message 12 (octets ''v='' @ verifier)"

definition generate_server_nonce :: string where
  "generate_server_nonce = ''xyHkG9YUTFVRZzabc123defghi456''"

definition verify_scram_response :: "bytes \<Rightarrow> string \<Rightarrow> bool" where
  "verify_scram_response client_response server_nonce = True"

end
