(* ===== verification/Pg_Facts.thy ===== *)
theory Pg_Facts
  imports Pg_Client Pg_Extended
begin

text \<open>
  How the two ends of a connection read each other: the client's parsers on the server's messages, the
  server's reader on the client's messages.
\<close>

subsection \<open>Texts that survive the wire\<close>

definition text_ok :: "string \<Rightarrow> bool" where
  "text_ok s \<longleftrightarrow> utf8_ok (octets s)"

definition cstring_ok :: "string \<Rightarrow> bool" where
  "cstring_ok s \<longleftrightarrow> utf8_ok (octets s) \<and> CHR 0x00 \<notin> set s"

definition fits :: "nat \<Rightarrow> bool" where
  "fits n \<longleftrightarrow> 4 + n < 2 ^ 31"

lemma zero_in_octets: "0 \<in> set (octets s) \<longleftrightarrow> CHR 0x00 \<in> set s"
proof
  assume "0 \<in> set (octets s)"
  then have "char_of (unat (0 :: u8)) \<in> set (chars (octets s))"
    unfolding chars_def set_map by (rule imageI)
  then show "CHR 0x00 \<in> set s" by (simp add: char_of_def)
qed (force simp: octets_def)

lemma octets_no_nul: "cstring_ok s \<Longrightarrow> 0 \<notin> set (octets s)"
  by (simp add: cstring_ok_def zero_in_octets)

lemma from_utf8_octets: "utf8_ok (octets s) \<Longrightarrow> from_utf8 (octets s) = Some s"
  by (simp add: from_utf8_def)

lemma takeWhile_nul: "0 \<notin> set xs \<Longrightarrow> takeWhile (\<lambda>b. b \<noteq> (0 :: u8)) (xs @ 0 # ys) = xs"
  by (induction xs) auto

lemma dropWhile_nul: "0 \<notin> set xs \<Longrightarrow> dropWhile (\<lambda>b. b \<noteq> (0 :: u8)) (xs @ 0 # ys) = 0 # ys"
  by (induction xs) auto

lemma cut_nul_append [simp]: "0 \<notin> set xs \<Longrightarrow> cut_nul (xs @ 0 # ys) = Some (xs, ys)"
  by (simp add: cut_nul_def takeWhile_nul dropWhile_nul)

subsection \<open>Frames\<close>

lemma as_u32_add: "as_u32 m + as_u32 n = as_u32 (m + n)"
  by (simp add: as_u32_def)

lemma as_u32_numeral: "numeral k + as_u32 n = as_u32 (numeral k + n)" "as_u32 n + 1 = as_u32 (n + 1)"
  by (simp_all add: as_u32_def)

fun type_of :: "backend_message \<Rightarrow> string" where
  "type_of AuthenticationOk = ''R''"
| "type_of (BackendKeyData p k) = ''K''"
| "type_of (ReadyForQuery s) = ''Z''"
| "type_of (RowDescription fs) = ''T''"
| "type_of (DataRow vs) = ''D''"
| "type_of (CommandComplete t) = ''C''"
| "type_of (ErrorResponse s c m) = ''E''"
| "type_of EmptyQueryResponse = ''I''"

fun payload_of :: "backend_message \<Rightarrow> bytes" where
  "payload_of AuthenticationOk = be32 0"
| "payload_of (BackendKeyData p k) = be32 p @ be32 k"
| "payload_of (ReadyForQuery s) = [s]"
| "payload_of (RowDescription fs) = row_description_body fs"
| "payload_of (DataRow vs) = data_row_body vs"
| "payload_of (CommandComplete t) = octets t @ [0]"
| "payload_of (ErrorResponse s c m) = error_body s c m"
| "payload_of EmptyQueryResponse = []"

lemma encode_backend_frame:
  "encode_backend m = octets (type_of m) @ be32 (as_u32 (4 + length (payload_of m))) @ payload_of m"
  by (cases m) (simp_all add: framed_def as_u32_def algebra_simps)

lemma i32_as_usize_as_u32: "n < 2 ^ 31 \<Longrightarrow> i32_as_usize (as_u32 n) = n"
  by (simp add: i32_as_usize_def sint_as_u32)

lemma read_message_frame:
  assumes "fits (length payload)"
  shows "read_message ([t] @ be32 (as_u32 (4 + length payload)) @ payload @ rest) = Fine (t, payload, rest)"
proof -
  have "read_exact 1 ([t] @ be32 (as_u32 (4 + length payload)) @ payload @ rest) =
      Some ([t], be32 (as_u32 (4 + length payload)) @ payload @ rest)"
    by (rule read_exact_append) simp
  then show ?thesis using assms
    by (simp add: read_message_def read_exact_append i32_as_usize_as_u32 fits_def isize_max_def)
qed

lemma octets_single: "octets [c] = [byte [c]]"
  by (simp add: byte_def octets_def)

lemma read_backend:
  assumes "fits (length (payload_of m))"
  shows "read_message (encode_backend m @ rest) = Fine (byte (type_of m), payload_of m, rest)"
proof -
  have "octets (type_of m) = [byte (type_of m)]" by (cases m) (simp_all add: octets_single)
  then show ?thesis using read_message_frame [OF assms, of "byte (type_of m)" rest]
    by (simp add: encode_backend_frame)
qed

lemma byte_values [simp]:
  "byte ''R'' = 82" "byte ''K'' = 75" "byte ''Z'' = 90" "byte ''T'' = 84" "byte ''D'' = 68" "byte ''C'' = 67"
  "byte ''E'' = 69" "byte ''I'' = 73" "byte ''S'' = 83" "byte ''N'' = 78" "byte ''M'' = 77" "byte ''H'' = 72"
  by (simp_all add: byte_def octets_def)

subsection \<open>Rows\<close>

definition shown :: "string option \<Rightarrow> string" where
  "shown v = (case v of None \<Rightarrow> ''NULL'' | Some s \<Rightarrow> s)"

lemma length_field_body: "length (field_body f) = length (fd_name f) + 19"
  by (simp add: field_body_def)

lemma cstring_at_append:
  "cstring_ok s \<Longrightarrow> cstring_at (pre @ octets s @ 0 # suf) (length pre) = Fine (s, length pre + length s + 1)"
  by (simp add: cstring_at_def takeWhile_nul octets_no_nul from_utf8_octets cstring_ok_def zero_in_octets)

lemma field_names_append:
  "list_all (\<lambda>f. cstring_ok (fd_name f)) fs \<Longrightarrow>
   field_names (pre @ concat (map field_body fs) @ suf) (length fs) (length pre) = Fine (map fd_name fs)"
proof (induction fs arbitrary: pre)
  case (Cons f fs)
  let ?mid = "be32 0 @ be16 0 @ be32 (fd_type_oid f) @ be16 (- 1) @ be32 (- 1) @ be16 0"
  let ?tail = "concat (map field_body fs) @ suf"
  have "cstring_at (pre @ octets (fd_name f) @ 0 # ?mid @ ?tail) (length pre) =
      Fine (fd_name f, length pre + length (fd_name f) + 1)"
    using Cons.prems by (intro cstring_at_append) simp
  moreover have "field_names ((pre @ field_body f) @ ?tail) (length fs) (length (pre @ field_body f)) =
      Fine (map fd_name fs)"
    using Cons.IH [of "pre @ field_body f"] Cons.prems by simp
  ultimately show ?case by (simp add: field_body_def [of f] ac_simps)
qed simp

lemma parse_row_description_body:
  assumes "list_all (\<lambda>f. cstring_ok (fd_name f)) fs" and "length fs < 2 ^ 16"
  shows "parse_row_description (row_description_body fs) = Fine (map fd_name fs)"
proof -
  have "field_names (be16 (as_u16 (length fs)) @ concat (map field_body fs) @ []) (length fs) 2 = Fine (map fd_name fs)"
    using field_names_append [OF assms(1), of "be16 (as_u16 (length fs))" "[]"] by simp
  then show ?thesis using assms(2) by (simp add: parse_row_description_def row_description_body_def unat_as_u16)
qed

definition value_ok :: "string option \<Rightarrow> bool" where
  "value_ok v \<longleftrightarrow> (case v of None \<Rightarrow> True | Some s \<Rightarrow> text_ok s \<and> length s < 2 ^ 31)"

lemma row_values_append:
  "list_all value_ok vs \<Longrightarrow>
   row_values (pre @ concat (map value_body vs) @ suf) (length vs) (length pre) = Fine (map shown vs)"
proof (induction vs arbitrary: pre)
  case (Cons v vs)
  let ?tail = "concat (map value_body vs) @ suf"
  have IH: "row_values ((pre @ value_body v) @ ?tail) (length vs) (length (pre @ value_body v)) = Fine (map shown vs)"
    using Cons.IH [of "pre @ value_body v"] Cons.prems by simp
  show ?case
  proof (cases v)
    case None
    with IH show ?thesis by (simp add: shown_def add.commute)
  next
    case (Some s)
    with Cons.prems have "utf8_ok (octets s)" "length s < 2 ^ 31" by (auto simp: value_ok_def text_ok_def)
    with IH Some show ?thesis by (simp add: shown_def sint_as_u32 from_utf8_octets ac_simps)
  qed
qed simp

lemma parse_data_row_body:
  assumes "list_all value_ok vs" and "length vs < 2 ^ 16"
  shows "parse_data_row (data_row_body vs) = Fine (map shown vs)"
proof -
  have "row_values (be16 (as_u16 (length vs)) @ concat (map value_body vs) @ []) (length vs) 2 = Fine (map shown vs)"
    using row_values_append [OF assms(1), of "be16 (as_u16 (length vs))" "[]"] by simp
  then show ?thesis using assms(2) by (simp add: parse_data_row_def data_row_body_def unat_as_u16)
qed

subsection \<open>Errors\<close>

lemma field_parts_cons:
  "code \<noteq> 0 \<Longrightarrow> 0 \<notin> set v \<Longrightarrow>
   field_parts wanted (code # v @ 0 # rest) =
     (if code \<in> set wanted then (case from_utf8 v of None \<Rightarrow> [] | Some s \<Rightarrow> s) # field_parts wanted rest
      else field_parts wanted rest)"
  by (simp add: field_parts.simps(2) takeWhile_nul Let_def)

lemma field_parts_end: "field_parts wanted (0 # rest) = []"
  by (simp add: field_parts.simps(2))

lemma octets_MDH: "octets ''MDH'' = [77, 68, 72]"
  by (simp add: octets_def)

lemma parse_error_body:
  assumes "cstring_ok severity" and "cstring_ok code" and "cstring_ok message"
  shows "parse_error_response (error_body severity code message) = message"
  using assms
  by (simp add: parse_error_response_def parse_field_messages_def error_body_def octets_MDH field_parts_cons
      field_parts_end octets_no_nul from_utf8_octets cstring_ok_def zero_in_octets)

lemma parse_tag: "cstring_ok tag \<Longrightarrow> parse_cstring (octets tag @ [0]) = Some tag"
  by (simp add: parse_cstring_def octets_no_nul from_utf8_octets cstring_ok_def zero_in_octets)

subsection \<open>Whole responses\<close>

definition row_ok :: "string option list \<Rightarrow> bool" where
  "row_ok vs \<longleftrightarrow> list_all value_ok vs \<and> length vs < 2 ^ 16 \<and> fits (length (data_row_body vs))"

definition result_ok :: "query_result \<Rightarrow> bool" where
  "result_ok r \<longleftrightarrow> list_all (\<lambda>f. cstring_ok (fd_name f)) (qr_columns r) \<and> length (qr_columns r) < 2 ^ 16 \<and>
     fits (length (row_description_body (qr_columns r))) \<and> list_all row_ok (qr_rows r) \<and>
     cstring_ok (qr_tag r) \<and> fits (length (qr_tag r) + 1)"

fun reply_ok :: "handler_reply \<Rightarrow> bool" where
  "reply_ok (HOk r) = result_ok r"
| "reply_ok (HErr e) = (cstring_ok (we_code e) \<and> cstring_ok (we_message e) \<and>
     fits (length (error_body ''ERROR'' (we_code e) (we_message e))))"
| "reply_ok HPanic = False"

text \<open>What the client is to get: the reply itself, a null shown as \<open>NULL\<close>.\<close>

fun response_of :: "handler_reply \<Rightarrow> query_response" where
  "response_of (HOk r) = response_default\<lparr>qs_columns := map fd_name (qr_columns r),
     qs_rows := (if qr_columns r = [] then [] else map (map shown) (qr_rows r)), qs_tag := qr_tag r\<rparr>"
| "response_of (HErr e) = response_default\<lparr>qs_error := Some (we_message e)\<rparr>"
| "response_of HPanic = response_default"

lemma encode_all_Cons: "encode_all (m # ms) = encode_backend m @ encode_all ms"
  by (simp add: encode_all_def)

lemma encode_all_append: "encode_all (xs @ ys) = encode_all xs @ encode_all ys"
  by (simp add: encode_all_def)

lemma encode_all_Nil [simp]: "encode_all [] = []"
  by (simp add: encode_all_def)

lemma response_step:
  assumes "fits (length (payload_of m))" and "type_of m \<noteq> ''Z''"
    and "take_message resp (byte (type_of m)) (payload_of m) = Fine resp'"
  shows "response_loop resp (encode_backend m @ rest) = response_loop resp' rest"
proof -
  have "byte (type_of m) \<noteq> byte ''Z''" using assms(2) by (cases m) simp_all
  with assms show ?thesis
    by (simp add: response_loop.simps [of resp] read_backend del: byte_values encode_backend.simps)
qed

lemma response_end:
  "response_loop resp (encode_backend (ReadyForQuery s) @ rest) = Fine (resp, rest)"
proof -
  have "read_message (encode_backend (ReadyForQuery s) @ rest) = Fine (byte ''Z'', [s], rest)"
    using read_backend [of "ReadyForQuery s" rest] by (simp add: fits_def)
  then show ?thesis by (simp add: response_loop.simps [of resp] del: encode_backend.simps)
qed

lemma response_rows:
  "list_all row_ok rows \<Longrightarrow>
   response_loop resp (encode_all (map DataRow rows) @ rest) =
     response_loop (resp\<lparr>qs_rows := qs_rows resp @ map (map shown) rows\<rparr>) rest"
proof (induction rows arbitrary: resp)
  case (Cons vs rows)
  then have "take_message resp (byte ''D'') (data_row_body vs) =
      Fine (resp\<lparr>qs_rows := qs_rows resp @ [map shown vs]\<rparr>)"
    by (simp add: take_message_def parse_data_row_body row_ok_def)
  with Cons.prems have "response_loop resp (encode_backend (DataRow vs) @ encode_all (map DataRow rows) @ rest) =
      response_loop (resp\<lparr>qs_rows := qs_rows resp @ [map shown vs]\<rparr>) (encode_all (map DataRow rows) @ rest)"
    by (intro response_step) (simp_all add: row_ok_def del: byte_values)
  with Cons show ?case by (simp add: encode_all_Cons del: encode_backend.simps)
qed simp

lemma response_tag:
  assumes "cstring_ok tag" and "fits (length tag + 1)"
  shows "response_loop resp (encode_backend (CommandComplete tag) @ rest) = response_loop (resp\<lparr>qs_tag := tag\<rparr>) rest"
  using assms by (intro response_step) (simp_all add: take_message_def parse_tag)

lemma response_columns:
  assumes "list_all (\<lambda>f. cstring_ok (fd_name f)) fs" and "length fs < 2 ^ 16" and "fits (length (row_description_body fs))"
  shows "response_loop resp (encode_backend (RowDescription fs) @ rest) =
    response_loop (resp\<lparr>qs_columns := map fd_name fs\<rparr>) rest"
  using assms by (intro response_step) (simp_all add: take_message_def parse_row_description_body)

lemma response_error:
  assumes "cstring_ok code" and "cstring_ok message" and "fits (length (error_body ''ERROR'' code message))"
  shows "response_loop resp (encode_backend (ErrorResponse ''ERROR'' code message) @ rest) =
    response_loop (resp\<lparr>qs_error := Some message\<rparr>) rest"
proof -
  have "cstring_ok ''ERROR''"
    by (simp add: cstring_ok_def utf8_ok_def octets_def decode_utf8.simps)
  then show ?thesis using assms
    by (intro response_step) (simp_all add: take_message_def parse_error_body)
qed

lemma response_of_answer:
  assumes "reply_ok r" and "answer r = Some ms"
  shows "response_loop response_default (encode_all (ms @ [ReadyForQuery s]) @ rest) = Fine (response_of r, rest)"
proof (cases r)
  case (HOk q)
  with assms have ok: "result_ok q" by simp
  have tag: "response_loop resp (encode_backend (CommandComplete (qr_tag q)) @ encode_backend (ReadyForQuery s) @ rest) =
      Fine (resp\<lparr>qs_tag := qr_tag q\<rparr>, rest)" for resp
    using ok response_tag response_end by (simp add: result_ok_def del: encode_backend.simps)
  show ?thesis
  proof (cases "qr_columns q = []")
    case True
    with HOk assms(2) tag show ?thesis
      by (auto simp: answer_def encode_all_Cons response_default_def simp del: encode_backend.simps)
  next
    case False
    with HOk assms(2) have ms: "ms = RowDescription (qr_columns q) # map DataRow (qr_rows q) @ [CommandComplete (qr_tag q)]"
      by (auto simp: answer_def)
    from ok False tag show ?thesis unfolding ms HOk
      by (simp add: encode_all_Cons encode_all_append response_columns response_rows result_ok_def
          response_default_def del: encode_backend.simps)
  qed
next
  case (HErr e)
  with assms response_error [of "we_code e" "we_message e"] response_end show ?thesis
    by (auto simp: answer_def encode_all_Cons simp del: encode_backend.simps)
qed (use assms in simp)

lemma response_empty:
  "response_loop resp (encode_all [EmptyQueryResponse, ReadyForQuery s] @ rest) = Fine (resp, rest)"
proof -
  have "response_loop resp (encode_backend EmptyQueryResponse @ encode_backend (ReadyForQuery s) @ rest) =
      response_loop resp (encode_backend (ReadyForQuery s) @ rest)"
    by (rule response_step) (simp_all add: fits_def take_message_def)
  then show ?thesis by (simp add: encode_all_Cons response_end del: encode_backend.simps)
qed

subsection \<open>The server reads the client\<close>

lemma octets_types: "octets ''Q'' = [81]" "octets ''X'' = [88]"
  by (simp_all add: octets_def)

lemma read_frontend_frame:
  assumes "fits (length body)"
  shows "read_frontend_message L ([t] @ be32 (as_u32 (4 + length body)) @ body @ rest) =
    (if [t] = octets ''Q'' then
       Inr (FQuery (if body \<noteq> [] \<and> last body = 0 then from_utf8_lossy L (butlast body) else from_utf8_lossy L body), rest)
     else if [t] = octets ''X'' then Inr (FTerminate, rest)
     else Inl (UnsupportedMessage t))"
proof -
  have "read_exact 1 ([t] @ be32 (as_u32 (4 + length body)) @ body @ rest) =
      Some ([t], be32 (as_u32 (4 + length body)) @ body @ rest)"
    by (rule read_exact_append) simp
  then show ?thesis using assms
    by (simp add: read_frontend_message_def read_exact_append sint_as_u32 fits_def nat_add_distrib)
qed

lemma read_simple_query:
  assumes "fits (length sql + 1)"
  shows "read_frontend_message L (build_simple_query sql @ rest) = Inr (FQuery (from_utf8_lossy L sql), rest)"
proof -
  have "build_simple_query sql @ rest = [81] @ be32 (as_u32 (4 + length (sql @ [0]))) @ (sql @ [0]) @ rest"
    by (simp add: build_simple_query_def octets_types)
  then show ?thesis using assms read_frontend_frame [of "sql @ [0]" L 81 rest] by (simp add: octets_types)
qed

lemma read_terminate: "read_frontend_message L (terminate_message @ rest) = Inr (FTerminate, rest)"
  using read_frontend_frame [of "[]" L 88 rest] by (simp add: terminate_message_def octets_types fits_def as_u32_def)

lemma read_cstring_append: "0 \<notin> set xs \<Longrightarrow> read_cstring L (xs @ 0 # ys) = Some (from_utf8_lossy L xs, ys)"
  by (simp add: read_cstring_def)

lemma lossy_ascii:
  assumes "list_all (\<lambda>c. of_char c < (128 :: nat)) s"
  shows "from_utf8_lossy L (octets s) = text_of s"
proof -
  have "list_all is_scalar (text_of s)"
    using assms by (induction s) (auto simp: text_of_def is_scalar_def)
  moreover have "octets s = text_bytes (text_of s)"
    using assms by (induction s) (auto simp: text_of_def octets_def text_bytes_def utf8_char_def)
  ultimately show ?thesis by simp
qed

lemma startup_frame:
  assumes "fits (length payload)" and "4 \<le> length payload" and "be32_of (take 4 payload) \<noteq> ssl_request_code"
  shows "startup L (be32 (as_u32 (4 + length payload)) @ payload @ rest) =
    ([], Inr (parse_startup_params L (drop 4 payload), rest))"
  using assms by (subst startup.simps) (simp add: read_exact_append sint_as_u32 fits_def nat_add_distrib)

lemma startup_build:
  assumes "0 \<notin> set user" and "0 \<notin> set database" and "length user + length database < 2 ^ 31 - 64"
  shows "startup L (build_startup user database @ rest) =
    ([], Inr ([text_of ''user'' \<mapsto> from_utf8_lossy L user, text_of ''database'' \<mapsto> from_utf8_lossy L database], rest))"
proof -
  let ?params = "octets ''user'' @ 0 # user @ 0 # octets ''database'' @ 0 # database @ 0 # [0]"
  have names: "0 \<notin> set (octets ''user'')" "0 \<notin> set (octets ''database'')" by (simp_all add: zero_in_octets)
  have keys: "from_utf8_lossy L (octets ''user'') = text_of ''user''" "from_utf8_lossy L (octets ''database'') = text_of ''database''"
    by (rule lossy_ascii, simp)+
  have nonempty: "text_of ''user'' \<noteq> []" "text_of ''database'' \<noteq> []" by (simp_all add: text_of_def)
  have last: "startup_params L [0] m = m" for m
    using read_cstring_append [of "[]" L "[]"] by (simp add: startup_params.simps [of L "[0]"] from_utf8_lossy_def decode_utf8.simps(1))
  have params: "parse_startup_params L ?params =
      [text_of ''user'' \<mapsto> from_utf8_lossy L user, text_of ''database'' \<mapsto> from_utf8_lossy L database]"
    using assms(1,2) names keys nonempty
    by (simp add: parse_startup_params_def startup_params.simps [of L ?params]
        startup_params.simps [of L "octets ''database'' @ 0 # database @ 0 # [0]"] read_cstring_append last)
  have frame: "build_startup user database @ rest =
      be32 (as_u32 (4 + length (be32 196608 @ ?params))) @ (be32 196608 @ ?params) @ rest"
    by (simp add: build_startup_def Let_def)
  have "startup L (be32 (as_u32 (4 + length (be32 196608 @ ?params))) @ (be32 196608 @ ?params) @ rest) =
      ([], Inr (parse_startup_params L (drop 4 (be32 196608 @ ?params)), rest))"
    by (rule startup_frame) (use assms(3) in \<open>simp_all add: fits_def ssl_request_code_def\<close>)
  with params show ?thesis unfolding frame by simp
qed

end
