(* ===== verification/Pg_Properties.thy ===== *)
theory Pg_Properties
  imports Pg_Facts
begin

text \<open>
  The properties of the wire protocol: a session of the client against the server gives what direct calls
  of the query handler give, every query is answered, and what happens on malformed input; of the extended
  protocol's session, of COPY and of MD5.
\<close>

subsection \<open>Sessions\<close>

text \<open>
  The specification: the queries of a session as calls of the handler, one after the other. A blank query
  is not passed on.
\<close>

definition call :: "'s handler \<Rightarrow> conn_context \<Rightarrow> ustring \<Rightarrow> 's \<Rightarrow> 's \<times> handler_reply option" where
  "call h cx q st = (if trim q = [] then (st, None) else (let (st', r) = h (trim q) cx st in (st', Some r)))"

fun calls :: "'s handler \<Rightarrow> conn_context \<Rightarrow> ustring list \<Rightarrow> 's \<Rightarrow> 's \<times> handler_reply option list" where
  "calls h cx [] st = (st, [])"
| "calls h cx (q # qs) st =
     (let (st1, r) = call h cx q st; (st2, rs) = calls h cx qs st1 in (st2, r # rs))"

definition good_reply :: "handler_reply option \<Rightarrow> bool" where
  "good_reply r \<longleftrightarrow> (case r of None \<Rightarrow> True | Some x \<Rightarrow> reply_ok x)"

definition expected :: "handler_reply option \<Rightarrow> query_response" where
  "expected r = (case r of None \<Rightarrow> response_default | Some x \<Rightarrow> response_of x)"

text \<open>The responses that the client reads, one for each of its queries.\<close>

fun read_responses :: "nat \<Rightarrow> bytes \<Rightarrow> (query_response list \<times> bytes) outcome" where
  "read_responses 0 inp = Fine ([], inp)"
| "read_responses (Suc n) inp =
     andthen (response_loop response_default inp) (\<lambda>(r, rest).
       andthen (read_responses n rest) (\<lambda>(rs, rest'). Fine (r # rs, rest')))"

lemma reply_ok_answer: "reply_ok r \<Longrightarrow> \<exists>ms. answer r = Some ms"
  by (cases r) (simp_all add: answer_def)

lemma respond_call:
  assumes "call h cx q st = (st', r)" and "good_reply r"
  shows "\<exists>ms. respond h cx q st = (st', Some ms) \<and>
    (\<forall>rest. response_loop response_default (encode_all ms @ rest) = Fine (expected r, rest))"
proof (cases r)
  case None
  with assms(1) show ?thesis
    by (auto simp: call_def respond_def expected_def response_empty split: if_splits prod.splits)
next
  case (Some x)
  with assms obtain ms where ms: "answer x = Some ms" "reply_ok x"
    using reply_ok_answer by (auto simp: good_reply_def)
  with assms(1) Some have "respond h cx q st = (st', Some (ms @ [ReadyForQuery (byte ''I'')]))"
    by (auto simp: call_def respond_def split: if_splits prod.splits)
  with ms Some show ?thesis using response_of_answer by (auto simp: expected_def)
qed

lemma query_loop_calls:
  "list_all (\<lambda>q. fits (length q + 1)) sqls \<Longrightarrow> calls h cx (map (from_utf8_lossy L) sqls) st = (st', rs) \<Longrightarrow>
   list_all good_reply rs \<Longrightarrow>
   \<exists>ms. query_loop L h cx (concat (map build_simple_query sqls) @ terminate_message) st = (st', ms) \<and>
     read_responses (length sqls) (encode_all ms) = Fine (map expected rs, [])"
proof (induction sqls arbitrary: st rs)
  case Nil
  then show ?case
    using read_terminate [of L "[]"] by (simp add: query_loop.simps [of L h cx terminate_message])
next
  case (Cons q sqls)
  obtain st1 r where c: "call h cx (from_utf8_lossy L q) st = (st1, r)" by fastforce
  with Cons.prems(2) obtain rs' where rest: "calls h cx (map (from_utf8_lossy L) sqls) st1 = (st', rs')" "rs = r # rs'"
    by (auto split: prod.splits)
  from Cons.prems rest have ok: "good_reply r" "list_all good_reply rs'" by simp_all
  let ?in = "concat (map build_simple_query sqls) @ terminate_message"
  from Cons.IH [OF _ rest(1) ok(2)] Cons.prems(1) obtain ms where
    ms: "query_loop L h cx ?in st1 = (st', ms)" "read_responses (length sqls) (encode_all ms) = Fine (map expected rs', [])"
    by auto
  from respond_call [OF c ok(1)] obtain ms1 where
    ms1: "respond h cx (from_utf8_lossy L q) st = (st1, Some ms1)"
      "\<And>rest. response_loop response_default (encode_all ms1 @ rest) = Fine (expected r, rest)" by auto
  have "query_loop L h cx (build_simple_query q @ ?in) st = (st', ms1 @ ms)"
    using Cons.prems(1) ms(1) ms1(1)
    by (simp add: query_loop.simps [of L h cx "build_simple_query q @ ?in"] read_simple_query)
  with ms(2) ms1(2) rest(2) show ?case by (simp add: encode_all_append)
qed

lemma connect_handshake: "connect database user pw (encode_all handshake @ rest) = Fine (rest, build_startup user database)"
proof -
  have R: "read_message (encode_backend AuthenticationOk @ r) = Fine (82, be32 0, r)" for r
    using read_backend [of AuthenticationOk r] by (simp add: fits_def)
  have K: "read_message (encode_backend (BackendKeyData 1 0) @ r) = Fine (75, be32 1 @ be32 0, r)" for r
    using read_backend [of "BackendKeyData 1 0" r] by (simp add: fits_def)
  have Z: "read_message (encode_backend (ReadyForQuery s) @ r) = Fine (90, [s], r)" for s r
    using read_backend [of "ReadyForQuery s" r] by (simp add: fits_def)
  have "auth_reply user pw (be32 0) = Fine []"
    by (simp add: auth_reply_def read_i32_be_def)
  then show ?thesis
    by (simp add: connect_def handshake_def encode_all_Cons connect_loop.simps [of user pw "encode_backend AuthenticationOk @ _"]
        connect_loop.simps [of user pw "encode_backend (BackendKeyData 1 0) @ _"]
        connect_loop.simps [of user pw "encode_backend (ReadyForQuery _) @ _"] R K Z del: encode_backend.simps)
qed

text \<open>
  C4: A client that connects, sends queries and closes the connection ends its handshake without an error and
  reads, for each query, exactly what the handler replied: the names of the columns, the values, the tag,
  the message of an error. The server's state afterwards is that of the direct calls.
\<close>

theorem session_refines_calls:
  assumes "0 \<notin> set user" and "0 \<notin> set database" and "length user + length database < 2 ^ 31 - 64"
    and "list_all (\<lambda>q. fits (length q + 1)) sqls"
    and "calls h \<lparr>cx_user = from_utf8_lossy L user, cx_database = from_utf8_lossy L database, cx_tenant_id = 0,
      cx_agent_id = None\<rparr> (map (from_utf8_lossy L) sqls) st = (st', rs)"
    and "list_all good_reply rs"
    and "run_connection L h (build_startup user database @ concat (map build_simple_query sqls) @ terminate_message) st =
      (out, st'')"
  shows "st'' = st' \<and> (\<exists>rest. connect database user pw out = Fine (rest, build_startup user database) \<and>
    read_responses (length sqls) rest = Fine (map expected rs, []))"
proof -
  let ?cx = "\<lparr>cx_user = from_utf8_lossy L user, cx_database = from_utf8_lossy L database, cx_tenant_id = 0,
      cx_agent_id = None\<rparr>"
  have keys: "text_of ''user'' \<noteq> text_of ''database''" by (simp add: text_of_def)
  then have cx: "context_of [text_of ''user'' \<mapsto> from_utf8_lossy L user, text_of ''database'' \<mapsto> from_utf8_lossy L database] = ?cx"
    by (simp add: context_of_def or_empty_def)
  obtain ms where ms: "query_loop L h ?cx (concat (map build_simple_query sqls) @ terminate_message) st = (st', ms)"
      "read_responses (length sqls) (encode_all ms) = Fine (map expected rs, [])"
    using query_loop_calls [OF assms(4,5,6)] by auto
  have "run_connection L h (build_startup user database @ concat (map build_simple_query sqls) @ terminate_message) st =
      (encode_all handshake @ encode_all ms, st')"
    by (simp add: run_connection_def startup_build [OF assms(1,2,3)] cx ms(1) encode_all_append)
  with assms(7) ms(2) connect_handshake show ?thesis by auto
qed

definition demo_reply :: handler_reply where
  "demo_reply = HOk \<lparr>qr_columns = [\<lparr>fd_name = ''n'', fd_type_oid = 25\<rparr>], qr_rows = [[Some ''7''], [None]],
     qr_tag = ''SELECT 2''\<rparr>"

definition demo_handler :: "nat handler" where
  "demo_handler q cx n = (Suc n, demo_reply)"

lemma demo_reply_ok: "reply_ok demo_reply"
  by (simp add: demo_reply_def result_ok_def cstring_ok_def utf8_ok_def octets_def decode_utf8.simps fits_def
      row_description_body_def field_body_def row_ok_def value_ok_def text_ok_def data_row_body_def)

lemma demo_run: "calls demo_handler cx (map (from_utf8_lossy L) [octets ''q'', []]) 0 = (1, [Some demo_reply, None])"
proof -
  have "from_utf8_lossy L (octets ''q'') = [113]" "from_utf8_lossy L [] = []"
    using lossy_ascii [of "''q''" L] by (simp_all add: text_of_def from_utf8_lossy_def decode_utf8.simps(1))
  then show ?thesis by (simp add: call_def demo_handler_def trim_def is_white_def)
qed

theorem session_refines_calls_witness:
  "case run_connection (\<lambda>_. []) demo_handler
      (build_startup (octets ''me'') (octets ''db'') @ concat (map build_simple_query [octets ''q'', []]) @ terminate_message) 0 of
     (out, st) \<Rightarrow> st = 1 \<and> (\<exists>rest. connect (octets ''db'') (octets ''me'') None out =
         Fine (rest, build_startup (octets ''me'') (octets ''db'')) \<and>
       read_responses (length [octets ''q'', []]) rest = Fine ([response_default\<lparr>qs_columns := [''n''], qs_rows := [[''7''], [''NULL'']],
         qs_tag := ''SELECT 2''\<rparr>, response_default], []))"
proof -
  let ?in = "build_startup (octets ''me'') (octets ''db'') @ concat (map build_simple_query [octets ''q'', []]) @ terminate_message"
  obtain out st where run: "run_connection (\<lambda>_. []) demo_handler ?in 0 = (out, st)" by fastforce
  have expected: "map expected [Some demo_reply, None] =
      [response_default\<lparr>qs_columns := [''n''], qs_rows := [[''7''], [''NULL'']], qs_tag := ''SELECT 2''\<rparr>, response_default]"
    by (simp add: expected_def demo_reply_def shown_def)
  have "st = 1 \<and> (\<exists>rest. connect (octets ''db'') (octets ''me'') None out = Fine (rest, build_startup (octets ''me'') (octets ''db'')) \<and>
      read_responses (length [octets ''q'', []]) rest = Fine (map expected [Some demo_reply, None], []))"
    by (rule session_refines_calls [OF _ _ _ _ demo_run _ run])
      (simp_all add: zero_in_octets fits_def good_reply_def demo_reply_ok)
  then show ?thesis unfolding expected run prod.case .
qed

subsection \<open>Answers to every query\<close>

abbreviation ready :: backend_message where
  "ready \<equiv> ReadyForQuery (byte ''I'')"

lemma answer_not_ready: "answer r = Some ms \<Longrightarrow> ready \<notin> set ms"
  by (auto simp: answer_def split: handler_reply.splits if_splits)

text \<open>
  C32: A client that sends queries on which the handler does not panic is answered for each, whatever
  follows them: one group of messages for each query, in order, and each group ends in the only
  \<open>ReadyForQuery\<close> that it has. A query whose handler panics ends the connection instead.
\<close>

definition handled :: "(bytes \<Rightarrow> ustring) \<Rightarrow> 's handler \<Rightarrow> conn_context \<Rightarrow> bytes \<Rightarrow> bool" where
  "handled L h cx q \<longleftrightarrow> (\<forall>st. snd (h (trim (from_utf8_lossy L q)) cx st) \<noteq> HPanic)"

theorem every_query_answered:
  assumes "list_all (\<lambda>q. fits (length q + 1) \<and> handled L h cx q) sqls"
  shows "\<exists>groups more. snd (query_loop L h cx (concat (map build_simple_query sqls) @ rest) st) = concat groups @ more \<and>
    length groups = length sqls \<and> list_all (\<lambda>g. g \<noteq> [] \<and> last g = ready \<and> ready \<notin> set (butlast g)) groups"
  using assms
proof (induction sqls arbitrary: st)
  case (Cons q sqls)
  let ?in = "concat (map build_simple_query sqls) @ rest"
  obtain st1 g where g: "respond h cx (from_utf8_lossy L q) st = (st1, Some g)"
      "g \<noteq> []" "last g = ready" "ready \<notin> set (butlast g)"
  proof (cases "trim (from_utf8_lossy L q) = []")
    case True
    then have "respond h cx (from_utf8_lossy L q) st = (st, Some [EmptyQueryResponse, ready])"
      by (simp add: respond_def)
    from that [OF this] show ?thesis by simp
  next
    case False
    obtain st1 r where r: "h (trim (from_utf8_lossy L q)) cx st = (st1, r)" by fastforce
    with Cons.prems have "r \<noteq> HPanic" by (auto simp: handled_def dest: spec [of _ st])
    then obtain ms where ms: "answer r = Some ms" by (cases r) (simp_all add: answer_def)
    with False r have "respond h cx (from_utf8_lossy L q) st = (st1, Some (ms @ [ready]))"
      by (simp add: respond_def)
    from that [OF this] answer_not_ready [OF ms] show ?thesis by simp
  qed
  from Cons obtain groups more where
    IH: "snd (query_loop L h cx ?in st1) = concat groups @ more" "length groups = length sqls"
      "list_all (\<lambda>g. g \<noteq> [] \<and> last g = ready \<and> ready \<notin> set (butlast g)) groups" by fastforce
  have "snd (query_loop L h cx (build_simple_query q @ ?in) st) = concat (g # groups) @ more"
    using Cons.prems g(1) IH(1)
    by (cases "query_loop L h cx ?in st1")
      (simp add: query_loop.simps [of L h cx "build_simple_query q @ ?in"] read_simple_query)
  with IH g(2,3,4) show ?case
    by (intro exI [of _ "g # groups"] exI [of _ more]) simp
next
  case Nil
  show ?case by (intro exI [of _ "[]"] exI [of _ "snd (query_loop L h cx rest st)"]) simp
qed

definition demo_context :: conn_context where
  "demo_context = \<lparr>cx_user = [], cx_database = [], cx_tenant_id = 0, cx_agent_id = None\<rparr>"

theorem every_query_answered_witness:
  "\<exists>groups more. snd (query_loop (\<lambda>_. []) demo_handler demo_context (concat (map build_simple_query [octets ''q'', []]) @ [80]) 0) =
     concat groups @ more \<and> length groups = length [octets ''q'', []] \<and>
     list_all (\<lambda>g. g \<noteq> [] \<and> last g = ready \<and> ready \<notin> set (butlast g)) groups"
  by (rule every_query_answered) (simp_all add: fits_def handled_def demo_handler_def demo_reply_def)

subsection \<open>Malformed and unsupported messages\<close>

text \<open>
  A message length that is negative as an i32: the server refuses it, the client casts it to a usize and
  panics in the allocation.
\<close>

theorem negative_length_panics_client:
  assumes "sint w < 0"
  shows "read_message ([t] @ be32 w @ rest) = Crash \<and>
    read_frontend_message L ([t] @ be32 w @ rest) = Inl (InvalidMessageLength (sint w))"
proof -
  have "- (2 ^ 31) \<le> sint w" using sint_greater_eq [of w] by simp
  with assms have "isize_max < i32_as_usize w - 4" "\<not> i32_as_usize w < 4"
    by (auto simp: i32_as_usize_def isize_max_def)
  moreover have "read_exact 1 ([t] @ be32 w @ rest) = Some ([t], be32 w @ rest)"
    by (rule read_exact_append) simp
  ultimately show ?thesis using assms
    by (simp add: read_message_def read_frontend_message_def read_exact_append)
qed

theorem negative_length_panics_client_witness:
  "read_message ([68] @ be32 0xFFFFFFFF @ []) = Crash \<and>
   read_frontend_message (\<lambda>_. []) ([68] @ be32 0xFFFFFFFF @ []) = Inl (InvalidMessageLength (- 1))"
  using negative_length_panics_client [of "0xFFFFFFFF" 68 "[]" "\<lambda>_. []"] by simp

text \<open>
  A message of any type but a query or a termination, those of the extended protocol included, ends the
  connection without an answer, and nothing behind it is read.
\<close>

theorem other_messages_end_connection:
  assumes "fits (length body)" and "t \<noteq> 81" and "t \<noteq> 88"
  shows "query_loop L h cx ([t] @ be32 (as_u32 (4 + length body)) @ body @ rest) st = (st, [])"
proof -
  have "read_frontend_message L ([t] @ be32 (as_u32 (4 + length body)) @ body @ rest) = Inl (UnsupportedMessage t)"
    using assms by (simp only: read_frontend_frame) (simp add: octets_types)
  then show ?thesis by (subst query_loop.simps) simp
qed

theorem other_messages_end_connection_witness:
  "query_loop (\<lambda>_. []) demo_handler cx ([80] @ be32 (as_u32 (4 + length (octets ''q''))) @ octets ''q'' @ build_simple_query (octets ''q'')) 5 =
     (5, [])"
  by (rule other_messages_end_connection) (simp_all add: fits_def)

text \<open>A null and the text \<open>NULL\<close> reach the user of the client alike.\<close>

theorem null_reads_as_text:
  "parse_data_row (data_row_body [None]) = Fine [''NULL''] \<and>
   parse_data_row (data_row_body [Some ''NULL'']) = Fine [''NULL'']"
  by (simp add: parse_data_row_body value_ok_def text_ok_def utf8_ok_def octets_def decode_utf8.simps shown_def)

subsection \<open>The extended protocol's session\<close>

definition session_step :: "extended_message \<Rightarrow> session \<Rightarrow> session" where
  "session_step m s = fst (handle_describe m (fst (handle_bind m (fst (handle_parse m s)))))"

text \<open>
  After any messages, a session's statements and portals carry the names they are stored under, every
  portal names a statement that exists, so that executing a portal always finds a text; and that text is
  the one last given for the statement's name, not the one at the time of the Bind.
\<close>

definition session_ok :: "session \<Rightarrow> bool" where
  "session_ok s \<longleftrightarrow> (\<forall>x p. statements s x = Some p \<longrightarrow> ps_name p = x) \<and>
     (\<forall>x p. portals s x = Some p \<longrightarrow> po_name p = x \<and> statements s (po_statement p) \<noteq> None)"

lemma session_step_ok: "session_ok s \<Longrightarrow> session_ok (session_step m s)"
  by (cases m) (auto simp: session_step_def handle_parse_def handle_bind_def handle_describe_def session_ok_def)

lemma session_run_ok: "session_ok s \<Longrightarrow> session_ok (fold session_step ms s)"
  by (induction ms arbitrary: s) (simp_all add: session_step_ok)

theorem portals_executable:
  "session_ok (fold session_step ms session_new) \<and>
   fst (handle_execute (Execute x n) (fold session_step ms session_new)) =
     map_option (\<lambda>p. ps_query (the (statements (fold session_step ms session_new) (po_statement p))))
       (portals (fold session_step ms session_new) x)"
proof -
  have "session_ok session_new" by (simp add: session_ok_def session_new_def)
  then have ok: "session_ok (fold session_step ms session_new)" by (rule session_run_ok)
  moreover have "statements (fold session_step ms session_new) (po_statement p) \<noteq> None"
    if "portals (fold session_step ms session_new) x = Some p" for p
    using ok that by (auto simp: session_ok_def)
  ultimately show ?thesis
    by (cases "portals (fold session_step ms session_new) x") (force simp: handle_execute_def)+
qed

text \<open>
  A portal bound with a parameter executes the text of a later Parse of the same name, and the parameter
  is not part of what is executed.
\<close>

theorem rebound_text_executes:
  "fst (handle_execute (Execute p n)
     (fold session_step [Parse s q1 [], Bind p s [Some v], Parse s q2 []] session_new)) = Some q2"
  by (simp add: session_step_def handle_parse_def handle_bind_def handle_describe_def handle_execute_def session_new_def)

text \<open>
  A parameter count that is negative as an i16 panics in the allocation, in a Parse and in a Bind message;
  every other Parse message is read or refused.
\<close>

theorem negative_count_panics:
  "parse_extended_message L (byte ''P'') ([0, 0] @ be16 w @ rest) = ExtPanic \<longleftrightarrow> sint w < 0"
proof -
  have read: "read_cstring L (0 # xs) = Some ([], xs)" for xs
    using read_cstring_append [of "[]" L xs] by (simp add: from_utf8_lossy_def decode_utf8.simps(1))
  have oids: "read_oids i n src \<noteq> ExtPanic" for i n src
  proof (induction n arbitrary: i src)
    case (Suc n)
    show ?case
    proof (cases "read_i32 src")
      case (Some v)
      with Suc [of "Suc i" "snd v"] show ?thesis
        by (cases "read_oids (Suc i) n (snd v)") (auto simp: ok_or_def split: prod.splits)
    qed (simp add: ok_or_def)
  qed simp
  have "ext_bind (read_oids 0 k src) (\<lambda>(os, _). ExtOk (Parse [] [] os)) \<noteq> ExtPanic" for k src
    using oids [of 0 k src] by (cases "read_oids 0 k src") (auto split: prod.splits)
  then show ?thesis
    by (simp add: parse_extended_message_def parse_parse_def read read_i16_def ok_or_def)
qed

subsection \<open>COPY\<close>

text \<open>The reference: how a field is written in the text format.\<close>

definition escape_char :: "nat \<Rightarrow> ustring" where
  "escape_char c = (if c = 92 then [92, 92] else if c = 10 then [92, 110] else if c = 9 then [92, 116]
     else if c = 13 then [92, 114] else [c])"

definition copy_field :: "ustring option \<Rightarrow> ustring" where
  "copy_field v = (case v of None \<Rightarrow> [92, 78] | Some s \<Rightarrow> concat (map escape_char s))"

fun copy_line :: "ustring option list \<Rightarrow> ustring" where
  "copy_line [] = []"
| "copy_line [v] = copy_field v"
| "copy_line (v # vs) = copy_field v @ 9 # copy_line vs"

lemma unescape_plain: "c \<noteq> 92 \<Longrightarrow> unescape_copy_text (c # cs) = c # unescape_copy_text cs"
  by (cases cs) simp_all

lemma unescape_escape: "unescape_copy_text (concat (map escape_char s)) = s"
  by (induction s) (auto simp: escape_char_def unescape_plain)

lemma no_tab: "9 \<notin> set (copy_field v)"
  by (auto simp: copy_field_def escape_char_def split: option.splits if_splits)

lemma escaped_not_null: "concat (map escape_char s) \<noteq> [92, 78]"
  by (cases s) (auto simp: escape_char_def split: if_splits)

lemma split_on_tab: "9 \<notin> set xs \<Longrightarrow> split_on (\<lambda>c. c = 9) (xs @ 9 # ys) = xs # split_on (\<lambda>c. c = 9) ys"
  by (induction xs) auto

lemma split_on_none: "9 \<notin> set xs \<Longrightarrow> split_on (\<lambda>c. c = 9) xs = [xs]"
  by (induction xs) auto

lemma split_copy_line: "vs \<noteq> [] \<Longrightarrow> split_on (\<lambda>c. c = 9) (copy_line vs) = map copy_field vs"
  by (induction vs rule: copy_line.induct) (simp_all add: split_on_tab split_on_none no_tab)

text \<open>
  C34: The parser of a COPY row inverts the writer of the text format: nulls, tabs, line ends, backslashes and
  the text of a null marker all come back as they were, and no row break is inside a written row. The row
  of no columns is read as one empty text.
\<close>

theorem copy_row_roundtrip:
  "parse_copy_text_row (copy_line vs) = (if vs = [] then [Some []] else vs) \<and> 10 \<notin> set (copy_line vs)"
proof -
  have "(if copy_field v = [92, 78] then None else Some (unescape_copy_text (copy_field v))) = v" for v
    by (cases v) (simp_all add: copy_field_def unescape_escape escaped_not_null)
  moreover have "10 \<notin> set (copy_field v)" for v
    by (auto simp: copy_field_def escape_char_def split: option.splits if_splits)
  then have "10 \<notin> set (copy_line vs)" by (induction vs rule: copy_line.induct) simp_all
  ultimately show ?thesis
    by (cases "vs = []") (simp_all add: parse_copy_text_row_def split_copy_line comp_def)
qed

subsection \<open>MD5\<close>

text \<open>
  The padding of MD5 fills whole blocks and its loop ends on every input (theory Pg_Client). Its digests,
  evaluated by the kernel.
\<close>

lemma md5_of_nothing: "hex_encode (simple_md5 []) = octets ''d41d8cd98f00b204e9800998ecf8427e''"
  by code_simp

lemma md5_of_a: "hex_encode (simple_md5 (octets ''a'')) = octets ''0cc175b9c0f1b6a831c399e269772661''"
  by code_simp

lemma md5_of_abc: "hex_encode (simple_md5 (octets ''abc'')) = octets ''900150983cd24fb0d6963f7d28e17f72''"
  by code_simp

text \<open>The client's own MD5 gives the digests of the test suite of RFC 1321 for no byte, one byte and three.\<close>

theorem md5_test_vectors:
  "hex_encode (simple_md5 []) = octets ''d41d8cd98f00b204e9800998ecf8427e'' \<and>
   hex_encode (simple_md5 (octets ''a'')) = octets ''0cc175b9c0f1b6a831c399e269772661'' \<and>
   hex_encode (simple_md5 (octets ''abc'')) = octets ''900150983cd24fb0d6963f7d28e17f72''"
  by (rule conjI [OF md5_of_nothing conjI [OF md5_of_a md5_of_abc]])

end
