(* ===== verification/Cli.thy ===== *)
theory Cli
  imports Pg_Client
begin

text \<open>
  The command line client, \<open>crates/fundb-cli/src\<close>: the arguments (\<open>args.rs\<close>), the meta-commands
  (\<open>commands.rs\<close>), the rendering of results (\<open>display.rs\<close>), the interactive loop (\<open>repl.rs\<close>) and the
  execution of a command or of a file (\<open>main.rs\<close>). Texts are code points; the terminal's output is a list
  of printed texts. The connection is a state with a function that executes a query on it.
\<close>

subsection \<open>Arguments (args.rs)\<close>

datatype output_format = TableFormat | JsonFormat | CsvFormat

record cli_args =
  ca_host :: ustring
  ca_port :: int
  ca_database :: ustring
  ca_user :: ustring
  ca_password :: "ustring option"
  ca_command :: "ustring option"
  ca_file :: "ustring option"
  ca_no_color :: bool
  ca_format :: output_format

definition cli_args_default :: cli_args where
  "cli_args_default = \<lparr>ca_host = text_of ''localhost'', ca_port = 5433, ca_database = text_of ''fundb'',
     ca_user = text_of ''fundb'', ca_password = None, ca_command = None, ca_file = None, ca_no_color = False,
     ca_format = TableFormat\<rparr>"

datatype args_error = NeedsValue ustring | InvalidPort ustring | UnknownFormat ustring | UnknownArgument ustring

datatype args_result = Run cli_args | ExitHelp | ExitVersion | ArgsError args_error

definition parse_format :: "casing \<Rightarrow> ustring \<Rightarrow> output_format option" where
  "parse_format T v =
     (let w = to_lowercase T v
      in if w = text_of ''table'' then Some TableFormat
         else if w = text_of ''json'' then Some JsonFormat
         else if w = text_of ''csv'' then Some CsvFormat else None)"

definition parse_u16 :: "ustring \<Rightarrow> int option" where
  "parse_u16 v = parse_int 0 65535 v"

definition one_of :: "ustring \<Rightarrow> string list \<Rightarrow> bool" where
  "one_of arg names \<longleftrightarrow> arg \<in> text_of ` set names"

text \<open>The option that takes a value, with that value.\<close>

definition set_option :: "casing \<Rightarrow> ustring \<Rightarrow> ustring \<Rightarrow> cli_args \<Rightarrow> args_error + cli_args" where
  "set_option T arg v a =
     (if one_of arg [''--host'', ''-h''] then Inr (a\<lparr>ca_host := v\<rparr>)
      else if one_of arg [''--port'', ''-p''] then
        (case parse_u16 v of None \<Rightarrow> Inl (InvalidPort v) | Some p \<Rightarrow> Inr (a\<lparr>ca_port := p\<rparr>))
      else if one_of arg [''--database'', ''-d''] then Inr (a\<lparr>ca_database := v\<rparr>)
      else if one_of arg [''--user'', ''-u''] then Inr (a\<lparr>ca_user := v\<rparr>)
      else if one_of arg [''--password'', ''-W''] then Inr (a\<lparr>ca_password := Some v\<rparr>)
      else if one_of arg [''--command'', ''-c''] then Inr (a\<lparr>ca_command := Some v\<rparr>)
      else if one_of arg [''--file'', ''-i''] then Inr (a\<lparr>ca_file := Some v\<rparr>)
      else (case parse_format T v of
              None \<Rightarrow> Inl (UnknownFormat (to_lowercase T v)) | Some f \<Rightarrow> Inr (a\<lparr>ca_format := f\<rparr>)))"

definition takes_value :: "ustring \<Rightarrow> bool" where
  "takes_value arg \<longleftrightarrow> one_of arg [''--host'', ''-h'', ''--port'', ''-p'', ''--database'', ''-d'', ''--user'', ''-u'',
     ''--password'', ''-W'', ''--command'', ''-c'', ''--file'', ''-i'', ''--format'', ''-f'']"

fun parse_args :: "casing \<Rightarrow> ustring list \<Rightarrow> cli_args \<Rightarrow> args_result" where
  "parse_args T [] a = Run a"
| "parse_args T (arg # rest) a =
     (if one_of arg [''--help'', ''-?''] then ExitHelp
      else if one_of arg [''--version'', ''-V''] then ExitVersion
      else if one_of arg [''--no-color''] then parse_args T rest (a\<lparr>ca_no_color := True\<rparr>)
      else if takes_value arg then
        (case rest of
           [] \<Rightarrow> ArgsError (NeedsValue arg)
         | v # rest' \<Rightarrow> (case set_option T arg v a of Inl e \<Rightarrow> ArgsError e | Inr a' \<Rightarrow> parse_args T rest' a'))
      else if starts_with (text_of ''-'') arg then ArgsError (UnknownArgument arg)
      else parse_args T rest (a\<lparr>ca_database := arg\<rparr>))"

definition cli_parse :: "casing \<Rightarrow> ustring list \<Rightarrow> args_result" where
  "cli_parse T args = parse_args T args cli_args_default"

subsection \<open>Meta-commands (commands.rs)\<close>

datatype memory_subcommand = MemList | MemRecall ustring | MemForget ustring

datatype meta_command =
    Help | Quit | Connect ustring int | Memory memory_subcommand | Causal ustring ustring
  | MetaUnderstand ustring | Status | Format output_format | UnknownMeta ustring

text \<open>\<open>splitn\<close>: at most \<open>n\<close> pieces, the last one whole.\<close>

fun split_first :: "(nat \<Rightarrow> bool) \<Rightarrow> ustring \<Rightarrow> (ustring \<times> ustring) option" where
  "split_first P [] = None"
| "split_first P (c # cs) =
     (if P c then Some ([], cs) else map_option (\<lambda>(a, b). (c # a, b)) (split_first P cs))"

fun splitn :: "nat \<Rightarrow> (nat \<Rightarrow> bool) \<Rightarrow> ustring \<Rightarrow> ustring list" where
  "splitn 0 P s = []"
| "splitn (Suc 0) P s = [s]"
| "splitn (Suc (Suc n)) P s =
     (case split_first P s of None \<Rightarrow> [s] | Some (a, b) \<Rightarrow> a # splitn (Suc n) P b)"

fun join_with :: "ustring \<Rightarrow> ustring list \<Rightarrow> ustring" where
  "join_with sep [] = []"
| "join_with sep [x] = x"
| "join_with sep (x # xs) = x @ sep @ join_with sep xs"

definition default_port :: int where
  "default_port = 5433"

definition port_or_default :: "ustring \<Rightarrow> int" where
  "port_or_default s = (case parse_u16 s of None \<Rightarrow> default_port | Some p \<Rightarrow> p)"

text \<open>At the last colon, if there is one.\<close>

definition parse_host_port :: "ustring \<Rightarrow> ustring option \<Rightarrow> ustring \<times> int" where
  "parse_host_port host_arg port_arg =
     (if 58 \<in> set host_arg then
        let port = rev (takeWhile (\<lambda>c. c \<noteq> 58) (rev host_arg))
        in (take (length host_arg - length port - 1) host_arg, port_or_default port)
      else (host_arg, case port_arg of None \<Rightarrow> default_port | Some p \<Rightarrow> port_or_default p))"

definition arg_or :: "ustring \<Rightarrow> nat \<Rightarrow> ustring list \<Rightarrow> ustring" where
  "arg_or d i xs = (if i < length xs then xs ! i else d)"

definition parse_memory :: "casing \<Rightarrow> ustring list \<Rightarrow> meta_command" where
  "parse_memory T rest =
     (let sub = to_lowercase T (arg_or [] 0 rest)
      in if sub = text_of ''list'' \<or> sub = [] then Memory MemList
         else if sub = text_of ''recall'' then
           (let query = join_with [32] (tl rest)
            in if query = [] then UnknownMeta ([92] @ text_of ''memory recall requires a query argument'')
               else Memory (MemRecall query))
         else if sub = text_of ''forget'' then
           (let i = arg_or [] 1 rest
            in if i = [] then UnknownMeta ([92] @ text_of ''memory forget requires an id argument'')
               else Memory (MemForget i))
         else UnknownMeta (text_of ''Unknown memory subcommand '' @ [39] @ sub @ [39] @ text_of ''. Use: list, recall, forget''))"

definition meta_dispatch :: "casing \<Rightarrow> ustring \<Rightarrow> ustring list \<Rightarrow> meta_command" where
  "meta_dispatch T cmd rest =
     (if one_of cmd [''q'', ''quit''] then Quit
      else if one_of cmd [''?'', ''help''] then Help
      else if one_of cmd [''status''] then Status
      else if one_of cmd [''format'', ''f''] then
        (let v = arg_or [] 0 rest
         in case parse_format T v of
              Some f \<Rightarrow> Format f
            | None \<Rightarrow> UnknownMeta (text_of ''Unknown format '' @ [39] @ v @ [39] @ text_of ''. Use: table, json, csv''))
      else if one_of cmd [''connect'', ''c''] then
        (let (h, p) = parse_host_port (arg_or (text_of ''localhost'') 0 rest) (if 1 < length rest then Some (rest ! 1) else None)
         in Connect h p)
      else if one_of cmd [''understand'', ''u''] then
        (let intent = join_with [32] rest
         in if intent = [] then UnknownMeta ([92] @ text_of ''understand requires an intent argument'') else MetaUnderstand intent)
      else if one_of cmd [''causal''] then
        (if length rest < 2 then UnknownMeta ([92] @ text_of ''causal requires two arguments: <from_id> <to_id>'')
         else Causal (rest ! 0) (rest ! 1))
      else if one_of cmd [''memory'', ''mem''] then parse_memory T rest
      else UnknownMeta (text_of ''Unknown meta-command: '' @ [92] @ cmd))"

definition meta_parse :: "casing \<Rightarrow> ustring \<Rightarrow> meta_command" where
  "meta_parse T input =
     (let trimmed = trim input;
          without_slash = (if starts_with [92] trimmed then tl trimmed else trimmed);
          rest = split_whitespace (case split_first is_white without_slash of None \<Rightarrow> [] | Some (_, b) \<Rightarrow> b)
      in case filter (\<lambda>t. t \<noteq> []) (splitn 4 is_white without_slash) of
           [] \<Rightarrow> UnknownMeta input
         | cmd # _ \<Rightarrow> meta_dispatch T (to_lowercase T cmd) rest)"

subsection \<open>Rendering (display.rs)\<close>

record renderer =
  no_color :: bool
  format :: output_format

text \<open>ANSI escape sequences.\<close>

definition ansi :: "string \<Rightarrow> ustring" where
  "ansi code = [27] @ text_of ''['' @ text_of code @ text_of ''m''"

text \<open>The characters of a string given by its bytes.\<close>

definition str_text :: "string \<Rightarrow> ustring" where
  "str_text s = (case decode_utf8 (map of_char s) of None \<Rightarrow> [] | Some t \<Rightarrow> t)"

definition render_error :: "renderer \<Rightarrow> ustring \<Rightarrow> ustring" where
  "render_error R msg =
     (if no_color R then text_of ''ERROR: '' @ msg else ansi ''31'' @ text_of ''ERROR:'' @ ansi ''0'' @ [32] @ msg)"

definition render_notice :: "renderer \<Rightarrow> ustring \<Rightarrow> ustring" where
  "render_notice R msg =
     (if no_color R then text_of ''NOTICE: '' @ msg else ansi ''33'' @ text_of ''NOTICE:'' @ ansi ''0'' @ [32] @ msg)"

definition render_ok :: "renderer \<Rightarrow> ustring \<Rightarrow> ustring" where
  "render_ok R tag = (if no_color R then tag else ansi ''32'' @ tag @ ansi ''0'')"

text \<open>The widths count bytes, the padding counts characters.\<close>

definition cell_at :: "string \<Rightarrow> string list \<Rightarrow> nat \<Rightarrow> string" where
  "cell_at d row i = (if i < length row then row ! i else d)"

definition column_widths :: "string list \<Rightarrow> string list list \<Rightarrow> nat list" where
  "column_widths columns rows =
     map (\<lambda>i. foldl max (length (columns ! i)) (map length (map (\<lambda>row. cell_at [] row i) rows))) [0..<length columns]"

definition padded_cell :: "nat \<Rightarrow> ustring \<Rightarrow> ustring" where
  "padded_cell w s = [32] @ s @ replicate (w - length s) 32 @ [32]"

definition table_line :: "nat list \<Rightarrow> ustring list \<Rightarrow> ustring" where
  "table_line widths cells = join_with (text_of ''|'') (map2 padded_cell widths cells)"

definition row_count_footer :: "nat \<Rightarrow> ustring" where
  "row_count_footer n = (if n = 1 then text_of ''(1 row)'' else text_of (''('' @ dec_digits n @ '' rows)''))"

definition render_table :: "renderer \<Rightarrow> query_response \<Rightarrow> ustring" where
  "render_table R resp =
     (let columns = qs_columns resp; rows = qs_rows resp; tag = str_text (qs_tag resp)
      in if columns = [] then (if qs_tag resp \<noteq> [] then render_ok R tag else [])
         else
           let widths = column_widths columns rows;
               header = table_line widths (map str_text columns);
               separator = join_with (text_of ''+'') (map (\<lambda>w. replicate (w + 2) 45) widths);
               line = (\<lambda>row. table_line widths (map (\<lambda>i. str_text (cell_at [] row i)) [0..<length columns]) @ [10])
           in (if no_color R then header else ansi ''1'' @ header @ ansi ''0'') @ [10] @ separator @ [10] @
              concat (map line rows) @ row_count_footer (length rows) @ [10] @
              (if qs_tag resp \<noteq> [] then render_ok R tag @ [10] else []))"

definition hex4 :: "nat \<Rightarrow> ustring" where
  "hex4 c = map (\<lambda>k. let d = c div 16 ^ k mod 16 in if d < 10 then 48 + d else 87 + d) [3, 2, 1, 0]"

definition escape_json_char :: "nat \<Rightarrow> ustring" where
  "escape_json_char c =
     (if c = 34 then [92, 34] else if c = 92 then [92, 92] else if c = 10 then [92, 110]
      else if c = 13 then [92, 114] else if c = 9 then [92, 116]
      else if c < 0x20 then [92, 117] @ hex4 c else [c])"

definition escape_json :: "ustring \<Rightarrow> ustring" where
  "escape_json s = concat (map escape_json_char s)"

definition json_string :: "ustring \<Rightarrow> ustring" where
  "json_string s = [34] @ escape_json s @ [34]"

definition json_cell :: "string \<Rightarrow> ustring" where
  "json_cell cell = (if cell = ''NULL'' then text_of ''null'' else json_string (str_text cell))"

definition render_json :: "query_response \<Rightarrow> ustring" where
  "render_json resp =
     (let columns = qs_columns resp;
          cells = (\<lambda>row. map (\<lambda>i. json_cell (cell_at ''null'' row i)) [0..<length columns])
      in text_of ''{'' @ [34] @ text_of ''columns'' @ [34] @ text_of '': ['' @
         join_with (text_of '', '') (map (\<lambda>c. json_string (str_text c)) columns) @
         text_of ''], '' @ [34] @ text_of ''rows'' @ [34] @ text_of '': ['' @
         join_with (text_of '', '') (map (\<lambda>row. text_of ''['' @ join_with (text_of '', '') (cells row) @ text_of '']'') (qs_rows resp)) @
         text_of '']}'' @ [10])"

definition csv_escape :: "ustring \<Rightarrow> ustring" where
  "csv_escape s =
     (if 44 \<in> set s \<or> 34 \<in> set s \<or> 10 \<in> set s \<or> 13 \<in> set s
      then [34] @ concat (map (\<lambda>c. if c = 34 then [34, 34] else [c]) s) @ [34] else s)"

definition csv_line :: "ustring list \<Rightarrow> ustring" where
  "csv_line fields' = join_with [44] (map csv_escape fields') @ [10]"

definition render_csv :: "query_response \<Rightarrow> ustring" where
  "render_csv resp =
     (let columns = qs_columns resp
      in csv_line (map str_text columns) @
         concat (map (\<lambda>row. csv_line (map (\<lambda>i. str_text (cell_at [] row i)) [0..<length columns])) (qs_rows resp)))"

definition render :: "renderer \<Rightarrow> query_response \<Rightarrow> ustring" where
  "render R resp =
     (case qs_error resp of
        Some err \<Rightarrow> render_error R (str_text err)
      | None \<Rightarrow>
          (case qs_notice resp of None \<Rightarrow> [] | Some n \<Rightarrow> render_notice R (str_text n) @ [10]) @
          (case format R of
             TableFormat \<Rightarrow> render_table R resp | JsonFormat \<Rightarrow> render_json resp | CsvFormat \<Rightarrow> render_csv resp))"

end
