(* ===== verification/Cli_Session.thy ===== *)
theory Cli_Session
  imports Cli
begin

text \<open>
  The interactive loop (\<open>repl.rs\<close>) and the execution of a command or a file (\<open>main.rs\<close>) of
  \<open>crates/fundb-cli/src\<close>. The input is the list of lines read, each with its line end.
\<close>

text \<open>What runs a query on a connection: the new state, and the text of an error or the response.\<close>

type_synonym 'c executor = "ustring \<Rightarrow> 'c \<Rightarrow> 'c \<times> (ustring + query_response)"

definition println :: "ustring \<Rightarrow> ustring" where
  "println s = s @ [10]"

definition ends_with :: "nat \<Rightarrow> ustring \<Rightarrow> bool" where
  "ends_with c s \<longleftrightarrow> s \<noteq> [] \<and> last s = c"

definition trim_end_char :: "nat \<Rightarrow> ustring \<Rightarrow> ustring" where
  "trim_end_char c s = rev (dropWhile (\<lambda>d. d = c) (rev s))"

definition shown_result :: "renderer \<Rightarrow> ustring + query_response \<Rightarrow> ustring" where
  "shown_result R r =
     (case r of
        Inr resp \<Rightarrow> let rendered = render R resp in if ends_with 10 rendered then rendered else println rendered
      | Inl e \<Rightarrow> println (render_error R e))"

subsection \<open>The interactive loop\<close>

record 'c repl =
  rp_conn :: 'c
  rp_renderer :: renderer
  rp_history :: "ustring list"
  rp_running :: bool
  rp_buffer :: ustring
  rp_continuation :: nat
  rp_printed :: "ustring list"

definition history_limit :: nat where
  "history_limit = 100"

definition repl_new :: "'c \<Rightarrow> renderer \<Rightarrow> 'c repl" where
  "repl_new conn R = \<lparr>rp_conn = conn, rp_renderer = R, rp_history = [], rp_running = True, rp_buffer = [],
     rp_continuation = 0, rp_printed = []\<rparr>"

definition add_history :: "ustring \<Rightarrow> 'c repl \<Rightarrow> 'c repl" where
  "add_history entry s =
     (if entry = [] then s
      else let h = (if history_limit \<le> length (rp_history s) then tl (rp_history s) else rp_history s)
           in s\<lparr>rp_history := h @ [entry]\<rparr>)"

definition say :: "ustring \<Rightarrow> 'c repl \<Rightarrow> 'c repl" where
  "say t s = s\<lparr>rp_printed := rp_printed s @ [t]\<rparr>"

definition execute_sql :: "'c executor \<Rightarrow> ustring \<Rightarrow> 'c repl \<Rightarrow> 'c repl" where
  "execute_sql ex sql s =
     (let (c, r) = ex sql (rp_conn s) in say (shown_result (rp_renderer s) r) (s\<lparr>rp_conn := c\<rparr>))"

text \<open>\<open>replace\<close> of an apostrophe by two.\<close>

definition doubled :: "ustring \<Rightarrow> ustring" where
  "doubled s = concat (map (\<lambda>c. if c = 39 then [39, 39] else [c]) s)"

definition understand_sql :: "ustring \<Rightarrow> ustring" where
  "understand_sql intent = text_of ''UNDERSTAND '' @ [39] @ doubled intent @ [39] @ text_of '' LIMIT 10;''"

definition causal_sql :: "ustring \<Rightarrow> ustring \<Rightarrow> ustring" where
  "causal_sql a b = text_of ''CAUSAL TRACE '' @ [39] @ a @ [39] @ text_of '' TO '' @ [39] @ b @ [39] @ text_of '';''"

definition list_sql :: ustring where
  "list_sql = text_of ''SELECT * FROM memories ORDER BY created_at DESC LIMIT 20;''"

definition recall_sql :: "ustring \<Rightarrow> ustring" where
  "recall_sql query = text_of ''RECALL '' @ [39] @ doubled query @ [39] @ text_of '' FROM memories LIMIT 10;''"

definition forget_sql :: "ustring \<Rightarrow> ustring" where
  "forget_sql i = text_of ''DELETE FROM memories WHERE id = '' @ [39] @ doubled i @ [39] @ text_of '';''"

definition format_label :: "output_format \<Rightarrow> ustring" where
  "format_label f = (case f of TableFormat \<Rightarrow> text_of ''table'' | JsonFormat \<Rightarrow> text_of ''json'' | CsvFormat \<Rightarrow> text_of ''csv'')"

definition help_lines :: "ustring list" where
  "help_lines =
    [text_of ''Meta-commands:'',
     text_of ''  '' @ [92] @ text_of ''q, '' @ [92] @ text_of ''quit                    Exit the REPL'',
     text_of ''  '' @ [92] @ text_of ''?, '' @ [92] @ text_of ''help                    Show this help'',
     text_of ''  '' @ [92] @ text_of ''status                       Show connection information'',
     text_of ''  '' @ [92] @ text_of ''format <table|json|csv>      Switch output format'',
     text_of ''  '' @ [92] @ text_of ''connect <host>[:<port>]      Reconnect to a different server'',
     text_of ''  '' @ [92] @ text_of ''understand <intent>          Run an UNDERSTAND query'',
     text_of ''  '' @ [92] @ text_of ''causal <from_id> <to_id>     Run a CAUSAL TRACE query'',
     text_of ''  '' @ [92] @ text_of ''memory list                  List recent memories'',
     text_of ''  '' @ [92] @ text_of ''memory recall <query>        Recall memories matching a query'',
     text_of ''  '' @ [92] @ text_of ''memory forget <id>           Forget a memory by ID'',
     [],
     text_of ''SQL:'',
     text_of ''  End a statement with ; to execute it.'',
     text_of ''  Use '' @ [92] @ text_of '' at the end of a line to continue on the next line.'',
     [],
     text_of ''Keyboard shortcuts:'',
     text_of ''  Ctrl-D                        Exit (EOF)'']"

definition help_text :: ustring where
  "help_text = concat (map println help_lines)"

record endpoint =
  ep_host :: ustring
  ep_port :: ustring
  ep_database :: ustring
  ep_user :: ustring

definition server_addr :: "endpoint \<Rightarrow> ustring" where
  "server_addr ep = ep_host ep @ text_of '':'' @ ep_port ep"

fun handle_meta :: "'c executor \<Rightarrow> endpoint \<Rightarrow> meta_command \<Rightarrow> 'c repl \<Rightarrow> 'c repl" where
  "handle_meta ex ep Quit s = say (println (text_of ''Bye!'')) s\<lparr>rp_running := False\<rparr>"
| "handle_meta ex ep Help s = say (println help_text) s"
| "handle_meta ex ep Status s =
     say (println (text_of ''User:         '' @ ep_user ep))
       (say (println (text_of ''Database:     '' @ ep_database ep))
         (say (println (text_of ''Connected to: '' @ server_addr ep)) s))"
| "handle_meta ex ep (Format f) s =
     (let s' = s\<lparr>rp_renderer := (rp_renderer s)\<lparr>format := f\<rparr>\<rparr>
      in say (println (render_ok (rp_renderer s') (text_of ''Output format: '' @ format_label f))) s')"
| "handle_meta ex ep (MetaUnderstand intent) s =
     execute_sql ex (understand_sql intent)
       (say (println (render_notice (rp_renderer s) (text_of ''Executing: '' @ understand_sql intent))) s)"
| "handle_meta ex ep (Causal a b) s =
     execute_sql ex (causal_sql a b)
       (say (println (render_notice (rp_renderer s) (text_of ''Executing: '' @ causal_sql a b))) s)"
| "handle_meta ex ep (Memory MemList) s = execute_sql ex list_sql s"
| "handle_meta ex ep (Memory (MemRecall q)) s = execute_sql ex (recall_sql q) s"
| "handle_meta ex ep (Memory (MemForget i)) s = execute_sql ex (forget_sql i) s"
| "handle_meta ex ep (Connect h p) s =
     say (println (render_notice (rp_renderer s)
       (text_of ''Reconnect not yet supported in this session. Start a new session with: fundb --host '' @ h @
        text_of '' --port '' @ text_of (dec_digits (nat p))))) s"
| "handle_meta ex ep (UnknownMeta msg) s = say (println (render_error (rp_renderer s) msg)) s"

definition trim_start :: "ustring \<Rightarrow> ustring" where
  "trim_start s = dropWhile is_white s"

definition clear_buffer :: "'c repl \<Rightarrow> 'c repl" where
  "clear_buffer s = s\<lparr>rp_buffer := [], rp_continuation := 0\<rparr>"

text \<open>One line of input.\<close>

definition repl_line :: "casing \<Rightarrow> 'c executor \<Rightarrow> endpoint \<Rightarrow> ustring \<Rightarrow> 'c repl \<Rightarrow> 'c repl" where
  "repl_line T ex ep line s =
     (let trimmed = trim_end_char 13 (trim_end_char 10 line)
      in if trim trimmed = [] then s
         else if starts_with [92] (trim_start trimmed) then
           (let s1 = (if rp_buffer s \<noteq> []
                      then clear_buffer (say (println (render_notice (rp_renderer s) (text_of ''Discarding pending SQL buffer.''))) s)
                      else s)
            in handle_meta ex ep (meta_parse T (trim_start trimmed)) s1)
         else if ends_with 92 trimmed then
           s\<lparr>rp_buffer := rp_buffer s @ butlast trimmed @ [32], rp_continuation := rp_continuation s + 1\<rparr>
         else
           (let s1 = s\<lparr>rp_buffer := rp_buffer s @ trimmed\<rparr>; sql = trim (rp_buffer s1)
            in if ends_with 59 sql
               then clear_buffer (execute_sql ex sql (add_history (trim (trim_end_char 59 sql)) s1))
               else s1\<lparr>rp_buffer := rp_buffer s1 @ [10], rp_continuation := rp_continuation s1 + 1\<rparr>))"

definition prompt :: "nat \<Rightarrow> ustring" where
  "prompt n = (if n = 0 then text_of ''fundb> '' else text_of (''fundb('' @ dec_digits n @ '')> ''))"

fun repl_loop :: "casing \<Rightarrow> 'c executor \<Rightarrow> endpoint \<Rightarrow> ustring list \<Rightarrow> 'c repl \<Rightarrow> 'c repl" where
  "repl_loop T ex ep [] s =
     (if rp_running s then say ([10] @ println (text_of ''Bye!'')) (say (prompt (rp_continuation s)) s) else s)"
| "repl_loop T ex ep (l # ls) s =
     (if rp_running s then repl_loop T ex ep ls (repl_line T ex ep l (say (prompt (rp_continuation s)) s)) else s)"

definition banner :: ustring where
  "banner = text_of ''FunDB v0.1.0 '' @ [0x2014] @ text_of '' Type '' @ [92] @ text_of ''? for help, '' @ [92] @ text_of ''q to quit''"

definition repl_run :: "casing \<Rightarrow> 'c executor \<Rightarrow> endpoint \<Rightarrow> ustring list \<Rightarrow> 'c repl \<Rightarrow> 'c repl" where
  "repl_run T ex ep ls s =
     repl_loop T ex ep ls
       (say [10] (say (println (text_of ''Connected to '' @ ep_user ep @ text_of ''@'' @ server_addr ep @ text_of ''/'' @ ep_database ep))
         (say (println banner) s)))"

subsection \<open>A command, a file\<close>

text \<open>The connection's state, what is printed, and the exit code.\<close>

definition run_command :: "'c executor \<Rightarrow> renderer \<Rightarrow> ustring \<Rightarrow> 'c \<Rightarrow> 'c \<times> ustring \<times> nat" where
  "run_command ex R command c =
     (let sql = (if ends_with 59 (trim command) then command else command @ text_of '';'');
          (c', r) = ex sql c
      in case r of
           Inr resp \<Rightarrow> (c', shown_result R r, 0)
         | Inl e \<Rightarrow> (c', println (render_error R e), 1))"

definition file_statements :: "ustring \<Rightarrow> ustring list" where
  "file_statements content = filter (\<lambda>s. s \<noteq> []) (map trim (split_on (\<lambda>c. c = 59) content))"

text \<open>\<open>str::lines\<close>.\<close>

definition text_lines :: "ustring \<Rightarrow> ustring list" where
  "text_lines s =
     (let ls = split_on (\<lambda>c. c = 10) s
      in map (\<lambda>l. if ends_with 13 l then butlast l else l) (butlast ls) @ (if last ls = [] then [] else [last ls]))"

definition clean_statement :: "ustring \<Rightarrow> ustring" where
  "clean_statement stmt =
     trim (join_with [10] (filter (\<lambda>l. \<not> starts_with (text_of ''--'') (trim_start l)) (text_lines stmt)))"

record 'c file_run =
  fr_conn :: 'c
  fr_ok :: nat
  fr_err :: nat
  fr_printed :: "ustring list"

definition progress :: "nat \<Rightarrow> nat \<Rightarrow> ustring" where
  "progress i n = text_of (''  ['' @ dec_digits (i + 1) @ ''/'' @ dec_digits n @ '']'')"

definition run_file_statement ::
  "'c executor \<Rightarrow> renderer \<Rightarrow> nat \<Rightarrow> nat \<times> ustring \<Rightarrow> 'c file_run \<Rightarrow> 'c file_run" where
  "run_file_statement ex R n p fr =
     (let clean = clean_statement (snd p)
      in if clean = [] then fr
         else
           let (c, r) = ex (clean @ text_of '';'') (fr_conn fr); fr1 = fr\<lparr>fr_conn := c\<rparr>
           in case r of
                Inr resp \<Rightarrow>
                  let tag = trim (render R resp);
                      line = (if tag \<noteq> [] then progress (fst p) n @ text_of '' OK: '' @ (case text_lines tag of [] \<Rightarrow> [] | l # _ \<Rightarrow> l)
                              else progress (fst p) n @ text_of '' OK'')
                  in fr1\<lparr>fr_ok := fr_ok fr + 1, fr_printed := fr_printed fr @ [println line]\<rparr>
              | Inl e \<Rightarrow>
                  fr1\<lparr>fr_err := fr_err fr + 1,
                      fr_printed := fr_printed fr @ [println (progress (fst p) n @ text_of '' ERROR: '' @ e)]\<rparr>)"

definition run_file :: "'c executor \<Rightarrow> renderer \<Rightarrow> ustring \<Rightarrow> ustring \<Rightarrow> 'c \<Rightarrow> 'c file_run \<times> nat" where
  "run_file ex R path content c =
     (let stmts = file_statements content; n = length stmts;
          start = \<lparr>fr_conn = c, fr_ok = 0, fr_err = 0,
            fr_printed = [println (text_of (''Executing '' @ dec_digits n @ '' statements from '') @ path)]\<rparr>;
          fr = fold (run_file_statement ex R n) (zip [0..<n] stmts) start;
          done' = [10] @ println (text_of (''Done: '' @ dec_digits (fr_ok fr) @ '' succeeded, '' @ dec_digits (fr_err fr) @ '' failed''))
      in (fr\<lparr>fr_printed := fr_printed fr @ [done']\<rparr>, if 0 < fr_err fr then 1 else 0))"

end
