(* ===== verification/Cli_Properties.thy ===== *)
theory Cli_Properties
  imports Cli_Session Lexer_Facts
begin

text \<open>
  The properties of the command line client: CSV and JSON output read back, tables are aligned, the
  history is bounded, statements are assembled from lines, and what the exit code and the cutting of a file
  into statements do.
\<close>

subsection \<open>CSV\<close>

text \<open>
  The reference: a reader of RFC 4180. A field in quotes ends at the first quote that is not doubled, any
  other field at a comma or at the end of the line. The result is the fields of a line and the rest.
\<close>

fun read_quoted :: "ustring \<Rightarrow> (ustring \<times> ustring) option" where
  "read_quoted [] = None"
| "read_quoted [c] = (if c = 34 then Some ([], []) else None)"
| "read_quoted (c # d # cs) =
     (if c = 34 then (if d = 34 then map_option (\<lambda>(f, r). (34 # f, r)) (read_quoted cs) else Some ([], d # cs))
      else map_option (\<lambda>(f, r). (c # f, r)) (read_quoted (d # cs)))"

definition read_field :: "ustring \<Rightarrow> (ustring \<times> ustring) option" where
  "read_field s =
     (case s of
        c # cs \<Rightarrow>
          if c = 34 then read_quoted cs
          else Some (takeWhile (\<lambda>c. c \<noteq> 44 \<and> c \<noteq> 10) s, dropWhile (\<lambda>c. c \<noteq> 44 \<and> c \<noteq> 10) s)
      | [] \<Rightarrow> Some ([], []))"

fun read_csv_line :: "nat \<Rightarrow> ustring \<Rightarrow> (ustring list \<times> ustring) option" where
  "read_csv_line 0 s = None"
| "read_csv_line (Suc n) s =
     (case read_field s of
        None \<Rightarrow> None
      | Some (f, rest) \<Rightarrow>
          (case rest of
             c # cs \<Rightarrow>
               if c = 44 then map_option (\<lambda>(fs, r). (f # fs, r)) (read_csv_line n cs)
               else if c = 10 then Some ([f], cs) else None
           | [] \<Rightarrow> None))"

fun read_csv :: "nat \<Rightarrow> ustring \<Rightarrow> ustring list list option" where
  "read_csv 0 s = (if s = [] then Some [] else None)"
| "read_csv (Suc n) s =
     (case read_csv_line (length s) s of
        None \<Rightarrow> None
      | Some (fs, rest) \<Rightarrow> map_option ((#) fs) (read_csv n rest))"

lemma read_quoted_cons: "c \<noteq> 34 \<Longrightarrow> read_quoted (c # cs) = map_option (\<lambda>(f, r). (c # f, r)) (read_quoted cs)"
  by (cases cs) auto

lemma read_quoted_escape:
  "read_quoted (concat (map (\<lambda>c. if c = 34 then [34, 34] else [c]) s) @ 34 # d # rest) =
     (if d = 34 then map_option (\<lambda>(f, r). (s @ 34 # f, r)) (read_quoted rest) else Some (s, d # rest))"
proof (induction s)
  case (Cons c s)
  show ?case
  proof (cases "c = 34")
    case True
    with Cons show ?thesis by (auto simp: option.map_comp comp_def split_def)
  next
    case False
    with Cons show ?thesis by (auto simp: read_quoted_cons option.map_comp comp_def split_def)
  qed
qed simp

lemma read_field_escape:
  assumes "d = 44 \<or> d = 10"
  shows "read_field (csv_escape s @ d # rest) = Some (s, d # rest)"
proof (cases "44 \<in> set s \<or> 34 \<in> set s \<or> 10 \<in> set s \<or> 13 \<in> set s")
  case True
  with assms show ?thesis by (auto simp: csv_escape_def read_field_def read_quoted_escape)
next
  case False
  then have "takeWhile (\<lambda>c. c \<noteq> 44 \<and> c \<noteq> 10) (s @ d # rest) = s" "dropWhile (\<lambda>c. c \<noteq> 44 \<and> c \<noteq> 10) (s @ d # rest) = d # rest"
    using assms by (induction s) auto
  with False assms show ?thesis by (cases s) (auto simp: csv_escape_def read_field_def)
qed

lemma csv_line_Cons: "fs \<noteq> [] \<Longrightarrow> csv_line (f # fs) = csv_escape f @ 44 # csv_line fs"
  by (cases fs) (simp_all add: csv_line_def)

lemma read_csv_line_back:
  "fs \<noteq> [] \<Longrightarrow> length fs \<le> n \<Longrightarrow> read_csv_line n (csv_line fs @ rest) = Some (fs, rest)"
proof (induction fs arbitrary: n)
  case (Cons f fs)
  then obtain m where n: "n = Suc m" "length fs \<le> m" by (cases n) auto
  show ?case
  proof (cases fs)
    case Nil
    then show ?thesis by (simp add: n csv_line_def read_field_escape)
  next
    case (Cons g gs)
    with Cons.IH n have "read_csv_line m (csv_line fs @ rest) = Some (fs, rest)" by simp
    with Cons show ?thesis by (simp add: n csv_line_Cons read_field_escape)
  qed
qed simp

lemma length_csv_line: "fs \<noteq> [] \<Longrightarrow> length fs \<le> length (csv_line fs)"
proof (induction fs)
  case (Cons f fs)
  then show ?case by (cases "fs = []") (simp_all add: csv_line_Cons, simp add: csv_line_def)
qed simp

lemma read_csv_lines: "list_all (\<lambda>fs. fs \<noteq> []) rows \<Longrightarrow> read_csv (length rows) (concat (map csv_line rows)) = Some rows"
proof (induction rows)
  case (Cons fs rows)
  then have "read_csv_line (length (csv_line fs @ concat (map csv_line rows))) (csv_line fs @ concat (map csv_line rows)) =
      Some (fs, concat (map csv_line rows))"
    by (intro read_csv_line_back) (auto intro: le_trans [OF length_csv_line])
  with Cons show ?case by simp
qed simp

text \<open>
  C37: The CSV output of a result with columns reads back as the names of the columns and the rows, each row
  with one field for each column: fields with commas, quotes and line ends survive.
\<close>

theorem csv_roundtrip:
  "qs_columns resp = [] \<or>
   read_csv (Suc (length (qs_rows resp))) (render_csv resp) =
     Some (map str_text (qs_columns resp) #
       map (\<lambda>row. map (\<lambda>i. str_text (cell_at [] row i)) [0..<length (qs_columns resp)]) (qs_rows resp))"
proof (cases "qs_columns resp = []")
  case False
  let ?rows = "map (\<lambda>row. map (\<lambda>i. str_text (cell_at [] row i)) [0..<length (qs_columns resp)]) (qs_rows resp)"
  let ?all = "map str_text (qs_columns resp) # ?rows"
  have "render_csv resp = concat (map csv_line ?all)" by (simp add: render_csv_def comp_def Let_def)
  moreover have "read_csv (length ?all) (concat (map csv_line ?all)) = Some ?all"
    by (rule read_csv_lines) (use False in \<open>auto simp: list_all_iff\<close>)
  ultimately show ?thesis by simp
qed simp

subsection \<open>JSON\<close>

text \<open>The reference: the characters of a JSON string up to its closing quote.\<close>

definition hex_value :: "nat \<Rightarrow> nat" where
  "hex_value d = (if d < 58 then d - 48 else d - 87)"

definition json_escape :: "ustring \<Rightarrow> (nat \<times> ustring) option" where
  "json_escape cs =
     (case cs of
        [] \<Rightarrow> None
      | d # ds \<Rightarrow>
          if d = 117 then
            (if length ds < 4 then None
             else Some (hex_value (ds ! 0) * 4096 + hex_value (ds ! 1) * 256 + hex_value (ds ! 2) * 16 + hex_value (ds ! 3), drop 4 ds))
          else Some (if d = 110 then 10 else if d = 114 then 13 else if d = 116 then 9 else d, ds))"

definition json_char :: "ustring \<Rightarrow> (nat \<times> ustring) option" where
  "json_char s =
     (case s of [] \<Rightarrow> None | c # cs \<Rightarrow> if c < 32 then None else if c = 92 then json_escape cs else Some (c, cs))"

fun read_json :: "nat \<Rightarrow> ustring \<Rightarrow> (ustring \<times> ustring) option" where
  "read_json 0 s = None"
| "read_json (Suc n) s =
     (if s \<noteq> [] \<and> hd s = 34 then Some ([], tl s)
      else (case json_char s of
              None \<Rightarrow> None
            | Some (c, rest) \<Rightarrow> map_option (\<lambda>(t, r). (c # t, r)) (read_json n rest)))"

lemma hex4_small:
  assumes "c < 32"
  shows "map hex_value (hex4 c) = [0, 0, c div 16, c mod 16]"
proof -
  have "c div 16 < 16" "c div 256 = 0" "c div 4096 = 0" using assms by auto
  then show ?thesis by (auto simp: hex4_def Let_def hex_value_def)
qed

lemma length_hex4 [simp]: "length (hex4 c) = 4"
  by (simp add: hex4_def)

lemma hex4_nth: "c < 32 \<Longrightarrow> i < 4 \<Longrightarrow> hex_value ((hex4 c @ cs) ! i) = [0, 0, c div 16, c mod 16] ! i"
  using hex4_small [of c] nth_map [of i "hex4 c" hex_value] by (simp add: nth_append)

lemma json_char_escape: "hd (escape_json_char c) \<noteq> 34 \<and> json_char (escape_json_char c @ cs) = Some (c, cs)"
proof (cases "c < 32 \<and> c \<noteq> 10 \<and> c \<noteq> 13 \<and> c \<noteq> 9")
  case True
  then show ?thesis
    by (simp add: escape_json_char_def json_char_def json_escape_def hex4_nth)
next
  case False
  then show ?thesis by (auto simp: escape_json_char_def json_char_def json_escape_def)
qed

lemma escape_json_char_Nil: "escape_json_char c \<noteq> []"
  by (simp add: escape_json_char_def)

lemma read_json_char:
  "read_json (Suc n) (escape_json_char c @ cs) = map_option (\<lambda>(t, r). (c # t, r)) (read_json n cs)"
  using json_char_escape [of c cs] escape_json_char_Nil [of c] by simp

text \<open>
  A JSON string of the output reads back as its text, control characters included; the text \<open>NULL\<close>, like a
  null, is printed as \<open>null\<close>.
\<close>

theorem json_string_roundtrip:
  "read_json (Suc (length s)) (tl (json_string s) @ rest) = Some (s, rest) \<and> hd (json_string s) = 34 \<and>
   json_cell ''NULL'' = text_of ''null''"
proof -
  have "read_json (Suc (length s)) (escape_json s @ 34 # rest) = Some (s, rest)"
  proof (induction s)
    case (Cons c s)
    then show ?case
      using read_json_char [of "Suc (length s)" c "escape_json s @ 34 # rest"] by (simp add: escape_json_def)
  qed (simp add: escape_json_def)
  then show ?thesis by (simp add: json_string_def json_cell_def)
qed

subsection \<open>Tables\<close>

lemma decode_utf8_Cons:
  "decode_utf8 (a # bs) = Some t \<Longrightarrow> \<exists>c cs t'. t = c # t' \<and> decode_utf8 cs = Some t' \<and> length cs \<le> length bs"
  unfolding decode_utf8.simps(2) by (auto simp: Let_def split: if_splits list.splits) (metis le_SucI le_refl)+

lemma length_decode_utf8: "decode_utf8 bs = Some t \<Longrightarrow> length t \<le> length bs"
proof (induction "length bs" arbitrary: bs t rule: less_induct)
  case less
  show ?case
  proof (cases bs)
    case (Cons a as)
    with less.prems decode_utf8_Cons obtain c cs t' where
      "t = c # t'" "decode_utf8 cs = Some t'" "length cs \<le> length as" by blast
    with less.hyps [of cs t'] Cons show ?thesis by simp
  qed (use less.prems in \<open>simp add: decode_utf8.simps\<close>)
qed

lemma length_str_text: "length (str_text s) \<le> length s"
  using length_decode_utf8 [of "map of_char s"] by (auto simp: str_text_def split: option.splits)

lemma length_join_with:
  "xs \<noteq> [] \<Longrightarrow> length (join_with sep xs) = sum_list (map length xs) + (length xs - 1) * length sep"
proof (induction xs)
  case (Cons x xs)
  then show ?case by (cases xs) simp_all
qed simp

lemma length_table_line:
  assumes "length cells = length widths" and "widths \<noteq> []" and "\<And>i. i < length widths \<Longrightarrow> length (cells ! i) \<le> widths ! i"
  shows "length (table_line widths cells) = sum_list (map (\<lambda>w. w + 2) widths) + (length widths - 1)"
proof -
  have "map length (map2 padded_cell widths cells) = map (\<lambda>w. w + 2) widths"
    using assms by (intro nth_equalityI) (auto simp: padded_cell_def)
  moreover have "map2 padded_cell widths cells \<noteq> []" using assms(1,2) by (cases widths; cases cells) auto
  ultimately show ?thesis using assms(1)
    by (simp add: table_line_def length_join_with text_of_def)
qed

lemma foldl_max: "(m :: nat) \<le> foldl max m ms \<and> (\<forall>x\<in>set ms. x \<le> foldl max m ms)"
proof (induction ms arbitrary: m)
  case (Cons x ms)
  from Cons [of "max m x"] show ?case by auto
qed simp

lemma column_widths_enough:
  assumes "i < length columns"
  shows "length (columns ! i) \<le> column_widths columns rows ! i" and
    "row \<in> set rows \<Longrightarrow> length (cell_at [] row i) \<le> column_widths columns rows ! i"
  using assms foldl_max [of "length (columns ! i)" "map length (map (\<lambda>row. cell_at [] row i) rows)"]
  by (auto simp: column_widths_def)

text \<open>
  The lines of a table, header and rows, all have the length of the line between them, whatever
  characters the cells have: although widths are counted in bytes and cells padded by characters, no cell
  is longer than its column.
\<close>

theorem table_aligned:
  "columns = [] \<or>
   length (table_line (column_widths columns rows) (map str_text columns)) =
     length (join_with (text_of ''+'') (map (\<lambda>w. replicate (w + 2) 45) (column_widths columns rows))) \<and>
   list_all (\<lambda>row. length (table_line (column_widths columns rows) (map (\<lambda>i. str_text (cell_at [] row i)) [0..<length columns])) =
     length (join_with (text_of ''+'') (map (\<lambda>w. replicate (w + 2) 45) (column_widths columns rows)))) rows"
proof (cases "columns = []")
  case False
  let ?w = "column_widths columns rows"
  have n: "length ?w = length columns" by (simp add: column_widths_def)
  with False have ne: "?w \<noteq> []" by (metis length_0_conv)
  have "map length (map (\<lambda>w. replicate (w + 2) 45) ?w) = map (\<lambda>w. w + 2) ?w" by simp
  with ne have sep: "length (join_with (text_of ''+'') (map (\<lambda>w. replicate (w + 2) 45) ?w)) =
      sum_list (map (\<lambda>w. w + 2) ?w) + (length ?w - 1)"
    by (simp add: length_join_with text_of_def comp_def)
  have "length (table_line ?w (map str_text columns)) = sum_list (map (\<lambda>w. w + 2) ?w) + (length ?w - 1)"
    by (rule length_table_line)
      (auto simp: n ne intro!: le_trans [OF length_str_text column_widths_enough(1)])
  moreover have "length (table_line ?w (map (\<lambda>i. str_text (cell_at [] row i)) [0..<length columns])) =
      sum_list (map (\<lambda>w. w + 2) ?w) + (length ?w - 1)" if "row \<in> set rows" for row
    by (rule length_table_line)
      (use that in \<open>auto simp: n ne intro!: le_trans [OF length_str_text column_widths_enough(2)]\<close>)
  ultimately show ?thesis using sep by (simp add: list_all_iff)
qed simp

subsection \<open>The interactive loop\<close>

definition history_ok :: "'c repl \<Rightarrow> bool" where
  "history_ok s \<longleftrightarrow> length (rp_history s) \<le> history_limit \<and> [] \<notin> set (rp_history s)"

lemma history_say [simp]: "rp_history (say t s) = rp_history s"
  by (simp add: say_def)

lemma history_execute [simp]: "rp_history (execute_sql ex sql s) = rp_history s"
  by (simp add: execute_sql_def split: prod.splits)

lemma history_meta [simp]: "rp_history (handle_meta ex ep m s) = rp_history s"
  by (cases "(ex, ep, m, s)" rule: handle_meta.cases) (simp_all add: Let_def)

lemma history_clear [simp]: "rp_history (clear_buffer s) = rp_history s"
  by (simp add: clear_buffer_def)

lemma history_add: "history_ok s \<Longrightarrow> history_ok (add_history e s)"
  by (cases "rp_history s") (auto simp: history_ok_def add_history_def history_limit_def Let_def)

lemma history_ok_cong: "rp_history s = rp_history s' \<Longrightarrow> history_ok s = history_ok s'"
  by (simp add: history_ok_def)

lemma history_line:
  assumes "history_ok s"
  shows "history_ok (repl_line T ex ep line s)"
proof -
  have "history_ok (add_history e (s\<lparr>rp_buffer := b\<rparr>))" for e b
    using assms by (intro history_add) (simp add: history_ok_def)
  with assms show ?thesis by (simp add: repl_line_def history_ok_def Let_def)
qed

lemma history_loop: "history_ok s \<Longrightarrow> history_ok (repl_loop T ex ep ls s)"
proof (induction ls arbitrary: s)
  case (Cons l ls)
  have "history_ok (repl_line T ex ep l (say (prompt (rp_continuation s)) s))"
    using Cons.prems by (intro history_line) (simp add: history_ok_def)
  with Cons show ?case by simp
qed (simp add: history_ok_def)

text \<open>Whatever is typed, the history keeps at most a hundred statements, none of them blank.\<close>

theorem history_bounded:
  "length (rp_history (repl_run T ex ep ls (repl_new c R))) \<le> 100 \<and>
   [] \<notin> set (rp_history (repl_run T ex ep ls (repl_new c R)))"
proof -
  have "history_ok (repl_run T ex ep ls (repl_new c R))"
    unfolding repl_run_def by (rule history_loop) (simp add: history_ok_def repl_new_def)
  then show ?thesis by (simp add: history_ok_def history_limit_def)
qed

subsection \<open>Statements over several lines\<close>

text \<open>A line of a statement: not blank, no meta-command, no continuation mark at its end.\<close>

definition plain_line :: "ustring \<Rightarrow> bool" where
  "plain_line l \<longleftrightarrow> trim l \<noteq> [] \<and> \<not> starts_with [92] (trim_start l) \<and> \<not> ends_with 92 l \<and>
     \<not> ends_with 10 l \<and> \<not> ends_with 13 l"

lemma trim_end_char_other: "\<not> ends_with c l \<Longrightarrow> trim_end_char c l = l"
  by (cases l rule: rev_cases) (simp_all add: trim_end_char_def ends_with_def)

lemma trim_line_end: "plain_line l \<Longrightarrow> trim_end_char 13 (trim_end_char 10 (l @ [10])) = l"
proof -
  assume l: "plain_line l"
  then have "trim_end_char 10 (l @ [10]) = trim_end_char 10 l" by (simp add: trim_end_char_def)
  with l show ?thesis by (simp add: plain_line_def trim_end_char_other)
qed

lemma dropWhile_append_keep: "dropWhile P xs \<noteq> [] \<Longrightarrow> dropWhile P (xs @ ys) = dropWhile P xs @ ys"
  by (induction xs) auto

text \<open>The last character of a trimmed text is that of its last line that is not blank.\<close>

lemma trim_nonblank: "trim l \<noteq> [] \<longleftrightarrow> \<not> list_all is_white l"
proof
  assume "trim l \<noteq> []"
  then show "\<not> list_all is_white l" by (auto simp: trim_def list_all_iff dest: set_dropWhileD)
next
  assume n: "\<not> list_all is_white l"
  then have "dropWhile is_white l \<noteq> []" by (auto simp: list_all_iff dropWhile_eq_Nil_conv)
  then have "\<not> is_white (hd (dropWhile is_white l))" by (rule hd_dropWhile)
  moreover have "hd (dropWhile is_white l) \<in> set (dropWhile is_white l)" by (rule hd_in_set) fact
  ultimately have "dropWhile is_white (rev (dropWhile is_white l)) \<noteq> []"
    unfolding dropWhile_eq_Nil_conv set_rev by blast
  then show "trim l \<noteq> []" by (simp add: trim_def)
qed

lemma ends_with_trim: "trim l \<noteq> [] \<Longrightarrow> ends_with c (trim l) \<longleftrightarrow> ends_with c (rev (dropWhile is_white (rev l)))"
proof -
  assume l: "trim l \<noteq> []"
  have "last (trim l) = hd (dropWhile is_white (rev (dropWhile is_white l)))"
    using l by (simp add: trim_def last_rev)
  moreover have "hd (dropWhile is_white (rev (dropWhile is_white l))) = hd (dropWhile is_white (rev l))"
  proof -
    have "rev l = rev (dropWhile is_white l) @ rev (takeWhile is_white l)"
      by (metis rev_append takeWhile_dropWhile_id)
    moreover have "dropWhile is_white (rev (dropWhile is_white l)) \<noteq> []" using l by (simp add: trim_def)
    ultimately show ?thesis by (simp add: dropWhile_append_keep)
  qed
  moreover have "dropWhile is_white (rev l) \<noteq> []"
    using l trim_nonblank [of l] by (auto simp: list_all_iff dropWhile_eq_Nil_conv)
  ultimately show ?thesis using l by (simp add: ends_with_def last_rev)
qed

lemma ends_with_append:
  assumes "trim l \<noteq> []"
  shows "ends_with c (trim (b @ l)) \<longleftrightarrow> ends_with c (trim l)"
proof -
  have "trim (b @ l) \<noteq> []" using assms by (auto simp: trim_nonblank)
  moreover have "dropWhile is_white (rev l) \<noteq> []"
    using assms trim_nonblank [of l] by (auto simp: list_all_iff dropWhile_eq_Nil_conv)
  ultimately show ?thesis using assms
    by (simp add: ends_with_trim dropWhile_append_keep) (auto simp: ends_with_def last_rev)
qed

lemma line_kept:
  assumes "plain_line l" and "\<not> ends_with 59 (trim l)"
  shows "repl_line T ex ep (l @ [10]) s =
    s\<lparr>rp_buffer := rp_buffer s @ l @ [10], rp_continuation := rp_continuation s + 1\<rparr>"
  using assms ends_with_append [of l 59 "rp_buffer s"]
  by (simp add: repl_line_def trim_line_end plain_line_def Let_def)

lemma line_executed:
  assumes "plain_line l" and "ends_with 59 (trim l)"
  shows "rp_conn (repl_line T ex ep (l @ [10]) s) = fst (ex (trim (rp_buffer s @ l)) (rp_conn s)) \<and>
    rp_buffer (repl_line T ex ep (l @ [10]) s) = []"
  using assms ends_with_append [of l 59 "rp_buffer s"]
  by (simp add: repl_line_def trim_line_end plain_line_def Let_def clear_buffer_def execute_sql_def say_def add_history_def
      split: prod.splits)

lemma lines_kept:
  "list_all (\<lambda>l. plain_line l \<and> \<not> ends_with 59 (trim l)) ls \<Longrightarrow>
   rp_buffer (fold (\<lambda>l. repl_line T ex ep (l @ [10])) ls s) = rp_buffer s @ concat (map (\<lambda>l. l @ [10]) ls) \<and>
   rp_conn (fold (\<lambda>l. repl_line T ex ep (l @ [10])) ls s) = rp_conn s"
  by (induction ls arbitrary: s) (simp_all add: line_kept)

text \<open>
  C38: A statement typed on several lines is executed once, when a line ends in a semicolon: what is sent is the
  lines with their line ends between them, without blanks around; then the buffer is empty again.
\<close>

theorem statement_spans_lines:
  assumes "list_all (\<lambda>l. plain_line l \<and> \<not> ends_with 59 (trim l)) ls" and "plain_line l" and "ends_with 59 (trim l)"
  shows "rp_conn (fold (\<lambda>l. repl_line T ex ep (l @ [10])) (ls @ [l]) (repl_new c R)) =
      fst (ex (trim (concat (map (\<lambda>l. l @ [10]) ls) @ l)) c) \<and>
    rp_buffer (fold (\<lambda>l. repl_line T ex ep (l @ [10])) (ls @ [l]) (repl_new c R)) = []"
proof -
  let ?s = "fold (\<lambda>l. repl_line T ex ep (l @ [10])) ls (repl_new c R)"
  have "rp_buffer ?s = concat (map (\<lambda>l. l @ [10]) ls) \<and> rp_conn ?s = c"
    using lines_kept [OF assms(1), of T ex ep "repl_new c R"] by (simp add: repl_new_def)
  with line_executed [OF assms(2,3), of T ex ep ?s] show ?thesis by simp
qed

definition recording :: "ustring list executor" where
  "recording sql seen = (seen @ [sql], Inr response_default)"

definition demo_casing :: casing where
  "demo_casing = \<lparr>lower_table = id, upper_table = id\<rparr>"

definition demo_endpoint :: endpoint where
  "demo_endpoint = \<lparr>ep_host = [], ep_port = [], ep_database = [], ep_user = []\<rparr>"

definition demo_renderer :: renderer where
  "demo_renderer = \<lparr>no_color = True, format = TableFormat\<rparr>"

theorem statement_spans_lines_witness:
  "rp_conn (fold (\<lambda>l. repl_line demo_casing recording demo_endpoint (l @ [10])) ([text_of ''SELECT 1''] @ [text_of '' ;''])
       (repl_new [] demo_renderer)) = [text_of ''SELECT 1'' @ [10] @ text_of '' ;''] \<and>
   rp_buffer (fold (\<lambda>l. repl_line demo_casing recording demo_endpoint (l @ [10])) ([text_of ''SELECT 1''] @ [text_of '' ;''])
       (repl_new [] demo_renderer)) = []"
  using statement_spans_lines [of "[text_of ''SELECT 1'']" "text_of '' ;''" demo_casing recording demo_endpoint "[]" demo_renderer]
  by (simp add: recording_def plain_line_def ends_with_def starts_with_def trim_start_def trim_def is_white_def text_of_def)

subsection \<open>Files\<close>

lemma file_no_errors:
  assumes "\<And>sql c. \<exists>resp. snd (ex sql c) = Inr resp"
  shows "fr_err (fold (run_file_statement ex R n) ps fr) = fr_err fr"
proof (induction ps arbitrary: fr)
  case (Cons p ps)
  have "fr_err (run_file_statement ex R n p fr) = fr_err fr"
    using assms by (auto simp: run_file_statement_def Let_def split: prod.splits sum.splits) (metis snd_conv sum.distinct(1))
  with Cons show ?case by simp
qed simp

text \<open>
  A statement that the server answers with an error counts as a success: when every query gets an answer,
  the client's exit code is zero, for a file and for a command, even if every answer is an error.
\<close>

theorem server_errors_exit_zero:
  assumes "\<And>sql c. \<exists>resp. snd (ex sql c) = Inr resp"
  shows "snd (run_file ex R path content c) = 0 \<and> fr_err (fst (run_file ex R path content c)) = 0 \<and>
    snd (snd (run_command ex R command c)) = 0"
proof -
  obtain c' resp where "ex (if ends_with 59 (trim command) then command else command @ text_of '';'') c = (c', Inr resp)"
    using assms by (metis prod.collapse)
  then show ?thesis using file_no_errors [OF assms]
    by (simp add: run_file_def run_command_def Let_def)
qed

definition failing :: "nat executor" where
  "failing sql n = (n + 1, Inr (response_default\<lparr>qs_error := Some ''no''\<rparr>))"

theorem server_errors_exit_zero_witness:
  "snd (run_file failing demo_renderer [] (text_of ''BAD; WORSE;'') 0) = 0 \<and>
   fr_err (fst (run_file failing demo_renderer [] (text_of ''BAD; WORSE;'') 0)) = 0 \<and>
   snd (snd (run_command failing demo_renderer (text_of ''BAD'') 0)) = 0"
  by (rule server_errors_exit_zero) (simp add: failing_def)

text \<open>A file is cut at every semicolon, one inside a string literal as well.\<close>

theorem file_cuts_literals:
  "file_statements (text_of ''REMEMBER '' @ [39] @ text_of ''a; b'' @ [39] @ text_of '';'') =
     [text_of ''REMEMBER '' @ [39] @ text_of ''a'', text_of ''b'' @ [39]]"
  by (simp add: file_statements_def text_of_def trim_def is_white_def)

end
