(* ===== verification/Cli_Server.thy ===== *)
theory Cli_Server
  imports Cli_Session Parser_Statements Lexer_Facts
begin

text \<open>
  The queries that the client's meta-commands send, against the server's parser: which of them it reads.
\<close>

subsection \<open>The first tokens of a query\<close>

definition letter :: "nat \<Rightarrow> bool" where
  "letter c \<longleftrightarrow> 65 \<le> c \<and> c \<le> 90 \<or> 97 \<le> c \<and> c \<le> 122"

lemma letter_facts:
  assumes "letter c"
  shows "\<not> whitespace c" "len_utf8 c = 1" "word_char U c" "\<not> ascii_digit c" "is_alphabetic U c" "c \<noteq> 45" "c \<noteq> 47" "c \<noteq> 46"
  using assms by (auto simp: letter_def whitespace_def len_utf8_def word_char_def ascii_digit_def is_alphabetic_def)

definition word_token :: "ustring \<Rightarrow> token" where
  "word_token w = (case keyword (map ascii_lower w) of Some k \<Rightarrow> k | None \<Rightarrow> TkIdent w)"

lemma tokenize_word:
  assumes "lx_rest l = w @ 32 # r" and "list_all letter w" and "2 \<le> length w"
  shows "\<exists>l' sp. lx_rest l' = 32 # r \<and> tokenize U l =
    (case tokenize U l' of Inl e \<Rightarrow> Inl e | Inr (ts, l2) \<Rightarrow> Inr ((word_token w, sp) # ts, l2))"
proof -
  from assms(3) obtain c d ws where w: "w = c # d # ws" by (cases w; cases "tl w") auto
  with assms(2) have cd: "letter c" "letter d" by simp_all
  have stays: "skip_whitespace_and_comments l = Inr l"
    by (rule whitespace_stays [of l c d "ws @ 32 # r"]) (use cd in \<open>simp_all add: assms(1) w letter_facts\<close>)
  let ?l' = "skip_while (word_char U) l"
  have rest: "lx_rest ?l' = 32 # r"
  proof (rule skip_while_all [OF assms(1)])
    show "\<forall>x\<in>set w. word_char U x" using assms(2) by (auto simp: list_all_iff letter_facts(3))
    show "\<not> word_char U 32" by (simp add: word_char_def is_alphabetic_def is_numeric_def ascii_digit_def)
  qed
  have "consumed l ?l' = w" by (simp add: consumed_def rest assms(1))
  then have "lex_word U l = ((word_token w, span_from l ?l'), ?l')"
    by (cases "keyword (map ascii_lower w)") (simp_all add: lex_word_def word_token_def Let_def)
  then have "next_token U l = Inr ((word_token w, span_from l ?l'), ?l')"
    using cd by (simp add: next_token_def current_char_def assms(1) w letter_facts)
  moreover have "word_token w \<noteq> TkNewline"
    using keyword_not_eof by (auto simp: word_token_def split: option.splits)
  ultimately have "tokenize U l =
      (case tokenize U ?l' of Inl e \<Rightarrow> Inl e | Inr (ts, l2) \<Rightarrow> Inr ((word_token w, span_from l ?l') # ts, l2))"
    using stays assms(1) w by (subst tokenize.simps) (simp split: sum.split)
  with rest show ?thesis by blast
qed

text \<open>After a blank, an apostrophe starts a string literal or an error.\<close>

lemma tokenize_literal_next:
  assumes "lx_rest l = 32 # 39 # r" and "tokenize U l = Inr (ts, l2)"
  shows "\<exists>s sp us. ts = (TkStringLiteral s, sp) # us"
proof -
  let ?l1 = "skip_while whitespace l"
  have r1: "lx_rest ?l1 = 39 # r"
    by (rule skip_while_all [of l "[32]" 39 r whitespace]) (simp_all add: assms(1) whitespace_def)
  have "skip_whitespace_and_comments l = Inl LexPanic \<or> skip_whitespace_and_comments l = Inr ?l1"
    by (subst skip_whitespace_and_comments.simps, subst (2) skip_whitespace_and_comments.simps)
      (auto simp: Let_def r1 slice2_def len_utf8_def split: list.splits)
  moreover have "next_token U ?l1 = lex_string ?l1"
    by (simp add: next_token_def current_char_def r1 ascii_digit_def is_alphabetic_def)
  ultimately show ?thesis using assms(2) r1
    by (subst (asm) tokenize.simps) (auto simp: lex_string_def split: option.splits sum.splits prod.splits)
qed

lemma tokenize_blank: "lx_rest l = 32 # r \<Longrightarrow> \<exists>l'. lx_rest l' = r \<and> tokenize U l = tokenize U l'"
proof -
  assume l: "lx_rest l = 32 # r"
  obtain l' where l': "advance l = Some (32, l')" "lx_rest l' = r" using advance_Cons [OF l] by blast
  have "skip_while whitespace l = skip_while whitespace l'"
    using l' by (subst skip_while.simps) (simp add: whitespace_def)
  then have "skip_whitespace_and_comments l = skip_whitespace_and_comments l'"
    by (subst (1 2) skip_whitespace_and_comments.simps) simp
  then have "tokenize U l = tokenize U l'" by (subst (1 2) tokenize.simps) simp
  with l'(2) show ?thesis by blast
qed

subsection \<open>What the parser says\<close>

lemma no_semicolon: "fst t \<noteq> TkSemicolon \<Longrightarrow> skip_semicolons (t # ts) = Parsed () (t # ts)"
  by (cases t) (simp add: skip_semicolons_def loop_def bindp_def took_def branch_def peek_def ret_def)

lemma causal_word: "word_token (text_of ''CAUSAL'') = TkIdent (text_of ''CAUSAL'')"
  by (simp add: word_token_def keyword_def keyword_table_def text_of_def ascii_lower_def)

lemma recall_word: "word_token (text_of ''RECALL'') = TkKeyword ''Recall''"
  by (simp add: word_token_def keyword_def keyword_table_def text_of_def ascii_lower_def)

lemma command_words:
  "list_all letter (text_of ''CAUSAL'')" "2 \<le> length (text_of ''CAUSAL'')"
  "list_all letter (text_of ''RECALL'')" "2 \<le> length (text_of ''RECALL'')"
  by (simp_all add: text_of_def letter_def)

lemma causal_fails: "\<exists>e. parse_statement_at n ((TkIdent (text_of ''CAUSAL''), sp) # ts) = Failed e"
  by (simp add: parse_statement_at_def thenp_def bindp_def no_semicolon peek_def statement_dispatch_def
      ident_is_def eq_ignore_ascii_case_def text_of_def ascii_lower_def fail_def)

lemma recall_fails:
  "\<exists>e. parse_statement_at n ((TkKeyword ''Recall'', sp) # (TkStringLiteral s, sp') # ts) = Failed e"
  by (simp add: parse_statement_at_def thenp_def bindp_def no_semicolon peek_def statement_dispatch_def
      mapp_def parse_recall_by_def expect_def next_tok_def ret_def fail_def)

lemma parse_first_fails:
  assumes "tokenize U (lexer_new q) =
      (case tokenize U l' of Inl e \<Rightarrow> Inl e | Inr (ts, l2) \<Rightarrow> Inr (t # ts, l2))"
    and "\<And>ts l2. tokenize U l' = Inr (ts, l2) \<Longrightarrow> \<exists>e. parse_statement (t # ts) = Failed e"
  shows "parse U q \<noteq> Statement stmt"
proof (cases "tokenize U l'")
  case (Inl e)
  with assms(1) show ?thesis by (cases e) (simp_all add: parse_def)
next
  case (Inr r)
  then obtain ts l2 where r: "tokenize U l' = Inr (ts, l2)" by (cases r) auto
  from assms(2) [OF this] obtain e where "parse_statement (t # ts) = Failed e" by blast
  with assms(1) r show ?thesis by (simp add: parse_def)
qed

text \<open>
  The client's help lists commands that trace causes and recall memories. What they send is never a
  statement of the server's language, whatever their arguments are: the server knows \<open>TRACE CAUSALITY\<close> and
  \<open>RECALL BY\<close>.
\<close>

theorem meta_commands_rejected:
  "parse U (causal_sql a b) \<noteq> Statement stmt \<and> parse U (recall_sql q) \<noteq> Statement stmt"
proof
  let ?l = "lexer_new (causal_sql a b)"
  have "lx_rest ?l = text_of ''CAUSAL'' @ 32 # (text_of ''TRACE '' @ [39] @ a @ [39] @ text_of '' TO '' @ [39] @ b @ [39] @ text_of '';'')"
    by (simp add: lexer_new_def causal_sql_def text_of_def)
  from tokenize_word [OF this command_words(1,2), of U, unfolded causal_word] obtain l' sp where
    "tokenize U ?l = (case tokenize U l' of Inl e \<Rightarrow> Inl e | Inr (ts, l2) \<Rightarrow> Inr ((TkIdent (text_of ''CAUSAL''), sp) # ts, l2))"
    by blast
  then show "parse U (causal_sql a b) \<noteq> Statement stmt"
    by (rule parse_first_fails) (simp add: parse_statement_def causal_fails)
  let ?l = "lexer_new (recall_sql q)"
  have "lx_rest ?l = text_of ''RECALL'' @ 32 # (39 # doubled q @ [39] @ text_of '' FROM memories LIMIT 10;'')"
    by (simp add: lexer_new_def recall_sql_def text_of_def)
  from tokenize_word [OF this command_words(3,4), of U, unfolded recall_word] obtain l' sp where l': "lx_rest l' = 32 # 39 # doubled q @ [39] @ text_of '' FROM memories LIMIT 10;''"
    and t: "tokenize U ?l = (case tokenize U l' of Inl e \<Rightarrow> Inl e | Inr (ts, l2) \<Rightarrow> Inr ((TkKeyword ''Recall'', sp) # ts, l2))"
    by blast
  from t show "parse U (recall_sql q) \<noteq> Statement stmt"
  proof (rule parse_first_fails)
    fix ts l2 assume "tokenize U l' = Inr (ts, l2)"
    from tokenize_literal_next [OF l' this] obtain s sp' us where "ts = (TkStringLiteral s, sp') # us" by blast
    then show "\<exists>e. parse_statement ((TkKeyword ''Recall'', sp) # ts) = Failed e"
      by (simp add: parse_statement_def recall_fails)
  qed
qed

end
