(* ===== verification/Page.thy ===== *)
theory Page
  imports Codec Contradictions
begin

text \<open>
  The column pages of \<open>crates/fundb-core/src/page.rs\<close>: the header with its key range, Bloom filter and
  confidence histogram, the encoder and the decoder. The named MessagePack encoding of a record and the
  reading of one record from a stream of them are \<open>rmp_serde\<close>'s and are arguments, and so is the natural
  logarithm of f64.
\<close>

record page_codec =
  named_enc :: "fun_record \<Rightarrow> bytes option"
  named_read :: "bytes \<Rightarrow> (fun_record \<times> bytes) option"
  page_ln :: "f64 \<Rightarrow> f64"

record page_header =
  min_key :: bytes
  max_key :: bytes
  row_count :: u32
  page_bloom :: bloom_filter
  confidence_histogram :: "u32 list"

text \<open>\<open>PagePanic\<close> is a failed assertion of the Bloom filter, or its remainder by zero bits.\<close>

datatype page_error =
    EmptySlice | RecordEncode | TooShort nat | RowCountMismatch u32 u32 | RecordDecode nat | PagePanic

subsection \<open>The encoder\<close>

record page_state =
  ps_buf :: bytes
  ps_confidences :: "f32 list"
  ps_min :: "bytes option"
  ps_max :: "bytes option"
  ps_bloom :: bloom_filter
  ps_histogram :: "u32 list"

definition smaller_key :: "bytes \<Rightarrow> bytes option \<Rightarrow> bytes option" where
  "smaller_key k m = (case m of None \<Rightarrow> Some k | Some l \<Rightarrow> if k < l then Some k else Some l)"

definition larger_key :: "bytes \<Rightarrow> bytes option \<Rightarrow> bytes option" where
  "larger_key k m = (case m of None \<Rightarrow> Some k | Some l \<Rightarrow> if l < k then Some k else Some l)"

definition encode_record :: "hashes \<Rightarrow> page_codec \<Rightarrow> fun_record \<Rightarrow> page_state \<Rightarrow> page_error + page_state" where
  "encode_record H P r s =
     (case named_enc P r of
        None \<Rightarrow> Inl RecordEncode
      | Some encoded \<Rightarrow>
          (case bloom_insert H (rec_id r) (ps_bloom s) of
             None \<Rightarrow> Inl PagePanic
           | Some bloom \<Rightarrow>
               let bucket = bucket_of (rec_confidence r)
               in Inr \<lparr>ps_buf = ps_buf s @ encoded,
                    ps_confidences = ps_confidences s @ [rec_confidence r],
                    ps_min = smaller_key (rec_id r) (ps_min s),
                    ps_max = larger_key (rec_id r) (ps_max s),
                    ps_bloom = bloom,
                    ps_histogram = (ps_histogram s)[bucket := ps_histogram s ! bucket + 1]\<rparr>))"

fun encode_records ::
  "hashes \<Rightarrow> page_codec \<Rightarrow> fun_record list \<Rightarrow> page_state \<Rightarrow> page_error + page_state" where
  "encode_records H P [] s = Inr s"
| "encode_records H P (r # rs) s =
     (case encode_record H P r s of Inl e \<Rightarrow> Inl e | Inr s1 \<Rightarrow> encode_records H P rs s1)"

definition page_bytes :: "nat \<Rightarrow> bytes \<Rightarrow> f32 list \<Rightarrow> bytes" where
  "page_bytes n buf confs =
     u32_to_le (as_u32 n) @ u32_to_le (as_u32 (length buf)) @ buf @ concat (map u32_to_le confs)"

text \<open>The rate 0.01.\<close>

definition page_fpr :: f64 where
  "page_fpr = 0x3F847AE147AE147B"

definition page_encode ::
  "hashes \<Rightarrow> page_codec \<Rightarrow> fun_record list \<Rightarrow> page_error + page_header \<times> bytes" where
  "page_encode H P rs =
     (if rs = [] then Inl EmptySlice
      else
        case bloom_new (page_ln P) (max (length rs) 1) page_fpr of
          None \<Rightarrow> Inl PagePanic
        | Some bloom \<Rightarrow>
            (case encode_records H P rs \<lparr>ps_buf = [], ps_confidences = [], ps_min = None, ps_max = None,
                    ps_bloom = bloom, ps_histogram = replicate 100 0\<rparr> of
               Inl e \<Rightarrow> Inl e
             | Inr s \<Rightarrow>
                 (case (ps_min s, ps_max s) of
                    (Some lo, Some hi) \<Rightarrow>
                      Inr (\<lparr>min_key = lo, max_key = hi, row_count = as_u32 (length rs),
                            page_bloom = ps_bloom s, confidence_histogram = ps_histogram s\<rparr>,
                           page_bytes (length rs) (ps_buf s) (ps_confidences s))
                  | _ \<Rightarrow> Inl PagePanic)))"

subsection \<open>The decoder\<close>

text \<open>The f32 values of the confidence section, four bytes each.\<close>

fun read_confidences :: "nat \<Rightarrow> bytes \<Rightarrow> f32 list" where
  "read_confidences 0 bs = []"
| "read_confidences (Suc n) bs = u32_from_le (take 4 bs) # read_confidences n (drop 4 bs)"

fun read_records :: "page_codec \<Rightarrow> nat \<Rightarrow> nat \<Rightarrow> bytes \<Rightarrow> page_error + fun_record list" where
  "read_records P i 0 bs = Inr []"
| "read_records P i (Suc n) bs =
     (case named_read P bs of
        None \<Rightarrow> Inl (RecordDecode i)
      | Some (r, rest) \<Rightarrow>
          (case read_records P (Suc i) n rest of Inl e \<Rightarrow> Inl e | Inr rs \<Rightarrow> Inr (r # rs)))"

definition reattach :: "fun_record list \<Rightarrow> f32 list \<Rightarrow> fun_record list" where
  "reattach rs confs = map2 (\<lambda>r c. r\<lparr>rec_confidence := c\<rparr>) rs confs"

definition page_decode :: "page_codec \<Rightarrow> page_header \<Rightarrow> bytes \<Rightarrow> page_error + fun_record list" where
  "page_decode P h data =
     (if length data < 8 then Inl (TooShort (length data))
      else
        let n = unat (u32_from_le (take 4 data));
            len = unat (u32_from_le (take 4 (drop 4 data)))
        in if length data < 8 + len + n * 4 then Inl (TooShort (length data))
           else if as_u32 n \<noteq> row_count h then Inl (RowCountMismatch (row_count h) (as_u32 n))
           else
             let confs = read_confidences n (take (n * 4) (drop (8 + len) data))
             in case read_records P 0 n (take len (drop 8 data)) of
                  Inl e \<Rightarrow> Inl e
                | Inr rs \<Rightarrow> Inr (reattach rs confs))"

subsection \<open>What the encoder writes\<close>

text \<open>
  A record streams when it is read back from the front of any bytes that start with its encoding: what
  MessagePack, whose values are self-delimiting, documents.
\<close>

definition streams :: "page_codec \<Rightarrow> fun_record \<Rightarrow> bool" where
  "streams P r \<longleftrightarrow> (case named_enc P r of None \<Rightarrow> False | Some b \<Rightarrow> \<forall>rest. named_read P (b @ rest) = Some (r, rest))"

definition encodings :: "page_codec \<Rightarrow> fun_record list \<Rightarrow> bytes" where
  "encodings P rs = concat (map (\<lambda>r. the (named_enc P r)) rs)"

text \<open>Counting into buckets, as a function of the list.\<close>

definition tally :: "fun_record list \<Rightarrow> u32 list \<Rightarrow> u32 list" where
  "tally rs h = fold (\<lambda>r h. h[bucket_of (rec_confidence r) := h ! bucket_of (rec_confidence r) + 1]) rs h"

definition least_key :: "fun_record list \<Rightarrow> bytes option \<Rightarrow> bytes option" where
  "least_key rs m = fold (\<lambda>r. smaller_key (rec_id r)) rs m"

definition greatest_key :: "fun_record list \<Rightarrow> bytes option \<Rightarrow> bytes option" where
  "greatest_key rs m = fold (\<lambda>r. larger_key (rec_id r)) rs m"

lemma encode_records_Inr:
  "encode_records H P rs s = Inr t \<longleftrightarrow>
     (\<forall>r\<in>set rs. named_enc P r \<noteq> None) \<and>
     (\<exists>bloom. bloom_insert_all H (map rec_id rs) (ps_bloom s) = Some bloom \<and>
       t = \<lparr>ps_buf = ps_buf s @ encodings P rs, ps_confidences = ps_confidences s @ map rec_confidence rs,
            ps_min = least_key rs (ps_min s), ps_max = greatest_key rs (ps_max s), ps_bloom = bloom,
            ps_histogram = tally rs (ps_histogram s)\<rparr>)"
proof (induction rs arbitrary: s)
  case Nil
  show ?case by (auto simp: encodings_def least_key_def greatest_key_def tally_def)
next
  case (Cons r rs)
  then show ?case
    by (auto simp: encode_record_def encodings_def least_key_def greatest_key_def tally_def Let_def
        split: option.splits)
qed

lemma smaller_key_spec:
  "\<exists>j. smaller_key k m = Some j \<and> j \<in> insert k (set_option m) \<and> (\<forall>l\<in>insert k (set_option m). j \<le> l)"
  by (cases m) (auto simp: smaller_key_def not_less less_imp_le)

lemma larger_key_spec:
  "\<exists>j. larger_key k m = Some j \<and> j \<in> insert k (set_option m) \<and> (\<forall>l\<in>insert k (set_option m). l \<le> j)"
  by (cases m) (auto simp: larger_key_def not_less less_imp_le)

lemma least_key_spec:
  "\<exists>k. least_key (r # rs) m = Some k \<and> k \<in> rec_id ` set (r # rs) \<union> set_option m \<and>
     (\<forall>l\<in>rec_id ` set (r # rs) \<union> set_option m. k \<le> l)"
proof (induction rs arbitrary: r m)
  case Nil
  show ?case by (cases m) (auto simp: least_key_def smaller_key_def)
next
  case (Cons r' rs)
  obtain k where k: "least_key (r' # rs) (smaller_key (rec_id r) m) = Some k"
    "k \<in> rec_id ` set (r' # rs) \<union> set_option (smaller_key (rec_id r) m)"
    "\<forall>l\<in>rec_id ` set (r' # rs) \<union> set_option (smaller_key (rec_id r) m). k \<le> l"
    using Cons.IH by blast
  obtain j where j: "smaller_key (rec_id r) m = Some j" "j \<in> insert (rec_id r) (set_option m)"
    "\<forall>l\<in>insert (rec_id r) (set_option m). j \<le> l"
    using smaller_key_spec by blast
  have "least_key (r # r' # rs) m = Some k" using k(1) by (simp add: least_key_def)
  moreover have "k \<le> j" using k(3) j(1) by auto
  ultimately show ?case using k(2,3) j by (auto intro: order_trans)
qed

lemma greatest_key_spec:
  "\<exists>k. greatest_key (r # rs) m = Some k \<and> k \<in> rec_id ` set (r # rs) \<union> set_option m \<and>
     (\<forall>l\<in>rec_id ` set (r # rs) \<union> set_option m. l \<le> k)"
proof (induction rs arbitrary: r m)
  case Nil
  show ?case by (cases m) (auto simp: greatest_key_def larger_key_def)
next
  case (Cons r' rs)
  obtain k where k: "greatest_key (r' # rs) (larger_key (rec_id r) m) = Some k"
    "k \<in> rec_id ` set (r' # rs) \<union> set_option (larger_key (rec_id r) m)"
    "\<forall>l\<in>rec_id ` set (r' # rs) \<union> set_option (larger_key (rec_id r) m). l \<le> k"
    using Cons.IH by blast
  obtain j where j: "larger_key (rec_id r) m = Some j" "j \<in> insert (rec_id r) (set_option m)"
    "\<forall>l\<in>insert (rec_id r) (set_option m). l \<le> j"
    using larger_key_spec by blast
  have "greatest_key (r # r' # rs) m = Some k" using k(1) by (simp add: greatest_key_def)
  moreover have "j \<le> k" using k(3) j(1) by auto
  ultimately show ?case using k(2,3) j by (auto intro: order_trans)
qed

lemma tally_bucket:
  assumes "length h = 100" and "i < 100"
  shows "tally rs h ! i = h ! i + as_u32 (length (filter (\<lambda>r. bucket_of (rec_confidence r) = i) rs))"
  using assms
proof (induction rs arbitrary: h)
  case (Cons r rs)
  let ?b = "bucket_of (rec_confidence r)"
  have "?b < 100" by (simp add: bucket_of_def)
  then show ?case
    using Cons.IH [of "h[?b := h ! ?b + 1]"] Cons.prems
    by (simp add: tally_def as_u32_def nth_list_update)
qed (simp add: tally_def as_u32_def)

lemma page_encode_Inr:
  assumes "page_encode H P rs = Inr (h, data)"
  obtains bloom0 where "rs \<noteq> []" and "\<forall>r\<in>set rs. named_enc P r \<noteq> None"
    and "bloom_insert_all H (map rec_id rs) bloom0 = Some (page_bloom h)"
    and "least_key rs None = Some (min_key h)" and "greatest_key rs None = Some (max_key h)"
    and "row_count h = as_u32 (length rs)" and "confidence_histogram h = tally rs (replicate 100 0)"
    and "data = page_bytes (length rs) (encodings P rs) (map rec_confidence rs)"
  using assms by (auto simp: page_encode_def encode_records_Inr that split: if_splits option.splits sum.splits)

subsection \<open>Reading it back\<close>

lemma read_confidences_concat: "read_confidences (length cs) (concat (map u32_to_le cs) @ rest) = cs"
  by (induction cs) simp_all

lemma read_records_encodings:
  "list_all (streams P) rs \<Longrightarrow> read_records P i (length rs) (encodings P rs @ rest) = Inr rs"
  by (induction rs arbitrary: i) (auto simp: streams_def encodings_def split: option.splits)

lemma reattach_id [simp]: "reattach rs (map rec_confidence rs) = rs"
  by (induction rs) (simp_all add: reattach_def)

lemma length_confidences [simp]: "length (concat (map u32_to_le cs)) = length cs * 4"
  by (induction cs) simp_all

lemma length_page_bytes: "length (page_bytes n buf confs) = 8 + length buf + length confs * 4"
  by (simp add: page_bytes_def)

lemma page_bytes_lengths:
  assumes "n < 2 ^ 32" and "length buf < 2 ^ 32" and "8 \<le> k"
  shows "u32_from_le (take 4 (take k (page_bytes n buf confs @ rest))) = as_u32 n"
    and "u32_from_le (take 4 (drop 4 (take k (page_bytes n buf confs @ rest)))) = as_u32 (length buf)"
  using assms by (simp_all add: page_bytes_def take_drop min_def)

subsection \<open>Properties\<close>

text \<open>A page is read back as the records it was written from, also when other bytes follow it.\<close>

theorem page_roundtrip:
  assumes "page_encode H P rs = Inr (h, data)" and "list_all (streams P) rs"
    and "length rs < 2 ^ 32" and "length (encodings P rs) < 2 ^ 32"
  shows "page_decode P h (data @ rest) = Inr rs"
proof -
  have h: "row_count h = as_u32 (length rs)"
    and d: "data = page_bytes (length rs) (encodings P rs) (map rec_confidence rs)"
    using page_encode_Inr [OF assms(1)] by metis+
  define D where "D = data @ rest"
  have sections: "take (length (encodings P rs)) (drop 8 D) = encodings P rs"
    "take (length rs * 4) (drop (8 + length (encodings P rs)) D) = concat (map u32_to_le (map rec_confidence rs))"
    by (simp_all add: D_def d page_bytes_def del: map_map)
  have lens: "u32_from_le (take 4 D) = as_u32 (length rs)"
    "u32_from_le (take 4 (drop 4 D)) = as_u32 (length (encodings P rs))"
    "8 + length (encodings P rs) + length rs * 4 \<le> length D"
    by (simp_all add: D_def d page_bytes_def del: map_map)
  have "read_confidences (length rs) (concat (map u32_to_le (map rec_confidence rs))) = map rec_confidence rs"
    using read_confidences_concat [of "map rec_confidence rs" "[]"] by simp
  moreover have "read_records P 0 (length rs) (encodings P rs) = Inr rs"
    using read_records_encodings [OF assms(2), of 0 "[]"] by simp
  ultimately have "page_decode P h D = Inr rs"
    using assms(3,4) h sections lens by (simp add: page_decode_def Let_def unat_as_u32 del: map_map)
  then show ?thesis by (simp add: D_def)
qed

text \<open>A page that is cut short anywhere is refused.\<close>

theorem page_truncation_detected:
  assumes "page_encode H P rs = Inr (h, data)"
    and "length rs < 2 ^ 32" and "length (encodings P rs) < 2 ^ 32" and "k < length data"
  shows "page_decode P h (take k data) = Inl (TooShort k)"
proof (cases "k < 8")
  case False
  have d: "data = page_bytes (length rs) (encodings P rs) (map rec_confidence rs)"
    using page_encode_Inr [OF assms(1)] by metis
  show ?thesis
    using False assms(2-4) page_bytes_lengths [OF assms(2,3), of k "map rec_confidence rs" "[]"]
    by (simp add: page_decode_def Let_def unat_as_u32 length_page_bytes d)
qed (use assms in \<open>simp add: page_decode_def\<close>)

text \<open>
  Encoding succeeds exactly for a non-empty list of records that can all be serialized, unless the
  number of records is so large that the size of the filter wraps.
\<close>

theorem page_encode_defined:
  assumes "sizable (page_ln P) (max (length rs) 1) page_fpr"
  shows "(\<exists>h data. page_encode H P rs = Inr (h, data)) \<longleftrightarrow> rs \<noteq> [] \<and> list_all (\<lambda>r. named_enc P r \<noteq> None) rs"
proof
  assume "rs \<noteq> [] \<and> list_all (\<lambda>r. named_enc P r \<noteq> None) rs"
  then obtain r rs' where rs: "rs = r # rs'" "\<forall>r\<in>set rs. named_enc P r \<noteq> None"
    by (cases rs) (auto simp: list_all_iff)
  obtain f where f: "bloom_new (page_ln P) (max (length rs) 1) page_fpr = Some f" and "bits f \<noteq> []"
    using assms by (rule bloom_new_sizable)
  obtain g where g: "bloom_insert_all H (map rec_id rs) f = Some g" using bloom_insert_all_total [OF \<open>bits f \<noteq> []\<close>] by blast
  obtain lo hi where "least_key rs None = Some lo" "greatest_key rs None = Some hi"
    using least_key_spec [of r rs' None] greatest_key_spec [of r rs' None] rs(1) by auto
  then have "encode_records H P rs \<lparr>ps_buf = [], ps_confidences = [], ps_min = None, ps_max = None,
      ps_bloom = f, ps_histogram = replicate 100 0\<rparr> =
    Inr \<lparr>ps_buf = encodings P rs, ps_confidences = map rec_confidence rs, ps_min = Some lo, ps_max = Some hi,
      ps_bloom = g, ps_histogram = tally rs (replicate 100 0)\<rparr>"
    using rs(2) g by (simp add: encode_records_Inr)
  then show "\<exists>h data. page_encode H P rs = Inr (h, data)"
    using f rs(1) by (simp add: page_encode_def)
qed (auto simp: list_all_iff elim: page_encode_Inr)

text \<open>
  The header describes its page: the key range is tight, the filter contains every id, the histogram
  counts the records of each bucket.
\<close>

theorem page_header_exact:
  assumes "page_encode H P rs = Inr (h, data)"
  shows "row_count h = as_u32 (length rs) \<and> {min_key h, max_key h} \<subseteq> rec_id ` set rs \<and>
    list_all (\<lambda>r. min_key h \<le> rec_id r \<and> rec_id r \<le> max_key h \<and>
      bloom_contains H (page_bloom h) (rec_id r) = Some True) rs \<and>
    list_all (\<lambda>i. confidence_histogram h ! i =
      as_u32 (length (filter (\<lambda>r. bucket_of (rec_confidence r) = i) rs))) [0..<100]"
proof -
  obtain f where facts: "rs \<noteq> []" "bloom_insert_all H (map rec_id rs) f = Some (page_bloom h)"
    "least_key rs None = Some (min_key h)" "greatest_key rs None = Some (max_key h)"
    "row_count h = as_u32 (length rs)" "confidence_histogram h = tally rs (replicate 100 0)"
    using page_encode_Inr [OF assms] by metis
  obtain r rs' where rs: "rs = r # rs'" using facts(1) by (cases rs) auto
  have lo: "min_key h \<in> rec_id ` set rs" "\<forall>l\<in>rec_id ` set rs. min_key h \<le> l"
    using least_key_spec [of r rs' None] facts(3) rs by auto
  have hi: "max_key h \<in> rec_id ` set rs" "\<forall>l\<in>rec_id ` set rs. l \<le> max_key h"
    using greatest_key_spec [of r rs' None] facts(4) rs by auto
  have "bloom_contains H (page_bloom h) (rec_id x) = Some True" if "x \<in> set rs" for x
    using bloom_insert_all_contains [OF facts(2)] that by simp
  then show ?thesis
    using lo hi facts(5,6) tally_bucket [of "replicate 100 0"] by (auto simp: list_all_iff)
qed

end
