(* ===== verification/Spec2Isabelle.thy ===== *)
theory Spec2Isabelle
  imports
    Storage_Properties Engine_Properties Raft_Properties Sharding_Properties Parser_Properties
    Query_Properties Graph_Properties Dist_Properties Security_Properties Memory_Properties
    Contradiction_Properties Pg_Properties Cli_Properties Cli_Server Page
begin

text \<open>
  FunDB is a database engine written in Rust: a workspace of crates under \<open>src/crates/\<close>. This library
  models its own logic in Isabelle/HOL, proves the properties that make it correct, and proves where
  it is not.

  Parts and how they interact. A query text is lexed and parsed (\<open>fundb-sql\<close>) to a syntax tree, bound
  to a logical plan against a catalog (\<open>fundb-sql/src/binder.rs\<close>), rewritten by the optimizer
  (\<open>fundb-optimizer\<close>) and run by the executor (\<open>fundb-executor\<close>) over the storage engine
  (\<open>fundb-storage\<close>): an LSM tree with a write-ahead log, memtables, immutable segments with Bloom
  filters, a block cache and compaction; records are those of \<open>fundb-core\<close>. Beside it stand the
  version store (\<open>mvcc.rs\<close>), the indexes (\<open>fundb-indexes\<close>), and the replication of \<open>fundb-raft\<close> and
  \<open>fundb-cluster\<close>. The server (\<open>fundb-server\<close>) is reached over the wire protocol of \<open>fundb-protocol\<close>,
  which the command line client (\<open>fundb-cli\<close>) speaks from the other side. The memories, confidences and
  context windows of \<open>fundb-cognitive\<close> work on the records alone.

  Storage and record theories.
  \<^item> \<open>Prelude\<close>: words, bytes, counters that wrap, readers, sorted lists. \<open>Ordered_Map\<close>: \<open>BTreeMap\<close> and
    the index of \<open>fundb-indexes/src/btree.rs\<close>, with the locale of an ordered map. \<open>Record_Types\<close>:
    \<open>fundb-core\<close> (\<open>types.rs\<close>, \<open>record.rs\<close>, \<open>builder.rs\<close>). \<open>Codec\<close>: the encoders and hashes that are
    other crates' code, as one record of functions passed to the definitions.
  \<^item> \<open>Bloom\<close> and \<open>Page\<close> (\<open>fundb-core/src/page.rs\<close>: the filter, and the page encoder and decoder with
    their round trip), and \<open>Wal\<close>, \<open>MemTable\<close>, \<open>Sstable\<close>, \<open>Block_Cache\<close>, \<open>Compaction\<close>,
    \<open>Mvcc\<close>, \<open>Lsm\<close>: the files of the same names of \<open>fundb-storage\<close>. \<open>Record_Source\<close> is the interface
    of a layer that can be looked up, interpreted for memtables and segments. \<open>Lsm_Facts\<close> gives the
    abstraction \<open>view\<close> of a tree: the map from keys to live records; \<open>Lsm_Maintenance\<close> relates flush
    and compaction to it. \<open>Temporal_Index\<close>: \<open>fundb-indexes/src/temporal.rs\<close>.
  \<^item> \<open>Storage_Properties\<close> and \<open>Engine_Properties\<close>: runs of client operations and of the two steps of flush
    tasks against a map (\<open>orderly\<close> is the invariant, \<open>run_ok\<close> the condition on the steps), scans, recovery
    after a crash at any point of such a run, flush and compaction, and the inputs on which each of them
    fails; round trips of log and segment; no false negatives; bounds of the cache; time travel.

  Replication theories.
  \<^item> \<open>Raft\<close>, \<open>Raft_Facts\<close>, \<open>Raft_Properties\<close>: \<open>fundb-raft/src/raft.rs\<close>, a node as a state with one
    definition per handler, the storage as a record of operations (the in-memory one interprets the
    locale of its laws). What a follower's log holds after an AppendEntries, the majority behind a commit,
    and the commits without one.
  \<^item> \<open>Sharding\<close>, \<open>Sharding_Facts\<close>, \<open>Sharding_Properties\<close>: \<open>fundb-cluster/src/sharding.rs\<close>, the hash ring
    with its invariant.

  Query theories.
  \<^item> \<open>Lexer\<close>, \<open>Ast\<close>, \<open>Parser\<close>, \<open>Parser_Select\<close>, \<open>Parser_Statements\<close>: \<open>token.rs\<close>, \<open>lexer.rs\<close>, \<open>ast.rs\<close>
    and \<open>parser.rs\<close> of \<open>fundb-sql\<close>, function by function. A parser is a function from the tokens that
    are left; \<open>Parser_Facts\<close> has the predicates its combinators preserve, \<open>Parser_Safety\<close> that every
    parser consumes tokens and never runs out of fuel, \<open>Parser_Grammar\<close> the declarative grammar of
    expressions and \<open>Parser_Reads\<close> that the parser reads it.
  \<^item> \<open>Lexer_Properties\<close>, \<open>Parser_Properties\<close>: totality, round trips, precedence, and misread inputs.
  \<^item> \<open>Text\<close>: the operations of \<open>str\<close>; \<open>Ieee\<close>: the arithmetic of f32 and f64 on bit patterns, computed
    exactly and rounded to nearest even; \<open>Logical_Plan\<close>: \<open>logical_plan.rs\<close>.
  \<^item> \<open>Binder\<close>: \<open>binder.rs\<close>, every function; a \<open>Result\<close> is a sum. \<open>Optimizer\<close>: \<open>fundb-optimizer/src/rules.rs\<close>
    and the loop of its \<open>lib.rs\<close>. \<open>Executor\<close>: \<open>fundb-executor\<close>, batches, operators and the dispatch over
    plans, on the LSM tree. \<open>Handler\<close>: \<open>fundb-server/src/handler.rs\<close>, from the text of a query to rows,
    with the result records of \<open>Pg_Wire\<close>.
  \<^item> \<open>Comparator\<close>: the comparison of records as an instance of the locale of \<open>Sorting\<close>, and the order
    that an ORDER BY clause asks for, stated apart from it. \<open>Ieee_Facts\<close>:
    integers below \<open>2 ^ 53\<close> are exact. \<open>Query_Facts\<close>: what each operator does to the rows, and that each rewriting rule keeps the result of a plan.
  \<^item> \<open>Query_Properties\<close>: what a SELECT returns, that the optimizer keeps it, sorting, inserts, and the
    statements and texts that the server acknowledges without executing them.

  Graph, cluster and security theories.
  \<^item> \<open>Adjacency\<close>: the map from a node to its edges; \<open>Graph_Index\<close> and \<open>Causal_Dag\<close>: \<open>graph.rs\<close> and
    \<open>causal_dag.rs\<close> of \<open>fundb-indexes\<close>; \<open>Graph_Facts\<close> and \<open>Causal_Dag_Facts\<close>: walks, distances, the
    invariant of the breadth-first search, reachability and the two mirrored maps.
  \<^item> \<open>Sorting\<close>: the locale of comparison functions with the correctness of a stable sort. \<open>Dist_Query\<close>:
    \<open>fundb-cluster/src/dist_query.rs\<close>. \<open>Security\<close>: \<open>fundb-server/src/security.rs\<close>.
  \<^item> \<open>Graph_Properties\<close>: acyclicity, shortest distances, exact path sets. \<open>Dist_Properties\<close>: a query over
    shards against the same query over all records, and what failures do. \<open>Security_Properties\<close>: grants
    as triples, what scoping a query guarantees.

  Cognitive theories.
  \<^item> \<open>Vectors\<close>: the float sums they share. \<open>Agent_Memory\<close>: \<open>memory.rs\<close>; \<open>Contradictions\<close>: \<open>confidence.rs\<close>,
    \<open>contradiction.rs\<close> and the confidence index of \<open>fundb-indexes\<close>; \<open>Context_Window\<close>: \<open>context.rs\<close>.
    \<open>Memory_Properties\<close> and \<open>Contradiction_Properties\<close>: recall, consolidation and forgetting, bounds of
    confidences, exactness of detection and of range queries, the token budget.

  Protocol and client theories.
  \<^item> \<open>Utf8\<close>: the decoding of UTF-8. \<open>Pg_Wire\<close>: \<open>pg_wire.rs\<close> of \<open>fundb-protocol\<close>, a connection as a
    function from the bytes that arrive to the messages that leave, with the handler an argument;
    \<open>Pg_Client\<close>: \<open>fundb-cli/src/connection.rs\<close> with its MD5; \<open>Pg_Extended\<close>: \<open>extended.rs\<close>, \<open>copy.rs\<close> and
    \<open>auth.rs\<close>. \<open>Pg_Facts\<close>: each message of one side as the other side reads it. \<open>Pg_Properties\<close>: sessions,
    answers, portals, COPY, MD5.
  \<^item> \<open>Cli\<close>: \<open>args.rs\<close>, \<open>commands.rs\<close> and \<open>display.rs\<close>; \<open>Cli_Session\<close>: \<open>repl.rs\<close> and \<open>main.rs\<close> of \<open>fundb-cli\<close>.
    \<open>Cli_Properties\<close>: output formats read back, history, statements over lines, exit codes; \<open>Cli_Server\<close>:
    what the server's parser makes of the client's meta-commands.

  Bounds and fuel. The parser recurses to a depth bounded by the number of tokens and its loops run at
  most one round more than there are tokens; \<open>parse_total\<close> shows that this is enough for every input.
  The search for a cycle takes the number of nodes with edges plus two as fuel, and \<open>can_reach_correct\<close>
  shows that it always decides. The reference readers of CSV and JSON take the length of their input.
  The other loops are recursions with a measure. Words keep their width;
  usize and the u64 counters are naturals with the wrap-around written out where the code can reach
  it. Releases are modelled (additions wrap), not debug builds.

  Arguments that stand for what is not under \<open>src/\<close>: the xxh3 and MessagePack encoders, clocks, generated
  ids, random numbers, the Unicode tables beyond ASCII, the parser of f64 literals, and the
  transcendental functions (the logarithm that sizes a Bloom filter among them). A theorem that needs a round trip of such an encoder says so.

  Not modelled, and simplifications. A file write is atomic and never fails, except where a property
  tears it; \<open>fsync\<close> is what the write-ahead log records as synced, and the tree itself never asks for
  it. An operation that takes several locks one after the other is one step, except the flush task.
  The order of a hash map is the order of its keys. The call stack is unbounded. A connection reads from
  a list of bytes that ends where the peer closes it; deadlines of shards are an argument.
  Not modelled: the generation of ids, the vector index, causal inference and
  learning to rank (statistics over floats), the cost model, the semantic layer, the HTTP endpoint and
  the metrics of the server; the manifest lists them with the reasons.
\<close>

end
